(* ===== verification/Rank_Key.thy ===== *)
theory Rank_Key
  imports Prelude
begin

text \<open>
  The fractional ranking keys of \<open>internal/rankkey/rankkey.go\<close>: base-36 strings in byte order,
  between any two of which a new key can be made. A Go string is the list of its bytes
  (\<open>char\<close>), ordered as Go orders strings. A read of \<open>digits\<close> out of range is Go's index panic
  and the error \<open>Digit_Panic\<close> of the model.
\<close>

datatype rank_error = Empty_Interval | Digit_Panic

subsection \<open>The code\<close>

definition digits :: string where
  "digits = ''0123456789abcdefghijklmnopqrstuvwxyz''"

definition base :: int where
  "base = int (length digits)"

fun index_byte :: "string \<Rightarrow> char \<Rightarrow> int" where
  "index_byte [] c = - 1"
| "index_byte (d # ds) c =
     (if d = c then 0 else (let r = index_byte ds c in if r = - 1 then - 1 else r + 1))"

definition digitVal :: "char \<Rightarrow> int" where
  "digitVal b = index_byte digits b"

definition digitAt :: "string \<Rightarrow> nat \<Rightarrow> int \<Rightarrow> int" where
  "digitAt s i def = (if i < length s then digitVal (s ! i) else def)"

definition digit_byte :: "int \<Rightarrow> rank_error + char" where
  "digit_byte d = (if 0 \<le> d \<and> d < base then Inr (digits ! nat d) else Inl Digit_Panic)"

text \<open>The inner loop, entered once the output is known to lie below the upper bound.\<close>

function between_tail :: "string \<Rightarrow> nat \<Rightarrow> string \<Rightarrow> rank_error + string" where
  "between_tail a i out =
     (let da = digitAt a i 0 in
      if da + 1 < base then bind_result (digit_byte ((da + base) div 2)) (\<lambda>c. Inr (out @ [c]))
      else (case digit_byte da of Inl e \<Rightarrow> Inl e | Inr c \<Rightarrow> between_tail a (Suc i) (out @ [c])))"
  by pat_completeness auto
termination
  by (relation "measure (\<lambda>(a, i, out). length a - i)")
    (auto simp: digitAt_def base_def digits_def split: if_splits)

text \<open>
  The outer loop: equal digits are copied, a gap of two or more is halved, a gap of one copies the
  lower digit and leaves for the inner loop (where the code's \<open>bMax\<close> is set and no longer read).
\<close>

function between_scan :: "string \<Rightarrow> string \<Rightarrow> bool \<Rightarrow> nat \<Rightarrow> string \<Rightarrow> rank_error + string" where
  "between_scan a b bMax i out =
     (let da = digitAt a i 0;
          db = (if bMax then base else digitAt b i base) in
      if da = db then
        (case digit_byte da of Inl e \<Rightarrow> Inl e | Inr c \<Rightarrow> between_scan a b bMax (Suc i) (out @ [c]))
      else if db - da \<ge> 2 then
        bind_result (digit_byte ((da + db) div 2)) (\<lambda>c. Inr (out @ [c]))
      else bind_result (digit_byte da) (\<lambda>c. between_tail a (Suc i) (out @ [c])))"
  by pat_completeness auto
termination
  by (relation "measure (\<lambda>(a, b, bMax, i, out). (length a - i) + (length b - i))")
    (auto simp: digitAt_def base_def digits_def split: if_splits)

declare between_tail.simps [simp del] between_scan.simps [simp del]

definition Between :: "string \<Rightarrow> string \<Rightarrow> rank_error + string" where
  "Between a b =
     (if a \<noteq> [] \<and> b \<noteq> [] \<and> a \<ge> b then Inl Empty_Interval
      else between_scan a b (b = []) 0 [])"

text \<open>\<open>seedRange\<close> fills \<open>keys[lo..hi)\<close> by bisection; a failing \<open>Between\<close> is the code's panic.\<close>

function seedRange :: "string list \<Rightarrow> nat \<Rightarrow> nat \<Rightarrow> string \<Rightarrow> string \<Rightarrow> rank_error + string list" where
  "seedRange keys lo hi low high =
     (if lo \<ge> hi then Inr keys
      else (let mid = (lo + hi) div 2 in
        case Between low high of
          Inl e \<Rightarrow> Inl e
        | Inr k \<Rightarrow>
            (case seedRange (keys[mid := k]) lo mid low k of
               Inl e \<Rightarrow> Inl e
             | Inr keys' \<Rightarrow> seedRange keys' (mid + 1) hi k high)))"
  by pat_completeness auto
termination
  by (relation "measure (\<lambda>(keys, lo, hi, low, high). hi - lo)") auto

declare seedRange.simps [simp del]

definition Seed :: "int \<Rightarrow> rank_error + string list" where
  "Seed n = (if n \<le> 0 then Inr [] else seedRange (replicate (nat n) []) 0 (nat n) [] [])"

definition After :: "string \<Rightarrow> rank_error + string" where
  "After mx =
     (if mx = [] then bind_result (digit_byte (base div 2)) (\<lambda>c. Inr [c])
      else (case Between mx [] of
          Inl Empty_Interval \<Rightarrow> Inr []
        | Inl Digit_Panic \<Rightarrow> Inl Digit_Panic
        | Inr k \<Rightarrow> Inr k))"

subsection \<open>Digits\<close>

text \<open>A key is valid when every byte is one of the digits, and open when it does not end in \<open>0\<close>.\<close>

definition rank_valid :: "string \<Rightarrow> bool" where
  "rank_valid s \<longleftrightarrow> (\<forall>c \<in> set s. c \<in> set digits)"

definition rank_open :: "string \<Rightarrow> bool" where
  "rank_open s \<longleftrightarrow> s = [] \<or> last s \<noteq> CHR ''0''"

lemma base_36 [simp]: "base = 36"
  by (simp add: base_def digits_def)

lemma length_digits [simp]: "length digits = 36"
  by (simp add: digits_def)

lemma sorted_digits: "sorted_wrt (<) digits"
  by code_simp

lemma digits_nth_less_iff [simp]:
  assumes "m < 36" "n < 36"
  shows "digits ! m < digits ! n \<longleftrightarrow> m < n"
proof -
  have mono: "digits ! i < digits ! j" if "i < j" "j < 36" for i j
    using sorted_wrt_nth_less [OF sorted_digits that(1)] that(2) by simp
  show ?thesis
    using mono [of m n] mono [of n m] assms by (cases m n rule: linorder_cases) auto
qed

lemma distinct_digits: "distinct digits"
  using sorted_digits strict_sorted_iff by blast

lemma index_byte_nth: "distinct ds \<Longrightarrow> n < length ds \<Longrightarrow> index_byte ds (ds ! n) = int n"
proof (induction ds arbitrary: n)
  case (Cons d ds)
  then show ?case by (cases n) (auto simp: Let_def nth_eq_iff_index_eq)
qed simp

lemma digitVal_nth [simp]: "n < 36 \<Longrightarrow> digitVal (digits ! n) = int n"
  unfolding digitVal_def by (rule index_byte_nth) (simp_all add: distinct_digits)

lemma digit_byte_nth [simp]: "n < 36 \<Longrightarrow> digit_byte (int n) = Inr (digits ! n)"
  by (simp add: digit_byte_def)

lemma valid_digitE:
  assumes "c \<in> set digits"
  obtains n where "n < 36" "c = digits ! n"
  using assms by (metis in_set_conv_nth length_digits)

lemma nth_digits_0 [simp]: "n < 36 \<Longrightarrow> digits ! n = CHR ''0'' \<longleftrightarrow> n = 0"
proof -
  have "CHR ''0'' = digits ! 0" by (simp add: digits_def)
  then show "n < 36 \<Longrightarrow> ?thesis"
    using distinct_digits by (simp add: nth_eq_iff_index_eq)
qed

subsection \<open>A reference definition on digit values\<close>

text \<open>
  The same computation on the list of digit values, without indices, accumulator or panics. The
  indexed loops of the code are proved equal to it, and the order properties are proved for it.
\<close>

definition of_digits :: "nat list \<Rightarrow> string" where
  "of_digits ns = map (\<lambda>n. digits ! n) ns"

abbreviation small :: "nat list \<Rightarrow> bool" where
  "small ns \<equiv> (\<forall>n \<in> set ns. n < 36)"

fun mid_tail :: "nat list \<Rightarrow> nat list" where
  "mid_tail [] = [18]"
| "mid_tail (x # xs) = (if x + 1 < 36 then [(x + 36) div 2] else x # mid_tail xs)"

fun mid :: "nat list \<Rightarrow> nat list \<Rightarrow> nat list" where
  "mid xs [] = mid_tail xs"
| "mid [] (y # ys) =
     (if y = 0 then 0 # mid [] ys else if y \<ge> 2 then [y div 2] else 0 # mid_tail [])"
| "mid (x # xs) (y # ys) =
     (if x = y then x # mid xs ys else if y \<ge> x + 2 then [(x + y) div 2] else x # mid_tail xs)"

lemma of_digits_simps [simp]:
  "of_digits [] = []"
  "of_digits (n # ns) = digits ! n # of_digits ns"
  "of_digits (ms @ ns) = of_digits ms @ of_digits ns"
  "length (of_digits ns) = length ns"
  "of_digits ns = [] \<longleftrightarrow> ns = []"
  by (simp_all add: of_digits_def)

lemma rank_validE:
  assumes "rank_valid s"
  obtains ns where "small ns" "s = of_digits ns"
  using assms
proof (induction s arbitrary: thesis)
  case Nil
  show ?case by (rule Nil(1) [of "[]"]) simp_all
next
  case (Cons c s)
  then obtain ns where "small ns" "s = of_digits ns"
    by (auto simp: rank_valid_def)
  moreover obtain n where "n < 36" "c = digits ! n"
    using Cons.prems by (auto simp: rank_valid_def elim: valid_digitE)
  ultimately show ?case
    using Cons.prems(1) [of "n # ns"] by simp
qed

lemma rank_valid_of_digits [simp]: "small ns \<Longrightarrow> rank_valid (of_digits ns)"
  by (auto simp: rank_valid_def of_digits_def)

lemma of_digits_less_iff [simp]:
  "small ms \<Longrightarrow> small ns \<Longrightarrow> of_digits ms < of_digits ns \<longleftrightarrow> ms < ns"
proof (induction ms arbitrary: ns)
  case Nil
  then show ?case by (cases ns) auto
next
  case (Cons m ms)
  show ?case
  proof (cases ns)
    case (Cons n ns')
    then show ?thesis
      using Cons.IH [of ns'] Cons.prems distinct_digits by (auto simp: nth_eq_iff_index_eq)
  qed simp
qed

lemma rank_open_of_digits [simp]:
  "small ns \<Longrightarrow> rank_open (of_digits ns) \<longleftrightarrow> ns = [] \<or> last ns \<noteq> 0"
  by (cases ns rule: rev_cases) (auto simp: rank_open_def)

subsection \<open>The loops compute the reference\<close>

lemma digitAt_of_digits:
  "small ns \<Longrightarrow> digitAt (of_digits ns) i def = (if i < length ns then int (ns ! i) else def)"
  by (simp add: digitAt_def of_digits_def)

lemma digit_byte_half [simp]:
  "m + n < 72 \<Longrightarrow> digit_byte ((int m + int n) div 2) = Inr (digits ! ((m + n) div 2))"
  using digit_byte_nth [of "(m + n) div 2"] by (simp add: zdiv_int)

lemma digit_byte_half_top [simp]:
  "m < 36 \<Longrightarrow> digit_byte ((int m + 36) div 2) = Inr (digits ! ((m + 36) div 2))"
  using digit_byte_half [of m 36] by simp

lemma between_tail_mid:
  assumes "small as"
  shows "between_tail (of_digits as) i out = Inr (out @ of_digits (mid_tail (drop i as)))"
  using assms
proof (induction "length as - i" arbitrary: i out)
  case 0
  then show ?case
    by (subst between_tail.simps) (simp add: digitAt_of_digits digit_byte_def)
next
  case (Suc k)
  then have i: "i < length as" by simp
  then have small: "as ! i < 36" using Suc.prems by simp
  show ?case
  proof (cases "as ! i + 1 < 36")
    case True
    with i small Suc.prems show ?thesis
      by (subst between_tail.simps) (simp add: digitAt_of_digits drop_Cons_nth)
  next
    case False
    with small have top: "as ! i = 35" by simp
    have "between_tail (of_digits as) (Suc i) (out @ [digits ! 35]) =
        Inr ((out @ [digits ! 35]) @ of_digits (mid_tail (drop (Suc i) as)))"
      using Suc.hyps(1) [of "Suc i"] Suc.hyps(2) Suc.prems by simp
    with i top Suc.prems show ?thesis
      by (subst between_tail.simps)
        (simp add: digitAt_of_digits drop_Cons_nth digit_byte_def)
  qed
qed

definition lead :: "nat \<Rightarrow> nat list \<Rightarrow> nat" where
  "lead def ns = (case ns of [] \<Rightarrow> def | n # _ \<Rightarrow> n)"

lemma mid_step:
  assumes "small as" "small bs"
  shows "mid as bs =
    (if lead 0 as = lead 36 bs then lead 0 as # mid (tl as) (tl bs)
     else if lead 36 bs \<ge> lead 0 as + 2 then [(lead 0 as + lead 36 bs) div 2]
     else lead 0 as # mid_tail (tl as))"
  using assms by (cases "(as, bs)" rule: mid.cases; cases as) (auto simp: lead_def)

lemma digitAt_lead:
  assumes "small ns"
  shows "digitAt (of_digits ns) i (int def) = int (lead def (drop i ns))"
  using assms by (cases "i < length ns") (simp_all add: digitAt_of_digits lead_def drop_Cons_nth)

lemma lead_small: "small ns \<Longrightarrow> lead def (drop i ns) < 36 \<or> lead def (drop i ns) = def \<and> drop i ns = []"
  by (cases "i < length ns") (simp_all add: lead_def drop_Cons_nth)

lemma between_scan_step:
  fixes as bs i
  defines "x \<equiv> lead 0 (drop i as)" and "y \<equiv> lead 36 (drop i bs)"
  assumes small: "small as" "small bs"
  shows "between_scan (of_digits as) (of_digits bs) (bs = []) i out =
    (if x = y then between_scan (of_digits as) (of_digits bs) (bs = []) (Suc i) (out @ [digits ! x])
     else if y \<ge> x + 2 then Inr (out @ [digits ! ((x + y) div 2)])
     else Inr (out @ digits ! x # of_digits (mid_tail (drop (Suc i) as))))"
proof -
  have x: "digitAt (of_digits as) i 0 = int x"
    using digitAt_lead [OF small(1), of i 0] by (simp add: x_def)
  have y: "(if bs = [] then base else digitAt (of_digits bs) i base) = int y"
    using digitAt_lead [OF small(2), of i 36] by (simp add: y_def lead_def)
  have xy: "x < 36" "y \<le> 36"
    using lead_small [OF small(1), of 0 i] lead_small [OF small(2), of 36 i]
    by (auto simp: x_def y_def)
  have half: "digit_byte ((int x + int y) div 2) = Inr (digits ! ((x + y) div 2))"
    using xy by (intro digit_byte_half) simp
  show ?thesis
    by (subst between_scan.simps)
      (use xy half in \<open>auto simp: x y Let_def between_tail_mid [OF small(1)]\<close>)
qed

lemma between_scan_mid:
  assumes "small as" "small bs"
  shows "between_scan (of_digits as) (of_digits bs) (bs = []) i out =
    Inr (out @ of_digits (mid (drop i as) (drop i bs)))"
proof (induction "length bs - i" arbitrary: i out)
  case 0
  then have "lead 36 (drop i bs) = 36" by (simp add: lead_def)
  moreover have "lead 0 (drop i as) < 36"
    using lead_small [OF assms(1), of 0 i] by auto
  ultimately show ?case
    using assms by (subst between_scan_step, simp, simp, subst mid_step)
      (auto simp: drop_Suc tl_drop dest: in_set_dropD)
next
  case (Suc k)
  have IH: "between_scan (of_digits as) (of_digits bs) (bs = []) (Suc i) o' =
      Inr (o' @ of_digits (mid (drop (Suc i) as) (drop (Suc i) bs)))" for o'
    using Suc.hyps by simp
  show ?case
    using assms by (subst between_scan_step, simp, simp, subst mid_step)
      (auto simp: IH drop_Suc tl_drop dest: in_set_dropD)
qed

subsection \<open>Order and length of the reference\<close>

lemma mid_tail_props:
  "small as \<Longrightarrow> as < mid_tail as \<and> small (mid_tail as) \<and> mid_tail as \<noteq> [] \<and>
     last (mid_tail as) \<noteq> 0 \<and> length (mid_tail as) \<le> length as + 1"
  by (induction as) auto

lemma mid_props:
  "small as \<Longrightarrow> small bs \<Longrightarrow> small (mid as bs) \<and> mid as bs \<noteq> [] \<and>
     last (mid as bs) \<noteq> 0 \<and> length (mid as bs) \<le> max (length as) (length bs) + 1"
  by (induction as bs rule: mid.induct) (auto simp: mid_tail_props dest: mid_tail_props)

lemma mid_above: "small as \<Longrightarrow> small bs \<Longrightarrow> bs = [] \<or> as < bs \<Longrightarrow> as < mid as bs"
  by (induction as bs rule: mid.induct) (auto simp: mid_tail_props)

lemma mid_below:
  "small as \<Longrightarrow> small bs \<Longrightarrow> as < bs \<Longrightarrow> last bs \<noteq> 0 \<Longrightarrow> mid as bs < bs"
proof (induction as bs rule: mid.induct)
  case (2 y ys)
  then show ?case by (cases ys) auto
qed (auto split: if_splits)

subsection \<open>What the exported functions promise\<close>

text \<open>A stored key: nonempty, made of digits, and not ending in the least digit.\<close>

definition rank_key :: "string \<Rightarrow> bool" where
  "rank_key s \<longleftrightarrow> s \<noteq> [] \<and> rank_valid s \<and> rank_open s"

lemma Between_spec:
  assumes valid: "rank_valid a" "rank_valid b" and "open": "rank_open b"
    and gap: "a = [] \<or> b = [] \<or> a < b"
  shows "\<exists>k. Between a b = Inr k \<and> rank_key k \<and> a < k \<and> (b = [] \<or> k < b) \<and>
    length k \<le> max (length a) (length b) + 1"
proof -
  from valid obtain as bs where ab: "small as" "a = of_digits as" "small bs" "b = of_digits bs"
    by (auto elim!: rank_validE)
  have "Between a b = between_scan a b (b = []) 0 []"
    using gap by (auto simp: Between_def)
  then have eq: "Between a b = Inr (of_digits (mid as bs))"
    using between_scan_mid [OF ab(1,3), of 0 "[]"] ab by simp
  have lt: "bs = [] \<or> as < bs" and last: "bs = [] \<or> last bs \<noteq> 0"
    using gap "open" ab by auto
  note mid_props [OF ab(1,3)]
  moreover have "as < mid as bs" using mid_above [OF ab(1,3) lt] .
  moreover have "bs = [] \<or> mid as bs < bs"
    using mid_below [OF ab(1,3)] lt last by blast
  ultimately show ?thesis
    using eq ab by (auto simp: rank_key_def)
qed

text \<open>
  The interface the callers rely on: between two neighbouring keys, before the first and after the
  last there is always another key. Positions without a neighbour are the empty string, as in the
  code.
\<close>

locale key_space =
  fixes between :: "string \<Rightarrow> string \<Rightarrow> 'e + string"
    and key :: "string \<Rightarrow> bool"
  assumes between_key: "\<lbrakk>a = [] \<or> key a; b = [] \<or> key b; a = [] \<or> b = [] \<or> a < b\<rbrakk> \<Longrightarrow>
      \<exists>k. between a b = Inr k \<and> key k \<and> a < k \<and> (b = [] \<or> k < b)"
    and key_nonempty: "key k \<Longrightarrow> k \<noteq> []"
begin

definition ordered :: "string list \<Rightarrow> bool" where
  "ordered ks \<longleftrightarrow> sorted_wrt (<) ks \<and> (\<forall>k \<in> set ks. key k)"

definition low_of :: "string list \<Rightarrow> string" where
  "low_of ks = (if ks = [] then [] else last ks)"

definition high_of :: "string list \<Rightarrow> string" where
  "high_of ks = (if ks = [] then [] else hd ks)"

lemma ordered_append:
  "ordered (xs @ ys) \<longleftrightarrow> ordered xs \<and> ordered ys \<and> (\<forall>x \<in> set xs. \<forall>y \<in> set ys. x < y)"
  by (auto simp: ordered_def sorted_wrt_append)

lemma ordered_le_last: "ordered xs \<Longrightarrow> x \<in> set xs \<Longrightarrow> x \<le> last xs"
  by (induction xs rule: rev_induct) (auto simp: ordered_append less_imp_le)

lemma ordered_hd_le: "ordered xs \<Longrightarrow> x \<in> set xs \<Longrightarrow> hd xs \<le> x"
  by (cases xs) (auto simp: ordered_def less_imp_le)

lemma insert_in_gap:
  assumes "ordered (xs @ ys)"
  shows "\<exists>k. between (low_of xs) (high_of ys) = Inr k \<and> ordered (xs @ k # ys)"
proof -
  have xs: "ordered xs" and ys: "ordered ys" and sep: "\<forall>x \<in> set xs. \<forall>y \<in> set ys. x < y"
    using assms by (auto simp: ordered_append)
  have "low_of xs = [] \<or> key (low_of xs)" "high_of ys = [] \<or> key (high_of ys)"
    using xs ys by (auto simp: low_of_def high_of_def ordered_def)
  moreover have "low_of xs = [] \<or> high_of ys = [] \<or> low_of xs < high_of ys"
    using sep by (auto simp: low_of_def high_of_def)
  ultimately obtain k where k: "between (low_of xs) (high_of ys) = Inr k" "key k"
    "low_of xs < k" "high_of ys = [] \<or> k < high_of ys"
    using between_key by blast
  have "x < k" if "x \<in> set xs" for x
    using ordered_le_last [OF xs that] k(3) that by (auto simp: low_of_def split: if_splits)
  moreover have "k < y" if "y \<in> set ys" for y
  proof -
    have "key (hd ys)" using ys that by (cases ys) (auto simp: ordered_def)
    then have "k < hd ys"
      using k(4) that by (auto simp: high_of_def dest: key_nonempty split: if_splits)
    then show ?thesis using ordered_hd_le [OF ys that] by (rule less_le_trans)
  qed
  ultimately have "ordered (xs @ [k] @ ys)"
    using xs ys sep k(2) unfolding ordered_append by (auto simp: ordered_def)
  with k(1) show ?thesis by auto
qed

end

interpretation rk: key_space Between rank_key
proof unfold_locales
  fix a b
  assume "a = [] \<or> rank_key a" "b = [] \<or> rank_key b" "a = [] \<or> b = [] \<or> a < b"
  then show "\<exists>k. Between a b = Inr k \<and> rank_key k \<and> a < k \<and> (b = [] \<or> k < b)"
    using Between_spec [of a b] by (auto simp: rank_key_def rank_valid_def rank_open_def)
qed (simp add: rank_key_def)

subsection \<open>Seeding\<close>

lemma seedRange_spec:
  assumes "lo \<le> hi" "hi \<le> length keys" "low = [] \<or> rank_key low" "high = [] \<or> rank_key high"
    "low = [] \<or> high = [] \<or> low < high"
  shows "\<exists>ks. seedRange keys lo hi low high = Inr (take lo keys @ ks @ drop hi keys) \<and>
    length ks = hi - lo \<and> rk.ordered ks \<and> (\<forall>k \<in> set ks. low < k \<and> (high = [] \<or> k < high))"
  using assms
proof (induction keys lo hi low high rule: seedRange.induct)
  case (1 keys lo hi low high)
  show ?case
  proof (cases "lo \<ge> hi")
    case True
    with 1 show ?thesis by (subst seedRange.simps) (auto simp: rk.ordered_def)
  next
    case False
    define m where "m = (lo + hi) div 2"
    have m: "lo \<le> m" "m < hi" using False by (auto simp: m_def)
    obtain k where k: "Between low high = Inr k" "rank_key k" "low < k" "high = [] \<or> k < high"
      using rk.between_key "1.prems" by blast
    have ne: "k \<noteq> []" using k(2) by (rule rk.key_nonempty)
    let ?keys = "keys[m := k]"
    obtain ks1 where ks1: "seedRange ?keys lo m low k = Inr (take lo ?keys @ ks1 @ drop m ?keys)"
      "length ks1 = m - lo" "rk.ordered ks1" "\<forall>x \<in> set ks1. low < x \<and> x < k"
      using "1.IH"(1) [OF False m_def k(1)] "1.prems" m k ne by auto
    let ?keys1 = "take lo ?keys @ ks1 @ drop m ?keys"
    have len: "length ?keys1 = length keys" using ks1(2) m "1.prems" by simp
    obtain ks2 where ks2: "seedRange ?keys1 (m + 1) hi k high =
        Inr (take (m + 1) ?keys1 @ ks2 @ drop hi ?keys1)"
      "length ks2 = hi - (m + 1)" "rk.ordered ks2" "\<forall>x \<in> set ks2. k < x \<and> (high = [] \<or> x < high)"
      using "1.IH"(2) [OF False m_def k(1) ks1(1)] "1.prems" m k len by auto
    have drop_m: "drop m ?keys = k # drop (Suc m) keys"
      using m "1.prems" by (simp add: drop_Cons_nth)
    have "take (m + 1) ?keys1 = take lo keys @ ks1 @ [k]"
      using m ks1(2) "1.prems" by (simp add: drop_m)
    moreover have "drop hi ?keys1 = drop hi keys"
    proof -
      have "hi - m = Suc (hi - Suc m)" using m by simp
      then show ?thesis using m ks1(2) "1.prems" by (simp add: drop_m)
    qed
    ultimately have "seedRange keys lo hi low high = Inr (take lo keys @ (ks1 @ k # ks2) @ drop hi keys)"
      using False k(1) ks1(1) ks2(1) by (subst seedRange.simps) (simp add: m_def [symmetric])
    moreover have "rk.ordered (ks1 @ [k] @ ks2)"
      using ks1(3,4) ks2(3,4) k(2) unfolding rk.ordered_append
      by (auto simp: rk.ordered_def intro: less_trans)
    moreover have "\<forall>x \<in> set (ks1 @ k # ks2). low < x \<and> (high = [] \<or> x < high)"
      using ks1(4) ks2(4) k(3,4) by (auto intro: less_trans)
    ultimately show ?thesis using m ks1(2) ks2(2)
      by (intro exI [of _ "ks1 @ k # ks2"]) auto
  qed
qed

subsection \<open>Properties\<close>

text \<open>
  C10. Between two keys (or a key and an open end) in increasing order, written in the digits of the
  alphabet the upper one not ending in the digit 0, \<open>Between\<close> returns, without error or
  panic, a key strictly between them that again leaves room on both sides and is at most one digit
  longer than the longer bound.
\<close>

theorem Between_strictly_between:
  assumes "rank_valid a" "rank_valid b" "rank_open b" "a = [] \<or> b = [] \<or> a < b"
  shows "\<exists>k. Between a b = Inr k \<and> rank_key k \<and> a < k \<and> (b = [] \<or> k < b) \<and>
    length k \<le> max (length a) (length b) + 1"
  using assms by (rule Between_spec)

theorem Between_strictly_between_witness:
  "\<exists>k. Between ''az'' ''b'' = Inr k \<and> rank_key k \<and> ''az'' < k \<and> (''b'' = [] \<or> k < ''b'') \<and>
    length k \<le> max (length ''az'') (length ''b'') + 1"
  by (rule Between_strictly_between) (simp_all add: rank_valid_def rank_open_def digits_def)

text \<open>
  Inserting at any gap of a strictly increasing list of keys, with the neighbours (or the empty
  string at the ends) as bounds, gives a key that keeps the list strictly increasing.
\<close>

theorem Between_insert_keeps_order:
  assumes "sorted_wrt (<) (xs @ ys)" "\<forall>k \<in> set (xs @ ys). rank_key k"
  shows "\<exists>k. Between (if xs = [] then [] else last xs) (if ys = [] then [] else hd ys) = Inr k \<and>
    rank_key k \<and> sorted_wrt (<) (xs @ k # ys)"
  using rk.insert_in_gap [of xs ys] assms
  by (auto simp: rk.ordered_def rk.low_of_def rk.high_of_def)

theorem Between_insert_keeps_order_witness:
  "\<exists>k. Between (if [''1''] = [] then [] else last [''1'']) (if [''11''] = [] then [] else hd [''11'']) = Inr k \<and>
    rank_key k \<and> sorted_wrt (<) ([''1''] @ k # [''11''])"
  by (rule Between_insert_keeps_order)
    (simp_all add: rank_key_def rank_valid_def rank_open_def digits_def)

text \<open>
  \<open>Seed n\<close> never panics and returns exactly \<open>n\<close> keys (none for a count that is not positive),
  strictly increasing and with room around each.
\<close>

theorem Seed_sorted_keys:
  "\<exists>ks. Seed n = Inr ks \<and> length ks = nat n \<and> sorted_wrt (<) ks \<and> list_all rank_key ks"
  using seedRange_spec [of 0 "nat n" "replicate (nat n) []" "[]" "[]"]
  by (cases "n \<le> 0") (auto simp: Seed_def rk.ordered_def list_all_iff)

text \<open>\<open>After\<close> of a key, or of the empty string, is a key above it.\<close>

theorem After_above:
  assumes "mx = [] \<or> rank_key mx"
  shows "\<exists>k. After mx = Inr k \<and> rank_key k \<and> mx < k"
proof (cases "mx = []")
  case True
  then show ?thesis
    by (simp add: After_def digit_byte_def rank_key_def rank_valid_def rank_open_def digits_def)
next
  case False
  then show ?thesis
    using Between_spec [of mx "[]"] assms
    by (auto simp: After_def rank_key_def rank_valid_def rank_open_def)
qed

theorem After_above_witness: "\<exists>k. After ''zz'' = Inr k \<and> rank_key k \<and> ''zz'' < k"
  by (rule After_above) (simp add: rank_key_def rank_valid_def rank_open_def digits_def)

end
