(* ===== verification/Go_Time.thy ===== *)
theory Go_Time
  imports Prelude
begin

text \<open>
  Go's \<open>time\<close> as far as the components use it. An instant is the number of nanoseconds since the
  zero \<open>time.Time\<close> (so the zero value, which the code uses for "never", is \<open>0\<close>), a
  \<open>time.Duration\<close> is a signed 64-bit number of nanoseconds: sums of durations wrap around, and
  \<open>Sub\<close> saturates at the ends of the range, as the library does.
\<close>

type_synonym time = int
type_synonym duration = int

definition min_duration :: duration where
  "min_duration = - (2 ^ 63)"

definition max_duration :: duration where
  "max_duration = 2 ^ 63 - 1"

definition wrap64 :: "int \<Rightarrow> int" where
  "wrap64 x = (x + 2 ^ 63) mod 2 ^ 64 - 2 ^ 63"

abbreviation is_zero :: "time \<Rightarrow> bool" where
  "is_zero t \<equiv> t = 0"

definition time_sub :: "time \<Rightarrow> time \<Rightarrow> duration" where
  "time_sub t u = max min_duration (min max_duration (t - u))"

definition dur_add :: "duration \<Rightarrow> duration \<Rightarrow> duration" where
  "dur_add d e = wrap64 (d + e)"

definition millisecond :: duration where "millisecond = 1000000"
definition second :: duration where "second = 1000 * millisecond"
definition minute :: duration where "minute = 60 * second"
definition hour :: duration where "hour = 60 * minute"

lemmas go_time_units [go_simps] = millisecond_def second_def minute_def hour_def

text \<open>A duration that is representable and below the largest one.\<close>

definition dur_ok :: "duration \<Rightarrow> bool" where
  "dur_ok d \<longleftrightarrow> 0 \<le> d \<and> d < max_duration"

lemma wrap64_range: "min_duration \<le> wrap64 x \<and> wrap64 x \<le> max_duration"
  by (simp add: wrap64_def min_duration_def max_duration_def)

lemma wrap64_id [simp]: "min_duration \<le> x \<Longrightarrow> x \<le> max_duration \<Longrightarrow> wrap64 x = x"
  by (simp add: wrap64_def min_duration_def max_duration_def)

lemma time_sub_le_iff: "dur_ok d \<Longrightarrow> time_sub t u \<le> d \<longleftrightarrow> t - u \<le> d"
  by (auto simp: time_sub_def dur_ok_def min_duration_def max_duration_def)

lemma time_sub_greater_iff: "dur_ok d \<Longrightarrow> d < time_sub t u \<longleftrightarrow> d < t - u"
  using time_sub_le_iff [of d t u] by linarith

lemma dur_add_one: "dur_ok d \<Longrightarrow> dur_add d 1 = d + 1"
  by (simp add: dur_add_def dur_ok_def min_duration_def max_duration_def)

end
