(* ===== verification/Session_State.thy ===== *)
theory Session_State
  imports Go_Time
begin

text \<open>
  How attn decides what a session is doing: \<open>internal/sessionstate/sessionstate.go\<close>, and the
  turn rules of \<open>internal/attention/turn.go\<close> on top of it. The evidence a session has left
  behind is resolved to one state with a reason; \<open>NextChange\<close> says when the passing of time alone
  changes that answer. A Go pointer that may be nil is an \<open>option\<close>; a pair of a value and \<open>ok\<close>
  is an \<open>option\<close> too. The string types have one constructor for each constant the package
  declares, and the zero \<open>SessionState\<close> of a held resolution is \<open>SessionStateZero\<close>.
\<close>

subsection \<open>Data\<close>

datatype SessionState =
    SessionStateZero
  | SessionStateIdle
  | SessionStateLaunching
  | SessionStatePendingApproval
  | SessionStateRecoverable
  | SessionStateScheduled
  | SessionStateUnknown
  | SessionStateWaitingInput
  | SessionStateWorking

datatype ObsSource =
    SourceHeartbeat | SourceProgramStatus | SourceAppServer | SourceBracket
  | SourceHarnessEvent | SourceClassifier | SourceProcess

datatype ObsClaim =
    ClaimBusy | ClaimSettled | ClaimApprovalPending | ClaimNeedsInput | ClaimIdle
  | ClaimParked | ClaimExited | ClaimStopFailed | ClaimTurnAborted

record Observation =
  Source :: ObsSource
  Claim :: ObsClaim
  Detail :: string
  ObservedAt :: time

record TerminalEvidence =
  Heartbeat :: "Observation option"
  ProgramStatus :: "Observation option"
  Process :: "Observation option"
  ReviewerInLoop :: bool
  LastBusyAt :: time
  LastMovement :: time

record ConversationEvidence =
  LastHarnessEvent :: "Observation option"
  LastClassifier :: "Observation option"
  TurnOpen :: bool
  TurnEverOpened :: bool
  ToolOpen :: bool
  BackgroundWork :: bool
  PendingCron :: bool
  Compacting :: bool
  IdleCompaction :: bool
  BusyAtStop :: time
  InitialPromptOwed :: bool
  PromptIdleAt :: time
  ClassifyingSince :: time

record evidence =
  Terminal :: TerminalEvidence
  Conversation :: ConversationEvidence

record Policy =
  HeartbeatTTL :: duration
  HeartbeatSettleAfter :: duration
  StaleAfter :: duration
  StuckAfter :: duration
  SettleGrace :: duration
  ClassifierTimeout :: duration
  ReviewerDwell :: duration
  ParkedAfter :: duration

datatype Reason =
    ReasonProcessExited | ReasonHeartbeatBusy | ReasonProgramWorking | ReasonProgramBlocked
  | ReasonProgramError | ReasonProgramSettled | ReasonApprovalOpen | ReasonQuestionOpen
  | ReasonCronPending | ReasonBracketOpen | ReasonPromptIdle | ReasonBracketStale
  | ReasonHeartbeatSettled | ReasonSettleGrace | ReasonAwaitingVerdict | ReasonBackgroundWork
  | ReasonBackgroundParked | ReasonParkedExpired | ReasonCompacting | ReasonStopFailed
  | ReasonTurnAborted | ReasonClassifierVerdict | ReasonAtPrompt | ReasonPromptOwed
  | ReasonStuck | ReasonNoEvidence

record Resolution =
  State :: SessionState
  RReason :: Reason
  RDetail :: string
  Hold :: bool

definition resolution :: "SessionState \<Rightarrow> Reason \<Rightarrow> string \<Rightarrow> Resolution" where
  "resolution s r d = \<lparr>State = s, RReason = r, RDetail = d, Hold = False\<rparr>"

definition held :: "Reason \<Rightarrow> Resolution" where
  "held r = \<lparr>State = SessionStateZero, RReason = r, RDetail = [], Hold = True\<rparr>"

subsection \<open>The policy of each agent\<close>

definition PolicyFor :: "string \<Rightarrow> Policy" where
  "PolicyFor agent =
     (let policy = \<lparr>HeartbeatTTL = 500 * millisecond,
                    HeartbeatSettleAfter = 5 * second,
                    StaleAfter = 60 * second,
                    StuckAfter = 90 * second,
                    SettleGrace = 4 * second,
                    ClassifierTimeout = 30 * second,
                    ReviewerDwell = 60 * second,
                    ParkedAfter = 30 * minute\<rparr>;
          policy = (if agent = ''claude''
                    then policy\<lparr>HeartbeatTTL := 1500 * millisecond, ReviewerDwell := 0\<rparr>
                    else policy)
      in if agent = ''shell'' then policy\<lparr>HeartbeatTTL := 2500 * millisecond\<rparr> else policy)"

subsection \<open>Reading the evidence\<close>

definition liveSignal :: "evidence \<Rightarrow> Observation option" where
  "liveSignal e =
     (if ProgramStatus (Terminal e) \<noteq> None then ProgramStatus (Terminal e)
      else Heartbeat (Terminal e))"

definition supersededByBusy :: "Observation \<Rightarrow> evidence \<Rightarrow> bool" where
  "supersededByBusy ob e =
     (if is_zero (LastBusyAt (Terminal e)) then False
      else LastBusyAt (Terminal e) > ObservedAt ob)"

definition supersededByProgramStatus :: "Observation \<Rightarrow> evidence \<Rightarrow> bool" where
  "supersededByProgramStatus ob e =
     (case ProgramStatus (Terminal e) of
        None \<Rightarrow> False
      | Some p \<Rightarrow> \<not> ObservedAt ob > ObservedAt p)"

definition fresh :: "Observation option \<Rightarrow> ObsClaim \<Rightarrow> time \<Rightarrow> duration \<Rightarrow> bool" where
  "fresh ob claim now ttl =
     (case ob of None \<Rightarrow> False
      | Some x \<Rightarrow> Claim x = claim \<and> time_sub now (ObservedAt x) \<le> ttl)"

definition TookATurn :: "ConversationEvidence \<Rightarrow> bool" where
  "TookATurn c =
     (if TurnOpen c \<or> ToolOpen c \<or> TurnEverOpened c then True
      else LastClassifier c \<noteq> None \<or> \<not> is_zero (ClassifyingSince c))"

definition evidenceStoppedMoving :: "evidence \<Rightarrow> time \<Rightarrow> duration \<Rightarrow> bool" where
  "evidenceStoppedMoving e now d =
     (if is_zero (LastMovement (Terminal e)) then False
      else time_sub now (LastMovement (Terminal e)) > d)"

definition promptIdleConfirmed :: "evidence \<Rightarrow> bool" where
  "promptIdleConfirmed e =
     (\<not> is_zero (PromptIdleAt (Conversation e)) \<and>
      PromptIdleAt (Conversation e) > LastBusyAt (Terminal e))"

definition lastActiveAt :: "evidence \<Rightarrow> time" where
  "lastActiveAt e =
     (case ProgramStatus (Terminal e) of
        None \<Rightarrow> LastBusyAt (Terminal e)
      | Some p \<Rightarrow>
          if is_zero (LastBusyAt (Terminal e)) \<or> ObservedAt p < LastBusyAt (Terminal e)
          then LastBusyAt (Terminal e) else ObservedAt p)"

definition heartbeatSilentFor :: "evidence \<Rightarrow> time \<Rightarrow> duration \<Rightarrow> bool" where
  "heartbeatSilentFor e now d =
     (let lastActive = lastActiveAt e in
      if is_zero lastActive then False else time_sub now lastActive > d)"

definition ClassifierVerdictPending :: "ConversationEvidence \<Rightarrow> Policy \<Rightarrow> time \<Rightarrow> bool" where
  "ClassifierVerdictPending c policy now =
     (if is_zero (ClassifyingSince c) then False
      else time_sub now (ClassifyingSince c) \<le> ClassifierTimeout policy)"

definition parkedVerdict :: "evidence \<Rightarrow> bool" where
  "parkedVerdict e =
     (case LastClassifier (Conversation e) of
        None \<Rightarrow> False
      | Some v \<Rightarrow> Claim v = ClaimParked \<and> \<not> supersededByBusy v e)"

definition parkedWindowOpen :: "evidence \<Rightarrow> Policy \<Rightarrow> time \<Rightarrow> bool" where
  "parkedWindowOpen e policy now =
     (parkedVerdict e \<and>
      (case LastClassifier (Conversation e) of
         None \<Rightarrow> False
       | Some v \<Rightarrow> time_sub now (ObservedAt v) \<le> ParkedAfter policy))"

definition Parked :: "TerminalEvidence \<Rightarrow> ConversationEvidence \<Rightarrow> Policy \<Rightarrow> time \<Rightarrow> bool" where
  "Parked terminal conversation policy now =
     parkedWindowOpen \<lparr>Terminal = terminal, Conversation = conversation\<rparr> policy now"

definition turnAborted :: "evidence \<Rightarrow> bool" where
  "turnAborted e =
     (case LastHarnessEvent (Conversation e) of
        None \<Rightarrow> False
      | Some h \<Rightarrow> Claim h = ClaimTurnAborted \<and> \<not> supersededByBusy h e)"

definition reviewedApprovalsShowOnTheTerminal :: "evidence \<Rightarrow> Policy \<Rightarrow> bool" where
  "reviewedApprovalsShowOnTheTerminal e policy =
     (let reviewerAnswers = (ReviewerInLoop (Terminal e) \<and> ReviewerDwell policy > 0);
          terminalReports = (case ProgramStatus (Terminal e) of
              None \<Rightarrow> False | Some p \<Rightarrow> Source p = SourceProgramStatus)
      in reviewerAnswers \<and> terminalReports)"

subsection \<open>Partial answers\<close>

definition running :: "evidence \<Rightarrow> Resolution" where
  "running e =
     (if TurnOpen (Conversation e) \<or> ToolOpen (Conversation e)
      then resolution SessionStateWorking ReasonBracketOpen []
      else resolution SessionStateWorking ReasonHeartbeatBusy
             (case liveSignal e of None \<Rightarrow> [] | Some s \<Rightarrow> Detail s))"

definition programStatusEdge :: "Observation \<Rightarrow> Resolution option" where
  "programStatusEdge ob =
     (case Claim ob of
        ClaimBusy \<Rightarrow> Some (resolution SessionStateWorking ReasonProgramWorking (Detail ob))
      | ClaimApprovalPending \<Rightarrow> Some (resolution SessionStatePendingApproval ReasonProgramBlocked (Detail ob))
      | ClaimNeedsInput \<Rightarrow> Some (resolution SessionStatePendingApproval ReasonProgramBlocked (Detail ob))
      | ClaimStopFailed \<Rightarrow> Some (resolution SessionStateWaitingInput ReasonProgramError (Detail ob))
      | _ \<Rightarrow> None)"

definition classifierVerdict :: "evidence \<Rightarrow> Resolution option" where
  "classifierVerdict e =
     (case LastClassifier (Conversation e) of
        None \<Rightarrow> None
      | Some v \<Rightarrow>
          if supersededByBusy v e then None
          else (case Claim v of
              ClaimNeedsInput \<Rightarrow> Some (resolution SessionStateWaitingInput ReasonClassifierVerdict (Detail v))
            | ClaimIdle \<Rightarrow> Some (resolution SessionStateIdle ReasonClassifierVerdict (Detail v))
            | _ \<Rightarrow> None))"

definition settled :: "evidence \<Rightarrow> Reason \<Rightarrow> Policy \<Rightarrow> time \<Rightarrow> Resolution" where
  "settled e fallback policy now =
     (case classifierVerdict e of
        Some r \<Rightarrow> r
      | None \<Rightarrow>
          if ClassifierVerdictPending (Conversation e) policy now then held ReasonAwaitingVerdict
          else resolution SessionStateIdle fallback [])"

definition harnessEdge :: "evidence \<Rightarrow> Policy \<Rightarrow> Resolution option" where
  "harnessEdge e policy =
     (case LastHarnessEvent (Conversation e) of
        None \<Rightarrow> None
      | Some h \<Rightarrow>
          if supersededByBusy h e \<or> supersededByProgramStatus h e then None
          else (case Claim h of
              ClaimApprovalPending \<Rightarrow>
                if reviewedApprovalsShowOnTheTerminal e policy then None
                else Some (resolution SessionStatePendingApproval ReasonApprovalOpen (Detail h))
            | ClaimNeedsInput \<Rightarrow> Some (resolution SessionStateWaitingInput ReasonQuestionOpen (Detail h))
            | ClaimStopFailed \<Rightarrow> Some (resolution SessionStateWaitingInput ReasonStopFailed (Detail h))
            | _ \<Rightarrow> None))"

subsection \<open>The resolution\<close>

text \<open>
  \<open>Resolve\<close> is one cascade of early returns; the two long clauses, background work and an open
  bracket, are named here.
\<close>

definition resolve_background :: "evidence \<Rightarrow> Policy \<Rightarrow> time \<Rightarrow> Resolution" where
  "resolve_background e policy now =
     (case classifierVerdict e of
        Some r \<Rightarrow> r
      | None \<Rightarrow>
          if parkedVerdict e \<and> parkedWindowOpen e policy now
          then resolution SessionStateWorking ReasonBackgroundParked []
          else if parkedVerdict e \<and> promptIdleConfirmed e
          then settled e ReasonParkedExpired policy now
          else if ClassifierVerdictPending (Conversation e) policy now
          then resolution SessionStateWorking ReasonBackgroundWork []
          else if promptIdleConfirmed e
          then settled e ReasonPromptIdle policy now
          else if evidenceStoppedMoving e now (StuckAfter policy)
          then resolution SessionStateUnknown ReasonStuck []
          else resolution SessionStateWorking ReasonBackgroundWork [])"

definition resolve_bracket :: "evidence \<Rightarrow> Policy \<Rightarrow> time \<Rightarrow> Resolution" where
  "resolve_bracket e policy now =
     (if evidenceStoppedMoving e now (StuckAfter policy)
      then resolution SessionStateUnknown ReasonStuck []
      else if \<not> heartbeatSilentFor e now (StaleAfter policy) then running e
      else (case classifierVerdict e of
          Some r \<Rightarrow> r
        | None \<Rightarrow>
            if \<not> heartbeatSilentFor e now (dur_add (StaleAfter policy) (SettleGrace policy))
            then held ReasonSettleGrace
            else settled e ReasonBracketStale policy now))"

text \<open>What remains once nothing is open: the live signal, a pending wakeup, a verdict, or nothing.\<close>

definition resolve_rest :: "evidence \<Rightarrow> Policy \<Rightarrow> time \<Rightarrow> Resolution" where
  "resolve_rest e policy now =
     (let c = Conversation e; signal = liveSignal e in
      if signal \<noteq> None \<and> TookATurn c \<and> \<not> TurnOpen c \<and> \<not> ToolOpen c then
        (if Claim (the signal) = ClaimBusy \<and>
            \<not> heartbeatSilentFor e now (HeartbeatSettleAfter policy) then running e
         else if ProgramStatus (Terminal e) \<noteq> None then settled e ReasonProgramSettled policy now
         else settled e ReasonHeartbeatSettled policy now)
      else if PendingCron c \<and> \<not> TurnOpen c \<and> \<not> ToolOpen c then
        settled e ReasonCronPending policy now
      else if signal \<noteq> None \<and> Claim (the signal) = ClaimSettled \<and> \<not> TookATurn c then
        (if InitialPromptOwed c then held ReasonPromptOwed
         else resolution SessionStateIdle ReasonAtPrompt [])
      else (case classifierVerdict e of
          Some r \<Rightarrow> r
        | None \<Rightarrow>
            if TurnEverOpened c \<and> evidenceStoppedMoving e now (StuckAfter policy)
            then resolution SessionStateUnknown ReasonStuck []
            else resolution SessionStateUnknown ReasonNoEvidence []))"

definition resolve_settling :: "evidence \<Rightarrow> Policy \<Rightarrow> time \<Rightarrow> Resolution" where
  "resolve_settling e policy now =
     (case harnessEdge e policy of
        Some r \<Rightarrow> r
      | None \<Rightarrow>
          if turnAborted e then
            resolution SessionStateIdle ReasonTurnAborted
              (Detail (the (LastHarnessEvent (Conversation e))))
          else if Compacting (Conversation e) then
            (if evidenceStoppedMoving e now (StuckAfter policy)
             then resolution SessionStateUnknown ReasonStuck []
             else resolution SessionStateWorking ReasonCompacting [])
          else if BackgroundWork (Conversation e) then resolve_background e policy now
          else if promptIdleConfirmed e then settled e ReasonPromptIdle policy now
          else if TurnOpen (Conversation e) \<or> ToolOpen (Conversation e)
          then resolve_bracket e policy now
          else resolve_rest e policy now)"

definition Resolve :: "TerminalEvidence \<Rightarrow> ConversationEvidence \<Rightarrow> Policy \<Rightarrow> time \<Rightarrow> Resolution" where
  "Resolve terminal conversation policy now =
     (let e = \<lparr>Terminal = terminal, Conversation = conversation\<rparr> in
      if Process terminal \<noteq> None \<and> Claim (the (Process terminal)) = ClaimExited then
        resolution SessionStateIdle ReasonProcessExited (Detail (the (Process terminal)))
      else (case ProgramStatus terminal of
          Some p \<Rightarrow>
            (case harnessEdge e policy of
               Some r \<Rightarrow> r
             | None \<Rightarrow>
                 (case programStatusEdge p of
                    Some r \<Rightarrow> r
                  | None \<Rightarrow> resolve_settling e policy now))
        | None \<Rightarrow>
            if fresh (Heartbeat terminal) ClaimBusy now (HeartbeatTTL policy) then running e
            else resolve_settling e policy now))"

subsection \<open>When time alone changes the answer\<close>

definition expires :: "time \<Rightarrow> time \<Rightarrow> duration \<Rightarrow> time list" where
  "expires now start lifetime =
     (if is_zero start then []
      else (let at = start + dur_add lifetime 1 in if at > now then [at] else []))"

definition expiryInstants :: "evidence \<Rightarrow> Policy \<Rightarrow> time \<Rightarrow> time list" where
  "expiryInstants e policy now =
     (let lastActive = lastActiveAt e in
      sort ((case Heartbeat (Terminal e) of None \<Rightarrow> []
             | Some h \<Rightarrow> expires now (ObservedAt h) (HeartbeatTTL policy)) @
            expires now lastActive (HeartbeatSettleAfter policy) @
            expires now lastActive (StaleAfter policy) @
            expires now lastActive (dur_add (StaleAfter policy) (SettleGrace policy)) @
            expires now (LastMovement (Terminal e)) (StuckAfter policy) @
            expires now (ClassifyingSince (Conversation e)) (ClassifierTimeout policy) @
            (case LastClassifier (Conversation e) of None \<Rightarrow> []
             | Some v \<Rightarrow> expires now (ObservedAt v) (ParkedAfter policy))))"

definition NextChange ::
  "TerminalEvidence \<Rightarrow> ConversationEvidence \<Rightarrow> Policy \<Rightarrow> time \<Rightarrow> time option" where
  "NextChange terminal conversation policy now =
     (let current = Resolve terminal conversation policy now in
      find (\<lambda>at. Resolve terminal conversation policy at \<noteq> current)
        (expiryInstants \<lparr>Terminal = terminal, Conversation = conversation\<rparr> policy now))"

subsection \<open>Dwell and clearing\<close>

definition waitsOnUser :: "evidence \<Rightarrow> bool" where
  "waitsOnUser e =
     (case ProgramStatus (Terminal e) of
        None \<Rightarrow> False
      | Some status \<Rightarrow>
          let terminalShowsApproval =
                (Source status = SourceProgramStatus \<and> Claim status = ClaimApprovalPending)
          in Claim status = ClaimNeedsInput \<or> terminalShowsApproval)"

definition DwellFor ::
  "SessionState \<Rightarrow> TerminalEvidence \<Rightarrow> ConversationEvidence \<Rightarrow> Policy \<Rightarrow> duration" where
  "DwellFor state terminal conversation policy =
     (let e = \<lparr>Terminal = terminal, Conversation = conversation\<rparr> in
      if state = SessionStatePendingApproval \<and> ReviewerInLoop terminal \<and> \<not> waitsOnUser e
      then ReviewerDwell policy else 0)"

definition ClearProgramStatus ::
  "TerminalEvidence \<Rightarrow> ConversationEvidence \<Rightarrow> TerminalEvidence \<times> ConversationEvidence" where
  "ClearProgramStatus terminal conversation =
     (let e = \<lparr>Terminal = terminal, Conversation = conversation\<rparr>;
          conversation' =
            (case LastHarnessEvent conversation of
               None \<Rightarrow> conversation
             | Some h \<Rightarrow> if supersededByProgramStatus h e
                 then conversation\<lparr>LastHarnessEvent := None\<rparr> else conversation)
      in (terminal\<lparr>ProgramStatus := None\<rparr>, conversation'))"

subsection \<open>Attention\<close>

definition OpensTurn :: "SessionState \<Rightarrow> bool" where
  "OpensTurn state =
     (state \<in> {SessionStateWaitingInput, SessionStatePendingApproval, SessionStateUnknown, SessionStateIdle})"

definition OpensTurnAfterNotification :: "SessionState \<Rightarrow> bool" where
  "OpensTurnAfterNotification state =
     (state = SessionStatePendingApproval \<or> state = SessionStateUnknown)"

definition RunFailed :: "Reason \<Rightarrow> bool" where
  "RunFailed reason = (reason = ReasonProgramError \<or> reason = ReasonStopFailed)"

definition TurnByAgent :: "time \<Rightarrow> time \<Rightarrow> time \<Rightarrow> bool" where
  "TurnByAgent opened settledAt agentAt =
     (let latest = (if opened > settledAt then opened else settledAt)
      in \<not> is_zero agentAt \<and> agentAt = latest)"

definition BreaksSnooze :: "SessionState \<Rightarrow> Reason \<Rightarrow> bool" where
  "BreaksSnooze state reason =
     (case state of
        SessionStateUnknown \<Rightarrow> True
      | SessionStateIdle \<Rightarrow> reason = ReasonProcessExited
      | _ \<Rightarrow> False)"

record AttentionInput =
  IsShell :: bool
  LegacyChief :: bool

definition Excluded :: "AttentionInput \<Rightarrow> bool" where
  "Excluded inp = (IsShell inp \<or> LegacyChief inp)"

end
