(* ===== verification/Session_Clock.thy ===== *)
theory Session_Clock
  imports Session_State
begin

text \<open>
  Properties of the session-state resolver. The first part is the interface between an answer that
  depends on the clock and the search for its next change: an answer that can only change at a
  finite, sorted list of instants is scanned correctly by testing those instants in order. The
  resolver is an instance, because every clock test it makes is a threshold whose instant
  \<open>expiryInstants\<close> lists.
\<close>

subsection \<open>Answers that change at known instants\<close>

locale timed_view =
  fixes view :: "'c \<Rightarrow> time \<Rightarrow> 'v"
    and instants :: "'c \<Rightarrow> time \<Rightarrow> time list"
    and ok :: "'c \<Rightarrow> time \<Rightarrow> bool"
  assumes instants_sorted: "sorted (instants c now)"
    and instants_later: "at \<in> set (instants c now) \<Longrightarrow> now < at"
    and view_constant: "\<lbrakk>ok c now; now \<le> s; s \<le> t;
        \<forall>at \<in> set (instants c now). at \<le> t \<longrightarrow> at \<le> s\<rbrakk> \<Longrightarrow> view c t = view c s"
begin

definition next_change :: "'c \<Rightarrow> time \<Rightarrow> time option" where
  "next_change c now = find (\<lambda>at. view c at \<noteq> view c now) (instants c now)"

lemma unchanged_before:
  assumes "ok c now" "now \<le> t"
    and same: "\<And>at. at \<in> set (instants c now) \<Longrightarrow> at \<le> t \<Longrightarrow> view c at = view c now"
  shows "view c t = view c now"
proof -
  let ?passed = "{at \<in> set (instants c now). at \<le> t}"
  define s where "s = Max (insert now ?passed)"
  have fin: "finite (insert now ?passed)" by simp
  have s: "s \<in> insert now ?passed" "\<forall>at \<in> insert now ?passed. at \<le> s"
    using Max_in [OF fin] Max_ge [OF fin] unfolding s_def by blast+
  then have "now \<le> s" "s \<le> t" using assms(2) by auto
  then have "view c t = view c s" using s by (intro view_constant [OF assms(1)]) auto
  also have "view c s = view c now" using s same by auto
  finally show ?thesis .
qed

lemma find_sorted_before:
  assumes "sorted xs" "find P xs = Some x" "y \<in> set xs" "y < x"
  shows "\<not> P y"
  using assms by (induction xs) (auto split: if_splits dest: find_Some_iff_first)

lemma next_change_Some:
  assumes "ok c now" "next_change c now = Some at"
  shows "now < at" "view c at \<noteq> view c now"
    "now \<le> t \<Longrightarrow> t < at \<Longrightarrow> view c t = view c now"
proof -
  have at: "at \<in> set (instants c now)" "view c at \<noteq> view c now"
    using assms(2) find_Some_iff_first by (fastforce simp: next_change_def)+
  show "now < at" using at(1) by (rule instants_later)
  show "view c at \<noteq> view c now" by (rule at(2))
  show "view c t = view c now" if t: "now \<le> t" "t < at"
  proof (rule unchanged_before [OF assms(1) t(1)])
    fix at' assume "at' \<in> set (instants c now)" "at' \<le> t"
    then show "view c at' = view c now"
      using find_sorted_before [OF instants_sorted assms(2) [unfolded next_change_def]] t(2)
      by fastforce
  qed
qed

lemma next_change_None:
  assumes "ok c now" "next_change c now = None" "now \<le> t"
  shows "view c t = view c now"
proof (rule unchanged_before [OF assms(1,3)])
  show "view c at = view c now" if "at \<in> set (instants c now)" for at
    using assms(2) that unfolding next_change_def find_None_iff_all by blast
qed

end

subsection \<open>The resolver is such an answer\<close>

text \<open>
  The windows of a policy are in range, their longest sum too, and the clock is past the zero time
  by more than any of them (an observation with no time is then long expired).
\<close>

definition policy_ok :: "Policy \<Rightarrow> time \<Rightarrow> bool" where
  "policy_ok policy now \<longleftrightarrow>
     (\<forall>d \<in> {HeartbeatTTL policy, HeartbeatSettleAfter policy, StaleAfter policy, StuckAfter policy,
            StaleAfter policy + SettleGrace policy, ClassifierTimeout policy, ParkedAfter policy}.
        dur_ok d \<and> d < now) \<and> 0 \<le> SettleGrace policy"

text \<open>The clock tests of the resolver, at one instant.\<close>

definition clock_tests :: "evidence \<Rightarrow> Policy \<Rightarrow> time \<Rightarrow> bool list" where
  "clock_tests e policy now =
     [fresh (Heartbeat (Terminal e)) ClaimBusy now (HeartbeatTTL policy),
      heartbeatSilentFor e now (HeartbeatSettleAfter policy),
      heartbeatSilentFor e now (StaleAfter policy),
      heartbeatSilentFor e now (dur_add (StaleAfter policy) (SettleGrace policy)),
      evidenceStoppedMoving e now (StuckAfter policy),
      ClassifierVerdictPending (Conversation e) policy now,
      parkedWindowOpen e policy now]"

lemma settled_cong:
  "ClassifierVerdictPending (Conversation e) policy s = ClassifierVerdictPending (Conversation e) policy t \<Longrightarrow>
   settled e r policy s = settled e r policy t"
  by (simp add: settled_def)

lemma resolve_settling_cong:
  assumes "clock_tests e policy s = clock_tests e policy t"
  shows "resolve_settling e policy s = resolve_settling e policy t"
proof -
  have tests: "heartbeatSilentFor e s (HeartbeatSettleAfter policy) = heartbeatSilentFor e t (HeartbeatSettleAfter policy)"
    "heartbeatSilentFor e s (StaleAfter policy) = heartbeatSilentFor e t (StaleAfter policy)"
    "heartbeatSilentFor e s (dur_add (StaleAfter policy) (SettleGrace policy)) =
     heartbeatSilentFor e t (dur_add (StaleAfter policy) (SettleGrace policy))"
    "evidenceStoppedMoving e s (StuckAfter policy) = evidenceStoppedMoving e t (StuckAfter policy)"
    "ClassifierVerdictPending (Conversation e) policy s = ClassifierVerdictPending (Conversation e) policy t"
    "parkedWindowOpen e policy s = parkedWindowOpen e policy t"
    using assms by (simp_all add: clock_tests_def)
  have settled: "settled e r policy s = settled e r policy t" for r
    by (rule settled_cong) (rule tests(5))
  have "resolve_background e policy s = resolve_background e policy t"
    by (simp only: resolve_background_def tests settled)
  moreover have "resolve_bracket e policy s = resolve_bracket e policy t"
    by (simp only: resolve_bracket_def tests settled)
  moreover have "resolve_rest e policy s = resolve_rest e policy t"
    by (simp only: resolve_rest_def tests settled)
  ultimately show ?thesis
    by (simp only: resolve_settling_def tests settled)
qed

lemma Resolve_clock_tests:
  assumes "clock_tests \<lparr>Terminal = terminal, Conversation = conversation\<rparr> policy s =
    clock_tests \<lparr>Terminal = terminal, Conversation = conversation\<rparr> policy t"
  shows "Resolve terminal conversation policy s = Resolve terminal conversation policy t"
proof -
  have "fresh (Heartbeat terminal) ClaimBusy s (HeartbeatTTL policy) =
      fresh (Heartbeat terminal) ClaimBusy t (HeartbeatTTL policy)"
    using assms by (simp add: clock_tests_def)
  then show ?thesis
    by (simp only: Resolve_def Let_def resolve_settling_cong [OF assms])
qed

text \<open>A test against a window changes its answer only at the listed instant.\<close>

lemma window_stable:
  assumes "dur_ok d" "d < now" "now \<le> s" "s \<le> t"
    "\<forall>at \<in> set (expires now start d). at \<le> t \<longrightarrow> at \<le> s"
  shows "d < time_sub t start \<longleftrightarrow> d < time_sub s start"
  using assms
  by (auto simp: time_sub_greater_iff expires_def Let_def dur_add_one split: if_splits)

lemma window_stable_le:
  assumes "dur_ok d" "d < now" "now \<le> s" "s \<le> t"
    "\<forall>at \<in> set (expires now start d). at \<le> t \<longrightarrow> at \<le> s"
  shows "time_sub t start \<le> d \<longleftrightarrow> time_sub s start \<le> d"
  using window_stable [OF assms] by linarith

lemma set_expiryInstants:
  "set (expiryInstants e policy now) =
     (case Heartbeat (Terminal e) of None \<Rightarrow> {}
      | Some h \<Rightarrow> set (expires now (ObservedAt h) (HeartbeatTTL policy))) \<union>
     set (expires now (lastActiveAt e) (HeartbeatSettleAfter policy)) \<union>
     set (expires now (lastActiveAt e) (StaleAfter policy)) \<union>
     set (expires now (lastActiveAt e) (dur_add (StaleAfter policy) (SettleGrace policy))) \<union>
     set (expires now (LastMovement (Terminal e)) (StuckAfter policy)) \<union>
     set (expires now (ClassifyingSince (Conversation e)) (ClassifierTimeout policy)) \<union>
     (case LastClassifier (Conversation e) of None \<Rightarrow> {}
      | Some v \<Rightarrow> set (expires now (ObservedAt v) (ParkedAfter policy)))"
  by (simp add: expiryInstants_def Let_def Un_assoc split: option.split)

lemma expires_later: "at \<in> set (expires now start d) \<Longrightarrow> now < at"
  by (auto simp: expires_def Let_def split: if_splits)

lemma clock_tests_stable:
  assumes ok: "policy_ok policy now" and st: "now \<le> s" "s \<le> t"
    and none: "\<forall>at \<in> set (expiryInstants e policy now). at \<le> t \<longrightarrow> at \<le> s"
  shows "clock_tests e policy t = clock_tests e policy s"
proof -
  note win = window_stable [OF _ _ st] window_stable_le [OF _ _ st]
  have sum: "dur_add (StaleAfter policy) (SettleGrace policy) = StaleAfter policy + SettleGrace policy"
    using ok by (simp add: policy_ok_def dur_add_def dur_ok_def min_duration_def)
  have "fresh (Heartbeat (Terminal e)) ClaimBusy t (HeartbeatTTL policy) =
      fresh (Heartbeat (Terminal e)) ClaimBusy s (HeartbeatTTL policy)"
    using ok none win(2) [of "HeartbeatTTL policy"]
    by (auto simp: fresh_def policy_ok_def set_expiryInstants split: option.split)
  moreover have "heartbeatSilentFor e t d = heartbeatSilentFor e s d"
    if "dur_ok d" "d < now" "\<forall>at \<in> set (expires now (lastActiveAt e) d). at \<le> t \<longrightarrow> at \<le> s" for d
    using win(1) [OF that] by (simp add: heartbeatSilentFor_def Let_def)
  then have "heartbeatSilentFor e t (HeartbeatSettleAfter policy) = heartbeatSilentFor e s (HeartbeatSettleAfter policy)"
    "heartbeatSilentFor e t (StaleAfter policy) = heartbeatSilentFor e s (StaleAfter policy)"
    "heartbeatSilentFor e t (dur_add (StaleAfter policy) (SettleGrace policy)) =
     heartbeatSilentFor e s (dur_add (StaleAfter policy) (SettleGrace policy))"
    using ok none by (simp_all add: policy_ok_def set_expiryInstants sum)
  moreover have "evidenceStoppedMoving e t (StuckAfter policy) = evidenceStoppedMoving e s (StuckAfter policy)"
    using ok none win(1) [of "StuckAfter policy"]
    by (simp add: evidenceStoppedMoving_def policy_ok_def set_expiryInstants)
  moreover have "ClassifierVerdictPending (Conversation e) policy t = ClassifierVerdictPending (Conversation e) policy s"
    using ok none win(2) [of "ClassifierTimeout policy"]
    by (simp add: ClassifierVerdictPending_def policy_ok_def set_expiryInstants)
  moreover have "parkedWindowOpen e policy t = parkedWindowOpen e policy s"
    using ok none win(2) [of "ParkedAfter policy"]
    by (auto simp: parkedWindowOpen_def policy_ok_def set_expiryInstants split: option.split)
  ultimately show ?thesis by (simp add: clock_tests_def)
qed

lemma expiryInstants_later: "at \<in> set (expiryInstants e policy now) \<Longrightarrow> now < at"
  by (auto simp: set_expiryInstants dest: expires_later split: option.splits)

interpretation rs: timed_view
  "\<lambda>(e, policy). Resolve (Terminal e) (Conversation e) policy"
  "\<lambda>(e, policy). expiryInstants e policy"
  "\<lambda>(e, policy). policy_ok policy"
proof unfold_locales
  show "sorted ((case c of (e, policy) \<Rightarrow> expiryInstants e policy) now)" for c :: "evidence \<times> Policy" and now
    by (cases c) (simp add: expiryInstants_def Let_def)
  show "now < at" if "at \<in> set ((case c of (e, policy) \<Rightarrow> expiryInstants e policy) now)"
    for c :: "evidence \<times> Policy" and now at
    using that expiryInstants_later by (cases c) auto
  show "(case c of (e, policy) \<Rightarrow> Resolve (Terminal e) (Conversation e) policy) t =
      (case c of (e, policy) \<Rightarrow> Resolve (Terminal e) (Conversation e) policy) s"
    if "(case c of (e, policy) \<Rightarrow> policy_ok policy) now" "now \<le> s" "s \<le> t"
      "\<forall>at \<in> set ((case c of (e, policy) \<Rightarrow> expiryInstants e policy) now). at \<le> t \<longrightarrow> at \<le> s"
    for c :: "evidence \<times> Policy" and now s t
  proof (cases c)
    case (Pair e policy)
    obtain terminal conversation where e: "e = \<lparr>Terminal = terminal, Conversation = conversation\<rparr>"
      by (cases e) simp
    show ?thesis
      using that Resolve_clock_tests [OF clock_tests_stable [of policy now s t e, unfolded e]]
      by (simp add: Pair e)
  qed
qed

lemma NextChange_view:
  "NextChange terminal conversation policy now =
     rs.next_change (\<lparr>Terminal = terminal, Conversation = conversation\<rparr>, policy) now"
  by (simp add: NextChange_def rs.next_change_def Let_def)

lemma PolicyFor_ok: "30 * minute < now \<Longrightarrow> policy_ok (PolicyFor agent) now"
  by (auto simp: policy_ok_def PolicyFor_def dur_ok_def max_duration_def go_simps Let_def)

subsection \<open>Case rules for the resolver\<close>

lemma settled_State [simp]: "State (settled e r policy now) \<noteq> SessionStateWorking"
  by (auto simp: settled_def classifierVerdict_def resolution_def held_def
      split: option.splits if_splits ObsClaim.splits)

lemma classifierVerdict_State: "classifierVerdict e = Some r \<Longrightarrow>
    State r \<in> {SessionStateWaitingInput, SessionStateIdle} \<and> \<not> Hold r"
  by (auto simp: classifierVerdict_def resolution_def split: option.splits if_splits ObsClaim.splits)

lemma harnessEdge_State: "harnessEdge e policy = Some r \<Longrightarrow>
    State r \<in> {SessionStatePendingApproval, SessionStateWaitingInput} \<and> \<not> Hold r"
  by (auto simp: harnessEdge_def resolution_def split: option.splits if_splits ObsClaim.splits)

lemma programStatusEdge_State: "programStatusEdge p = Some r \<Longrightarrow>
    State r \<in> {SessionStateWorking, SessionStatePendingApproval, SessionStateWaitingInput} \<and> \<not> Hold r"
  by (auto simp: programStatusEdge_def resolution_def split: ObsClaim.splits)

text \<open>A resolution the callers know how to show: held without a state, or one of five states.\<close>

definition shown :: "Resolution \<Rightarrow> bool" where
  "shown r \<longleftrightarrow>
     (if Hold r then State r = SessionStateZero \<and>
        RReason r \<in> {ReasonSettleGrace, ReasonAwaitingVerdict, ReasonPromptOwed}
      else State r \<in> {SessionStateIdle, SessionStateWorking, SessionStatePendingApproval,
        SessionStateWaitingInput, SessionStateUnknown})"

lemma shown_resolution [simp]:
  "shown (resolution s r d) \<longleftrightarrow> s \<in> {SessionStateIdle, SessionStateWorking,
     SessionStatePendingApproval, SessionStateWaitingInput, SessionStateUnknown}"
  by (simp add: shown_def resolution_def)

lemma shown_held [simp]:
  "shown (held r) \<longleftrightarrow> r \<in> {ReasonSettleGrace, ReasonAwaitingVerdict, ReasonPromptOwed}"
  by (simp add: shown_def held_def)

lemma shown_running [simp]: "shown (running e)"
  by (simp add: running_def)

lemma shown_edges:
  "classifierVerdict e = Some q \<Longrightarrow> shown q"
  "harnessEdge e policy = Some q \<Longrightarrow> shown q"
  "programStatusEdge p = Some q \<Longrightarrow> shown q"
  by (drule classifierVerdict_State harnessEdge_State programStatusEdge_State,
      auto simp: shown_def)+

lemma shown_settled [simp]: "shown (settled e r policy now)"
  by (auto simp: settled_def intro: shown_edges split: option.split)

lemma shown_clauses [simp]:
  "shown (resolve_background e policy now)"
  "shown (resolve_bracket e policy now)"
  "shown (resolve_rest e policy now)"
    apply (cases "classifierVerdict e"; simp add: resolve_background_def shown_edges)
   apply (cases "classifierVerdict e"; simp add: resolve_bracket_def shown_edges)
  apply (cases "classifierVerdict e"; simp add: resolve_rest_def Let_def shown_edges)
  done

lemma shown_resolve_settling [simp]: "shown (resolve_settling e policy now)"
  by (cases "harnessEdge e policy") (simp_all add: resolve_settling_def shown_edges)

lemma shown_Resolve: "shown (Resolve terminal conversation policy now)"
  by (auto simp: Resolve_def Let_def intro: shown_edges split: option.split)

text \<open>Once every window of the policy has passed, the clauses that depend on the clock give up.\<close>

definition all_expired :: "evidence \<Rightarrow> Policy \<Rightarrow> time \<Rightarrow> bool" where
  "all_expired e policy now \<longleftrightarrow>
     \<not> fresh (Heartbeat (Terminal e)) ClaimBusy now (HeartbeatTTL policy) \<and>
     (lastActiveAt e \<noteq> 0 \<longrightarrow> heartbeatSilentFor e now (HeartbeatSettleAfter policy)) \<and>
     (LastMovement (Terminal e) \<noteq> 0 \<longrightarrow> evidenceStoppedMoving e now (StuckAfter policy)) \<and>
     \<not> ClassifierVerdictPending (Conversation e) policy now \<and>
     \<not> parkedWindowOpen e policy now"

lemma eventually_all_expired:
  assumes "policy_ok policy now0"
  shows "\<exists>T. \<forall>now \<ge> T. all_expired e policy now"
proof -
  have win: "\<exists>T. \<forall>now \<ge> T. d < time_sub now start" if "dur_ok d" for d start
    using that by (intro exI [of _ "start + d + 1"]) (simp add: time_sub_greater_iff)
  have ok: "dur_ok (HeartbeatTTL policy)" "dur_ok (HeartbeatSettleAfter policy)"
    "dur_ok (StuckAfter policy)" "dur_ok (ClassifierTimeout policy)" "dur_ok (ParkedAfter policy)"
    using assms by (simp_all add: policy_ok_def)
  define hb where "hb = (case Heartbeat (Terminal e) of None \<Rightarrow> 0 | Some h \<Rightarrow> ObservedAt h)"
  define cl where "cl = (case LastClassifier (Conversation e) of None \<Rightarrow> 0 | Some v \<Rightarrow> ObservedAt v)"
  obtain T1 T2 T3 T4 T5 where T:
    "\<forall>now \<ge> T1. HeartbeatTTL policy < time_sub now hb"
    "\<forall>now \<ge> T2. HeartbeatSettleAfter policy < time_sub now (lastActiveAt e)"
    "\<forall>now \<ge> T3. StuckAfter policy < time_sub now (LastMovement (Terminal e))"
    "\<forall>now \<ge> T4. ClassifierTimeout policy < time_sub now (ClassifyingSince (Conversation e))"
    "\<forall>now \<ge> T5. ParkedAfter policy < time_sub now cl"
    using win [OF ok(1), of hb] win [OF ok(2), of "lastActiveAt e"]
      win [OF ok(3), of "LastMovement (Terminal e)"]
      win [OF ok(4), of "ClassifyingSince (Conversation e)"] win [OF ok(5), of cl]
    by (elim exE) (rule that; assumption)
  have "all_expired e policy now" if "now \<ge> Max {T1, T2, T3, T4, T5}" for now
  proof -
    have le: "T1 \<le> now" "T2 \<le> now" "T3 \<le> now" "T4 \<le> now" "T5 \<le> now"
      using that by simp_all
    have "\<not> fresh (Heartbeat (Terminal e)) ClaimBusy now (HeartbeatTTL policy)"
      using T(1) le(1) by (auto simp: fresh_def hb_def not_le split: option.split)
    moreover have "\<not> parkedWindowOpen e policy now"
      using T(5) le(5) by (auto simp: parkedWindowOpen_def cl_def not_le split: option.split)
    ultimately show ?thesis
      using T le by (auto simp: all_expired_def heartbeatSilentFor_def evidenceStoppedMoving_def
          ClassifierVerdictPending_def Let_def not_le)
  qed
  then show ?thesis by blast
qed

lemma expired_not_working:
  assumes "all_expired e policy now" "LastMovement (Terminal e) \<noteq> 0"
    and quiet: "liveSignal e \<noteq> None \<and> Claim (the (liveSignal e)) = ClaimBusy \<longrightarrow> lastActiveAt e \<noteq> 0"
  shows "State (resolve_settling e policy now) \<noteq> SessionStateWorking"
proof -
  note expired = assms(1) [unfolded all_expired_def]
  have verdict: "State r \<noteq> SessionStateWorking" if "classifierVerdict e = Some r" for r
    using classifierVerdict_State [OF that] by auto
  have "State (resolve_background e policy now) \<noteq> SessionStateWorking"
    using expired assms(2) verdict
    by (cases "classifierVerdict e") (simp_all add: resolve_background_def resolution_def)
  moreover have "State (resolve_bracket e policy now) \<noteq> SessionStateWorking"
    using expired assms(2) by (simp add: resolve_bracket_def resolution_def)
  moreover have "State (resolve_rest e policy now) \<noteq> SessionStateWorking"
  proof (cases "liveSignal e \<noteq> None \<and> Claim (the (liveSignal e)) = ClaimBusy")
    case True
    with expired quiet have "heartbeatSilentFor e now (HeartbeatSettleAfter policy)" by blast
    with verdict show ?thesis
      by (cases "classifierVerdict e") (simp_all add: resolve_rest_def resolution_def held_def Let_def)
  next
    case False
    then show ?thesis using verdict
      by (cases "classifierVerdict e") (auto simp: resolve_rest_def resolution_def held_def Let_def)
  qed
  moreover have "State r \<noteq> SessionStateWorking" if "harnessEdge e policy = Some r" for r
    using harnessEdge_State [OF that] by auto
  ultimately show ?thesis
    using expired assms(2)
    by (cases "harnessEdge e policy") (simp_all add: resolve_settling_def resolution_def)
qed

lemma settled_not_approval [simp]: "State (settled e r policy now) \<noteq> SessionStatePendingApproval"
  by (auto simp: settled_def classifierVerdict_def resolution_def held_def
      split: option.splits if_splits ObsClaim.splits)

lemma resolve_settling_working:
  assumes "State (resolve_settling e policy now) = SessionStateWorking"
  shows "Compacting (Conversation e) \<or> BackgroundWork (Conversation e) \<or> TurnOpen (Conversation e) \<or>
    ToolOpen (Conversation e) \<or>
    (\<exists>s. liveSignal e = Some s \<and> Claim s = ClaimBusy \<and>
       \<not> heartbeatSilentFor e now (HeartbeatSettleAfter policy))"
proof (rule ccontr)
  assume none: "\<not> ?thesis"
  have verdict: "State r \<noteq> SessionStateWorking" if "classifierVerdict e = Some r" for r
    using classifierVerdict_State [OF that] by auto
  have edge: "State r \<noteq> SessionStateWorking" if "harnessEdge e policy = Some r" for r
    using harnessEdge_State [OF that] by auto
  have "State (resolve_rest e policy now) \<noteq> SessionStateWorking"
    using none verdict
    by (cases "classifierVerdict e") (auto simp: resolve_rest_def resolution_def held_def Let_def)
  with none edge have "State (resolve_settling e policy now) \<noteq> SessionStateWorking"
    by (cases "harnessEdge e policy") (simp_all add: resolve_settling_def resolution_def)
  with assms show False by simp
qed

lemma resolve_settling_approval:
  assumes "State (resolve_settling e policy now) = SessionStatePendingApproval"
  shows "\<exists>r. harnessEdge e policy = Some r \<and> State r = SessionStatePendingApproval"
proof (cases "harnessEdge e policy")
  case None
  have verdict: "State r \<noteq> SessionStatePendingApproval" if "classifierVerdict e = Some r" for r
    using classifierVerdict_State [OF that] by auto
  have "State (resolve_background e policy now) \<noteq> SessionStatePendingApproval"
    "State (resolve_bracket e policy now) \<noteq> SessionStatePendingApproval"
    "State (resolve_rest e policy now) \<noteq> SessionStatePendingApproval"
    using verdict
    by (cases "classifierVerdict e"; simp add: resolve_background_def resolve_bracket_def
        resolve_rest_def resolution_def held_def running_def Let_def)+
  with None assms show ?thesis
    by (simp add: resolve_settling_def resolution_def split: if_splits)
qed (use assms in \<open>simp add: resolve_settling_def\<close>)

lemma harnessEdge_approval:
  assumes "harnessEdge e policy = Some r" "State r = SessionStatePendingApproval"
  shows "\<exists>h. LastHarnessEvent (Conversation e) = Some h \<and> Claim h = ClaimApprovalPending \<and>
    \<not> supersededByBusy h e \<and> \<not> supersededByProgramStatus h e"
  using assms
  by (auto simp: harnessEdge_def resolution_def split: option.splits if_splits ObsClaim.splits)

subsection \<open>Properties\<close>

text \<open>
  C3. \<open>NextChange\<close> is exact, for a policy whose windows fit 64 bits and are shorter than
  the time since Go's zero instant, with no negative grace: when it names an instant, the answer stays
  what it is now until that instant and is different at it; when it names none, the answer never changes
  again by the passing of time.
\<close>

theorem NextChange_exact:
  assumes "policy_ok policy now"
  shows "case NextChange terminal conversation policy now of
      None \<Rightarrow> (\<forall>t \<ge> now. Resolve terminal conversation policy t = Resolve terminal conversation policy now)
    | Some at \<Rightarrow> now < at \<and>
        Resolve terminal conversation policy at \<noteq> Resolve terminal conversation policy now \<and>
        (\<forall>t. now \<le> t \<and> t < at \<longrightarrow>
           Resolve terminal conversation policy t = Resolve terminal conversation policy now)"
proof (cases "NextChange terminal conversation policy now")
  case None
  have "Resolve terminal conversation policy t = Resolve terminal conversation policy now" if "now \<le> t" for t
    using rs.next_change_None [of "(\<lparr>Terminal = terminal, Conversation = conversation\<rparr>, policy)" now t]
      None assms that by (simp add: NextChange_view)
  then show ?thesis unfolding None option.case by blast
next
  case (Some at)
  note change = rs.next_change_Some [of "(\<lparr>Terminal = terminal, Conversation = conversation\<rparr>, policy)" now at]
  have "Resolve terminal conversation policy t = Resolve terminal conversation policy now"
    if "now \<le> t" "t < at" for t
    using change(3) [of t] Some assms that by (simp add: NextChange_view)
  moreover have "now < at"
    "Resolve terminal conversation policy at \<noteq> Resolve terminal conversation policy now"
    using change(1,2) Some assms by (simp_all add: NextChange_view)
  ultimately show ?thesis unfolding Some option.case by blast
qed

text \<open>A session whose agent showed a busy line a second ago, with a turn open.\<close>

definition sample_now :: time where
  "sample_now = 63000000000 * second"

definition sample_terminal :: TerminalEvidence where
  "sample_terminal =
     \<lparr>Heartbeat = Some \<lparr>Source = SourceHeartbeat, Claim = ClaimBusy, Detail = ''esc to interrupt'',
                       ObservedAt = sample_now - second\<rparr>,
      ProgramStatus = None, Process = None, ReviewerInLoop = False,
      LastBusyAt = sample_now - second, LastMovement = sample_now - second\<rparr>"

definition sample_conversation :: ConversationEvidence where
  "sample_conversation =
     \<lparr>LastHarnessEvent = None, LastClassifier = None, TurnOpen = True, TurnEverOpened = True,
      ToolOpen = False, BackgroundWork = False, PendingCron = False, Compacting = False,
      IdleCompaction = False, BusyAtStop = 0, InitialPromptOwed = False, PromptIdleAt = 0,
      ClassifyingSince = 0\<rparr>"

theorem NextChange_exact_witness:
  "case NextChange sample_terminal sample_conversation (PolicyFor ''claude'') sample_now of
      None \<Rightarrow> (\<forall>t \<ge> sample_now. Resolve sample_terminal sample_conversation (PolicyFor ''claude'') t =
        Resolve sample_terminal sample_conversation (PolicyFor ''claude'') sample_now)
    | Some at \<Rightarrow> sample_now < at \<and>
        Resolve sample_terminal sample_conversation (PolicyFor ''claude'') at \<noteq>
        Resolve sample_terminal sample_conversation (PolicyFor ''claude'') sample_now \<and>
        (\<forall>t. sample_now \<le> t \<and> t < at \<longrightarrow>
           Resolve sample_terminal sample_conversation (PolicyFor ''claude'') t =
           Resolve sample_terminal sample_conversation (PolicyFor ''claude'') sample_now)"
  by (rule NextChange_exact) (rule PolicyFor_ok, simp add: sample_now_def go_simps)

text \<open>
  C23. No session stays in the working state on old evidence. Let the policy's windows fit 64 bits and be
  shorter than the time since Go's zero instant, with no negative grace, let the evidence record when
  the terminal last moved and when the session was last active, and let the program itself not report
  busy. If no further evidence comes, there is an instant from which on the session is never reported as
  working again, whatever turn, tool or background work is still recorded as open.
\<close>

theorem Resolve_leaves_working:
  assumes "policy_ok policy now"
    and "LastMovement terminal \<noteq> 0"
    and "lastActiveAt \<lparr>Terminal = terminal, Conversation = conversation\<rparr> \<noteq> 0"
    and "\<forall>p. ProgramStatus terminal = Some p \<longrightarrow> Claim p \<noteq> ClaimBusy"
  shows "\<exists>T. \<forall>t \<ge> T. State (Resolve terminal conversation policy t) \<noteq> SessionStateWorking"
proof -
  let ?e = "\<lparr>Terminal = terminal, Conversation = conversation\<rparr>"
  obtain T where T: "\<forall>t \<ge> T. all_expired ?e policy t"
    using eventually_all_expired [OF assms(1)] by blast
  have "State (Resolve terminal conversation policy t) \<noteq> SessionStateWorking" if "t \<ge> T" for t
  proof -
    have expired: "all_expired ?e policy t" using T that by blast
    then have stale: "\<not> fresh (Heartbeat terminal) ClaimBusy t (HeartbeatTTL policy)"
      by (simp add: all_expired_def)
    have "State (resolve_settling ?e policy t) \<noteq> SessionStateWorking"
      using expired_not_working [OF expired] assms(2,3) by simp
    moreover have "State r \<noteq> SessionStateWorking" if "harnessEdge ?e policy = Some r" for r
      using harnessEdge_State [OF that] by auto
    moreover have "State r \<noteq> SessionStateWorking"
      if "ProgramStatus terminal = Some p" "programStatusEdge p = Some r" for p r
      using that assms(4) by (auto simp: programStatusEdge_def resolution_def split: ObsClaim.splits)
    ultimately show ?thesis
      using stale by (auto simp: Resolve_def Let_def resolution_def split: option.split)
  qed
  then show ?thesis by blast
qed

theorem Resolve_leaves_working_witness:
  "\<exists>T. \<forall>t \<ge> T. State (Resolve sample_terminal sample_conversation (PolicyFor ''codex'') t) \<noteq> SessionStateWorking"
  by (rule Resolve_leaves_working, rule PolicyFor_ok [of sample_now])
    (simp_all add: sample_now_def sample_terminal_def lastActiveAt_def go_simps)

text \<open>
  The working state is reported only on live evidence: the process has not exited, and the
  program reports busy, or the busy line is fresh, or a turn, a tool, a compaction or background
  work is open, or the live signal is busy and not yet silent for the settle window.
\<close>

theorem Resolve_working_justified:
  assumes "State (Resolve terminal conversation policy now) = SessionStateWorking"
  shows "(\<forall>p. Process terminal = Some p \<longrightarrow> Claim p \<noteq> ClaimExited) \<and>
    ((\<exists>p. ProgramStatus terminal = Some p \<and> Claim p = ClaimBusy) \<or>
     ProgramStatus terminal = None \<and> fresh (Heartbeat terminal) ClaimBusy now (HeartbeatTTL policy) \<or>
     Compacting conversation \<or> BackgroundWork conversation \<or> TurnOpen conversation \<or> ToolOpen conversation \<or>
     (\<exists>s. liveSignal \<lparr>Terminal = terminal, Conversation = conversation\<rparr> = Some s \<and> Claim s = ClaimBusy \<and>
        \<not> heartbeatSilentFor \<lparr>Terminal = terminal, Conversation = conversation\<rparr> now (HeartbeatSettleAfter policy)))"
proof -
  let ?e = "\<lparr>Terminal = terminal, Conversation = conversation\<rparr>"
  have edge: "State r \<noteq> SessionStateWorking" if "harnessEdge ?e policy = Some r" for r
    using harnessEdge_State [OF that] by auto
  have busy: "Claim p = ClaimBusy" if "programStatusEdge p = Some r" "State r = SessionStateWorking" for p r
    using that by (auto simp: programStatusEdge_def resolution_def split: ObsClaim.splits)
  have exited: "\<forall>p. Process terminal = Some p \<longrightarrow> Claim p \<noteq> ClaimExited"
    using assms by (auto simp: Resolve_def resolution_def)
  consider p r where "ProgramStatus terminal = Some p" "programStatusEdge p = Some r" "State r = SessionStateWorking"
    | "ProgramStatus terminal = None" "fresh (Heartbeat terminal) ClaimBusy now (HeartbeatTTL policy)"
    | "State (resolve_settling ?e policy now) = SessionStateWorking"
    using assms edge
    by (auto simp: Resolve_def Let_def resolution_def split: option.splits if_splits)
  then show ?thesis
    using exited busy resolve_settling_working [of ?e policy now] by cases auto
qed

lemma sample_working:
  "State (Resolve sample_terminal sample_conversation (PolicyFor ''claude'') sample_now) = SessionStateWorking"
  by (simp add: Resolve_def sample_terminal_def sample_conversation_def sample_now_def fresh_def
      time_sub_def PolicyFor_def running_def resolution_def min_duration_def max_duration_def go_simps)

theorem Resolve_working_justified_witness:
  "State (Resolve sample_terminal sample_conversation (PolicyFor ''claude'') sample_now) = SessionStateWorking \<and>
    ((\<exists>p. ProgramStatus sample_terminal = Some p \<and> Claim p = ClaimBusy) \<or>
     ProgramStatus sample_terminal = None \<and>
       fresh (Heartbeat sample_terminal) ClaimBusy sample_now (HeartbeatTTL (PolicyFor ''claude'')) \<or>
     Compacting sample_conversation \<or> BackgroundWork sample_conversation \<or> TurnOpen sample_conversation \<or>
     ToolOpen sample_conversation \<or>
     (\<exists>s. liveSignal \<lparr>Terminal = sample_terminal, Conversation = sample_conversation\<rparr> = Some s \<and> Claim s = ClaimBusy \<and>
        \<not> heartbeatSilentFor \<lparr>Terminal = sample_terminal, Conversation = sample_conversation\<rparr> sample_now
            (HeartbeatSettleAfter (PolicyFor ''claude''))))"
  using Resolve_working_justified [OF sample_working] sample_working by blast

text \<open>
  A session is reported as waiting for an approval only when an approval is open: the program
  itself reports that it is blocked, or the last harness event is an approval request that neither
  later work nor a later program status has answered.
\<close>

theorem Resolve_approval_justified:
  assumes "State (Resolve terminal conversation policy now) = SessionStatePendingApproval"
  shows "(\<exists>p. ProgramStatus terminal = Some p \<and> Claim p \<in> {ClaimApprovalPending, ClaimNeedsInput}) \<or>
    (\<exists>h. LastHarnessEvent conversation = Some h \<and> Claim h = ClaimApprovalPending \<and>
       \<not> supersededByBusy h \<lparr>Terminal = terminal, Conversation = conversation\<rparr> \<and>
       \<not> supersededByProgramStatus h \<lparr>Terminal = terminal, Conversation = conversation\<rparr>)"
proof -
  let ?e = "\<lparr>Terminal = terminal, Conversation = conversation\<rparr>"
  have blocked: "Claim p \<in> {ClaimApprovalPending, ClaimNeedsInput}"
    if "programStatusEdge p = Some r" "State r = SessionStatePendingApproval" for p r
    using that by (auto simp: programStatusEdge_def resolution_def split: ObsClaim.splits)
  consider r where "harnessEdge ?e policy = Some r" "State r = SessionStatePendingApproval"
    | p r where "ProgramStatus terminal = Some p" "programStatusEdge p = Some r" "State r = SessionStatePendingApproval"
    | "State (resolve_settling ?e policy now) = SessionStatePendingApproval"
    using assms
    by (auto simp: Resolve_def Let_def resolution_def running_def split: option.splits if_splits)
  then show ?thesis
  proof cases
    case 2
    then show ?thesis using blocked by blast
  next
    case 3
    then show ?thesis
      using resolve_settling_approval [of ?e policy now] harnessEdge_approval [of ?e policy] by fastforce
  qed (use harnessEdge_approval [of ?e policy] in fastforce)
qed

definition sample_approval :: ConversationEvidence where
  "sample_approval = sample_conversation\<lparr>LastHarnessEvent :=
     Some \<lparr>Source = SourceHarnessEvent, Claim = ClaimApprovalPending, Detail = ''Allow?'', ObservedAt = sample_now\<rparr>\<rparr>"

theorem Resolve_approval_justified_witness:
  "(\<exists>p. ProgramStatus (sample_terminal\<lparr>Heartbeat := None\<rparr>) = Some p \<and> Claim p \<in> {ClaimApprovalPending, ClaimNeedsInput}) \<or>
    (\<exists>h. LastHarnessEvent sample_approval = Some h \<and> Claim h = ClaimApprovalPending \<and>
       \<not> supersededByBusy h \<lparr>Terminal = sample_terminal\<lparr>Heartbeat := None\<rparr>, Conversation = sample_approval\<rparr> \<and>
       \<not> supersededByProgramStatus h \<lparr>Terminal = sample_terminal\<lparr>Heartbeat := None\<rparr>, Conversation = sample_approval\<rparr>)"
  by (rule Resolve_approval_justified [where policy = "PolicyFor ''codex''" and now = sample_now])
    (simp add: Resolve_def sample_terminal_def sample_approval_def sample_conversation_def sample_now_def
      fresh_def harnessEdge_def supersededByBusy_def supersededByProgramStatus_def
      reviewedApprovalsShowOnTheTerminal_def resolve_settling_def resolution_def go_simps)

text \<open>
  Every answer is one the callers can show: a held answer has no state and one of the three
  waiting reasons; any other is idle, working, pending approval, waiting for input or unknown.
  An answer that is not held opens the user's turn exactly when it is not the working state.
\<close>

theorem Resolve_shown:
  "let r = Resolve terminal conversation policy now in
   shown r \<and> (Hold r \<or> (OpensTurn (State r) \<longleftrightarrow> State r \<noteq> SessionStateWorking))"
  using shown_Resolve [of terminal conversation policy now]
  by (auto simp: Let_def shown_def OpensTurn_def split: if_splits)

end
