(* ===== verification/Go_Strings.thy ===== *)
theory Go_Strings
  imports Prelude
begin

text \<open>
  The functions of Go's \<open>strings\<close> package that the components use. A string is its list of bytes
  (\<open>char\<close>), so \<open>length\<close> is Go's \<open>len\<close>. \<open>TrimSpace\<close> strips the UTF-8 encodings of the code
  points for which \<open>unicode.IsSpace\<close> holds; because the encodings are self-synchronising, this is a
  matter of byte prefixes and suffixes. \<open>ToLower\<close> is exact as far as
  ASCII results go: the ASCII capitals, and the only two other code points whose lower case is an
  ASCII letter, U+212A and U+0130; other letters outside ASCII keep their bytes, so the result may
  differ from Go's in which non-ASCII letter it has, never in where it has one.
\<close>

definition space_runes :: "string list" where
  "space_runes =
     map (\<lambda>n. [char_of n]) [9::nat, 10, 11, 12, 13, 32] @
     map (map char_of) ([[0xC2, 0x85], [0xC2, 0xA0], [0xE1, 0x9A, 0x80],
       [0xE2, 0x80, 0xA8], [0xE2, 0x80, 0xA9], [0xE2, 0x80, 0xAF], [0xE2, 0x81, 0x9F],
       [0xE3, 0x80, 0x80]] @ map (\<lambda>n. [0xE2, 0x80, n]) [0x80 ..< 0x8B] :: nat list list)"

fun strip_prefix :: "string \<Rightarrow> string \<Rightarrow> string option" where
  "strip_prefix [] s = Some s"
| "strip_prefix (p # ps) [] = None"
| "strip_prefix (p # ps) (c # s) = (if p = c then strip_prefix ps s else None)"

definition HasPrefix :: "string \<Rightarrow> string \<Rightarrow> bool" where
  "HasPrefix s p = (strip_prefix p s \<noteq> None)"

definition HasSuffix :: "string \<Rightarrow> string \<Rightarrow> bool" where
  "HasSuffix s p = HasPrefix (rev s) (rev p)"

fun strip_first :: "string list \<Rightarrow> string \<Rightarrow> string option" where
  "strip_first [] s = None"
| "strip_first (p # ps) s =
     (case strip_prefix p s of
        Some t \<Rightarrow> if p \<noteq> [] then Some t else strip_first ps s
      | None \<Rightarrow> strip_first ps s)"

lemma strip_prefix_length: "strip_prefix p s = Some t \<Longrightarrow> length s = length p + length t"
  by (induction p s rule: strip_prefix.induct) (auto split: if_splits)

lemma strip_first_length [termination_simp]: "strip_first ps s = Some t \<Longrightarrow> length t < length s"
  by (induction ps s rule: strip_first.induct)
    (auto split: option.splits if_splits dest: strip_prefix_length)

fun trim_left_of :: "string list \<Rightarrow> string \<Rightarrow> string" where
  "trim_left_of ps s =
     (case strip_first ps s of None \<Rightarrow> s | Some t \<Rightarrow> trim_left_of ps t)"

declare trim_left_of.simps [simp del]

definition TrimSpace :: "string \<Rightarrow> string" where
  "TrimSpace s =
     rev (trim_left_of (map rev space_runes) (rev (trim_left_of space_runes s)))"

definition lower_byte :: "char \<Rightarrow> char" where
  "lower_byte c = (let n = of_char c :: nat in if 65 \<le> n \<and> n \<le> 90 then char_of (n + 32) else c)"

definition kelvin_sign :: string where
  "kelvin_sign = map char_of [0xE2, 0x84, 0xAA :: nat]"

definition dotted_capital_i :: string where
  "dotted_capital_i = map char_of [0xC4, 0xB0 :: nat]"

fun ToLower :: "string \<Rightarrow> string" where
  "ToLower [] = []"
| "ToLower (c # cs) =
     (if HasPrefix (c # cs) kelvin_sign then CHR ''k'' # ToLower (drop 2 cs)
      else if HasPrefix (c # cs) dotted_capital_i then CHR ''i'' # ToLower (drop 1 cs)
      else lower_byte c # ToLower cs)"

fun join_with :: "string \<Rightarrow> string list \<Rightarrow> string" where
  "join_with sep [] = []"
| "join_with sep [x] = x"
| "join_with sep (x # y # ys) = x @ sep @ join_with sep (y # ys)"

text \<open>
  Runes: the code points \<open>range\<close> and \<open>[]rune\<close> decode from a string, each as the bytes that encode
  it again. A byte that starts no valid encoding is one rune, U+FFFD.
\<close>

definition byte_in :: "nat \<Rightarrow> nat \<Rightarrow> char \<Rightarrow> bool" where
  "byte_in lo hi c = (lo \<le> (of_char c :: nat) \<and> (of_char c :: nat) \<le> hi)"

fun rune_width :: "string \<Rightarrow> nat" where
  "rune_width [] = 0"
| "rune_width (a # cs) =
     (let b = (of_char a :: nat);
          second = (if b = 0xE0 then (0xA0, 0xBF) else if b = 0xED then (0x80, 0x9F)
                    else if b = 0xF0 then (0x90, 0xBF) else if b = 0xF4 then (0x80, 0x8F)
                    else (0x80, 0xBF));
          size = (if b < 0x80 then 1 else if 0xC2 \<le> b \<and> b \<le> 0xDF then 2
                  else if 0xE0 \<le> b \<and> b \<le> 0xEF then 3 else if 0xF0 \<le> b \<and> b \<le> 0xF4 then 4 else 0)
      in if size = 1 then 1
         else if size = 0 \<or> length cs < size - 1 then 0
         else if byte_in (fst second) (snd second) (cs ! 0) \<and>
                 list_all (byte_in 0x80 0xBF) (take (size - 2) (drop 1 cs))
         then size else 0)"

definition replacement_rune :: string where
  "replacement_rune = map char_of [0xEF, 0xBF, 0xBD :: nat]"

function runes :: "string \<Rightarrow> string list" where
  "runes s =
     (if s = [] then []
      else if rune_width s = 0 then replacement_rune # runes (drop 1 s)
      else take (rune_width s) s # runes (drop (rune_width s) s))"
  by pat_completeness auto
termination
  by (relation "measure length") auto

declare runes.simps [simp del]

definition RuneCount :: "string \<Rightarrow> nat" where
  "RuneCount s = length (runes s)"

subsection \<open>Trimming is idempotent\<close>

lemma strip_prefix_iff: "strip_prefix p s = Some t \<longleftrightarrow> s = p @ t"
  by (induction p s rule: strip_prefix.induct) auto

lemma HasPrefix_iff: "HasPrefix s p \<longleftrightarrow> (\<exists>t. s = p @ t)"
  by (simp add: HasPrefix_def strip_prefix_iff)

lemma strip_first_None: "strip_first ps s = None \<longleftrightarrow> (\<forall>p \<in> set ps. p = [] \<or> \<not> HasPrefix s p)"
  by (induction ps s rule: strip_first.induct) (auto simp: HasPrefix_def split: option.splits)

lemma strip_first_Some: "strip_first ps s = Some t \<Longrightarrow> \<exists>p \<in> set ps. s = p @ t"
  by (induction ps s rule: strip_first.induct) (auto simp: strip_prefix_iff split: option.splits if_splits)

lemma trim_left_of_stuck: "strip_first ps (trim_left_of ps s) = None"
proof (induction ps s rule: trim_left_of.induct)
  case (1 ps s)
  then show ?case
    by (subst trim_left_of.simps) (auto split: option.split)
qed

lemma trim_left_of_suffix: "\<exists>u. s = u @ trim_left_of ps s"
proof (induction ps s rule: trim_left_of.induct)
  case (1 ps s)
  show ?case
  proof (cases "strip_first ps s")
    case (Some t)
    then obtain p where "s = p @ t" by (auto dest: strip_first_Some)
    moreover obtain u where "t = u @ trim_left_of ps t" using 1 Some by blast
    ultimately show ?thesis
      using Some by (subst trim_left_of.simps) (metis append_assoc option.simps(5))
  qed (simp add: trim_left_of.simps)
qed

lemma trim_left_of_id: "strip_first ps s = None \<Longrightarrow> trim_left_of ps s = s"
  by (simp add: trim_left_of.simps)

lemma HasPrefix_append: "HasPrefix s p \<Longrightarrow> HasPrefix (s @ t) p"
  by (auto simp: HasPrefix_iff)

lemma TrimSpace_idem [simp]: "TrimSpace (TrimSpace s) = TrimSpace s"
proof -
  define l where "l = trim_left_of space_runes s"
  define r where "r = trim_left_of (map rev space_runes) (rev l)"
  have T: "TrimSpace s = rev r" by (simp add: TrimSpace_def l_def r_def)
  have "strip_first space_runes l = None" by (simp add: l_def trim_left_of_stuck)
  moreover obtain u where "rev l = u @ r" using trim_left_of_suffix r_def by blast
  then have "l = rev r @ rev u" by (metis rev_append rev_rev_ident)
  ultimately have "strip_first space_runes (rev r) = None"
    by (auto simp: strip_first_None dest: HasPrefix_append)
  then have "trim_left_of space_runes (rev r) = rev r" by (rule trim_left_of_id)
  moreover have "trim_left_of (map rev space_runes) r = r"
    unfolding r_def by (intro trim_left_of_id trim_left_of_stuck)
  ultimately show ?thesis unfolding T by (simp add: TrimSpace_def)
qed

lemma TrimSpace_Nil [simp]: "TrimSpace [] = []"
proof -
  have "trim_left_of ps [] = []" for ps
    using trim_left_of_suffix [of "[]" ps] by simp
  then show ?thesis by (simp add: TrimSpace_def)
qed

subsection \<open>Strings without space\<close>

definition graphic :: "char \<Rightarrow> bool" where
  "graphic c \<longleftrightarrow> 32 < (of_char c :: nat) \<and> (of_char c :: nat) < 128"

lemma space_runes_not_graphic:
  "list_all (\<lambda>p. p \<noteq> [] \<and> \<not> graphic (hd p) \<and> \<not> graphic (last p)) space_runes"
  by (simp add: space_runes_def graphic_def upt_rec)

lemma trim_left_graphic:
  assumes "list_all (\<lambda>p. p \<noteq> [] \<and> \<not> graphic (hd p)) ps" "s = [] \<or> graphic (hd s)"
  shows "trim_left_of ps s = s"
proof -
  have "strip_first ps s = None"
    using assms
  proof (induction ps)
    case (Cons p ps)
    then have "strip_prefix p s = None" by (cases p; cases s) auto
    then show ?case using Cons by simp
  qed simp
  then show ?thesis by (simp add: trim_left_of.simps)
qed

lemma TrimSpace_graphic [go_simps]: "s = [] \<or> graphic (hd s) \<and> graphic (last s) \<Longrightarrow> TrimSpace s = s"
proof -
  assume s: "s = [] \<or> graphic (hd s) \<and> graphic (last s)"
  have "trim_left_of space_runes s = s"
    using space_runes_not_graphic s by (intro trim_left_graphic) (auto simp: list_all_iff)
  moreover have "trim_left_of (map rev space_runes) (rev s) = rev s"
    using space_runes_not_graphic s by (intro trim_left_graphic) (auto simp: list_all_iff hd_rev)
  ultimately show ?thesis by (simp add: TrimSpace_def)
qed

end
