(* ===== verification/Go_Float.thy ===== *)
theory Go_Float
  imports Complex_Main Prelude
begin

text \<open>
  Go's \<open>float64\<close>: a finite value, an infinity, or NaN. Comparisons with NaN are false and
  arithmetic propagates it, as in IEEE 754; the finite values are exact rationals, so rounding is
  not modelled (nor the sign of zero). \<open>min\<close> and \<open>max\<close> are the language's built-in functions.
\<close>

datatype f64 = Fin rat | PosInf | NegInf | NaN

instantiation f64 :: ord
begin

fun less_f64 :: "f64 \<Rightarrow> f64 \<Rightarrow> bool" where
  "less_f64 (Fin x) (Fin y) = (x < y)"
| "less_f64 (Fin x) PosInf = True"
| "less_f64 NegInf (Fin y) = True"
| "less_f64 NegInf PosInf = True"
| "less_f64 _ _ = False"

fun less_eq_f64 :: "f64 \<Rightarrow> f64 \<Rightarrow> bool" where
  "less_eq_f64 NaN _ = False"
| "less_eq_f64 _ NaN = False"
| "less_eq_f64 x y = (x < y \<or> x = y)"

instance ..

end

instantiation f64 :: "{zero, one, plus, minus, uminus, times}"
begin

definition zero_f64 :: f64 where "zero_f64 = Fin 0"
definition one_f64 :: f64 where "one_f64 = Fin 1"

fun uminus_f64 :: "f64 \<Rightarrow> f64" where
  "uminus_f64 (Fin x) = Fin (- x)"
| "uminus_f64 PosInf = NegInf"
| "uminus_f64 NegInf = PosInf"
| "uminus_f64 NaN = NaN"

fun plus_f64 :: "f64 \<Rightarrow> f64 \<Rightarrow> f64" where
  "plus_f64 (Fin x) (Fin y) = Fin (x + y)"
| "plus_f64 NaN _ = NaN"
| "plus_f64 _ NaN = NaN"
| "plus_f64 PosInf NegInf = NaN"
| "plus_f64 NegInf PosInf = NaN"
| "plus_f64 PosInf _ = PosInf"
| "plus_f64 _ PosInf = PosInf"
| "plus_f64 NegInf _ = NegInf"
| "plus_f64 _ NegInf = NegInf"

definition minus_f64 :: "f64 \<Rightarrow> f64 \<Rightarrow> f64" where
  "minus_f64 x y = x + (- y)"

definition signed_inf :: "bool \<Rightarrow> f64" where
  "signed_inf positive = (if positive then PosInf else NegInf)"

fun times_f64 :: "f64 \<Rightarrow> f64 \<Rightarrow> f64" where
  "times_f64 (Fin x) (Fin y) = Fin (x * y)"
| "times_f64 NaN _ = NaN"
| "times_f64 _ NaN = NaN"
| "times_f64 (Fin x) PosInf = (if x = 0 then NaN else signed_inf (x > 0))"
| "times_f64 (Fin x) NegInf = (if x = 0 then NaN else signed_inf (x < 0))"
| "times_f64 PosInf (Fin y) = (if y = 0 then NaN else signed_inf (y > 0))"
| "times_f64 NegInf (Fin y) = (if y = 0 then NaN else signed_inf (y < 0))"
| "times_f64 PosInf PosInf = PosInf"
| "times_f64 NegInf NegInf = PosInf"
| "times_f64 PosInf NegInf = NegInf"
| "times_f64 NegInf PosInf = NegInf"

instance ..

end

definition f64_min :: "f64 \<Rightarrow> f64 \<Rightarrow> f64" where
  "f64_min x y = (if x = NaN \<or> y = NaN then NaN else if y < x then y else x)"

definition f64_max :: "f64 \<Rightarrow> f64 \<Rightarrow> f64" where
  "f64_max x y = (if x = NaN \<or> y = NaN then NaN else if x < y then y else x)"

definition f64_abs :: "f64 \<Rightarrow> f64" where
  "f64_abs x = (case x of Fin r \<Rightarrow> Fin \<bar>r\<bar> | PosInf \<Rightarrow> PosInf | NegInf \<Rightarrow> PosInf | NaN \<Rightarrow> NaN)"

definition f64_eq :: "f64 \<Rightarrow> f64 \<Rightarrow> bool" where
  "f64_eq x y = (x = y \<and> x \<noteq> NaN)"

definition f64_of_int :: "int \<Rightarrow> f64" where
  "f64_of_int n = Fin (of_int n)"

text \<open>Division of two finite values with a nonzero divisor, the only one the components make.\<close>

definition f64_ratio :: "int \<Rightarrow> int \<Rightarrow> f64" where
  "f64_ratio m n = Fin (of_int m / of_int n)"

subsection \<open>Values in the open unit interval\<close>

abbreviation unit_ratio :: "f64 \<Rightarrow> bool" where
  "unit_ratio x \<equiv> 0 < x \<and> x < 1"

lemma f64_const [simp]: "(0 :: f64) = Fin 0" "(1 :: f64) = Fin 1"
  by (simp_all add: zero_f64_def one_f64_def)

lemma less_zero_iff: "0 < x \<longleftrightarrow> x = PosInf \<or> (\<exists>q. x = Fin q \<and> 0 < q)"
  by (cases x) auto

lemma unit_ratioE:
  assumes "unit_ratio x"
  obtains q where "x = Fin q" "0 < q" "q < 1"
  using assms by (cases x) auto

lemma unit_ratio_f64_ratio: "0 < m \<Longrightarrow> m < n \<Longrightarrow> unit_ratio (f64_ratio m n)"
  by (simp add: f64_ratio_def)

end
