(* ===== verification/Layout_Tree.thy ===== *)
theory Layout_Tree
  imports Go_Strings Go_Float
begin

text \<open>
  The split-layout trees of \<open>internal/layouttree\<close>: panes and tiles at the leaves, binary splits
  inside. This theory holds the data and every operation of \<open>layouttree.go\<close>, \<open>row.go\<close> and
  \<open>left_neighbour.go\<close> but the JSON encoding. Conventions: an operation that returns a layout and
  \<open>ok\<close>, and hands the layout it was given back when not ok, is an \<open>option\<close> (\<open>None\<close> is "unchanged,
  false"); the callback of \<open>walk\<close> becomes the list of the nodes visited; the closure
  \<open>newSplitID\<close>, which mints an id at each call, is the function from the number of the call to the
  id it returns. Node types, directions and ratio modes stay the strings they are in the code, so
  that the validator's rejections are modelled too.
\<close>

subsection \<open>Nodes\<close>

record WantedWidth =
  WantedCols :: int
  WantedAreaCols :: int

definition no_width :: WantedWidth where
  "no_width = \<lparr>WantedCols = 0, WantedAreaCols = 0\<rparr>"

datatype Node = Node
  (Type: string) (PaneID: string) (TileID: string) (TileKind: string) (TileParams: string)
  (TileSessionID: string) (NodeWidth: WantedWidth) (SplitID: string) (Direction: string)
  (Ratio: f64) (RatioLocked: bool) (RatioMode: string) (Children: "Node list")

definition zero_node :: Node where
  "zero_node = Node [] [] [] [] [] [] no_width [] [] 0 False [] []"

definition with_children :: "Node \<Rightarrow> Node list \<Rightarrow> Node" where
  "with_children n cs = Node (Type n) (PaneID n) (TileID n) (TileKind n) (TileParams n)
     (TileSessionID n) (NodeWidth n) (SplitID n) (Direction n) (Ratio n) (RatioLocked n) (RatioMode n) cs"

definition with_ratio :: "Node \<Rightarrow> f64 \<Rightarrow> Node" where
  "with_ratio n r = Node (Type n) (PaneID n) (TileID n) (TileKind n) (TileParams n)
     (TileSessionID n) (NodeWidth n) (SplitID n) (Direction n) r (RatioLocked n) (RatioMode n) (Children n)"

definition with_locked_ratio :: "Node \<Rightarrow> f64 \<Rightarrow> string \<Rightarrow> Node" where
  "with_locked_ratio n r mode = Node (Type n) (PaneID n) (TileID n) (TileKind n) (TileParams n)
     (TileSessionID n) (NodeWidth n) (SplitID n) (Direction n) r True mode (Children n)"

definition with_width :: "Node \<Rightarrow> WantedWidth \<Rightarrow> Node" where
  "with_width n w = Node (Type n) (PaneID n) (TileID n) (TileKind n) (TileParams n)
     (TileSessionID n) w (SplitID n) (Direction n) (Ratio n) (RatioLocked n) (RatioMode n) (Children n)"

definition with_params :: "Node \<Rightarrow> string \<Rightarrow> Node" where
  "with_params n p = Node (Type n) (PaneID n) (TileID n) (TileKind n) p
     (TileSessionID n) (NodeWidth n) (SplitID n) (Direction n) (Ratio n) (RatioLocked n) (RatioMode n) (Children n)"

definition with_session :: "Node \<Rightarrow> string \<Rightarrow> Node" where
  "with_session n s = Node (Type n) (PaneID n) (TileID n) (TileKind n) (TileParams n)
     s (NodeWidth n) (SplitID n) (Direction n) (Ratio n) (RatioLocked n) (RatioMode n) (Children n)"

definition with_pane_id :: "Node \<Rightarrow> string \<Rightarrow> Node" where
  "with_pane_id n i = Node (Type n) i (TileID n) (TileKind n) (TileParams n)
     (TileSessionID n) (NodeWidth n) (SplitID n) (Direction n) (Ratio n) (RatioLocked n) (RatioMode n) (Children n)"

definition with_tile_id :: "Node \<Rightarrow> string \<Rightarrow> Node" where
  "with_tile_id n i = Node (Type n) (PaneID n) i (TileKind n) (TileParams n)
     (TileSessionID n) (NodeWidth n) (SplitID n) (Direction n) (Ratio n) (RatioLocked n) (RatioMode n) (Children n)"

lemmas with_defs = with_children_def with_ratio_def with_locked_ratio_def with_width_def
  with_params_def with_session_def with_pane_id_def with_tile_id_def

definition pane_node :: "string \<Rightarrow> Node" where
  "pane_node i = Node ''pane'' i [] [] [] [] no_width [] [] 0 False [] []"

definition split_node :: "string \<Rightarrow> string \<Rightarrow> f64 \<Rightarrow> bool \<Rightarrow> string \<Rightarrow> Node list \<Rightarrow> Node" where
  "split_node i dir r locked mode cs = Node ''split'' [] [] [] [] [] no_width i dir r locked mode cs"

definition tile_node :: "string \<Rightarrow> string \<Rightarrow> string \<Rightarrow> string \<Rightarrow> WantedWidth \<Rightarrow> Node" where
  "tile_node i kind params sess w = Node ''tile'' [] i kind params sess w [] [] 0 False [] []"

lemma children_smaller [termination_simp]:
  "size_list size (Children n) < size n"
  by (cases n) simp

lemma child_smaller [termination_simp]:
  "c \<in> set (Children n) \<Longrightarrow> size c < size n"
  using children_smaller [of n] size_list_estimation' [of c "Children n" "size c" size] by simp

lemma nth_child_smaller: "i < length (Children n) \<Longrightarrow> size (Children n ! i) < size n"
  by (rule child_smaller) simp

subsection \<open>Walking and rewriting\<close>

abbreviation is_split :: "Node \<Rightarrow> bool" where
  "is_split n \<equiv> Type n = ''split''"

definition DefaultLayout :: "string \<Rightarrow> Node" where
  "DefaultLayout paneID = pane_node paneID"

definition leafIDOf :: "Node \<Rightarrow> string" where
  "leafIDOf n =
     (if Type n = ''pane'' then PaneID n else if Type n = ''tile'' then TileID n else [])"

definition isLeaf :: "Node \<Rightarrow> bool" where
  "isLeaf n = (Type n = ''pane'' \<or> Type n = ''tile'')"

fun walk :: "Node \<Rightarrow> Node list" and walk_all :: "Node list \<Rightarrow> Node list" where
  "walk n = n # (if \<not> is_split n then [] else walk_all (Children n))"
| "walk_all [] = []"
| "walk_all (c # cs) = walk c @ walk_all cs"

fun findNode :: "(Node \<Rightarrow> bool) \<Rightarrow> Node \<Rightarrow> Node option"
  and find_first :: "(Node \<Rightarrow> bool) \<Rightarrow> Node list \<Rightarrow> Node option" where
  "findNode match n =
     (if match n then Some n
      else if \<not> is_split n then None
      else find_first match (Children n))"
| "find_first match [] = None"
| "find_first match (c # cs) =
     (case findNode match c of Some found \<Rightarrow> Some found | None \<Rightarrow> find_first match cs)"

fun rewriteFirst :: "(Node \<Rightarrow> Node option) \<Rightarrow> Node \<Rightarrow> Node option"
  and rewrite_children :: "(Node \<Rightarrow> Node option) \<Rightarrow> Node list \<Rightarrow> Node list option" where
  "rewriteFirst rewrite n =
     (case rewrite n of
        Some next \<Rightarrow> Some next
      | None \<Rightarrow>
          if \<not> is_split n then None
          else map_option (with_children n) (rewrite_children rewrite (Children n)))"
| "rewrite_children rewrite [] = None"
| "rewrite_children rewrite (c # cs) =
     (case rewriteFirst rewrite c of
        Some next \<Rightarrow> Some (next # cs)
      | None \<Rightarrow> map_option ((#) c) (rewrite_children rewrite cs))"

declare walk.simps [simp del] findNode.simps [simp del] rewriteFirst.simps [simp del]

definition isPane :: "string \<Rightarrow> Node \<Rightarrow> bool" where
  "isPane paneID n = (Type n = ''pane'' \<and> PaneID n = paneID)"

definition isTile :: "string \<Rightarrow> Node \<Rightarrow> bool" where
  "isTile tileID n = (Type n = ''tile'' \<and> TileID n = tileID)"

definition isLeafWithID :: "string \<Rightarrow> Node \<Rightarrow> bool" where
  "isLeafWithID i n = (isLeaf n \<and> leafIDOf n = i)"

definition ratioOrDefault :: "f64 \<Rightarrow> f64" where
  "ratioOrDefault ratio = (if ratio \<le> 0 \<or> ratio \<ge> 1 then Fin (1 / 2) else ratio)"

definition directionOrDefault :: "string \<Rightarrow> string" where
  "directionOrDefault direction =
     (if direction \<noteq> ''vertical'' \<and> direction \<noteq> ''horizontal'' then ''vertical'' else direction)"

definition splitIDOrDefault :: "string \<Rightarrow> string" where
  "splitIDOrDefault splitID = (if TrimSpace splitID = [] then ''split'' else splitID)"

subsection \<open>Queries\<close>

definition HasPane :: "Node \<Rightarrow> string \<Rightarrow> bool" where
  "HasPane n paneID = (findNode (isPane paneID) n \<noteq> None)"

definition PaneIDs :: "Node \<Rightarrow> string list" where
  "PaneIDs n = map PaneID (filter (\<lambda>v. Type v = ''pane'') (walk n))"

definition HasTile :: "Node \<Rightarrow> string \<Rightarrow> bool" where
  "HasTile n tileID = (findNode (isTile tileID) n \<noteq> None)"

definition TileIDs :: "Node \<Rightarrow> string list" where
  "TileIDs n = map TileID (filter (\<lambda>v. Type v = ''tile'') (walk n))"

definition HasLeaf :: "Node \<Rightarrow> string \<Rightarrow> bool" where
  "HasLeaf n leafID = (HasPane n leafID \<or> HasTile n leafID)"

definition LeafIDs :: "Node \<Rightarrow> string list" where
  "LeafIDs n = map leafIDOf (filter isLeaf (walk n))"

definition LayoutEmpty :: "Node \<Rightarrow> bool" where
  "LayoutEmpty n = (PaneIDs n = [] \<and> TileIDs n = [])"

definition findLeaf :: "Node \<Rightarrow> string \<Rightarrow> Node option" where
  "findLeaf n i = findNode (isLeafWithID i) n"

record TileLeaf =
  LeafTileID :: string
  LeafTileKind :: string
  LeafTileParams :: string
  LeafTileSessionID :: string

definition TileLeaves :: "Node \<Rightarrow> TileLeaf list" where
  "TileLeaves n =
     map (\<lambda>v. \<lparr>LeafTileID = TileID v, LeafTileKind = TileKind v, LeafTileParams = TileParams v,
               LeafTileSessionID = TileSessionID v\<rparr>)
       (filter (\<lambda>v. Type v = ''tile'') (walk n))"

fun TileFractionByID :: "Node \<Rightarrow> string \<Rightarrow> f64 option"
  and tile_fraction_in :: "Node list \<Rightarrow> string \<Rightarrow> f64 option" where
  "TileFractionByID n tileID =
     (if \<not> is_split n then None
      else if length (Children n) = 2 \<and> Type (Children n ! 0) = ''tile'' \<and> TileID (Children n ! 0) = tileID
      then Some (Ratio n)
      else if length (Children n) = 2 \<and> Type (Children n ! 1) = ''tile'' \<and> TileID (Children n ! 1) = tileID
      then Some (1 - Ratio n)
      else tile_fraction_in (Children n) tileID)"
| "tile_fraction_in [] tileID = None"
| "tile_fraction_in (c # cs) tileID =
     (case TileFractionByID c tileID of Some f \<Rightarrow> Some f | None \<Rightarrow> tile_fraction_in cs tileID)"

declare TileFractionByID.simps [simp del]

subsection \<open>Ratios\<close>

function splitChainSpanCount :: "Node \<Rightarrow> string \<Rightarrow> int" where
  "splitChainSpanCount n direction =
     (if \<not> is_split n \<or> Direction n \<noteq> direction \<or> length (Children n) < 2 \<or> RatioLocked n then 1
      else splitChainSpanCount (Children n ! 0) direction + splitChainSpanCount (Children n ! 1) direction)"
  by pat_completeness auto
termination
  by (relation "measure (\<lambda>(n, d). size n)") (auto intro!: nth_child_smaller)

function Rebalance :: "Node \<Rightarrow> Node" where
  "Rebalance n =
     (if \<not> is_split n \<or> length (Children n) < 2 then n
      else (let firstChild = Rebalance (Children n ! 0);
                secondChild = Rebalance (Children n ! 1);
                node = with_children n [firstChild, secondChild]
            in if RatioLocked node then node
               else (let firstSpan = splitChainSpanCount firstChild (Direction node);
                         secondSpan = splitChainSpanCount secondChild (Direction node);
                         totalSpan = firstSpan + secondSpan
                     in if totalSpan > 0 then with_ratio node (f64_ratio firstSpan totalSpan) else node)))"
  by pat_completeness auto
termination
  by (relation "measure size") (auto intro!: nth_child_smaller)

declare splitChainSpanCount.simps [simp del] Rebalance.simps [simp del]

subsection \<open>Splitting, resizing, removing\<close>

definition Split :: "Node \<Rightarrow> string \<Rightarrow> string \<Rightarrow> string \<Rightarrow> string \<Rightarrow> f64 \<Rightarrow> Node option" where
  "Split n targetLeafID newPaneID splitID direction ratio =
     rewriteFirst (\<lambda>candidate.
       if \<not> isLeafWithID targetLeafID candidate then None
       else Some (split_node splitID (directionOrDefault direction) (ratioOrDefault ratio) False ''automatic''
                    [candidate, pane_node newPaneID])) n"

definition SetSplitRatio :: "Node \<Rightarrow> string \<Rightarrow> f64 \<Rightarrow> Node option" where
  "SetSplitRatio n splitID ratio =
     (let ratio = f64_min (f64_max ratio (Fin (1 / 20))) (Fin (19 / 20)) in
      rewriteFirst (\<lambda>candidate.
        if \<not> is_split candidate \<or> length (Children candidate) < 2 \<or> SplitID candidate \<noteq> splitID then None
        else Some (with_locked_ratio candidate ratio ''preferred'')) n)"

definition collapsed :: "Node list \<Rightarrow> Node \<times> bool" where
  "collapsed children = (case children of [] \<Rightarrow> (zero_node, True) | c # _ \<Rightarrow> (c, False))"

text \<open>The triple of \<open>removeNode\<close>: what is left, whether something was removed, whether nothing is left.\<close>

fun removeNode :: "Node \<Rightarrow> string \<Rightarrow> Node \<times> bool \<times> bool"
  and remove_children :: "Node list \<Rightarrow> string \<Rightarrow> Node list \<times> bool" where
  "removeNode n i =
     (if isLeaf n then
        (if leafIDOf n = i then (zero_node, True, True) else (n, False, False))
      else if \<not> is_split n then (zero_node, False, True)
      else (let (children, removed) = remove_children (Children n) i in
        if length children < 2 then
          (let (survivor, empty) = collapsed children in (survivor, removed, empty))
        else (with_children n (take 2 children), removed, False)))"
| "remove_children [] i = ([], False)"
| "remove_children (c # cs) i =
     (let (next, childRemoved, empty) = removeNode c i;
          (rest, removed) = remove_children cs i
      in (if empty then rest else next # rest, childRemoved \<or> removed))"

declare removeNode.simps [simp del]

definition Remove :: "Node \<Rightarrow> string \<Rightarrow> Node option" where
  "Remove n paneID =
     (let (next, removed, empty) = removeNode n paneID in
      if \<not> removed then None
      else if empty then Some zero_node
      else Some next)"

definition Remove_or_same :: "Node \<Rightarrow> string \<Rightarrow> Node" where
  "Remove_or_same n i = (case Remove n i of None \<Rightarrow> n | Some next \<Rightarrow> next)"

definition updateTile :: "Node \<Rightarrow> string \<Rightarrow> (Node \<Rightarrow> Node) \<Rightarrow> Node option" where
  "updateTile n tileID update =
     rewriteFirst (\<lambda>candidate. if \<not> isTile tileID candidate then None else Some (update candidate)) n"

definition UpdateTileSessionID :: "Node \<Rightarrow> string \<Rightarrow> string \<Rightarrow> Node option" where
  "UpdateTileSessionID n tileID sessionID =
     updateTile n tileID (\<lambda>tile. with_session tile (TrimSpace sessionID))"

definition UpdateTileParams :: "Node \<Rightarrow> string \<Rightarrow> string \<Rightarrow> Node option" where
  "UpdateTileParams n tileID tileParams =
     updateTile n tileID (\<lambda>tile. with_params tile (TrimSpace tileParams))"

subsection \<open>Columns of a row\<close>

function Columns :: "Node \<Rightarrow> Node list" where
  "Columns tree =
     (if Type tree = [] then []
      else if is_split tree \<and> Direction tree = ''vertical'' \<and> length (Children tree) = 2
      then Columns (Children tree ! 0) @ Columns (Children tree ! 1)
      else [tree])"
  by pat_completeness auto
termination
  by (relation "measure size") (auto intro!: nth_child_smaller)

declare Columns.simps [simp del]

text \<open>
  The loop of \<open>FromColumns\<close> runs from the last column but one to the first; \<open>k\<close> counts the calls
  of \<open>newSplitID\<close>, so the split made at that step covers \<open>k + 2\<close> columns.
\<close>

fun from_columns_loop :: "Node list \<Rightarrow> (nat \<Rightarrow> string) \<Rightarrow> nat \<Rightarrow> Node \<Rightarrow> Node" where
  "from_columns_loop [] newSplitID k tree = tree"
| "from_columns_loop (c # rev_cs) newSplitID k tree =
     from_columns_loop rev_cs newSplitID (k + 1)
       (split_node (newSplitID k) ''vertical'' (f64_ratio 1 (int k + 2)) False ''automatic'' [c, tree])"

definition FromColumns :: "Node list \<Rightarrow> (nat \<Rightarrow> string) \<Rightarrow> Node" where
  "FromColumns columns newSplitID =
     (case rev columns of
        [] \<Rightarrow> zero_node
      | lastColumn # rev_cs \<Rightarrow> from_columns_loop rev_cs newSplitID 0 lastColumn)"

fun column_index :: "Node list \<Rightarrow> string \<Rightarrow> nat \<Rightarrow> nat option" where
  "column_index [] leafID i = None"
| "column_index (column # columns) leafID i =
     (if findLeaf column leafID \<noteq> None then Some i else column_index columns leafID (i + 1))"

definition ColumnOf :: "Node \<Rightarrow> string \<Rightarrow> nat option" where
  "ColumnOf tree leafID = column_index (Columns tree) leafID 0"

definition SameColumn :: "Node \<Rightarrow> string \<Rightarrow> string \<Rightarrow> bool" where
  "SameColumn tree leafID otherLeafID =
     (case (ColumnOf tree leafID, ColumnOf tree otherLeafID) of
        (Some ix, Some otherIx) \<Rightarrow> ix = otherIx
      | _ \<Rightarrow> False)"

definition mostRecentlyUsedLeaf :: "Node \<Rightarrow> (string \<Rightarrow> bool) \<Rightarrow> string list \<Rightarrow> string" where
  "mostRecentlyUsedLeaf column live history =
     (let leaves = filter live (LeafIDs column) in
      case find (\<lambda>i. i \<in> set leaves) history of
        Some i \<Rightarrow> i
      | None \<Rightarrow> (case leaves of [] \<Rightarrow> [] | i # _ \<Rightarrow> i))"

fun first_used :: "Node list \<Rightarrow> (string \<Rightarrow> bool) \<Rightarrow> string list \<Rightarrow> string option" where
  "first_used [] live history = None"
| "first_used (column # columns) live history =
     (let i = mostRecentlyUsedLeaf column live history in
      if i \<noteq> [] then Some i else first_used columns live history)"

fun index_of :: "string list \<Rightarrow> string \<Rightarrow> nat" where
  "index_of [] x = 0"
| "index_of (y # ys) x = (if y = x then 0 else Suc (index_of ys x))"

definition NextInPosition :: "Node \<Rightarrow> string \<Rightarrow> (string \<Rightarrow> bool) \<Rightarrow> string list \<Rightarrow> string" where
  "NextInPosition previous leafID live history =
     (case ColumnOf previous leafID of
        None \<Rightarrow> []
      | Some ix \<Rightarrow>
          (let columns = Columns previous;
               stack = LeafIDs (columns ! ix);
               position = index_of stack leafID
           in case find live (drop (position + 1) stack) of
                Some i \<Rightarrow> i
              | None \<Rightarrow>
                  (case find live (rev (take position stack)) of
                     Some i \<Rightarrow> i
                   | None \<Rightarrow>
                       (case first_used (drop (ix + 1) columns) live history of
                          Some i \<Rightarrow> i
                        | None \<Rightarrow>
                            (case first_used (rev (take ix columns)) live history of
                               Some i \<Rightarrow> i
                             | None \<Rightarrow> [])))))"

definition set_leaf_width :: "Node \<Rightarrow> string \<Rightarrow> WantedWidth \<Rightarrow> Node" where
  "set_leaf_width tree i wanted =
     (case rewriteFirst (\<lambda>candidate.
             if \<not> isLeafWithID i candidate then None else Some (with_width candidate wanted)) tree of
        None \<Rightarrow> tree
      | Some next \<Rightarrow> next)"

definition SetWantedWidth :: "Node \<Rightarrow> string \<Rightarrow> WantedWidth \<Rightarrow> Node option" where
  "SetWantedWidth tree leafID width =
     (case ColumnOf tree leafID of
        None \<Rightarrow> None
      | Some ix \<Rightarrow>
          (let stack = LeafIDs (Columns tree ! ix) in
           Some (fold (\<lambda>i tree. set_leaf_width tree i (if i = hd stack then width else no_width)) stack tree)))"

definition columnWantedWidth :: "Node \<Rightarrow> string \<Rightarrow> WantedWidth" where
  "columnWantedWidth tree leafID =
     (case ColumnOf tree leafID of
        None \<Rightarrow> no_width
      | Some ix \<Rightarrow>
          (case findLeaf tree (hd (LeafIDs (Columns tree ! ix))) of
             None \<Rightarrow> NodeWidth zero_node
           | Some first \<Rightarrow> NodeWidth first))"

definition takeLeafFromColumn :: "Node \<Rightarrow> string \<Rightarrow> (Node \<times> Node) option" where
  "takeLeafFromColumn tree leafID =
     (case findLeaf tree leafID of
        None \<Rightarrow> None
      | Some leaf \<Rightarrow>
          (let wanted = columnWantedWidth tree leafID;
               ix = (case ColumnOf tree leafID of None \<Rightarrow> 0 | Some ix \<Rightarrow> ix);
               stayers = filter (\<lambda>i. i \<noteq> leafID) (LeafIDs (Columns tree ! ix));
               rest = Remove_or_same tree leafID
           in case stayers of
                [] \<Rightarrow> Some (rest, leaf)
              | s # _ \<Rightarrow>
                  Some (case SetWantedWidth rest s wanted of None \<Rightarrow> rest | Some r \<Rightarrow> r,
                        with_width leaf no_width)))"

definition insert_at :: "'a list \<Rightarrow> nat \<Rightarrow> 'a \<Rightarrow> 'a list" where
  "insert_at xs ix x = take ix xs @ x # drop ix xs"

definition PlaceColumn :: "Node \<Rightarrow> string \<Rightarrow> bool \<Rightarrow> Node \<Rightarrow> (nat \<Rightarrow> string) \<Rightarrow> Node option" where
  "PlaceColumn tree anchorLeafID before column newSplitID =
     (let columns = Columns tree;
          ix = (if before then 0 else length columns)
      in if anchorLeafID \<noteq> [] then
           (case ColumnOf tree anchorLeafID of
              None \<Rightarrow> None
            | Some anchor \<Rightarrow>
                (let ix = (if before then anchor else anchor + 1)
                 in Some (FromColumns (insert_at columns ix column) newSplitID)))
         else Some (FromColumns (insert_at columns ix column) newSplitID))"

end
