(* ===== verification/Layout_Moves.thy ===== *)
theory Layout_Moves
  imports Layout_Tree
begin

text \<open>
  Docking tiles, moving leaves and columns within and between layouts, finding the neighbour that
  takes over the focus, and the validator: the second half of \<open>layouttree.go\<close>, \<open>row.go\<close> and
  \<open>left_neighbour.go\<close>.
\<close>

subsection \<open>Placing beside a leaf\<close>

record placement =
  pl_direction :: string
  pl_before :: bool
  pl_splitID :: string
  pl_ratio :: f64

definition newPlacement :: "string \<Rightarrow> bool \<Rightarrow> string \<Rightarrow> f64 \<Rightarrow> placement" where
  "newPlacement direction before splitID ratio =
     \<lparr>pl_direction = directionOrDefault direction, pl_before = before,
      pl_splitID = splitIDOrDefault splitID, pl_ratio = ratioOrDefault ratio\<rparr>"

definition lockedSplit :: "Node \<Rightarrow> Node \<Rightarrow> placement \<Rightarrow> Node" where
  "lockedSplit existing incoming pl =
     (let children = (if pl_before pl then [incoming, existing] else [existing, incoming])
      in split_node (pl_splitID pl) (pl_direction pl) (pl_ratio pl) True ''automatic'' children)"

definition insertBesideLeaf :: "Node \<Rightarrow> string \<Rightarrow> placement \<Rightarrow> Node \<Rightarrow> Node option" where
  "insertBesideLeaf n anchorID pl incoming =
     (let wanted = columnWantedWidth n anchorID in
      case rewriteFirst (\<lambda>candidate.
             if \<not> isLeafWithID anchorID candidate then None
             else Some (lockedSplit candidate incoming pl)) n of
        None \<Rightarrow> None
      | Some next \<Rightarrow>
          if pl_direction pl \<noteq> ''horizontal'' then Some next
          else (case SetWantedWidth next anchorID wanted of None \<Rightarrow> None | Some r \<Rightarrow> Some r))"

definition placeLeaf :: "Node \<Rightarrow> string \<Rightarrow> placement \<Rightarrow> Node \<Rightarrow> Node option" where
  "placeLeaf layout anchorID pl incoming =
     (if anchorID = [] then Some (lockedSplit layout incoming pl)
      else insertBesideLeaf layout anchorID pl incoming)"

subsection \<open>Docking a tile\<close>

definition tileToDock ::
  "Node \<Rightarrow> string \<Rightarrow> string \<Rightarrow> string \<Rightarrow> string \<Rightarrow> string \<Rightarrow> (Node \<times> Node) option" where
  "tileToDock n anchorID tileID tileKind tileParams tileSessionID =
     (let tileID = TrimSpace tileID;
          tileKind = TrimSpace tileKind;
          anchorID = TrimSpace anchorID;
          tileSessionID = TrimSpace tileSessionID
      in if tileID = [] \<or> tileKind = [] \<or> anchorID = [] \<or> anchorID = tileID \<or> HasPane n tileID then None
         else (case takeLeafFromColumn n tileID of
             None \<Rightarrow> Some (n, tile_node tileID tileKind (TrimSpace tileParams) tileSessionID no_width)
           | Some (rest, existing) \<Rightarrow>
               Some (rest, tile_node tileID tileKind (TrimSpace tileParams)
                       (if tileSessionID = [] then TileSessionID existing else tileSessionID)
                       (NodeWidth existing))))"

definition DockTile ::
  "Node \<Rightarrow> string \<Rightarrow> string \<Rightarrow> bool \<Rightarrow> string \<Rightarrow> string \<Rightarrow> string \<Rightarrow> string \<Rightarrow> string \<Rightarrow> f64 \<Rightarrow> Node option" where
  "DockTile n anchorID direction before splitID tileID tileKind tileParams tileSessionID ratio =
     (case tileToDock n anchorID tileID tileKind tileParams tileSessionID of
        None \<Rightarrow> None
      | Some (cleaned, tile) \<Rightarrow>
          insertBesideLeaf cleaned (TrimSpace anchorID) (newPlacement direction before splitID ratio) tile)"

definition DockTileBesideColumn ::
  "Node \<Rightarrow> string \<Rightarrow> bool \<Rightarrow> (nat \<Rightarrow> string) \<Rightarrow> string \<Rightarrow> string \<Rightarrow> string \<Rightarrow> string \<Rightarrow> Node option" where
  "DockTileBesideColumn n anchorID before newSplitID tileID tileKind tileParams tileSessionID =
     (case tileToDock n anchorID tileID tileKind tileParams tileSessionID of
        None \<Rightarrow> None
      | Some (cleaned, tile) \<Rightarrow> PlaceColumn cleaned (TrimSpace anchorID) before tile newSplitID)"

subsection \<open>Moving a leaf\<close>

definition MoveLeaf :: "Node \<Rightarrow> string \<Rightarrow> string \<Rightarrow> string \<Rightarrow> string \<Rightarrow> bool \<Rightarrow> f64 \<Rightarrow> Node option" where
  "MoveLeaf n leafID anchorID splitID direction before ratio =
     (let leafID = TrimSpace leafID; anchorID = TrimSpace anchorID in
      if leafID = [] \<or> leafID = anchorID then None
      else (case findLeaf n leafID of
          None \<Rightarrow> None
        | Some moved \<Rightarrow>
            (let cleaned = Remove_or_same n leafID in
             if Type cleaned = [] then None
             else placeLeaf cleaned anchorID (newPlacement direction before splitID ratio) moved)))"

definition renamedToAvoid :: "Node \<Rightarrow> Node \<Rightarrow> string \<Rightarrow> Node" where
  "renamedToAvoid target leaf conflictSuffix =
     (if \<not> HasLeaf target (leafIDOf leaf) then leaf
      else (let suffix = TrimSpace conflictSuffix;
                suffix = (if suffix = [] then ''moved'' else suffix);
                renamed = leafIDOf leaf @ ''-'' @ suffix
            in if Type leaf = ''pane'' then with_pane_id leaf renamed else with_tile_id leaf renamed))"

record MoveBetweenLayoutsResult =
  SourceLayout :: Node
  TargetLayout :: Node
  MovedNode :: Node
  FinalLeafID :: string

definition MoveLeafBetweenLayouts ::
  "Node \<Rightarrow> Node \<Rightarrow> string \<Rightarrow> string \<Rightarrow> string \<Rightarrow> string \<Rightarrow> bool \<Rightarrow> f64 \<Rightarrow> string \<Rightarrow>
     MoveBetweenLayoutsResult option" where
  "MoveLeafBetweenLayouts source target leafID anchorID splitID direction before ratio conflictSuffix =
     (let leafID = TrimSpace leafID in
      case findLeaf source leafID of
        None \<Rightarrow> None
      | Some moved \<Rightarrow>
          if leafID = [] then None
          else
           (let cleanedSource = Remove_or_same source leafID;
                moved = renamedToAvoid target moved conflictSuffix;
                result = (\<lambda>nextTarget. \<lparr>SourceLayout = cleanedSource, TargetLayout = nextTarget,
                            MovedNode = moved, FinalLeafID = leafIDOf moved\<rparr>)
            in if HasLeaf target (leafIDOf moved) then None
               else if LayoutEmpty target then Some (result moved)
               else map_option result
                      (placeLeaf target (TrimSpace anchorID) (newPlacement direction before splitID ratio) moved)))"

subsection \<open>Moving within and between rows\<close>

record RowMove =
  rm_LeafID :: string
  rm_AnchorID :: string
  rm_WholeColumn :: bool
  rm_Direction :: string
  rm_Before :: bool
  rm_Ratio :: f64
  rm_NewSplitID :: "nat \<Rightarrow> string"

definition row_take :: "RowMove \<Rightarrow> Node \<Rightarrow> (Node \<times> Node) option" where
  "row_take m tree =
     (if \<not> rm_WholeColumn m then takeLeafFromColumn tree (rm_LeafID m)
      else (case ColumnOf tree (rm_LeafID m) of
          None \<Rightarrow> None
        | Some ix \<Rightarrow>
            (let moved = Columns tree ! ix in
             Some (fold (\<lambda>i rest. Remove_or_same rest i) (LeafIDs moved) tree, moved))))"

definition row_place :: "RowMove \<Rightarrow> Node \<Rightarrow> Node \<Rightarrow> Node option" where
  "row_place m tree moved =
     (if rm_Direction m = ''horizontal'' \<and> rm_AnchorID m \<noteq> [] then
        insertBesideLeaf tree (rm_AnchorID m)
          (newPlacement (rm_Direction m) (rm_Before m) (rm_NewSplitID m 0) (rm_Ratio m)) moved
      else PlaceColumn tree (rm_AnchorID m) (rm_Before m) moved (rm_NewSplitID m))"

definition MoveWithinRow :: "Node \<Rightarrow> RowMove \<Rightarrow> Node option" where
  "MoveWithinRow tree m =
     (if \<not> rm_WholeColumn m \<and> rm_LeafID m = rm_AnchorID m then None
      else (case row_take m tree of
          None \<Rightarrow> None
        | Some (rest, moved) \<Rightarrow> row_place m rest moved))"

record MovedLeaf =
  ml_From :: string
  ml_To :: string

fun renamedSubtreeToAvoid :: "Node \<Rightarrow> Node \<Rightarrow> string \<Rightarrow> Node \<times> MovedLeaf list"
  and renamed_children :: "Node \<Rightarrow> Node list \<Rightarrow> string \<Rightarrow> Node list \<times> MovedLeaf list" where
  "renamedSubtreeToAvoid target n conflictSuffix =
     (if isLeaf n then
        (let renamed = renamedToAvoid target n conflictSuffix
         in (renamed, [\<lparr>ml_From = leafIDOf n, ml_To = leafIDOf renamed\<rparr>]))
      else (let (children, leaves) = renamed_children target (Children n) conflictSuffix
            in (with_children n children, leaves)))"
| "renamed_children target [] conflictSuffix = ([], [])"
| "renamed_children target (c # cs) conflictSuffix =
     (let (c', leaves) = renamedSubtreeToAvoid target c conflictSuffix;
          (cs', more) = renamed_children target cs conflictSuffix
      in (c' # cs', leaves @ more))"

declare renamedSubtreeToAvoid.simps [simp del]

record RowMoveBetweenLayouts =
  RowSourceLayout :: Node
  RowTargetLayout :: Node
  RowMoved :: "MovedLeaf list"

definition MoveBetweenRows :: "Node \<Rightarrow> Node \<Rightarrow> RowMove \<Rightarrow> string \<Rightarrow> RowMoveBetweenLayouts option" where
  "MoveBetweenRows source target m conflictSuffix =
     (case row_take m source of
        None \<Rightarrow> None
      | Some (rest, moved) \<Rightarrow>
          (let (moved, leaves) = renamedSubtreeToAvoid target moved conflictSuffix in
           map_option (\<lambda>next. \<lparr>RowSourceLayout = rest, RowTargetLayout = next, RowMoved = leaves\<rparr>)
             (row_place m target moved)))"

subsection \<open>The left neighbour\<close>

record leafBounds =
  lb_id :: string
  lb_left :: f64
  lb_top :: f64
  lb_right :: f64
  lb_bottom :: f64

text \<open>\<open>None\<close> is the index panic on a split with fewer than two children.\<close>

function collectLeafBounds :: "Node \<Rightarrow> leafBounds \<Rightarrow> leafBounds list option" where
  "collectLeafBounds tree bounds =
     (if isLeaf tree then Some [bounds\<lparr>lb_id := leafIDOf tree\<rparr>]
      else if \<not> is_split tree then Some []
      else (let (first, second) =
             (if Direction tree = ''vertical'' then
                (let mid = lb_left bounds + (lb_right bounds - lb_left bounds) * Ratio tree
                 in (bounds\<lparr>lb_right := mid\<rparr>, bounds\<lparr>lb_left := mid\<rparr>))
              else
                (let mid = lb_top bounds + (lb_bottom bounds - lb_top bounds) * Ratio tree
                 in (bounds\<lparr>lb_bottom := mid\<rparr>, bounds\<lparr>lb_top := mid\<rparr>)))
            in if length (Children tree) < 2 then None
               else (case collectLeafBounds (Children tree ! 0) first of
                   None \<Rightarrow> None
                 | Some xs \<Rightarrow> map_option ((@) xs) (collectLeafBounds (Children tree ! 1) second))))"
  by pat_completeness auto
termination
  by (relation "measure (\<lambda>(n, b). size n)") (auto intro!: nth_child_smaller)

declare collectLeafBounds.simps [simp del]

definition overlaps :: "leafBounds \<Rightarrow> leafBounds \<Rightarrow> bool" where
  "overlaps current candidate =
     (\<not> f64_min (lb_bottom current) (lb_bottom candidate) \<le> f64_max (lb_top current) (lb_top candidate))"

definition neighbour_step ::
  "leafBounds \<Rightarrow> string \<Rightarrow> (string \<Rightarrow> bool) \<Rightarrow> leafBounds \<Rightarrow> string \<times> f64 \<times> f64 \<Rightarrow> string \<times> f64 \<times> f64" where
  "neighbour_step current leafID surviving candidate best =
     (case best of (bestID, bestGap, bestAlignment) \<Rightarrow>
      if \<not> surviving (lb_id candidate) \<or> lb_id candidate = leafID then best
      else (let gap = lb_left current - lb_right candidate in
        if gap < 0 \<or> \<not> overlaps current candidate then best
        else (let alignment = f64_abs ((lb_top current + lb_bottom current) - (lb_top candidate + lb_bottom candidate)) in
          if gap < bestGap \<or> f64_eq gap bestGap \<and> (alignment < bestAlignment \<or>
               f64_eq alignment bestAlignment \<and> lb_id candidate < bestID)
          then (lb_id candidate, gap, alignment) else best)))"

definition LeftNeighbour :: "Node \<Rightarrow> string \<Rightarrow> (string \<Rightarrow> bool) \<Rightarrow> string option" where
  "LeftNeighbour tree leafID surviving =
     (case collectLeafBounds tree \<lparr>lb_id = [], lb_left = 0, lb_top = 0, lb_right = 1, lb_bottom = 1\<rparr> of
        None \<Rightarrow> None
      | Some leaves \<Rightarrow>
          (case find (\<lambda>leaf. lb_id leaf = leafID) leaves of
             None \<Rightarrow> Some []
           | Some current \<Rightarrow>
               Some (fst (fold (neighbour_step current leafID surviving) leaves ([], PosInf, PosInf)))))"

subsection \<open>Validation\<close>

record ValidationError =
  ve_Path :: string
  ve_Reason :: string

type_synonym seen_ids = "string \<rightharpoonup> string"

definition claimNodeID :: "seen_ids \<Rightarrow> string \<Rightarrow> string \<Rightarrow> string \<Rightarrow> ValidationError + seen_ids" where
  "claimNodeID seen path i what =
     (if TrimSpace i = [] \<or> TrimSpace i \<noteq> i
      then Inl \<lparr>ve_Path = path, ve_Reason = what @ '' id is empty or padded''\<rparr>
      else (case seen i of
          Some previous \<Rightarrow>
            Inl \<lparr>ve_Path = path, ve_Reason = what @ '' id '' @ i @ '' is already used at '' @ previous\<rparr>
        | None \<Rightarrow> Inr (seen(i \<mapsto> path))))"

fun validateNode :: "Node \<Rightarrow> string \<Rightarrow> seen_ids \<Rightarrow> ValidationError + seen_ids"
  and validate_children :: "Node list \<Rightarrow> string \<Rightarrow> nat \<Rightarrow> seen_ids \<Rightarrow> ValidationError + seen_ids" where
  "validateNode n path seen =
     (if Type n = ''pane'' then claimNodeID seen path (PaneID n) ''pane''
      else if Type n = ''tile'' then
        (if TrimSpace (TileKind n) = []
         then Inl \<lparr>ve_Path = path, ve_Reason = ''tile '' @ TileID n @ '' has no kind''\<rparr>
         else claimNodeID seen path (TileID n) ''tile'')
      else if Type n = ''split'' then
        (case claimNodeID seen path (SplitID n) ''split'' of
           Inl e \<Rightarrow> Inl e
         | Inr seen' \<Rightarrow>
             if Direction n \<noteq> ''vertical'' \<and> Direction n \<noteq> ''horizontal''
             then Inl \<lparr>ve_Path = path, ve_Reason = ''split '' @ SplitID n @ '' has direction '' @ Direction n\<rparr>
             else if \<not> (Ratio n > 0 \<and> Ratio n < 1)
             then Inl \<lparr>ve_Path = path, ve_Reason = ''split '' @ SplitID n @ '' has a ratio outside (0,1)''\<rparr>
             else if length (Children n) \<noteq> 2
             then Inl \<lparr>ve_Path = path, ve_Reason = ''split '' @ SplitID n @ '' does not have exactly two children''\<rparr>
             else validate_children (Children n) (path @ ''/'' @ SplitID n @ ''['') 0 seen')
      else Inl \<lparr>ve_Path = path, ve_Reason = ''unknown node type '' @ Type n\<rparr>)"
| "validate_children [] path i seen = Inr seen"
| "validate_children (c # cs) path i seen =
     (case validateNode c (path @ [char_of (48 + i)] @ '']'') seen of
        Inl e \<Rightarrow> Inl e
      | Inr seen' \<Rightarrow> validate_children cs path (i + 1) seen')"

declare validateNode.simps [simp del]

definition Validate :: "Node \<Rightarrow> ValidationError + unit" where
  "Validate n =
     (if LayoutEmpty n \<and> Type n = [] then Inr ()
      else (case validateNode n ''root'' Map.empty of Inl e \<Rightarrow> Inl e | Inr _ \<Rightarrow> Inr ()))"

end
