(* ===== verification/Layout_Laws.thy ===== *)
theory Layout_Laws
  imports Layout_Moves "HOL-Library.Sublist" "HOL-Library.Multiset"
begin

text \<open>
  Laws of the layout operations. A node without its subtrees is its header; the headers of a
  layout, in the order \<open>walk\<close> visits them, determine everything the validator looks at, and the
  operations act on that list in simple ways: rewriting replaces one stretch of it, removing keeps
  a subsequence.
\<close>

subsection \<open>Nodes and their fields\<close>

lemma with_fields [simp]:
  "Type (with_children n cs) = Type n" "PaneID (with_children n cs) = PaneID n"
  "TileID (with_children n cs) = TileID n" "TileKind (with_children n cs) = TileKind n"
  "SplitID (with_children n cs) = SplitID n" "Direction (with_children n cs) = Direction n"
  "Ratio (with_children n cs) = Ratio n" "RatioLocked (with_children n cs) = RatioLocked n"
  "NodeWidth (with_children n cs) = NodeWidth n" "Children (with_children n cs) = cs"
  "Type (with_ratio n r) = Type n" "Children (with_ratio n r) = Children n"
  "Ratio (with_ratio n r) = r" "Direction (with_ratio n r) = Direction n"
  "RatioLocked (with_ratio n r) = RatioLocked n" "SplitID (with_ratio n r) = SplitID n"
  "PaneID (with_ratio n r) = PaneID n" "TileID (with_ratio n r) = TileID n"
  "TileKind (with_ratio n r) = TileKind n"
  "Type (with_width n w) = Type n" "PaneID (with_width n w) = PaneID n"
  "TileID (with_width n w) = TileID n" "TileKind (with_width n w) = TileKind n"
  "SplitID (with_width n w) = SplitID n" "Direction (with_width n w) = Direction n"
  "Ratio (with_width n w) = Ratio n" "RatioLocked (with_width n w) = RatioLocked n"
  "NodeWidth (with_width n w) = w" "Children (with_width n w) = Children n"
  "Type (with_locked_ratio n r m) = Type n" "Children (with_locked_ratio n r m) = Children n"
  "Ratio (with_locked_ratio n r m) = r" "Direction (with_locked_ratio n r m) = Direction n"
  "SplitID (with_locked_ratio n r m) = SplitID n" "PaneID (with_locked_ratio n r m) = PaneID n"
  "TileID (with_locked_ratio n r m) = TileID n" "TileKind (with_locked_ratio n r m) = TileKind n"
  by (simp_all add: with_defs)

lemma with_children_same [simp]: "with_children n (Children n) = n"
  by (cases n) (simp add: with_children_def)

lemma with_children_twice [simp]: "with_children (with_children n cs) ds = with_children n ds"
  by (simp add: with_children_def)

lemma made_fields [simp]:
  "Type (pane_node i) = ''pane''" "PaneID (pane_node i) = i" "Children (pane_node i) = []"
  "Type (split_node i d r l m cs) = ''split''" "SplitID (split_node i d r l m cs) = i"
  "Direction (split_node i d r l m cs) = d" "Ratio (split_node i d r l m cs) = r"
  "RatioLocked (split_node i d r l m cs) = l" "Children (split_node i d r l m cs) = cs"
  "Type (tile_node i k p s w) = ''tile''" "TileID (tile_node i k p s w) = i"
  "TileKind (tile_node i k p s w) = k" "Children (tile_node i k p s w) = []"
  "Type zero_node = []" "Children zero_node = []"
  by (simp_all add: pane_node_def split_node_def tile_node_def zero_node_def)

lemma node_induct [case_names node]:
  assumes "\<And>n. (\<And>c. c \<in> set (Children n) \<Longrightarrow> P c) \<Longrightarrow> P n"
  shows "P n"
  by (induction n rule: measure_induct_rule [where f = size]) (simp add: assms child_smaller)

subsection \<open>Headers\<close>

definition hdr :: "Node \<Rightarrow> Node" where
  "hdr n = with_width (with_children n (replicate (length (Children n)) zero_node)) no_width"

definition headers :: "Node \<Rightarrow> Node list" where
  "headers n = map hdr (walk n)"

lemma walk_all_concat: "walk_all cs = concat (map walk cs)"
  by (induction cs) auto

lemma headers_unfold: "headers n = hdr n # (if is_split n then concat (map headers (Children n)) else [])"
  by (simp add: headers_def [abs_def] walk.simps [of n] walk_all_concat map_concat comp_def)

lemma headers_nonsplit: "\<not> is_split n \<Longrightarrow> headers n = [hdr n]"
  by (simp add: headers_unfold [of n])

lemma headers_split2: "is_split n \<Longrightarrow> Children n = [a, b] \<Longrightarrow> headers n = hdr n # headers a @ headers b"
  by (simp add: headers_unfold [of n])

lemma hdr_fields [simp]:
  "Type (hdr n) = Type n" "PaneID (hdr n) = PaneID n" "TileID (hdr n) = TileID n"
  "TileKind (hdr n) = TileKind n" "SplitID (hdr n) = SplitID n" "Direction (hdr n) = Direction n"
  "Ratio (hdr n) = Ratio n" "length (Children (hdr n)) = length (Children n)"
  "RatioLocked (hdr n) = RatioLocked n"
  by (simp_all add: hdr_def)

lemma hdr_with_children [simp]: "length cs = length (Children n) \<Longrightarrow> hdr (with_children n cs) = hdr n"
  by (simp add: hdr_def)

lemma hdr_with_width [simp]: "hdr (with_width n w) = hdr n"
  by (simp add: hdr_def with_defs)

lemma hdr_leaf_props [simp]: "isLeaf (hdr n) = isLeaf n" "leafIDOf (hdr n) = leafIDOf n"
  by (simp_all add: isLeaf_def leafIDOf_def)

lemma LeafIDs_headers: "LeafIDs n = map leafIDOf (filter isLeaf (headers n))"
  by (simp add: LeafIDs_def headers_def filter_map comp_def)

lemma isLeaf_not_split: "isLeaf n \<Longrightarrow> \<not> is_split n"
  by (auto simp: isLeaf_def)

lemma LeafIDs_leaf: "isLeaf n \<Longrightarrow> LeafIDs n = [leafIDOf n]"
  by (simp add: LeafIDs_headers headers_nonsplit isLeaf_not_split)

lemma LeafIDs_split2: "is_split n \<Longrightarrow> Children n = [a, b] \<Longrightarrow> LeafIDs n = LeafIDs a @ LeafIDs b"
  by (simp add: LeafIDs_headers headers_split2 isLeaf_def)

lemma LeafIDs_zero [simp]: "LeafIDs zero_node = []"
  by (simp add: LeafIDs_headers headers_nonsplit isLeaf_def)

subsection \<open>What the validator accepts\<close>

definition id_ok :: "string \<Rightarrow> bool" where
  "id_ok i \<longleftrightarrow> i \<noteq> [] \<and> TrimSpace i = i"

definition node_ok :: "Node \<Rightarrow> bool" where
  "node_ok v \<longleftrightarrow>
     (if Type v = ''pane'' then id_ok (PaneID v)
      else if Type v = ''tile'' then TrimSpace (TileKind v) \<noteq> [] \<and> id_ok (TileID v)
      else Type v = ''split'' \<and> id_ok (SplitID v) \<and> Direction v \<in> {''vertical'', ''horizontal''} \<and>
        unit_ratio (Ratio v) \<and> length (Children v) = 2)"

definition node_id :: "Node \<Rightarrow> string" where
  "node_id v = (if is_split v then SplitID v else leafIDOf v)"

definition node_ids :: "Node \<Rightarrow> string list" where
  "node_ids n = map node_id (walk n)"

definition tree_ok :: "Node \<Rightarrow> bool" where
  "tree_ok n \<longleftrightarrow> list_all node_ok (walk n) \<and> distinct (node_ids n)"

definition headers_ok :: "Node list \<Rightarrow> bool" where
  "headers_ok hs \<longleftrightarrow> list_all node_ok hs \<and> distinct (map node_id hs)"

lemma node_ok_hdr [simp]: "node_ok (hdr v) = node_ok v"
  by (simp add: node_ok_def)

lemma node_id_hdr [simp]: "node_id (hdr v) = node_id v"
  by (simp add: node_id_def)

lemma node_ids_headers: "node_ids n = map node_id (headers n)"
  by (simp add: node_ids_def headers_def)

lemma tree_ok_headers: "tree_ok n \<longleftrightarrow> headers_ok (headers n)"
  by (simp add: tree_ok_def headers_ok_def node_ids_headers)
    (simp add: headers_def list.pred_map comp_def)

lemma distinct_subseq: "subseq xs ys \<Longrightarrow> distinct ys \<Longrightarrow> distinct xs"
  by (auto simp: subseq_conv_nths intro: distinct_nthsI)

lemma set_subseq: "subseq xs ys \<Longrightarrow> set xs \<subseteq> set ys"
  by (auto simp: subseq_conv_nths dest: in_set_nthsD)

lemma headers_ok_subseq:
  assumes "subseq hs' hs" "headers_ok hs"
  shows "headers_ok hs'"
  using assms subseq_map [of hs' hs node_id] distinct_subseq [of "map node_id hs'" "map node_id hs"]
    set_subseq [of hs' hs]
  by (auto simp: headers_ok_def list_all_iff)

lemma tree_ok_cases:
  assumes "tree_ok n"
  obtains (leaf) "isLeaf n" "node_ok n"
  | (split) a b where "is_split n" "Children n = [a, b]" "node_ok n" "tree_ok a" "tree_ok b"
      "node_ids n = node_id n # node_ids a @ node_ids b"
proof -
  have ok: "node_ok n" using assms by (simp add: tree_ok_def walk.simps [of n])
  show thesis
  proof (cases "isLeaf n")
    case True
    then show thesis using ok by (rule leaf)
  next
    case False
    with ok have s: "is_split n" "length (Children n) = 2"
      by (auto simp: node_ok_def isLeaf_def split: if_splits)
    then obtain a b where ab: "Children n = [a, b]"
      by (auto simp: length_Suc_conv numeral_2_eq_2)
    have "headers_ok (hdr n # headers a @ headers b)"
      using assms s ab by (simp add: tree_ok_headers headers_split2)
    then have "tree_ok a" "tree_ok b"
      by (auto simp: tree_ok_headers headers_ok_def)
    then show thesis
      using s ab ok by (intro split [of a b]) (simp_all add: node_ids_headers headers_split2)
  qed
qed

lemma tree_ok_induct [consumes 1, case_names leaf split]:
  assumes "tree_ok n"
    and "\<And>n. isLeaf n \<Longrightarrow> node_ok n \<Longrightarrow> P n"
    and "\<And>n a b. is_split n \<Longrightarrow> Children n = [a, b] \<Longrightarrow> node_ok n \<Longrightarrow> tree_ok n \<Longrightarrow>
      tree_ok a \<Longrightarrow> tree_ok b \<Longrightarrow> P a \<Longrightarrow> P b \<Longrightarrow> P n"
  shows "P n"
  using assms(1)
proof (induction n rule: node_induct)
  case (node n)
  from node.prems show ?case
  proof (cases rule: tree_ok_cases)
    case leaf
    then show ?thesis by (rule assms(2))
  next
    case (split a b)
    have ab: "a \<in> set (Children n)" "b \<in> set (Children n)" using split by simp_all
    show ?thesis
      by (rule assms(3) [OF split(1-3) node.prems split(4,5)])
        (use node.IH ab split in blast)+
  qed
qed

subsection \<open>Search\<close>

lemma findNode_walk: "findNode P n = find P (walk n)"
  and find_first_walk: "find_first P cs = find P (walk_all cs)"
proof (induction P n and P cs rule: findNode_find_first.induct)
  case (3 P c cs)
  have app: "find P (xs @ ys) = (case find P xs of None \<Rightarrow> find P ys | Some x \<Rightarrow> Some x)" for xs ys
    by (induction xs) auto
  show ?case using 3 by (auto simp: app split: option.splits)
qed (auto simp: findNode.simps walk.simps)

lemma findLeaf_Some:
  assumes "findLeaf n i = Some v"
  shows "v \<in> set (walk n)" "isLeaf v" "leafIDOf v = i"
  using find_Some_iff_first [of "isLeafWithID i" "walk n" v] assms
  by (auto simp: findLeaf_def findNode_walk isLeafWithID_def)

lemma findLeaf_iff: "findLeaf n i = None \<longleftrightarrow> i \<notin> set (LeafIDs n)"
  by (auto simp: findLeaf_def findNode_walk find_None_iff_all isLeafWithID_def LeafIDs_def)

lemma HasLeaf_iff: "HasLeaf n i \<longleftrightarrow> i \<in> set (LeafIDs n)"
  by (auto simp: HasLeaf_def HasPane_def HasTile_def findNode_walk find_None_iff_all isPane_def isTile_def
      LeafIDs_def isLeaf_def leafIDOf_def)

lemma LayoutEmpty_iff: "LayoutEmpty n \<longleftrightarrow> LeafIDs n = []"
  by (auto simp: LayoutEmpty_def PaneIDs_def TileIDs_def LeafIDs_def filter_empty_conv isLeaf_def)

lemma leaf_ids_nonempty: "tree_ok n \<Longrightarrow> LeafIDs n \<noteq> []"
  by (induction rule: tree_ok_induct) (simp_all add: LeafIDs_leaf LeafIDs_split2)

lemma leaf_id_is_node_id: "isLeaf v \<Longrightarrow> node_id v = leafIDOf v"
  by (auto simp: node_id_def isLeaf_def)

lemma LeafIDs_subseq_node_ids: "subseq (LeafIDs n) (node_ids n)"
proof -
  have "LeafIDs n = map node_id (filter isLeaf (walk n))"
    by (simp add: LeafIDs_def leaf_id_is_node_id)
  then show ?thesis
    using subseq_map [OF subseq_filter_left [of isLeaf "walk n"], of node_id] by (simp add: node_ids_def)
qed

lemma distinct_LeafIDs: "tree_ok n \<Longrightarrow> distinct (LeafIDs n)"
  using LeafIDs_subseq_node_ids distinct_subseq by (auto simp: tree_ok_def)

lemma leaf_id_ok: "isLeaf v \<Longrightarrow> node_ok v \<Longrightarrow> id_ok (leafIDOf v)"
  by (auto simp: node_ok_def isLeaf_def leafIDOf_def split: if_splits)

lemma leaf_ids_ok: "tree_ok n \<Longrightarrow> i \<in> set (LeafIDs n) \<Longrightarrow> id_ok i"
  using leaf_id_ok by (fastforce simp: tree_ok_def LeafIDs_def list_all_iff)

end
