(* ===== verification/Layout_Edit.thy ===== *)
theory Layout_Edit
  imports Layout_Laws
begin

text \<open>
  The edits of a layout: the validator decides well-formedness, an edit at a leaf replaces one
  stretch of the header list, a removal keeps a subsequence of it. The locale \<open>leaf_edit\<close> is the
  contract shared by the operations that rewrite one leaf (\<open>Split\<close>, \<open>insertBesideLeaf\<close>,
  \<open>SetWantedWidth\<close>).
\<close>

subsection \<open>The validator\<close>

lemma claimNodeID_Inr:
  "claimNodeID seen path i what = Inr seen' \<longleftrightarrow> id_ok i \<and> i \<notin> dom seen \<and> seen' = seen(i \<mapsto> path)"
  by (auto simp: claimNodeID_def id_ok_def split: option.splits)

definition claims :: "seen_ids \<Rightarrow> Node list \<Rightarrow> seen_ids \<Rightarrow> bool" where
  "claims seen vs seen' \<longleftrightarrow> list_all node_ok vs \<and> distinct (map node_id vs) \<and>
     node_id ` set vs \<inter> dom seen = {} \<and> dom seen' = dom seen \<union> node_id ` set vs"

lemma claims_append:
  "claims s xs s' \<Longrightarrow> claims s' ys s'' \<Longrightarrow> claims s (xs @ ys) s''"
  by (auto simp: claims_def)

lemma claims_fails_append:
  assumes "claims s xs s'" "\<not> (\<exists>s''. claims s' ys s'')"
  shows "\<not> (\<exists>s''. claims s (xs @ ys) s'')"
proof
  assume "\<exists>s''. claims s (xs @ ys) s''"
  then obtain s'' where "claims s (xs @ ys) s''" ..
  then have "claims s' ys s''" using assms(1) by (auto simp: claims_def)
  then show False using assms(2) by blast
qed

lemma claims_prefix_fails: "\<not> (\<exists>s'. claims s xs s') \<Longrightarrow> \<not> (\<exists>s''. claims s (xs @ ys) s'')"
proof (rule notI, erule notE)
  assume "\<exists>s''. claims s (xs @ ys) s''"
  then have "claims s xs (\<lambda>i. if i \<in> node_id ` set xs then Some [] else s i)"
    by (auto simp: claims_def dom_def)
  then show "\<exists>s'. claims s xs s'" by blast
qed

text \<open>Validating a subtree claims exactly its ids, or fails because they cannot be claimed.\<close>

definition decides :: "seen_ids \<Rightarrow> Node list \<Rightarrow> ValidationError + seen_ids \<Rightarrow> bool" where
  "decides seen vs r \<longleftrightarrow>
     (case r of Inr seen' \<Rightarrow> claims seen vs seen' | Inl _ \<Rightarrow> \<not> (\<exists>seen'. claims seen vs seen'))"

lemma decides_simps [simp]:
  "decides s vs (Inr s') \<longleftrightarrow> claims s vs s'"
  "decides s vs (Inl e) \<longleftrightarrow> \<not> (\<exists>s'. claims s vs s')"
  by (simp_all add: decides_def)

lemma decides_claim:
  assumes "node_ok v \<longleftrightarrow> id_ok i" "node_id v = i"
  shows "decides s [v] (claimNodeID s path i what)"
  using assms
  by (cases "claimNodeID s path i what")
    (auto simp: claimNodeID_Inr claims_def claimNodeID_def id_ok_def split: if_splits option.splits)

lemma decides_append:
  assumes "decides s xs r" "\<And>s'. r = Inr s' \<Longrightarrow> decides s' ys (f s')"
  shows "decides s (xs @ ys) (case r of Inl e \<Rightarrow> Inl e | Inr s' \<Rightarrow> f s')"
proof (cases r)
  case (Inl e)
  then show ?thesis using assms(1) claims_prefix_fails by simp
next
  case (Inr s')
  then have "claims s xs s'" "decides s' ys (f s')" using assms by auto
  then show ?thesis using Inr claims_append [of s xs s' ys] claims_fails_append [of s xs s' ys]
    by (cases "f s'") auto
qed

lemma decides_bad: "\<not> node_ok v \<Longrightarrow> decides s (v # vs) (Inl e)"
  by (simp add: claims_def)

lemma validateNode_decides: "decides seen (walk n) (validateNode n path seen)"
  and validate_children_decides: "decides seen (walk_all cs) (validate_children cs path i seen)"
proof (induction n path seen and cs path i seen rule: validateNode_validate_children.induct)
  case (1 n path seen)
  consider "Type n = ''pane''" | "Type n = ''tile''" | "is_split n"
    | "Type n \<noteq> ''pane''" "Type n \<noteq> ''tile''" "\<not> is_split n" by blast
  then show ?case
  proof cases
    case 3
    let ?r = "claimNodeID seen path (SplitID n) ''split''"
    let ?shape = "Direction n \<in> {''vertical'', ''horizontal''} \<and> unit_ratio (Ratio n) \<and> length (Children n) = 2"
    show ?thesis
    proof (cases "?shape")
      case True
      have "decides seen [n] ?r"
        by (rule decides_claim) (use 3 True in \<open>auto simp: node_ok_def node_id_def\<close>)
      then have "decides seen ([n] @ walk_all (Children n)) (case ?r of Inl e \<Rightarrow> Inl e
          | Inr s' \<Rightarrow> validate_children (Children n) (path @ ''/'' @ SplitID n @ ''['') 0 s')"
        by (rule decides_append) (use 1 3 True in auto)
      moreover have "validateNode n path seen = (case ?r of Inl e \<Rightarrow> Inl e
          | Inr s' \<Rightarrow> validate_children (Children n) (path @ ''/'' @ SplitID n @ ''['') 0 s')"
        using 3 True by (auto simp: validateNode.simps [of n] split: sum.splits)
      ultimately show ?thesis using 3 by (simp add: walk.simps [of n])
    next
      case False
      then have "\<not> node_ok n" using 3 by (auto simp: node_ok_def)
      moreover have "\<exists>e. validateNode n path seen = Inl e"
        using 3 False by (auto simp: validateNode.simps [of n] split: sum.splits)
      ultimately show ?thesis by (auto simp: walk.simps [of n] decides_bad simp del: decides_simps)
    qed
  qed (auto simp: walk.simps [of n] validateNode.simps [of n] node_ok_def node_id_def leafIDOf_def
      simp del: decides_simps intro: decides_claim decides_bad)
next
  case (2 path i seen)
  then show ?case by (simp add: claims_def)
next
  case (3 c cs path i seen)
  show ?case using decides_append [OF 3(1)] 3(2)
    by (simp del: decides_simps)
qed

lemma Validate_decides: "Validate n = Inr () \<longleftrightarrow> Type n = [] \<or> tree_ok n"
proof (cases "Type n = []")
  case True
  then show ?thesis
    by (simp add: Validate_def LayoutEmpty_iff LeafIDs_headers headers_nonsplit isLeaf_def)
next
  case False
  have "(\<exists>s. claims Map.empty (walk n) s) \<longleftrightarrow> tree_ok n"
  proof
    assume "tree_ok n"
    then have "claims Map.empty (walk n) (\<lambda>i. if i \<in> node_id ` set (walk n) then Some [] else None)"
      by (auto simp: claims_def tree_ok_def node_ids_def dom_def)
    then show "\<exists>s. claims Map.empty (walk n) s" by blast
  qed (auto simp: claims_def tree_ok_def node_ids_def)
  then show ?thesis using False validateNode_decides [of Map.empty n "''root''"]
    by (auto simp: Validate_def split: sum.splits)
qed

subsection \<open>Rewriting the first matching node\<close>

lemma rewriteFirst_None: "rewriteFirst f n = None \<longleftrightarrow> (\<forall>v \<in> set (walk n). f v = None)"
  and rewrite_children_None: "rewrite_children f cs = None \<longleftrightarrow> (\<forall>v \<in> set (walk_all cs). f v = None)"
proof (induction f n and f cs rule: rewriteFirst_rewrite_children.induct)
  case (1 f n)
  then show ?case by (auto simp: rewriteFirst.simps [of f n] walk.simps [of n] split: option.splits)
next
  case (3 f c cs)
  then show ?case by (auto split: option.splits)
qed simp

definition spliced :: "(Node \<Rightarrow> Node option) \<Rightarrow> Node list \<Rightarrow> Node list \<Rightarrow> bool" where
  "spliced f hs hs' \<longleftrightarrow> (\<exists>pre v w post. f v = Some w \<and> hs = pre @ headers v @ post \<and> hs' = pre @ headers w @ post)"

lemma spliced_frame: "spliced f hs hs' \<Longrightarrow> spliced f (xs @ hs @ ys) (xs @ hs' @ ys)"
proof -
  assume "spliced f hs hs'"
  then obtain pre v w post where "f v = Some w" "hs = pre @ headers v @ post" "hs' = pre @ headers w @ post"
    by (auto simp: spliced_def)
  then show ?thesis
    unfolding spliced_def by (intro exI [of _ "xs @ pre"] exI [of _ v] exI [of _ w] exI [of _ "post @ ys"]) simp
qed

lemma rewriteFirst_spliced: "rewriteFirst f n = Some n' \<Longrightarrow> spliced f (headers n) (headers n')"
  and rewrite_children_spliced: "rewrite_children f cs = Some cs' \<Longrightarrow>
    length cs' = length cs \<and> spliced f (concat (map headers cs)) (concat (map headers cs'))"
proof (induction f n and f cs arbitrary: n' and cs' rule: rewriteFirst_rewrite_children.induct)
  case (1 f n)
  show ?case
  proof (cases "f n")
    case None
    then obtain cs' where s: "is_split n" "rewrite_children f (Children n) = Some cs'" "n' = with_children n cs'"
      using 1(2) by (auto simp: rewriteFirst.simps [of f n] split: if_splits)
    then have "length cs' = length (Children n)"
        "spliced f (concat (map headers (Children n))) (concat (map headers cs'))"
      using 1(1) None by auto
    then show ?thesis
      using s spliced_frame [of f _ _ "[hdr n]" "[]"]
      by (simp add: headers_unfold [of n] headers_unfold [of "with_children n cs'"])
  next
    case (Some w)
    then have "n' = w" using 1(2) by (simp add: rewriteFirst.simps [of f n])
    then show ?thesis unfolding spliced_def
      by (intro exI [of _ "[]"] exI [of _ n] exI [of _ w]) (simp add: Some)
  qed
next
  case (3 f c cs)
  show ?case
  proof (cases "rewriteFirst f c")
    case None
    then obtain ds where "rewrite_children f cs = Some ds" "cs' = c # ds" using 3(3) by auto
    then show ?thesis using 3(2) None spliced_frame [of f _ _ "headers c" "[]"] by auto
  next
    case (Some c')
    then have "cs' = c' # cs" using 3(3) by simp
    then show ?thesis using 3(1) Some spliced_frame [of f _ _ "[]" "concat (map headers cs)"] by auto
  qed
qed simp

subsection \<open>Edits at one leaf\<close>

definition at_leaf :: "string \<Rightarrow> (Node \<Rightarrow> Node) \<Rightarrow> Node \<Rightarrow> Node option" where
  "at_leaf i g v = (if isLeafWithID i v then Some (g v) else None)"

lemma at_leaf_code: "(\<lambda>c. if \<not> isLeafWithID i c then None else Some (g c)) = at_leaf i g"
  by (auto simp: at_leaf_def)

lemma at_leaf_spliced:
  assumes "rewriteFirst (at_leaf i g) n = Some n'"
  obtains pre v post where "isLeaf v" "leafIDOf v = i"
    "headers n = pre @ hdr v # post" "headers n' = pre @ headers (g v) @ post"
  using rewriteFirst_spliced [OF assms]
  by (fastforce simp: spliced_def at_leaf_def isLeafWithID_def headers_nonsplit isLeaf_not_split split: if_splits)

locale leaf_edit =
  fixes edit :: "Node \<Rightarrow> Node option" and i :: string and g :: "Node \<Rightarrow> Node"
  assumes edit_at_leaf: "edit n = rewriteFirst (at_leaf i g) n"
begin

lemma edit_succeeds: "edit n \<noteq> None \<longleftrightarrow> i \<in> set (LeafIDs n)"
  by (auto simp: edit_at_leaf rewriteFirst_None at_leaf_def isLeafWithID_def LeafIDs_def image_iff
      split: if_splits)

lemma edit_leaves:
  assumes "edit n = Some n'" "\<And>v. isLeaf v \<Longrightarrow> leafIDOf v = i \<Longrightarrow> LeafIDs (g v) = new"
  shows "\<exists>pre post. LeafIDs n = pre @ i # post \<and> LeafIDs n' = pre @ new @ post"
proof -
  obtain pre v post where v: "isLeaf v" "leafIDOf v = i"
      "headers n = pre @ hdr v # post" "headers n' = pre @ headers (g v) @ post"
    using assms(1) edit_at_leaf at_leaf_spliced by metis
  let ?l = "\<lambda>hs. map leafIDOf (filter isLeaf hs)"
  have "LeafIDs n = ?l pre @ i # ?l post" "LeafIDs n' = ?l pre @ LeafIDs (g v) @ ?l post"
    using v by (simp_all add: LeafIDs_headers)
  then show ?thesis using assms(2) v by blast
qed

text \<open>An edit that wraps the leaf in new nodes keeps the layout well formed.\<close>

lemma edit_ok:
  assumes "edit n = Some n'" "tree_ok n"
    and g: "\<And>v. isLeaf v \<Longrightarrow> leafIDOf v = i \<Longrightarrow>
      \<exists>new. mset (headers (g v)) = mset (hdr v # new) \<and> list_all node_ok new \<and> map node_id new = ids"
    and fresh: "distinct ids" "set ids \<inter> set (node_ids n) = {}"
  shows "tree_ok n'" "mset (node_ids n') = mset (node_ids n) + mset ids"
proof -
  obtain pre v post where v: "isLeaf v" "leafIDOf v = i"
      "headers n = pre @ hdr v # post" "headers n' = pre @ headers (g v) @ post"
    using assms(1) edit_at_leaf at_leaf_spliced by metis
  obtain new where new: "mset (headers (g v)) = mset (hdr v # new)" "list_all node_ok new" "map node_id new = ids"
    using g [OF v(1,2)] by blast
  have m: "mset (headers n') = mset (headers n @ new)" using v new by simp
  then have ids': "mset (node_ids n') = mset (node_ids n @ ids)"
    using new(3) by (simp add: node_ids_headers flip: mset_map mset_append)
      (metis map_append mset_map)
  then show "mset (node_ids n') = mset (node_ids n) + mset ids" by simp
  have "distinct (node_ids n @ ids)"
    using assms(2) fresh by (auto simp: tree_ok_def)
  then have "distinct (node_ids n')" using ids' by (metis mset_eq_imp_distinct_iff)
  moreover have "set (headers n') = set (headers n @ new)" using m by (rule mset_eq_setD)
  then have "list_all node_ok (headers n')"
    using assms(2) new by (auto simp: list_all_iff tree_ok_headers headers_ok_def)
  ultimately show "tree_ok n'" by (simp add: tree_ok_headers headers_ok_def node_ids_headers)
qed

end

subsection \<open>Removing a leaf\<close>

definition without :: "string \<Rightarrow> string list \<Rightarrow> string list" where
  "without i xs = filter (\<lambda>j. j \<noteq> i) xs"

lemma without_simps [simp]:
  "without i [] = []" "without i (x # xs) = (if x = i then without i xs else x # without i xs)"
  "without i (xs @ ys) = without i xs @ without i ys" "set (without i xs) = set xs - {i}"
  by (auto simp: without_def)

lemma without_notin [simp]: "i \<notin> set xs \<Longrightarrow> without i xs = xs"
  by (auto simp: without_def filter_id_conv)

lemma mset_without: "distinct xs \<Longrightarrow> i \<in> set xs \<Longrightarrow> mset xs = add_mset i (mset (without i xs))"
  by (induction xs) (auto simp: without_notin)

lemma without_Nil: "distinct xs \<Longrightarrow> i \<in> set xs \<Longrightarrow> without i xs = [] \<longleftrightarrow> xs = [i]"
  using set_empty2 [of "without i xs"] by (cases xs) (auto simp: without_notin split: if_splits)

definition removal :: "Node \<Rightarrow> string \<Rightarrow> Node \<times> bool \<times> bool \<Rightarrow> bool" where
  "removal n i r \<longleftrightarrow> (case r of (n', removed, gone) \<Rightarrow>
     (removed \<longleftrightarrow> i \<in> set (LeafIDs n)) \<and> (gone \<longleftrightarrow> without i (LeafIDs n) = []) \<and>
     (\<not> gone \<longrightarrow> subseq (headers n') (headers n) \<and> LeafIDs n' = without i (LeafIDs n)))"

lemma removeNode_removal: "tree_ok n \<Longrightarrow> removal n i (removeNode n i)"
proof (induction rule: tree_ok_induct)
  case (leaf n)
  then show ?case by (auto simp: removal_def removeNode.simps [of n] LeafIDs_leaf)
next
  case (split n a b)
  obtain a' ra ea b' rb eb where r: "removeNode a i = (a', ra, ea)" "removeNode b i = (b', rb, eb)"
    by (metis prod_cases3)
  have nl: "\<not> isLeaf n" using split(1) by (auto simp: isLeaf_def)
  have a: "ra \<longleftrightarrow> i \<in> set (LeafIDs a)" "ea \<longleftrightarrow> without i (LeafIDs a) = []"
      "\<not> ea \<Longrightarrow> subseq (headers a') (headers a)" "\<not> ea \<Longrightarrow> LeafIDs a' = without i (LeafIDs a)"
    and b: "rb \<longleftrightarrow> i \<in> set (LeafIDs b)" "eb \<longleftrightarrow> without i (LeafIDs b) = []"
      "\<not> eb \<Longrightarrow> subseq (headers b') (headers b)" "\<not> eb \<Longrightarrow> LeafIDs b' = without i (LeafIDs b)"
    using split(7,8) r by (auto simp: removal_def)
  have hn: "headers n = hdr n # headers a @ headers b" "LeafIDs n = LeafIDs a @ LeafIDs b"
    using split(1,2) by (simp_all add: headers_split2 LeafIDs_split2)
  have rem: "removeNode n i =
      (if ea then (if eb then (zero_node, ra \<or> rb, True) else (b', ra \<or> rb, False))
       else if eb then (a', ra \<or> rb, False) else (with_children n [a', b'], ra \<or> rb, False))"
    using r nl split(1,2) by (simp add: removeNode.simps [of n] collapsed_def)
  consider "ea" "eb" | "ea" "\<not> eb" | "\<not> ea" "eb" | "\<not> ea" "\<not> eb" by blast
  then show ?case
  proof cases
    case 2
    then have "subseq (headers b') (headers n)" using b(3)
      by (auto simp: hn intro: list_emb_Cons list_emb_append2)
    then show ?thesis using 2 a b by (simp add: rem removal_def hn)
  next
    case 3
    have "subseq (headers a' @ []) (headers a @ headers b)" using 3 a(3) by (intro list_emb_append_mono) simp_all
    then have "subseq (headers a') (headers n)" by (auto simp: hn intro: list_emb_Cons)
    then show ?thesis using 3 a b by (simp add: rem removal_def hn)
  next
    case 4
    have "headers (with_children n [a', b']) = hdr n # headers a' @ headers b'"
        "LeafIDs (with_children n [a', b']) = LeafIDs a' @ LeafIDs b'"
      using split(1,2) by (simp_all add: headers_split2 LeafIDs_split2)
    moreover have "subseq (headers a' @ headers b') (headers a @ headers b)"
      using 4 a(3) b(3) by (intro list_emb_append_mono)
    ultimately show ?thesis using 4 a b by (simp add: rem removal_def hn)
  qed (use a b in \<open>simp add: rem removal_def hn\<close>)
qed

lemma Remove_laws:
  assumes "tree_ok n"
  shows "Remove n i = None \<longleftrightarrow> i \<notin> set (LeafIDs n)"
    and "Remove n i = Some n' \<Longrightarrow> LeafIDs n' = without i (LeafIDs n)"
    and "Remove n i = Some n' \<Longrightarrow> without i (LeafIDs n) \<noteq> [] \<Longrightarrow> subseq (headers n') (headers n) \<and> tree_ok n'"
    and "Remove n i = Some n' \<Longrightarrow> without i (LeafIDs n) = [] \<Longrightarrow> n' = zero_node"
proof -
  obtain m removed gone where r: "removeNode n i = (m, removed, gone)" by (metis prod_cases3)
  have m: "removed \<longleftrightarrow> i \<in> set (LeafIDs n)" "gone \<longleftrightarrow> without i (LeafIDs n) = []"
      "\<not> gone \<Longrightarrow> subseq (headers m) (headers n)" "\<not> gone \<Longrightarrow> LeafIDs m = without i (LeafIDs n)"
    using removeNode_removal [OF assms, of i] r by (simp_all add: removal_def)
  have ok: "tree_ok m" if "\<not> gone"
    using headers_ok_subseq [OF m(3)] that assms by (simp add: tree_ok_headers)
  show "Remove n i = None \<longleftrightarrow> i \<notin> set (LeafIDs n)"
    and "Remove n i = Some n' \<Longrightarrow> LeafIDs n' = without i (LeafIDs n)"
    and "Remove n i = Some n' \<Longrightarrow> without i (LeafIDs n) \<noteq> [] \<Longrightarrow> subseq (headers n') (headers n) \<and> tree_ok n'"
    and "Remove n i = Some n' \<Longrightarrow> without i (LeafIDs n) = [] \<Longrightarrow> n' = zero_node"
    using r m ok by (auto simp: Remove_def split: if_splits)
qed

lemma Remove_or_same_leaves: "tree_ok n \<Longrightarrow> LeafIDs (Remove_or_same n i) = without i (LeafIDs n)"
  using Remove_laws(1,2) [of n i] by (cases "Remove n i") (auto simp: Remove_or_same_def)

lemma Remove_or_same_ok:
  assumes "tree_ok n" "without i (LeafIDs n) \<noteq> []"
  shows "tree_ok (Remove_or_same n i)" "subseq (headers (Remove_or_same n i)) (headers n)"
  using Remove_laws [OF assms(1), of i] assms by (auto simp: Remove_or_same_def split: option.splits)

lemma Remove_or_same_empty:
  assumes "tree_ok n" "without i (LeafIDs n) = []"
  shows "Remove_or_same n i = zero_node"
proof -
  have "set (LeafIDs n) \<subseteq> {i}" using assms(2) without_simps(4) [of i "LeafIDs n"] by auto
  then have "i \<in> set (LeafIDs n)" using leaf_ids_nonempty [OF assms(1)] by (cases "LeafIDs n") auto
  then show ?thesis using Remove_laws [OF assms(1)] assms(2) by (auto simp: Remove_or_same_def split: option.splits)
qed

lemma subseq_node_ids: "subseq (headers m) (headers n) \<Longrightarrow> subseq (node_ids m) (node_ids n)"
  using subseq_map [of "headers m" "headers n" node_id] by (simp add: node_ids_headers)

subsection \<open>Setting widths\<close>

lemma rewrite_width_headers:
  assumes "rewriteFirst (at_leaf i (\<lambda>v. with_width v w)) n = Some n'"
  shows "headers n' = headers n"
  using assms by (rule at_leaf_spliced) (auto simp: headers_nonsplit isLeaf_not_split)

lemma set_leaf_width_headers [simp]: "headers (set_leaf_width n i w) = headers n"
  using rewrite_width_headers [of i w n]
  by (auto simp: set_leaf_width_def at_leaf_code split: option.splits)

lemma same_headers:
  assumes "headers m = headers n"
  shows "LeafIDs m = LeafIDs n" "node_ids m = node_ids n" "tree_ok m = tree_ok n"
  using assms by (simp_all add: LeafIDs_headers node_ids_headers tree_ok_headers)

lemma SetWantedWidth_headers: "SetWantedWidth n i w = Some n' \<Longrightarrow> headers n' = headers n"
proof -
  have "headers (fold (\<lambda>j t. set_leaf_width t j (h j)) js t) = headers t" for h js t
    by (induction js arbitrary: t) auto
  then show "SetWantedWidth n i w = Some n' \<Longrightarrow> headers n' = headers n"
    by (auto simp: SetWantedWidth_def Let_def split: option.splits)
qed

end
