(* ===== verification/Layout_Columns.thy ===== *)
theory Layout_Columns
  imports Layout_Edit
begin

text \<open>
  Columns of a row and the shares of a split chain: \<open>Columns\<close> and \<open>FromColumns\<close> are inverse,
  \<open>FromColumns\<close> and \<open>Rebalance\<close> give every member of a chain the same share.
\<close>

subsection \<open>Flattening a row\<close>

definition is_column :: "Node \<Rightarrow> bool" where
  "is_column c \<longleftrightarrow> Type c \<noteq> [] \<and> \<not> (is_split c \<and> Direction c = ''vertical'' \<and> length (Children c) = 2)"

lemma Columns_column: "is_column c \<Longrightarrow> Columns c = [c]"
  by (auto simp: is_column_def Columns.simps [of c])

lemma Columns_empty [simp]: "Columns zero_node = []"
  by (simp add: Columns.simps)

lemma Columns_vertical:
  "is_split n \<Longrightarrow> Direction n = ''vertical'' \<Longrightarrow> Children n = [a, b] \<Longrightarrow> Columns n = Columns a @ Columns b"
  by (simp add: Columns.simps [of n])

lemma Columns_are_columns: "list_all is_column (Columns n)"
proof (induction n rule: Columns.induct)
  case (1 n)
  then show ?case by (auto simp: Columns.simps [of n] is_column_def)
qed

lemma tree_ok_Type: "tree_ok n \<Longrightarrow> Type n \<noteq> []"
  by (erule tree_ok_cases) (auto simp: isLeaf_def)

lemma Columns_ok:
  "tree_ok n \<Longrightarrow> list_all tree_ok (Columns n) \<and> concat (map LeafIDs (Columns n)) = LeafIDs n \<and>
     subseq (concat (map headers (Columns n))) (headers n) \<and> Columns n \<noteq> []"
proof (induction rule: tree_ok_induct)
  case (leaf n)
  then have "is_column n" "tree_ok n"
    by (auto simp: is_column_def isLeaf_def tree_ok_def walk.simps [of n] node_ids_def)
  then show ?case by (simp add: Columns_column)
next
  case (split n a b)
  show ?case
  proof (cases "Direction n = ''vertical''")
    case True
    have "subseq (concat (map headers (Columns a)) @ concat (map headers (Columns b))) (headers a @ headers b)"
      using split by (intro list_emb_append_mono) auto
    then show ?thesis
      using split True by (auto simp: Columns_vertical LeafIDs_split2 headers_split2)
  next
    case False
    then have "is_column n" using split by (simp add: is_column_def)
    then show ?thesis using split by (simp add: Columns_column)
  qed
qed

lemma Columns_bound: "tree_ok n \<Longrightarrow> length (Columns n) \<le> length (LeafIDs n)"
proof -
  have "length cs \<le> length (concat (map LeafIDs cs))" if "list_all tree_ok cs" for cs
    using that
  proof (induction cs)
    case (Cons c cs)
    then have "LeafIDs c \<noteq> []" by (simp add: leaf_ids_nonempty)
    then show ?case using Cons by (cases "LeafIDs c") auto
  qed simp
  then show "tree_ok n \<Longrightarrow> length (Columns n) \<le> length (LeafIDs n)"
    using Columns_ok by metis
qed

subsection \<open>Building a row\<close>

abbreviation row_split :: "(nat \<Rightarrow> string) \<Rightarrow> nat \<Rightarrow> Node \<Rightarrow> Node \<Rightarrow> Node" where
  "row_split newSplitID k c tree \<equiv>
     split_node (newSplitID k) ''vertical'' (f64_ratio 1 (int k + 2)) False ''automatic'' [c, tree]"

lemma from_columns_loop_snoc:
  "from_columns_loop (xs @ [c]) f k t = row_split f (k + length xs) c (from_columns_loop xs f k t)"
  by (induction xs arbitrary: k t) auto

lemma FromColumns_simps [simp]:
  "FromColumns [] f = zero_node" "FromColumns [c] f = c"
  by (simp_all add: FromColumns_def)

lemma FromColumns_Cons:
  assumes "cs \<noteq> []"
  shows "FromColumns (c # cs) f = row_split f (length cs - 1) c (FromColumns cs f)"
proof -
  obtain l ds where "rev cs = l # ds" using assms by (cases "rev cs") auto
  then have "rev (c # cs) = l # (ds @ [c])" "length ds = length cs - 1"
    by (simp, metis length_rev length_Cons diff_Suc_1)
  then show ?thesis using \<open>rev cs = l # ds\<close>
    by (simp add: FromColumns_def from_columns_loop_snoc)
qed

lemma LeafIDs_FromColumns: "LeafIDs (FromColumns cs f) = concat (map LeafIDs cs)"
proof (induction cs)
  case (Cons c cs)
  then show ?case by (cases "cs = []") (simp_all add: FromColumns_Cons LeafIDs_split2)
qed simp

lemma Columns_FromColumns_inverse: "list_all is_column cs \<Longrightarrow> Columns (FromColumns cs f) = cs"
proof (induction cs)
  case (Cons c cs)
  then show ?case by (cases "cs = []") (simp_all add: FromColumns_Cons Columns_vertical Columns_column)
qed simp

definition fresh_ids :: "(nat \<Rightarrow> string) \<Rightarrow> nat \<Rightarrow> string list \<Rightarrow> bool" where
  "fresh_ids f k used \<longleftrightarrow>
     distinct (map f [0..<k]) \<and> list_all id_ok (map f [0..<k]) \<and> list_all (\<lambda>i. f i \<notin> set used) [0..<k]"

lemma fresh_ids_mono:
  "fresh_ids f k used \<Longrightarrow> j \<le> k \<Longrightarrow> set used' \<subseteq> set used \<Longrightarrow> fresh_ids f j used'"
  by (auto simp: fresh_ids_def list_all_iff distinct_map intro: inj_on_subset)

lemma fresh_ids_distinct: "fresh_ids f k used \<Longrightarrow> distinct used \<Longrightarrow> distinct (used @ map f [0..<k])"
  by (auto simp: fresh_ids_def list_all_iff)

lemma FromColumns_headers:
  assumes "list_all id_ok (map f [0..<length cs - 1])"
  shows "\<exists>new. mset (headers (FromColumns cs f)) = mset (if cs = [] then [hdr zero_node] else concat (map headers cs) @ new) \<and>
    list_all node_ok new \<and> mset (map node_id new) = mset (map f [0..<length cs - 1])"
  using assms
proof (induction cs)
  case (Cons c cs)
  show ?case
  proof (cases "cs = []")
    case False
    then have k: "length (c # cs) - 1 = Suc (length cs - 1)" by simp
    have "list_all id_ok (map f [0..<length cs - 1])"
      using Cons.prems by (auto simp: list_all_iff)
    with Cons.IH obtain new where new: "mset (headers (FromColumns cs f)) = mset (concat (map headers cs) @ new)"
      "list_all node_ok new" "mset (map node_id new) = mset (map f [0..<length cs - 1])"
      using False by auto
    let ?r = "row_split f (length cs - 1) c (FromColumns cs f)"
    have "node_ok (hdr ?r)" "node_id (hdr ?r) = f (length cs - 1)"
      using Cons.prems k False unit_ratio_f64_ratio [of 1 "int (length cs - 1) + 2"]
      by (auto simp: node_ok_def node_id_def list_all_iff)
    moreover have "mset (map f [0..<length (c # cs) - 1]) = add_mset (f (length cs - 1)) (mset (map f [0..<length cs - 1]))"
      by (subst k) simp
    ultimately show ?thesis
      using new False
      by (intro exI [of _ "hdr ?r # new"]) (simp add: FromColumns_Cons headers_split2)
  qed (auto intro: exI [of _ "[]"])
qed (auto simp: headers_nonsplit)

lemma FromColumns_ok:
  assumes "cs \<noteq> []" "headers_ok (concat (map headers cs))"
    and fresh: "fresh_ids f (length cs - 1) (map node_id (concat (map headers cs)))"
  shows "tree_ok (FromColumns cs f)"
    and "mset (node_ids (FromColumns cs f)) = mset (map node_id (concat (map headers cs)) @ map f [0..<length cs - 1])"
proof -
  let ?hs = "concat (map headers cs)"
  obtain new where new: "mset (headers (FromColumns cs f)) = mset (?hs @ new)"
      "list_all node_ok new" "mset (map node_id new) = mset (map f [0..<length cs - 1])"
    using FromColumns_headers [of f cs] fresh assms(1) by (auto simp: fresh_ids_def)
  have ids: "mset (map node_id (headers (FromColumns cs f))) = mset (map node_id (?hs @ new))"
    using new(1) by (metis mset_map)
  then show "mset (node_ids (FromColumns cs f)) = mset (map node_id ?hs @ map f [0..<length cs - 1])"
    using new(3) by (simp add: node_ids_headers)
  have "distinct (map node_id ?hs @ map f [0..<length cs - 1])"
    using assms(2) by (intro fresh_ids_distinct fresh) (simp add: headers_ok_def)
  then have "distinct (map node_id (?hs @ new))"
    using new(3) by (metis map_append mset_append mset_eq_imp_distinct_iff)
  then have "distinct (map node_id (headers (FromColumns cs f)))"
    using ids by (metis mset_eq_imp_distinct_iff)
  moreover have "set (headers (FromColumns cs f)) = set (?hs @ new)" using new(1) by (rule mset_eq_setD)
  then have "list_all node_ok (headers (FromColumns cs f))"
    using assms(2) new(2) by (auto simp: headers_ok_def list_all_iff)
  ultimately show "tree_ok (FromColumns cs f)" by (simp add: tree_ok_headers headers_ok_def)
qed

subsection \<open>Shares of a chain\<close>

text \<open>
  A chain is a maximal run of unlocked splits in one direction; its members are the subtrees where
  it ends. \<open>chain_shares\<close> is the part of the chain's extent each member is drawn with.
\<close>

definition in_chain :: "Node \<Rightarrow> string \<Rightarrow> bool" where
  "in_chain n d \<longleftrightarrow> is_split n \<and> Direction n = d \<and> length (Children n) \<ge> 2 \<and> \<not> RatioLocked n"

definition ratio_of :: "Node \<Rightarrow> rat" where
  "ratio_of n = (case Ratio n of Fin q \<Rightarrow> q | _ \<Rightarrow> 0)"

function chain_shares :: "Node \<Rightarrow> string \<Rightarrow> rat list" where
  "chain_shares n d =
     (if in_chain n d
      then map ((*) (ratio_of n)) (chain_shares (Children n ! 0) d) @
           map ((*) (1 - ratio_of n)) (chain_shares (Children n ! 1) d)
      else [1])"
  by pat_completeness auto
termination
  by (relation "measure (\<lambda>(n, d). size n)") (auto simp: in_chain_def intro!: nth_child_smaller)

declare chain_shares.simps [simp del]

definition equal_shares :: "Node \<Rightarrow> string \<Rightarrow> bool" where
  "equal_shares n d \<longleftrightarrow>
     chain_shares n d = replicate (nat (splitChainSpanCount n d)) (1 / of_int (splitChainSpanCount n d))"

lemma span_count_simp:
  "splitChainSpanCount n d =
     (if in_chain n d then splitChainSpanCount (Children n ! 0) d + splitChainSpanCount (Children n ! 1) d else 1)"
  by (auto simp: splitChainSpanCount.simps [of n] in_chain_def)

lemma span_count_pos: "0 < splitChainSpanCount n d"
proof (induction n d rule: splitChainSpanCount.induct)
  case (1 n d)
  then show ?case by (auto simp: span_count_simp [of n] in_chain_def)
qed

lemma equal_shares_join:
  assumes "in_chain n d" "equal_shares (Children n ! 0) d" "equal_shares (Children n ! 1) d"
    and "Ratio n = f64_ratio (splitChainSpanCount (Children n ! 0) d) (splitChainSpanCount n d)"
  shows "equal_shares n d"
proof -
  define p q where "p = splitChainSpanCount (Children n ! 0) d" and "q = splitChainSpanCount (Children n ! 1) d"
  have pos: "0 < p" "0 < q" and tot: "splitChainSpanCount n d = p + q"
    using assms(1) by (simp_all add: p_def q_def span_count_pos span_count_simp [of n])
  have r: "ratio_of n = of_int p / of_int (p + q)"
    using assms(4) tot by (simp add: ratio_of_def f64_ratio_def p_def)
  have "ratio_of n * (1 / of_int p) = 1 / of_int (p + q)"
      "(1 - ratio_of n) * (1 / of_int q) = 1 / of_int (p + q)"
    using pos unfolding r by (simp_all add: field_simps)
  then have "chain_shares n d = replicate (nat p) (1 / of_int (p + q)) @ replicate (nat q) (1 / of_int (p + q))"
    using assms(1-3) by (simp add: chain_shares.simps [of n] equal_shares_def p_def q_def)
  then show ?thesis
    using pos by (simp add: equal_shares_def tot nat_add_distrib flip: replicate_add)
qed

lemma equal_shares_end: "\<not> in_chain n d \<Longrightarrow> equal_shares n d"
  by (simp add: equal_shares_def chain_shares.simps [of n] span_count_simp [of n])

subsection \<open>Rebalancing\<close>

lemma Rebalance_leaf: "\<not> is_split n \<Longrightarrow> Rebalance n = n"
  by (simp add: Rebalance.simps)

lemma Rebalance_split:
  assumes "is_split n" "Children n = [a, b]"
  shows "Rebalance n = (let m = with_children n [Rebalance a, Rebalance b] in
    if RatioLocked n then m
    else with_ratio m (f64_ratio (splitChainSpanCount (Rebalance a) (Direction n))
      (splitChainSpanCount (Rebalance a) (Direction n) + splitChainSpanCount (Rebalance b) (Direction n))))"
  using assms span_count_pos [of "Rebalance a" "Direction n"] span_count_pos [of "Rebalance b" "Direction n"]
  by (auto simp: Rebalance.simps [of n] Let_def)

lemma Rebalance_fields:
  "Type (Rebalance n) = Type n" "SplitID (Rebalance n) = SplitID n" "Direction (Rebalance n) = Direction n"
  "RatioLocked (Rebalance n) = RatioLocked n" "PaneID (Rebalance n) = PaneID n" "TileID (Rebalance n) = TileID n"
  "TileKind (Rebalance n) = TileKind n"
  by (auto simp: Rebalance.simps [of n] Let_def)

lemma leafIDOf_Rebalance [simp]: "leafIDOf (Rebalance n) = leafIDOf n"
  by (simp add: leafIDOf_def Rebalance_fields)

text \<open>The ratio is the only thing rebalancing may change, and only on unlocked splits.\<close>

definition ratio_erased :: "Node \<Rightarrow> Node" where
  "ratio_erased h = (if RatioLocked h then h else with_ratio h 0)"

lemma Rebalance_children:
  assumes "is_split n" "Children n = [a, b]"
  shows "Children (Rebalance n) = [Rebalance a, Rebalance b]"
    and "ratio_erased (hdr (Rebalance n)) = ratio_erased (hdr n)"
  using assms by (auto simp: Rebalance_split Let_def ratio_erased_def hdr_def with_defs)

lemma Rebalance_headers:
  "tree_ok n \<Longrightarrow> map ratio_erased (headers (Rebalance n)) = map ratio_erased (headers n)"
proof (induction rule: tree_ok_induct)
  case (leaf n)
  then show ?case by (simp add: Rebalance_leaf isLeaf_not_split)
next
  case (split n a b)
  then show ?case
    using Rebalance_children [OF split(1,2)] by (simp add: headers_split2 Rebalance_fields)
qed

lemma Rebalance_in_chain:
  "is_split n \<Longrightarrow> Children n = [a, b] \<Longrightarrow> in_chain (Rebalance n) d \<longleftrightarrow> in_chain n d"
  by (simp add: in_chain_def Rebalance_fields Rebalance_children)

lemma Rebalance_ratio:
  assumes "is_split n" "Children n = [a, b]" "\<not> RatioLocked n"
  shows "Ratio (Rebalance n) = f64_ratio (splitChainSpanCount (Rebalance a) (Direction n))
      (splitChainSpanCount (Rebalance n) (Direction n))"
  using assms Rebalance_in_chain [OF assms(1,2)]
  by (simp add: span_count_simp [of "Rebalance n"] Rebalance_children Let_def in_chain_def)
    (simp add: Rebalance_split Let_def)

lemma Rebalance_equal: "tree_ok n \<Longrightarrow> equal_shares (Rebalance n) d"
proof (induction arbitrary: d rule: tree_ok_induct)
  case (leaf n)
  then show ?case by (intro equal_shares_end) (simp add: in_chain_def Rebalance_fields isLeaf_not_split)
next
  case (split n a b d)
  show ?case
  proof (cases "in_chain (Rebalance n) d")
    case True
    then have "\<not> RatioLocked n" "Direction n = d" 
      by (simp_all add: in_chain_def Rebalance_fields)
    then have "Ratio (Rebalance n) = f64_ratio (splitChainSpanCount (Rebalance a) d) (splitChainSpanCount (Rebalance n) d)"
      using Rebalance_ratio [OF split(1,2)] by simp
    then show ?thesis
      using True split(7,8) Rebalance_children(1) [OF split(1,2)] by - (rule equal_shares_join, simp_all)
  qed (rule equal_shares_end)
qed

lemma Rebalance_tree_ok: "tree_ok n \<Longrightarrow> tree_ok (Rebalance n) \<and> node_ids (Rebalance n) = node_ids n"
proof (induction rule: tree_ok_induct)
  case (leaf n)
  then have "Rebalance n = n" by (simp add: Rebalance_leaf isLeaf_not_split)
  then show ?case using leaf by (simp add: tree_ok_def walk.simps [of n] node_ids_def isLeaf_not_split)
next
  case (split n a b)
  let ?n = "Rebalance n"
  have ch: "is_split ?n" "Children ?n = [Rebalance a, Rebalance b]"
    using split by (simp_all add: Rebalance_fields Rebalance_children)
  have ids: "node_ids ?n = node_ids n"
    using ch split by (simp add: node_ids_headers headers_split2 node_id_def Rebalance_fields)
  have "unit_ratio (Ratio ?n)"
  proof (cases "RatioLocked n")
    case True
    then show ?thesis using split by (simp add: Rebalance_split Let_def node_ok_def)
  next
    case False
    then show ?thesis
      using split span_count_pos [of "Rebalance a" "Direction n"] span_count_pos [of "Rebalance b" "Direction n"]
      by (simp add: Rebalance_split Let_def unit_ratio_f64_ratio [unfolded f64_const])
  qed
  then have "node_ok ?n" using split ch by (simp add: node_ok_def Rebalance_fields)
  then have "headers_ok (headers ?n)"
    using split ids ch by (auto simp: headers_ok_def tree_ok_headers headers_split2 node_ids_headers)
  then show ?case using ids by (simp add: tree_ok_headers)
qed

lemma LeafIDs_ratio_erased:
  "map ratio_erased (headers m) = map ratio_erased (headers n) \<Longrightarrow> LeafIDs m = LeafIDs n"
proof -
  have l: "isLeaf (ratio_erased h) = isLeaf h" "leafIDOf (ratio_erased h) = leafIDOf h" for h
    by (simp_all add: ratio_erased_def isLeaf_def leafIDOf_def)
  have "LeafIDs n = map leafIDOf (filter isLeaf (map ratio_erased (headers n)))" for n
    by (simp add: LeafIDs_headers filter_map comp_def l)
  then show "map ratio_erased (headers m) = map ratio_erased (headers n) \<Longrightarrow> LeafIDs m = LeafIDs n"
    by simp
qed

lemma Rebalance_idem: "tree_ok n \<Longrightarrow> Rebalance (Rebalance n) = Rebalance n"
proof (induction rule: tree_ok_induct)
  case (leaf n)
  then show ?case by (simp add: Rebalance_leaf isLeaf_not_split)
next
  case (split n a b)
  have s: "is_split (Rebalance n)" "Children (Rebalance n) = [Rebalance a, Rebalance b]"
    using split by (simp_all add: Rebalance_fields Rebalance_children)
  show ?case
    using split by (subst Rebalance_split [OF s]) (simp add: Rebalance_fields Rebalance_split Let_def with_defs)
qed

lemma FromColumns_equal:
  assumes "list_all is_column cs" "list_all tree_ok cs" "cs \<noteq> []"
  shows "equal_shares (FromColumns cs f) ''vertical'' \<and>
    splitChainSpanCount (FromColumns cs f) ''vertical'' = int (length cs)"
  using assms
proof (induction cs)
  case (Cons c cs)
  have "tree_ok c" "is_column c" using Cons.prems by simp_all
  then have end_c: "\<not> in_chain c ''vertical''"
    by (cases rule: tree_ok_cases) (auto simp: is_column_def in_chain_def dest: isLeaf_not_split)
  show ?case
  proof (cases "cs = []")
    case True
    then show ?thesis using end_c by (simp add: equal_shares_end span_count_simp [of c])
  next
    case False
    let ?t = "FromColumns (c # cs) f"
    have IH: "equal_shares (FromColumns cs f) ''vertical''"
        "splitChainSpanCount (FromColumns cs f) ''vertical'' = int (length cs)"
      using Cons False by simp_all
    have len: "int (length cs - Suc 0) + 2 = int (length cs) + 1" using False by (cases cs) auto
    have t: "in_chain ?t ''vertical''" "Children ?t = [c, FromColumns cs f]"
        "Ratio ?t = f64_ratio 1 (int (length cs) + 1)"
      using False len by (simp_all add: FromColumns_Cons in_chain_def add.commute)
    then have count: "splitChainSpanCount ?t ''vertical'' = int (length (c # cs))"
      using IH end_c by (simp add: span_count_simp [of ?t] span_count_simp [of c])
    have "equal_shares ?t ''vertical''"
      using t IH end_c count
      by - (rule equal_shares_join, simp_all add: equal_shares_end span_count_simp [of c] add.commute)
    then show ?thesis using count by simp
  qed
qed simp

end
