(* ===== verification/Layout_Placing.thy ===== *)
theory Layout_Placing
  imports Layout_Columns
begin

text \<open>
  What taking a leaf or a column out of a layout and placing one into it do to the leaves and to
  well-formedness; the moves are compositions of the two.
\<close>

subsection \<open>New nodes\<close>

lemma directionOrDefault_ok [simp]: "directionOrDefault d \<in> {''vertical'', ''horizontal''}"
  by (auto simp: directionOrDefault_def)

lemma ratioOrDefault_ok: "r \<noteq> NaN \<Longrightarrow> unit_ratio (ratioOrDefault r)"
  by (cases r) (auto simp: ratioOrDefault_def)

lemma splitIDOrDefault_id: "id_ok i \<Longrightarrow> splitIDOrDefault i = i"
  by (auto simp: splitIDOrDefault_def id_ok_def)

definition placement_ok :: "placement \<Rightarrow> bool" where
  "placement_ok pl \<longleftrightarrow> pl_direction pl \<in> {''vertical'', ''horizontal''} \<and> unit_ratio (pl_ratio pl) \<and> id_ok (pl_splitID pl)"

lemma newPlacement_ok:
  "r \<noteq> NaN \<Longrightarrow> id_ok s \<Longrightarrow> placement_ok (newPlacement d b s r) \<and> pl_splitID (newPlacement d b s r) = s"
  by (simp add: placement_ok_def newPlacement_def ratioOrDefault_ok splitIDOrDefault_id del: f64_const)
    (use directionOrDefault_ok [of d] in auto)

lemma lockedSplit_leaves:
  "LeafIDs (lockedSplit v w pl) = (if pl_before pl then LeafIDs w @ LeafIDs v else LeafIDs v @ LeafIDs w)"
  by (simp add: lockedSplit_def Let_def LeafIDs_split2)

lemma lockedSplit_headers:
  assumes "placement_ok pl" "tree_ok w"
  shows "\<exists>new. mset (headers (lockedSplit v w pl)) = mset (headers v @ new) \<and> list_all node_ok new \<and>
    map node_id new = pl_splitID pl # node_ids w"
proof (intro exI conjI)
  let ?s = "hdr (lockedSplit v w pl)"
  show "mset (headers (lockedSplit v w pl)) = mset (headers v @ ?s # headers w)"
    by (simp add: lockedSplit_def Let_def headers_split2)
  show "list_all node_ok (?s # headers w)" "map node_id (?s # headers w) = pl_splitID pl # node_ids w"
    using assms
    by (auto simp: lockedSplit_def Let_def node_ok_def placement_ok_def node_id_def tree_ok_headers headers_ok_def node_ids_headers)
qed

interpretation split_edit: leaf_edit "\<lambda>n. Split n t p s d r" t
  "\<lambda>c. split_node s (directionOrDefault d) (ratioOrDefault r) False ''automatic'' [c, pane_node p]" for t p s d r
  by unfold_locales (simp add: Split_def at_leaf_code)

interpretation insert_edit: leaf_edit "rewriteFirst (at_leaf a (\<lambda>c. lockedSplit c w pl))" a
  "\<lambda>c. lockedSplit c w pl" for a w pl
  by unfold_locales simp

subsection \<open>Columns of a leaf\<close>

lemma column_index_laws:
  "column_index cs i k = None \<longleftrightarrow> i \<notin> set (concat (map LeafIDs cs))"
  "column_index cs i k = Some ix \<Longrightarrow> k \<le> ix \<and> ix < k + length cs \<and> i \<in> set (LeafIDs (cs ! (ix - k)))"
proof (induction cs arbitrary: k)
  case (Cons c cs)
  {
    case 1
    then show ?case using Cons by (auto simp: findLeaf_iff)
  next
    case 2
    then show ?case using Cons(2) [of "k + 1"]
      by (auto simp: findLeaf_iff nth_Cons' split: if_splits)
  }
qed auto

lemma ColumnOf_None: "tree_ok n \<Longrightarrow> ColumnOf n i = None \<longleftrightarrow> i \<notin> set (LeafIDs n)"
  using column_index_laws(1) [of "Columns n" i 0] Columns_ok [of n] by (simp add: ColumnOf_def)

lemma ColumnOf_Some: "ColumnOf n i = Some ix \<Longrightarrow> ix < length (Columns n) \<and> i \<in> set (LeafIDs (Columns n ! ix))"
  using column_index_laws(2) [of "Columns n" i 0 ix] by (simp add: ColumnOf_def)

lemma SetWantedWidth_defined: "tree_ok n \<Longrightarrow> SetWantedWidth n i w \<noteq> None \<longleftrightarrow> i \<in> set (LeafIDs n)"
  using ColumnOf_None [of n i] by (auto simp: SetWantedWidth_def Let_def split: option.splits)

subsection \<open>Placing beside a leaf\<close>

definition layout_ok :: "Node \<Rightarrow> bool" where
  "layout_ok n \<longleftrightarrow> n = zero_node \<or> tree_ok n"

definition ids_of :: "Node \<Rightarrow> string set" where
  "ids_of n = (if n = zero_node then {} else set (node_ids n))"

lemma tree_ok_not_zero: "tree_ok n \<Longrightarrow> n \<noteq> zero_node"
  using tree_ok_Type [of n] by auto

lemma ids_of_tree: "tree_ok n \<Longrightarrow> ids_of n = set (node_ids n)"
  by (simp add: ids_of_def tree_ok_not_zero)

lemma layout_ok_zero [simp]: "layout_ok zero_node" "ids_of zero_node = {}"
  by (simp_all add: layout_ok_def ids_of_def)

definition joined :: "Node \<Rightarrow> Node \<Rightarrow> Node \<Rightarrow> bool" where
  "joined n w n' \<longleftrightarrow> tree_ok n' \<and> mset (LeafIDs n') = mset (LeafIDs n) + mset (LeafIDs w)"

lemma joined_same: "headers m' = headers m \<Longrightarrow> joined n w m \<Longrightarrow> joined n w m'"
  using same_headers [of m' m] by (simp add: joined_def)

definition joinable :: "Node \<Rightarrow> Node \<Rightarrow> bool" where
  "joinable n w \<longleftrightarrow> layout_ok n \<and> tree_ok w \<and> ids_of n \<inter> ids_of w = {}"

lemma insert_core:
  assumes j: "joinable n w" and pl: "placement_ok pl" "pl_splitID pl \<notin> ids_of n \<union> ids_of w"
    and n: "tree_ok n" and e: "rewriteFirst (at_leaf a (\<lambda>c. lockedSplit c w pl)) n = Some n'"
  shows "joined n w n'"
proof -
  have w: "tree_ok w" using j by (simp add: joinable_def)
  have "tree_ok n'"
  proof (rule insert_edit.edit_ok(1) [OF e n])
    show "\<exists>new. mset (headers (lockedSplit v w pl)) = mset (hdr v # new) \<and> list_all node_ok new \<and>
        map node_id new = pl_splitID pl # node_ids w" if "isLeaf v" for v
      using lockedSplit_headers [OF pl(1) w, of v] that by (simp add: headers_nonsplit isLeaf_not_split)
    show "distinct (pl_splitID pl # node_ids w)" "set (pl_splitID pl # node_ids w) \<inter> set (node_ids n) = {}"
      using j pl(2) n w by (auto simp: joinable_def ids_of_tree tree_ok_def)
  qed
  moreover have "\<exists>pre post. LeafIDs n = pre @ a # post \<and>
      LeafIDs n' = pre @ (if pl_before pl then LeafIDs w @ [a] else a # LeafIDs w) @ post"
    by (rule insert_edit.edit_leaves [OF e]) (auto simp: lockedSplit_leaves LeafIDs_leaf)
  ultimately show ?thesis by (auto simp: joined_def)
qed

lemma insertBesideLeaf_laws:
  assumes j: "joinable n w" and pl: "placement_ok pl" "pl_splitID pl \<notin> ids_of n \<union> ids_of w"
  shows "insertBesideLeaf n a pl w \<noteq> None \<longleftrightarrow> a \<in> set (LeafIDs n)"
    and "insertBesideLeaf n a pl w = Some n' \<Longrightarrow> joined n w n'"
proof -
  let ?e = "rewriteFirst (at_leaf a (\<lambda>c. lockedSplit c w pl)) n"
  have code: "insertBesideLeaf n a pl w = (case ?e of None \<Rightarrow> None | Some next \<Rightarrow>
      if pl_direction pl \<noteq> ''horizontal'' then Some next else SetWantedWidth next a (columnWantedWidth n a))"
    by (simp add: insertBesideLeaf_def Let_def at_leaf_code option.case_eq_if)
  have s: "?e \<noteq> None \<longleftrightarrow> a \<in> set (LeafIDs n)" by (rule insert_edit.edit_succeeds)
  have ok: "joined n w m" if "?e = Some m" for m
  proof -
    have "n \<noteq> zero_node" using that s by auto
    then have "tree_ok n" using j by (auto simp: joinable_def layout_ok_def)
    then show ?thesis using insert_core [OF j pl _ that] by simp
  qed
  have a: "a \<in> set (LeafIDs m)" if "?e = Some m" for m
    using ok [OF that] s that mset_eq_setD [of "LeafIDs m" "LeafIDs n @ LeafIDs w"] by (auto simp: joined_def)
  show "insertBesideLeaf n a pl w \<noteq> None \<longleftrightarrow> a \<in> set (LeafIDs n)"
    using s a ok SetWantedWidth_defined by (auto simp: code joined_def split: option.splits)
  show "joined n w n'" if "insertBesideLeaf n a pl w = Some n'"
    using that joined_same [OF SetWantedWidth_headers] ok
    by (auto simp: code split: option.splits if_splits)
qed

subsection \<open>Placing a column\<close>

lemma insert_at_concat: "mset (concat (map f (insert_at cs ix c))) = mset (concat (map f cs)) + mset (f c)"
proof -
  have "mset (concat (map f cs)) = mset (concat (map f (take ix cs @ drop ix cs)))" by simp
  then show ?thesis unfolding map_append concat_append mset_append by (simp add: insert_at_def)
qed

lemma joined_columns:
  assumes "layout_ok n" "tree_ok w" "ids_of n \<inter> ids_of w = {}"
    and fresh: "fresh_ids f (Suc (length (LeafIDs n))) (node_ids n @ node_ids w)"
  shows "joined n w (FromColumns (insert_at (Columns n) ix w) f)"
proof -
  let ?cs = "insert_at (Columns n) ix w"
  let ?hs = "concat (map headers ?cs)"
  have sub: "subseq (concat (map headers (Columns n))) (if n = zero_node then [] else headers n)"
      "concat (map LeafIDs (Columns n)) = LeafIDs n" "length (Columns n) \<le> length (LeafIDs n)"
    using assms(1) Columns_ok [of n] Columns_bound [of n] tree_ok_not_zero by (auto simp: layout_ok_def)
  have ids_n: "set (map node_id (concat (map headers (Columns n)))) \<subseteq> ids_of n"
    using set_subseq [OF subseq_map [OF sub(1), of node_id]]
    by (simp add: ids_of_def node_ids_headers split: if_splits)
  have ok_n: "headers_ok (concat (map headers (Columns n)))"
    using headers_ok_subseq [OF sub(1)] assms(1) by (auto simp: layout_ok_def tree_ok_headers headers_ok_def)
  have m: "mset ?hs = mset (concat (map headers (Columns n)) @ headers w)"
    by (simp only: insert_at_concat mset_append)
  have ids: "mset (map node_id ?hs) = mset (map node_id (concat (map headers (Columns n))) @ node_ids w)"
    using m by (metis map_append mset_map node_ids_headers)
  have ids_set: "set (map node_id ?hs) \<subseteq> ids_of n \<union> set (node_ids w)"
    using mset_eq_setD [OF ids] ids_n by auto
  have "distinct (map node_id (concat (map headers (Columns n))) @ node_ids w)"
    using ok_n assms(2,3) ids_n by (auto simp: headers_ok_def tree_ok_def ids_of_tree)
  then have "distinct (map node_id ?hs)" using ids by (metis mset_eq_imp_distinct_iff)
  moreover have "list_all node_ok ?hs"
    using mset_eq_setD [OF m] ok_n assms(2) by (auto simp: headers_ok_def tree_ok_headers list_all_iff)
  ultimately have ok: "headers_ok ?hs" by (simp add: headers_ok_def)
  have len: "length ?cs - 1 \<le> Suc (length (LeafIDs n))" "?cs \<noteq> []"
    using sub(3) by (auto simp: insert_at_def)
  have "ids_of n \<subseteq> set (node_ids n)" by (auto simp: ids_of_def)
  then have "fresh_ids f (length ?cs - 1) (map node_id ?hs)"
    using ids_set by (intro fresh_ids_mono [OF fresh len(1)]) auto
  then have "tree_ok (FromColumns ?cs f)" using FromColumns_ok(1) [OF len(2) ok] by simp
  moreover have "mset (LeafIDs (FromColumns ?cs f)) = mset (LeafIDs n) + mset (LeafIDs w)"
    using sub(2) by (simp only: LeafIDs_FromColumns insert_at_concat)
  ultimately show ?thesis by (simp add: joined_def)
qed

lemma ColumnOf_zero [simp]: "ColumnOf zero_node i = None"
  by (simp add: ColumnOf_def)

lemma PlaceColumn_laws:
  assumes "joinable n w" "fresh_ids f (Suc (length (LeafIDs n))) (node_ids n @ node_ids w)"
  shows "PlaceColumn n a b w f \<noteq> None \<longleftrightarrow> a = [] \<or> a \<in> set (LeafIDs n)"
    and "PlaceColumn n a b w f = Some n' \<Longrightarrow> joined n w n'"
proof -
  show "PlaceColumn n a b w f \<noteq> None \<longleftrightarrow> a = [] \<or> a \<in> set (LeafIDs n)"
    using assms(1) ColumnOf_None [of n a]
    by (auto simp: PlaceColumn_def Let_def joinable_def layout_ok_def split: option.splits)
  have "PlaceColumn n a b w f = Some n' \<Longrightarrow> \<exists>ix. n' = FromColumns (insert_at (Columns n) ix w) f"
    by (auto simp: PlaceColumn_def Let_def split: option.splits if_splits)
  then show "PlaceColumn n a b w f = Some n' \<Longrightarrow> joined n w n'"
    using joined_columns assms by (auto simp: joinable_def)
qed

subsection \<open>Taking a leaf\<close>

lemma walk_trans: "v \<in> set (walk n) \<Longrightarrow> set (walk v) \<subseteq> set (walk n)"
proof (induction n rule: node_induct)
  case (node n)
  then show ?case by (auto simp: walk.simps [of n] walk_all_concat split: if_splits)
qed

lemma walk_tree_ok: "tree_ok n \<Longrightarrow> v \<in> set (walk n) \<Longrightarrow> tree_ok v"
proof (induction rule: tree_ok_induct)
  case (leaf n)
  then have "walk n = [n]" by (simp add: walk.simps [of n] isLeaf_not_split)
  then show ?case using leaf by (simp add: tree_ok_def node_ids_def)
next
  case (split n a b)
  then show ?case by (auto simp: walk.simps [of n])
qed

text \<open>Every node that survives the removal of \<open>i\<close> is an old one that has lost just that leaf.\<close>

definition shrunk :: "string \<Rightarrow> Node \<Rightarrow> Node \<Rightarrow> bool" where
  "shrunk i n n' \<longleftrightarrow> (\<forall>v' \<in> set (walk n'). \<exists>v \<in> set (walk n). node_id v = node_id v' \<and> LeafIDs v' = without i (LeafIDs v))"

lemma walk_leaf: "isLeaf n \<Longrightarrow> walk n = [n]"
  by (simp add: walk.simps [of n] isLeaf_not_split)

lemma walk_split2: "is_split n \<Longrightarrow> Children n = [a, b] \<Longrightarrow> walk n = n # walk a @ walk b"
  by (simp add: walk.simps [of n])

lemma removeNode_shrunk:
  "tree_ok n \<Longrightarrow> removeNode n i = (n', r, False) \<Longrightarrow> shrunk i n n'"
proof (induction arbitrary: n' r rule: tree_ok_induct)
  case (leaf n)
  then show ?case
    by (auto simp: shrunk_def removeNode.simps [of n] walk_leaf LeafIDs_leaf split: if_splits)
next
  case (split n a b)
  obtain a' ra ea b' rb eb where r: "removeNode a i = (a', ra, ea)" "removeNode b i = (b', rb, eb)"
    by (metis prod_cases3)
  have nl: "\<not> isLeaf n" using split(1) by (auto simp: isLeaf_def)
  have LeafIDs: "\<not> ea \<Longrightarrow> LeafIDs a' = without i (LeafIDs a)" "\<not> eb \<Longrightarrow> LeafIDs b' = without i (LeafIDs b)"
    using removeNode_removal [OF split(5), of i] removeNode_removal [OF split(6), of i] r by (simp_all add: removal_def)
  have sa: "\<not> ea \<Longrightarrow> shrunk i a a'" and sb: "\<not> eb \<Longrightarrow> shrunk i b b'" using split r by auto
  have rem: "removeNode n i =
      (if ea then (if eb then (zero_node, ra \<or> rb, True) else (b', ra \<or> rb, False))
       else if eb then (a', ra \<or> rb, False) else (with_children n [a', b'], ra \<or> rb, False))"
    using r nl split(1,2) by (simp add: removeNode.simps [of n] collapsed_def)
  have "shrunk i n (with_children n [a', b'])" if "\<not> ea" "\<not> eb"
  proof -
    have "walk (with_children n [a', b']) = with_children n [a', b'] # walk a' @ walk b'"
        "node_id (with_children n [a', b']) = node_id n"
        "LeafIDs (with_children n [a', b']) = without i (LeafIDs n)"
      using split(1,2) that LeafIDs by (simp_all add: walk_split2 node_id_def LeafIDs_split2)
    then show ?thesis
      using sa sb that split(1,2) by (fastforce simp: shrunk_def walk_split2)
  qed
  moreover have "shrunk i n a'" if "shrunk i a a'" using that split(1,2) by (fastforce simp: shrunk_def walk_split2)
  moreover have "shrunk i n b'" if "shrunk i b b'" using that split(1,2) by (fastforce simp: shrunk_def walk_split2)
  ultimately show ?case using split.prems sa sb unfolding rem by (auto split: if_splits)
qed

lemma walk_leaves: "v \<in> set (walk n) \<Longrightarrow> set (LeafIDs v) \<subseteq> set (LeafIDs n)"
  using walk_trans [of v n] by (auto simp: LeafIDs_def)

definition pruned :: "string list \<Rightarrow> Node \<Rightarrow> Node \<Rightarrow> bool" where
  "pruned js n n' \<longleftrightarrow> layout_ok n' \<and> LeafIDs n' = filter (\<lambda>j. j \<notin> set js) (LeafIDs n) \<and>
     (n' \<noteq> zero_node \<longrightarrow> (\<forall>v' \<in> set (walk n'). \<exists>v \<in> set (walk n).
        node_id v = node_id v' \<and> LeafIDs v' = filter (\<lambda>j. j \<notin> set js) (LeafIDs v)))"

lemma Remove_or_same_zero [simp]: "Remove_or_same zero_node i = zero_node"
  by (simp add: Remove_or_same_def Remove_def removeNode.simps [of zero_node] isLeaf_def)

lemma Remove_or_same_shrunk:
  assumes "tree_ok n" "without i (LeafIDs n) \<noteq> []"
  shows "shrunk i n (Remove_or_same n i)"
proof -
  obtain m r e where rem: "removeNode n i = (m, r, e)" by (metis prod_cases3)
  have re: "r \<longleftrightarrow> i \<in> set (LeafIDs n)" "\<not> e"
    using removeNode_removal [OF assms(1), of i] rem assms(2) by (simp_all add: removal_def)
  show ?thesis
  proof (cases r)
    case True
    then show ?thesis
      using removeNode_shrunk [OF assms(1), of i m r] rem re by (simp add: Remove_or_same_def Remove_def)
  next
    case False
    then have "i \<notin> set (LeafIDs v)" if "v \<in> set (walk n)" for v
      using that re(1) walk_leaves by blast
    then show ?thesis using False rem by (auto simp: shrunk_def Remove_or_same_def Remove_def)
  qed
qed

lemma pruned_Remove: "layout_ok n \<Longrightarrow> pruned [i] n (Remove_or_same n i)"
proof (cases "tree_ok n")
  case True
  show ?thesis
  proof (cases "without i (LeafIDs n) = []")
    case True
    then show ?thesis using \<open>tree_ok n\<close> Remove_or_same_empty by (simp add: pruned_def without_def)
  next
    case False
    then show ?thesis
      using True Remove_or_same_ok(1) Remove_or_same_leaves Remove_or_same_shrunk
      by (simp add: pruned_def layout_ok_def shrunk_def without_def)
  qed
qed (auto simp: layout_ok_def pruned_def)

lemma pruned_trans:
  assumes "pruned js n m" "pruned ks m n'"
  shows "pruned (js @ ks) n n'"
proof -
  have "\<exists>v \<in> set (walk n). node_id v = node_id v' \<and> LeafIDs v' = filter (\<lambda>j. j \<notin> set (js @ ks)) (LeafIDs v)"
    if nz: "n' \<noteq> zero_node" and v': "v' \<in> set (walk n')" for v'
  proof -
    have "m \<noteq> zero_node"
    proof
      assume "m = zero_node"
      then have "LeafIDs n' = []" using assms(2) by (simp add: pruned_def)
      then show False using nz assms(2) leaf_ids_nonempty by (auto simp: pruned_def layout_ok_def)
    qed
    then obtain u where u: "u \<in> set (walk m)" "node_id u = node_id v'" "LeafIDs v' = filter (\<lambda>j. j \<notin> set ks) (LeafIDs u)"
      using assms(2) nz v' unfolding pruned_def by blast
    then obtain v where "v \<in> set (walk n)" "node_id v = node_id u" "LeafIDs u = filter (\<lambda>j. j \<notin> set js) (LeafIDs v)"
      using assms(1) \<open>m \<noteq> zero_node\<close> unfolding pruned_def by blast
    then show ?thesis using u by (intro bexI [of _ v]) (auto simp: conj_commute intro: filter_cong)
  qed
  then show ?thesis using assms by (auto simp: pruned_def conj_commute intro: filter_cong)
qed

lemma pruned_fold: "layout_ok n \<Longrightarrow> pruned js n (fold (\<lambda>i rest. Remove_or_same rest i) js n)"
proof (induction js arbitrary: n)
  case Nil
  then show ?case by (auto simp: pruned_def)
next
  case (Cons i js)
  have p: "pruned [i] n (Remove_or_same n i)" using Cons.prems by (rule pruned_Remove)
  then have "layout_ok (Remove_or_same n i)" by (simp add: pruned_def)
  then show ?case using pruned_trans [OF p Cons.IH] by simp
qed

text \<open>Pruning the leaves of a subtree removes all its ids, so that it can be joined again.\<close>

definition taken :: "Node \<Rightarrow> Node \<Rightarrow> Node \<Rightarrow> bool" where
  "taken n rest w \<longleftrightarrow> joinable rest w \<and> LeafIDs rest = filter (\<lambda>j. j \<notin> set (LeafIDs w)) (LeafIDs n) \<and>
     mset (LeafIDs n) = mset (LeafIDs rest) + mset (LeafIDs w) \<and> ids_of rest \<union> ids_of w \<subseteq> ids_of n"

lemma pruned_taken:
  assumes n: "tree_ok n" and p: "pruned (LeafIDs w) n rest"
    and w: "tree_ok w" "set (walk w) \<subseteq> set (walk n)"
  shows "taken n rest w"
proof -
  have lw: "set (LeafIDs w) \<subseteq> set (LeafIDs n)" using w(2) by (auto simp: LeafIDs_def)
  have "distinct (LeafIDs n)" "distinct (LeafIDs w)" using n w(1) by (simp_all add: distinct_LeafIDs)
  moreover have rest: "LeafIDs rest = filter (\<lambda>j. j \<notin> set (LeafIDs w)) (LeafIDs n)" "layout_ok rest"
    using p by (simp_all add: pruned_def)
  ultimately have m: "mset (LeafIDs n) = mset (LeafIDs rest) + mset (LeafIDs w)"
    using lw by (intro multiset_eqI) (auto simp: distinct_count_atmost_1 count_mset_0_iff)
  have old: "\<exists>v \<in> set (walk n). node_id v = j \<and> set (LeafIDs v) - set (LeafIDs w) \<noteq> {}" if jr: "j \<in> ids_of rest" for j
  proof -
    have nz: "rest \<noteq> zero_node" using jr by auto
    then have "tree_ok rest" using rest(2) by (simp add: layout_ok_def)
    obtain v' where v': "v' \<in> set (walk rest)" "j = node_id v'"
      using jr nz by (auto simp: ids_of_def node_ids_def)
    obtain v where "v \<in> set (walk n)" "node_id v = node_id v'" "LeafIDs v' = filter (\<lambda>j. j \<notin> set (LeafIDs w)) (LeafIDs v)"
      using p nz v'(1) unfolding pruned_def by blast
    moreover have "LeafIDs v' \<noteq> []" using walk_tree_ok [OF \<open>tree_ok rest\<close> v'(1)] by (rule leaf_ids_nonempty)
    ultimately show ?thesis using v' by (auto simp: filter_empty_conv)
  qed
  have "ids_of rest \<inter> ids_of w = {}"
  proof (rule ccontr)
    assume "ids_of rest \<inter> ids_of w \<noteq> {}"
    then obtain j u where u: "j \<in> ids_of rest" "u \<in> set (walk w)" "node_id u = j"
      using w(1) by (auto simp: ids_of_tree node_ids_def)
    obtain v where v: "v \<in> set (walk n)" "node_id v = j" "set (LeafIDs v) - set (LeafIDs w) \<noteq> {}" using old u(1) by blast
    have "u = v" using n u v w(2) by (auto simp: tree_ok_def node_ids_def distinct_map inj_on_def)
    then show False using walk_leaves [OF u(2)] v(3) by blast
  qed
  moreover have "ids_of rest \<subseteq> ids_of n" using old n by (auto simp: ids_of_tree node_ids_def)
  moreover have "ids_of w \<subseteq> ids_of n" using w n by (auto simp: ids_of_tree node_ids_def)
  ultimately show ?thesis using rest w(1) m by (simp add: taken_def joinable_def)
qed

lemma taken_same:
  assumes "headers r' = headers r" "headers w' = headers w" "tree_ok r" "taken n r w"
  shows "taken n r' w'"
proof -
  note r = same_headers [OF assms(1)] and w = same_headers [OF assms(2)]
  have "tree_ok w" using assms(4) unfolding taken_def joinable_def by blast
  then have ok: "tree_ok r'" "tree_ok w" "tree_ok w'" using assms(3) r(3) w(3) by simp_all
  have ids: "ids_of r' = ids_of r" "ids_of w' = ids_of w"
    using ok assms(3) r(2) w(2) by (simp_all add: ids_of_tree)
  have "taken n r' w' \<longleftrightarrow> taken n r w"
    unfolding taken_def joinable_def r(1) w(1) ids using ok assms(3) by (simp add: layout_ok_def)
  then show ?thesis using assms(4) by blast
qed

lemma leaf_tree_ok: "isLeaf v \<Longrightarrow> node_ok v \<Longrightarrow> tree_ok v"
  by (simp add: tree_ok_def walk_leaf node_ids_def)

lemma Remove_taken:
  assumes "tree_ok n" "findLeaf n i = Some v"
  shows "taken n (Remove_or_same n i) v" "LeafIDs v = [i]" "tree_ok v"
proof -
  have v: "v \<in> set (walk n)" "isLeaf v" "leafIDOf v = i" using findLeaf_Some [OF assms(2)] by auto
  then show "LeafIDs v = [i]" by (simp add: LeafIDs_leaf)
  show "tree_ok v" using walk_tree_ok [OF assms(1) v(1)] .
  then show "taken n (Remove_or_same n i) v"
    using pruned_taken [OF assms(1)] pruned_Remove [of n i] walk_trans [OF v(1)] assms(1) \<open>LeafIDs v = [i]\<close>
    by (simp add: layout_ok_def)
qed

lemma takeLeafFromColumn_laws:
  assumes n: "tree_ok n"
  shows "takeLeafFromColumn n i = None \<longleftrightarrow> i \<notin> set (LeafIDs n)"
    and "takeLeafFromColumn n i = Some (rest, w) \<Longrightarrow> taken n rest w \<and> LeafIDs w = [i] \<and> tree_ok w"
proof -
  show "takeLeafFromColumn n i = None \<longleftrightarrow> i \<notin> set (LeafIDs n)"
    using findLeaf_iff [of n i] by (auto simp: takeLeafFromColumn_def Let_def split: option.splits list.splits)
  assume a: "takeLeafFromColumn n i = Some (rest, w)"
  then obtain v where v: "findLeaf n i = Some v" by (auto simp: takeLeafFromColumn_def split: option.splits)
  let ?r = "Remove_or_same n i"
  have t: "taken n ?r v" and lv: "LeafIDs v = [i]" "tree_ok v" using Remove_taken [OF n v] .
  obtain ix where ix: "ColumnOf n i = Some ix" using v ColumnOf_None [OF n] findLeaf_iff [of n i] by auto
  let ?s = "filter (\<lambda>j. j \<noteq> i) (LeafIDs (Columns n ! ix))"
  have hw: "headers w = headers v" if "w = with_width v u \<or> w = v" for u
    using that findLeaf_Some(2) [OF v] by (auto simp: headers_nonsplit isLeaf_not_split)
  have hw_leaf: "LeafIDs w = [i] \<and> tree_ok w" if "headers w = headers v"
    using same_headers [OF that] lv by simp
  show "taken n rest w \<and> LeafIDs w = [i] \<and> tree_ok w"
  proof (cases ?s)
    case Nil
    then have "rest = ?r" "w = v" using a v ix by (auto simp: takeLeafFromColumn_def Let_def)
    then show ?thesis using t lv by simp
  next
    case (Cons s ss)
    have c: "w = with_width v no_width"
        "rest = (case SetWantedWidth ?r s (columnWantedWidth n i) of None \<Rightarrow> ?r | Some r \<Rightarrow> r)"
      using a v ix Cons by (auto simp: takeLeafFromColumn_def Let_def)
    have "set (LeafIDs (Columns n ! ix)) \<subseteq> set (concat (map LeafIDs (Columns n)))"
      using ColumnOf_Some [OF ix] nth_mem [of ix "Columns n"] by (auto simp del: nth_mem)
    then have "s \<in> set (LeafIDs n)" "s \<noteq> i" using Cons Columns_ok [OF n] by (auto simp: filter_eq_Cons_iff)
    then have "without i (LeafIDs n) \<noteq> []" by (metis Diff_iff empty_iff list.set(1) singletonD without_simps(4))
    then have ok: "tree_ok ?r" using Remove_or_same_ok(1) [OF n] by simp
    have "headers rest = headers ?r" using c(2) SetWantedWidth_headers by (auto split: option.splits)
    then have "taken n rest w" using taken_same [OF _ _ ok t] hw c(1) by blast
    then show ?thesis using hw_leaf hw c(1) by blast
  qed
qed

lemma column_walk: "c \<in> set (Columns n) \<Longrightarrow> set (walk c) \<subseteq> set (walk n)"
proof (induction n rule: Columns.induct)
  case (1 n)
  show ?case
  proof (cases "is_split n \<and> Direction n = ''vertical'' \<and> length (Children n) = 2")
    case True
    then obtain a b where "Children n = [a, b]" by (auto simp: length_Suc_conv numeral_2_eq_2)
    then show ?thesis using 1 True by (auto simp: Columns_vertical walk_split2)
  next
    case False
    then show ?thesis using 1(3) by (auto simp: Columns.simps [of n] split: if_splits)
  qed
qed

lemma row_take_laws:
  assumes n: "tree_ok n"
  shows "row_take m n = None \<longleftrightarrow> rm_LeafID m \<notin> set (LeafIDs n)"
    and "row_take m n = Some (rest, w) \<Longrightarrow> taken n rest w \<and> tree_ok w \<and> rm_LeafID m \<in> set (LeafIDs w)"
proof -
  show "row_take m n = None \<longleftrightarrow> rm_LeafID m \<notin> set (LeafIDs n)"
    using takeLeafFromColumn_laws(1) [OF n, of "rm_LeafID m"] ColumnOf_None [OF n, of "rm_LeafID m"]
    by (auto simp: row_take_def Let_def split: option.splits)
  assume a: "row_take m n = Some (rest, w)"
  show "taken n rest w \<and> tree_ok w \<and> rm_LeafID m \<in> set (LeafIDs w)"
  proof (cases "rm_WholeColumn m")
    case True
    then obtain ix where ix: "ColumnOf n (rm_LeafID m) = Some ix" "w = Columns n ! ix"
        "rest = fold (\<lambda>i rest. Remove_or_same rest i) (LeafIDs w) n"
      using a by (auto simp: row_take_def Let_def split: option.splits)
    have w: "w \<in> set (Columns n)" using ColumnOf_Some [OF ix(1)] ix(2) by simp
    have "pruned (LeafIDs w) n rest" unfolding ix(3) by (rule pruned_fold) (simp add: layout_ok_def n)
    moreover have "tree_ok w" using Columns_ok [OF n] w by (simp add: list_all_iff)
    ultimately have "taken n rest w" using pruned_taken [OF n] column_walk [OF w] by blast
    then show ?thesis using \<open>tree_ok w\<close> ColumnOf_Some [OF ix(1)] ix(2) by simp
  next
    case False
    then show ?thesis using a takeLeafFromColumn_laws(2) [OF n] by (simp add: row_take_def)
  qed
qed

end
