(* ===== verification/Layout_Theorems.thy ===== *)
theory Layout_Theorems
  imports Layout_Placing
begin

text \<open>The properties of the layout operations, over the laws of the theories before this one.\<close>

subsection \<open>Helpers\<close>

lemma Validate_tree_ok: "tree_ok n \<Longrightarrow> Validate n = Inr ()"
  by (simp add: Validate_decides)

lemma Validate_layout_ok: "layout_ok n \<Longrightarrow> Validate n = Inr ()"
  by (auto simp: Validate_decides layout_ok_def)

lemma lockedSplit_joined:
  assumes "joinable n w" "tree_ok n" "placement_ok pl" "pl_splitID pl \<notin> ids_of n \<union> ids_of w"
  shows "joined n w (lockedSplit n w pl)"
proof -
  have w: "tree_ok w" and disj: "set (node_ids n) \<inter> set (node_ids w) = {}"
    using assms(1,2) by (auto simp: joinable_def ids_of_tree)
  obtain new where new: "mset (headers (lockedSplit n w pl)) = mset (headers n @ new)" "list_all node_ok new"
      "map node_id new = pl_splitID pl # node_ids w"
    using lockedSplit_headers [OF assms(3) w, of n] by (elim exE conjE) (rule that)
  have "map node_id (headers n @ new) = node_ids n @ pl_splitID pl # node_ids w"
    by (simp add: new(3) node_ids_headers)
  then have "distinct (map node_id (headers n @ new))"
    using assms(2,4) disj w ids_of_tree [of n] ids_of_tree [of w] by (auto simp: tree_ok_def)
  then have "distinct (map node_id (headers (lockedSplit n w pl)))"
    using new(1) by (metis mset_eq_imp_distinct_iff mset_map)
  moreover have "list_all node_ok (headers (lockedSplit n w pl))"
    using mset_eq_setD [OF new(1)] assms(2) new(2) by (auto simp: list_all_iff tree_ok_headers headers_ok_def)
  ultimately show ?thesis
    by (simp add: joined_def tree_ok_headers headers_ok_def lockedSplit_leaves)
qed

lemma placeLeaf_laws:
  assumes "joinable n w" "tree_ok n" "placement_ok pl" "pl_splitID pl \<notin> ids_of n \<union> ids_of w"
  shows "placeLeaf n a pl w \<noteq> None \<longleftrightarrow> a = [] \<or> a \<in> set (LeafIDs n)"
    and "placeLeaf n a pl w = Some n' \<Longrightarrow> joined n w n'"
  using lockedSplit_joined [OF assms] insertBesideLeaf_laws(1) [OF assms(1,3,4), of a]
    insertBesideLeaf_laws(2) [OF assms(1,3,4), of a n']
  by (simp_all add: placeLeaf_def) (metis option.inject)

lemma taken_joined: "taken n rest w \<Longrightarrow> joined rest w n' \<Longrightarrow> tree_ok n' \<and> mset (LeafIDs n') = mset (LeafIDs n)"
  unfolding taken_def joined_def by metis

lemma fresh_ids_at: "fresh_ids f k used \<Longrightarrow> i < k \<Longrightarrow> id_ok (f i) \<and> f i \<notin> set used"
  by (auto simp: fresh_ids_def list_all_iff)

lemma row_place_laws:
  assumes t: "taken n rest w" and w: "tree_ok w" and n: "tree_ok n"
    and fresh: "fresh_ids (rm_NewSplitID m) (Suc (length (LeafIDs n))) (node_ids n)" and r: "rm_Ratio m \<noteq> NaN"
  shows "row_place m rest w \<noteq> None \<longleftrightarrow> rm_AnchorID m = [] \<or> rm_AnchorID m \<in> set (LeafIDs rest)"
    and "row_place m rest w = Some n' \<Longrightarrow> joined rest w n'"
proof -
  let ?f = "rm_NewSplitID m"
  let ?pl = "newPlacement (rm_Direction m) (rm_Before m) (?f 0) (rm_Ratio m)"
  have j: "joinable rest w" and sub: "ids_of rest \<union> ids_of w \<subseteq> set (node_ids n)"
    and len: "length (LeafIDs rest) \<le> length (LeafIDs n)"
    using t n ids_of_tree [of n] unfolding taken_def by auto
  have f0: "id_ok (?f 0)" "?f 0 \<notin> ids_of rest \<union> ids_of w"
    using fresh_ids_at [OF fresh, of 0] sub by auto
  have pl: "placement_ok ?pl" "pl_splitID ?pl \<notin> ids_of rest \<union> ids_of w"
    using newPlacement_ok [OF r f0(1)] f0(2) by simp_all
  have "rest \<noteq> zero_node \<Longrightarrow> set (node_ids rest) \<subseteq> set (node_ids n)" "set (node_ids w) \<subseteq> set (node_ids n)"
    using sub w by (auto simp: ids_of_def tree_ok_not_zero)
  moreover have "node_ids zero_node = [[]]" by (simp add: node_ids_def walk.simps node_id_def leafIDOf_def)
  moreover have "fresh_ids ?f (Suc (length (LeafIDs n))) ([] # node_ids n)"
    using fresh by (auto simp: fresh_ids_def list_all_iff id_ok_def)
  ultimately have "fresh_ids ?f (Suc (length (LeafIDs rest))) (node_ids rest @ node_ids w)"
    using len by (cases "rest = zero_node") (auto elim!: fresh_ids_mono)
  note col = PlaceColumn_laws [OF j this]
  note ins = insertBesideLeaf_laws [OF j pl]
  show "row_place m rest w \<noteq> None \<longleftrightarrow> rm_AnchorID m = [] \<or> rm_AnchorID m \<in> set (LeafIDs rest)"
    using col(1) [of "rm_AnchorID m" "rm_Before m"] ins(1) [of "rm_AnchorID m"] by (auto simp: row_place_def)
  show "joined rest w n'" if "row_place m rest w = Some n'"
    using that col(2) ins(2) by (auto simp: row_place_def split: if_splits)
qed

lemma concat_map_in: "c \<in> set cs \<Longrightarrow> x \<in> set (f c) \<Longrightarrow> x \<in> set (concat (map f cs))"
  by auto

lemma distinct_concat_nth:
  assumes "distinct (concat (map f cs))" "i < length cs" "k < length cs" "x \<in> set (f (cs ! i))" "x \<in> set (f (cs ! k))"
  shows "i = k"
  using assms
proof (induction cs arbitrary: i k)
  case (Cons c cs)
  have disj: "x \<notin> set (f (cs ! d))" if "x \<in> set (f c)" "d < length cs" for d
    using Cons.prems(1) that nth_mem [OF that(2)] by (auto simp del: nth_mem)
  show ?case
  proof (cases i)
    case 0
    then show ?thesis using Cons.prems disj by (cases k) auto
  next
    case (Suc i')
    show ?thesis
    proof (cases k)
      case 0
      then show ?thesis using Suc Cons.prems(2-5) disj [of i'] by simp
    next
      case (Suc k')
      have "distinct (concat (map f cs))" using Cons.prems(1) by simp
      then show ?thesis using Suc \<open>i = Suc i'\<close> Cons.prems(2-5) Cons.IH [of i' k'] by simp
    qed
  qed
qed simp

lemma column_unique:
  assumes "tree_ok n" "ix < length (Columns n)" "j \<in> set (LeafIDs (Columns n ! ix))"
  shows "ColumnOf n j = Some ix"
proof -
  have d: "distinct (concat (map LeafIDs (Columns n)))"
    using distinct_LeafIDs [OF assms(1)] Columns_ok [OF assms(1)] by simp
  have "j \<in> set (LeafIDs n)" 
    using concat_map_in [OF nth_mem [OF assms(2)], of j LeafIDs] assms(3) Columns_ok [OF assms(1)] by simp
  then obtain k where k: "ColumnOf n j = Some k" using ColumnOf_None [OF assms(1)] by auto
  note kl = ColumnOf_Some [OF k]
  have "k = ix"
  proof (rule ccontr)
    assume "k \<noteq> ix"
    then show False using distinct_concat_nth [OF d, of k ix j] kl assms(2,3) by simp
  qed
  then show ?thesis using k by simp
qed

lemma same_column_iff:
  assumes n: "tree_ok n" and ix: "ColumnOf n l = Some ix"
  shows "SameColumn n l j \<longleftrightarrow> j \<in> set (LeafIDs (Columns n ! ix))"
  using column_unique [OF n, of ix j] ColumnOf_Some [of n j] ColumnOf_Some [OF ix] ix
  by (auto simp: SameColumn_def split: option.splits)

text \<open>What a move within a row takes along: a leaf, or all leaves of its column.\<close>

definition moved_leaves :: "Node \<Rightarrow> RowMove \<Rightarrow> string list" where
  "moved_leaves n m = (if rm_WholeColumn m then filter (SameColumn n (rm_LeafID m)) (LeafIDs n) else [rm_LeafID m])"

lemma filter_middle: "distinct (xs @ ys @ zs) \<Longrightarrow> filter (\<lambda>x. x \<in> set ys) (xs @ ys @ zs) = ys"
proof -
  assume "distinct (xs @ ys @ zs)"
  then have "filter (\<lambda>x. x \<in> set ys) xs = []" "filter (\<lambda>x. x \<in> set ys) zs = []" by (auto simp: filter_empty_conv)
  then show ?thesis by simp
qed

lemma row_take_leaves:
  assumes "tree_ok n" "row_take m n = Some (rest, w)"
  shows "LeafIDs w = moved_leaves n m"
proof (cases "rm_WholeColumn m")
  case True
  then obtain ix where ix: "ColumnOf n (rm_LeafID m) = Some ix" "w = Columns n ! ix"
    using assms(2) by (auto simp: row_take_def Let_def split: option.splits)
  have "Columns n = take ix (Columns n) @ w # drop (Suc ix) (Columns n)"
    using ColumnOf_Some [OF ix(1)] by (simp add: ix(2) id_take_nth_drop)
  then have "LeafIDs n = concat (map LeafIDs (take ix (Columns n))) @ LeafIDs w @ concat (map LeafIDs (drop (Suc ix) (Columns n)))"
    using Columns_ok [OF assms(1)] by (metis concat.simps(2) concat_append list.simps(9) map_append)
  then have "filter (\<lambda>j. j \<in> set (LeafIDs w)) (LeafIDs n) = LeafIDs w"
    using distinct_LeafIDs [OF assms(1)] filter_middle by metis
  then show ?thesis using True same_column_iff [OF assms(1) ix(1)] by (simp add: moved_leaves_def ix(2) cong: filter_cong)
next
  case False
  then show ?thesis using assms takeLeafFromColumn_laws(2) [OF assms(1)] by (simp add: row_take_def moved_leaves_def)
qed

text \<open>Where the moved leaves go: to an end of the row without an anchor, else to the asked side of it, next to it in its stack when the direction is horizontal.\<close>

definition beside :: "RowMove \<Rightarrow> string list \<Rightarrow> string list \<Rightarrow> bool" where
  "beside m pre post \<longleftrightarrow>
     (if rm_AnchorID m = [] then (if rm_Before m then pre = [] else post = [])
      else if rm_Before m then rm_AnchorID m \<in> set post \<and> (rm_Direction m = ''horizontal'' \<longrightarrow> hd post = rm_AnchorID m)
      else rm_AnchorID m \<in> set pre \<and> (rm_Direction m = ''horizontal'' \<longrightarrow> last pre = rm_AnchorID m))"

lemma insertBesideLeaf_order:
  assumes "insertBesideLeaf n a pl w = Some n'"
  shows "\<exists>pre post. LeafIDs n = pre @ a # post \<and> LeafIDs n' = pre @ (if pl_before pl then LeafIDs w @ [a] else a # LeafIDs w) @ post"
proof -
  obtain k where k: "rewriteFirst (at_leaf a (\<lambda>c. lockedSplit c w pl)) n = Some k" "headers n' = headers k"
    using assms SetWantedWidth_headers
    by (auto simp: insertBesideLeaf_def Let_def at_leaf_code split: option.splits if_splits)
  have "\<exists>pre post. LeafIDs n = pre @ a # post \<and> LeafIDs k = pre @ (if pl_before pl then LeafIDs w @ [a] else a # LeafIDs w) @ post"
    by (rule insert_edit.edit_leaves [OF k(1)]) (auto simp: lockedSplit_leaves LeafIDs_leaf)
  then show ?thesis using same_headers(1) [OF k(2)] by simp
qed

lemma insert_at_leaves:
  "LeafIDs (FromColumns (insert_at cs ix w) f) = concat (map LeafIDs (take ix cs)) @ LeafIDs w @ concat (map LeafIDs (drop ix cs))"
  by (simp add: LeafIDs_FromColumns insert_at_def)

lemma row_place_order:
  assumes "layout_ok rest" "row_place m rest w = Some n'"
  shows "\<exists>pre post. LeafIDs rest = pre @ post \<and> LeafIDs n' = pre @ LeafIDs w @ post \<and> beside m pre post"
proof (cases "rm_Direction m = ''horizontal'' \<and> rm_AnchorID m \<noteq> []")
  case True
  then obtain pre post where p: "LeafIDs rest = pre @ rm_AnchorID m # post"
      "LeafIDs n' = pre @ (if rm_Before m then LeafIDs w @ [rm_AnchorID m] else rm_AnchorID m # LeafIDs w) @ post"
    using insertBesideLeaf_order [of rest "rm_AnchorID m"] assms(2) by (fastforce simp: row_place_def newPlacement_def)
  show ?thesis
  proof (cases "rm_Before m")
    case True
    then show ?thesis using p \<open>_ \<and> _\<close> by (intro exI [of _ pre] exI [of _ "rm_AnchorID m # post"]) (simp add: beside_def)
  next
    case False
    then show ?thesis using p \<open>_ \<and> _\<close> by (intro exI [of _ "pre @ [rm_AnchorID m]"] exI [of _ post]) (simp add: beside_def)
  qed
next
  case False
  let ?cs = "Columns rest" and ?l = "\<lambda>cs. concat (map LeafIDs cs)"
  have cols: "LeafIDs rest = ?l (take ix ?cs) @ ?l (drop ix ?cs)" for ix
    using assms(1) Columns_ok [of rest] by (auto simp: layout_ok_def simp flip: concat_append map_append)
  have place: "PlaceColumn rest (rm_AnchorID m) (rm_Before m) w (rm_NewSplitID m) = Some n'"
    using assms(2) False by (simp add: row_place_def)
  show ?thesis
  proof (cases "rm_AnchorID m = []")
    case True
    define ix where "ix = (if rm_Before m then 0 else length ?cs)"
    have "n' = FromColumns (insert_at ?cs ix w) (rm_NewSplitID m)" using place True by (simp add: PlaceColumn_def Let_def ix_def)
    then show ?thesis using True cols [of ix] insert_at_leaves
      by (intro exI [of _ "?l (take ix ?cs)"] exI [of _ "?l (drop ix ?cs)"]) (simp add: beside_def ix_def)
  next
    case anchor: False
    then obtain k where k: "ColumnOf rest (rm_AnchorID m) = Some k" using place by (auto simp: PlaceColumn_def Let_def split: option.splits)
    define ix where "ix = (if rm_Before m then k else k + 1)"
    have n': "n' = FromColumns (insert_at ?cs ix w) (rm_NewSplitID m)" using place anchor k by (simp add: PlaceColumn_def Let_def ix_def)
    have kl: "k < length ?cs" "rm_AnchorID m \<in> set (LeafIDs (?cs ! k))" using ColumnOf_Some [OF k] by simp_all
    have "rm_AnchorID m \<in> set (?l (if rm_Before m then drop ix ?cs else take ix ?cs))"
      using kl by (intro concat_map_in [of "?cs ! k"]) (auto simp: ix_def take_Suc_conv_app_nth Cons_nth_drop_Suc [symmetric])
    then show ?thesis using cols [of ix] insert_at_leaves anchor False n'
      by (intro exI [of _ "?l (take ix ?cs)"] exI [of _ "?l (drop ix ?cs)"]) (auto simp: beside_def)
  qed
qed

lemma walk_Rebalance: "tree_ok n \<Longrightarrow> walk (Rebalance n) = map Rebalance (walk n)"
proof (induction rule: tree_ok_induct)
  case (leaf n)
  then show ?case by (simp add: Rebalance_leaf isLeaf_not_split walk_leaf)
next
  case (split n a b)
  have "is_split (Rebalance n)" "Children (Rebalance n) = [Rebalance a, Rebalance b]"
    using split by (simp_all add: Rebalance_fields Rebalance_children)
  then show ?case using split by (simp add: walk_split2)
qed

subsection \<open>Validation\<close>

text \<open>
  C15. The validator accepts exactly the empty layout and the layouts in which every node is well
  formed (trimmed non-empty id, a kind on every tile, a direction, a ratio strictly between 0 and
  1 and two children on every split) and no two nodes of any kind share an id.
\<close>
theorem Validate_exact: "Validate n = Inr () \<longleftrightarrow> Type n = [] \<or> tree_ok n"
  by (rule Validate_decides)

subsection \<open>Splitting and removing\<close>

text \<open>
  Splitting at a leaf of a valid layout succeeds and puts the new pane directly after it,
  changing nothing else in the order of the leaves; with fresh ids the result is valid again.
\<close>
theorem Split_correct:
  assumes "tree_ok n" "target \<in> set (LeafIDs n)" "id_ok newPane" "id_ok splitID" "newPane \<noteq> splitID"
    "newPane \<notin> set (node_ids n)" "splitID \<notin> set (node_ids n)" "ratio \<noteq> NaN"
  shows "\<exists>n' pre post. Split n target newPane splitID direction ratio = Some n' \<and> Validate n' = Inr () \<and>
    LeafIDs n = pre @ target # post \<and> LeafIDs n' = pre @ target # newPane # post"
proof -
  obtain n' where n': "Split n target newPane splitID direction ratio = Some n'"
    using split_edit.edit_succeeds assms(2) by blast
  let ?s = "\<lambda>v. split_node splitID (directionOrDefault direction) (ratioOrDefault ratio) False ''automatic'' [v, pane_node newPane]"
  have "tree_ok n'"
  proof (rule split_edit.edit_ok(1) [OF n' assms(1)])
    show "\<exists>new. mset (headers (?s v)) = mset (hdr v # new) \<and> list_all node_ok new \<and>
        map node_id new = [splitID, newPane]" if "isLeaf v" for v
      using assms that ratioOrDefault_ok [of ratio] directionOrDefault_ok [of direction]
      by (intro exI [of _ "[hdr (?s v), hdr (pane_node newPane)]"])
        (simp add: headers_split2 headers_nonsplit isLeaf_not_split node_ok_def node_id_def leafIDOf_def)
  qed (use assms in auto)
  moreover obtain pre post where "LeafIDs n = pre @ target # post" "LeafIDs n' = pre @ [target, newPane] @ post"
  proof -
    have "LeafIDs (?s v) = [target, newPane]" if "isLeaf v" "leafIDOf v = target" for v
      using that by (simp add: LeafIDs_split2 LeafIDs_leaf isLeaf_def leafIDOf_def)
    then show thesis using split_edit.edit_leaves [OF n'] that by blast
  qed
  ultimately show ?thesis using n' Validate_tree_ok by auto
qed

text \<open>
  C7. Removing a leaf from a valid layout reports whether it was there, keeps the other leaves in
  their order, collapses the split it leaves behind so that the result is valid, and leaves the
  empty layout exactly when it was the only leaf.
\<close>
theorem Remove_correct:
  assumes "tree_ok n"
  shows "case Remove n i of
      None \<Rightarrow> i \<notin> set (LeafIDs n)
    | Some n' \<Rightarrow> i \<in> set (LeafIDs n) \<and> LeafIDs n' = filter (\<lambda>j. j \<noteq> i) (LeafIDs n) \<and> Validate n' = Inr () \<and>
        (Type n' = [] \<longleftrightarrow> LeafIDs n = [i])"
proof (cases "Remove n i")
  case None
  then show ?thesis using Remove_laws(1) [OF assms, of i] by simp
next
  case (Some n')
  have i: "i \<in> set (LeafIDs n)" using Some Remove_laws(1) [OF assms, of i] by auto
  have "without i (LeafIDs n) = [] \<longleftrightarrow> LeafIDs n = [i]"
    using without_Nil [OF distinct_LeafIDs [OF assms] i] .
  moreover have "LeafIDs n' = filter (\<lambda>j. j \<noteq> i) (LeafIDs n)"
    using Remove_laws(2) [OF assms Some] by (simp add: without_def)
  ultimately show ?thesis
    using Some i Remove_laws(3,4) [OF assms Some] tree_ok_Type Validate_tree_ok
    by (cases "LeafIDs n = [i]") (auto simp: Validate_decides)
qed

subsection \<open>Moving\<close>

text \<open>
  Moving a leaf of a valid layout succeeds exactly when the leaf is there, is not the only one
  and is not its own anchor, and the anchor (unless empty, which means the whole layout) is there
  too; it neither loses nor duplicates a leaf and the result is valid.
\<close>
theorem MoveLeaf_correct:
  fixes leafID anchorID :: string
  defines "l \<equiv> TrimSpace leafID" and "a \<equiv> TrimSpace anchorID"
  assumes "tree_ok n" "id_ok splitID" "splitID \<notin> set (node_ids n)" "ratio \<noteq> NaN"
  shows "case MoveLeaf n leafID anchorID splitID direction before ratio of
      None \<Rightarrow> l \<notin> set (LeafIDs n) \<or> l = a \<or> LeafIDs n = [l] \<or> a \<notin> insert [] (set (LeafIDs n))
    | Some n' \<Rightarrow> l \<in> set (LeafIDs n) \<and> l \<noteq> a \<and> LeafIDs n \<noteq> [l] \<and> a \<in> insert [] (set (LeafIDs n)) \<and>
        Validate n' = Inr () \<and> mset (LeafIDs n') = mset (LeafIDs n)"
proof -
  let ?pl = "newPlacement direction before splitID ratio"
  let ?r = "Remove_or_same n l"
  have pl: "placement_ok ?pl" "pl_splitID ?pl = splitID" using newPlacement_ok assms by simp_all
  have l0: "l \<noteq> []" if "l \<in> set (LeafIDs n)" using leaf_ids_ok [OF assms(3) that] by (auto simp: id_ok_def)
  show ?thesis
  proof (cases "findLeaf n l")
    case None
    then have "MoveLeaf n leafID anchorID splitID direction before ratio = None"
      by (simp add: MoveLeaf_def Let_def flip: l_def)
    then show ?thesis using None findLeaf_iff [of n l] by simp
  next
    case (Some v)
    have l: "l \<in> set (LeafIDs n)" using Some findLeaf_iff [of n l] by auto
    note t = Remove_taken [OF assms(3) Some]
    have rl: "LeafIDs ?r = without l (LeafIDs n)" by (rule Remove_or_same_leaves [OF assms(3)])
    have only: "without l (LeafIDs n) = [] \<longleftrightarrow> LeafIDs n = [l]"
      using without_Nil [OF distinct_LeafIDs [OF assms(3)] l] .
    have empty: "Type ?r = [] \<longleftrightarrow> LeafIDs n = [l]"
      using Remove_or_same_empty [OF assms(3)] Remove_or_same_ok(1) [OF assms(3)] only tree_ok_Type by fastforce
    have code: "MoveLeaf n leafID anchorID splitID direction before ratio =
        (if l = a \<or> LeafIDs n = [l] then None else placeLeaf ?r a ?pl v)"
      using Some l0 [OF l] empty by (simp add: MoveLeaf_def Let_def flip: l_def a_def)
    show ?thesis
    proof (cases "l = a \<or> LeafIDs n = [l]")
      case True
      then show ?thesis by (auto simp: code)
    next
      case False
      then have ok: "tree_ok ?r" using Remove_or_same_ok(1) [OF assms(3)] only by blast
      have j: "joinable ?r v" and sub: "ids_of ?r \<union> ids_of v \<subseteq> ids_of n"
        using t(1) unfolding taken_def by blast+
      have fresh: "pl_splitID ?pl \<notin> ids_of ?r \<union> ids_of v"
        using sub assms(3,5) pl(2) by (auto simp: ids_of_tree)
      note laws = placeLeaf_laws [OF j ok pl(1) fresh]
      have a: "a = [] \<or> a \<in> set (LeafIDs ?r) \<longleftrightarrow> a \<in> insert [] (set (LeafIDs n))"
        using False by (auto simp: rl)
      show ?thesis
      proof (cases "placeLeaf ?r a ?pl v")
        case None
        then show ?thesis using False code laws(1) [of a] a by simp
      next
        case (Some n')
        then have "a \<in> insert [] (set (LeafIDs n))" using laws(1) [of a] a by auto
        moreover have "tree_ok n' \<and> mset (LeafIDs n') = mset (LeafIDs n)"
          using taken_joined [OF t(1) laws(2) [OF Some]] .
        ultimately show ?thesis using False Some code l Validate_tree_ok by simp
      qed
    qed
  qed
qed

text \<open>
  C24. Moving a leaf, or with \<open>WholeColumn\<close> the column it stands in, within a valid row, when the split
  ids that are minted are new and the ratio is a number. It succeeds exactly when the leaf is there and the
  anchor, if one is named, is there too and does not itself move: it is another leaf, in another column when
  the whole column moves. Then the new row is valid and has every leaf exactly once; the moved leaves stay
  together in their order, all the others keep theirs, and the moved ones stand at the end that was asked for
  when no anchor is named, else on the asked side of it, immediately beside it when they join its stack.
\<close>
theorem MoveWithinRow_correct:
  assumes "tree_ok n" "fresh_ids (rm_NewSplitID m) (Suc (length (LeafIDs n))) (node_ids n)" "rm_Ratio m \<noteq> NaN"
  shows "(MoveWithinRow n m \<noteq> None \<longleftrightarrow> rm_LeafID m \<in> set (LeafIDs n) \<and>
      (rm_AnchorID m = [] \<or> rm_AnchorID m \<in> set (LeafIDs n) \<and>
        (if rm_WholeColumn m then \<not> SameColumn n (rm_LeafID m) (rm_AnchorID m) else rm_AnchorID m \<noteq> rm_LeafID m))) \<and>
    (\<forall>n'. MoveWithinRow n m = Some n' \<longrightarrow> Validate n' = Inr () \<and> mset (LeafIDs n') = mset (LeafIDs n) \<and>
      (\<exists>pre post. filter (\<lambda>j. j \<notin> set (moved_leaves n m)) (LeafIDs n) = pre @ post \<and>
        LeafIDs n' = pre @ moved_leaves n m @ post \<and> beside m pre post))"
proof (cases "row_take m n")
  case None
  then show ?thesis using row_take_laws(1) [OF assms(1), of m] by (simp add: MoveWithinRow_def)
next
  case (Some rw)
  obtain rest w where rw: "row_take m n = Some (rest, w)" using Some by (cases rw) simp
  have t: "taken n rest w" and w: "tree_ok w" using row_take_laws(2) [OF assms(1) rw] by blast+
  have l: "rm_LeafID m \<in> set (LeafIDs n)" using row_take_laws(1) [OF assms(1), of m] rw by auto
  have l0: "rm_LeafID m \<noteq> []" using leaf_ids_ok [OF assms(1) l] by (auto simp: id_ok_def)
  note lw = row_take_leaves [OF assms(1) rw]
  have rest: "LeafIDs rest = filter (\<lambda>j. j \<notin> set (moved_leaves n m)) (LeafIDs n)" and ok: "layout_ok rest"
    using t unfolding taken_def lw [symmetric] by (simp_all add: joinable_def)
  note place = row_place_laws [OF t w assms(1) assms(2,3)]
  have some: "MoveWithinRow n m = Some n' \<longleftrightarrow> (rm_WholeColumn m \<or> rm_LeafID m \<noteq> rm_AnchorID m) \<and> row_place m rest w = Some n'" for n'
    by (auto simp: MoveWithinRow_def rw)
  have "MoveWithinRow n m \<noteq> None \<longleftrightarrow> (rm_WholeColumn m \<or> rm_LeafID m \<noteq> rm_AnchorID m) \<and> row_place m rest w \<noteq> None"
    using some by blast
  also have "\<dots> \<longleftrightarrow> (rm_AnchorID m = [] \<or> rm_AnchorID m \<in> set (LeafIDs n) \<and>
      (if rm_WholeColumn m then \<not> SameColumn n (rm_LeafID m) (rm_AnchorID m) else rm_AnchorID m \<noteq> rm_LeafID m))"
    using place(1) l0 unfolding rest by (auto simp: moved_leaves_def)
  finally have exact: "MoveWithinRow n m \<noteq> None \<longleftrightarrow> rm_LeafID m \<in> set (LeafIDs n) \<and> \<dots>" using l by simp
  have "Validate n' = Inr () \<and> mset (LeafIDs n') = mset (LeafIDs n) \<and>
      (\<exists>pre post. filter (\<lambda>j. j \<notin> set (moved_leaves n m)) (LeafIDs n) = pre @ post \<and>
        LeafIDs n' = pre @ moved_leaves n m @ post \<and> beside m pre post)" if "MoveWithinRow n m = Some n'" for n'
  proof -
    have p: "row_place m rest w = Some n'" using that some by blast
    have "tree_ok n' \<and> mset (LeafIDs n') = mset (LeafIDs n)" using taken_joined [OF t place(2) [OF p]] .
    then show ?thesis using row_place_order [OF ok p] Validate_tree_ok unfolding rest lw by simp
  qed
  then show ?thesis using exact by blast
qed

subsection \<open>Sizes\<close>

text \<open>
  Rebalancing a valid layout gives every member of every chain of unlocked splits in one
  direction the same share of the chain, changes nothing but the ratios of unlocked splits, keeps
  the layout valid, and is idempotent.
\<close>
theorem Rebalance_equalises:
  assumes "tree_ok n"
  shows "list_all (\<lambda>v. equal_shares v d) (walk (Rebalance n)) \<and>
    map ratio_erased (headers (Rebalance n)) = map ratio_erased (headers n) \<and>
    LeafIDs (Rebalance n) = LeafIDs n \<and> Validate (Rebalance n) = Inr () \<and> Rebalance (Rebalance n) = Rebalance n"
proof (intro conjI)
  show "list_all (\<lambda>v. equal_shares v d) (walk (Rebalance n))"
    using Rebalance_equal walk_tree_ok [OF assms] by (auto simp: walk_Rebalance [OF assms] list_all_iff)
  show h: "map ratio_erased (headers (Rebalance n)) = map ratio_erased (headers n)"
    by (rule Rebalance_headers [OF assms])
  show "LeafIDs (Rebalance n) = LeafIDs n" by (rule LeafIDs_ratio_erased [OF h])
  show "Validate (Rebalance n) = Inr ()" using Rebalance_tree_ok [OF assms] Validate_tree_ok by blast
  show "Rebalance (Rebalance n) = Rebalance n" by (rule Rebalance_idem [OF assms])
qed

text \<open>
  Flattening the row built from a list of columns gives the columns back, in order, and every
  column of that row has the share one over their number.
\<close>
theorem FromColumns_roundtrip:
  assumes "list_all is_column cs" "list_all tree_ok cs" "cs \<noteq> []"
  shows "Columns (FromColumns cs newSplitID) = cs \<and>
    chain_shares (FromColumns cs newSplitID) ''vertical'' = replicate (length cs) (1 / of_nat (length cs))"
  using Columns_FromColumns_inverse [OF assms(1)] FromColumns_equal [OF assms, of newSplitID]
  by (simp add: equal_shares_def)

subsection \<open>Witnesses\<close>

definition demo_row :: Node where
  "demo_row = split_node ''s1'' ''vertical'' (Fin (1 / 3)) False ''automatic''
     [pane_node ''a'', tile_node ''t'' ''notes'' [] [] no_width]"

lemma demo_walk: "walk demo_row = [demo_row, pane_node ''a'', tile_node ''t'' ''notes'' [] [] no_width]"
  by (simp add: demo_row_def walk.simps)

lemma demo_leaves: "LeafIDs demo_row = [''a'', ''t'']" "node_ids demo_row = [''s1'', ''a'', ''t'']"
  by (simp_all add: LeafIDs_def node_ids_def demo_walk)
    (simp_all add: demo_row_def isLeaf_def leafIDOf_def node_id_def)

lemma demo_ids: "id_ok ''s1''" "id_ok ''a''" "id_ok ''t''" "TrimSpace ''notes'' = ''notes''" "id_ok ''p''" "id_ok ''s2''"
    "id_ok ''s3''" "id_ok ''s4''"
  by (simp_all add: id_ok_def TrimSpace_graphic graphic_def)

lemma demo_ok: "tree_ok demo_row"
  using demo_ids by (simp add: tree_ok_def demo_leaves demo_walk) (simp add: node_ok_def demo_row_def)

theorem Split_correct_witness:
  "\<exists>n' pre post. Split demo_row ''a'' ''p'' ''s2'' ''vertical'' (Fin 0) = Some n' \<and> Validate n' = Inr () \<and>
    [''a'', ''t''] = pre @ ''a'' # post \<and> LeafIDs n' = pre @ ''a'' # ''p'' # post"
  using Split_correct [OF demo_ok, of "''a''" "''p''" "''s2''" "Fin 0" "''vertical''"]
  by (simp add: demo_leaves demo_ids)

theorem Remove_correct_witness:
  "\<exists>n'. Remove demo_row ''a'' = Some n' \<and> LeafIDs n' = [''t''] \<and> Validate n' = Inr ()"
  using Remove_correct [OF demo_ok, of "''a''"] by (simp add: demo_leaves split: option.splits)

theorem MoveLeaf_correct_witness:
  "\<exists>n'. MoveLeaf demo_row ''a'' ''t'' ''s2'' ''horizontal'' False (Fin (1 / 2)) = Some n' \<and>
     Validate n' = Inr () \<and> mset (LeafIDs n') = {#''a'', ''t''#}"
proof -
  have "TrimSpace ''a'' = ''a''" "TrimSpace ''t'' = ''t''" using demo_ids by (simp_all add: id_ok_def)
  then show ?thesis
    using MoveLeaf_correct [OF demo_ok, of "''s2''" "Fin (1 / 2)" "''a''" "''t''" "''horizontal''" False]
    by (simp add: demo_leaves demo_ids split: option.splits)
qed

definition demo_move :: RowMove where
  "demo_move = \<lparr>rm_LeafID = ''a'', rm_AnchorID = ''t'', rm_WholeColumn = True, rm_Direction = [],
     rm_Before = False, rm_Ratio = Fin 0, rm_NewSplitID = (\<lambda>k. [''s2'', ''s3'', ''s4''] ! k)\<rparr>"

theorem MoveWithinRow_correct_witness:
  "\<exists>n'. MoveWithinRow demo_row demo_move = Some n' \<and> Validate n' = Inr () \<and> LeafIDs n' = [''t'', ''a'']"
proof -
  have three: "[0..<Suc (Suc (Suc 0))] = [0, 1, 2]" by (simp add: upt_rec)
  have "fresh_ids (rm_NewSplitID demo_move) (Suc (length (LeafIDs demo_row))) (node_ids demo_row)"
    by (simp add: fresh_ids_def three demo_leaves demo_ids demo_move_def del: upt_Suc)
  then have law: "(MoveWithinRow demo_row demo_move \<noteq> None \<longleftrightarrow> rm_LeafID demo_move \<in> set (LeafIDs demo_row) \<and>
      (rm_AnchorID demo_move = [] \<or> rm_AnchorID demo_move \<in> set (LeafIDs demo_row) \<and>
        (if rm_WholeColumn demo_move then \<not> SameColumn demo_row (rm_LeafID demo_move) (rm_AnchorID demo_move)
         else rm_AnchorID demo_move \<noteq> rm_LeafID demo_move))) \<and>
    (\<forall>n'. MoveWithinRow demo_row demo_move = Some n' \<longrightarrow> Validate n' = Inr () \<and> mset (LeafIDs n') = mset (LeafIDs demo_row) \<and>
      (\<exists>pre post. filter (\<lambda>j. j \<notin> set (moved_leaves demo_row demo_move)) (LeafIDs demo_row) = pre @ post \<and>
        LeafIDs n' = pre @ moved_leaves demo_row demo_move @ post \<and> beside demo_move pre post))"
    by (intro MoveWithinRow_correct [OF demo_ok]) (simp_all add: demo_move_def)
  have same: "\<not> SameColumn demo_row ''a'' ''t''" "SameColumn demo_row ''a'' ''a''"
    by (simp_all add: SameColumn_def ColumnOf_def Columns.simps findLeaf_def findNode.simps isLeafWithID_def isLeaf_def
        leafIDOf_def demo_row_def)
  then have moved: "moved_leaves demo_row demo_move = [''a'']" by (simp add: moved_leaves_def demo_move_def demo_leaves)
  obtain n' where n': "MoveWithinRow demo_row demo_move = Some n'"
    using law same by (auto simp: demo_leaves demo_move_def)
  then obtain pre post where "[''t''] = pre @ post" "LeafIDs n' = pre @ ''a'' # post" "beside demo_move pre post"
    using law by (fastforce simp: moved demo_leaves)
  moreover have "''t'' \<in> set pre" using calculation(3) by (simp add: beside_def demo_move_def)
  ultimately have "LeafIDs n' = [''t'', ''a'']" by (auto simp: append_eq_Cons_conv Cons_eq_append_conv)
  then show ?thesis using law n' by blast
qed

theorem Rebalance_equalises_witness:
  "chain_shares (Rebalance demo_row) ''vertical'' = [1 / 2, 1 / 2] \<and> LeafIDs (Rebalance demo_row) = [''a'', ''t'']"
proof -
  have count: "splitChainSpanCount (Rebalance demo_row) ''vertical'' = 2"
    by (simp add: demo_row_def Rebalance.simps splitChainSpanCount.simps Let_def)
  have "Rebalance demo_row \<in> set (walk (Rebalance demo_row))" by (simp add: walk.simps [of "Rebalance demo_row"])
  then have "equal_shares (Rebalance demo_row) ''vertical''"
    using Rebalance_equalises [OF demo_ok, of "''vertical''"] by (simp add: list_all_iff)
  then show ?thesis
    using Rebalance_equalises [OF demo_ok, of "''vertical''"]
    by (simp add: equal_shares_def count demo_leaves numeral_2_eq_2)
qed

theorem FromColumns_roundtrip_witness:
  "Columns (FromColumns [pane_node ''a'', pane_node ''p''] (\<lambda>k. ''s2'')) = [pane_node ''a'', pane_node ''p'']"
proof -
  have "list_all is_column [pane_node ''a'', pane_node ''p'']" "list_all tree_ok [pane_node ''a'', pane_node ''p'']"
    using demo_ids by (simp_all add: is_column_def leaf_tree_ok isLeaf_def node_ok_def)
  then show ?thesis using FromColumns_roundtrip by blast
qed

end
