(* ===== verification/Layout_Focus.thy ===== *)
theory Layout_Focus
  imports Layout_Theorems
begin

text \<open>
  Which leaf takes over when one goes away (\<open>NextInPosition\<close>), and docking a tile, which removes an
  earlier copy of it first.
\<close>

subsection \<open>Most recently used leaves\<close>

lemma mostRecentlyUsedLeaf_laws:
  assumes "tree_ok c"
  shows "mostRecentlyUsedLeaf c live history = [] \<longleftrightarrow> filter live (LeafIDs c) = []"
    and "mostRecentlyUsedLeaf c live history \<noteq> [] \<Longrightarrow>
      live (mostRecentlyUsedLeaf c live history) \<and> mostRecentlyUsedLeaf c live history \<in> set (LeafIDs c)"
proof -
  let ?ls = "filter live (LeafIDs c)"
  let ?r = "mostRecentlyUsedLeaf c live history"
  have ne: "i \<noteq> []" if "i \<in> set ?ls" for i using that leaf_ids_ok [OF assms, of i] by (auto simp: id_ok_def)
  have r: "if ?ls = [] then ?r = [] else ?r \<in> set ?ls"
  proof (cases "find (\<lambda>i. i \<in> set ?ls) history")
    case None
    then show ?thesis by (cases ?ls) (simp_all add: mostRecentlyUsedLeaf_def)
  next
    case (Some i)
    then have "i \<in> set ?ls" using find_Some_iff_first by fastforce
    then have "?ls \<noteq> []" by (metis list.set(1) empty_iff)
    moreover have "?r = i" using Some by (simp add: mostRecentlyUsedLeaf_def Let_def)
    ultimately show ?thesis using \<open>i \<in> set ?ls\<close> by simp
  qed
  show "?r = [] \<longleftrightarrow> ?ls = []" using r ne by (metis (full_types))
  show "?r \<noteq> [] \<Longrightarrow> live ?r \<and> ?r \<in> set (LeafIDs c)" using r by (auto split: if_splits)
qed

lemma first_used_laws:
  assumes "list_all tree_ok cs"
  shows "first_used cs live history = None \<longleftrightarrow> filter live (concat (map LeafIDs cs)) = []"
    and "first_used cs live history = Some i \<Longrightarrow> i \<noteq> [] \<and> live i \<and> i \<in> set (concat (map LeafIDs cs))"
  using assms
proof (induction cs)
  case (Cons c cs)
  note c = mostRecentlyUsedLeaf_laws [of c live history]
  {
    case 1
    then show ?case using Cons(1) c(1) by (auto simp: Let_def)
  next
    case 2
    then show ?case using Cons(2) c(2) by (auto simp: Let_def split: if_splits)
  }
qed simp_all

lemma index_of_split: "x \<in> set xs \<Longrightarrow> xs = take (index_of xs x) xs @ x # drop (index_of xs x + 1) xs"
  by (induction xs) auto

subsection \<open>The next leaf in position\<close>

text \<open>The candidates around a leaf: below and above it in its column, then the columns to either side.\<close>

lemma position_split:
  assumes n: "tree_ok n" and ix: "ColumnOf n l = Some ix"
  defines "stack \<equiv> LeafIDs (Columns n ! ix)"
  defines "upper \<equiv> take (index_of stack l) stack" and "lower \<equiv> drop (index_of stack l + 1) stack"
    and "west \<equiv> concat (map LeafIDs (take ix (Columns n)))" and "east \<equiv> concat (map LeafIDs (drop (ix + 1) (Columns n)))"
  shows "LeafIDs n = west @ upper @ l # lower @ east" "stack = upper @ l # lower"
    "distinct (west @ upper @ l # lower @ east)"
proof -
  show s: "stack = upper @ l # lower"
    using index_of_split [of l stack] ColumnOf_Some [OF ix] by (simp add: upper_def lower_def stack_def)
  have "Columns n = take ix (Columns n) @ Columns n ! ix # drop (ix + 1) (Columns n)"
    using ColumnOf_Some [OF ix] by (simp add: id_take_nth_drop)
  then have "concat (map LeafIDs (Columns n)) = west @ stack @ east"
    unfolding west_def east_def stack_def by (metis concat.simps(2) concat_append list.simps(9) map_append)
  then show all: "LeafIDs n = west @ upper @ l # lower @ east" using Columns_ok [OF n] s by simp
  show "distinct (west @ upper @ l # lower @ east)" using distinct_LeafIDs [OF n] all by simp
qed

text \<open>
  When a leaf of a valid layout goes away, the leaf that takes its position is another live
  leaf of the layout whenever there is one, in the same column whenever there is one there, and
  nothing otherwise.
\<close>
theorem NextInPosition_correct:
  fixes live :: "string \<Rightarrow> bool" and history :: "string list"
  assumes "tree_ok n" "l \<in> set (LeafIDs n)"
  defines "others \<equiv> filter (\<lambda>i. live i \<and> i \<noteq> l) (LeafIDs n)" and "r \<equiv> NextInPosition n l live history"
  shows "if others = [] then r = []
    else r \<in> set others \<and> (SameColumn n l r \<or> list_all (\<lambda>i. \<not> SameColumn n l i) others)"
proof -
  obtain ix where ix: "ColumnOf n l = Some ix" using ColumnOf_None [OF assms(1)] assms(2) by auto
  let ?s = "LeafIDs (Columns n ! ix)"
  define upper lower where "upper = take (index_of ?s l) ?s" and "lower = drop (index_of ?s l + 1) ?s"
  define west east where "west = concat (map LeafIDs (take ix (Columns n)))"
    and "east = concat (map LeafIDs (drop (ix + 1) (Columns n)))"
  note parts = upper_def lower_def west_def east_def
  have all: "LeafIDs n = west @ upper @ l # lower @ east" and s: "?s = upper @ l # lower"
    and d: "distinct (west @ upper @ l # lower @ east)"
    using position_split [OF assms(1) ix] by (simp_all only: parts)
  have same: "SameColumn n l j \<longleftrightarrow> j \<in> set (upper @ l # lower)" for j
    using same_column_iff [OF assms(1) ix] s by simp
  have others: "set others = {i \<in> set west \<union> set upper \<union> set lower \<union> set east. live i}"
    using d by (auto simp: others_def all)
  have oks: "list_all tree_ok (drop (ix + 1) (Columns n))" "list_all tree_ok (rev (take ix (Columns n)))"
    using Columns_ok [OF assms(1)] by (auto simp: list_all_iff dest: in_set_dropD in_set_takeD)
  have rev_west: "set (concat (map LeafIDs (rev (take ix (Columns n))))) = set west" by (simp add: parts)
  have code: "r = (case find live lower of Some i \<Rightarrow> i | None \<Rightarrow> (case find live (rev upper) of Some i \<Rightarrow> i
      | None \<Rightarrow> (case first_used (drop (ix + 1) (Columns n)) live history of Some i \<Rightarrow> i
      | None \<Rightarrow> (case first_used (rev (take ix (Columns n))) live history of Some i \<Rightarrow> i | None \<Rightarrow> []))))"
    by (simp only: r_def NextInPosition_def ix Let_def parts option.case)
  show ?thesis
  proof (cases "find live lower")
    case (Some i)
    then have "i \<in> set lower" "live i" "r = i" using find_Some_iff_first code by fastforce+
    then show ?thesis using others same by auto
  next
    case None
    then have b: "\<not> live i" if "i \<in> set lower" for i using that by (simp add: find_None_iff_all)
    show ?thesis
    proof (cases "find live (rev upper)")
      case (Some i)
      then have "i \<in> set upper" "live i" "r = i" using find_Some_iff_first code None by fastforce+
      then show ?thesis using others same by auto
    next
      case none: None
      then have a: "\<not> live i" if "i \<in> set upper" for i using that by (simp add: find_None_iff_all)
      have far: "list_all (\<lambda>i. \<not> SameColumn n l i) others"
        using others a b d by (auto simp: same list_all_iff)
      show ?thesis
      proof (cases "first_used (drop (ix + 1) (Columns n)) live history")
        case (Some i)
        then have "r = i" "i \<in> set others"
          using first_used_laws(2) [OF oks(1) Some] code None none others by (simp_all add: parts)
        then show ?thesis using far by auto
      next
        case n1: None
        then have e: "\<not> live i" if "i \<in> set east" for i
          using that first_used_laws(1) [OF oks(1), of live history]
          unfolding east_def by (metis filter_empty_conv)
        show ?thesis
        proof (cases "first_used (rev (take ix (Columns n))) live history")
          case (Some i)
          have "i \<in> set west" "live i"
            using first_used_laws(2) [OF oks(2) Some] unfolding rev_west by blast+
          then have "r = i" "i \<in> set others"
            using Some code None none n1 others by simp_all
          then show ?thesis using far by auto
        next
          case n2: None
          then have "\<not> live i" if "i \<in> set west" for i
            using that first_used_laws(1) [OF oks(2), of live history] rev_west by (metis filter_empty_conv)
          then have "set others = {}" using others a b e by auto
          then show ?thesis using code None none n1 n2 by simp
        qed
      qed
    qed
  qed
qed

theorem NextInPosition_correct_witness:
  "NextInPosition demo_row ''a'' (\<lambda>i. i = ''t'') [] = ''t''"
  using NextInPosition_correct [OF demo_ok, of "''a''" "\<lambda>i. i = ''t''" "[]"] by (simp add: demo_leaves)

subsection \<open>Docking a tile\<close>

lemma HasPane_iff: "HasPane n i \<longleftrightarrow> (\<exists>v \<in> set (walk n). Type v = ''pane'' \<and> PaneID v = i)"
  by (auto simp: HasPane_def findNode_walk find_None_iff_all isPane_def)

lemma tile_node_laws:
  assumes "id_ok i" "TrimSpace k \<noteq> []"
  shows "tree_ok (tile_node i k p s w)" "LeafIDs (tile_node i k p s w) = [i]" "node_ids (tile_node i k p s w) = [i]"
  using assms by (simp_all add: leaf_tree_ok isLeaf_def node_ok_def LeafIDs_leaf leafIDOf_def
      node_ids_def walk_leaf node_id_def)

lemma id_ok_TrimSpace: "id_ok (TrimSpace s) \<longleftrightarrow> TrimSpace s \<noteq> []"
  by (simp add: id_ok_def)

lemma without_filter: "filter (\<lambda>j. j \<notin> set [i]) xs = without i xs"
  by (auto simp: without_def)

text \<open>What is left after an earlier copy of the tile was taken out, and the tile to place.\<close>

lemma tileToDock_laws:
  fixes tileID kind :: string
  defines "t \<equiv> TrimSpace tileID" and "k \<equiv> TrimSpace kind"
  assumes n: "tree_ok n" and split: "t \<in> set (LeafIDs n) \<or> t \<notin> set (node_ids n)"
    and dock: "tileToDock n anchorID tileID kind params sess = Some (cleaned, tile)"
  shows "joinable cleaned tile \<and> LeafIDs cleaned = without t (LeafIDs n) \<and> LeafIDs tile = [t] \<and>
    ids_of cleaned \<union> ids_of tile \<subseteq> insert t (ids_of n)"
proof -
  have g: "t \<noteq> []" "k \<noteq> []" using dock by (auto simp: tileToDock_def Let_def t_def k_def split: if_splits)
  note tl = tile_node_laws [of t k]
  have tk: "id_ok t" "TrimSpace k \<noteq> []" using g by (simp_all add: t_def k_def id_ok_TrimSpace)
  show ?thesis
  proof (cases "takeLeafFromColumn n t")
    case None
    then have tile: "cleaned = n" "\<exists>p s w. tile = tile_node t k p s w"
      using dock by (auto simp: tileToDock_def Let_def t_def k_def split: if_splits)
    have "t \<notin> set (LeafIDs n)" using None takeLeafFromColumn_laws(1) [OF n] by simp
    then show ?thesis
      using tile split n tl [OF tk] ids_of_tree [OF n] ids_of_tree [OF tl(1) [OF tk]]
      by (auto simp: joinable_def layout_ok_def)
  next
    case (Some rw)
    obtain rest w where rw: "takeLeafFromColumn n t = Some (rest, w)" using Some by (cases rw) simp
    have tile: "cleaned = rest" "\<exists>p s w. tile = tile_node t k p s w"
      using dock rw by (auto simp: tileToDock_def Let_def t_def k_def split: if_splits)
    have w: "taken n rest w" "LeafIDs w = [t]" "tree_ok w" using takeLeafFromColumn_laws(2) [OF n rw] by blast+
    have j: "joinable rest w" "LeafIDs rest = without t (LeafIDs n)" "ids_of rest \<union> ids_of w \<subseteq> ids_of n"
      using w(1) unfolding taken_def w(2) without_filter by blast+
    have "t \<in> ids_of w" using w(2,3) set_subseq [OF LeafIDs_subseq_node_ids, of w] by (simp add: ids_of_tree)
    then have "t \<notin> ids_of rest" using j(1) by (auto simp: joinable_def)
    then show ?thesis
      using j tile tl [OF tk] ids_of_tree [OF tl(1) [OF tk]] by (auto simp: joinable_def)
  qed
qed

text \<open>
  Docking a tile beside a leaf of a valid layout leaves every other leaf in place exactly once
  and the tile exactly once, wherever it was before, and the result is valid; it is refused when
  the anchor is gone, is the tile itself, or a pane has the tile's id.
\<close>
theorem DockTile_correct:
  fixes tileID anchorID :: string
  defines "t \<equiv> TrimSpace tileID" and "a \<equiv> TrimSpace anchorID"
  assumes "tree_ok n" "t \<in> set (LeafIDs n) \<or> t \<notin> set (node_ids n)"
    "id_ok splitID" "splitID \<notin> set (node_ids n)" "splitID \<noteq> t" "ratio \<noteq> NaN" "t \<noteq> []" "TrimSpace kind \<noteq> []"
  shows "case DockTile n anchorID direction before splitID tileID kind params sess ratio of
      None \<Rightarrow> a \<notin> set (LeafIDs n) \<or> a = t \<or> HasPane n t
    | Some n' \<Rightarrow> a \<in> set (LeafIDs n) \<and> a \<noteq> t \<and> \<not> HasPane n t \<and> Validate n' = Inr () \<and>
        mset (LeafIDs n') = mset (filter (\<lambda>j. j \<noteq> t) (LeafIDs n)) + {#t#}"
proof (cases "tileToDock n anchorID tileID kind params sess")
  case None
  then have "a = [] \<or> a = t \<or> HasPane n t"
    using assms by (auto simp: tileToDock_def Let_def split: if_splits option.splits)
  moreover have "[] \<notin> set (LeafIDs n)" using leaf_ids_ok [OF assms(3)] by (auto simp: id_ok_def)
  ultimately show ?thesis using None by (auto simp: DockTile_def)
next
  case (Some ct)
  obtain cleaned tile where dock: "tileToDock n anchorID tileID kind params sess = Some (cleaned, tile)"
    using Some by (cases ct) simp
  have g: "a \<noteq> []" "a \<noteq> t" "\<not> HasPane n t"
    using dock by (auto simp: tileToDock_def Let_def t_def a_def split: if_splits)
  have j: "joinable cleaned tile" "LeafIDs cleaned = without t (LeafIDs n)" "LeafIDs tile = [t]"
      "ids_of cleaned \<union> ids_of tile \<subseteq> insert t (ids_of n)"
    using tileToDock_laws [OF assms(3) assms(4) [unfolded t_def] dock] unfolding t_def by blast+
  let ?pl = "newPlacement direction before splitID ratio"
  have pl: "placement_ok ?pl" "pl_splitID ?pl \<notin> ids_of cleaned \<union> ids_of tile"
    using newPlacement_ok [of ratio splitID direction before] assms(3,5-8) j(4) ids_of_tree [of n] by auto
  note laws = insertBesideLeaf_laws [OF j(1) pl, of a]
  have code: "DockTile n anchorID direction before splitID tileID kind params sess ratio = insertBesideLeaf cleaned a ?pl tile"
    by (simp add: DockTile_def dock a_def)
  show ?thesis
  proof (cases "insertBesideLeaf cleaned a ?pl tile")
    case None
    then show ?thesis using code laws(1) g by (simp add: j(2))
  next
    case (Some n')
    have n': "tree_ok n'" "mset (LeafIDs n') = mset (LeafIDs cleaned) + mset (LeafIDs tile)"
      using laws(2) [OF Some] by (simp_all add: joined_def)
    have "a \<in> set (LeafIDs cleaned)" using laws(1) Some by simp
    then show ?thesis using Some code g n' Validate_tree_ok by (simp add: j(2,3) without_def)
  qed
qed

theorem DockTile_correct_witness:
  "\<exists>n'. DockTile demo_row ''a'' ''horizontal'' True ''s2'' ''t'' ''notes'' [] [] (Fin (1 / 2)) = Some n' \<and>
     Validate n' = Inr () \<and> mset (LeafIDs n') = {#''a'', ''t''#}"
proof -
  have "TrimSpace ''a'' = ''a''" "TrimSpace ''t'' = ''t''" using demo_ids by (simp_all add: id_ok_def)
  moreover have "\<not> HasPane demo_row ''t''" by (simp add: HasPane_iff demo_walk) (simp add: demo_row_def)
  ultimately show ?thesis
    using DockTile_correct [OF demo_ok, of "''t''" "''s2''" "Fin (1 / 2)" "''notes''" "''a''" "''horizontal''" True "[]" "[]"]
    by (simp add: demo_leaves demo_ids split: option.splits)
qed

end
