(* ===== verification/Who.thy ===== *)
theory Who
  imports Go_Strings
begin

text \<open>
  Who acts, who holds and who is written to: the references of \<open>internal/who\<close> and their text codec.
  A \<open>ref\<close> is a kind and an id; \<open>Party\<close>, \<open>Actor\<close> and \<open>Address\<close> wrap it, each parser accepting only
  the kinds its type may have. The zero value, kind \<open>nobody\<close>, is the reference of nobody.
\<close>

subsection \<open>References\<close>

datatype kind = nobody | session | member | tenderOf | user | attn | chief

record ref =
  kind :: kind
  ref_id :: string

datatype Party = Party (party: ref)
datatype Actor = Actor (actor: ref)
datatype Address = Address (address: ref)

datatype MemberKey = MemberKey (key_of: string)

definition zero_ref :: ref where
  "zero_ref = \<lparr>kind = nobody, ref_id = []\<rparr>"

definition is_lower :: "char \<Rightarrow> bool" where
  "is_lower c = (97 \<le> (of_char c :: nat) \<and> (of_char c :: nat) \<le> 122)"

definition is_digit :: "char \<Rightarrow> bool" where
  "is_digit c = (48 \<le> (of_char c :: nat) \<and> (of_char c :: nat) \<le> 57)"

definition memberKeyPattern :: "string \<Rightarrow> bool" where
  "memberKeyPattern s = (case s of
     [] \<Rightarrow> False
   | c # cs \<Rightarrow> is_lower c \<and> length cs \<le> 39 \<and> list_all (\<lambda>d. is_lower d \<or> is_digit d \<or> d = CHR ''-'') cs)"

datatype who_error = InvalidMemberKey string | InvalidReference string
  | NotAParty string | NotAnActor string | NotAnAddress string | ErrNobody

definition ParseMemberKey :: "string \<Rightarrow> who_error + MemberKey" where
  "ParseMemberKey stored =
     (if \<not> memberKeyPattern stored then Inl (InvalidMemberKey stored) else Inr (MemberKey stored))"

definition MemberKey_IsZero :: "MemberKey \<Rightarrow> bool" where
  "MemberKey_IsZero k = (key_of k = [])"

subsection \<open>Constructors and narrowing\<close>

definition Member :: "MemberKey \<Rightarrow> Party" where
  "Member k = Party \<lparr>kind = member, ref_id = key_of k\<rparr>"

definition User :: Actor where
  "User = Actor \<lparr>kind = user, ref_id = []\<rparr>"

definition Attn :: Actor where
  "Attn = Actor \<lparr>kind = attn, ref_id = []\<rparr>"

definition Session :: "string \<Rightarrow> Party" where
  "Session i = Party \<lparr>kind = session, ref_id = i\<rparr>"

definition ToSession :: "string \<Rightarrow> Address" where
  "ToSession i = Address \<lparr>kind = session, ref_id = i\<rparr>"

definition ToTenderOf :: "string \<Rightarrow> Address" where
  "ToTenderOf seedID = Address \<lparr>kind = tenderOf, ref_id = seedID\<rparr>"

definition ToChief :: "string \<Rightarrow> Address" where
  "ToChief profileID = Address \<lparr>kind = chief, ref_id = profileID\<rparr>"

definition Party_Actor :: "Party \<Rightarrow> Actor" where
  "Party_Actor p = Actor (party p)"

definition Party_Address :: "Party \<Rightarrow> Address" where
  "Party_Address p = Address (party p)"

definition Actor_Party :: "Actor \<Rightarrow> Party option" where
  "Actor_Party a = (if kind (actor a) = session \<or> kind (actor a) = member then Some (Party (actor a)) else None)"

definition Party_Session :: "Party \<Rightarrow> string option" where
  "Party_Session p = (if kind (party p) = session then Some (ref_id (party p)) else None)"

definition Party_Member :: "Party \<Rightarrow> MemberKey option" where
  "Party_Member p = (if kind (party p) = member then Some (MemberKey (ref_id (party p))) else None)"

definition Party_IsZero :: "Party \<Rightarrow> bool" where
  "Party_IsZero p = (kind (party p) = nobody)"

definition Address_Session :: "Address \<Rightarrow> string option" where
  "Address_Session a = (if kind (address a) = session then Some (ref_id (address a)) else None)"

definition Address_Member :: "Address \<Rightarrow> MemberKey option" where
  "Address_Member a = (if kind (address a) = member then Some (MemberKey (ref_id (address a))) else None)"

definition Address_TenderOf :: "Address \<Rightarrow> string option" where
  "Address_TenderOf a = (if kind (address a) = tenderOf then Some (ref_id (address a)) else None)"

definition Address_Chief :: "Address \<Rightarrow> string option" where
  "Address_Chief a = (if kind (address a) = chief then Some (ref_id (address a)) else None)"

definition zero_party :: Party where
  "zero_party = Party zero_ref"

subsection \<open>The text codec\<close>

fun Cut_at :: "char \<Rightarrow> string \<Rightarrow> (string \<times> string) option" where
  "Cut_at sep [] = None"
| "Cut_at sep (c # cs) =
     (if c = sep then Some ([], cs)
      else map_option (\<lambda>(prefix, rest). (c # prefix, rest)) (Cut_at sep cs))"

fun has_space :: "string \<Rightarrow> bool" where
  "has_space [] = False"
| "has_space (c # cs) = (strip_first space_runes (c # cs) \<noteq> None \<or> has_space cs)"

definition parse :: "string \<Rightarrow> who_error + ref" where
  "parse txt =
     (if txt = ''user'' then Inr \<lparr>kind = user, ref_id = []\<rparr>
      else if txt = ''attn'' then Inr \<lparr>kind = attn, ref_id = []\<rparr>
      else (case Cut_at (CHR '':'') txt of
          None \<Rightarrow> Inl (InvalidReference txt)
        | Some (prefix, i) \<Rightarrow>
            if i = [] \<or> has_space i then Inl (InvalidReference txt)
            else if prefix = ''session'' then Inr \<lparr>kind = session, ref_id = i\<rparr>
            else if prefix = ''member'' then
              bind_result (ParseMemberKey i) (\<lambda>key. Inr \<lparr>kind = member, ref_id = key_of key\<rparr>)
            else if prefix = ''seed'' then Inr \<lparr>kind = tenderOf, ref_id = i\<rparr>
            else if prefix = ''chief'' then Inr \<lparr>kind = chief, ref_id = i\<rparr>
            else Inl (InvalidReference txt)))"

definition ParseParty :: "string \<Rightarrow> who_error + Party" where
  "ParseParty txt =
     bind_result (parse txt) (\<lambda>r.
       if kind r \<noteq> session \<and> kind r \<noteq> member then Inl (NotAParty txt) else Inr (Party r))"

definition ParseActor :: "string \<Rightarrow> who_error + Actor" where
  "ParseActor txt =
     bind_result (parse txt) (\<lambda>r.
       if kind r = tenderOf \<or> kind r = chief then Inl (NotAnActor txt) else Inr (Actor r))"

definition ParseAddress :: "string \<Rightarrow> who_error + Address" where
  "ParseAddress txt =
     bind_result (parse txt) (\<lambda>r.
       if kind r = user \<or> kind r = attn then Inl (NotAnAddress txt) else Inr (Address r))"

definition ref_String :: "ref \<Rightarrow> string" where
  "ref_String r = (case kind r of
     session \<Rightarrow> ''session:'' @ ref_id r
   | member \<Rightarrow> ''member:'' @ ref_id r
   | tenderOf \<Rightarrow> ''seed:'' @ ref_id r
   | chief \<Rightarrow> ''chief:'' @ ref_id r
   | user \<Rightarrow> ''user''
   | attn \<Rightarrow> ''attn''
   | nobody \<Rightarrow> [])"

definition encode :: "ref \<Rightarrow> who_error + string" where
  "encode r =
     (if kind r = nobody \<or> kind r \<noteq> user \<and> kind r \<noteq> attn \<and> ref_id r = [] then Inl ErrNobody
      else bind_result (parse (ref_String r)) (\<lambda>_. Inr (ref_String r)))"

text \<open>\<open>UnmarshalText\<close> leaves the receiver unchanged on an error: the result is the new value.\<close>

definition Party_Unmarshal :: "string \<Rightarrow> who_error + Party" where
  "Party_Unmarshal txt = (if txt = [] then Inr (Party zero_ref) else ParseParty txt)"

definition Actor_Unmarshal :: "string \<Rightarrow> who_error + Actor" where
  "Actor_Unmarshal txt = (if txt = [] then Inr (Actor zero_ref) else ParseActor txt)"

definition Address_Unmarshal :: "string \<Rightarrow> who_error + Address" where
  "Address_Unmarshal txt = (if txt = [] then Inr (Address zero_ref) else ParseAddress txt)"

subsection \<open>Laws\<close>

lemma Cut_at_prefix [simp]: "sep \<notin> set p \<Longrightarrow> Cut_at sep (p @ sep # r) = Some (p, r)"
  by (induction p) auto

lemma Cut_at_SomeD: "Cut_at sep s = Some (p, r) \<Longrightarrow> s = p @ sep # r \<and> sep \<notin> set p"
proof (induction s arbitrary: p)
  case (Cons c s)
  then show ?case by (cases "c = sep") auto
qed simp

lemma parse_ref_String: "parse txt = Inr r \<Longrightarrow> ref_String r = txt"
  by (auto simp: parse_def ref_String_def ParseMemberKey_def bind_result_eq_Inr
      split: if_splits option.splits dest!: Cut_at_SomeD)

lemma parse_kind: "parse txt = Inr r \<Longrightarrow> kind r \<noteq> nobody \<and> (kind r \<noteq> user \<and> kind r \<noteq> attn \<longrightarrow> ref_id r \<noteq> [])"
  by (auto simp: parse_def ParseMemberKey_def bind_result_eq_Inr split: if_splits option.splits)

lemma ref_String_parse:
  assumes "kind r \<noteq> nobody" "kind r \<noteq> user" "kind r \<noteq> attn" "parse (ref_String r) = Inr r'"
  shows "r' = r"
proof -
  define p where "p = (case kind r of session \<Rightarrow> ''session'' | member \<Rightarrow> ''member'' | tenderOf \<Rightarrow> ''seed'' | _ \<Rightarrow> ''chief'')"
  have s: "ref_String r = p @ CHR '':'' # ref_id r" "CHR '':'' \<notin> set p"
    using assms(1-3) by (simp_all add: p_def ref_String_def split: kind.splits)
  have ne: "ref_String r \<noteq> ''user''" "ref_String r \<noteq> ''attn''"
    using assms(1-3) by (simp_all add: ref_String_def split: kind.splits)
  have "Cut_at (CHR '':'') (ref_String r) = Some (p, ref_id r)" using s by simp
  then have "r' = \<lparr>kind = kind r, ref_id = ref_id r\<rparr>"
    using assms ne by (auto simp: parse_def p_def ParseMemberKey_def bind_result_eq_Inr split: if_splits kind.splits)
  then show ?thesis by simp
qed

text \<open>
  C29. The text of a reference and the reference determine each other: a text that parses is the
  text of what it parses to, and a reference that can be encoded (its constructors give users and
  attn no id) is what its encoding parses to. Nobody has no encoding.
\<close>
theorem who_codec_roundtrip:
  "(case parse txt of Inr r' \<Rightarrow> ref_String r' = txt \<and> encode r' = Inr txt | Inl _ \<Rightarrow> True) \<and>
   (case encode r of
      Inr enc \<Rightarrow> kind r \<noteq> nobody \<and> enc = ref_String r \<and>
        (if kind r = user \<or> kind r = attn then parse enc = Inr (r\<lparr>ref_id := []\<rparr>) else parse enc = Inr r)
    | Inl _ \<Rightarrow> True)"
proof
  show "case parse txt of Inr r' \<Rightarrow> ref_String r' = txt \<and> encode r' = Inr txt | Inl _ \<Rightarrow> True"
  proof (cases "parse txt")
    case (Inr r')
    then show ?thesis using parse_ref_String [OF Inr] parse_kind [OF Inr] by (auto simp: encode_def)
  qed simp
  show "case encode r of
      Inr enc \<Rightarrow> kind r \<noteq> nobody \<and> enc = ref_String r \<and>
        (if kind r = user \<or> kind r = attn then parse enc = Inr (r\<lparr>ref_id := []\<rparr>) else parse enc = Inr r)
    | Inl _ \<Rightarrow> True"
  proof (cases "kind r = user \<or> kind r = attn")
    case True
    then have "parse (ref_String r) = Inr (r\<lparr>ref_id := []\<rparr>)" by (auto simp: parse_def ref_String_def)
    then show ?thesis using True by (auto simp: encode_def)
  next
    case False
    then show ?thesis using ref_String_parse [of r]
      by (cases "parse (ref_String r)") (auto simp: encode_def)
  qed
qed

end
