(* ===== verification/Garden_Seed.thy ===== *)
theory Garden_Seed
  imports Who Go_Time
begin

text \<open>
  Seeds and notes of \<open>internal/garden\<close> (\<open>garden.go\<close>): the data, the validators of what a user may
  plant, and the step slug a title is addressed by. A refusal is its reason, a tag for the message
  and the strings the message is made from; the wording is not modelled. Maps of the code that are
  only looked up are maps here, so a nil and an empty map are the same.
\<close>

subsection \<open>Refusals\<close>

datatype Refusal = RefusalInvalidInput | RefusalLimit | RefusalWrongState | RefusalNotTender
  | RefusalNotFound | RefusalConflict | RefusalUnclassified

datatype refusal = Refuse (reason_of: Refusal) (tag_of: string) (args_of: "string list")

subsection \<open>Data\<close>

definition StatusPlanted :: string where "StatusPlanted = ''planted''"
definition StatusGrowing :: string where "StatusGrowing = ''growing''"
definition StatusHarvested :: string where "StatusHarvested = ''harvested''"
definition StatusWithered :: string where "StatusWithered = ''withered''"
definition StatusParked :: string where "StatusParked = ''parked''"

lemmas status_defs = StatusPlanted_def StatusGrowing_def StatusHarvested_def StatusWithered_def StatusParked_def

record Edge =
  edge_Kind :: string
  edge_To :: string

record Var =
  var_Name :: string
  var_Description :: string
  var_Required :: bool
  var_Default :: string
  var_Pattern :: string
  var_Enum :: "string list"

record HarvestCondition =
  hc_Reason :: string
  hc_PullRequest :: string
  hc_URL :: string
  hc_SetAt :: string
  hc_SetBy :: Actor

record Authorization =
  au_Text :: string
  au_SetBy :: Actor
  au_SetAt :: string
  au_TypedUpdate :: string
  au_TenderLastReceived :: string

record Check =
  chk_ID :: string
  chk_Text :: string
  chk_Shared :: bool
  chk_Removed :: bool

record CheckEvidence =
  ev_Artifact :: string
  ev_URL :: string
  ev_Size :: int
  ev_ModifiedAt :: string

record CheckReport =
  rep_Summary :: string
  rep_Evidence :: "CheckEvidence list"
  rep_Commit :: string
  rep_Detail :: bool
  rep_By :: Actor
  rep_At :: string

record CheckVerdict =
  ver_Confirmed :: bool
  ver_Reason :: string
  ver_By :: Actor
  ver_At :: string

record CheckResult =
  res_Report :: "CheckReport option"
  res_Verdict :: "CheckVerdict option"

record Seed =
  ID :: string
  ProfileID :: string
  Title :: string
  Body :: string
  Status :: string
  StepSlugField :: string
  Planter :: Actor
  Tender :: Party
  LastExecutionID :: string
  StateChangedAt :: string
  Edges :: "Edge list"
  Template :: bool
  Gate :: bool
  Vars :: "Var list"
  SeedReason :: string
  HarvestWhen :: "HarvestCondition option"
  HarvestWhenPullRequest :: string
  SeedAuthorization :: "Authorization option"
  Checks :: "Check list"
  CheckResults :: "string \<rightharpoonup> CheckResult"

definition Words :: "Authorization option \<Rightarrow> string" where
  "Words a = (case a of None \<Rightarrow> [] | Some a \<Rightarrow> au_Text a)"

subsection \<open>Validators\<close>

record Standby =
  sb_Note :: string
  sb_SetAt :: time
  sb_SetBy :: Actor

record Reminder =
  rem_At :: time
  rem_Message :: string
  rem_SetAt :: time
  rem_SetBy :: Actor

definition MaxStandbyNoteBytes :: nat where "MaxStandbyNoteBytes = 8 * 1024"
definition MaxTitleChars :: nat where "MaxTitleChars = 400"
definition MaxBodyBytes :: nat where "MaxBodyBytes = 1048576"
definition MaxSlugChars :: nat where "MaxSlugChars = 100"
definition MaxSlugWords :: nat where "MaxSlugWords = 6"

definition ValidateStandby :: "Standby \<Rightarrow> string \<Rightarrow> refusal + unit" where
  "ValidateStandby s seedID =
     (let note = TrimSpace (sb_Note s) in
      if note = [] then Inl (Refuse RefusalInvalidInput ''standby needs a note'' [seedID])
      else if length note > MaxStandbyNoteBytes then Inl (Refuse RefusalLimit ''standby note'' [])
      else Inr ())"

definition ValidateReminder :: "Reminder \<Rightarrow> string \<Rightarrow> refusal + unit" where
  "ValidateReminder r seedID =
     (if TrimSpace (rem_Message r) = [] then Inl (Refuse RefusalInvalidInput ''reminder needs a message'' [seedID])
      else if is_zero (rem_At r) then Inl (Refuse RefusalInvalidInput ''reminder needs a time'' [seedID])
      else Inr ())"

definition ValidateHarvestCondition :: "HarvestCondition \<Rightarrow> refusal + unit" where
  "ValidateHarvestCondition c =
     (if TrimSpace (hc_PullRequest c) = [] then Inl (Refuse RefusalInvalidInput ''needs the pull request'' [])
      else if TrimSpace (hc_URL c) = [] then Inl (Refuse RefusalInvalidInput ''needs the url'' [])
      else Inr ())"

definition idPrefix :: string where "idPrefix = ''s-''"
definition idAlphabet :: string where "idAlphabet = ''0123456789abcdefghjkmnpqrstvwxyz''"
definition idBodyLen :: nat where "idBodyLen = 6"

definition ValidateID :: "string \<Rightarrow> refusal + unit" where
  "ValidateID i = (case strip_prefix idPrefix i of
     None \<Rightarrow> Inl (Refuse RefusalInvalidInput ''not a seed id'' [i])
   | Some body \<Rightarrow>
       if length body \<noteq> idBodyLen then Inl (Refuse RefusalInvalidInput ''not a seed id'' [i])
       else (case find (\<lambda>r. \<not> (length r = 1 \<and> hd r \<in> set idAlphabet)) (runes body) of
           Some r \<Rightarrow> Inl (Refuse RefusalInvalidInput ''not a seed id character'' [i, r])
         | None \<Rightarrow> Inr ()))"

definition ValidateBody :: "string \<Rightarrow> refusal + unit" where
  "ValidateBody body =
     (if length body > MaxBodyBytes then Inl (Refuse RefusalLimit ''max_body_bytes'' []) else Inr ())"

definition ValidatePlant :: "string \<Rightarrow> string \<Rightarrow> refusal + unit" where
  "ValidatePlant title body =
     (let trimmed = TrimSpace title in
      if trimmed = [] then Inl (Refuse RefusalInvalidInput ''a seed needs a title'' [])
      else if RuneCount trimmed > MaxTitleChars then Inl (Refuse RefusalLimit ''title'' [])
      else ValidateBody body)"

subsection \<open>Step slugs\<close>

definition slugStopWords :: "string list" where
  "slugStopWords = [''a'', ''an'', ''the'', ''of'', ''in'', ''on'', ''at'', ''to'', ''for'', ''with'', ''by'',
     ''from'', ''and'', ''or'', ''as'', ''is'', ''into'', ''its'', ''it'']"

definition slug_char :: "char \<Rightarrow> bool" where
  "slug_char c = (is_lower c \<or> is_digit c)"

text \<open>The loop of \<open>slugWords\<close>: \<open>b\<close> is the builder, flushed at every other character and at the end.\<close>

fun slug_scan :: "string \<Rightarrow> string \<Rightarrow> string list" where
  "slug_scan b [] = (if b \<noteq> [] then [b] else [])"
| "slug_scan b (r # rs) =
     (if slug_char r then slug_scan (b @ [r]) rs
      else (if b \<noteq> [] then [b] else []) @ slug_scan [] rs)"

definition slugWords :: "string \<Rightarrow> string list" where
  "slugWords title = slug_scan [] (ToLower (TrimSpace title))"

fun trim_dashes_left :: "string \<Rightarrow> string" where
  "trim_dashes_left [] = []"
| "trim_dashes_left (c # cs) = (if c = CHR ''-'' then trim_dashes_left cs else c # cs)"

definition trim_dashes :: "string \<Rightarrow> string" where
  "trim_dashes s = rev (trim_dashes_left (rev (trim_dashes_left s)))"

definition slug_kept :: "string \<Rightarrow> string list" where
  "slug_kept title =
     (let words = slugWords title;
          kept = filter (\<lambda>w. w \<notin> set slugStopWords) words
      in take MaxSlugWords (if kept = [] then words else kept))"

definition StepSlug :: "string \<Rightarrow> string" where
  "StepSlug title =
     (let slug = join_with ''-'' (slug_kept title);
          slug = (if length slug > MaxSlugChars then trim_dashes (take MaxSlugChars slug) else slug)
      in if slug = [] then ''seed'' else slug)"

text \<open>\<open>Encode\<close> without the marshalling: the stored copy of the pull request follows the condition.\<close>

definition Seed_Encode_body :: "Seed \<Rightarrow> Seed" where
  "Seed_Encode_body s =
     s\<lparr>HarvestWhenPullRequest := (case HarvestWhen s of None \<Rightarrow> [] | Some c \<Rightarrow> hc_PullRequest c)\<rparr>"

subsection \<open>Laws of slugs\<close>

lemma slug_char_graphic: "slug_char c \<Longrightarrow> graphic c"
  by (auto simp: slug_char_def graphic_def is_lower_def is_digit_def)

lemma slug_char_not_dash [simp]: "\<not> slug_char (CHR ''-'')"
  by (simp add: slug_char_def is_lower_def is_digit_def)

definition slug_word :: "string \<Rightarrow> bool" where
  "slug_word w \<longleftrightarrow> w \<noteq> [] \<and> list_all slug_char w"

lemma slug_scan_words: "list_all slug_char b \<Longrightarrow> list_all slug_word (slug_scan b s)"
  by (induction b s rule: slug_scan.induct) (auto simp: slug_word_def)

lemma slug_scan_append: "list_all slug_char w \<Longrightarrow> slug_scan b (w @ s) = slug_scan (b @ w) s"
  by (induction w arbitrary: b) auto

lemma slug_scan_join:
  "list_all slug_word ws \<Longrightarrow> slug_scan [] (join_with ''-'' ws) = ws"
proof (induction ws rule: induct_list012)
  case (2 w)
  then show ?case using slug_scan_append [of w "[]" "[]"] by (simp add: slug_word_def)
next
  case (3 w v ws)
  then show ?case using slug_scan_append [of w "[]" "CHR ''-'' # join_with ''-'' (v # ws)"]
    by (simp add: slug_word_def)
qed simp

lemma slug_kept_words: "list_all slug_word (slug_kept title)"
proof -
  have "list_all slug_word (slugWords title)" unfolding slugWords_def by (rule slug_scan_words) simp
  then show ?thesis by (auto simp: slug_kept_def Let_def list_all_iff dest: in_set_takeD)
qed

lemma join_slug_chars:
  "list_all slug_word ws \<Longrightarrow> list_all (\<lambda>c. slug_char c \<or> c = CHR ''-'') (join_with ''-'' ws)"
  by (induction ws rule: induct_list012) (auto simp: slug_word_def list_all_iff)

lemma join_ends:
  "list_all slug_word ws \<Longrightarrow> ws \<noteq> [] \<Longrightarrow>
     join_with ''-'' ws \<noteq> [] \<and> slug_char (hd (join_with ''-'' ws)) \<and> slug_char (last (join_with ''-'' ws))"
proof (induction ws rule: induct_list012)
  case (2 w)
  then show ?case using hd_in_set [of w] last_in_set [of w] by (auto simp: slug_word_def list_all_iff)
next
  case (3 w v ws)
  then show ?case by (cases w) (auto simp: slug_word_def)
qed simp

lemma trim_dashes_left_laws:
  "length (trim_dashes_left s) \<le> length s" "set (trim_dashes_left s) \<subseteq> set s"
  "trim_dashes_left s = [] \<or> hd (trim_dashes_left s) \<noteq> CHR ''-''"
  "\<exists>u. s = u @ trim_dashes_left s"
  by (induction s) (auto intro: exI [of _ "[]"], metis append_Cons)

lemma trim_dashes_left_id: "s = [] \<or> hd s \<noteq> CHR ''-'' \<Longrightarrow> trim_dashes_left s = s"
  by (cases s) auto

lemma last_trim_left: "trim_dashes_left s \<noteq> [] \<Longrightarrow> last (trim_dashes_left s) = last s"
  using trim_dashes_left_laws(4) [of s] by (metis last_append)

text \<open>Trimming the end leaves the front alone.\<close>

lemma trim_dashes_laws:
  "length (trim_dashes s) \<le> length s" "set (trim_dashes s) \<subseteq> set s"
  "trim_dashes s = [] \<or> hd (trim_dashes s) \<noteq> CHR ''-'' \<and> last (trim_dashes s) \<noteq> CHR ''-''"
proof -
  let ?l = "trim_dashes_left s"
  show "length (trim_dashes s) \<le> length s"
    using trim_dashes_left_laws(1) [of "rev ?l"] trim_dashes_left_laws(1) [of s] by (simp add: trim_dashes_def)
  show "set (trim_dashes s) \<subseteq> set s"
    using trim_dashes_left_laws(2) [of "rev ?l"] trim_dashes_left_laws(2) [of s] by (auto simp: trim_dashes_def)
  show "trim_dashes s = [] \<or> hd (trim_dashes s) \<noteq> CHR ''-'' \<and> last (trim_dashes s) \<noteq> CHR ''-''"
  proof (cases "trim_dashes s = []")
    case False
    then have ne: "trim_dashes_left (rev ?l) \<noteq> []" by (simp add: trim_dashes_def)
    then have "last (trim_dashes_left (rev ?l)) = hd ?l" using last_trim_left [OF ne] by (simp add: last_rev)
    moreover have "?l \<noteq> []" using ne by auto
    ultimately show ?thesis
      using ne trim_dashes_left_laws(3) [of s] trim_dashes_left_laws(3) [of "rev ?l"]
      by (simp add: trim_dashes_def hd_rev last_rev)
  qed simp
qed

lemma ascii_no_special:
  assumes "(of_char c :: nat) < 128"
  shows "\<not> HasPrefix (c # s) kelvin_sign" "\<not> HasPrefix (c # s) dotted_capital_i"
  using assms by (auto simp: HasPrefix_def kelvin_sign_def dotted_capital_i_def)

lemma ToLower_keep:
  "list_all (\<lambda>c. slug_char c \<or> c = CHR ''-'') u \<Longrightarrow> ToLower (u @ s) = u @ ToLower s"
proof (induction u)
  case (Cons c u)
  have c: "slug_char c \<or> c = CHR ''-''" using Cons by simp
  then have n: "(of_char c :: nat) < 128" "\<not> (65 \<le> (of_char c :: nat) \<and> (of_char c :: nat) \<le> 90)"
    by (auto simp: slug_char_def is_lower_def is_digit_def)
  have "\<not> HasPrefix (c # u @ s) kelvin_sign" "\<not> HasPrefix (c # u @ s) dotted_capital_i"
    using n(1) by (simp_all add: ascii_no_special)
  moreover have "lower_byte c = c" using n(2) by (auto simp: lower_byte_def Let_def)
  ultimately show ?case using Cons by simp
qed simp

lemma ToLower_ascii: "list_all (\<lambda>c. slug_char c \<or> c = CHR ''-'') s \<Longrightarrow> ToLower s = s"
  using ToLower_keep [of s "[]"] by simp

definition slug_ok :: "string \<Rightarrow> bool" where
  "slug_ok s \<longleftrightarrow> s \<noteq> [] \<and> length s \<le> MaxSlugChars \<and>
     list_all (\<lambda>c. is_lower c \<or> is_digit c \<or> c = CHR ''-'') s \<and> hd s \<noteq> CHR ''-'' \<and> last s \<noteq> CHR ''-''"

text \<open>
  Every title has a step slug: between one and a hundred lower-case letters, digits and
  dashes, with no dash at either end.
\<close>
theorem StepSlug_wellformed: "slug_ok (StepSlug title)"
proof -
  let ?j = "join_with ''-'' (slug_kept title)"
  let ?s = "if length ?j > MaxSlugChars then trim_dashes (take MaxSlugChars ?j) else ?j"
  have chars: "list_all (\<lambda>c. is_lower c \<or> is_digit c \<or> c = CHR ''-'') ?j"
    using join_slug_chars [OF slug_kept_words] by (simp add: slug_char_def disj_assoc)
  have ends: "?j = [] \<or> hd ?j \<noteq> CHR ''-'' \<and> last ?j \<noteq> CHR ''-''"
    using join_ends [OF slug_kept_words, of title] slug_char_not_dash by (cases "slug_kept title = []") auto
  have "list_all (\<lambda>c. is_lower c \<or> is_digit c \<or> c = CHR ''-'') ?s"
    using chars trim_dashes_laws(2) [of "take MaxSlugChars ?j"] by (auto simp: list_all_iff dest!: in_set_takeD subsetD)
  moreover have "?s = [] \<or> hd ?s \<noteq> CHR ''-'' \<and> last ?s \<noteq> CHR ''-''"
    using ends trim_dashes_laws(3) [of "take MaxSlugChars ?j"] by simp
  moreover have "length ?s \<le> MaxSlugChars"
    using trim_dashes_laws(1) [of "take MaxSlugChars ?j"] by simp
  moreover have "slug_ok ''seed''"
    by (simp add: slug_ok_def MaxSlugChars_def is_lower_def)
  ultimately show ?thesis by (auto simp: StepSlug_def Let_def slug_ok_def)
qed

lemma TrimSpace_join:
  assumes "list_all slug_word ws"
  shows "TrimSpace (join_with ''-'' ws) = join_with ''-'' ws"
  using join_ends [OF assms] slug_char_graphic by (cases "ws = []") (auto intro!: TrimSpace_graphic)

lemma slugWords_join:
  assumes "list_all slug_word ws"
  shows "slugWords (join_with ''-'' ws) = ws"
  using assms by (simp add: slugWords_def TrimSpace_join ToLower_ascii join_slug_chars slug_scan_join)

lemma slug_kept_idem: "slug_kept (join_with ''-'' (slug_kept title)) = slug_kept title"
proof -
  let ?k = "slug_kept title"
  have w: "slugWords (join_with ''-'' ?k) = ?k" by (rule slugWords_join [OF slug_kept_words])
  have len: "length ?k \<le> MaxSlugWords" by (simp add: slug_kept_def Let_def)
  have "filter (\<lambda>w. w \<notin> set slugStopWords) ?k = ?k \<or> filter (\<lambda>w. w \<notin> set slugStopWords) ?k = []"
    by (auto simp: slug_kept_def Let_def filter_empty_conv filter_id_conv dest: in_set_takeD)
  then show ?thesis using w len by (auto simp: slug_kept_def [of "join_with ''-'' ?k"] Let_def)
qed

text \<open>
  A step slug that was not cut short is its own slug, so a sibling may be named by its title or by
  its slug.
\<close>

lemma StepSlug_idempotent:
  assumes "length (join_with ''-'' (slug_kept title)) \<le> MaxSlugChars"
  shows "StepSlug (StepSlug title) = StepSlug title"
proof (cases "join_with ''-'' (slug_kept title) = []")
  case True
  then have "StepSlug title = ''seed''" by (simp add: StepSlug_def)
  moreover have "slugWords ''seed'' = [''seed'']"
    using slugWords_join [of "[''seed'']"] by (simp add: slug_word_def slug_char_def is_lower_def)
  ultimately show ?thesis
    by (simp add: StepSlug_def [of "''seed''"] slug_kept_def slugStopWords_def MaxSlugWords_def MaxSlugChars_def Let_def)
next
  case False
  then have s: "StepSlug title = join_with ''-'' (slug_kept title)" using assms by (simp add: StepSlug_def)
  show ?thesis unfolding s using assms False by (simp add: StepSlug_def slug_kept_idem)
qed

end
