(* ===== verification/Garden_Lifecycle.thy ===== *)
theory Garden_Lifecycle
  imports Garden_Seed
begin

text \<open>
  The life of a seed (\<open>lifecycle.go\<close>): the table of moves, \<open>Transition\<close> with every guard in the
  order of the code, and the note kinds. A verb is the string it is in the code, so that the refusal
  of an unknown one is modelled. \<open>Standing\<close> is the interface the daemon implements: whose claims
  hold, who oversees whom.
\<close>

subsection \<open>Moves\<close>

definition VerbTend :: string where "VerbTend = ''tend''"
definition VerbPark :: string where "VerbPark = ''park''"
definition VerbHarvest :: string where "VerbHarvest = ''harvest''"
definition VerbWither :: string where "VerbWither = ''wither''"
definition VerbReplant :: string where "VerbReplant = ''replant''"

lemmas verb_defs = VerbTend_def VerbPark_def VerbHarvest_def VerbWither_def VerbReplant_def

definition Verbs :: "string list" where
  "Verbs = [VerbTend, VerbPark, VerbHarvest, VerbWither, VerbReplant]"

record Ask =
  ask_Actor :: Actor
  ask_Claimant :: Party
  ask_Reason :: string
  ask_Force :: bool
  ask_CauseSession :: string
  ask_DirectlyNotifiedSession :: string
  ask_SuppressNotification :: bool

record move =
  mv_to :: string
  mv_from :: "string list"
  mv_claims :: bool
  mv_needsReason :: bool
  mv_keepsReason :: bool

definition moves :: "string \<rightharpoonup> move" where
  "moves =
     [VerbTend \<mapsto> \<lparr>mv_to = StatusGrowing, mv_from = [StatusPlanted, StatusParked, StatusGrowing],
        mv_claims = True, mv_needsReason = False, mv_keepsReason = False\<rparr>,
      VerbPark \<mapsto> \<lparr>mv_to = StatusParked, mv_from = [StatusPlanted, StatusGrowing],
        mv_claims = False, mv_needsReason = False, mv_keepsReason = False\<rparr>,
      VerbHarvest \<mapsto> \<lparr>mv_to = StatusHarvested, mv_from = [StatusPlanted, StatusGrowing, StatusParked],
        mv_claims = False, mv_needsReason = True, mv_keepsReason = True\<rparr>,
      VerbWither \<mapsto> \<lparr>mv_to = StatusWithered, mv_from = [StatusPlanted, StatusGrowing, StatusParked],
        mv_claims = False, mv_needsReason = False, mv_keepsReason = True\<rparr>,
      VerbReplant \<mapsto> \<lparr>mv_to = StatusPlanted,
        mv_from = [StatusHarvested, StatusWithered, StatusParked, StatusGrowing],
        mv_claims = False, mv_needsReason = False, mv_keepsReason = False\<rparr>]"

definition Closed :: "string \<Rightarrow> bool" where
  "Closed status = (status = StatusHarvested \<or> status = StatusWithered)"

definition ParseVerb :: "string \<Rightarrow> refusal + string" where
  "ParseVerb raw =
     (let verb = TrimSpace (ToLower raw) in
      if moves verb \<noteq> None then Inr verb
      else Inl (Refuse RefusalInvalidInput ''not something a seed does'' (raw # Verbs)))"

record Standing =
  ClaimHolds :: "Seed \<Rightarrow> bool"
  Oversees :: "Actor \<Rightarrow> Party \<Rightarrow> bool"
  Name :: "Party \<Rightarrow> string"

record Outcome =
  Displaced :: "Party option"
  By :: string
  OutSeed :: Seed
  Moved :: bool

definition MaxNoteBytes :: nat where "MaxNoteBytes = 32 * 1024"
definition MaxReasonChars :: nat where "MaxReasonChars = 400"

definition ValidateReason :: "string \<Rightarrow> string \<Rightarrow> refusal + unit" where
  "ValidateReason reason seedID =
     (if RuneCount (TrimSpace reason) > MaxReasonChars then Inl (Refuse RefusalLimit ''reason'' [seedID])
      else Inr ())"

definition CheckPlotClose :: "Seed \<Rightarrow> Seed list \<Rightarrow> refusal + unit" where
  "CheckPlotClose seed openChildren =
     (if openChildren \<noteq> []
      then Inl (Refuse RefusalWrongState ''open child seeds''
             (ID seed # map (\<lambda>child. ID child @ '' '' @ Status child) openChildren))
      else Inr ())"

definition refuseTakeover :: "Seed \<Rightarrow> string \<Rightarrow> refusal" where
  "refuseTakeover seed tender = Refuse RefusalNotTender ''is being tended by'' [ID seed, tender]"

definition refuseState :: "Seed \<Rightarrow> string \<Rightarrow> refusal" where
  "refuseState seed verb =
     (if Closed (Status seed)
      then Refuse RefusalWrongState ''a closed seed reopens before it moves again'' [ID seed, Status seed, verb]
      else Refuse RefusalWrongState ''cannot be moved from there'' [ID seed, Status seed, verb])"

text \<open>The switch on a claim held by somebody else: who is displaced and by what means, or the refusal.\<close>

definition takeover :: "Seed \<Rightarrow> Ask \<Rightarrow> Standing \<Rightarrow> refusal + (Party option \<times> string)" where
  "takeover seed ask standing =
     (let held = Tender seed in
      if ClaimHolds standing seed \<and> held \<noteq> ask_Claimant ask \<and> Party_Actor held \<noteq> ask_Actor ask then
        (if ask_Force ask then Inr (Some held, ''force'')
         else if Oversees standing (ask_Actor ask) held then Inr (Some held, ''standing'')
         else Inl (refuseTakeover seed (Name standing held)))
      else Inr (None, ''tender''))"

definition moved_seed :: "Seed \<Rightarrow> string \<Rightarrow> move \<Rightarrow> Ask \<Rightarrow> string \<Rightarrow> Seed" where
  "moved_seed seed verb rule ask reason =
     (let next = seed\<lparr>Status := mv_to rule\<rparr>;
          next = next\<lparr>Tender := (if mv_claims rule then ask_Claimant ask else zero_party)\<rparr>;
          next = (if mv_keepsReason rule then next\<lparr>SeedReason := reason\<rparr>
                  else if verb = VerbReplant then next\<lparr>SeedReason := []\<rparr>
                  else next)
      in if Closed (Status next) then next\<lparr>HarvestWhen := None\<rparr> else next)"

definition Transition :: "Seed \<Rightarrow> string \<Rightarrow> Ask \<Rightarrow> Standing \<Rightarrow> Seed list \<Rightarrow> refusal + Outcome" where
  "Transition seed verb ask standing openChildren =
     (case moves verb of
        None \<Rightarrow> Inl (Refuse RefusalInvalidInput ''not something a seed does'' [verb])
      | Some rule \<Rightarrow>
          (let reason = TrimSpace (ask_Reason ask) in
           if Status seed \<noteq> mv_to rule \<and> Status seed \<notin> set (mv_from rule) then Inl (refuseState seed verb)
           else bind_result
             (if Closed (mv_to rule) \<and> Status seed \<noteq> mv_to rule then CheckPlotClose seed openChildren else Inr ())
             (\<lambda>_.
               if mv_claims rule \<and> Party_IsZero (ask_Claimant ask)
               then Inl (Refuse RefusalInvalidInput ''tending records who claims it'' [ID seed])
               else bind_result (takeover seed ask standing) (\<lambda>(displaced, by_means).
                 bind_result (ValidateReason reason (ID seed)) (\<lambda>_.
                   if Status seed = mv_to rule \<and> (\<not> mv_claims rule \<or> Tender seed = ask_Claimant ask)
                   then Inr \<lparr>Displaced = None, By = [], OutSeed = seed, Moved = False\<rparr>
                   else if mv_needsReason rule \<and> reason = []
                   then Inl (Refuse RefusalInvalidInput ''harvesting records what got done'' [ID seed])
                   else if reason \<noteq> [] \<and> \<not> mv_keepsReason rule
                   then Inl (Refuse RefusalInvalidInput ''records no reason'' [verb, ID seed])
                   else Inr \<lparr>Displaced = displaced, By = by_means,
                          OutSeed = moved_seed seed verb rule ask reason, Moved = True\<rparr>)))))"

subsection \<open>Notes\<close>

record ArtifactReference =
  art_Kind :: string
  art_NotebookDocumentID :: string
  art_Repository :: string
  art_Path :: string
  art_URL :: string

record Note =
  note_ID :: string
  note_Seed :: string
  note_Kind :: string
  note_Body :: string
  note_Author :: Actor
  note_Artifact :: "ArtifactReference option"

definition NoteKinds :: "string list" where
  "NoteKinds = [''note'', ''handoff'', ''attach'', ''detach'']"

definition EntryKinds :: "string list" where
  "EntryKinds = [''note'', ''handoff'', ''attach'', ''detach'', ''check'', ''edit'', ''move'', ''link'',
     ''answer'', ''authorization'']"

definition ParseEntryKind :: "string \<Rightarrow> refusal + string" where
  "ParseEntryKind raw =
     (let kind = TrimSpace (ToLower raw) in
      if kind \<in> set EntryKinds then Inr kind
      else Inl (Refuse RefusalInvalidInput ''not a kind of log entry'' (raw # EntryKinds)))"

definition CarriesArtifact :: "string \<Rightarrow> bool" where
  "CarriesArtifact k = (k = ''attach'' \<or> k = ''detach'')"

definition ParseNoteKind :: "string \<Rightarrow> refusal + string" where
  "ParseNoteKind raw =
     (let kind = TrimSpace (ToLower raw) in
      if kind = [] then Inr ''note''
      else if kind \<in> set NoteKinds then Inr kind
      else if kind = ''check'' then Inl (Refuse RefusalInvalidInput ''a check note is written by the check move'' [])
      else if kind = ''edit'' then Inl (Refuse RefusalInvalidInput ''an edit entry is written by edit or rollback'' [])
      else if kind = ''move'' \<or> kind = ''link''
      then Inl (Refuse RefusalInvalidInput ''an entry is written by the change it records'' [kind])
      else if kind = ''answer'' then Inl (Refuse RefusalInvalidInput ''an answer entry is written by the answer'' [])
      else if kind = ''authorization''
      then Inl (Refuse RefusalInvalidInput ''an authorization entry is written by its change'' [])
      else Inl (Refuse RefusalInvalidInput ''not a kind of note'' (raw # NoteKinds)))"

definition ellipsis :: string where
  "ellipsis = map char_of [0xE2, 0x80, 0xA6 :: nat]"

definition TrimReason :: "string \<Rightarrow> string" where
  "TrimReason reason =
     (let reason = TrimSpace reason in
      if RuneCount reason \<le> MaxReasonChars then reason
      else TrimSpace (concat (take (MaxReasonChars - 1) (runes reason))) @ ellipsis)"

definition ValidateNote :: "string \<Rightarrow> refusal + unit" where
  "ValidateNote body =
     (if TrimSpace body = [] then Inl (Refuse RefusalInvalidInput ''a note needs something in it'' [])
      else if length body > MaxNoteBytes then Inl (Refuse RefusalLimit ''note'' [])
      else Inr ())"

subsection \<open>Laws of the moves\<close>

lemma moves_Some:
  "moves verb = Some rule \<longleftrightarrow>
     (verb, rule) \<in> {(VerbTend, the (moves VerbTend)), (VerbPark, the (moves VerbPark)),
       (VerbHarvest, the (moves VerbHarvest)), (VerbWither, the (moves VerbWither)),
       (VerbReplant, the (moves VerbReplant))}"
  by (auto simp: moves_def verb_defs)

lemma move_rules:
  "the (moves VerbTend) = \<lparr>mv_to = StatusGrowing, mv_from = [StatusPlanted, StatusParked, StatusGrowing],
     mv_claims = True, mv_needsReason = False, mv_keepsReason = False\<rparr>"
  "the (moves VerbPark) = \<lparr>mv_to = StatusParked, mv_from = [StatusPlanted, StatusGrowing],
     mv_claims = False, mv_needsReason = False, mv_keepsReason = False\<rparr>"
  "the (moves VerbHarvest) = \<lparr>mv_to = StatusHarvested, mv_from = [StatusPlanted, StatusGrowing, StatusParked],
     mv_claims = False, mv_needsReason = True, mv_keepsReason = True\<rparr>"
  "the (moves VerbWither) = \<lparr>mv_to = StatusWithered, mv_from = [StatusPlanted, StatusGrowing, StatusParked],
     mv_claims = False, mv_needsReason = False, mv_keepsReason = True\<rparr>"
  "the (moves VerbReplant) = \<lparr>mv_to = StatusPlanted, mv_from = [StatusHarvested, StatusWithered, StatusParked, StatusGrowing],
     mv_claims = False, mv_needsReason = False, mv_keepsReason = False\<rparr>"
  by (simp_all add: moves_def verb_defs)

lemma moved_seed_fields [simp]:
  "Status (moved_seed seed verb rule ask reason) = mv_to rule"
  "Tender (moved_seed seed verb rule ask reason) = (if mv_claims rule then ask_Claimant ask else zero_party)"
  "HarvestWhen (moved_seed seed verb rule ask reason) = (if Closed (mv_to rule) then None else HarvestWhen seed)"
  "SeedReason (moved_seed seed verb rule ask reason) =
     (if mv_keepsReason rule then reason else if verb = VerbReplant then [] else SeedReason seed)"
  "ID (moved_seed seed verb rule ask reason) = ID seed"
  "Edges (moved_seed seed verb rule ask reason) = Edges seed"
  "Checks (moved_seed seed verb rule ask reason) = Checks seed"
  by (simp_all add: moved_seed_def Let_def)

text \<open>The guards that let a move through, as one condition, and what it does.\<close>

definition permitted :: "Seed \<Rightarrow> Ask \<Rightarrow> Standing \<Rightarrow> bool" where
  "permitted seed ask standing \<longleftrightarrow>
     \<not> ClaimHolds standing seed \<or> Tender seed = ask_Claimant ask \<or> Party_Actor (Tender seed) = ask_Actor ask \<or>
     ask_Force ask \<or> Oversees standing (ask_Actor ask) (Tender seed)"

lemma takeover_cases:
  "(case takeover seed ask standing of Inl e \<Rightarrow> \<not> permitted seed ask standing \<and> reason_of e = RefusalNotTender
    | Inr (displaced, m) \<Rightarrow> permitted seed ask standing \<and>
        (displaced \<noteq> None \<longrightarrow> displaced = Some (Tender seed) \<and> ClaimHolds standing seed \<and> m \<in> {''force'', ''standing''}))"
  by (auto simp: takeover_def permitted_def refuseTakeover_def Let_def)

lemma takeover_Inr: "(\<exists>x. takeover seed ask standing = Inr x) \<longleftrightarrow> permitted seed ask standing"
  using takeover_cases [of seed ask standing] by (cases "takeover seed ask standing") auto

definition may_move :: "Seed \<Rightarrow> string \<Rightarrow> move \<Rightarrow> Ask \<Rightarrow> Standing \<Rightarrow> Seed list \<Rightarrow> bool" where
  "may_move seed verb rule ask standing openChildren \<longleftrightarrow>
     (let reason = TrimSpace (ask_Reason ask) in
      (Status seed \<in> set (mv_from rule) \<or> Status seed = mv_to rule) \<and>
      (Closed (mv_to rule) \<and> Status seed \<noteq> mv_to rule \<longrightarrow> openChildren = []) \<and>
      (mv_claims rule \<longrightarrow> \<not> Party_IsZero (ask_Claimant ask)) \<and>
      permitted seed ask standing \<and> RuneCount reason \<le> MaxReasonChars)"

definition stays :: "Seed \<Rightarrow> move \<Rightarrow> Ask \<Rightarrow> bool" where
  "stays seed rule ask \<longleftrightarrow> Status seed = mv_to rule \<and> (\<not> mv_claims rule \<or> Tender seed = ask_Claimant ask)"

definition reason_fits :: "move \<Rightarrow> Ask \<Rightarrow> bool" where
  "reason_fits rule ask \<longleftrightarrow>
     (let reason = TrimSpace (ask_Reason ask) in
      (mv_needsReason rule \<longrightarrow> reason \<noteq> []) \<and> (reason \<noteq> [] \<longrightarrow> mv_keepsReason rule))"

lemma ValidateReason_Inr: "ValidateReason r i = Inr u \<longleftrightarrow> RuneCount (TrimSpace r) \<le> MaxReasonChars"
  by (auto simp: ValidateReason_def)

lemma CheckPlotClose_Inr: "CheckPlotClose seed cs = Inr u \<longleftrightarrow> cs = []"
  by (simp add: CheckPlotClose_def)

lemma Transition_success:
  assumes rule: "moves verb = Some rule"
  shows "Transition seed verb ask standing openChildren = Inr out \<longleftrightarrow>
    may_move seed verb rule ask standing openChildren \<and>
    (if stays seed rule ask then out = \<lparr>Displaced = None, By = [], OutSeed = seed, Moved = False\<rparr>
     else reason_fits rule ask \<and> (\<exists>d m. takeover seed ask standing = Inr (d, m) \<and>
       out = \<lparr>Displaced = d, By = m, OutSeed = moved_seed seed verb rule ask (TrimSpace (ask_Reason ask)), Moved = True\<rparr>))"
    (is "?T = Inr out \<longleftrightarrow> ?may \<and> ?rest")
proof (cases "?may")
  case False
  then show ?thesis
  proof (cases "takeover seed ask standing")
    case (Inl e)
    then show ?thesis using False by (simp add: Transition_def rule Let_def bind_result_eq_Inr)
  next
    case (Inr dm)
    obtain d m where dm: "takeover seed ask standing = Inr (d, m)" using Inr by (cases dm) simp
    have "permitted seed ask standing" using Inr takeover_Inr by blast
    with False consider
        "Status seed \<noteq> mv_to rule" "Status seed \<notin> set (mv_from rule)"
      | "Closed (mv_to rule)" "Status seed \<noteq> mv_to rule" "openChildren \<noteq> []"
      | "mv_claims rule" "Party_IsZero (ask_Claimant ask)"
      | "MaxReasonChars < RuneCount (TrimSpace (ask_Reason ask))"
      by (auto simp: may_move_def Let_def not_le)
    then have "\<exists>e. ?T = Inl e"
      by cases (auto simp: Transition_def rule Let_def CheckPlotClose_def ValidateReason_def dm bind_result_def
          split: sum.splits)
    then show ?thesis using False by auto
  qed
next
  case True
  obtain d m where t: "takeover seed ask standing = Inr (d, m)"
    using takeover_Inr [of seed ask standing] True by (auto simp: may_move_def Let_def)
  have v: "ValidateReason (TrimSpace (ask_Reason ask)) (ID seed) = Inr ()"
    using True by (simp add: may_move_def ValidateReason_Inr Let_def)
  have c: "(if Closed (mv_to rule) \<and> Status seed \<noteq> mv_to rule then CheckPlotClose seed openChildren else Inr ()) = Inr ()"
    using True by (simp add: may_move_def CheckPlotClose_Inr Let_def)
  have s: "\<not> (Status seed \<noteq> mv_to rule \<and> Status seed \<notin> set (mv_from rule))"
      "\<not> (mv_claims rule \<and> Party_IsZero (ask_Claimant ask))"
    using True by (auto simp: may_move_def Let_def)
  have "?T = (if stays seed rule ask then Inr \<lparr>Displaced = None, By = [], OutSeed = seed, Moved = False\<rparr>
      else if mv_needsReason rule \<and> TrimSpace (ask_Reason ask) = []
      then Inl (Refuse RefusalInvalidInput ''harvesting records what got done'' [ID seed])
      else if TrimSpace (ask_Reason ask) \<noteq> [] \<and> \<not> mv_keepsReason rule
      then Inl (Refuse RefusalInvalidInput ''records no reason'' [verb, ID seed])
      else Inr \<lparr>Displaced = d, By = m, OutSeed = moved_seed seed verb rule ask (TrimSpace (ask_Reason ask)), Moved = True\<rparr>)"
    by (simp only: Transition_def rule option.case Let_def c stays_def if_not_P [OF s(1)] if_not_P [OF s(2)]
        t v bind_result_simps prod.case)
  then show ?thesis using True t by (auto simp: reason_fits_def Let_def)
qed

lemma Transition_moved:
  assumes "Transition seed verb ask standing openChildren = Inr out" "Moved out"
  obtains rule where "moves verb = Some rule" "may_move seed verb rule ask standing openChildren"
    "\<not> stays seed rule ask" "reason_fits rule ask"
    "OutSeed out = moved_seed seed verb rule ask (TrimSpace (ask_Reason ask))"
    "takeover seed ask standing = Inr (Displaced out, By out)"
proof -
  obtain rule where r: "moves verb = Some rule" using assms by (auto simp: Transition_def split: option.splits)
  then show thesis using that [OF r] assms by (auto simp: Transition_success split: if_splits)
qed

subsection \<open>The life of a seed\<close>

definition seed_ok :: "Seed \<Rightarrow> bool" where
  "seed_ok s \<longleftrightarrow>
     Status s \<in> {StatusPlanted, StatusGrowing, StatusHarvested, StatusWithered, StatusParked} \<and>
     (Status s = StatusGrowing \<longleftrightarrow> \<not> Party_IsZero (Tender s)) \<and>
     (Closed (Status s) \<longrightarrow> HarvestWhen s = None) \<and>
     (Status s = StatusHarvested \<longrightarrow> SeedReason s \<noteq> []) \<and>
     RuneCount (SeedReason s) \<le> MaxReasonChars"

text \<open>One call of \<open>Transition\<close> that is not refused, by anybody, under any standing.\<close>

inductive seed_step :: "Seed \<Rightarrow> Seed \<Rightarrow> bool" where
  step: "Transition s verb ask standing openChildren = Inr out \<Longrightarrow> seed_step s (OutSeed out)"

inductive_cases seed_stepE: "seed_step s s'"

inductive lives :: "Seed \<Rightarrow> Seed \<Rightarrow> bool" where
  refl: "lives s s"
| step: "lives s s' \<Longrightarrow> seed_step s' s'' \<Longrightarrow> lives s s''"

lemma zero_party_IsZero [simp]: "Party_IsZero zero_party"
  by (simp add: Party_IsZero_def zero_party_def zero_ref_def)

lemma RuneCount_Nil [simp]: "RuneCount [] = 0"
  by (simp add: RuneCount_def runes.simps)

lemma status_distinct [simp]:
  "StatusPlanted \<noteq> StatusGrowing" "StatusPlanted \<noteq> StatusHarvested" "StatusPlanted \<noteq> StatusWithered"
  "StatusPlanted \<noteq> StatusParked" "StatusGrowing \<noteq> StatusPlanted" "StatusGrowing \<noteq> StatusHarvested"
  "StatusGrowing \<noteq> StatusWithered" "StatusGrowing \<noteq> StatusParked" "StatusHarvested \<noteq> StatusPlanted"
  "StatusHarvested \<noteq> StatusGrowing" "StatusHarvested \<noteq> StatusWithered" "StatusHarvested \<noteq> StatusParked"
  "StatusWithered \<noteq> StatusPlanted" "StatusWithered \<noteq> StatusGrowing" "StatusWithered \<noteq> StatusHarvested"
  "StatusWithered \<noteq> StatusParked" "StatusParked \<noteq> StatusPlanted" "StatusParked \<noteq> StatusGrowing"
  "StatusParked \<noteq> StatusHarvested" "StatusParked \<noteq> StatusWithered"
  by (simp_all add: status_defs)

lemma verb_distinct [simp]:
  "VerbTend \<noteq> VerbReplant" "VerbPark \<noteq> VerbReplant" "VerbHarvest \<noteq> VerbReplant" "VerbWither \<noteq> VerbReplant"
  by (simp_all add: verb_defs)

lemma moved_seed_ok [inv_intros]:
  assumes "moves verb = Some rule" "may_move s verb rule ask standing cs" "reason_fits rule ask" "seed_ok s"
  shows "seed_ok (moved_seed s verb rule ask (TrimSpace (ask_Reason ask)))"
proof -
  have g: "RuneCount (TrimSpace (ask_Reason ask)) \<le> MaxReasonChars" "mv_claims rule \<Longrightarrow> \<not> Party_IsZero (ask_Claimant ask)"
      "mv_needsReason rule \<Longrightarrow> TrimSpace (ask_Reason ask) \<noteq> []" "RuneCount (SeedReason s) \<le> MaxReasonChars"
    using assms(2-4) by (simp_all add: may_move_def reason_fits_def seed_ok_def Let_def)
  have "(verb, rule) \<in> {(VerbTend, the (moves VerbTend)), (VerbPark, the (moves VerbPark)),
      (VerbHarvest, the (moves VerbHarvest)), (VerbWither, the (moves VerbWither)),
      (VerbReplant, the (moves VerbReplant))}"
    using assms(1) moves_Some by blast
  then show ?thesis
    using g by (elim insertE emptyE) (simp_all add: move_rules seed_ok_def Closed_def)
qed

lemma seed_step_ok [inv_intros]: "seed_step s s' \<Longrightarrow> seed_ok s \<Longrightarrow> seed_ok s' \<and> ID s' = ID s \<and> Edges s' = Edges s"
proof (erule seed_stepE)
  fix verb ask standing cs out
  assume t: "Transition s verb ask standing cs = Inr out" and s': "s' = OutSeed out" and ok: "seed_ok s"
  obtain rule where r: "moves verb = Some rule" using t by (auto simp: Transition_def split: option.splits)
  show "seed_ok s' \<and> ID s' = ID s \<and> Edges s' = Edges s"
    using t s' ok moved_seed_ok [OF r, of s ask standing cs] by (auto simp: Transition_success [OF r] split: if_splits)
qed

text \<open>
  C4. Whatever moves are made on it, a well-formed seed stays well formed: its status is one of the
  five, it has a tender exactly while it grows, a closed seed waits for no pull request, a harvested
  one records what got done, and a reason never exceeds its limit; the moves never touch its id or
  its edges.
\<close>
theorem lives_seed_ok:
  assumes "lives s s'" "seed_ok s"
  shows "seed_ok s' \<and> ID s' = ID s \<and> Edges s' = Edges s"
  using assms
proof (induction rule: lives.induct)
  case (step s s' s'')
  then show ?case using seed_step_ok [of s' s''] by auto
qed simp

text \<open>
  The life of a seed as its users are told it, written without the table of moves. A seed is open while
  it is planted, growing or parked, and closed when it is harvested or withered. Every verb leads to one
  status, from any open one; only \<open>replant\<close> leads out of a closed one. \<open>refused\<close> lists the grounds for a
  refusal that do not depend on whether there is anything to do, \<open>badly_worded\<close> those that do.
\<close>

definition leads_to :: "string \<rightharpoonup> string" where
  "leads_to = [''tend'' \<mapsto> ''growing'', ''park'' \<mapsto> ''parked'', ''harvest'' \<mapsto> ''harvested'', ''wither'' \<mapsto> ''withered'', ''replant'' \<mapsto> ''planted'']"

definition foreign :: "Seed \<Rightarrow> Ask \<Rightarrow> Standing \<Rightarrow> bool" where
  "foreign seed ask standing \<longleftrightarrow>
     ClaimHolds standing seed \<and> Tender seed \<noteq> ask_Claimant ask \<and> Party_Actor (Tender seed) \<noteq> ask_Actor ask"

definition refused :: "Seed \<Rightarrow> string \<Rightarrow> Ask \<Rightarrow> Standing \<Rightarrow> Seed list \<Rightarrow> bool" where
  "refused seed verb ask standing openChildren \<longleftrightarrow>
     leads_to verb = None \<or>
     Status seed \<notin> {''planted'', ''growing'', ''parked''} \<and> leads_to verb \<noteq> Some (Status seed) \<and>
       \<not> (verb = ''replant'' \<and> Status seed \<in> {''harvested'', ''withered''}) \<or>
     verb \<in> {''harvest'', ''wither''} \<and> leads_to verb \<noteq> Some (Status seed) \<and> openChildren \<noteq> [] \<or>
     verb = ''tend'' \<and> Party_IsZero (ask_Claimant ask) \<or>
     foreign seed ask standing \<and> \<not> ask_Force ask \<and> \<not> Oversees standing (ask_Actor ask) (Tender seed) \<or>
     400 < RuneCount (TrimSpace (ask_Reason ask))"

definition badly_worded :: "string \<Rightarrow> Ask \<Rightarrow> bool" where
  "badly_worded verb ask \<longleftrightarrow>
     verb = ''harvest'' \<and> TrimSpace (ask_Reason ask) = [] \<or> verb \<notin> {''harvest'', ''wither''} \<and> TrimSpace (ask_Reason ask) \<noteq> []"

definition in_place :: "Seed \<Rightarrow> string \<Rightarrow> Ask \<Rightarrow> bool" where
  "in_place seed verb ask \<longleftrightarrow> leads_to verb = Some (Status seed) \<and> (verb = ''tend'' \<longrightarrow> Tender seed = ask_Claimant ask)"

lemmas move_literals = move_rules [unfolded verb_defs status_defs]

lemma stays_in_place: "moves verb = Some rule \<Longrightarrow> stays seed rule ask \<longleftrightarrow> in_place seed verb ask"
  unfolding moves_Some verb_defs by (elim insertE emptyE) (auto simp: stays_def in_place_def leads_to_def move_literals)

lemma move_leads:
  assumes "moves verb = Some rule"
  shows "leads_to verb = Some (mv_to rule)" "mv_claims rule \<longleftrightarrow> verb = ''tend''" "Closed (mv_to rule) \<longleftrightarrow> verb \<in> {''harvest'', ''wither''}"
    "s \<in> set (mv_from rule) \<or> s = mv_to rule \<longleftrightarrow>
      s \<in> {''planted'', ''growing'', ''parked''} \<or> s = mv_to rule \<or> verb = ''replant'' \<and> s \<in> {''harvested'', ''withered''}"
  using assms unfolding moves_Some verb_defs
  by (elim insertE emptyE; force simp: leads_to_def move_literals Closed_def status_defs)+

lemma permitted_foreign:
  "permitted seed ask standing \<longleftrightarrow> \<not> (foreign seed ask standing \<and> \<not> ask_Force ask \<and> \<not> Oversees standing (ask_Actor ask) (Tender seed))"
  by (auto simp: permitted_def foreign_def)

lemma refused_may_move:
  assumes "moves verb = Some rule"
  shows "may_move seed verb rule ask standing openChildren \<longleftrightarrow> \<not> refused seed verb ask standing openChildren"
proof -
  define a where "a \<longleftrightarrow> Status seed \<in> {''planted'', ''growing'', ''parked''}"
  define b where "b \<longleftrightarrow> verb = ''replant'' \<and> Status seed \<in> {''harvested'', ''withered''}"
  define c where "c \<longleftrightarrow> verb \<in> {''harvest'', ''wither''}"
  define e where "e \<longleftrightarrow> verb = ''tend''"
  show ?thesis
    unfolding may_move_def Let_def permitted_foreign move_leads [OF assms] refused_def MaxReasonChars_def
      a_def [symmetric] b_def [symmetric] c_def [symmetric] e_def [symmetric]
    by auto
qed

lemma badly_worded_fits: "moves verb = Some rule \<Longrightarrow> reason_fits rule ask \<longleftrightarrow> \<not> badly_worded verb ask"
  unfolding moves_Some verb_defs by (elim insertE emptyE) (auto simp: reason_fits_def badly_worded_def move_literals Let_def)

lemma takeover_foreign:
  "takeover seed ask standing = Inr (d, m) \<Longrightarrow>
     d = (if foreign seed ask standing then Some (Tender seed) else None) \<and>
     m = (if \<not> foreign seed ask standing then ''tender'' else if ask_Force ask then ''force'' else ''standing'')"
  by (auto simp: takeover_def foreign_def Let_def split: if_splits)

lemma moved_seed_to:
  "moves verb = Some rule \<Longrightarrow> moved_seed seed verb rule ask reason =
     seed\<lparr>Status := the (leads_to verb), Tender := (if verb = ''tend'' then ask_Claimant ask else zero_party),
       SeedReason := (if verb \<in> {''harvest'', ''wither''} then reason else if verb = ''replant'' then [] else SeedReason seed),
       HarvestWhen := (if verb \<in> {''harvest'', ''wither''} then None else HarvestWhen seed)\<rparr>"
  unfolding moves_Some verb_defs
  by (elim insertE emptyE) (simp_all add: moved_seed_def leads_to_def move_literals Closed_def VerbReplant_def status_defs Let_def)

text \<open>
  C14. What a verb does to a seed. It is refused when the verb is none of the five; when the seed is
  closed and the verb neither replants it nor asks for the status it has; when it would close a seed
  with open children; when tending names no claimant; when the claim on the seed holds for somebody
  other than the asker, who neither forces it nor oversees the tender; when the reason is longer than
  400 characters. Else, when the seed already has the status, and for tending the tender, nothing
  changes. Else a harvest without a reason and a reason on anything but a harvest or a withering are
  refused. In every other case the seed moves: to the status of the verb, with the claimant as tender
  when it is tended and with none otherwise; a closing verb records the reason and ends the wait for a
  pull request, replanting clears the reason, nothing else of the seed changes, and the outcome names
  who lost the seed and by what means.
\<close>

theorem Transition_spec:
  "(case Transition seed verb ask standing openChildren of Inl e \<Rightarrow> None | Inr out \<Rightarrow> Some out) =
   (if refused seed verb ask standing openChildren then None
    else if in_place seed verb ask then Some \<lparr>Displaced = None, By = [], OutSeed = seed, Moved = False\<rparr>
    else if badly_worded verb ask then None
    else Some \<lparr>Displaced = (if foreign seed ask standing then Some (Tender seed) else None),
        By = (if \<not> foreign seed ask standing then ''tender'' else if ask_Force ask then ''force'' else ''standing''),
        OutSeed = seed\<lparr>Status := the (leads_to verb),
          Tender := (if verb = ''tend'' then ask_Claimant ask else zero_party),
          SeedReason := (if verb \<in> {''harvest'', ''wither''} then TrimSpace (ask_Reason ask)
            else if verb = ''replant'' then [] else SeedReason seed),
          HarvestWhen := (if verb \<in> {''harvest'', ''wither''} then None else HarvestWhen seed)\<rparr>,
        Moved = True\<rparr>)"
proof (cases "moves verb")
  case None
  then have "leads_to verb = None" by (auto simp: moves_def leads_to_def verb_defs split: if_splits)
  then show ?thesis using None by (simp add: Transition_def refused_def)
next
  case (Some rule)
  note rule = refused_may_move [OF Some] stays_in_place [OF Some] badly_worded_fits [OF Some] moved_seed_to [OF Some]
  define T where "T = Transition seed verb ask standing openChildren"
  have succ: "T = Inr out \<longleftrightarrow> \<not> refused seed verb ask standing openChildren \<and>
      (if in_place seed verb ask then out = \<lparr>Displaced = None, By = [], OutSeed = seed, Moved = False\<rparr>
       else \<not> badly_worded verb ask \<and> (\<exists>d m. takeover seed ask standing = Inr (d, m) \<and>
         out = \<lparr>Displaced = d, By = m, OutSeed = moved_seed seed verb rule ask (TrimSpace (ask_Reason ask)), Moved = True\<rparr>))" for out
    unfolding T_def Transition_success [OF Some] rule(1-3) ..
  show ?thesis
  proof (cases "refused seed verb ask standing openChildren \<or> \<not> in_place seed verb ask \<and> badly_worded verb ask")
    case True
    then have "T \<noteq> Inr out" for out using succ by auto
    then obtain e where "T = Inl e" by (cases T) auto
    then have n: "(case Transition seed verb ask standing openChildren of Inl e \<Rightarrow> None | Inr out \<Rightarrow> Some out) = None"
      by (simp add: T_def)
    show ?thesis
    proof (cases "refused seed verb ask standing openChildren")
      case False
      then have "\<not> in_place seed verb ask" "badly_worded verb ask" using True by simp_all
      then show ?thesis unfolding n if_not_P [OF False] by (simp only: if_False if_True)
    qed (simp only: n if_True)
  next
    case False
    then have "may_move seed verb rule ask standing openChildren" using rule(1) by simp
    then have "permitted seed ask standing" by (simp add: may_move_def Let_def)
    then obtain d m where t: "takeover seed ask standing = Inr (d, m)" using takeover_Inr [of seed ask standing] by auto
    note dm = takeover_foreign [OF t, THEN conjunct1] takeover_foreign [OF t, THEN conjunct2]
    show ?thesis
    proof (cases "in_place seed verb ask")
      case True
      then have "T = Inr \<lparr>Displaced = None, By = [], OutSeed = seed, Moved = False\<rparr>" using False unfolding succ by simp
      then show ?thesis using False True by (simp add: T_def)
    next
      case moves: False
      then have "T = Inr \<lparr>Displaced = d, By = m, OutSeed = moved_seed seed verb rule ask (TrimSpace (ask_Reason ask)), Moved = True\<rparr>"
        using False t unfolding succ by simp
      then have T: "(case Transition seed verb ask standing openChildren of Inl e \<Rightarrow> None | Inr out \<Rightarrow> Some out) =
          Some \<lparr>Displaced = d, By = m, OutSeed = moved_seed seed verb rule ask (TrimSpace (ask_Reason ask)), Moved = True\<rparr>"
        unfolding T_def by simp
      have "\<not> refused seed verb ask standing openChildren" "\<not> badly_worded verb ask" using False moves by auto
      then show ?thesis unfolding T rule(4) dm if_not_P [OF moves] by (simp only: if_False)
    qed
  qed
qed

text \<open>
  A seed whose claim holds is moved by somebody else only by force or by a standing above its
  tender, and then the outcome names whom it displaced.
\<close>
theorem Transition_takeover_recorded:
  assumes "Transition seed verb ask standing openChildren = Inr out" "Moved out" "ClaimHolds standing seed"
    "Tender seed \<noteq> ask_Claimant ask" "Party_Actor (Tender seed) \<noteq> ask_Actor ask"
  shows "Displaced out = Some (Tender seed) \<and>
    (if ask_Force ask then By out = ''force''
     else By out = ''standing'' \<and> Oversees standing (ask_Actor ask) (Tender seed))"
proof -
  have "takeover seed ask standing = Inr (Displaced out, By out)"
    using assms(1,2) by (rule Transition_moved) assumption
  then show ?thesis using assms(3-5) by (auto simp: takeover_def Let_def split: if_splits)
qed

text \<open>
  A move that was made is not made twice: asking for it again leaves the seed as it is and is no
  error. The standing must not let a claim hold that nobody has.
\<close>
theorem Transition_idempotent:
  assumes "Transition seed verb ask standing openChildren = Inr out" "Moved out"
    "\<not> (ClaimHolds standing (OutSeed out) \<and> Party_IsZero (Tender (OutSeed out)))"
  shows "Transition (OutSeed out) verb ask standing openChildren' =
    Inr \<lparr>Displaced = None, By = [], OutSeed = OutSeed out, Moved = False\<rparr>"
proof -
  obtain rule where r: "moves verb = Some rule" "may_move seed verb rule ask standing openChildren"
      "OutSeed out = moved_seed seed verb rule ask (TrimSpace (ask_Reason ask))"
    using assms(1,2) by (rule Transition_moved) blast
  have "stays (OutSeed out) rule ask" by (simp add: r(3) stays_def)
  moreover have "may_move (OutSeed out) verb rule ask standing openChildren'"
    using assms(3) r(2) by (auto simp: r(3) may_move_def permitted_def Let_def split: if_splits)
  ultimately show ?thesis using Transition_success [OF r(1)] by simp
qed

subsection \<open>Witnesses\<close>

definition blank_seed :: "string \<Rightarrow> Seed" where
  "blank_seed i = \<lparr>ID = i, ProfileID = [], Title = ''t'', Body = [], Status = StatusPlanted, StepSlugField = ''t'',
     Planter = User, Tender = zero_party, LastExecutionID = [], StateChangedAt = [], Edges = [], Template = False,
     Gate = False, Vars = [], SeedReason = [], HarvestWhen = None, HarvestWhenPullRequest = [],
     SeedAuthorization = None, Checks = [], CheckResults = Map.empty\<rparr>"

definition demo_ask :: Ask where
  "demo_ask = \<lparr>ask_Actor = User, ask_Claimant = Session ''w2'', ask_Reason = [], ask_Force = True,
     ask_CauseSession = [], ask_DirectlyNotifiedSession = [], ask_SuppressNotification = False\<rparr>"

definition demo_standing :: Standing where
  "demo_standing = \<lparr>ClaimHolds = (\<lambda>s. \<not> Party_IsZero (Tender s)), Oversees = (\<lambda>a p. False), Name = (\<lambda>p. [])\<rparr>"

definition tended_seed :: Seed where
  "tended_seed = (blank_seed ''s-000001'')\<lparr>Status := StatusGrowing, Tender := Session ''w1''\<rparr>"

lemma demo_transition:
  "Transition tended_seed VerbTend demo_ask demo_standing [] =
     Inr \<lparr>Displaced = Some (Session ''w1''), By = ''force'',
       OutSeed = tended_seed\<lparr>Tender := Session ''w2''\<rparr>, Moved = True\<rparr>"
proof -
  have r: "moves VerbTend = Some (the (moves VerbTend))" by (simp add: moves_def verb_defs)
  show ?thesis
    unfolding Transition_success [OF r]
    by (simp add: may_move_def permitted_def stays_def reason_fits_def takeover_def moved_seed_def move_rules
        demo_ask_def demo_standing_def tended_seed_def blank_seed_def Session_def Party_IsZero_def Party_Actor_def
        User_def Closed_def Let_def)
qed

theorem lives_seed_ok_witness: "seed_ok (tended_seed\<lparr>Tender := Session ''w2''\<rparr>)"
proof -
  have "seed_step tended_seed (tended_seed\<lparr>Tender := Session ''w2''\<rparr>)"
    using seed_step.step [OF demo_transition] by simp
  then have "lives tended_seed (tended_seed\<lparr>Tender := Session ''w2''\<rparr>)"
    using lives.step lives.refl by blast
  moreover have "seed_ok tended_seed"
    by (simp add: seed_ok_def tended_seed_def blank_seed_def Session_def Party_IsZero_def Closed_def)
  ultimately show ?thesis using lives_seed_ok by blast
qed

theorem Transition_takeover_recorded_witness:
  "Displaced (projr (Transition tended_seed VerbTend demo_ask demo_standing [])) = Some (Tender tended_seed)"
proof -
  have "ClaimHolds demo_standing tended_seed" "Tender tended_seed \<noteq> ask_Claimant demo_ask"
      "Party_Actor (Tender tended_seed) \<noteq> ask_Actor demo_ask"
    by (simp_all add: demo_standing_def tended_seed_def demo_ask_def Session_def Party_IsZero_def Party_Actor_def User_def)
  then show ?thesis using Transition_takeover_recorded [OF demo_transition] by (simp add: demo_transition)
qed

theorem Transition_idempotent_witness:
  "Transition (tended_seed\<lparr>Tender := Session ''w2''\<rparr>) VerbTend demo_ask demo_standing [blank_seed ''s-000002''] =
     Inr \<lparr>Displaced = None, By = [], OutSeed = tended_seed\<lparr>Tender := Session ''w2''\<rparr>, Moved = False\<rparr>"
  using Transition_idempotent [OF demo_transition, of "[blank_seed ''s-000002'']"]
  by (simp add: Session_def Party_IsZero_def)

end
