(* ===== verification/Go_Sort.thy ===== *)
theory Go_Sort
  imports Prelude "HOL-Library.Multiset"
begin

text \<open>
  Go's \<open>sort.SliceStable\<close> with a less function: elements that the function does not order keep
  their order. For a strict order that is total on the slice the result is the one sorted list of
  its elements, so it does not depend on the order they came in.
\<close>

fun insort_less :: "('a \<Rightarrow> 'a \<Rightarrow> bool) \<Rightarrow> 'a \<Rightarrow> 'a list \<Rightarrow> 'a list" where
  "insort_less lt x [] = [x]"
| "insort_less lt x (y # ys) = (if lt y x then y # insort_less lt x ys else x # y # ys)"

definition SliceStable :: "('a \<Rightarrow> 'a \<Rightarrow> bool) \<Rightarrow> 'a list \<Rightarrow> 'a list" where
  "SliceStable lt xs = foldr (insort_less lt) xs []"

lemma mset_insort_less [simp]: "mset (insort_less lt x xs) = add_mset x (mset xs)"
  by (induction xs) auto

lemma mset_SliceStable [simp]: "mset (SliceStable lt xs) = mset xs"
  unfolding SliceStable_def by (induction xs) simp_all

lemma set_insort_less: "set (insort_less lt x xs) = insert x (set xs)"
  using mset_insort_less [of lt x xs] by (metis set_mset_add_mset_insert set_mset_mset)

lemma set_SliceStable [simp]: "set (SliceStable lt xs) = set xs"
  by (metis mset_SliceStable set_mset_mset)

text \<open>For a strict order that is total on the list, sorting gives the one sorted list.\<close>

lemma sorted_insort_less:
  assumes "\<And>a b c. lt a b \<Longrightarrow> lt b c \<Longrightarrow> lt a c" "sorted_wrt lt xs" "\<forall>y \<in> set xs. lt x y \<or> lt y x"
  shows "sorted_wrt lt (insort_less lt x xs)"
  using assms(2,3)
proof (induction xs)
  case (Cons y ys)
  show ?case
  proof (cases "lt y x")
    case True
    then show ?thesis using Cons by (auto simp: set_insort_less)
  next
    case False
    then have "lt x y" using Cons(3) by simp
    then show ?thesis using Cons(2) False assms(1) by fastforce
  qed
qed simp

lemma sorted_SliceStable:
  assumes trans: "\<And>a b c. lt a b \<Longrightarrow> lt b c \<Longrightarrow> lt a c"
    and total: "\<And>a b. a \<in> set xs \<Longrightarrow> b \<in> set xs \<Longrightarrow> a \<noteq> b \<Longrightarrow> lt a b \<or> lt b a" and d: "distinct xs"
  shows "sorted_wrt lt (SliceStable lt xs)"
  using total d
proof (induction xs)
  case (Cons x xs)
  have s: "sorted_wrt lt (SliceStable lt xs)" using Cons by auto
  have "SliceStable lt (x # xs) = insort_less lt x (SliceStable lt xs)" by (simp add: SliceStable_def)
  moreover have "\<forall>y \<in> set (SliceStable lt xs). lt x y \<or> lt y x" using Cons(2) [of x] Cons(3) by auto
  ultimately show ?case using sorted_insort_less [OF trans s] by simp
qed (simp add: SliceStable_def)

lemma sorted_wrt_unique:
  assumes "\<And>a b. lt a b \<Longrightarrow> \<not> lt b a" "sorted_wrt lt xs" "sorted_wrt lt ys" "set xs = set ys"
  shows "xs = ys"
  using assms(2-4)
proof (induction xs arbitrary: ys)
  case (Cons x xs)
  then obtain y ys' where ys: "ys = y # ys'" by (cases ys) auto
  have "x = y" using Cons(2-4) assms(1) unfolding ys by (metis list.set_intros(1) set_ConsD sorted_wrt.simps(2))
  moreover have "x \<notin> set xs" "y \<notin> set ys'" using Cons(2,3) assms(1) ys by auto
  ultimately have "set xs = set ys'" using Cons(4) ys by auto
  then show ?case using Cons(1) [of ys'] Cons(2,3) ys \<open>x = y\<close> by simp
qed simp

end
