(* ===== verification/Garden_Graph.thy ===== *)
theory Garden_Graph
  imports Garden_Lifecycle Go_Sort
begin

text \<open>
  How seeds relate (\<open>edges.go\<close>, \<open>holdings.go\<close>): the edges, the search that refuses cycles, what is
  ready, blocked and freed, the rows of the plot tree. A garden is the list of its seeds, as the
  code passes it; \<open>byID\<close> keeps the last seed of an id and \<open>find\<close> the first, as there. The recursive
  closures of the code thread their \<open>visited\<close> map through the recursion, so they are nested
  recursions here that return the visited ids with their result.
\<close>

subsection \<open>Lookup\<close>

definition EdgeBlocks :: string where "EdgeBlocks = ''blocks''"
definition EdgePartOf :: string where "EdgePartOf = ''part-of''"
definition EdgeSownFrom :: string where "EdgeSownFrom = ''sown-from''"
definition EdgeDiscoveredFrom :: string where "EdgeDiscoveredFrom = ''discovered-from''"
definition EdgeRelatesTo :: string where "EdgeRelatesTo = ''relates-to''"

lemmas edge_kind_defs = EdgeBlocks_def EdgePartOf_def EdgeSownFrom_def EdgeDiscoveredFrom_def EdgeRelatesTo_def

definition LinkableKinds :: "string list" where
  "LinkableKinds = [EdgeBlocks, EdgePartOf, EdgeDiscoveredFrom]"

definition ParseEdgeKind :: "string \<Rightarrow> refusal + string" where
  "ParseEdgeKind raw =
     (let k = TrimSpace (ToLower raw) in
      if k \<in> set LinkableKinds then Inr k
      else if k \<in> set [EdgeSownFrom, EdgeRelatesTo]
      then Inl (Refuse RefusalInvalidInput ''a real edge kind but nothing links one yet'' (k # LinkableKinds))
      else Inl (Refuse RefusalInvalidInput ''not how two seeds relate'' (raw # LinkableKinds)))"

definition byID :: "Seed list \<Rightarrow> string \<rightharpoonup> Seed" where
  "byID seeds = foldl (\<lambda>index seed. index(ID seed \<mapsto> seed)) Map.empty seeds"

definition find_seed :: "Seed list \<Rightarrow> string \<Rightarrow> Seed option" where
  "find_seed seeds i = find (\<lambda>seed. ID seed = i) seeds"

definition ParentOf :: "Seed \<Rightarrow> string option" where
  "ParentOf seed = map_option edge_To (find (\<lambda>edge. edge_Kind edge = EdgePartOf) (Edges seed))"

text \<open>The edges of \<open>index[id]\<close>: a missing id gives the zero seed, which has none.\<close>

definition edges_at :: "Seed list \<Rightarrow> string \<Rightarrow> Edge list" where
  "edges_at seeds i = (case byID seeds i of None \<Rightarrow> [] | Some seed \<Rightarrow> Edges seed)"

lemma byID_snoc: "byID (seeds @ [s]) i = (if i = ID s then Some s else byID seeds i)"
  by (simp add: byID_def)

lemma byID_Nil [simp]: "byID [] i = None"
  by (simp add: byID_def)

lemma byID_Some: "byID seeds i = Some s \<Longrightarrow> s \<in> set seeds \<and> ID s = i"
  unfolding byID_def by (induction seeds rule: rev_induct) (auto split: if_splits)

lemma byID_None: "byID seeds i = None \<longleftrightarrow> i \<notin> ID ` set seeds"
  unfolding byID_def by (induction seeds rule: rev_induct) auto

lemma find_seed_Some: "find_seed seeds i = Some s \<Longrightarrow> s \<in> set seeds \<and> ID s = i"
  unfolding find_seed_def using find_Some_iff_first by fastforce

lemma find_seed_None: "find_seed seeds i = None \<longleftrightarrow> i \<notin> ID ` set seeds"
  by (auto simp: find_seed_def find_None_iff_all)

lemma byID_distinct: "distinct (map ID seeds) \<Longrightarrow> s \<in> set seeds \<Longrightarrow> byID seeds (ID s) = Some s"
  unfolding byID_def by (induction seeds rule: rev_induct) (auto simp: image_iff)

lemma find_seed_distinct: "distinct (map ID seeds) \<Longrightarrow> s \<in> set seeds \<Longrightarrow> find_seed seeds (ID s) = Some s"
  unfolding find_seed_def by (induction seeds) auto

subsection \<open>The search for a path\<close>

definition targets :: "Seed list \<Rightarrow> string set" where
  "targets seeds = (\<Union>s \<in> set seeds. edge_To ` set (Edges s))"

lemma finite_targets [simp]: "finite (targets seeds)"
  by (simp add: targets_def)

lemma edges_at_targets: "edge_To ` set (edges_at seeds i) \<subseteq> targets seeds"
  using byID_Some [of seeds i] by (cases "byID seeds i") (auto simp: edges_at_def targets_def)

text \<open>
  \<open>reach_edges\<close> is the body of the closure \<open>walk\<close>: the edges of one seed that are left to try, and
  the ids visited so far.
\<close>

function (sequential) reach_edges ::
  "Seed list \<Rightarrow> string \<Rightarrow> string \<Rightarrow> Edge list \<Rightarrow> string list \<Rightarrow> string list option \<times> string list" where
  "reach_edges seeds k target [] visited = (None, visited)"
| "reach_edges seeds k target (edge # edges) visited =
     (if edge_Kind edge \<noteq> k then reach_edges seeds k target edges visited
      else if edge_To edge = target then (Some [target], visited)
      else if edge_To edge \<in> set visited then reach_edges seeds k target edges visited
      else (case reach_edges seeds k target (edges_at seeds (edge_To edge)) (edge_To edge # visited) of
          (Some rest, visited') \<Rightarrow> (Some (edge_To edge # rest), visited')
        | (None, visited') \<Rightarrow> reach_edges seeds k target edges visited'))"
  by pat_completeness auto

lemma reach_edges_visited:
  "reach_edges_dom (seeds, k, target, edges, visited) \<Longrightarrow> set visited \<subseteq> set (snd (reach_edges seeds k target edges visited))"
proof (induction seeds k target edges visited rule: reach_edges.pinduct)
  case (2 seeds k target edge edges visited)
  obtain f v where r: "reach_edges seeds k target (edges_at seeds (edge_To edge)) (edge_To edge # visited) = (f, v)"
    by force
  have v: "set visited \<subseteq> set v" if "edge_Kind edge = k" "edge_To edge \<noteq> target" "edge_To edge \<notin> set visited"
    using 2(4) that r by simp
  have "set v \<subseteq> set (snd (reach_edges seeds k target edges v))"
    if "edge_Kind edge = k" "edge_To edge \<noteq> target" "edge_To edge \<notin> set visited" "f = None"
    using 2(5) [of f v] that r by simp
  then show ?case
    using v 2(2,3) r by (cases f) (auto simp: reach_edges.psimps(2) [OF 2(1)])
qed (simp add: reach_edges.psimps)

text \<open>
  Following an edge to an unvisited target leaves fewer ids to visit, or as many when no seed has
  that target; then there are no edges to follow from it.
\<close>

definition unvisited :: "Seed list \<Rightarrow> Edge list \<Rightarrow> string list \<Rightarrow> string set" where
  "unvisited seeds edges visited = targets seeds \<union> edge_To ` set edges - set visited"

lemma finite_unvisited [simp]: "finite (unvisited seeds edges visited)"
  by (simp add: unvisited_def)

termination reach_edges
proof (relation "inv_image (finite_psubset <*lex*> less_than)
    (\<lambda>(seeds, k, target, edges, visited). (unvisited seeds edges visited, length edges))", goal_cases)
  case 1
  then show ?case by auto
next
  case (2 seeds k target edge edges visited)
  have "unvisited seeds edges visited \<subseteq> unvisited seeds (edge # edges) visited" by (auto simp: unvisited_def)
  then show ?case by (auto simp: finite_psubset_def)
next
  case (3 seeds k target edge edges visited)
  have "unvisited seeds edges visited \<subseteq> unvisited seeds (edge # edges) visited" by (auto simp: unvisited_def)
  then show ?case by (auto simp: finite_psubset_def)
next
  case (4 seeds k target edge edges visited)
  have "unvisited seeds (edges_at seeds (edge_To edge)) (edge_To edge # visited) \<subset> unvisited seeds (edge # edges) visited"
    using 4 edges_at_targets [of seeds "edge_To edge"] by (auto simp: unvisited_def)
  then show ?case by (auto simp: finite_psubset_def)
next
  case (5 seeds k target edge edges visited f v)
  have "set (edge_To edge # visited) \<subseteq> set v"
    using reach_edges_visited [OF 5(6)] by (simp flip: 5(4))
  then have "unvisited seeds edges v \<subset> unvisited seeds (edge # edges) visited"
    using 5(3) by (auto simp: unvisited_def)
  then show ?case by (auto simp: finite_psubset_def)
qed

declare reach_edges.simps [simp del]

definition reaches :: "Seed list \<Rightarrow> string \<Rightarrow> string \<Rightarrow> string \<Rightarrow> string list" where
  "reaches seeds start k target =
     (case fst (reach_edges seeds k target (edges_at seeds start) [start]) of None \<Rightarrow> [] | Some path \<Rightarrow> path)"

subsection \<open>The search is exact\<close>

definition link_rel :: "Seed list \<Rightarrow> string \<Rightarrow> (string \<times> string) set" where
  "link_rel seeds k = {(i, j). \<exists>edge \<in> set (edges_at seeds i). edge_Kind edge = k \<and> edge_To edge = j}"

fun chain_in :: "(string \<times> string) set \<Rightarrow> string \<Rightarrow> string list \<Rightarrow> bool" where
  "chain_in r i [] = True"
| "chain_in r i (j # js) = ((i, j) \<in> r \<and> chain_in r j js)"

lemma chain_in_trancl: "chain_in r i js \<Longrightarrow> js \<noteq> [] \<Longrightarrow> (i, last js) \<in> r\<^sup>+"
  by (induction js arbitrary: i) (auto intro: trancl_into_trancl2 split: if_splits)

lemma reach_edges_found:
  "reach_edges seeds k target edges visited = (Some path, v) \<Longrightarrow>
     set edges \<subseteq> set (edges_at seeds i) \<Longrightarrow> path \<noteq> [] \<and> last path = target \<and> chain_in (link_rel seeds k) i path"
proof (induction seeds k target edges visited arbitrary: path v i rule: reach_edges.induct)
  case (2 seeds k target edge edges visited)
  obtain f w where r: "reach_edges seeds k target (edges_at seeds (edge_To edge)) (edge_To edge # visited) = (f, w)"
    by force
  have e: "(i, edge_To edge) \<in> link_rel seeds k" if "edge_Kind edge = k"
    using that 2(6) by (auto simp: link_rel_def)
  consider "edge_Kind edge \<noteq> k" | "edge_Kind edge = k" "edge_To edge = target"
    | "edge_Kind edge = k" "edge_To edge \<noteq> target" "edge_To edge \<in> set visited"
    | rest where "edge_Kind edge = k" "edge_To edge \<noteq> target" "edge_To edge \<notin> set visited" "f = Some rest"
    | "edge_Kind edge = k" "edge_To edge \<noteq> target" "edge_To edge \<notin> set visited" "f = None"
    by (cases f) blast+
  then show ?case
  proof cases
    case 1
    then show ?thesis using 2(1) [of path v i] 2(5,6) by (simp add: reach_edges.simps(2))
  next
    case 2
    then show ?thesis using e \<open>reach_edges seeds k target (edge # edges) visited = (Some path, v)\<close>
      by (auto simp: reach_edges.simps(2))
  next
    case 3
    then show ?thesis using 2(2) [of path v i] 2(5,6) by (simp add: reach_edges.simps(2))
  next
    case (4 rest)
    then have p: "path = edge_To edge # rest" using 2(5) r by (simp add: reach_edges.simps(2))
    have "rest \<noteq> [] \<and> last rest = target \<and> chain_in (link_rel seeds k) (edge_To edge) rest"
      using 2(3) [of rest w "edge_To edge"] 4 r by simp
    then show ?thesis using e 4 p by simp
  next
    case 5
    then show ?thesis using 2(4) [of f w path v i] 2(5,6) r by (simp add: reach_edges.simps(2))
  qed
qed (simp add: reach_edges.simps)

text \<open>What the search leaves behind when it finds nothing: visited ids whose edges lead to visited ids only.\<close>

definition explored :: "Seed list \<Rightarrow> string \<Rightarrow> string \<Rightarrow> string set \<Rightarrow> string set \<Rightarrow> bool" where
  "explored seeds k target X V \<longleftrightarrow> (\<forall>x \<in> X. \<forall>y. (x, y) \<in> link_rel seeds k \<longrightarrow> y \<in> V \<and> y \<noteq> target)"

lemma explored_mono: "explored seeds k target X V \<Longrightarrow> X' \<subseteq> X \<Longrightarrow> V \<subseteq> V' \<Longrightarrow> explored seeds k target X' V'"
  by (auto simp: explored_def)

lemma explored_Un: "explored seeds k target X V \<Longrightarrow> explored seeds k target Y V \<Longrightarrow> explored seeds k target (X \<union> Y) V"
  by (auto simp: explored_def)

lemma reach_edges_grows: "reach_edges seeds k target edges visited = (f, v) \<Longrightarrow> set visited \<subseteq> set v"
proof (induction seeds k target edges visited arbitrary: f v rule: reach_edges.induct)
  case (2 seeds k target edge edges visited)
  obtain g w where r: "reach_edges seeds k target (edges_at seeds (edge_To edge)) (edge_To edge # visited) = (g, w)"
    by force
  show ?case
    using 2(1) [of f v] 2(2) [of f v] 2(3) [of g w] 2(4) [of g w f v] 2(5) r
    by (cases g) (auto simp: reach_edges.simps(2) split: if_splits)
qed (simp add: reach_edges.simps)

lemma reach_edges_none:
  "reach_edges seeds k target edges visited = (None, v) \<Longrightarrow>
     (\<forall>edge \<in> set edges. edge_Kind edge = k \<longrightarrow> edge_To edge \<in> set v \<and> edge_To edge \<noteq> target) \<and>
     explored seeds k target (set v - set visited) (set v)"
proof (induction seeds k target edges visited arbitrary: v rule: reach_edges.induct)
  case (1 seeds k target visited)
  then show ?case by (simp add: reach_edges.simps explored_def)
next
  case (2 seeds k target edge edges visited)
  obtain f w where r: "reach_edges seeds k target (edges_at seeds (edge_To edge)) (edge_To edge # visited) = (f, w)"
    by force
  have "edge_To edge \<noteq> target" if "edge_Kind edge = k" using 2(5) that by (auto simp: reach_edges.simps(2))
  then consider "edge_Kind edge \<noteq> k" | "edge_Kind edge = k" "edge_To edge \<noteq> target" "edge_To edge \<in> set visited"
    | "edge_Kind edge = k" "edge_To edge \<noteq> target" "edge_To edge \<notin> set visited" by blast
  then show ?case
  proof cases
    case 1
    then show ?thesis using 2(1,5) by (simp add: reach_edges.simps(2))
  next
    case vis: 2
    then have "reach_edges seeds k target edges visited = (None, v)" using 2(5) by (simp add: reach_edges.simps(2))
    then show ?thesis using 2(2) vis reach_edges_grows by fastforce
  next
    case 3
    have f: "f = None" "reach_edges seeds k target edges w = (None, v)"
      using 2(5) 3 r by (auto simp: reach_edges.simps(2) split: option.splits)
    have inner: "\<forall>e \<in> set (edges_at seeds (edge_To edge)). edge_Kind e = k \<longrightarrow> edge_To e \<in> set w \<and> edge_To e \<noteq> target"
        "explored seeds k target (set w - set (edge_To edge # visited)) (set w)"
      using 2(3) [of w] 3 r f by simp_all
    have outer: "\<forall>e \<in> set edges. edge_Kind e = k \<longrightarrow> edge_To e \<in> set v \<and> edge_To e \<noteq> target"
        "explored seeds k target (set v - set w) (set v)"
      using 2(4) [of f w v] 3 r f by simp_all
    have wv: "set w \<subseteq> set v" "set (edge_To edge # visited) \<subseteq> set w"
      using reach_edges_grows [OF f(2)] reach_edges_grows [OF r] by auto
    have "explored seeds k target {edge_To edge} (set v)"
      using inner(1) wv(1) by (auto simp: explored_def link_rel_def)
    then have "explored seeds k target ((set v - set w) \<union> ((set w - set (edge_To edge # visited)) \<union> {edge_To edge})) (set v)"
      using outer(2) explored_mono [OF inner(2) subset_refl wv(1)] by (intro explored_Un)
    then have "explored seeds k target (set v - set visited) (set v)"
      by (rule explored_mono) auto
    then show ?thesis using outer(1) 3 wv by auto
  qed
qed

lemma explored_trancl:
  assumes "explored seeds k target V V" "(x, y) \<in> (link_rel seeds k)\<^sup>+" "x \<in> V"
  shows "y \<in> V \<and> y \<noteq> target"
  using assms(2,3) by (induction rule: trancl_induct) (use assms(1) in \<open>auto simp: explored_def\<close>)

lemma reaches_sound:
  assumes "reaches seeds start k target \<noteq> []"
  shows "chain_in (link_rel seeds k) start (reaches seeds start k target) \<and> last (reaches seeds start k target) = target"
proof -
  obtain path v where r: "reach_edges seeds k target (edges_at seeds start) [start] = (Some path, v)"
      "reaches seeds start k target = path"
    using assms by (cases "reach_edges seeds k target (edges_at seeds start) [start]")
      (auto simp: reaches_def split: option.splits)
  show ?thesis using reach_edges_found [OF r(1) subset_refl] r(2) by simp
qed

lemma reaches_complete:
  assumes "reaches seeds start k target = []"
  shows "(start, target) \<notin> (link_rel seeds k)\<^sup>+"
proof
  assume path: "(start, target) \<in> (link_rel seeds k)\<^sup>+"
  obtain f v where r: "reach_edges seeds k target (edges_at seeds start) [start] = (f, v)" by force
  have "f = None"
  proof (cases f)
    case (Some p)
    then show ?thesis using assms r reach_edges_found [of seeds k target "edges_at seeds start" "[start]" p v start]
      by (simp add: reaches_def)
  qed
  then have n: "\<forall>e \<in> set (edges_at seeds start). edge_Kind e = k \<longrightarrow> edge_To e \<in> set v \<and> edge_To e \<noteq> target"
      "explored seeds k target (set v - {start}) (set v)"
    using reach_edges_none [of seeds k target "edges_at seeds start" "[start]" v] r by simp_all
  have "start \<in> set v" using reach_edges_grows [OF r] by simp
  moreover have "explored seeds k target {start} (set v)" using n(1) by (auto simp: explored_def link_rel_def)
  then have "explored seeds k target (set v) (set v)"
    using explored_mono [OF explored_Un [OF n(2), of "{start}"], of "set v" "set v"] by blast
  ultimately show False using explored_trancl [OF _ path] by blast
qed

lemma reaches_iff: "reaches seeds start k target \<noteq> [] \<longleftrightarrow> (start, target) \<in> (link_rel seeds k)\<^sup>+"
  using reaches_complete reaches_sound chain_in_trancl by metis

subsection \<open>Readiness\<close>

definition blockedIDs :: "Seed list \<Rightarrow> string \<Rightarrow> bool" where
  "blockedIDs seeds i =
     list_ex (\<lambda>seed. \<not> Closed (Status seed) \<and>
       list_ex (\<lambda>edge. edge_Kind edge = EdgeBlocks \<and> edge_To edge = i) (Edges seed)) seeds"

definition parentIDs :: "Seed list \<Rightarrow> string \<Rightarrow> bool" where
  "parentIDs seeds i = list_ex (\<lambda>seed. ParentOf seed = Some i) seeds"

text \<open>
  The loop up the plots of a seed that \<open>underTemplate\<close>, \<open>PlotHeaders\<close> and \<open>ancestors\<close> share: the
  seeds it reaches, until there is no parent, the parent is not planted, or was seen before.
\<close>

function parents_from :: "Seed list \<Rightarrow> Seed \<Rightarrow> string list \<Rightarrow> Seed list" where
  "parents_from seeds seed seen =
     (case ParentOf seed of
        None \<Rightarrow> []
      | Some parent \<Rightarrow>
          if parent \<in> set seen then []
          else (case byID seeds parent of
              None \<Rightarrow> []
            | Some p \<Rightarrow> p # parents_from seeds p (parent # seen)))"
  by pat_completeness auto
termination
proof (relation "measure (\<lambda>(seeds, seed, seen). card (ID ` set seeds - set seen))", goal_cases)
  case (2 seeds seed seen parent p)
  have "parent \<in> ID ` set seeds" using 2(3) byID_Some by blast
  then have "ID ` set seeds - set (parent # seen) \<subset> ID ` set seeds - set seen" using 2(2) by auto
  then show ?case by (simp add: psubset_card_mono)
qed simp

declare parents_from.simps [simp del]

definition underTemplate :: "Seed list \<Rightarrow> Seed \<Rightarrow> bool" where
  "underTemplate seeds seed = (Template seed \<or> list_ex Template (parents_from seeds seed []))"

definition readiness_open :: "Seed list \<Rightarrow> Seed \<Rightarrow> bool" where
  "readiness_open seeds seed =
     (if Closed (Status seed) \<or> Status seed = StatusParked then False
      else if parentIDs seeds (ID seed) \<or> blockedIDs seeds (ID seed) \<or> Gate seed then False
      else if underTemplate seeds seed then False
      else True)"

definition Ready :: "Seed list \<Rightarrow> (Seed \<Rightarrow> bool) \<Rightarrow> Seed list" where
  "Ready seeds claimHolds = filter (\<lambda>seed. \<not> (\<not> readiness_open seeds seed \<or> claimHolds seed)) seeds"

definition Unblocks :: "Seed list \<Rightarrow> string \<Rightarrow> Seed list" where
  "Unblocks seeds closedID =
     (case find_seed seeds closedID of
        None \<Rightarrow> []
      | Some closed \<Rightarrow>
          if \<not> Closed (Status closed) then []
          else filter (\<lambda>seed.
            list_ex (\<lambda>edge. edge_Kind edge = EdgeBlocks \<and> edge_To edge = ID seed) (Edges closed) \<and>
            readiness_open seeds seed) seeds)"

definition Blockers :: "Seed list \<Rightarrow> string \<Rightarrow> string list" where
  "Blockers seeds i =
     concat (map (\<lambda>seed. if Closed (Status seed) then []
       else map (\<lambda>_. ID seed) (filter (\<lambda>edge. edge_Kind edge = EdgeBlocks \<and> edge_To edge = i) (Edges seed))) seeds)"

subsection \<open>Relations and headers\<close>

record Relation =
  rel_Label :: string
  rel_Seed :: string

definition inboundLabel :: "string \<Rightarrow> string" where
  "inboundLabel k =
     (if k = EdgeBlocks then ''blocked-by'' else if k = EdgePartOf then ''has-part''
      else if k = EdgeDiscoveredFrom then ''discovered'' else ''inbound '' @ k)"

definition Relations :: "Seed list \<Rightarrow> string \<Rightarrow> Relation list" where
  "Relations seeds i =
     (case find_seed seeds i of
        None \<Rightarrow> []
      | Some seed \<Rightarrow> map (\<lambda>edge. \<lparr>rel_Label = edge_Kind edge, rel_Seed = edge_To edge\<rparr>) (Edges seed)) @
     concat (map (\<lambda>seed. if ID seed = i then []
       else map (\<lambda>edge. \<lparr>rel_Label = inboundLabel (edge_Kind edge), rel_Seed = ID seed\<rparr>)
              (filter (\<lambda>edge. edge_To edge = i) (Edges seed))) seeds)"

definition PlotHeaders :: "Seed list \<Rightarrow> string list \<Rightarrow> Seed list" where
  "PlotHeaders seeds selected =
     (let headers = concat (map (\<lambda>i. case byID seeds i of None \<Rightarrow> [] | Some seed \<Rightarrow> map ID (parents_from seeds seed [])) selected)
      in filter (\<lambda>seed. ID seed \<in> set headers) seeds)"

subsection \<open>The rows of the tree\<close>

record TreeRow =
  row_Seed :: Seed
  row_Depth :: nat

definition in_scope_parent :: "Seed list \<Rightarrow> Seed \<Rightarrow> string option" where
  "in_scope_parent seeds seed =
     (case ParentOf seed of None \<Rightarrow> None | Some parent \<Rightarrow> if byID seeds parent \<noteq> None then Some parent else None)"

definition tree_children :: "Seed list \<Rightarrow> string \<Rightarrow> Seed list" where
  "tree_children seeds i = filter (\<lambda>seed. in_scope_parent seeds seed = Some i) seeds"

definition tree_roots :: "Seed list \<Rightarrow> Seed list" where
  "tree_roots seeds = filter (\<lambda>seed. in_scope_parent seeds seed = None) seeds"

text \<open>\<open>place_all\<close> places a list of seeds one after the other, each with its subtree, as the closure \<open>place\<close> does.\<close>

function (sequential) place_all :: "Seed list \<Rightarrow> Seed list \<Rightarrow> nat \<Rightarrow> string list \<Rightarrow> TreeRow list \<times> string list" where
  "place_all seeds [] depth placed = ([], placed)"
| "place_all seeds (seed # rest) depth placed =
     (if ID seed \<in> set placed then place_all seeds rest depth placed
      else (case place_all seeds (tree_children seeds (ID seed)) (depth + 1) (ID seed # placed) of
          (below, placed') \<Rightarrow>
            (case place_all seeds rest depth placed' of
               (after, placed'') \<Rightarrow> (\<lparr>row_Seed = seed, row_Depth = depth\<rparr> # below @ after, placed''))))"
  by pat_completeness auto

lemma place_all_placed:
  "place_all_dom (seeds, ss, d, placed) \<Longrightarrow> set placed \<subseteq> set (snd (place_all seeds ss d placed))"
proof (induction seeds ss d placed rule: place_all.pinduct)
  case (2 seeds seed rest depth placed)
  obtain b p where r: "place_all seeds (tree_children seeds (ID seed)) (depth + 1) (ID seed # placed) = (b, p)" by force
  show ?case
  proof (cases "ID seed \<in> set placed")
    case True
    then show ?thesis using 2(2) by (simp add: place_all.psimps(2) [OF 2(1)])
  next
    case False
    have "set placed \<subseteq> set p" using 2(3) [OF False] unfolding r by simp
    also have "set p \<subseteq> set (snd (place_all seeds rest depth p))" using 2(4) [OF False r [symmetric]] .
    finally show ?thesis
      using False r by (simp add: place_all.psimps(2) [OF 2(1)] split_beta)
  qed
qed (simp add: place_all.psimps)

definition unplaced :: "Seed list \<Rightarrow> Seed list \<Rightarrow> string list \<Rightarrow> string set" where
  "unplaced seeds ss placed = ID ` set seeds \<union> ID ` set ss - set placed"

lemma finite_unplaced [simp]: "finite (unplaced seeds ss placed)"
  by (simp add: unplaced_def)

lemma tree_children_sub: "set (tree_children seeds i) \<subseteq> set seeds"
  by (auto simp: tree_children_def)

termination place_all
proof (relation "inv_image (finite_psubset <*lex*> less_than)
    (\<lambda>(seeds, ss, d, placed). (unplaced seeds ss placed, length ss))", goal_cases)
  case 1
  then show ?case by auto
next
  case (2 seeds seed rest depth placed)
  have "unplaced seeds rest placed \<subseteq> unplaced seeds (seed # rest) placed" by (auto simp: unplaced_def)
  then show ?case by (auto simp: finite_psubset_def)
next
  case (3 seeds seed rest depth placed)
  have "unplaced seeds (tree_children seeds (ID seed)) (ID seed # placed) \<subset> unplaced seeds (seed # rest) placed"
    using 3 tree_children_sub [of seeds "ID seed"] by (auto simp: unplaced_def)
  then show ?case by (auto simp: finite_psubset_def)
next
  case (4 seeds seed rest depth placed b p)
  have "set (ID seed # placed) \<subseteq> set p" using place_all_placed [OF 4(3)] unfolding 4(2) [symmetric] by simp
  then have "unplaced seeds rest p \<subset> unplaced seeds (seed # rest) placed" using 4(1) by (auto simp: unplaced_def)
  then show ?case by (auto simp: finite_psubset_def)
qed

declare place_all.simps [simp del]

definition Tree :: "Seed list \<Rightarrow> TreeRow list" where
  "Tree seeds =
     (case place_all seeds (tree_roots seeds) 0 [] of
        (rows, placed) \<Rightarrow> rows @ fst (place_all seeds seeds 0 placed))"

subsection \<open>Holdings\<close>

definition held_less :: "Seed \<Rightarrow> Seed \<Rightarrow> bool" where
  "held_less a b =
     (if StateChangedAt a \<noteq> StateChangedAt b then StateChangedAt a > StateChangedAt b else ID a < ID b)"

definition Held :: "Seed list \<Rightarrow> MemberKey \<Rightarrow> Seed list" where
  "Held seeds member_key =
     (if MemberKey_IsZero member_key then []
      else SliceStable held_less
        (filter (\<lambda>seed. \<not> Closed (Status seed) \<and> Tender seed = Member member_key) seeds))"

fun plots_of_loop :: "Seed list \<Rightarrow> Seed list \<Rightarrow> string list \<Rightarrow> Seed list" where
  "plots_of_loop seeds [] seen = []"
| "plots_of_loop seeds (seed # held) seen =
     (case ParentOf seed of
        None \<Rightarrow> plots_of_loop seeds held seen
      | Some parent \<Rightarrow>
          if parent \<in> set seen then plots_of_loop seeds held seen
          else (case byID seeds parent of
              None \<Rightarrow> plots_of_loop seeds held seen
            | Some crown \<Rightarrow> crown # plots_of_loop seeds held (parent # seen)))"

definition PlotsOf :: "Seed list \<Rightarrow> Seed list \<Rightarrow> Seed list" where
  "PlotsOf seeds held = plots_of_loop seeds held []"

end
