(* ===== verification/Garden_Plot.thy ===== *)
theory Garden_Plot
  imports Garden_Graph
begin

text \<open>
  Plots (\<open>plot.go\<close>) and the check identifiers a plot tree shares (\<open>check.go\<close>, first half): a plot
  is a crown seed with the seeds that are, through \<open>part-of\<close> edges, inside it. The struct
  \<open>PlotTree\<close> caches three lookups of the seed list; here each is a function of that list.
\<close>

subsection \<open>The plot tree\<close>

definition plot_children :: "Seed list \<Rightarrow> string \<Rightarrow> Seed list" where
  "plot_children seeds i = filter (\<lambda>seed. ParentOf seed = Some i) seeds"

text \<open>The inner loop of \<open>descendants\<close>: the children not seen yet, and the ids seen after them.\<close>

fun visit_children :: "Seed list \<Rightarrow> string list \<Rightarrow> Seed list \<times> string list" where
  "visit_children [] seen = ([], seen)"
| "visit_children (child # children) seen =
     (if ID child \<in> set seen then visit_children children seen
      else (case visit_children children (ID child # seen) of (fresh, seen') \<Rightarrow> (child # fresh, seen')))"

lemma visit_children_seen:
  "visit_children cs seen = (fresh, seen') \<Longrightarrow>
     set seen' = set seen \<union> ID ` set cs \<and> set fresh \<subseteq> set cs \<and>
     distinct (map ID fresh) \<and> ID ` set fresh = ID ` set cs - set seen"
  by (induction cs arbitrary: seen fresh seen') (fastforce split: if_splits prod.splits)+

text \<open>The stack of \<open>descendants\<close> has its top first; \<open>out\<close> is the list built so far.\<close>

function descend :: "Seed list \<Rightarrow> string list \<Rightarrow> string list \<Rightarrow> Seed list \<Rightarrow> Seed list" where
  "descend seeds stack seen out =
     (case stack of
        [] \<Rightarrow> out
      | i # stack \<Rightarrow>
          (case visit_children (plot_children seeds i) seen of
             (fresh, seen') \<Rightarrow> descend seeds (rev (map ID fresh) @ stack) seen' (out @ fresh)))"
  by pat_completeness auto
termination
proof (relation "inv_image (finite_psubset <*lex*> less_than)
    (\<lambda>(seeds, stack, seen, out). (ID ` set seeds - set seen, length stack))", goal_cases)
  case 1
  then show ?case by auto
next
  case (2 seeds stack seen out i stack' fresh seen')
  note v = visit_children_seen [OF 2(2) [symmetric]]
  have sub: "set (plot_children seeds i) \<subseteq> set seeds" by (auto simp: plot_children_def)
  show ?case
  proof (cases "fresh = []")
    case True
    then have "ID ` set (plot_children seeds i) \<subseteq> set seen" using v by auto
    then have "set seen' = set seen" using v by auto
    then show ?thesis using True 2 by simp
  next
    case False
    then obtain c where "c \<in> set fresh" by (cases fresh) auto
    then have "ID c \<in> ID ` set seeds - set seen" "ID c \<in> set seen'" using v sub by auto
    then have "ID ` set seeds - set seen' \<subset> ID ` set seeds - set seen" using v by blast
    then show ?thesis by (simp add: finite_psubset_def)
  qed
qed

declare descend.simps [simp del]

definition descendants :: "Seed list \<Rightarrow> string \<Rightarrow> Seed list" where
  "descendants seeds crownID =
     (if plot_children seeds crownID = [] then [] else descend seeds [crownID] [crownID] [])"

definition InPlot :: "Seed list \<Rightarrow> string \<Rightarrow> Seed list" where
  "InPlot seeds crownID =
     (let inside = crownID # map ID (descendants seeds crownID)
      in filter (\<lambda>seed. ID seed \<in> set inside) seeds)"

definition plot_leaf :: "Seed list \<Rightarrow> string \<Rightarrow> bool" where
  "plot_leaf seeds i = (plot_children seeds i = [])"

definition ancestors :: "Seed list \<Rightarrow> string \<Rightarrow> Seed list" where
  "ancestors seeds i = (case byID seeds i of None \<Rightarrow> [] | Some seed \<Rightarrow> parents_from seeds seed [i])"

definition plot_root :: "Seed list \<Rightarrow> string \<Rightarrow> string" where
  "plot_root seeds i = (case ancestors seeds i of [] \<Rightarrow> i | as \<Rightarrow> ID (last as))"

definition OpenChildren :: "Seed list \<Rightarrow> string \<Rightarrow> Seed list" where
  "OpenChildren seeds plotID = filter (\<lambda>seed. ParentOf seed = Some plotID \<and> \<not> Closed (Status seed)) seeds"

definition Stale :: "Seed list \<Rightarrow> (string \<rightharpoonup> time) \<Rightarrow> duration \<Rightarrow> time \<Rightarrow> Seed list" where
  "Stale seeds lastMoved window now =
     filter (\<lambda>seed. \<not> Closed (Status seed) \<and>
       (case lastMoved (ID seed) of None \<Rightarrow> False | Some moved \<Rightarrow> time_sub now moved \<ge> window)) seeds"

subsection \<open>Check states and tallies\<close>

datatype CheckState = CheckOpen | CheckReported | CheckConfirmed | CheckRejected

definition State :: "CheckResult \<Rightarrow> CheckState" where
  "State r = (case res_Verdict r of
     Some v \<Rightarrow> if ver_Confirmed v then CheckConfirmed else CheckRejected
   | None \<Rightarrow> (case res_Report r of Some _ \<Rightarrow> CheckReported | None \<Rightarrow> CheckOpen))"

definition no_result :: CheckResult where
  "no_result = \<lparr>res_Report = None, res_Verdict = None\<rparr>"

definition result_at :: "Seed \<Rightarrow> string \<Rightarrow> CheckResult" where
  "result_at seed k = (case CheckResults seed k of None \<Rightarrow> no_result | Some r \<Rightarrow> r)"

record EffectiveCheck =
  eff_Check :: Check
  eff_From :: string
  eff_Result :: CheckResult

record RollupEntry =
  ru_SeedID :: string
  ru_State :: CheckState
  ru_HasReport :: bool

record SharedCheckRollup =
  scr_Check :: Check
  scr_Seeds :: "RollupEntry list"

record CheckTally =
  tl_Total :: int
  tl_Reported :: int
  tl_Confirmed :: int
  tl_Rejected :: int

definition no_tally :: CheckTally where
  "no_tally = \<lparr>tl_Total = 0, tl_Reported = 0, tl_Confirmed = 0, tl_Rejected = 0\<rparr>"

definition Tally_Add :: "CheckTally \<Rightarrow> CheckState \<Rightarrow> CheckTally" where
  "Tally_Add t state =
     (let t = t\<lparr>tl_Total := tl_Total t + 1\<rparr> in
      case state of
        CheckReported \<Rightarrow> t\<lparr>tl_Reported := tl_Reported t + 1\<rparr>
      | CheckConfirmed \<Rightarrow> t\<lparr>tl_Confirmed := tl_Confirmed t + 1\<rparr>
      | CheckRejected \<Rightarrow> t\<lparr>tl_Rejected := tl_Rejected t + 1\<rparr>
      | CheckOpen \<Rightarrow> t)"

definition AddTally :: "CheckTally \<Rightarrow> CheckTally \<Rightarrow> CheckTally" where
  "AddTally t u =
     \<lparr>tl_Total = tl_Total t + tl_Total u, tl_Reported = tl_Reported t + tl_Reported u,
      tl_Confirmed = tl_Confirmed t + tl_Confirmed u, tl_Rejected = tl_Rejected t + tl_Rejected u\<rparr>"

definition Tally_Open :: "CheckTally \<Rightarrow> int" where
  "Tally_Open t = tl_Total t - tl_Reported t - tl_Confirmed t - tl_Rejected t"

definition sharedResultKey :: "string \<Rightarrow> string \<Rightarrow> string" where
  "sharedResultKey plotID checkID = plotID @ ''/'' @ checkID"

definition EffectiveChecks :: "Seed list \<Rightarrow> string \<Rightarrow> EffectiveCheck list" where
  "EffectiveChecks seeds i =
     (case byID seeds i of
        None \<Rightarrow> []
      | Some seed \<Rightarrow>
          (let own = map (\<lambda>check. \<lparr>eff_Check = check, eff_From = [], eff_Result = result_at seed (chk_ID check)\<rparr>)
                 (filter (\<lambda>check. \<not> chk_Shared check) (Checks seed))
           in if \<not> plot_leaf seeds i then own
              else own @ concat (map (\<lambda>plot.
                     map (\<lambda>check. \<lparr>eff_Check = check, eff_From = ID plot,
                            eff_Result = result_at seed (sharedResultKey (ID plot) (chk_ID check))\<rparr>)
                       (filter chk_Shared (Checks plot))) (ancestors seeds i))))"

definition SharedCheckRollups :: "Seed list \<Rightarrow> string \<Rightarrow> SharedCheckRollup list" where
  "SharedCheckRollups seeds i =
     (case byID seeds i of
        None \<Rightarrow> []
      | Some seed \<Rightarrow>
          (let leaves = filter (\<lambda>m. ID m \<noteq> i \<and> plot_leaf seeds (ID m)) (InPlot seeds i)
           in map (\<lambda>check. \<lparr>scr_Check = check, scr_Seeds = map (\<lambda>leaf.
                  (let result = result_at leaf (sharedResultKey i (chk_ID check))
                   in \<lparr>ru_SeedID = ID leaf, ru_State = State result, ru_HasReport = (res_Report result \<noteq> None)\<rparr>)) leaves\<rparr>)
                (filter chk_Shared (Checks seed))))"

definition EffectiveCheckTally :: "Seed list \<Rightarrow> string \<Rightarrow> CheckTally" where
  "EffectiveCheckTally seeds i =
     foldl (\<lambda>tally check. if \<not> chk_Removed (eff_Check check) then Tally_Add tally (State (eff_Result check)) else tally)
       no_tally (EffectiveChecks seeds i)"

definition PlotCheckTally :: "Seed list \<Rightarrow> string \<Rightarrow> CheckTally" where
  "PlotCheckTally seeds crownID =
     foldl (\<lambda>tally seed. AddTally tally (EffectiveCheckTally seeds (ID seed)))
       (EffectiveCheckTally seeds crownID) (descendants seeds crownID)"

record Progress =
  pg_Total :: int
  pg_Done :: int
  pg_Withered :: int
  pg_Growing :: int
  pg_Parked :: int
  pg_Ready :: int
  pg_Blocked :: int
  pg_Checks :: CheckTally

definition progress_step :: "Seed list \<Rightarrow> (string \<Rightarrow> bool) \<Rightarrow> Progress \<Rightarrow> Seed \<Rightarrow> Progress" where
  "progress_step seeds ready p seed =
     (let p = p\<lparr>pg_Total := pg_Total p + 1\<rparr>;
          p = (if Status seed = StatusHarvested then p\<lparr>pg_Done := pg_Done p + 1\<rparr>
               else if Status seed = StatusWithered then p\<lparr>pg_Withered := pg_Withered p + 1\<rparr>
               else if Status seed = StatusGrowing then p\<lparr>pg_Growing := pg_Growing p + 1\<rparr>
               else if Status seed = StatusParked then p\<lparr>pg_Parked := pg_Parked p + 1\<rparr>
               else p);
          p = (if ready (ID seed) then p\<lparr>pg_Ready := pg_Ready p + 1\<rparr> else p)
      in if \<not> Closed (Status seed) \<and> blockedIDs seeds (ID seed) then p\<lparr>pg_Blocked := pg_Blocked p + 1\<rparr> else p)"

definition Plot_Progress :: "Seed list \<Rightarrow> string \<Rightarrow> (string \<Rightarrow> bool) \<Rightarrow> Progress" where
  "Plot_Progress seeds crownID ready =
     (let p = foldl (progress_step seeds ready)
            \<lparr>pg_Total = 0, pg_Done = 0, pg_Withered = 0, pg_Growing = 0, pg_Parked = 0, pg_Ready = 0,
             pg_Blocked = 0, pg_Checks = no_tally\<rparr> (descendants seeds crownID)
      in if pg_Total p > 0 then p\<lparr>pg_Checks := PlotCheckTally seeds crownID\<rparr> else p)"

end
