(* ===== verification/Garden_Check.thy ===== *)
theory Garden_Check
  imports Garden_Plot
begin

text \<open>
  Checks of a seed (\<open>check.go\<close>), linking seeds (\<open>Link\<close> and \<open>Unlink\<close> of \<open>edges.go\<close>) and plot payloads
  (\<open>plot.go\<close>). Whether a cited string is an http(s) URL with a host is decided by \<open>url.Parse\<close>; it
  is the argument \<open>web_url\<close>. The time of a move enters as its RFC 3339 text.
\<close>

subsection \<open>Numbers in identifiers\<close>

definition digit_value :: "char \<Rightarrow> nat" where
  "digit_value c = of_char c - 48"

definition ParseUint32 :: "string \<Rightarrow> nat option" where
  "ParseUint32 s =
     (let n = foldl (\<lambda>n c. 10 * n + digit_value c) 0 s in
      if s = [] \<or> \<not> list_all is_digit s \<or> n \<ge> 2 ^ 32 then None else Some n)"

fun FormatUint :: "nat \<Rightarrow> string" where
  "FormatUint n = (if n < 10 then [char_of (48 + n)] else FormatUint (n div 10) @ [char_of (48 + n mod 10)])"

declare FormatUint.simps [simp del]

definition TrimPrefix :: "string \<Rightarrow> string \<Rightarrow> string" where
  "TrimPrefix s p = (case strip_prefix p s of None \<Rightarrow> s | Some rest \<Rightarrow> rest)"

definition checkIDNumbered :: "nat \<Rightarrow> string" where
  "checkIDNumbered n = ''C'' @ FormatUint n"

definition highestCheckNumber :: "Check list \<Rightarrow> nat" where
  "highestCheckNumber checks =
     foldl (\<lambda>highest check. case ParseUint32 (TrimPrefix (chk_ID check) ''C'') of
       Some n \<Rightarrow> max highest n | None \<Rightarrow> highest) 0 checks"

definition checksUnder :: "Seed list \<Rightarrow> string \<Rightarrow> Check list" where
  "checksUnder seeds i = concat (map Checks (InPlot seeds i))"

text \<open>\<open>owners\<close> keeps the last seed that has a check id.\<close>

definition check_owners :: "Seed list \<Rightarrow> string \<rightharpoonup> string" where
  "check_owners members =
     foldl (\<lambda>owners (i, owner). owners(i \<mapsto> owner)) Map.empty
       (concat (map (\<lambda>seed. map (\<lambda>check. (chk_ID check, ID seed)) (Checks seed)) members))"

definition UsedCheckID :: "Seed list \<Rightarrow> string \<Rightarrow> Check list \<Rightarrow> (string \<times> string) option" where
  "UsedCheckID seeds plotID checks =
     (let owners = check_owners (InPlot seeds (plot_root seeds plotID)) in
      case find (\<lambda>check. owners (chk_ID check) \<noteq> None) checks of
        None \<Rightarrow> None
      | Some check \<Rightarrow> Some (chk_ID check, the (owners (chk_ID check))))"

definition NextCheckID :: "Seed list \<Rightarrow> string \<Rightarrow> string" where
  "NextCheckID seeds seedID = checkIDNumbered (highestCheckNumber (checksUnder seeds (plot_root seeds seedID)) + 1)"

fun number_checks :: "nat \<Rightarrow> Check list \<Rightarrow> Check list" where
  "number_checks n [] = []"
| "number_checks n (check # checks) =
     (if chk_ID check = [] then check\<lparr>chk_ID := checkIDNumbered n\<rparr> # number_checks (n + 1) checks
      else check # number_checks n checks)"

definition NumberChecks :: "Seed list \<Rightarrow> string \<Rightarrow> Check list \<Rightarrow> Check list" where
  "NumberChecks seeds plotID checks =
     number_checks (max (highestCheckNumber (checksUnder seeds (plot_root seeds plotID))) (highestCheckNumber checks) + 1) checks"

definition usedCheckIDRefusal :: "string \<Rightarrow> string \<Rightarrow> string \<Rightarrow> refusal" where
  "usedCheckIDRefusal checkID owner nextID = Refuse RefusalConflict ''is already used in this plot'' [checkID, owner, nextID]"

definition RefuseUsedCheckIDs :: "Seed list \<Rightarrow> string \<Rightarrow> Check list \<Rightarrow> refusal + unit" where
  "RefuseUsedCheckIDs seeds plotID checks =
     (case UsedCheckID seeds plotID checks of
        Some (checkID, owner) \<Rightarrow> Inl (usedCheckIDRefusal checkID owner (NextCheckID seeds plotID))
      | None \<Rightarrow> Inr ())"

subsection \<open>Linking\<close>

definition linkEnds :: "Seed list \<Rightarrow> string \<Rightarrow> string \<Rightarrow> string \<Rightarrow> refusal + (Seed \<times> Seed)" where
  "linkEnds seeds fromID k toID =
     (case find_seed seeds fromID of
        None \<Rightarrow> Inl (Refuse RefusalNotFound ''no such seed'' [fromID])
      | Some src \<Rightarrow>
          (case find_seed seeds toID of
             None \<Rightarrow> Inl (Refuse RefusalNotFound ''no such seed'' [toID])
           | Some dst \<Rightarrow>
               if ID src = ID dst then Inl (Refuse RefusalInvalidInput ''cannot link itself'' [ID src, k])
               else Inr (src, dst)))"

definition cycleRefusal :: "string \<Rightarrow> string \<Rightarrow> string \<Rightarrow> string list \<Rightarrow> refusal" where
  "cycleRefusal fromID k toID path =
     (if k = EdgePartOf then Refuse RefusalWrongState ''would put the plot inside itself'' (fromID # toID # path)
      else Refuse RefusalWrongState ''would deadlock them'' (fromID # toID # path))"

text \<open>The seed to store and whether it changed; a link that is there already changes nothing.\<close>

definition Link :: "Seed list \<Rightarrow> string \<Rightarrow> string \<Rightarrow> string \<Rightarrow> refusal + (Seed \<times> bool)" where
  "Link seeds fromID k toID =
     bind_result (linkEnds seeds fromID k toID) (\<lambda>(src, dst).
       let edge = \<lparr>edge_Kind = k, edge_To = ID dst\<rparr> in
       if edge \<in> set (Edges src) then Inr (src, False)
       else if k = EdgePartOf \<and> ParentOf src \<noteq> None
       then Inl (Refuse RefusalWrongState ''is already part of'' [ID src, the (ParentOf src), ID dst])
       else (case (if k = EdgePartOf then UsedCheckID seeds (ID dst) (checksUnder seeds (ID src)) else None) of
           Some (checkID, owner) \<Rightarrow>
             Inl (Refuse RefusalConflict ''would both be in one plot tree with check''
               [ID src, ID dst, checkID, owner,
                checkIDNumbered (max (highestCheckNumber (checksUnder seeds (plot_root seeds (ID dst))))
                  (highestCheckNumber (checksUnder seeds (ID src))) + 1)])
         | None \<Rightarrow>
             (let path = (if k = EdgeBlocks \<or> k = EdgePartOf then reaches seeds (ID dst) k (ID src) else []) in
              if path \<noteq> [] then Inl (cycleRefusal (ID src) k (ID dst) path)
              else Inr (src\<lparr>Edges := Edges src @ [edge]\<rparr>, True))))"

definition edgeInventory :: "Seed \<Rightarrow> string list" where
  "edgeInventory seed = map (\<lambda>edge. edge_Kind edge @ '' '' @ edge_To edge) (Edges seed)"

definition Unlink :: "Seed list \<Rightarrow> string \<Rightarrow> string \<Rightarrow> string \<Rightarrow> refusal + Seed" where
  "Unlink seeds fromID k toID =
     bind_result (linkEnds seeds fromID k toID) (\<lambda>(src, dst).
       let edge = \<lparr>edge_Kind = k, edge_To = ID dst\<rparr> in
       if edge \<notin> set (Edges src)
       then Inl (Refuse RefusalNotFound ''is not linked'' ([ID src, k, ID dst] @ edgeInventory src))
       else Inr (src\<lparr>Edges := remove1 edge (Edges src)\<rparr>))"

subsection \<open>Validating checks\<close>

definition MaxChecksPerSeed :: nat where "MaxChecksPerSeed = 200"
definition MaxCheckTextChars :: nat where "MaxCheckTextChars = 2000"
definition MaxCheckSummaryChars :: nat where "MaxCheckSummaryChars = 400"
definition MaxCheckEvidenceItems :: nat where "MaxCheckEvidenceItems = 100"

definition CheckVerbs :: "string list" where
  "CheckVerbs = [''add'', ''edit'', ''remove'', ''restore'', ''report'', ''confirm'', ''reject'', ''uncheck'', ''reopen'']"

definition ParseCheckVerb :: "string \<Rightarrow> refusal + string" where
  "ParseCheckVerb raw =
     (let verb = TrimSpace (ToLower raw) in
      if verb \<in> set CheckVerbs then Inr verb
      else Inl (Refuse RefusalInvalidInput ''not something a check does'' (raw # CheckVerbs)))"

definition ValidateCheckID :: "string \<Rightarrow> refusal + unit" where
  "ValidateCheckID i = (case strip_prefix ''C'' i of
     None \<Rightarrow> Inl (Refuse RefusalInvalidInput ''not a check id'' [i])
   | Some digits \<Rightarrow>
       if digits = [] \<or> HasPrefix digits ''0'' then Inl (Refuse RefusalInvalidInput ''not a check id'' [i])
       else if ParseUint32 digits = None then Inl (Refuse RefusalInvalidInput ''not a check id'' [i])
       else Inr ())"

definition validateCheckText :: "string \<Rightarrow> string \<Rightarrow> refusal + unit" where
  "validateCheckText i txt =
     (if TrimSpace txt = [] then Inl (Refuse RefusalInvalidInput ''needs a statement'' [i])
      else if RuneCount txt > MaxCheckTextChars then Inl (Refuse RefusalLimit ''max_check_text_chars'' [i])
      else Inr ())"

definition validateCheckLine :: "string \<Rightarrow> string \<Rightarrow> string \<Rightarrow> refusal + unit" where
  "validateCheckLine i field txt =
     (if RuneCount txt > MaxCheckSummaryChars then Inl (Refuse RefusalLimit ''max_check_chars'' [field, i]) else Inr ())"

record ReportText =
  rt_Summary :: string
  rt_Detail :: string

definition ParseReportText :: "string \<Rightarrow> refusal + ReportText" where
  "ParseReportText txt =
     (if length txt > MaxNoteBytes then Inl (Refuse RefusalLimit ''max_note_bytes'' [])
      else (let (summary, detail) = (case Cut_at (char_of (10 :: nat)) (TrimSpace txt) of
                   None \<Rightarrow> (TrimSpace txt, []) | Some (a, b) \<Rightarrow> (a, b));
                summary = TrimSpace summary
            in if RuneCount summary > MaxCheckSummaryChars then Inl (Refuse RefusalLimit ''max_check_summary_chars'' [])
               else Inr \<lparr>rt_Summary = summary, rt_Detail = TrimSpace detail\<rparr>))"

definition JoinProblems :: "refusal list \<Rightarrow> refusal option" where
  "JoinProblems problems = (case problems of
     [] \<Rightarrow> None
   | [p] \<Rightarrow> Some p
   | p # ps \<Rightarrow> Some (Refuse (reason_of p) ''problems'' (map tag_of problems)))"

fun validate_definitions :: "Check list \<Rightarrow> string list \<Rightarrow> refusal + unit" where
  "validate_definitions [] seen = Inr ()"
| "validate_definitions (check # checks) seen =
     bind_result (ValidateCheckID (chk_ID check)) (\<lambda>_.
       if chk_ID check \<in> set seen then Inl (Refuse RefusalInvalidInput ''is defined twice'' [chk_ID check])
       else bind_result (validateCheckText (chk_ID check) (chk_Text check)) (\<lambda>_.
         validate_definitions checks (chk_ID check # seen)))"

definition ValidateCheckDefinitions :: "Check list \<Rightarrow> refusal + unit" where
  "ValidateCheckDefinitions checks =
     (if length checks > MaxChecksPerSeed then Inl (Refuse RefusalLimit ''max_checks_per_seed'' [])
      else validate_definitions checks [])"

subsection \<open>Check moves\<close>

record CheckMove =
  cm_Verb :: string
  cm_CheckID :: string
  cm_Text :: string
  cm_Shared :: bool
  cm_Summary :: string
  cm_Evidence :: "string list"
  cm_Commit :: string
  cm_Actor :: Actor

definition ParseCheckEvidence :: "(string \<Rightarrow> bool) \<Rightarrow> string \<Rightarrow> CheckEvidence list \<Rightarrow> refusal + CheckEvidence" where
  "ParseCheckEvidence web_url raw artifacts =
     (let raw = TrimSpace raw in
      case find (\<lambda>artifact. ev_Artifact artifact = raw) artifacts of
        Some artifact \<Rightarrow> Inr artifact
      | None \<Rightarrow>
          if web_url raw then Inr \<lparr>ev_Artifact = [], ev_URL = raw, ev_Size = 0, ev_ModifiedAt = []\<rparr>
          else Inl (Refuse RefusalInvalidInput ''evidence is not a file, an artifact or a URL'' (raw # map ev_Artifact artifacts)))"

definition evidenceLabels :: "CheckEvidence list \<Rightarrow> string" where
  "evidenceLabels evidence = join_with '', '' (map (\<lambda>e. ev_Artifact e @ ev_URL e) evidence)"

definition shortCommit :: "string \<Rightarrow> string" where
  "shortCommit commit = take 7 commit"

definition middle_dot :: string where
  "middle_dot = '' '' @ map char_of [0xC2, 0xB7 :: nat] @ '' ''"

fun parse_evidence :: "(string \<Rightarrow> bool) \<Rightarrow> string list \<Rightarrow> CheckEvidence list \<Rightarrow> CheckEvidence list \<times> refusal list" where
  "parse_evidence web_url [] artifacts = ([], [])"
| "parse_evidence web_url (cited # others) artifacts =
     (let (evidence, problems) = parse_evidence web_url others artifacts in
      case ParseCheckEvidence web_url cited artifacts of
        Inl e \<Rightarrow> (evidence, e # problems)
      | Inr parsed \<Rightarrow> (parsed # evidence, problems))"

text \<open>The report with the text of its note, or the problems found.\<close>

definition buildCheckReport ::
  "(string \<Rightarrow> bool) \<Rightarrow> string \<Rightarrow> string \<Rightarrow> CheckMove \<Rightarrow> CheckEvidence list \<Rightarrow> string \<Rightarrow> refusal list + (CheckReport \<times> string)" where
  "buildCheckReport web_url seedID checkID move artifacts at_time =
     (let (txt, problems) =
        (if TrimSpace (cm_Summary move) = []
         then (\<lparr>rt_Summary = [], rt_Detail = []\<rparr>, [Refuse RefusalInvalidInput ''a report says in a line what proves it'' [checkID, seedID]])
         else (case ParseReportText (cm_Summary move) of
             Inl e \<Rightarrow> (\<lparr>rt_Summary = [], rt_Detail = []\<rparr>, [e])
           | Inr parsed \<Rightarrow> (parsed, [])));
          problems = problems @
            (if length (cm_Evidence move) > MaxCheckEvidenceItems then [Refuse RefusalLimit ''max_check_evidence_items'' []] else []);
          (evidence, bad) = parse_evidence web_url (cm_Evidence move) artifacts;
          problems = problems @ bad
      in if problems \<noteq> [] then Inl problems
         else (let report = \<lparr>rep_Summary = rt_Summary txt, rep_Evidence = evidence, rep_Commit = TrimSpace (cm_Commit move),
                     rep_Detail = (rt_Detail txt \<noteq> []), rep_By = cm_Actor move, rep_At = at_time\<rparr>;
                   cited = evidenceLabels evidence;
                   note = rt_Summary txt @ (if cited \<noteq> [] then middle_dot @ cited else []) @
                     (if rep_Commit report \<noteq> [] then middle_dot @ ''@'' @ shortCommit (rep_Commit report) else []) @
                     (if rt_Detail txt \<noteq> [] then [char_of (10 :: nat), char_of (10 :: nat)] @ rt_Detail txt else [])
               in Inr (report, note)))"

definition notEffective :: "string \<Rightarrow> string \<Rightarrow> EffectiveCheck list \<Rightarrow> refusal" where
  "notEffective seedID checkID effective =
     (let ids = map (\<lambda>c. chk_ID (eff_Check c)) (filter (\<lambda>c. \<not> chk_Removed (eff_Check c)) effective) in
      if ids = [] then Refuse RefusalNotFound ''has no checks at all'' [seedID, checkID]
      else Refuse RefusalNotFound ''has no such check'' ([seedID, checkID] @ ids))"

definition notDefined :: "string \<Rightarrow> string \<Rightarrow> Check list \<Rightarrow> refusal" where
  "notDefined seedID checkID checks =
     (let ids = map chk_ID checks in
      if ids = [] then Refuse RefusalNotFound ''defines no checks'' [seedID, checkID]
      else Refuse RefusalNotFound ''defines no such check'' ([seedID, checkID] @ ids))"

fun check_index :: "Check list \<Rightarrow> string \<Rightarrow> nat option" where
  "check_index [] i = None"
| "check_index (c # cs) i = (if chk_ID c = i then Some 0 else map_option Suc (check_index cs i))"

text \<open>A definition move gives the headline, the detail and the checks of the seed after it.\<close>

definition applyDefinitionMove ::
  "Seed list \<Rightarrow> Seed \<Rightarrow> string \<Rightarrow> CheckMove \<Rightarrow> refusal + (string \<times> string \<times> Check list)" where
  "applyDefinitionMove seeds seed checkID move =
     (let txt = TrimSpace (cm_Text move);
          checks = Checks seed;
          index = check_index checks checkID
      in if cm_Verb move = ''add'' then
           (case index of
              Some ix \<Rightarrow>
                if chk_Removed (checks ! ix)
                then Inl (Refuse RefusalWrongState ''a removed id is never reused'' [checkID, ID seed, NextCheckID seeds (ID seed)])
                else Inl (Refuse RefusalConflict ''already defines'' [ID seed, checkID, NextCheckID seeds (ID seed)])
            | None \<Rightarrow>
                bind_result (RefuseUsedCheckIDs seeds (ID seed)
                    [\<lparr>chk_ID = checkID, chk_Text = [], chk_Shared = False, chk_Removed = False\<rparr>]) (\<lambda>_.
                bind_result (validateCheckText checkID txt) (\<lambda>_.
                  if length checks + 1 > MaxChecksPerSeed then Inl (Refuse RefusalLimit ''max_checks_per_seed'' [ID seed])
                  else Inr (checkID @ (if cm_Shared move then '' added, shared by every seed below'' else '' added''), txt,
                         checks @ [\<lparr>chk_ID = checkID, chk_Text = txt, chk_Shared = cm_Shared move, chk_Removed = False\<rparr>]))))
         else (case index of
             None \<Rightarrow> Inl (notDefined (ID seed) checkID checks)
           | Some ix \<Rightarrow>
               (let check = checks ! ix in
                if cm_Verb move = ''edit'' then
                  (if chk_Removed check then Inl (Refuse RefusalWrongState ''is removed, restore it first'' [checkID, ID seed])
                   else bind_result (validateCheckText checkID txt) (\<lambda>_.
                     Inr (checkID @ '' edited'', txt @ '' (was: '' @ chk_Text check @ ''; any result answered the old wording)'',
                       checks[ix := check\<lparr>chk_Text := txt\<rparr>])))
                else if cm_Verb move = ''remove'' then
                  (if chk_Removed check then Inl (Refuse RefusalWrongState ''is already removed'' [checkID, ID seed])
                   else Inr (checkID @ '' removed'', [], checks[ix := check\<lparr>chk_Removed := True\<rparr>]))
                else if cm_Verb move = ''restore'' then
                  (if \<not> chk_Removed check then Inl (Refuse RefusalWrongState ''is not removed'' [checkID, ID seed])
                   else Inr (checkID @ '' restored'', [], checks[ix := check\<lparr>chk_Removed := False\<rparr>]))
                else Inl (Refuse RefusalInvalidInput ''not a definition move'' [cm_Verb move]))))"

definition state_name :: "CheckState \<Rightarrow> string" where
  "state_name s = (case s of CheckOpen \<Rightarrow> ''open'' | CheckReported \<Rightarrow> ''reported''
     | CheckConfirmed \<Rightarrow> ''confirmed'' | CheckRejected \<Rightarrow> ''rejected'')"

definition applyResultMove ::
  "(string \<Rightarrow> bool) \<Rightarrow> string \<Rightarrow> string \<Rightarrow> CheckResult \<Rightarrow> CheckMove \<Rightarrow> CheckEvidence list \<Rightarrow> string \<Rightarrow>
     refusal + (string \<times> string \<times> CheckResult)" where
  "applyResultMove web_url seedID checkID result move artifacts at_time =
     (let summary = TrimSpace (cm_Summary move);
          state = State result
      in if cm_Verb move = ''report'' then
           (case buildCheckReport web_url seedID checkID move artifacts at_time of
              Inl problems \<Rightarrow> Inl (the (JoinProblems problems))
            | Inr (report, detail) \<Rightarrow> Inr (checkID @ '' reported'', detail, \<lparr>res_Report = Some report, res_Verdict = None\<rparr>))
         else if cm_Verb move = ''confirm'' \<or> cm_Verb move = ''reject'' then
           (let confirmed = (cm_Verb move = ''confirm'') in
            if \<not> confirmed \<and> summary = []
            then Inl (Refuse RefusalInvalidInput ''a rejection says what would prove it'' [checkID, seedID])
            else bind_result (validateCheckLine checkID ''reason'' summary) (\<lambda>_.
              (let result = result\<lparr>res_Verdict := Some \<lparr>ver_Confirmed = confirmed, ver_Reason = summary,
                     ver_By = cm_Actor move, ver_At = at_time\<rparr>\<rparr>
               in Inr (checkID @ '' '' @ state_name (State result) @ (if res_Report result = None then '', no report'' else []),
                    summary, result))))
         else if cm_Verb move = ''uncheck'' then
           (if res_Verdict result = None
            then Inl (Refuse RefusalWrongState ''has no verdict to clear'' [checkID, seedID, state_name state])
            else Inr (checkID @ '' unchecked'', summary, result\<lparr>res_Verdict := None\<rparr>))
         else if cm_Verb move = ''reopen'' then
           (if state = CheckOpen then Inl (Refuse RefusalWrongState ''is already open'' [checkID, seedID])
            else Inr (checkID @ '' reopened'', summary, no_result))
         else Inl (Refuse RefusalInvalidInput ''not a result move'' [cm_Verb move]))"

definition ApplyCheckMove ::
  "(string \<Rightarrow> bool) \<Rightarrow> Seed list \<Rightarrow> string \<Rightarrow> CheckMove \<Rightarrow> CheckEvidence list \<Rightarrow> string \<Rightarrow> refusal + (Seed \<times> Note)" where
  "ApplyCheckMove web_url seeds i move artifacts at_time =
     (case byID seeds i of
        None \<Rightarrow> Inl (Refuse RefusalNotFound ''no such seed'' [i])
      | Some seed \<Rightarrow>
          (let checkID = TrimSpace (cm_CheckID move) in
           bind_result (ValidateCheckID checkID) (\<lambda>_.
           bind_result
             (if cm_Verb move \<in> {''add'', ''edit'', ''remove'', ''restore''} then
                bind_result (applyDefinitionMove seeds seed checkID move) (\<lambda>(headline, detail, checks).
                  Inr (headline, detail, seed\<lparr>Checks := checks\<rparr>))
              else
                (let effective = EffectiveChecks seeds i in
                 case find (\<lambda>c. chk_ID (eff_Check c) = checkID \<and> \<not> chk_Removed (eff_Check c)) effective of
                   None \<Rightarrow>
                     (let missing = notEffective (ID seed) checkID effective in
                      Inl (if cm_Verb move = ''report''
                           then the (JoinProblems (missing #
                             (case buildCheckReport web_url (ID seed) checkID move artifacts at_time of
                                Inl problems \<Rightarrow> problems | Inr _ \<Rightarrow> [])))
                           else missing))
                 | Some c \<Rightarrow>
                     (let key = (if eff_From c \<noteq> [] then sharedResultKey (eff_From c) checkID else checkID) in
                      bind_result (applyResultMove web_url (ID seed) checkID (eff_Result c) move artifacts at_time)
                        (\<lambda>(headline, detail, result).
                          Inr (headline, detail,
                            seed\<lparr>CheckResults :=
                              (if res_Report result = None \<and> res_Verdict result = None
                               then (CheckResults seed)(key := None)
                               else (CheckResults seed)(key \<mapsto> result))\<rparr>)))))
             (\<lambda>(headline, detail, next).
               (let body = headline @ (if detail \<noteq> [] then '': '' @ detail else []) in
                bind_result (ValidateNote body) (\<lambda>_.
                  Inr (next, \<lparr>note_ID = [], note_Seed = ID seed, note_Kind = ''check'', note_Body = body,
                    note_Author = cm_Actor move, note_Artifact = None\<rparr>)))))))"

end
