(* ===== verification/Garden_Graph_Laws.thy ===== *)
theory Garden_Graph_Laws
  imports Garden_Check "HOL-Library.Multiset"
begin

text \<open>
  What the graph operations guarantee: the search decides reachability, linking keeps the blocking
  and the plot relation free of cycles, unlinking undoes it, closing a seed frees exactly the seeds
  \<open>Unblocks\<close> lists, and the tree view shows every seed once. The locale \<open>path_search\<close> is what a
  client of the search relies on.
\<close>

subsection \<open>A search that decides reachability\<close>

locale path_search =
  fixes rel :: "('a \<times> 'a) set" and found :: "'a \<Rightarrow> 'a \<Rightarrow> bool"
  assumes found_iff: "found a b \<longleftrightarrow> (a, b) \<in> rel\<^sup>+"
begin

lemma acyclic_found: "acyclic rel \<longleftrightarrow> (\<forall>a. \<not> found a a)"
  by (simp add: acyclic_def found_iff)

lemma guarded_insert:
  assumes "acyclic rel" "a \<noteq> b" "\<not> found b a"
  shows "acyclic (insert (a, b) rel)"
  using assms by (simp add: found_iff rtrancl_eq_or_trancl)

end

interpretation link_search: path_search "link_rel seeds k" "\<lambda>a b. reaches seeds a k b \<noteq> []" for seeds k
  by unfold_locales (rule reaches_iff)

subsection \<open>Storing a changed seed\<close>

definition put_seed :: "Seed list \<Rightarrow> Seed \<Rightarrow> Seed list" where
  "put_seed seeds s = map (\<lambda>t. if ID t = ID s then s else t) seeds"

lemma put_seed_ids [simp]: "map ID (put_seed seeds s) = map ID seeds"
  by (simp add: put_seed_def)

lemma set_put_seed: "set (put_seed seeds s) = (\<lambda>t. if ID t = ID s then s else t) ` set seeds"
  by (simp add: put_seed_def)

lemma byID_put_seed:
  "byID (put_seed seeds s) i = (if i = ID s \<and> i \<in> ID ` set seeds then Some s else byID seeds i)"
  by (induction seeds rule: rev_induct) (auto simp: byID_snoc put_seed_def)

lemma edges_at_put_seed:
  "edges_at (put_seed seeds s) i = (if i = ID s \<and> i \<in> ID ` set seeds then Edges s else edges_at seeds i)"
  by (auto simp: edges_at_def byID_put_seed)

text \<open>
  The search behind a link returns a path exactly when there is one: along edges of the kind
  asked for, from the start to the target, in at least one step.
\<close>
theorem reaches_exact:
  "if (start, target) \<in> (link_rel seeds k)\<^sup>+
   then reaches seeds start k target \<noteq> [] \<and> chain_in (link_rel seeds k) start (reaches seeds start k target) \<and>
     last (reaches seeds start k target) = target
   else reaches seeds start k target = []"
  using reaches_iff reaches_sound by (metis (full_types))

subsection \<open>Linking\<close>

lemma linkEnds_Inr:
  "linkEnds seeds a k b = Inr (s, t) \<longleftrightarrow> find_seed seeds a = Some s \<and> find_seed seeds b = Some t \<and> a \<noteq> b"
proof -
  have "find_seed seeds x = Some y \<Longrightarrow> ID y = x" for x y using find_seed_Some by blast
  then show ?thesis
    by (cases "find_seed seeds a"; cases "find_seed seeds b") (auto simp: linkEnds_def)
qed

lemma Link_Inr:
  assumes "Link seeds a k b = Inr (s', changed)"
  obtains s t where "find_seed seeds a = Some s" "find_seed seeds b = Some t" "a \<noteq> b" "ID s = a" "ID t = b"
    "changed \<longleftrightarrow> \<lparr>edge_Kind = k, edge_To = b\<rparr> \<notin> set (Edges s)"
    "s' = (if changed then s\<lparr>Edges := Edges s @ [\<lparr>edge_Kind = k, edge_To = b\<rparr>]\<rparr> else s)"
    "changed \<and> k = EdgePartOf \<longrightarrow> ParentOf s = None"
    "changed \<and> k \<in> {EdgeBlocks, EdgePartOf} \<longrightarrow> reaches seeds b k a = []"
proof -
  obtain s t where ends: "linkEnds seeds a k b = Inr (s, t)" using assms by (auto simp: Link_def bind_result_eq_Inr)
  then have st: "find_seed seeds a = Some s" "find_seed seeds b = Some t" "a \<noteq> b" by (simp_all add: linkEnds_Inr)
  have ids: "ID s = a" "ID t = b" using st find_seed_Some by blast+
  show thesis
    by (rule that [OF st ids]; use assms ends ids in \<open>auto simp: Link_def Let_def split: if_splits option.splits\<close>)
qed

lemma link_rel_iff: "(i, j) \<in> link_rel seeds k \<longleftrightarrow> \<lparr>edge_Kind = k, edge_To = j\<rparr> \<in> set (edges_at seeds i)"
proof
  assume "(i, j) \<in> link_rel seeds k"
  then obtain e where "e \<in> set (edges_at seeds i)" "edge_Kind e = k" "edge_To e = j" by (auto simp: link_rel_def)
  then show "\<lparr>edge_Kind = k, edge_To = j\<rparr> \<in> set (edges_at seeds i)" by - (cases e; simp)
next
  assume "\<lparr>edge_Kind = k, edge_To = j\<rparr> \<in> set (edges_at seeds i)"
  then show "(i, j) \<in> link_rel seeds k" unfolding link_rel_def by force
qed

lemma link_rel_add:
  assumes "distinct (map ID seeds)" "s \<in> set seeds"
  shows "link_rel (put_seed seeds (s\<lparr>Edges := Edges s @ [\<lparr>edge_Kind = k, edge_To = b\<rparr>]\<rparr>)) k' =
    (if k' = k then insert (ID s, b) (link_rel seeds k') else link_rel seeds k')"
proof -
  have e: "edges_at seeds (ID s) = Edges s" using byID_distinct [OF assms] by (simp add: edges_at_def)
  have m: "ID s \<in> ID ` set seeds" using assms(2) by simp
  show ?thesis (is "?l = ?r")
  proof (rule set_eqI, clarify)
    fix i j
    show "(i, j) \<in> ?l \<longleftrightarrow> (i, j) \<in> ?r"
      using e m by (cases "i = ID s") (auto simp: link_rel_iff edges_at_put_seed)
  qed
qed

text \<open>
  C6. Linking keeps a garden whose seed ids are distinct free of cycles: if neither the blocking edges
  nor the plot edges form a cycle, they do not after any link that was not refused.
\<close>
theorem Link_keeps_acyclic:
  assumes "distinct (map ID seeds)" "acyclic (link_rel seeds EdgeBlocks)" "acyclic (link_rel seeds EdgePartOf)"
    "Link seeds a k b = Inr (s', changed)"
  shows "acyclic (link_rel (put_seed seeds s') EdgeBlocks) \<and> acyclic (link_rel (put_seed seeds s') EdgePartOf)"
proof -
  obtain s t where st: "find_seed seeds a = Some s" "find_seed seeds b = Some t" "a \<noteq> b" "ID s = a" "ID t = b"
    "changed \<longleftrightarrow> \<lparr>edge_Kind = k, edge_To = b\<rparr> \<notin> set (Edges s)"
    "s' = (if changed then s\<lparr>Edges := Edges s @ [\<lparr>edge_Kind = k, edge_To = b\<rparr>]\<rparr> else s)"
    "changed \<and> k = EdgePartOf \<longrightarrow> ParentOf s = None"
    "changed \<and> k \<in> {EdgeBlocks, EdgePartOf} \<longrightarrow> reaches seeds b k a = []"
    using assms(4) by (rule Link_Inr) (rule that)
  have s: "s \<in> set seeds" using find_seed_Some [OF st(1)] by simp
  show ?thesis
  proof (cases changed)
    case True
    have "acyclic (link_rel (put_seed seeds s') k')" if k': "k' \<in> {EdgeBlocks, EdgePartOf}" for k'
    proof (cases "k' = k")
      case True
      have "acyclic (link_rel seeds k)" using assms(2,3) k' True by auto
      moreover have "\<not> reaches seeds b k a \<noteq> []" using st(9) \<open>changed\<close> k' True by blast
      ultimately have "acyclic (insert (a, b) (link_rel seeds k))"
        using link_search.guarded_insert st(3) by blast
      then show ?thesis using True st(4,7) \<open>changed\<close> link_rel_add [OF assms(1) s, of k b k] by simp
    next
      case False
      then show ?thesis using assms(2,3) k' st(7) \<open>changed\<close> link_rel_add [OF assms(1) s, of k b k'] by auto
    qed
    then show ?thesis by simp
  next
    case False
    then have "s' = s" using st(7) by simp
    have "put_seed seeds s = seeds"
      unfolding put_seed_def by (rule map_idI) (use assms(1) s in \<open>auto simp: distinct_map inj_on_def\<close>)
    then show ?thesis using \<open>s' = s\<close> assms(2,3) by simp
  qed
qed

text \<open>
  Unlinking undoes linking: from the garden a new link made, unlinking the same edge gives the
  seed back as it was.
\<close>
theorem Unlink_Link:
  assumes "distinct (map ID seeds)" "Link seeds a k b = Inr (s', True)"
  shows "case find_seed seeds a of Some s \<Rightarrow> Unlink (put_seed seeds s') a k b = Inr s | None \<Rightarrow> False"
proof -
  obtain s t where st: "find_seed seeds a = Some s" "find_seed seeds b = Some t" "a \<noteq> b" "ID s = a" "ID t = b"
    "True \<longleftrightarrow> \<lparr>edge_Kind = k, edge_To = b\<rparr> \<notin> set (Edges s)"
    "s' = (if True then s\<lparr>Edges := Edges s @ [\<lparr>edge_Kind = k, edge_To = b\<rparr>]\<rparr> else s)"
    using assms(2) by (rule Link_Inr) (rule that)
  have mem: "s \<in> set seeds" "t \<in> set seeds" using find_seed_Some st(1,2) by blast+
  have d: "distinct (map ID (put_seed seeds s'))" using assms(1) by simp
  have "s' \<in> set (put_seed seeds s')" "t \<in> set (put_seed seeds s')"
    using mem st(3-5,7) by (auto simp: set_put_seed intro: image_eqI [of _ _ s] image_eqI [of _ _ t])
  then have "find_seed (put_seed seeds s') a = Some s'" "find_seed (put_seed seeds s') b = Some t"
    using find_seed_distinct [OF d] st(4,5,7) by force+
  then have "linkEnds (put_seed seeds s') a k b = Inr (s', t)" using st(3) by (simp add: linkEnds_Inr)
  then have "Unlink (put_seed seeds s') a k b = Inr s"
    using st(5-7) by (simp add: Unlink_def remove1_append)
  then show ?thesis using st(1) by simp
qed

subsection \<open>Closing frees\<close>

lemma parents_from_cong: "ParentOf s = ParentOf s' \<Longrightarrow> parents_from seeds s seen = parents_from seeds s' seen"
  by (simp add: parents_from.simps)

text \<open>A change of one seed that keeps its edges is invisible to the loop up the plots.\<close>

lemma parents_from_put_seed:
  assumes "distinct (map ID seeds)" "x \<in> set seeds" "ID x' = ID x" "Edges x' = Edges x"
  shows "parents_from (put_seed seeds x') s seen = map (\<lambda>t. if ID t = ID x' then x' else t) (parents_from seeds s seen)"
  using assms
proof (induction seeds s seen rule: parents_from.induct)
  case (1 seeds s seen)
  let ?u = "\<lambda>t. if ID t = ID x' then x' else t"
  have same: "ParentOf (?u t) = ParentOf t" if "t \<in> set seeds" for t
  proof (cases "ID t = ID x'")
    case True
    then have "t = x" using 1(2,3,4) that by (auto simp: distinct_map inj_on_def)
    then show ?thesis using 1(5) True by (simp add: ParentOf_def)
  qed simp
  show ?case
  proof (cases "ParentOf s")
    case (Some parent)
    show ?thesis
    proof (cases "parent \<in> set seen \<or> byID seeds parent = None")
      case True
      moreover have "byID seeds parent = None \<Longrightarrow> byID (put_seed seeds x') parent = None"
        by (auto simp: byID_put_seed byID_None)
      ultimately show ?thesis using Some by (auto simp: parents_from.simps [of _ s])
    next
      case False
      then obtain p where p: "byID seeds parent = Some p" by auto
      have pm: "p \<in> set seeds" "ID p = parent" using byID_Some [OF p] by auto
      have "parent \<in> ID ` set seeds" using pm by auto
      then have "byID (put_seed seeds x') parent = Some (?u p)" using p pm by (simp add: byID_put_seed)
      moreover have "parents_from (put_seed seeds x') (?u p) (parent # seen) = parents_from (put_seed seeds x') p (parent # seen)"
        using parents_from_cong same [OF pm(1)] by blast
      moreover have "parents_from (put_seed seeds x') p (parent # seen) = map ?u (parents_from seeds p (parent # seen))"
        using 1(1) [OF Some _ p] False 1(2-5) by blast
      ultimately show ?thesis using Some False p by (simp add: parents_from.simps [of _ s])
    qed
  qed (simp add: parents_from.simps)
qed

lemma set_parents_from: "set (parents_from seeds s seen) \<subseteq> set seeds"
proof (induction seeds s seen rule: parents_from.induct)
  case (1 seeds s seen)
  show ?case
  proof (cases "ParentOf s")
    case (Some parent)
    then show ?thesis
      using 1 [OF Some] byID_Some [of seeds parent]
      by (cases "byID seeds parent") (simp_all add: parents_from.simps [of _ s])
  qed (simp add: parents_from.simps)
qed

lemma underTemplate_put_seed:
  assumes "distinct (map ID seeds)" "x \<in> set seeds" "ID x' = ID x" "Edges x' = Edges x" "Template x' = Template x"
  shows "underTemplate (put_seed seeds x') s = underTemplate seeds s"
proof -
  have "Template (if ID t = ID x' then x' else t) = Template t" if "t \<in> set (parents_from seeds s [])" for t
  proof -
    have "t \<in> set seeds" using that set_parents_from by blast
    then show ?thesis using assms by (auto simp: distinct_map inj_on_def)
  qed
  then have "(\<exists>t \<in> set (parents_from seeds s []). Template (if ID t = ID x' then x' else t)) \<longleftrightarrow>
      (\<exists>t \<in> set (parents_from seeds s []). Template t)"
    by (rule bex_cong [OF HOL.refl])
  then show ?thesis
    by (simp only: underTemplate_def parents_from_put_seed [OF assms(1-4)] list_ex_iff set_map bex_simps)
qed

text \<open>The seed \<open>x\<close> after it was closed.\<close>

definition closes :: "Seed \<Rightarrow> Seed \<Rightarrow> bool" where
  "closes x x' \<longleftrightarrow> ID x' = ID x \<and> Edges x' = Edges x \<and> Template x' = Template x \<and>
     \<not> Closed (Status x) \<and> Closed (Status x')"

lemma moved_closes:
  assumes "Transition x verb ask standing cs = Inr out" "Moved out" "Closed (Status (OutSeed out))" "\<not> Closed (Status x)"
  shows "closes x (OutSeed out)"
  using assms(1,2)
proof (rule Transition_moved)
  fix rule
  assume "OutSeed out = moved_seed x verb rule ask (TrimSpace (ask_Reason ask))"
  then show ?thesis using assms(3,4) by (simp add: closes_def moved_seed_def Let_def)
qed

lemma put_seed_cases:
  assumes "x \<in> set seeds" "ID x' = ID x"
  shows "t \<in> set (put_seed seeds x') \<longleftrightarrow> t = x' \<or> t \<in> set seeds \<and> ID t \<noteq> ID x'"
  using assms by (auto simp: set_put_seed image_iff split: if_splits)

lemma readiness_closed:
  assumes d: "distinct (map ID seeds)" and x: "x \<in> set seeds" and c: "closes x x'"
    and s: "ID s \<noteq> ID x"
  shows "readiness_open (put_seed seeds x') s \<longleftrightarrow>
    \<not> Closed (Status s) \<and> Status s \<noteq> StatusParked \<and> \<not> parentIDs seeds (ID s) \<and> \<not> Gate s \<and> \<not> underTemplate seeds s \<and>
    \<not> list_ex (\<lambda>t. ID t \<noteq> ID x \<and> \<not> Closed (Status t) \<and>
         list_ex (\<lambda>edge. edge_Kind edge = EdgeBlocks \<and> edge_To edge = ID s) (Edges t)) seeds"
proof -
  have x': "ID x' = ID x" "Edges x' = Edges x" "Template x' = Template x" "Closed (Status x')"
    using c by (simp_all add: closes_def)
  note m = put_seed_cases [OF x x'(1)]
  have p: "ParentOf x' = ParentOf x" using x'(2) by (simp add: ParentOf_def)
  have only: "t = x" if "t \<in> set seeds" "ID t = ID x" for t using d x that by (auto simp: distinct_map inj_on_def)
  have "parentIDs (put_seed seeds x') (ID s) \<longleftrightarrow> parentIDs seeds (ID s)"
  proof
    assume "parentIDs (put_seed seeds x') (ID s)"
    then obtain t where "t = x' \<or> t \<in> set seeds" "ParentOf t = Some (ID s)"
      unfolding parentIDs_def list_ex_iff using m by blast
    then show "parentIDs seeds (ID s)" unfolding parentIDs_def list_ex_iff using p x by metis
  next
    assume "parentIDs seeds (ID s)"
    then obtain t where t: "t \<in> set seeds" "ParentOf t = Some (ID s)" by (auto simp: parentIDs_def list_ex_iff)
    show "parentIDs (put_seed seeds x') (ID s)"
    proof (cases "ID t = ID x")
      case True
      then have "ParentOf x' = Some (ID s)" using only [OF t(1) True] t(2) p by simp
      then show ?thesis by (auto simp: parentIDs_def list_ex_iff m)
    next
      case False
      then show ?thesis using t x'(1) by (auto simp: parentIDs_def list_ex_iff m)
    qed
  qed
  moreover have "blockedIDs (put_seed seeds x') (ID s) \<longleftrightarrow> list_ex (\<lambda>t. ID t \<noteq> ID x \<and> \<not> Closed (Status t) \<and>
         list_ex (\<lambda>edge. edge_Kind edge = EdgeBlocks \<and> edge_To edge = ID s) (Edges t)) seeds"
    using x' by (auto simp: blockedIDs_def list_ex_iff m)
  moreover have "underTemplate (put_seed seeds x') s = underTemplate seeds s"
    using underTemplate_put_seed [OF d x x'(1-3)] .
  ultimately show ?thesis by (auto simp: readiness_open_def)
qed

lemma readiness_before:
  assumes d: "distinct (map ID seeds)" and x: "x \<in> set seeds" and c: "closes x x'" and s: "ID s \<noteq> ID x"
  shows "readiness_open seeds s \<longleftrightarrow> readiness_open (put_seed seeds x') s \<and>
    \<not> list_ex (\<lambda>edge. edge_Kind edge = EdgeBlocks \<and> edge_To edge = ID s) (Edges x)"
proof -
  have only: "t = x" if "t \<in> set seeds" "ID t = ID x" for t using d x that by (auto simp: distinct_map inj_on_def)
  have "blockedIDs seeds (ID s) \<longleftrightarrow>
      list_ex (\<lambda>edge. edge_Kind edge = EdgeBlocks \<and> edge_To edge = ID s) (Edges x) \<or>
      list_ex (\<lambda>t. ID t \<noteq> ID x \<and> \<not> Closed (Status t) \<and>
         list_ex (\<lambda>edge. edge_Kind edge = EdgeBlocks \<and> edge_To edge = ID s) (Edges t)) seeds"
    (is "_ \<longleftrightarrow> ?own \<or> ?others")
  proof
    assume "blockedIDs seeds (ID s)"
    then obtain t where t: "t \<in> set seeds" "\<not> Closed (Status t)"
        "list_ex (\<lambda>edge. edge_Kind edge = EdgeBlocks \<and> edge_To edge = ID s) (Edges t)"
      unfolding blockedIDs_def list_ex_iff [of _ seeds] by blast
    then show "?own \<or> ?others" using only [OF t(1)] unfolding list_ex_iff [of _ seeds] by blast
  next
    assume "?own \<or> ?others"
    then show "blockedIDs seeds (ID s)"
      using x c unfolding blockedIDs_def list_ex_iff [of _ seeds] closes_def by blast
  qed
  then show ?thesis unfolding readiness_closed [OF assms] by (auto simp: readiness_open_def)
qed

text \<open>
  C26. When seed ids are distinct, closing a seed opens exactly the seeds that \<open>Unblocks\<close>
  then reports: those that can be worked on in the garden after it and could not before.
\<close>
theorem Unblocks_exact:
  assumes "distinct (map ID seeds)" "x \<in> set seeds" "closes x x'"
  defines "after \<equiv> put_seed seeds x'"
  shows "set (Unblocks after (ID x)) = {s \<in> set after. readiness_open after s \<and> \<not> readiness_open seeds s}"
proof -
  have x': "ID x' = ID x" "Edges x' = Edges x" "Closed (Status x')" using assms(3) by (simp_all add: closes_def)
  note m = put_seed_cases [OF assms(2) x'(1)]
  have "distinct (map ID after)" using assms(1) by (simp add: after_def)
  moreover have "x' \<in> set after" by (simp add: after_def m)
  ultimately have find: "find_seed after (ID x) = Some x'" using find_seed_distinct x'(1) by metis
  have not_open: "\<not> readiness_open after x'" using x'(3) by (simp add: readiness_open_def)
  have ne: "ID s \<noteq> ID x" if "s \<in> set after" "s \<noteq> x'" for s using that m x'(1) by (auto simp: after_def)
  have "readiness_open seeds s \<longleftrightarrow> \<not> list_ex (\<lambda>edge. edge_Kind edge = EdgeBlocks \<and> edge_To edge = ID s) (Edges x)"
    if "s \<in> set after" "readiness_open after s" for s
    using readiness_before [OF assms(1-3) ne [OF that(1)]] that not_open by (auto simp: after_def)
  then show ?thesis using find x' by (auto simp: Unblocks_def)
qed

subsection \<open>No deadlock\<close>

lemma link_rel_from: "(i, j) \<in> link_rel seeds k \<Longrightarrow> i \<in> ID ` set seeds"
  by (cases "byID seeds i") (auto simp: link_rel_def edges_at_def dest: byID_Some)

lemma finite_link_rel: "finite (link_rel seeds k)"
proof (rule finite_subset)
  show "link_rel seeds k \<subseteq> ID ` set seeds \<times> targets seeds"
    using link_rel_from edges_at_targets by (fastforce simp: link_rel_def)
qed simp

lemma blockedIDs_iff:
  assumes "distinct (map ID seeds)"
  shows "blockedIDs seeds i \<longleftrightarrow> (\<exists>t \<in> set seeds. \<not> Closed (Status t) \<and> (ID t, i) \<in> link_rel seeds EdgeBlocks)"
  using byID_distinct [OF assms] by (auto simp: blockedIDs_def list_ex_iff link_rel_def edges_at_def)

text \<open>
  C25. A garden whose seed ids are distinct and whose blocking edges form no cycle never deadlocks:
  behind every open seed stands an open seed that nothing blocks. Either it can be worked on, or it
  waits for somebody: it is parked, a gate, a plot whose parts carry the work, or part of a template.
\<close>
theorem open_seed_has_cause:
  assumes d: "distinct (map ID seeds)" and ac: "acyclic (link_rel seeds EdgeBlocks)"
    and s: "s \<in> set seeds" "\<not> Closed (Status s)"
  shows "\<exists>t \<in> set seeds. \<not> Closed (Status t) \<and> (ID t, ID s) \<in> (link_rel seeds EdgeBlocks)\<^sup>* \<and> \<not> blockedIDs seeds (ID t) \<and>
    (readiness_open seeds t \<or> Status t = StatusParked \<or> Gate t \<or> parentIDs seeds (ID t) \<or> underTemplate seeds t)"
proof -
  let ?open = "{ID t | t. t \<in> set seeds \<and> \<not> Closed (Status t) \<and> (ID t, ID s) \<in> (link_rel seeds EdgeBlocks)\<^sup>*}"
  have "wf (link_rel seeds EdgeBlocks)" using finite_acyclic_wf [OF finite_link_rel ac] .
  moreover have "ID s \<in> ?open" using s by auto
  ultimately obtain i where i: "i \<in> ?open" "\<And>j. (j, i) \<in> link_rel seeds EdgeBlocks \<Longrightarrow> j \<notin> ?open"
    by (rule wfE_min) blast
  then obtain t where t: "t \<in> set seeds" "\<not> Closed (Status t)" "(ID t, ID s) \<in> (link_rel seeds EdgeBlocks)\<^sup>*" "i = ID t"
    by auto
  have "\<not> blockedIDs seeds (ID t)"
    unfolding blockedIDs_iff [OF d] using i(2) t(3,4) by (blast intro: converse_rtrancl_into_rtrancl)
  then show ?thesis using t by (auto simp: readiness_open_def)
qed

subsection \<open>Instances\<close>

definition demo_garden :: "Seed list" where
  "demo_garden = [(blank_seed ''s1'')\<lparr>Edges := [\<lparr>edge_Kind = EdgeBlocks, edge_To = ''s2''\<rparr>]\<rparr>, blank_seed ''s2'', blank_seed ''s3'']"

lemma demo_garden_distinct: "distinct (map ID demo_garden)"
  by (simp add: demo_garden_def blank_seed_def)

lemma demo_garden_blocks: "link_rel demo_garden EdgeBlocks = {(''s1'', ''s2'')}"
  by (auto simp: link_rel_def edges_at_def byID_def demo_garden_def blank_seed_def split: if_splits)

lemma demo_garden_parts: "link_rel demo_garden EdgePartOf = {}"
  by (auto simp: link_rel_def edges_at_def byID_def demo_garden_def blank_seed_def edge_kind_defs split: if_splits)

lemma demo_garden_acyclic: "acyclic (link_rel demo_garden EdgeBlocks)" "acyclic (link_rel demo_garden EdgePartOf)"
  by (simp_all add: demo_garden_blocks demo_garden_parts acyclic_def trancl_insert)

definition demo_linked :: Seed where
  "demo_linked = (blank_seed ''s2'')\<lparr>Edges := [\<lparr>edge_Kind = EdgeBlocks, edge_To = ''s3''\<rparr>]\<rparr>"

lemma demo_link: "Link demo_garden ''s2'' EdgeBlocks ''s3'' = Inr (demo_linked, True)"
proof -
  have "reaches demo_garden ''s3'' EdgeBlocks ''s2'' = []"
    using reaches_iff [of demo_garden "''s3''" EdgeBlocks "''s2''"] by (auto simp: demo_garden_blocks trancl_insert)
  then show ?thesis
    by (simp add: Link_def linkEnds_def find_seed_def demo_garden_def blank_seed_def demo_linked_def edge_kind_defs)
qed

theorem Link_keeps_acyclic_witness:
  "acyclic (link_rel (put_seed demo_garden demo_linked) EdgeBlocks) \<and>
   acyclic (link_rel (put_seed demo_garden demo_linked) EdgePartOf)"
  by (rule Link_keeps_acyclic [OF demo_garden_distinct demo_garden_acyclic demo_link])

theorem Unlink_Link_witness: "Unlink (put_seed demo_garden demo_linked) ''s2'' EdgeBlocks ''s3'' = Inr (blank_seed ''s2'')"
  using Unlink_Link [OF demo_garden_distinct demo_link]
  by (simp add: find_seed_def demo_garden_def blank_seed_def)

definition demo_closed :: Seed where
  "demo_closed = (blank_seed ''s1'')\<lparr>Edges := [\<lparr>edge_Kind = EdgeBlocks, edge_To = ''s2''\<rparr>], Status := StatusHarvested\<rparr>"

theorem Unblocks_exact_witness:
  "set (Unblocks (put_seed demo_garden demo_closed) ''s1'') =
     {s \<in> set (put_seed demo_garden demo_closed). readiness_open (put_seed demo_garden demo_closed) s \<and> \<not> readiness_open demo_garden s}"
proof -
  have m: "demo_garden ! 0 \<in> set demo_garden" by (simp add: demo_garden_def)
  have "closes (demo_garden ! 0) demo_closed"
    by (simp add: closes_def demo_closed_def demo_garden_def blank_seed_def Closed_def status_defs)
  then show ?thesis using Unblocks_exact [OF demo_garden_distinct m]
    by (simp add: demo_garden_def blank_seed_def)
qed

theorem open_seed_has_cause_witness:
  "\<exists>t \<in> set demo_garden. \<not> Closed (Status t) \<and> (ID t, ''s2'') \<in> (link_rel demo_garden EdgeBlocks)\<^sup>* \<and>
     \<not> blockedIDs demo_garden (ID t)"
proof -
  have m: "demo_garden ! 1 \<in> set demo_garden" by (simp add: demo_garden_def)
  have "\<not> Closed (Status (demo_garden ! 1))" "ID (demo_garden ! 1) = ''s2''"
    by (simp_all add: demo_garden_def blank_seed_def Closed_def status_defs)
  then show ?thesis using open_seed_has_cause [OF demo_garden_distinct demo_garden_acyclic(1) m] by metis
qed

end
