(* ===== verification/Garden_Plot_Laws.thy ===== *)
theory Garden_Plot_Laws
  imports Garden_Plot
begin

text \<open>
  What the views of a garden guarantee: the tree shows every seed once, the search below a crown
  finds exactly its plot, the counters of a plot fit together, and what a member holds is listed in
  an order that does not depend on how the seeds were read.
\<close>

subsection \<open>The tree\<close>

definition row_id :: "TreeRow \<Rightarrow> string" where
  "row_id row = ID (row_Seed row)"

lemma place_all_rows:
  "place_all seeds ss depth placed = (rows, placed') \<Longrightarrow>
     set placed' = set placed \<union> row_id ` set rows \<and> ID ` set ss \<subseteq> set placed' \<and>
     distinct (map row_id rows) \<and> row_id ` set rows \<inter> set placed = {} \<and>
     row_Seed ` set rows \<subseteq> set seeds \<union> set ss"
proof (induction seeds ss depth placed arbitrary: rows placed' rule: place_all.induct)
  case (1 seeds depth placed)
  then show ?case by (simp add: place_all.simps)
next
  case (2 seeds seed rest depth placed)
  obtain b p where b: "place_all seeds (tree_children seeds (ID seed)) (depth + 1) (ID seed # placed) = (b, p)" by force
  obtain a q where a: "place_all seeds rest depth p = (a, q)" by force
  show ?case
  proof (cases "ID seed \<in> set placed")
    case True
    then show ?thesis using 2(1) [OF True, of rows placed'] 2(4) by (auto simp: place_all.simps(2))
  next
    case False
    have r: "rows = \<lparr>row_Seed = seed, row_Depth = depth\<rparr> # b @ a" "placed' = q"
      using 2(4) False a b by (simp_all add: place_all.simps(2))
    note ib = 2(2) [OF False b] and ia = 2(3) [OF False b [symmetric] a]
    have "row_Seed ` set b \<subseteq> set seeds" using ib tree_children_sub by blast
    moreover have "row_id \<lparr>row_Seed = seed, row_Depth = depth\<rparr> = ID seed" by (simp add: row_id_def)
    ultimately show ?thesis using ia ib False unfolding r by auto
  qed
qed

lemma distinct_ids_eq:
  assumes "distinct (map ID xs)" "distinct (map ID ys)" "set xs \<subseteq> set ys" "ID ` set ys \<subseteq> ID ` set xs"
  shows "mset xs = mset ys"
proof -
  have "set xs = set ys"
  proof
    show "set ys \<subseteq> set xs"
    proof
      fix y assume y: "y \<in> set ys"
      then obtain x where "x \<in> set xs" "ID x = ID y" using assms(4) by (metis imageE image_eqI subsetD)
      moreover have "inj_on ID (set ys)" using assms(2) by (simp add: distinct_map)
      ultimately show "y \<in> set xs" using y assms(3) by (metis inj_onD subsetD)
    qed
  qed (rule assms(3))
  then show ?thesis using assms(1,2) by (simp add: set_eq_iff_mset_eq_distinct distinct_map)
qed

text \<open>
  The tree view shows every seed of the garden exactly once, also when the plot edges of the
  stored seeds form a cycle.
\<close>
theorem Tree_complete:
  assumes "distinct (map ID seeds)"
  shows "mset (map row_Seed (Tree seeds)) = mset seeds"
proof -
  obtain rows placed where r: "place_all seeds (tree_roots seeds) 0 [] = (rows, placed)" by force
  obtain rest all where a: "place_all seeds seeds 0 placed = (rest, all)" by force
  note ir = place_all_rows [OF r] and ia = place_all_rows [OF a]
  have t: "Tree seeds = rows @ rest" by (simp add: Tree_def r a)
  have "set (tree_roots seeds) \<subseteq> set seeds" by (auto simp: tree_roots_def)
  then have sub: "set (map row_Seed (rows @ rest)) \<subseteq> set seeds" using ir ia by auto
  have all: "ID ` set seeds \<subseteq> ID ` set (map row_Seed (rows @ rest))"
    using ir ia by (auto simp: image_Un image_image row_id_def)
  have "map ID (map row_Seed (rows @ rest)) = map row_id rows @ map row_id rest" by (simp add: row_id_def)
  moreover have "distinct (map row_id rows @ map row_id rest)" using ir ia by auto
  ultimately have "distinct (map ID (map row_Seed (rows @ rest)))" by (simp only:)
  then show ?thesis unfolding t using distinct_ids_eq [OF _ assms sub all] by blast
qed

subsection \<open>Inside a plot\<close>

definition part_rel :: "Seed list \<Rightarrow> (string \<times> string) set" where
  "part_rel seeds = {(ID s, p) | s p. s \<in> set seeds \<and> ParentOf s = Some p}"

lemma plot_children_rel: "i \<in> ID ` set (plot_children seeds c) \<longleftrightarrow> (i, c) \<in> part_rel seeds"
  by (auto simp: plot_children_def part_rel_def)

text \<open>
  The invariant of the stack loop: what is seen below the crown is what was put out, every member of
  it leads to the crown, and the seen ids not on the stack have all their children seen.
\<close>

definition descend_inv :: "Seed list \<Rightarrow> string \<Rightarrow> string list \<Rightarrow> string list \<Rightarrow> Seed list \<Rightarrow> bool" where
  "descend_inv seeds c stack seen out \<longleftrightarrow>
     set seen = insert c (ID ` set out) \<and> c \<notin> ID ` set out \<and> distinct (map ID out) \<and> set out \<subseteq> set seeds \<and>
     set stack \<subseteq> set seen \<and> (\<forall>i \<in> set seen. (i, c) \<in> (part_rel seeds)\<^sup>*) \<and>
     (\<forall>i \<in> set seen - set stack. ID ` set (plot_children seeds i) \<subseteq> set seen)"

lemma descend_invD:
  assumes "descend_inv seeds c stack seen out"
  shows "set seen = insert c (ID ` set out)" "c \<notin> ID ` set out" "distinct (map ID out)" "set out \<subseteq> set seeds"
    "set stack \<subseteq> set seen" "\<And>i. i \<in> set seen \<Longrightarrow> (i, c) \<in> (part_rel seeds)\<^sup>*"
    "\<And>i. i \<in> set seen \<Longrightarrow> i \<notin> set stack \<Longrightarrow> ID ` set (plot_children seeds i) \<subseteq> set seen"
  using assms unfolding descend_inv_def by blast+

lemma descend_inv_step:
  assumes inv: "descend_inv seeds c (i # stack) seen out"
    and v: "visit_children (plot_children seeds i) seen = (fresh, seen')"
  shows "descend_inv seeds c (rev (map ID fresh) @ stack) seen' (out @ fresh)"
proof -
  note vs = visit_children_seen [OF v]
  note di = descend_invD [OF inv]
  have sub: "set (plot_children seeds i) \<subseteq> set seeds" by (auto simp: plot_children_def)
  have i: "(i, c) \<in> (part_rel seeds)\<^sup>*" using di(5,6) by simp
  have "(j, c) \<in> (part_rel seeds)\<^sup>*" if "j \<in> ID ` set (plot_children seeds i)" for j
    using that i plot_children_rel by (meson converse_rtrancl_into_rtrancl)
  then have "\<forall>j \<in> set seen'. (j, c) \<in> (part_rel seeds)\<^sup>*" using vs di(6) by (metis Un_iff)
  moreover have "ID ` set (plot_children seeds j) \<subseteq> set seen'" if "j \<in> set seen' - set (rev (map ID fresh) @ stack)" for j
  proof (cases "j = i")
    case True
    then show ?thesis using vs by blast
  next
    case False
    then have "j \<in> set seen" "j \<notin> set (i # stack)" using that vs by auto
    then have "ID ` set (plot_children seeds j) \<subseteq> set seen" by (intro di(7)) simp_all
    also have "set seen \<subseteq> set seen'" using vs by simp
    finally show ?thesis .
  qed
  moreover have "set seen' = insert c (ID ` set (out @ fresh))" using vs di(1) by auto
  moreover have "c \<notin> ID ` set (out @ fresh)" "distinct (map ID (out @ fresh))" using vs di(1-3) by auto
  moreover have "set (out @ fresh) \<subseteq> set seeds" using vs di(4) sub by auto
  moreover have "set (rev (map ID fresh) @ stack) \<subseteq> set seen'" using vs di(5) by auto
  ultimately show ?thesis unfolding descend_inv_def by blast
qed

lemma descend_inv_end:
  "descend_inv seeds c stack seen out \<Longrightarrow> \<exists>seen'. descend_inv seeds c [] seen' (descend seeds stack seen out)"
proof (induction seeds stack seen out rule: descend.induct)
  case (1 seeds stack seen out)
  show ?case
  proof (cases stack)
    case Nil
    then show ?thesis using 1(2) by (auto simp: descend.simps)
  next
    case (Cons i stack')
    obtain fresh seen' where v: "visit_children (plot_children seeds i) seen = (fresh, seen')" by force
    have "descend_inv seeds c (rev (map ID fresh) @ stack') seen' (out @ fresh)"
      using descend_inv_step [OF _ v] 1(2) Cons by simp
    then show ?thesis using 1(1) [OF Cons v [symmetric]] Cons v by (simp add: descend.simps [of _ "_ # _"])
  qed
qed

lemma descend_inv_exact:
  assumes "descend_inv seeds c [] seen out"
  shows "ID ` set out = {i. (i, c) \<in> (part_rel seeds)\<^sup>+} - {c}"
proof -
  note di = descend_invD [OF assms]
  have closed: "i \<in> set seen" if "(i, c) \<in> (part_rel seeds)\<^sup>*" for i
    using that
  proof (induction rule: converse_rtrancl_induct)
    case base
    then show ?case using di(1) by simp
  next
    case (step i j)
    then show ?case using di(7) [of j] plot_children_rel [of i seeds j] by auto
  qed
  have "i \<in> ID ` set out \<longleftrightarrow> (i, c) \<in> (part_rel seeds)\<^sup>+" if ne: "i \<noteq> c" for i
  proof -
    have "i \<in> ID ` set out \<longleftrightarrow> i \<in> set seen" unfolding di(1) using ne by simp
    also have "\<dots> \<longleftrightarrow> (i, c) \<in> (part_rel seeds)\<^sup>*" using closed di(6) by blast
    finally show ?thesis using ne by (simp add: rtrancl_eq_or_trancl)
  qed
  then show ?thesis using di(2) unfolding set_eq_iff Diff_iff mem_Collect_eq singleton_iff by metis
qed

lemma descendants_inv: "\<exists>seen. descend_inv seeds c [] seen (descendants seeds c)"
proof (cases "plot_children seeds c = []")
  case True
  then have "descend_inv seeds c [] [c] []" by (simp add: descend_inv_def)
  then show ?thesis using True by (auto simp: descendants_def)
next
  case False
  have "descend_inv seeds c [c] [c] []" by (simp add: descend_inv_def)
  then show ?thesis using descend_inv_end False by (simp add: descendants_def)
qed

lemma descendants_ids: "ID ` set (descendants seeds c) = {i. (i, c) \<in> (part_rel seeds)\<^sup>+} - {c}"
  using descendants_inv [of seeds c] descend_inv_exact by blast

text \<open>
  The search below a crown implements the relation it stands for: it lists, each once, the seeds
  from which a chain of plot edges leads to the crown, and never the crown itself.
\<close>
theorem descendants_exact:
  "distinct (map ID (descendants seeds c)) \<and> set (descendants seeds c) \<subseteq> set seeds \<and>
   ID ` set (descendants seeds c) = {i. (i, c) \<in> (part_rel seeds)\<^sup>+} - {c}"
proof -
  obtain seen where "descend_inv seeds c [] seen (descendants seeds c)" using descendants_inv by blast
  then show ?thesis by (intro conjI descendants_ids descend_invD(3,4)) assumption+
qed

subsection \<open>Counters\<close>

definition tally_ok :: "CheckTally \<Rightarrow> bool" where
  "tally_ok t \<longleftrightarrow> 0 \<le> tl_Reported t \<and> 0 \<le> tl_Confirmed t \<and> 0 \<le> tl_Rejected t \<and> 0 \<le> Tally_Open t"

lemma tally_ok_empty: "tally_ok no_tally"
  by (simp add: tally_ok_def no_tally_def Tally_Open_def)

lemma tally_ok_Add: "tally_ok t \<Longrightarrow> tally_ok (Tally_Add t s)"
  by (cases s) (auto simp: tally_ok_def Tally_Add_def Tally_Open_def Let_def)

lemma tally_ok_AddTally: "tally_ok t \<Longrightarrow> tally_ok u \<Longrightarrow> tally_ok (AddTally t u)"
  by (auto simp: tally_ok_def AddTally_def Tally_Open_def)

lemma tally_ok_Effective: "tally_ok (EffectiveCheckTally seeds i)"
proof -
  have "tally_ok t \<Longrightarrow> tally_ok (foldl (\<lambda>tally check. if \<not> chk_Removed (eff_Check check)
      then Tally_Add tally (State (eff_Result check)) else tally) t cs)" for t cs
    by (induction cs arbitrary: t) (simp_all add: tally_ok_Add)
  then show ?thesis unfolding EffectiveCheckTally_def using tally_ok_empty by blast
qed

lemma tally_ok_Plot: "tally_ok (PlotCheckTally seeds i)"
proof -
  have "tally_ok t \<Longrightarrow> tally_ok (foldl (\<lambda>tally seed. AddTally tally (EffectiveCheckTally seeds (ID seed))) t ss)" for t ss
    by (induction ss arbitrary: t) (simp_all add: tally_ok_AddTally tally_ok_Effective)
  then show ?thesis unfolding PlotCheckTally_def using tally_ok_Effective by blast
qed

definition progress_ok :: "Progress \<Rightarrow> bool" where
  "progress_ok p \<longleftrightarrow> 0 \<le> pg_Done p \<and> 0 \<le> pg_Withered p \<and> 0 \<le> pg_Growing p \<and> 0 \<le> pg_Parked p \<and>
     pg_Done p + pg_Withered p + pg_Growing p + pg_Parked p \<le> pg_Total p \<and>
     0 \<le> pg_Ready p \<and> pg_Ready p \<le> pg_Total p \<and> 0 \<le> pg_Blocked p \<and>
     pg_Blocked p + pg_Done p + pg_Withered p \<le> pg_Total p \<and> tally_ok (pg_Checks p)"

lemma progress_ok_step: "progress_ok p \<Longrightarrow> progress_ok (progress_step seeds ready p seed)"
  by (auto simp: progress_ok_def progress_step_def Let_def status_defs Closed_def)

lemma progress_step_total: "pg_Total (progress_step seeds ready p seed) = pg_Total p + 1"
  by (simp add: progress_step_def Let_def)

lemma progress_fold:
  "progress_ok p \<Longrightarrow> progress_ok (foldl (progress_step seeds ready) p ss) \<and>
     pg_Total (foldl (progress_step seeds ready) p ss) = pg_Total p + int (length ss)"
  by (induction ss arbitrary: p) (simp_all add: progress_ok_step progress_step_total)

text \<open>
  The counters of a plot fit together: the total is the number of seeds inside, done, withered,
  growing and parked share it, a blocked seed is neither done nor withered, no more are ready than
  there are, and no check counter, the open ones included, is negative.
\<close>
theorem Plot_Progress_bounds:
  "progress_ok (Plot_Progress seeds c ready) \<and>
   pg_Total (Plot_Progress seeds c ready) = int (length (descendants seeds c))"
proof -
  let ?z = "\<lparr>pg_Total = 0, pg_Done = 0, pg_Withered = 0, pg_Growing = 0, pg_Parked = 0, pg_Ready = 0,
     pg_Blocked = 0, pg_Checks = no_tally\<rparr>"
  let ?p = "foldl (progress_step seeds ready) ?z (descendants seeds c)"
  have "progress_ok ?z" by (simp add: progress_ok_def tally_ok_empty)
  then have p: "progress_ok ?p" "pg_Total ?p = int (length (descendants seeds c))"
    using progress_fold [of ?z] by simp_all
  then have "progress_ok (?p\<lparr>pg_Checks := PlotCheckTally seeds c\<rparr>)" by (simp add: progress_ok_def tally_ok_Plot)
  then show ?thesis using p unfolding Plot_Progress_def Let_def by (cases "pg_Total ?p > 0") simp_all
qed

subsection \<open>Holdings\<close>

lemma held_less_trans: "held_less a b \<Longrightarrow> held_less b c \<Longrightarrow> held_less a c"
  by (auto simp: held_less_def split: if_splits)

lemma held_less_asym: "held_less a b \<Longrightarrow> \<not> held_less b a"
  by (auto simp: held_less_def split: if_splits)

lemma held_less_total: "ID a \<noteq> ID b \<Longrightarrow> held_less a b \<or> held_less b a"
  by (auto simp: held_less_def)

text \<open>
  What a member holds is the open seeds tended by it, the most recently changed first and then by
  id, and the same list however the garden was read.
\<close>
theorem Held_deterministic:
  assumes "distinct (map ID seeds)" "distinct (map ID seeds')" "set seeds' = set seeds" "\<not> MemberKey_IsZero k"
  shows "sorted_wrt held_less (Held seeds k) \<and> Held seeds' k = Held seeds k \<and>
    set (Held seeds k) = {s \<in> set seeds. \<not> Closed (Status s) \<and> Tender s = Member k}"
proof -
  have s: "sorted_wrt held_less (Held ss k)" if d: "distinct (map ID ss)" for ss
  proof -
    let ?hs = "filter (\<lambda>seed. \<not> Closed (Status seed) \<and> Tender seed = Member k) ss"
    have "held_less a b \<or> held_less b a" if "a \<in> set ?hs" "b \<in> set ?hs" "a \<noteq> b" for a b
      using that d held_less_total by (auto simp: distinct_map inj_on_def)
    moreover have "distinct ?hs" using d by (simp add: distinct_map)
    ultimately have "sorted_wrt held_less (SliceStable held_less ?hs)"
      using sorted_SliceStable [of held_less ?hs] held_less_trans by blast
    then show ?thesis using assms(4) by (simp add: Held_def)
  qed
  have m: "set (Held ss k) = {s \<in> set ss. \<not> Closed (Status s) \<and> Tender s = Member k}" for ss
    using assms(4) by (auto simp: Held_def)
  have "Held seeds' k = Held seeds k"
    using sorted_wrt_unique [of held_less] held_less_asym s [OF assms(1)] s [OF assms(2)] m assms(3) by metis
  then show ?thesis using s [OF assms(1)] m by blast
qed

subsection \<open>Instances\<close>

definition demo_holdings :: "Seed list" where
  "demo_holdings = [(blank_seed ''s1'')\<lparr>Tender := Member (MemberKey ''fern''), StateChangedAt := ''2025''\<rparr>,
     (blank_seed ''s2'')\<lparr>Tender := Member (MemberKey ''fern''), StateChangedAt := ''2026''\<rparr>]"

lemma demo_holdings_distinct: "distinct (map ID demo_holdings)" "distinct (map ID (rev demo_holdings))"
  by (simp_all add: demo_holdings_def blank_seed_def)

theorem Tree_complete_witness: "mset (map row_Seed (Tree demo_holdings)) = mset demo_holdings"
  by (rule Tree_complete [OF demo_holdings_distinct(1)])

theorem Held_deterministic_witness:
  "Held (rev demo_holdings) (MemberKey ''fern'') = Held demo_holdings (MemberKey ''fern'')"
  using Held_deterministic [OF demo_holdings_distinct] by (simp add: MemberKey_IsZero_def)

end
