(* ===== verification/Garden_Check_Laws.thy ===== *)
theory Garden_Check_Laws
  imports Garden_Graph_Laws Garden_Plot_Laws
begin

text \<open>
  What the checks of a plot guarantee: numbers that are given out are new, a check id is used at most
  once in a plot tree and never again after it was removed, and the result of a check moves through
  its states as the protocol of report and verdict says.
\<close>

subsection \<open>Numbers\<close>

lemma digit_char: "n < 10 \<Longrightarrow> is_digit (char_of (48 + n :: nat)) \<and> digit_value (char_of (48 + n)) = n"
  by (simp add: is_digit_def digit_value_def)

lemma FormatUint_digits: "list_all is_digit (FormatUint n) \<and> FormatUint n \<noteq> []"
proof (induction n rule: FormatUint.induct)
  case (1 n)
  then show ?case using digit_char [of n] digit_char [of "n mod 10"]
    by (cases "n < 10") (simp_all add: FormatUint.simps [of n])
qed

lemma FormatUint_value: "foldl (\<lambda>n c. 10 * n + digit_value c) 0 (FormatUint n) = n"
proof (induction n rule: FormatUint.induct)
  case (1 n)
  then show ?case using digit_char [of n] digit_char [of "n mod 10"]
    by (cases "n < 10") (simp_all add: FormatUint.simps [of n])
qed

lemma FormatUint_no_zero: "0 < n \<Longrightarrow> \<not> HasPrefix (FormatUint n) ''0''"
proof (induction n rule: FormatUint.induct)
  case (1 n)
  show ?case
  proof (cases "n < 10")
    case True
    have "char_of (48 + n) \<noteq> CHR ''0''"
    proof
      assume "char_of (48 + n) = CHR ''0''"
      then have "digit_value (char_of (48 + n)) = digit_value (CHR ''0'')" by simp
      then show False using digit_char [OF True] 1(2) by (simp add: digit_value_def)
    qed
    then show ?thesis using True by (auto simp: FormatUint.simps [of n] HasPrefix_def)
  next
    case False
    obtain c cs where c: "FormatUint (n div 10) = c # cs" using FormatUint_digits by (cases "FormatUint (n div 10)") auto
    have "\<not> HasPrefix (FormatUint (n div 10)) ''0''" using 1 False by simp
    then show ?thesis using False c by (auto simp: FormatUint.simps [of n] HasPrefix_def)
  qed
qed

lemma ParseUint32_Format: "ParseUint32 (FormatUint n) = (if n < 2 ^ 32 then Some n else None)"
  using FormatUint_digits [of n] by (simp add: ParseUint32_def Let_def FormatUint_value not_less)

lemma FormatUint_inj: "FormatUint m = FormatUint n \<longleftrightarrow> m = n"
  using FormatUint_value by metis

lemma TrimPrefix_numbered: "TrimPrefix (checkIDNumbered n) ''C'' = FormatUint n"
  by (simp add: TrimPrefix_def checkIDNumbered_def)

lemma checkIDNumbered_inj: "checkIDNumbered m = checkIDNumbered n \<longleftrightarrow> m = n"
  by (simp add: checkIDNumbered_def FormatUint_inj)

lemma checkIDNumbered_valid: "ValidateCheckID (checkIDNumbered n) = Inr () \<longleftrightarrow> 0 < n \<and> n < 2 ^ 32"
proof (cases "n = 0")
  case True
  have "char_of (48 :: nat) = CHR ''0''" by code_simp
  then show ?thesis using True by (simp add: ValidateCheckID_def checkIDNumbered_def FormatUint.simps HasPrefix_def)
next
  case False
  then show ?thesis using FormatUint_digits [of n] FormatUint_no_zero [of n]
    by (simp add: ValidateCheckID_def checkIDNumbered_def ParseUint32_Format)
qed

lemma highest_bound:
  "c \<in> set cs \<Longrightarrow> ParseUint32 (TrimPrefix (chk_ID c) ''C'') = Some n \<Longrightarrow> n \<le> highestCheckNumber cs"
proof (induction cs rule: rev_induct)
  case (snoc d cs)
  have "highestCheckNumber (cs @ [d]) =
      (case ParseUint32 (TrimPrefix (chk_ID d) ''C'') of Some n \<Rightarrow> max (highestCheckNumber cs) n | None \<Rightarrow> highestCheckNumber cs)"
    unfolding highestCheckNumber_def by simp
  then show ?case using snoc by (auto split: option.splits)
qed simp

lemma numbered_fresh:
  assumes "highestCheckNumber cs < n" "n < 2 ^ 32" "c \<in> set cs"
  shows "chk_ID c \<noteq> checkIDNumbered n"
proof
  assume "chk_ID c = checkIDNumbered n"
  then have "ParseUint32 (TrimPrefix (chk_ID c) ''C'') = Some n"
    using assms(2) by (simp add: TrimPrefix_numbered ParseUint32_Format)
  then show False using highest_bound [OF assms(3)] assms(1) by fastforce
qed

subsection \<open>Used ids\<close>

lemma dom_owner_fold:
  "dom (foldl (\<lambda>owners (i, owner). owners(i \<mapsto> owner)) m ps) = dom m \<union> fst ` set ps"
  by (induction ps arbitrary: m) auto

lemma check_owners_None: "check_owners members i = None \<longleftrightarrow> i \<notin> chk_ID ` set (concat (map Checks members))"
proof -
  have "dom (check_owners members) = chk_ID ` set (concat (map Checks members))"
    unfolding check_owners_def dom_owner_fold by force
  then show ?thesis by (metis domIff)
qed

text \<open>The check ids of the plot tree a seed is in.\<close>

definition tree_checks :: "Seed list \<Rightarrow> string \<Rightarrow> Check list" where
  "tree_checks seeds i = checksUnder seeds (plot_root seeds i)"

lemma UsedCheckID_None:
  "UsedCheckID seeds i checks = None \<longleftrightarrow> chk_ID ` set checks \<inter> chk_ID ` set (tree_checks seeds i) = {}"
  unfolding UsedCheckID_def Let_def tree_checks_def checksUnder_def
  by (auto simp: check_owners_None find_None_iff split: option.splits dest!: find_Some_iff_first)

subsection \<open>Numbering\<close>

lemma number_checks_ids:
  "i \<in> chk_ID ` set (number_checks n cs) \<Longrightarrow>
     i \<in> chk_ID ` set cs \<and> i \<noteq> [] \<or> (\<exists>m. n \<le> m \<and> m < n + length cs \<and> i = checkIDNumbered m)"
proof (induction n cs rule: number_checks.induct)
  case (2 n c cs)
  note ih = 2(1,2)
  show ?case
  proof (cases "chk_ID c = []")
    case True
    then consider "i = checkIDNumbered n" | "i \<in> chk_ID ` set (number_checks (n + 1) cs)" using 2(3) by auto
    then show ?thesis
    proof cases
      case 2
      then show ?thesis using ih(1) [OF True 2] by (auto dest: Suc_leD)
    qed auto
  next
    case False
    then consider "i = chk_ID c" | "i \<in> chk_ID ` set (number_checks n cs)" using 2(3) by auto
    then show ?thesis
    proof cases
      case 2
      then show ?thesis using ih(2) [OF False 2] by (metis image_insert insertCI length_Cons less_SucI list.set(2) add_Suc_right)
    qed (use False in auto)
  qed
qed simp

lemma number_checks_distinct:
  assumes "distinct (filter (\<lambda>i. i \<noteq> []) (map chk_ID cs))"
    "\<forall>m \<in> {n..<n + length cs}. checkIDNumbered m \<notin> chk_ID ` set cs"
  shows "distinct (map chk_ID (number_checks n cs))"
  using assms
proof (induction n cs rule: number_checks.induct)
  case (2 n c cs)
  show ?case
  proof (cases "chk_ID c = []")
    case True
    have "\<forall>m \<in> {n + 1..<n + 1 + length cs}. checkIDNumbered m \<notin> chk_ID ` set cs" using 2(4) by auto
    moreover have "checkIDNumbered n \<notin> chk_ID ` set (number_checks (n + 1) cs)"
      using number_checks_ids [of "checkIDNumbered n" "n + 1" cs] 2(4) by (auto simp: checkIDNumbered_inj)
    ultimately show ?thesis using 2(1) [OF True] 2(3) True by simp
  next
    case False
    have "\<forall>m \<in> {n..<n + length cs}. checkIDNumbered m \<notin> chk_ID ` set cs" using 2(4) by auto
    moreover have "chk_ID c \<notin> chk_ID ` set (number_checks n cs)"
    proof
      assume "chk_ID c \<in> chk_ID ` set (number_checks n cs)"
      moreover have "chk_ID c \<notin> chk_ID ` set cs" using 2(3) False by auto
      ultimately obtain m where "n \<le> m" "m < n + length cs" "checkIDNumbered m = chk_ID c"
        using number_checks_ids [of "chk_ID c" n cs] by auto
      then show False using 2(4) by simp
    qed
    ultimately show ?thesis using 2(2) [OF False] 2(3) False by simp
  qed
qed simp

lemma number_checks_length [simp]: "length (number_checks n cs) = length cs"
  by (induction n cs rule: number_checks.induct) auto

lemma number_checks_keeps: "i \<in> chk_ID ` set cs \<Longrightarrow> i \<noteq> [] \<Longrightarrow> i \<in> chk_ID ` set (number_checks n cs)"
  by (induction n cs rule: number_checks.induct) auto

text \<open>
  C28. Numbering the checks of a payload whose author wrote no id twice, as long as the numbers fit 32
  bits, gives every check an id of its own: ids the author wrote are kept, every other check gets a
  number that no check of the plot tree and of the payload has. So the payload is refused for a used id
  only when the author wrote that id.
\<close>
theorem NumberChecks_fresh:
  assumes "distinct (filter (\<lambda>i. i \<noteq> []) (map chk_ID cs))"
    "max (highestCheckNumber (tree_checks seeds plotID)) (highestCheckNumber cs) + length cs < 2 ^ 32"
  shows "distinct (map chk_ID (NumberChecks seeds plotID cs)) \<and> [] \<notin> chk_ID ` set (NumberChecks seeds plotID cs) \<and>
    chk_ID ` set cs - {[]} \<subseteq> chk_ID ` set (NumberChecks seeds plotID cs) \<and>
    (RefuseUsedCheckIDs seeds plotID (NumberChecks seeds plotID cs) = Inr ()) =
      (RefuseUsedCheckIDs seeds plotID (filter (\<lambda>c. chk_ID c \<noteq> []) cs) = Inr ())"
proof -
  define n where "n = max (highestCheckNumber (tree_checks seeds plotID)) (highestCheckNumber cs) + 1"
  have nc: "NumberChecks seeds plotID cs = number_checks n cs" by (simp add: NumberChecks_def n_def tree_checks_def)
  have fresh: "checkIDNumbered m \<notin> chk_ID ` set cs" "checkIDNumbered m \<notin> chk_ID ` set (tree_checks seeds plotID)"
    if "n \<le> m" "m < n + length cs" for m
  proof -
    have "highestCheckNumber cs < m" "highestCheckNumber (tree_checks seeds plotID) < m" "m < 2 ^ 32"
      using that assms(2) by (simp_all add: n_def)
    then show "checkIDNumbered m \<notin> chk_ID ` set cs" "checkIDNumbered m \<notin> chk_ID ` set (tree_checks seeds plotID)"
      by (metis image_iff numbered_fresh)+
  qed
  have ids: "i \<in> chk_ID ` set (number_checks n cs) \<Longrightarrow> i \<noteq> []" for i
    using number_checks_ids [of i n cs] by (auto simp: checkIDNumbered_def)
  have used: "i \<in> chk_ID ` set cs \<and> i \<noteq> []"
    if "i \<in> chk_ID ` set (number_checks n cs)" "i \<in> chk_ID ` set (tree_checks seeds plotID)" for i
    using number_checks_ids [OF that(1)] fresh(2) that(2) by (elim disjE exE conjE) simp_all
  have "UsedCheckID seeds plotID (number_checks n cs) = None \<longleftrightarrow>
      UsedCheckID seeds plotID (filter (\<lambda>c. chk_ID c \<noteq> []) cs) = None"
  proof -
    have "chk_ID ` set (filter (\<lambda>c. chk_ID c \<noteq> []) cs) = {i \<in> chk_ID ` set cs. i \<noteq> []}" by auto
    then show ?thesis unfolding UsedCheckID_None disjoint_iff using used number_checks_keeps [of _ cs n]
      by (metis (mono_tags, lifting) mem_Collect_eq)
  qed
  then have "(RefuseUsedCheckIDs seeds plotID (number_checks n cs) = Inr ()) =
      (RefuseUsedCheckIDs seeds plotID (filter (\<lambda>c. chk_ID c \<noteq> []) cs) = Inr ())"
    by (auto simp: RefuseUsedCheckIDs_def split: option.splits)
  moreover have "distinct (map chk_ID (number_checks n cs))"
    using number_checks_distinct [OF assms(1)] fresh(1) by simp
  moreover have "chk_ID ` set cs - {[]} \<subseteq> chk_ID ` set (number_checks n cs)" using number_checks_keeps by blast
  moreover have "[] \<notin> chk_ID ` set (number_checks n cs)" using ids by blast
  ultimately show ?thesis unfolding nc by (intro conjI)
qed

subsection \<open>Changing one seed of a plot tree\<close>

lemma part_rel_put_seed:
  assumes "distinct (map ID seeds)" "x \<in> set seeds" "ID x' = ID x" "Edges x' = Edges x"
  shows "part_rel (put_seed seeds x') = part_rel seeds"
proof -
  have p: "ParentOf x' = ParentOf x" using assms(4) by (simp add: ParentOf_def)
  have only: "t = x" if "t \<in> set seeds" "ID t = ID x" for t using assms(1,2) that by (auto simp: distinct_map inj_on_def)
  have "(i, j) \<in> part_rel (put_seed seeds x') \<longleftrightarrow> (i, j) \<in> part_rel seeds" for i j
  proof
    assume "(i, j) \<in> part_rel (put_seed seeds x')"
    then obtain t where t: "t \<in> set (put_seed seeds x')" "i = ID t" "ParentOf t = Some j" by (auto simp: part_rel_def)
    then have "t = x' \<or> t \<in> set seeds" using put_seed_cases [OF assms(2,3)] by blast
    then obtain t' where "t' \<in> set seeds" "i = ID t'" "ParentOf t' = Some j" using t p assms(2,3) by metis
    then show "(i, j) \<in> part_rel seeds" by (auto simp: part_rel_def)
  next
    assume "(i, j) \<in> part_rel seeds"
    then obtain t where t: "t \<in> set seeds" "i = ID t" "ParentOf t = Some j" by (auto simp: part_rel_def)
    then have "(if ID t = ID x' then x' else t) \<in> set (put_seed seeds x')" by (simp add: set_put_seed)
    moreover have "ParentOf (if ID t = ID x' then x' else t) = Some j" using only t p assms(3) by auto
    moreover have "ID (if ID t = ID x' then x' else t) = i" using t(2) by simp
    ultimately show "(i, j) \<in> part_rel (put_seed seeds x')" unfolding part_rel_def by blast
  qed
  then show ?thesis by auto
qed

lemma ancestors_put_seed:
  assumes "distinct (map ID seeds)" "x \<in> set seeds" "ID x' = ID x" "Edges x' = Edges x"
  shows "ancestors (put_seed seeds x') i = map (\<lambda>t. if ID t = ID x' then x' else t) (ancestors seeds i)"
proof (cases "byID seeds i")
  case None
  then have "byID (put_seed seeds x') i = None" by (auto simp: byID_put_seed byID_None)
  then show ?thesis using None by (simp add: ancestors_def)
next
  case (Some s)
  let ?u = "\<lambda>t. if ID t = ID x' then x' else t"
  have s: "s \<in> set seeds" "ID s = i" using byID_Some [OF Some] by auto
  have "i \<in> ID ` set seeds" using s by auto
  then have b: "byID (put_seed seeds x') i = Some (?u s)" using Some s by (simp add: byID_put_seed)
  have "ParentOf (?u s) = ParentOf s"
    using assms s by (auto simp: distinct_map inj_on_def ParentOf_def)
  then have "parents_from (put_seed seeds x') (?u s) [i] = parents_from (put_seed seeds x') s [i]"
    by (rule parents_from_cong)
  then show ?thesis using b Some by (simp add: ancestors_def parents_from_put_seed [OF assms])
qed

lemma plot_root_put_seed:
  assumes "distinct (map ID seeds)" "x \<in> set seeds" "ID x' = ID x" "Edges x' = Edges x"
  shows "plot_root (put_seed seeds x') i = plot_root seeds i"
proof -
  note ancestors_put_seed [OF assms]
  moreover have "plot_root ss i = (if ancestors ss i = [] then i else ID (last (ancestors ss i)))" for ss
    by (simp add: plot_root_def split: list.splits)
  ultimately show ?thesis by (simp add: last_map)
qed

lemma InPlot_put_seed:
  assumes "distinct (map ID seeds)" "x \<in> set seeds" "ID x' = ID x" "Edges x' = Edges x"
  shows "InPlot (put_seed seeds x') c = map (\<lambda>t. if ID t = ID x' then x' else t) (InPlot seeds c)"
proof -
  have "ID ` set (descendants (put_seed seeds x') c) = ID ` set (descendants seeds c)"
    unfolding descendants_ids part_rel_put_seed [OF assms] ..
  then show ?thesis unfolding InPlot_def Let_def put_seed_def filter_map
    by (intro arg_cong [where f = "map _"] filter_cong) auto
qed

lemma tree_checks_put_seed:
  assumes "distinct (map ID seeds)" "x \<in> set seeds" "ID x' = ID x" "Edges x' = Edges x"
  shows "tree_checks (put_seed seeds x') i =
    concat (map (\<lambda>t. if ID t = ID x then Checks x' else Checks t) (InPlot seeds (plot_root seeds i)))"
  unfolding tree_checks_def checksUnder_def plot_root_put_seed [OF assms] InPlot_put_seed [OF assms] map_map
  by (intro arg_cong [where f = concat] map_cong) (simp_all add: assms(3))

subsection \<open>Definition moves\<close>

lemma check_index_Some: "check_index cs i = Some ix \<Longrightarrow> ix < length cs \<and> chk_ID (cs ! ix) = i"
  by (induction cs arbitrary: ix) (auto split: if_splits)

lemma map_chk_ID_update:
  "check_index cs i = Some ix \<Longrightarrow> chk_ID c = i \<Longrightarrow> map chk_ID (cs[ix := c]) = map chk_ID cs"
  using check_index_Some [of cs i ix] by (simp add: map_update list_update_same_conv)

lemma applyDefinitionMove_ids:
  assumes "applyDefinitionMove seeds seed checkID move = Inr (headline, detail, checks)"
  shows "map chk_ID checks = map chk_ID (Checks seed) \<or>
    map chk_ID checks = map chk_ID (Checks seed) @ [checkID] \<and> checkID \<notin> chk_ID ` set (tree_checks seeds (ID seed))"
proof (cases "cm_Verb move = ''add''")
  case True
  then have "check_index (Checks seed) checkID = None"
    using assms by (auto simp: applyDefinitionMove_def Let_def split: option.splits if_splits)
  then have "map chk_ID checks = map chk_ID (Checks seed) @ [checkID]"
      "UsedCheckID seeds (ID seed) [\<lparr>chk_ID = checkID, chk_Text = [], chk_Shared = False, chk_Removed = False\<rparr>] = None"
    using assms True
    by (auto simp: applyDefinitionMove_def Let_def RefuseUsedCheckIDs_def bind_result_eq_Inr split: option.splits if_splits)
  then show ?thesis unfolding UsedCheckID_None by simp
next
  case False
  then obtain ix where ix: "check_index (Checks seed) checkID = Some ix"
    using assms by (auto simp: applyDefinitionMove_def Let_def split: option.splits)
  then obtain c where "checks = (Checks seed)[ix := c]" "chk_ID c = checkID"
    using assms False check_index_Some [OF ix]
    by (auto simp: applyDefinitionMove_def Let_def bind_result_eq_Inr split: if_splits)
  then show ?thesis using map_chk_ID_update [OF ix] by blast
qed

subsection \<open>Result moves\<close>

text \<open>
  The protocol of a check: its state and whether a report is there. A verdict needs no report, an
  unchecked check falls back to its report, and a report clears the verdict.
\<close>

type_synonym check_view = "CheckState \<times> bool"

definition check_view :: "CheckResult \<Rightarrow> check_view" where
  "check_view r = (State r, res_Report r \<noteq> None)"

definition result_verbs :: "string list" where
  "result_verbs = [''report'', ''confirm'', ''reject'', ''uncheck'', ''reopen'']"

definition check_protocol :: "string \<Rightarrow> check_view \<Rightarrow> check_view option" where
  "check_protocol verb v =
     (case v of (state, reported) \<Rightarrow>
        if verb = ''report'' then Some (CheckReported, True)
        else if verb = ''confirm'' then Some (CheckConfirmed, reported)
        else if verb = ''reject'' then Some (CheckRejected, reported)
        else if verb = ''uncheck'' \<and> state \<in> {CheckConfirmed, CheckRejected}
        then Some (if reported then CheckReported else CheckOpen, reported)
        else if verb = ''reopen'' \<and> state \<noteq> CheckOpen then Some (CheckOpen, False)
        else None)"

lemma applyResultMove_protocol:
  assumes "applyResultMove web_url seedID checkID r move artifacts t = Inr (headline, detail, r')"
  shows "check_protocol (cm_Verb move) (check_view r) = Some (check_view r')"
  using assms
  by (cases "res_Verdict r"; cases "res_Report r")
    (auto simp: applyResultMove_def check_protocol_def check_view_def Let_def State_def no_result_def bind_result_eq_Inr
      split: if_splits sum.splits)

lemma parse_evidence_reasons:
  "parse_evidence web_url cited artifacts = (evidence, problems) \<Longrightarrow> \<forall>p \<in> set problems. reason_of p = RefusalInvalidInput"
proof (induction cited arbitrary: evidence problems)
  case (Cons c cs)
  obtain ev ps where "parse_evidence web_url cs artifacts = (ev, ps)" by force
  then show ?case using Cons
    by (auto simp: Let_def ParseCheckEvidence_def split: sum.splits option.splits if_splits)
qed simp

lemma buildCheckReport_reasons:
  assumes "buildCheckReport web_url seedID checkID move artifacts t = Inl problems"
  shows "problems \<noteq> [] \<and> (\<forall>p \<in> set problems. reason_of p \<in> {RefusalInvalidInput, RefusalLimit})"
proof -
  obtain ev ps where e: "parse_evidence web_url (cm_Evidence move) artifacts = (ev, ps)" by force
  show ?thesis using assms parse_evidence_reasons [OF e]
    by (auto simp: buildCheckReport_def Let_def e ParseReportText_def split: if_splits sum.splits prod.splits option.splits)
qed

lemma JoinProblems_reason:
  "problems \<noteq> [] \<Longrightarrow> reason_of (the (JoinProblems problems)) = reason_of (hd problems)"
  by (auto simp: JoinProblems_def split: list.splits)

lemma applyResultMove_refused:
  assumes "applyResultMove web_url seedID checkID r move artifacts t = Inl e"
  shows "check_protocol (cm_Verb move) (check_view r) = None \<longleftrightarrow>
    reason_of e = RefusalWrongState \<or> cm_Verb move \<notin> set result_verbs"
proof (cases "cm_Verb move = ''report''")
  case True
  then obtain ps where "buildCheckReport web_url seedID checkID move artifacts t = Inl ps" "e = the (JoinProblems ps)"
    using assms by (auto simp: applyResultMove_def Let_def split: sum.splits)
  then have "reason_of e \<in> {RefusalInvalidInput, RefusalLimit}"
    using buildCheckReport_reasons JoinProblems_reason by (metis hd_in_set)
  then show ?thesis using True by (auto simp: check_protocol_def check_view_def result_verbs_def)
next
  case False
  then show ?thesis using assms
    by (cases "res_Verdict r")
      (auto simp: applyResultMove_def check_protocol_def check_view_def result_verbs_def Let_def State_def validateCheckLine_def
        bind_result_eq_Inl split: if_splits option.splits)
qed

subsection \<open>The whole move\<close>

lemma ApplyCheckMove_cases:
  assumes "ApplyCheckMove web_url seeds i move artifacts t = Inr (next, note)"
  obtains (defines_move) seed headline detail checks where "byID seeds i = Some seed"
      "cm_Verb move \<in> {''add'', ''edit'', ''remove'', ''restore''}"
      "applyDefinitionMove seeds seed (TrimSpace (cm_CheckID move)) move = Inr (headline, detail, checks)"
      "next = seed\<lparr>Checks := checks\<rparr>"
    | (result_move) seed c key headline detail r' where "byID seeds i = Some seed"
      "cm_Verb move \<notin> {''add'', ''edit'', ''remove'', ''restore''}"
      "find (\<lambda>c. chk_ID (eff_Check c) = TrimSpace (cm_CheckID move) \<and> \<not> chk_Removed (eff_Check c)) (EffectiveChecks seeds i) = Some c"
      "key = (if eff_From c \<noteq> [] then sharedResultKey (eff_From c) (TrimSpace (cm_CheckID move)) else TrimSpace (cm_CheckID move))"
      "applyResultMove web_url (ID seed) (TrimSpace (cm_CheckID move)) (eff_Result c) move artifacts t = Inr (headline, detail, r')"
      "next = seed\<lparr>CheckResults := (if res_Report r' = None \<and> res_Verdict r' = None then (CheckResults seed)(key := None)
         else (CheckResults seed)(key \<mapsto> r'))\<rparr>"
proof -
  obtain seed where seed: "byID seeds i = Some seed"
    using assms by (cases "byID seeds i") (simp_all add: ApplyCheckMove_def)
  show thesis
  proof (cases "cm_Verb move \<in> {''add'', ''edit'', ''remove'', ''restore''}")
    case True
    then obtain headline detail checks where
        "applyDefinitionMove seeds seed (TrimSpace (cm_CheckID move)) move = Inr (headline, detail, checks)"
        "next = seed\<lparr>Checks := checks\<rparr>"
      using assms seed unfolding ApplyCheckMove_def Let_def
      by (simp only: if_P bind_result_eq_Inr option.case) (elim exE conjE, clarsimp simp: bind_result_eq_Inr)
    then show thesis using defines_move seed True by blast
  next
    case False
    let ?found = "find (\<lambda>c. chk_ID (eff_Check c) = TrimSpace (cm_CheckID move) \<and> \<not> chk_Removed (eff_Check c)) (EffectiveChecks seeds i)"
    have "?found \<noteq> None"
    proof
      assume "?found = None"
      then show False using assms seed False unfolding ApplyCheckMove_def Let_def
        by (simp only: if_not_P bind_result_eq_Inr option.case) simp
    qed
    then obtain c where c: "?found = Some c" by auto
    let ?key = "if eff_From c \<noteq> [] then sharedResultKey (eff_From c) (TrimSpace (cm_CheckID move)) else TrimSpace (cm_CheckID move)"
    obtain headline detail r' where
        "applyResultMove web_url (ID seed) (TrimSpace (cm_CheckID move)) (eff_Result c) move artifacts t = Inr (headline, detail, r')"
        "next = seed\<lparr>CheckResults := (if res_Report r' = None \<and> res_Verdict r' = None then (CheckResults seed)(?key := None)
           else (CheckResults seed)(?key \<mapsto> r'))\<rparr>"
      using assms seed False c unfolding ApplyCheckMove_def Let_def
      by (simp only: if_not_P bind_result_eq_Inr option.case if_False) (elim exE conjE, clarsimp simp only: prod.case sum.inject prod.inject bind_result_eq_Inr, blast)
    then show thesis by (rule result_move [OF seed False c HOL.refl])
  qed
qed

lemma mset_concat_append:
  assumes "distinct (map ID ms)" "m \<in> set ms"
  shows "mset (concat (map (\<lambda>t. if ID t = ID m then f m @ [y] else f t) ms)) = add_mset y (mset (concat (map f ms)))"
  using assms
proof (induction ms)
  case (Cons t ms)
  show ?case
  proof (cases "t = m")
    case True
    have "map (\<lambda>t. if ID t = ID m then f m @ [y] else f t) ms = map f ms"
      using Cons(2) True by (intro map_cong) (auto simp: image_iff)
    then have "concat (map (\<lambda>t. if ID t = ID m then f m @ [y] else f t) ms) = concat (map f ms)" by (rule arg_cong)
    moreover have "concat (map (\<lambda>t. if ID t = ID m then f m @ [y] else f t) (t # ms)) =
        (f m @ [y]) @ concat (map (\<lambda>t. if ID t = ID m then f m @ [y] else f t) ms)" using True by simp
    ultimately show ?thesis using True by (simp only: mset_append) simp
  next
    case False
    then have "ID t \<noteq> ID m" "m \<in> set ms" using Cons(2,3) by auto
    then show ?thesis using Cons by simp
  qed
qed simp

text \<open>
  C9. When seed ids are distinct and the check ids of a plot tree are, an accepted move on a check keeps
  the check ids of the tree unique, and an id that was ever used in it stays used: removing a check does
  not free its id.
\<close>
theorem ApplyCheckMove_unique_ids:
  assumes "distinct (map ID seeds)" "distinct (map chk_ID (tree_checks seeds i))"
    "ApplyCheckMove web_url seeds i move artifacts t = Inr (next, note)"
  shows "distinct (map chk_ID (tree_checks (put_seed seeds next) i)) \<and>
    chk_ID ` set (tree_checks seeds i) \<subseteq> chk_ID ` set (tree_checks (put_seed seeds next) i)"
proof -
  obtain seed where seed: "byID seeds i = Some seed" "ID next = ID seed" "Edges next = Edges seed"
    "map chk_ID (Checks next) = map chk_ID (Checks seed) \<or>
      (\<exists>y. map chk_ID (Checks next) = map chk_ID (Checks seed) @ [y] \<and> y \<notin> chk_ID ` set (tree_checks seeds (ID seed)))"
    using assms(3)
  proof (cases rule: ApplyCheckMove_cases)
    case (defines_move seed headline detail checks)
    then show ?thesis using that [of seed] applyDefinitionMove_ids [OF defines_move(3)] by auto
  next
    case (result_move seed c key headline detail r')
    then show ?thesis using that [of seed] by simp
  qed
  have s: "seed \<in> set seeds" "ID seed = i" using byID_Some [OF seed(1)] by auto
  let ?ms = "InPlot seeds (plot_root seeds i)"
  let ?ids = "\<lambda>t. map chk_ID (Checks t)"
  have new: "map chk_ID (tree_checks (put_seed seeds next) i) = concat (map (\<lambda>t. if ID t = ID seed then ?ids next else ?ids t) ?ms)"
    unfolding tree_checks_put_seed [OF assms(1) s(1) seed(2,3)] map_concat map_map
    by (intro arg_cong [where f = concat] map_cong) simp_all
  have old: "map chk_ID (tree_checks seeds i) = concat (map ?ids ?ms)"
    by (simp add: tree_checks_def checksUnder_def map_concat comp_def)
  have dm: "distinct (map ID ?ms)" using assms(1) by (simp add: InPlot_def Let_def distinct_map_filter)
  have same: "t = seed" if "t \<in> set ?ms" "ID t = ID seed" for t
    using that assms(1) s(1) by (auto simp: InPlot_def Let_def distinct_map inj_on_def)
  consider "map chk_ID (tree_checks (put_seed seeds next) i) = map chk_ID (tree_checks seeds i)"
    | y where "mset (map chk_ID (tree_checks (put_seed seeds next) i)) = add_mset y (mset (map chk_ID (tree_checks seeds i)))"
        "y \<notin> chk_ID ` set (tree_checks seeds i)"
  proof (cases "seed \<in> set ?ms \<and> ?ids next \<noteq> ?ids seed")
    case True
    then obtain y where y: "?ids next = ?ids seed @ [y]" "y \<notin> chk_ID ` set (tree_checks seeds i)" using seed(4) s(2) by auto
    show thesis
      using that(2) [of y] y(2) mset_concat_append [OF dm, of seed ?ids y] True unfolding new old y(1) by blast
  next
    case False
    then have "map (\<lambda>t. if ID t = ID seed then ?ids next else ?ids t) ?ms = map ?ids ?ms"
      using same by (intro map_cong) auto
    then show thesis using that(1) unfolding new old by (simp only:)
  qed
  then show ?thesis
  proof cases
    case 1
    then show ?thesis using assms(2) by (metis list.set_map order_refl)
  next
    case (2 y)
    let ?new = "map chk_ID (tree_checks (put_seed seeds next) i)" and ?old = "map chk_ID (tree_checks seeds i)"
    have "mset ?new = mset (y # ?old)" using 2(1) by simp
    then have "set ?new = set (y # ?old)" "distinct ?new = distinct (y # ?old)"
      using mset_eq_setD mset_eq_imp_distinct_iff by blast+
    then show ?thesis using assms(2) 2(2) by auto
  qed
qed

subsection \<open>Where a result is kept\<close>

text \<open>
  The checks that apply to a seed, without their results, and the key each has among the results of
  the seed: its own checks under their id, one that is shared from above under the plot and the id.
\<close>

definition applying :: "Seed list \<Rightarrow> string \<Rightarrow> Seed \<Rightarrow> (Check \<times> string) list" where
  "applying seeds i seed =
     map (\<lambda>c. (c, [])) (filter (\<lambda>c. \<not> chk_Shared c) (Checks seed)) @
     (if plot_leaf seeds i then concat (map (\<lambda>p. map (\<lambda>c. (c, ID p)) (filter chk_Shared (Checks p))) (ancestors seeds i)) else [])"

definition result_key :: "string \<Rightarrow> string \<Rightarrow> string" where
  "result_key plot i = (if plot \<noteq> [] then sharedResultKey plot i else i)"

definition effective_at :: "Seed \<Rightarrow> Check \<times> string \<Rightarrow> EffectiveCheck" where
  "effective_at seed = (\<lambda>(c, plot). \<lparr>eff_Check = c, eff_From = plot, eff_Result = result_at seed (result_key plot (chk_ID c))\<rparr>)"

lemma effective_at_fields: "eff_Check (effective_at seed x) = fst x" "eff_From (effective_at seed x) = snd x"
  by (simp_all add: effective_at_def split_beta)

lemma parents_from_in: "p \<in> set (parents_from seeds s seen) \<Longrightarrow> p \<in> set seeds"
proof (induction seeds s seen rule: parents_from.induct)
  case (1 seeds s seen)
  show ?case
  proof (cases "ParentOf s")
    case None
    then show ?thesis using 1(2) by (simp add: parents_from.simps [of seeds s])
  next
    case parent: (Some q)
    show ?thesis
    proof (cases "q \<in> set seen \<or> byID seeds q = None")
      case True
      then show ?thesis using 1(2) parent by (auto simp: parents_from.simps [of seeds s] split: if_splits)
    next
      case False
      then obtain r where r: "byID seeds q = Some r" "q \<notin> set seen" by auto
      then have "p = r \<or> p \<in> set (parents_from seeds r (q # seen))" using 1(2) parent by (auto simp: parents_from.simps [of seeds s])
      then show ?thesis using 1(1) [OF parent r(2,1)] byID_Some [OF r(1)] by blast
    qed
  qed
qed

lemma ancestors_in: "p \<in> set (ancestors seeds i) \<Longrightarrow> p \<in> set seeds"
  using parents_from_in by (auto simp: ancestors_def split: option.splits)

lemma EffectiveChecks_applying:
  assumes "[] \<notin> ID ` set seeds" "byID seeds i = Some seed"
  shows "EffectiveChecks seeds i = map (effective_at seed) (applying seeds i seed)"
proof -
  have id: "ID p \<noteq> []" if "p \<in> set (ancestors seeds i)" for p using ancestors_in [OF that] assms(1) by (metis imageI)
  have "\<lparr>eff_Check = c, eff_From = ID p, eff_Result = result_at seed (sharedResultKey (ID p) (chk_ID c))\<rparr> = effective_at seed (c, ID p)"
    if "p \<in> set (ancestors seeds i)" for p c
    using id [OF that] by (simp add: effective_at_def result_key_def)
  then have "concat (map (\<lambda>p. map (\<lambda>c. \<lparr>eff_Check = c, eff_From = ID p, eff_Result = result_at seed (sharedResultKey (ID p) (chk_ID c))\<rparr>)
        (filter chk_Shared (Checks p))) (ancestors seeds i)) =
      map (effective_at seed) (concat (map (\<lambda>p. map (\<lambda>c. (c, ID p)) (filter chk_Shared (Checks p))) (ancestors seeds i)))"
    unfolding map_concat map_map comp_def by (intro arg_cong [where f = concat] map_cong) simp_all
  moreover have "map (\<lambda>c. \<lparr>eff_Check = c, eff_From = [], eff_Result = result_at seed (chk_ID c)\<rparr>) cs = map (effective_at seed) (map (\<lambda>c. (c, [])) cs)" for cs
    by (simp add: effective_at_def result_key_def)
  ultimately show ?thesis unfolding EffectiveChecks_def assms(2) option.case Let_def applying_def map_append
    by (cases "plot_leaf seeds i") (simp_all only: if_True if_False simp_thms append_Nil2 list.map(1))
qed

text \<open>Writing results on a seed changes no definition that applies to any seed.\<close>

lemma applying_put_results:
  assumes "distinct (map ID seeds)" "x \<in> set seeds" "ID x' = ID x" "Edges x' = Edges x" "Checks x' = Checks x" "s \<in> set seeds"
  shows "applying (put_seed seeds x') j (if ID s = ID x then x' else s) = applying seeds j s"
proof -
  have only: "t = x" if "t \<in> set seeds" "ID t = ID x" for t using assms(1,2) that by (auto simp: distinct_map inj_on_def)
  have "plot_leaf (put_seed seeds x') j = plot_leaf seeds j"
  proof -
    have "plot_leaf ss j \<longleftrightarrow> (\<forall>k. (k, j) \<notin> part_rel ss)" for ss
      unfolding plot_leaf_def plot_children_rel [symmetric] by (cases "plot_children ss j") auto
    then show ?thesis using part_rel_put_seed [OF assms(1-4)] by simp
  qed
  moreover have "map (\<lambda>p. map (\<lambda>c. (c, ID p)) (filter chk_Shared (Checks p))) (ancestors (put_seed seeds x') j) =
      map (\<lambda>p. map (\<lambda>c. (c, ID p)) (filter chk_Shared (Checks p))) (ancestors seeds j)"
    unfolding ancestors_put_seed [OF assms(1-4)] map_map
  proof (rule map_cong [OF HOL.refl])
    fix p
    assume "p \<in> set (ancestors seeds j)"
    then show "((\<lambda>p. map (\<lambda>c. (c, ID p)) (filter chk_Shared (Checks p))) \<circ> (\<lambda>t. if ID t = ID x' then x' else t)) p =
        map (\<lambda>c. (c, ID p)) (filter chk_Shared (Checks p))"
      using only [of p] ancestors_in assms(3,5) by auto
  qed
  moreover have "Checks (if ID s = ID x then x' else s) = Checks s" using only [OF assms(6)] assms(5) by auto
  ultimately show ?thesis by (simp add: applying_def)
qed

text \<open>Keys of checks with proper ids do not collide.\<close>

lemma check_id_no_slash: "ValidateCheckID i = Inr () \<Longrightarrow> CHR ''/'' \<notin> set i"
  by (auto simp: ValidateCheckID_def strip_prefix_iff ParseUint32_def list_all_iff is_digit_def Let_def split: option.splits if_splits)

lemma last_part: "CHR ''/'' \<notin> set b \<Longrightarrow> CHR ''/'' \<notin> set b' \<Longrightarrow> a @ ''/'' @ b = a' @ ''/'' @ b' \<Longrightarrow> a = a' \<and> b = b'"
proof -
  assume no: "CHR ''/'' \<notin> set b" "CHR ''/'' \<notin> set b'" and eq: "a @ ''/'' @ b = a' @ ''/'' @ b'"
  have tail: "takeWhile (\<lambda>c. c \<noteq> CHR ''/'') (rev (x @ ''/'' @ y)) = rev y" if "CHR ''/'' \<notin> set y" for x y
    using that by (simp add: takeWhile_append)
  have "rev b = rev b'" unfolding tail [OF no(1), of a, symmetric] tail [OF no(2), of a', symmetric] eq ..
  then show ?thesis using eq by simp
qed

lemma result_key_inj:
  assumes "ValidateCheckID i = Inr ()" "ValidateCheckID i' = Inr ()" "result_key p i = result_key p' i'"
  shows "p = p' \<and> i = i'"
proof -
  note no = check_id_no_slash [OF assms(1)] check_id_no_slash [OF assms(2)]
  have slash: "CHR ''/'' \<in> set (result_key q k) \<longleftrightarrow> q \<noteq> []" if "CHR ''/'' \<notin> set k" for q k
    using that by (simp add: result_key_def sharedResultKey_def)
  have both: "p \<noteq> [] \<longleftrightarrow> p' \<noteq> []" using slash [OF no(1), of p] slash [OF no(2), of p'] assms(3) by simp
  show ?thesis
  proof (cases "p = []")
    case True
    then show ?thesis using both assms(3) by (simp add: result_key_def)
  next
    case False
    then have "p @ ''/'' @ i = p' @ ''/'' @ i'" using both assms(3) by (simp add: result_key_def sharedResultKey_def)
    then show ?thesis by (rule last_part [OF no])
  qed
qed

text \<open>
  C27. What a move on the result of a check does, when it is accepted, the ids of the seeds are distinct and not
  empty and the checks that apply to the seed have proper ids. It is about a check that applies to the seed,
  its own or one shared from a plot above, and is not removed. The result that this check has afterwards is
  the one the protocol of report and verdict gives for the verb and the result it had; reading the checks of
  the seed again gives the same list, in which only the result of that check, of that origin, is different;
  the checks of every other seed are as before, and nothing but the results of the seed was written.
\<close>
theorem ApplyCheckMove_refines_protocol:
  assumes "distinct (map ID seeds)" "[] \<notin> ID ` set seeds" "ApplyCheckMove web_url seeds i move artifacts t = Inr (next, note)"
    "cm_Verb move \<in> set result_verbs" "\<forall>d \<in> set (EffectiveChecks seeds i). ValidateCheckID (chk_ID (eff_Check d)) = Inr ()"
  shows "\<exists>seed c r'. byID seeds i = Some seed \<and> next = seed\<lparr>CheckResults := CheckResults next\<rparr> \<and>
    c \<in> set (EffectiveChecks seeds i) \<and> \<not> chk_Removed (eff_Check c) \<and> chk_ID (eff_Check c) = TrimSpace (cm_CheckID move) \<and>
    check_protocol (cm_Verb move) (check_view (eff_Result c)) = Some (check_view r') \<and>
    EffectiveChecks (put_seed seeds next) i =
      map (\<lambda>d. if chk_ID (eff_Check d) = chk_ID (eff_Check c) \<and> eff_From d = eff_From c then d\<lparr>eff_Result := r'\<rparr> else d)
        (EffectiveChecks seeds i) \<and>
    (\<forall>j. j \<noteq> i \<longrightarrow> EffectiveChecks (put_seed seeds next) j = EffectiveChecks seeds j)"
  using assms(3)
proof (cases rule: ApplyCheckMove_cases)
  case (defines_move seed headline detail checks)
  then show ?thesis using assms(4) by (auto simp: result_verbs_def)
next
  case (result_move seed c key headline detail r')
  define k where "k = TrimSpace (cm_CheckID move)"
  have c: "c \<in> set (EffectiveChecks seeds i)" "\<not> chk_Removed (eff_Check c)" "chk_ID (eff_Check c) = k"
    using find_Some_iff_first [OF result_move(3)] by (simp_all add: k_def)
  have key: "key = result_key (eff_From c) k" using result_move(4) by (simp add: result_key_def k_def)
  have seed: "seed \<in> set seeds" "ID seed = i" using byID_Some [OF result_move(1)] by auto
  have same: "ID next = ID seed" "Edges next = Edges seed" "Checks next = Checks seed" by (simp_all add: result_move(6))
  have res: "result_at next q = (if q = key then r' else result_at seed q)" for q
    unfolding result_move(6) by (cases r') (auto simp: result_at_def no_result_def)
  have ids: "[] \<notin> ID ` set (put_seed seeds next)" using assms(2) put_seed_ids [of seeds "next"] by (metis list.set_map)
  have eff: "EffectiveChecks (put_seed seeds next) j = map (effective_at (if j = i then next else s)) (applying seeds j s)"
    if "byID seeds j = Some s" for j s
  proof -
    have s: "s \<in> set seeds" "ID s = j" using byID_Some [OF that] by auto
    have "byID (put_seed seeds next) j = Some (if j = i then next else s)" using that s seed same(1) by (auto simp: byID_put_seed)
    from EffectiveChecks_applying [OF ids this] show ?thesis
      using applying_put_results [OF assms(1) seed(1) same s(1), of j] s(2) seed(2) by simp
  qed
  have "EffectiveChecks (put_seed seeds next) i =
      map (\<lambda>d. if chk_ID (eff_Check d) = k \<and> eff_From d = eff_From c then d\<lparr>eff_Result := r'\<rparr> else d) (EffectiveChecks seeds i)"
  proof -
    note old = EffectiveChecks_applying [OF assms(2) result_move(1)]
    have "effective_at next (x, p) =
        (if chk_ID x = k \<and> p = eff_From c then (effective_at seed (x, p))\<lparr>eff_Result := r'\<rparr> else effective_at seed (x, p))"
      if "(x, p) \<in> set (applying seeds i seed)" for x p
    proof -
      have "effective_at seed (x, p) \<in> set (EffectiveChecks seeds i)" using that by (simp add: old)
      then have "ValidateCheckID (chk_ID x) = Inr ()" "ValidateCheckID k = Inr ()" using assms(5) c by (auto simp: effective_at_def)
      then have "result_key p (chk_ID x) = key \<longleftrightarrow> chk_ID x = k \<and> p = eff_From c" using result_key_inj key by blast
      then show ?thesis by (simp add: effective_at_def res)
    qed
    then show ?thesis unfolding eff [OF result_move(1)] old map_map comp_def
      by (intro map_cong HOL.refl) (auto simp: effective_at_fields)
  qed
  moreover have "EffectiveChecks (put_seed seeds next) j = EffectiveChecks seeds j" if "j \<noteq> i" for j
  proof (cases "byID seeds j")
    case None
    then have "byID (put_seed seeds next) j = None" using that seed(2) same(1) by (simp add: byID_put_seed)
    then show ?thesis using None by (simp add: EffectiveChecks_def)
  next
    case (Some s)
    then show ?thesis using eff EffectiveChecks_applying [OF assms(2) Some] that by simp
  qed
  moreover have "next = seed\<lparr>CheckResults := CheckResults next\<rparr>" by (simp add: result_move(6))
  ultimately show ?thesis
    using result_move(1) c applyResultMove_protocol [OF result_move(5)] unfolding k_def [symmetric]
    by (intro exI [of _ seed] exI [of _ c] exI [of _ r'] conjI allI impI) simp_all
qed

text \<open>
  A result move is refused as out of state exactly when the protocol has no step for it: every
  other refusal of a known verb is about what the caller wrote.
\<close>
theorem applyResultMove_refusals:
  "case applyResultMove web_url seedID checkID r move artifacts t of
     Inl e \<Rightarrow> (if cm_Verb move \<in> set result_verbs
         then (check_protocol (cm_Verb move) (check_view r) = None) = (reason_of e = RefusalWrongState)
         else check_protocol (cm_Verb move) (check_view r) = None)
   | Inr (headline, detail, r') \<Rightarrow> check_protocol (cm_Verb move) (check_view r) = Some (check_view r')"
  using applyResultMove_protocol applyResultMove_refused by (fastforce split: sum.splits)

subsection \<open>Instances\<close>

definition demo_check :: "string \<Rightarrow> Check" where
  "demo_check i = \<lparr>chk_ID = i, chk_Text = ''builds'', chk_Shared = False, chk_Removed = False\<rparr>"

definition demo_checked :: "Seed list" where
  "demo_checked = [(blank_seed ''s1'')\<lparr>Checks := [demo_check ''C1'']\<rparr>]"

definition demo_check_move :: "string \<Rightarrow> string \<Rightarrow> CheckMove" where
  "demo_check_move verb i = \<lparr>cm_Verb = verb, cm_CheckID = i, cm_Text = ''tests pass'', cm_Shared = False, cm_Summary = ''seen'',
     cm_Evidence = [], cm_Commit = [], cm_Actor = User\<rparr>"

definition demo_move_result :: "string \<Rightarrow> string \<Rightarrow> Seed \<times> Note" where
  "demo_move_result verb i = projr (ApplyCheckMove (\<lambda>_. False) demo_checked ''s1'' (demo_check_move verb i) [] ''2026'')"

lemma demo_check_ids: "ValidateCheckID ''C1'' = Inr ()" "ValidateCheckID ''C2'' = Inr ()"
  by (simp_all add: ValidateCheckID_def ParseUint32_def digit_value_def is_digit_def HasPrefix_def)

lemma demo_tree_checks: "tree_checks demo_checked ''s1'' = [demo_check ''C1'']"
  by code_simp

lemma demo_effective: "EffectiveChecks demo_checked ''s1'' = [\<lparr>eff_Check = demo_check ''C1'', eff_From = [], eff_Result = no_result\<rparr>]"
  by code_simp

lemma demo_byID: "byID demo_checked ''s1'' = Some ((blank_seed ''s1'')\<lparr>Checks := [demo_check ''C1'']\<rparr>)"
  by (simp add: byID_def demo_checked_def blank_seed_def)

lemma demo_unused: "UsedCheckID demo_checked ''s1'' [\<lparr>chk_ID = ''C2'', chk_Text = [], chk_Shared = False, chk_Removed = False\<rparr>] = None"
  unfolding UsedCheckID_None by (simp add: demo_tree_checks demo_check_def)

lemma demo_runes: "RuneCount ''seen'' = 4" "RuneCount ''tests pass'' = 10"
  by code_simp+

lemma demo_add: "ApplyCheckMove (\<lambda>_. False) demo_checked ''s1'' (demo_check_move ''add'' ''C2'') [] ''2026'' = Inr (demo_move_result ''add'' ''C2'')"
proof -
  have "RefuseUsedCheckIDs demo_checked ''s1'' [\<lparr>chk_ID = ''C2'', chk_Text = [], chk_Shared = False, chk_Removed = False\<rparr>] = Inr ()"
    by (simp add: RefuseUsedCheckIDs_def demo_unused)
  then show ?thesis unfolding demo_move_result_def
    by (simp add: ApplyCheckMove_def demo_byID demo_check_move_def demo_check_ids applyDefinitionMove_def blank_seed_def
        demo_check_def validateCheckText_def MaxChecksPerSeed_def MaxCheckTextChars_def ValidateNote_def MaxNoteBytes_def
        TrimSpace_graphic graphic_def demo_runes Let_def)
qed

lemma demo_confirm: "ApplyCheckMove (\<lambda>_. False) demo_checked ''s1'' (demo_check_move ''confirm'' ''C1'') [] ''2026'' = Inr (demo_move_result ''confirm'' ''C1'')"
  unfolding demo_move_result_def
  by (simp add: ApplyCheckMove_def demo_byID demo_check_move_def demo_check_ids demo_effective applyResultMove_def blank_seed_def
      demo_check_def validateCheckLine_def MaxCheckSummaryChars_def ValidateNote_def MaxNoteBytes_def no_result_def
      TrimSpace_graphic graphic_def demo_runes Let_def State_def state_name_def)

lemma demo_checked_distinct: "distinct (map ID demo_checked)" "distinct (map chk_ID (tree_checks demo_checked ''s1''))"
  unfolding demo_tree_checks by (simp_all add: demo_checked_def)

theorem ApplyCheckMove_unique_ids_witness:
  "distinct (map chk_ID (tree_checks (put_seed demo_checked (fst (demo_move_result ''add'' ''C2''))) ''s1''))"
  using ApplyCheckMove_unique_ids [OF demo_checked_distinct, of "\<lambda>_. False" "demo_check_move ''add'' ''C2''" "[]" "''2026''"] demo_add
  by (cases "demo_move_result ''add'' ''C2''") simp

theorem ApplyCheckMove_refines_protocol_witness:
  "\<exists>r'. EffectiveChecks (put_seed demo_checked (fst (demo_move_result ''confirm'' ''C1''))) ''s1'' =
     [\<lparr>eff_Check = demo_check ''C1'', eff_From = [], eff_Result = r'\<rparr>] \<and> check_view r' = (CheckConfirmed, False)"
proof -
  obtain n nt where r: "demo_move_result ''confirm'' ''C1'' = (n, nt)" by force
  have "cm_Verb (demo_check_move ''confirm'' ''C1'') \<in> set result_verbs" "[] \<notin> ID ` set demo_checked"
      "\<forall>d \<in> set (EffectiveChecks demo_checked ''s1''). ValidateCheckID (chk_ID (eff_Check d)) = Inr ()"
    unfolding demo_effective by (simp_all add: demo_check_move_def result_verbs_def demo_checked_def blank_seed_def demo_check_def demo_check_ids)
  from ApplyCheckMove_refines_protocol [OF demo_checked_distinct(1) this(2) demo_confirm [unfolded r] this(1,3)]
  obtain c r' where c: "c \<in> set (EffectiveChecks demo_checked ''s1'')"
      "check_protocol (cm_Verb (demo_check_move ''confirm'' ''C1'')) (check_view (eff_Result c)) = Some (check_view r')"
      "EffectiveChecks (put_seed demo_checked n) ''s1'' =
        map (\<lambda>d. if chk_ID (eff_Check d) = chk_ID (eff_Check c) \<and> eff_From d = eff_From c then d\<lparr>eff_Result := r'\<rparr> else d)
          (EffectiveChecks demo_checked ''s1'')"
    by (elim exE conjE)
  have "c = \<lparr>eff_Check = demo_check ''C1'', eff_From = [], eff_Result = no_result\<rparr>" using c(1) by (simp add: demo_effective)
  then have "check_view r' = (CheckConfirmed, False)" "EffectiveChecks (put_seed demo_checked n) ''s1'' =
      [\<lparr>eff_Check = demo_check ''C1'', eff_From = [], eff_Result = r'\<rparr>]"
    using c(2,3) by (simp_all add: demo_effective demo_check_move_def check_protocol_def check_view_def State_def no_result_def)
  then show ?thesis unfolding r fst_conv by blast
qed

theorem NumberChecks_fresh_witness:
  "distinct (map chk_ID (NumberChecks demo_checked ''s1'' [demo_check [], demo_check ''C7'', demo_check []]))"
proof -
  have "distinct (filter (\<lambda>i. i \<noteq> []) (map chk_ID [demo_check [], demo_check ''C7'', demo_check []]))"
    by (simp add: demo_check_def)
  moreover have "max (highestCheckNumber (tree_checks demo_checked ''s1''))
      (highestCheckNumber [demo_check [], demo_check ''C7'', demo_check []]) + length [demo_check [], demo_check ''C7'', demo_check []] < 2 ^ 32"
    by (simp add: demo_tree_checks demo_check_def highestCheckNumber_def ParseUint32_def TrimPrefix_def digit_value_def is_digit_def)
  ultimately show ?thesis using NumberChecks_fresh by blast
qed

end
