(* ===== verification/Garden_PlotSpec.thy ===== *)
theory Garden_PlotSpec
  imports Garden_Check
begin

text \<open>
  Plot payloads (\<open>plot.go\<close>): a crown with children that wait for each other by step slug. The
  validator refuses children whose \<open>after\<close> lists would make them wait in a circle; the search is a
  depth-first walk with three colours, whose state array is threaded through the recursion.
  Decoding the JSON is not modelled.
\<close>

record PlotChildSpec =
  pc_Title :: string
  pc_Body :: string
  pc_Checks :: "Check list"
  pc_After :: "string list"

record PlotSpec =
  ps_Title :: string
  ps_Body :: string
  ps_Checks :: "Check list"
  ps_PartOf :: string
  ps_DiscoveredFrom :: string
  ps_Children :: "PlotChildSpec list"

definition slugList :: "PlotChildSpec list \<Rightarrow> string list" where
  "slugList children = map (\<lambda>child. StepSlug (pc_Title child)) children"

fun use_checks :: "Check list \<Rightarrow> string list \<Rightarrow> refusal + string list" where
  "use_checks [] used = Inr used"
| "use_checks (check # checks) used =
     (if chk_ID check \<in> set used then Inl (Refuse RefusalConflict ''both define'' [chk_ID check])
      else use_checks checks (chk_ID check # used))"

fun plot_checks_loop :: "PlotChildSpec list \<Rightarrow> string list \<Rightarrow> refusal + unit" where
  "plot_checks_loop [] used = Inr ()"
| "plot_checks_loop (child # children) used =
     bind_result (ValidateCheckDefinitions (pc_Checks child)) (\<lambda>_.
     bind_result (use_checks (pc_Checks child) used) (\<lambda>used'.
       plot_checks_loop children used'))"

definition validatePlotChecks :: "PlotSpec \<Rightarrow> refusal + unit" where
  "validatePlotChecks spec =
     bind_result (ValidateCheckDefinitions (ps_Checks spec)) (\<lambda>_.
       plot_checks_loop (ps_Children spec) (map chk_ID (ps_Checks spec)))"

subsection \<open>The three-colour walk\<close>

datatype colour = unseen | visiting | done_colour

definition slug_index :: "PlotChildSpec list \<Rightarrow> string \<Rightarrow> nat option" where
  "slug_index children s = foldl (\<lambda>r i. if slugList children ! i = s then Some i else r) None [0..<length children]"

text \<open>\<open>slugs[StepSlug(sibling)]\<close>; a missing key reads as zero.\<close>

definition sibling_index :: "PlotChildSpec list \<Rightarrow> string \<Rightarrow> nat" where
  "sibling_index children sibling = (case slug_index children (StepSlug sibling) of None \<Rightarrow> 0 | Some j \<Rightarrow> j)"

definition after_indices :: "PlotChildSpec list \<Rightarrow> nat \<Rightarrow> nat list" where
  "after_indices children i = map (sibling_index children) (pc_After (children ! i))"

text \<open>
  \<open>after_walk\<close> is the closure \<open>walk\<close> of \<open>afterCycle\<close> after it has coloured child \<open>i\<close>: the
  siblings of \<open>i\<close> that are left. The result is the pair that waits in a circle, if one was met, and
  the state. An index outside the array, a panic in the code, cannot occur: every index is zero or
  the position of a child.
\<close>

function (sequential) after_walk ::
  "PlotChildSpec list \<Rightarrow> nat \<Rightarrow> nat list \<Rightarrow> colour list \<Rightarrow> (nat \<times> nat) option \<times> colour list" where
  "after_walk children i [] state = (None, state[i := done_colour])"
| "after_walk children i (j # js) state =
     (if j < length state \<and> state ! j = visiting then (Some (i, j), state)
      else if j < length state \<and> state ! j = unseen then
        (case after_walk children j (after_indices children j) (state[j := visiting]) of
           (Some c, state') \<Rightarrow> (Some c, state')
         | (None, state') \<Rightarrow> after_walk children i js state')
      else after_walk children i js state)"
  by pat_completeness auto

definition unseen_set :: "colour list \<Rightarrow> nat set" where
  "unseen_set state = {j. j < length state \<and> state ! j = unseen}"

lemma finite_unseen [simp]: "finite (unseen_set state)"
  by (simp add: unseen_set_def)

lemma unseen_update: "c \<noteq> unseen \<Longrightarrow> unseen_set (state[j := c]) = unseen_set state - {j}"
  by (cases "j < length state") (auto simp: unseen_set_def nth_list_update split: if_splits)

lemma unseen_less: "j < length state \<and> state ! j = unseen \<Longrightarrow> unseen_set (state[j := visiting]) \<subset> unseen_set state"
  unfolding unseen_update [OF colour.distinct(2)] by (auto simp: unseen_set_def)

lemma after_walk_unseen:
  "after_walk_dom (children, i, js, state) \<Longrightarrow> unseen_set (snd (after_walk children i js state)) \<subseteq> unseen_set state"
proof (induction children i js state rule: after_walk.pinduct)
  case (1 children i state)
  then show ?case by (auto simp: after_walk.psimps unseen_update)
next
  case (2 children i j js state)
  obtain f s where r: "after_walk children j (after_indices children j) (state[j := visiting]) = (f, s)" by force
  consider "j < length state \<and> state ! j = visiting" | "j < length state \<and> state ! j = unseen"
    | "\<not> (j < length state \<and> state ! j = visiting)" "\<not> (j < length state \<and> state ! j = unseen)" by blast
  then show ?case
  proof cases
    case 1
    then show ?thesis by (simp add: after_walk.psimps(2) [OF 2(1)])
  next
    case u: 2
    have nv: "\<not> (j < length state \<and> state ! j = visiting)" using u by auto
    have "unseen_set s \<subseteq> unseen_set state"
      using 2(2) [OF nv u] r by (auto simp: unseen_update)
    moreover have "f = None \<Longrightarrow> unseen_set (snd (after_walk children i js s)) \<subseteq> unseen_set s"
      using 2(3) [OF nv u r [symmetric]] by simp
    ultimately show ?thesis using u r by (cases f) (auto simp: after_walk.psimps(2) [OF 2(1)])
  next
    case 3
    then show ?thesis using 2(4) by (auto simp: after_walk.psimps(2) [OF 2(1)])
  qed
qed

termination after_walk
proof (relation "inv_image (finite_psubset <*lex*> less_than) (\<lambda>(children, i, js, state). (unseen_set state, length js))", goal_cases)
  case 1
  then show ?case by auto
next
  case (2 children i j js state)
  have "unseen_set (state[j := visiting]) \<subset> unseen_set state" using 2(2) by (rule unseen_less)
  then show ?case by (simp add: finite_psubset_def)
next
  case (3 children i j js state f s)
  have "unseen_set s \<subseteq> unseen_set (state[j := visiting])" 
    using after_walk_unseen [OF 3(5)] unfolding 3(3) [symmetric] by simp
  also have "\<dots> \<subset> unseen_set state" using 3(2) by (rule unseen_less)
  finally show ?case by (simp add: finite_psubset_def)
next
  case (4 children i j js state)
  then show ?case by simp
qed

declare after_walk.simps [simp del]

fun after_roots :: "PlotChildSpec list \<Rightarrow> nat list \<Rightarrow> colour list \<Rightarrow> (nat \<times> nat) option" where
  "after_roots children [] state = None"
| "after_roots children (i # is) state =
     (if state ! i = unseen then
        (case after_walk children i (after_indices children i) (state[i := visiting]) of
           (Some c, _) \<Rightarrow> Some c
         | (None, state') \<Rightarrow> after_roots children is state')
      else after_roots children is state)"

definition afterCycle :: "PlotChildSpec list \<Rightarrow> (string \<times> string) option" where
  "afterCycle children =
     map_option (\<lambda>(i, j). (slugList children ! i, slugList children ! j))
       (after_roots children [0..<length children] (replicate (length children) unseen))"

fun plot_children_loop :: "PlotChildSpec list \<Rightarrow> string list \<Rightarrow> refusal + string list" where
  "plot_children_loop [] slugs = Inr slugs"
| "plot_children_loop (child # children) slugs =
     bind_result (ValidatePlant (pc_Title child) (pc_Body child)) (\<lambda>_.
       if StepSlug (pc_Title child) \<in> set slugs
       then Inl (Refuse RefusalInvalidInput ''both derive the step slug'' [StepSlug (pc_Title child)])
       else plot_children_loop children (StepSlug (pc_Title child) # slugs))"

definition ValidatePlotSpec :: "PlotSpec \<Rightarrow> refusal + unit" where
  "ValidatePlotSpec spec =
     bind_result (ValidatePlant (ps_Title spec) (ps_Body spec)) (\<lambda>_.
     bind_result (validatePlotChecks spec) (\<lambda>_.
       if ps_Children spec = [] then Inl (Refuse RefusalInvalidInput ''a plot is a crown with children'' [])
       else bind_result (plot_children_loop (ps_Children spec) []) (\<lambda>slugs.
         case find (\<lambda>sibling. StepSlug sibling \<notin> set slugs) (concat (map pc_After (ps_Children spec))) of
           Some sibling \<Rightarrow> Inl (Refuse RefusalInvalidInput ''waits for no sibling'' (sibling # slugList (ps_Children spec)))
         | None \<Rightarrow>
             (case afterCycle (ps_Children spec) of
                Some (a, b) \<Rightarrow> Inl (Refuse RefusalInvalidInput ''wait for each other through after'' [a, b])
              | None \<Rightarrow> Inr ()))))"

end
