(* ===== verification/Garden_PlotSpec_Laws.thy ===== *)
theory Garden_PlotSpec_Laws
  imports Garden_PlotSpec
begin

text \<open>
  The three-colour walk is exact: it reports a pair of children that wait for each other exactly when
  the \<open>after\<close> lists have a cycle. A payload that passes the validator can therefore be planted child
  by child in an order in which every child comes after those it waits for.
\<close>

subsection \<open>The waiting relation on positions\<close>

definition after_rel :: "PlotChildSpec list \<Rightarrow> (nat \<times> nat) set" where
  "after_rel children = {(i, j). i < length children \<and> j \<in> set (after_indices children i)}"

lemma slug_index_Some: "slug_index children s = Some i \<Longrightarrow> i < length children \<and> slugList children ! i = s"
proof -
  have "foldl (\<lambda>r i. if slugList children ! i = s then Some i else r) None [0..<n] = Some i \<Longrightarrow>
      i < n \<and> slugList children ! i = s" for n
    by (induction n) (auto split: if_splits)
  then show "slug_index children s = Some i \<Longrightarrow> i < length children \<and> slugList children ! i = s"
    by (simp add: slug_index_def)
qed

lemma slug_index_None: "slug_index children s = None \<longleftrightarrow> s \<notin> set (slugList children)"
proof -
  have "foldl (\<lambda>r i. if slugList children ! i = s then Some i else r) None [0..<n] = None \<longleftrightarrow>
      (\<forall>i < n. slugList children ! i \<noteq> s)" for n
    by (induction n) (auto simp: less_Suc_eq)
  moreover have "length (slugList children) = length children" by (simp add: slugList_def)
  ultimately show ?thesis by (auto simp: slug_index_def in_set_conv_nth)
qed

lemma after_rel_bound: "(i, j) \<in> after_rel children \<Longrightarrow> i < length children \<and> j < length children"
  using slug_index_Some
  by (fastforce simp: after_rel_def after_indices_def sibling_index_def split: option.splits)

subsection \<open>Colours\<close>

definition coloured :: "colour \<Rightarrow> colour list \<Rightarrow> nat set" where
  "coloured c state = {k. k < length state \<and> state ! k = c}"

lemma coloured_update:
  "j < length state \<Longrightarrow> coloured c (state[j := d]) = (if c = d then insert j (coloured c state) else coloured c state - {j})"
  by (auto simp: coloured_def nth_list_update split: if_splits)

text \<open>A set of finished children: what they wait for is finished, and none waits for itself.\<close>

definition finished :: "(nat \<times> nat) set \<Rightarrow> nat set \<Rightarrow> bool" where
  "finished r D \<longleftrightarrow> r `` D \<subseteq> D \<and> (\<forall>d \<in> D. (d, d) \<notin> r\<^sup>+)"

lemma closed_trancl: "(x, y) \<in> r\<^sup>+ \<Longrightarrow> r `` D \<subseteq> D \<Longrightarrow> x \<in> D \<Longrightarrow> y \<in> D"
  by (induction rule: trancl_induct) auto

lemma finished_insert:
  assumes "finished r D" "r `` {i} \<subseteq> D" "i \<notin> D"
  shows "finished r (insert i D)"
proof -
  have "(i, i) \<notin> r\<^sup>+"
  proof
    assume "(i, i) \<in> r\<^sup>+"
    then obtain j where j: "(i, j) \<in> r" "(j, i) \<in> r\<^sup>*" by (meson tranclD)
    then have "j \<in> D" using assms(2) by auto
    then have "i \<in> D" using j(2) closed_trancl [of j i r D] assms(1) by (auto simp: finished_def rtrancl_eq_or_trancl)
    then show False using assms(3) by simp
  qed
  then show ?thesis using assms by (auto simp: finished_def)
qed

definition walk_pre :: "PlotChildSpec list \<Rightarrow> nat \<Rightarrow> nat list \<Rightarrow> colour list \<Rightarrow> bool" where
  "walk_pre children i js state \<longleftrightarrow>
     length state = length children \<and> i \<in> coloured visiting state \<and> set js \<subseteq> set (after_indices children i) \<and>
     set (after_indices children i) \<subseteq> set js \<union> coloured done_colour state \<and>
     (\<forall>v \<in> coloured visiting state. (v, i) \<in> (after_rel children)\<^sup>*) \<and> finished (after_rel children) (coloured done_colour state)"

definition walk_post :: "PlotChildSpec list \<Rightarrow> nat \<Rightarrow> colour list \<Rightarrow> (nat \<times> nat) option \<Rightarrow> colour list \<Rightarrow> bool" where
  "walk_post children i state r state' \<longleftrightarrow>
     (case r of
        Some (a, b) \<Rightarrow> (a, b) \<in> after_rel children \<and> (b, a) \<in> (after_rel children)\<^sup>*
      | None \<Rightarrow> length state' = length children \<and> coloured visiting state' = coloured visiting state - {i} \<and>
          insert i (coloured done_colour state) \<subseteq> coloured done_colour state' \<and>
          finished (after_rel children) (coloured done_colour state'))"

lemma after_walk_correct:
  "after_walk children i js state = (r, state') \<Longrightarrow> walk_pre children i js state \<Longrightarrow> walk_post children i state r state'"
proof (induction children i js state arbitrary: r state' rule: after_walk.induct)
  case (1 children i state)
  have i: "i < length state" "i \<in> coloured visiting state" using 1(2) by (auto simp: walk_pre_def coloured_def)
  have "i \<notin> coloured done_colour state" using i(2) by (auto simp: coloured_def)
  moreover have "after_rel children `` {i} \<subseteq> coloured done_colour state"
    using 1(2) by (auto simp: walk_pre_def after_rel_def)
  ultimately have "finished (after_rel children) (insert i (coloured done_colour state))"
    using 1(2) finished_insert by (simp add: walk_pre_def)
  then show ?case using 1 i by (auto simp: after_walk.simps walk_post_def walk_pre_def coloured_update)
next
  case (2 children i j js state)
  note pre = 2(5) [unfolded walk_pre_def]
  have ij: "(i, j) \<in> after_rel children" using pre by (auto simp: after_rel_def coloured_def)
  then have j: "j < length state" using after_rel_bound pre by metis
  consider "state ! j = visiting" | "state ! j = unseen" | "state ! j = done_colour" by (cases "state ! j") auto
  then show ?case
  proof cases
    case 1
    then have "(j, i) \<in> (after_rel children)\<^sup>*" using pre j by (auto simp: coloured_def)
    then show ?thesis using 1 2(4) ij j by (auto simp: after_walk.simps walk_post_def)
  next
    case u: 2
    obtain f s where w: "after_walk children j (after_indices children j) (state[j := visiting]) = (f, s)" by force
    have c: "coloured visiting (state[j := visiting]) = insert j (coloured visiting state)"
        "coloured done_colour (state[j := visiting]) = coloured done_colour state" "j \<notin> coloured visiting state"
      using u j by (auto simp: coloured_update) (auto simp: coloured_def)
    have "\<forall>v \<in> insert j (coloured visiting state). (v, j) \<in> (after_rel children)\<^sup>*"
      using pre ij by (auto intro: rtrancl_into_rtrancl)
    then have "walk_pre children j (after_indices children j) (state[j := visiting])"
      unfolding walk_pre_def c using pre by simp
    then have post: "walk_post children j (state[j := visiting]) f s" using 2(1) w u j by simp
    show ?thesis
    proof (cases f)
      case (Some p)
      then show ?thesis using post 2(4) u j w by (auto simp: after_walk.simps walk_post_def)
    next
      case None
      then have s: "coloured visiting s = coloured visiting state" "insert j (coloured done_colour state) \<subseteq> coloured done_colour s"
          "length s = length children" "finished (after_rel children) (coloured done_colour s)"
        using post c by (auto simp: walk_post_def)
      have "walk_pre children i js s" unfolding walk_pre_def s(1) using pre s by auto
      moreover have "after_walk children i js s = (r, state')" using 2(4) u j w None by (simp add: after_walk.simps)
      ultimately have "walk_post children i s r state'" using 2(2) [OF _ _ w [symmetric]] u j None by simp
      then show ?thesis using s by (auto simp: walk_post_def split: option.splits)
    qed
  next
    case 3
    then have "walk_pre children i js state" using pre j by (auto simp: walk_pre_def coloured_def)
    then show ?thesis using 2(3,4) 3 j by (simp add: after_walk.simps)
  qed
qed

lemma after_roots_correct:
  assumes "length state = length children" "coloured visiting state = {}" "finished (after_rel children) (coloured done_colour state)"
    "set is \<subseteq> {..<length children}" "{..<length children} \<subseteq> set is \<union> coloured done_colour state"
  shows "case after_roots children is state of
      None \<Rightarrow> acyclic (after_rel children)
    | Some (a, b) \<Rightarrow> (a, b) \<in> after_rel children \<and> (b, a) \<in> (after_rel children)\<^sup>*"
  using assms
proof (induction children "is" state rule: after_roots.induct)
  case (1 children state)
  have "(d, d) \<notin> (after_rel children)\<^sup>+" for d
  proof
    assume d: "(d, d) \<in> (after_rel children)\<^sup>+"
    then have "d < length children" by (meson after_rel_bound tranclD)
    then show False using 1(3,5) d by (auto simp: finished_def)
  qed
  then show ?case by (simp add: acyclic_def)
next
  case (2 children i "is" state)
  have i: "i < length state" using 2(3,6) by simp
  show ?case
  proof (cases "state ! i = unseen")
    case True
    obtain f s where w: "after_walk children i (after_indices children i) (state[i := visiting]) = (f, s)" by force
    have c: "coloured visiting (state[i := visiting]) = {i}" "coloured done_colour (state[i := visiting]) = coloured done_colour state"
      using True i 2(4) by (auto simp: coloured_update) (auto simp: coloured_def)
    have "walk_pre children i (after_indices children i) (state[i := visiting])"
      unfolding walk_pre_def c using 2(3,5) by simp
    then have post: "walk_post children i (state[i := visiting]) f s" using after_walk_correct [OF w] by blast
    show ?thesis
    proof (cases f)
      case (Some p)
      then show ?thesis using post w True by (auto simp: walk_post_def)
    next
      case None
      then have s: "length s = length children" "coloured visiting s = {}" "finished (after_rel children) (coloured done_colour s)"
          "insert i (coloured done_colour state) \<subseteq> coloured done_colour s"
        using post c by (auto simp: walk_post_def)
      have "{..<length children} \<subseteq> set is \<union> coloured done_colour s" using 2(7) s(4) by auto
      moreover have "set is \<subseteq> {..<length children}" using 2(6) by simp
      ultimately show ?thesis using 2(1) [OF True w [symmetric] None] s w True None by simp
    qed
  next
    case False
    then have "state ! i = done_colour" using 2(4) i by (cases "state ! i") (auto simp: coloured_def)
    then have "{..<length children} \<subseteq> set is \<union> coloured done_colour state" using 2(7) i by (auto simp: coloured_def)
    then show ?thesis using 2(2) [OF False] 2(3-6) False by simp
  qed
qed

lemma afterCycle_exact:
  "case afterCycle children of
     None \<Rightarrow> acyclic (after_rel children)
   | Some (a, b) \<Rightarrow> \<exists>i j. a = slugList children ! i \<and> b = slugList children ! j \<and>
       (i, j) \<in> after_rel children \<and> (j, i) \<in> (after_rel children)\<^sup>*"
proof -
  let ?s = "replicate (length children) unseen"
  have c: "coloured visiting ?s = {}" "coloured done_colour ?s = {}" by (auto simp: coloured_def)
  have "case after_roots children [0..<length children] ?s of
      None \<Rightarrow> acyclic (after_rel children)
    | Some (a, b) \<Rightarrow> (a, b) \<in> after_rel children \<and> (b, a) \<in> (after_rel children)\<^sup>*"
    by (rule after_roots_correct) (auto simp: c finished_def)
  then show ?thesis by (auto simp: afterCycle_def split: option.splits)
qed

subsection \<open>Payloads\<close>

definition waits_for :: "PlotChildSpec list \<Rightarrow> (string \<times> string) set" where
  "waits_for children = {(StepSlug (pc_Title child), StepSlug sibling) | child sibling.
     child \<in> set children \<and> sibling \<in> set (pc_After child)}"

lemma plot_children_loop_slugs:
  "plot_children_loop children slugs = Inr all \<Longrightarrow> distinct slugs \<Longrightarrow>
     distinct (slugList children) \<and> set all = set slugs \<union> set (slugList children) \<and> set slugs \<inter> set (slugList children) = {}"
proof (induction children slugs rule: plot_children_loop.induct)
  case (2 child children slugs)
  then show ?case by (auto simp: slugList_def bind_result_eq_Inr split: if_splits)
qed (simp add: slugList_def)

lemma ValidatePlotSpec_Inr:
  assumes "ValidatePlotSpec spec = Inr ()"
  shows "distinct (slugList (ps_Children spec))" "ps_Children spec \<noteq> []"
    "\<forall>child \<in> set (ps_Children spec). \<forall>sibling \<in> set (pc_After child). StepSlug sibling \<in> set (slugList (ps_Children spec))"
    "afterCycle (ps_Children spec) = None"
proof -
  obtain slugs where l: "plot_children_loop (ps_Children spec) [] = Inr slugs" and rest: "ps_Children spec \<noteq> []"
      "find (\<lambda>sibling. StepSlug sibling \<notin> set slugs) (concat (map pc_After (ps_Children spec))) = None"
      "afterCycle (ps_Children spec) = None"
    using assms by (auto simp: ValidatePlotSpec_def bind_result_eq_Inr split: if_splits option.splits)
  have s: "distinct (slugList (ps_Children spec))" "set slugs = set (slugList (ps_Children spec))"
    using plot_children_loop_slugs [OF l] by auto
  show "distinct (slugList (ps_Children spec))" "ps_Children spec \<noteq> []" "afterCycle (ps_Children spec) = None"
    using s rest by auto
  show "\<forall>child \<in> set (ps_Children spec). \<forall>sibling \<in> set (pc_After child). StepSlug sibling \<in> set (slugList (ps_Children spec))"
    using rest(2) s(2) by (auto simp: find_None_iff)
qed

lemma waits_for_after_rel:
  assumes "\<forall>child \<in> set children. \<forall>sibling \<in> set (pc_After child). StepSlug sibling \<in> set (slugList children)"
  shows "(a, b) \<in> waits_for children \<Longrightarrow> \<exists>i j. (i, j) \<in> after_rel children \<and> a = slugList children ! i \<and> b = slugList children ! j"
proof -
  assume "(a, b) \<in> waits_for children"
  then obtain child sibling where c: "child \<in> set children" "sibling \<in> set (pc_After child)"
      "a = StepSlug (pc_Title child)" "b = StepSlug sibling"
    by (auto simp: waits_for_def)
  then obtain i where i: "i < length children" "children ! i = child" by (auto simp: in_set_conv_nth)
  obtain j where j: "slug_index children (StepSlug sibling) = Some j"
    using assms c(1,2) slug_index_None [of children "StepSlug sibling"] by fastforce
  have "(i, j) \<in> after_rel children"
    using i c(2) j by (force simp: after_rel_def after_indices_def sibling_index_def)
  moreover have "slugList children ! j = b" using slug_index_Some [OF j] c(4) by simp
  moreover have "slugList children ! i = a" using i c(3) by (simp add: slugList_def)
  ultimately show ?thesis by blast
qed

lemma waits_for_acyclic:
  assumes "distinct (slugList children)" "acyclic (after_rel children)"
    "\<forall>child \<in> set children. \<forall>sibling \<in> set (pc_After child). StepSlug sibling \<in> set (slugList children)"
  shows "acyclic (waits_for children)"
proof -
  have len: "length (slugList children) = length children" by (simp add: slugList_def)
  have path: "\<exists>i j. (i, j) \<in> (after_rel children)\<^sup>+ \<and> a = slugList children ! i \<and> b = slugList children ! j"
    if "(a, b) \<in> (waits_for children)\<^sup>+" for a b
    using that
  proof (induction rule: trancl_induct)
    case (base y)
    then show ?case using waits_for_after_rel [OF assms(3)] by blast
  next
    case (step y z)
    then obtain i j where ij: "(i, j) \<in> (after_rel children)\<^sup>+" "a = slugList children ! i" "y = slugList children ! j" by blast
    obtain k l where kl: "(k, l) \<in> after_rel children" "y = slugList children ! k" "z = slugList children ! l"
      using waits_for_after_rel [OF assms(3) step(2)] by blast
    have "j < length children" "k < length children" using ij(1) kl(1) after_rel_bound by (meson tranclD2)+
    then have "j = k" using ij(3) kl(2) assms(1) len nth_eq_iff_index_eq by metis
    then have "(i, l) \<in> (after_rel children)\<^sup>+" using ij(1) kl(1) by (simp add: trancl_into_trancl)
    then show ?case using ij(2) kl(3) by blast
  qed
  have "(a, a) \<notin> (waits_for children)\<^sup>+" for a
  proof
    assume "(a, a) \<in> (waits_for children)\<^sup>+"
    then obtain i j where ij: "(i, j) \<in> (after_rel children)\<^sup>+" "slugList children ! i = slugList children ! j"
      using path by metis
    have "i < length children" "j < length children" using ij(1) after_rel_bound by (meson tranclD tranclD2)+
    then have "i = j" using ij(2) assms(1) len nth_eq_iff_index_eq by metis
    then show False using ij(1) assms(2) by (auto simp: acyclic_def)
  qed
  then show ?thesis by (simp add: acyclic_def)
qed

text \<open>
  C12. A payload that the validator accepts can be planted: its children have slugs of their own, every
  sibling a child waits for is one of them, and no child waits for itself through others.
\<close>
theorem ValidatePlotSpec_acyclic:
  assumes "ValidatePlotSpec spec = Inr ()"
  shows "distinct (slugList (ps_Children spec)) \<and> Range (waits_for (ps_Children spec)) \<subseteq> set (slugList (ps_Children spec)) \<and>
    acyclic (waits_for (ps_Children spec))"
proof -
  note v = ValidatePlotSpec_Inr [OF assms]
  have "acyclic (after_rel (ps_Children spec))" using afterCycle_exact [of "ps_Children spec"] v(4) by simp
  then have "acyclic (waits_for (ps_Children spec))" using waits_for_acyclic v(1,3) by blast
  moreover have "Range (waits_for (ps_Children spec)) \<subseteq> set (slugList (ps_Children spec))"
    using v(3) by (auto simp: waits_for_def)
  ultimately show ?thesis using v(1) by blast
qed

definition demo_child :: "string \<Rightarrow> string list \<Rightarrow> PlotChildSpec" where
  "demo_child title after_list = \<lparr>pc_Title = title, pc_Body = [], pc_Checks = [], pc_After = after_list\<rparr>"

definition demo_children :: "PlotChildSpec list" where
  "demo_children = [demo_child ''ship'' [''build''], demo_child ''build'' []]"

definition demo_spec :: PlotSpec where
  "demo_spec = \<lparr>ps_Title = ''ship'', ps_Body = [], ps_Checks = [], ps_PartOf = [], ps_DiscoveredFrom = [],
     ps_Children = demo_children\<rparr>"

lemma demo_titles: "ValidatePlant ''ship'' [] = Inr ()" "ValidatePlant ''build'' [] = Inr ()"
proof -
  have "RuneCount ''ship'' = 4" "RuneCount ''build'' = 5" by code_simp+
  then show "ValidatePlant ''ship'' [] = Inr ()" "ValidatePlant ''build'' [] = Inr ()"
    by (simp_all add: ValidatePlant_def ValidateBody_def TrimSpace_graphic graphic_def MaxTitleChars_def)
qed

lemma demo_spec_valid: "ValidatePlotSpec demo_spec = Inr ()"
proof -
  have "slugWords ''ship'' = [''ship'']" "slugWords ''build'' = [''build'']"
    using slugWords_join [of "[''ship'']"] slugWords_join [of "[''build'']"]
    by (simp_all add: slug_word_def slug_char_def is_lower_def)
  then have slugs: "StepSlug ''ship'' = ''ship''" "StepSlug ''build'' = ''build''"
    by (simp_all add: StepSlug_def slug_kept_def slugStopWords_def MaxSlugWords_def MaxSlugChars_def Let_def)
  have "slugList demo_children = [''ship'', ''build'']" by (simp add: slugList_def demo_children_def demo_child_def slugs)
  moreover have len: "length demo_children = 2" by (simp add: demo_children_def)
  ultimately have "sibling_index demo_children ''build'' = 1" by (simp add: sibling_index_def slug_index_def slugs upt_rec)
  then have "after_indices demo_children 0 = [1]" "after_indices demo_children 1 = []"
    by (simp_all add: after_indices_def) (simp_all add: demo_children_def demo_child_def)
  then have "afterCycle demo_children = None"
    by (simp add: afterCycle_def len upt_rec after_walk.simps numeral_2_eq_2)
  moreover have "plot_children_loop demo_children [] = Inr [''build'', ''ship'']"
    by (simp add: demo_children_def demo_child_def demo_titles slugs)
  moreover have "validatePlotChecks demo_spec = Inr ()"
    by (simp add: validatePlotChecks_def demo_spec_def demo_children_def demo_child_def ValidateCheckDefinitions_def)
  moreover have "ps_Title demo_spec = ''ship''" "ps_Body demo_spec = []" "ps_Children demo_spec = demo_children"
    by (simp_all add: demo_spec_def)
  moreover have "demo_children \<noteq> []" "concat (map pc_After demo_children) = [''build'']"
    by (simp_all add: demo_children_def demo_child_def)
  ultimately show ?thesis unfolding ValidatePlotSpec_def by (simp add: demo_titles slugs)
qed

theorem ValidatePlotSpec_acyclic_witness: "acyclic (waits_for demo_children)"
  using ValidatePlotSpec_acyclic [OF demo_spec_valid] by (simp add: demo_spec_def)

subsection \<open>Slugs that were cut short\<close>

text \<open>
  A title whose slug is cut at 100 characters within a word, so that what is left of the word is a stop word.
\<close>

definition cut_at_stop_word :: "string \<Rightarrow> string list \<Rightarrow> string \<Rightarrow> bool" where
  "cut_at_stop_word title ws p \<longleftrightarrow>
     (\<exists>u rest. slug_kept title = ws @ (p @ u) # rest \<and> u \<noteq> []) \<and> ws \<noteq> [] \<and> set ws \<inter> set slugStopWords = {} \<and>
     p \<in> set slugStopWords \<and> length (join_with ''-'' (ws @ [p])) = 100"

lemma join_snoc: "ws \<noteq> [] \<Longrightarrow> join_with s (ws @ v # vs) = join_with s ws @ s @ join_with s (v # vs)"
  by (induction ws rule: induct_list012) (simp_all add: neq_Nil_conv)

lemma join_prefix: "u \<noteq> [] \<Longrightarrow> \<exists>x. x \<noteq> [] \<and> join_with s ((p @ u) # rest) = p @ x"
  by (cases rest) auto

lemma StepSlug_cut:
  assumes "cut_at_stop_word title ws p"
  shows "StepSlug title = join_with ''-'' (ws @ [p])" "StepSlug (StepSlug title) = join_with ''-'' ws"
proof -
  obtain u rest where k: "slug_kept title = ws @ (p @ u) # rest" "u \<noteq> []" and ws: "ws \<noteq> []" "set ws \<inter> set slugStopWords = {}"
      and p: "p \<in> set slugStopWords" and len: "length (join_with ''-'' (ws @ [p])) = 100"
    using assms by (auto simp: cut_at_stop_word_def)
  obtain x where x: "x \<noteq> []" "join_with ''-'' ((p @ u) # rest) = p @ x" using join_prefix [OF k(2)] by blast
  have words: "list_all slug_word ws" "slug_word p"
    using slug_kept_words [of title] p unfolding k(1) by (auto simp: slug_word_def slugStopWords_def)
  then have all: "list_all slug_word (ws @ [p])" by simp
  define j where "j = join_with ''-'' (ws @ [p])"
  have "join_with ''-'' (slug_kept title) = j @ x" unfolding k(1) join_snoc [OF ws(1)] x(2) j_def by simp
  moreover have "trim_dashes j = j"
  proof -
    have "slug_char (hd j)" "slug_char (last j)" "j \<noteq> []" using join_ends [OF all] by (simp_all add: j_def)
    then have "hd j \<noteq> CHR ''-''" "hd (rev j) \<noteq> CHR ''-''" using slug_char_not_dash by (auto simp: hd_rev)
    then show ?thesis by (simp add: trim_dashes_def trim_dashes_left_id)
  qed
  moreover have "length j = 100" using len by (simp add: j_def)
  ultimately show one: "StepSlug title = j" using x(1) by (auto simp: StepSlug_def MaxSlugChars_def Let_def)
  have "length ws \<le> MaxSlugWords" using arg_cong [OF k(1), of length] by (simp add: slug_kept_def Let_def)
  moreover have "filter (\<lambda>w. w \<notin> set slugStopWords) (ws @ [p]) = ws" using ws(2) p by (auto simp: filter_id_conv)
  ultimately have "slug_kept j = ws" using slugWords_join [OF all] ws(1) by (simp add: slug_kept_def j_def Let_def del: filter_append)
  moreover have "join_with ''-'' ws \<noteq> []" "length (join_with ''-'' ws) \<le> 100"
    using join_ends [OF words(1) ws(1)] len join_snoc [OF ws(1), of "''-''" p "[]"] by simp_all
  ultimately show "StepSlug (StepSlug title) = join_with ''-'' ws" unfolding one by (simp add: StepSlug_def MaxSlugChars_def)
qed

definition naming :: "string \<Rightarrow> string \<Rightarrow> PlotSpec \<Rightarrow> PlotSpec" where
  "naming old new spec = spec\<lparr>ps_Children := map (\<lambda>c. c\<lparr>pc_After := map (\<lambda>s. if s = old then new else s) (pc_After c)\<rparr>) (ps_Children spec)\<rparr>"

lemma naming_keeps:
  "ps_Title (naming old new spec) = ps_Title spec" "ps_Body (naming old new spec) = ps_Body spec"
  "slugList (ps_Children (naming old new spec)) = slugList (ps_Children spec)"
  "validatePlotChecks (naming old new spec) = validatePlotChecks spec"
  "ps_Children (naming old new spec) = [] \<longleftrightarrow> ps_Children spec = []"
  "plot_children_loop (ps_Children (naming old new spec)) slugs = plot_children_loop (ps_Children spec) slugs"
proof -
  let ?f = "\<lambda>c. c\<lparr>pc_After := map (\<lambda>s. if s = old then new else s) (pc_After c)\<rparr>"
  have c: "ps_Children (naming old new spec) = map ?f (ps_Children spec)" by (simp add: naming_def)
  show "ps_Title (naming old new spec) = ps_Title spec" "ps_Body (naming old new spec) = ps_Body spec" by (simp_all add: naming_def)
  show "slugList (ps_Children (naming old new spec)) = slugList (ps_Children spec)" by (simp add: slugList_def c)
  show "ps_Children (naming old new spec) = [] \<longleftrightarrow> ps_Children spec = []" by (simp add: c)
  have "plot_checks_loop (map ?f cs) = plot_checks_loop cs" for cs
    by (induction cs; rule ext) simp_all
  then show "validatePlotChecks (naming old new spec) = validatePlotChecks spec" by (simp add: validatePlotChecks_def naming_def)
  have "plot_children_loop (map ?f cs) slugs = plot_children_loop cs slugs" for cs slugs
    by (induction cs arbitrary: slugs) simp_all
  then show "plot_children_loop (ps_Children (naming old new spec)) slugs = plot_children_loop (ps_Children spec) slugs" by (simp add: c)
qed

text \<open>
  C30. Naming a child by its slug is not the same as naming it by its title. Take any payload that is accepted
  and in which some child waits for a child by its title, and let the slug of that title be cut at 100
  characters so that its last piece is a stop word, and no child have the slug without that piece. The slug
  is among the slugs of the children, which the refusal itself prints; but when the payload names the child by
  that slug instead of by its title it is refused, because the slug waits for no sibling.
\<close>
theorem cut_slug_not_an_address:
  assumes "ValidatePlotSpec spec = Inr ()" "child \<in> set (ps_Children spec)" "other \<in> set (ps_Children spec)"
    "pc_Title child \<in> set (pc_After other)" "cut_at_stop_word (pc_Title child) ws p" "join_with ''-'' ws \<notin> set (slugList (ps_Children spec))"
  shows "StepSlug (pc_Title child) \<in> set (slugList (ps_Children spec)) \<and>
    (\<exists>sibling. ValidatePlotSpec (naming (pc_Title child) (StepSlug (pc_Title child)) spec) =
      Inl (Refuse RefusalInvalidInput ''waits for no sibling'' (sibling # slugList (ps_Children spec))))"
proof -
  define new where "new = naming (pc_Title child) (StepSlug (pc_Title child)) spec"
  have same: "ps_Title new = ps_Title spec" "ps_Body new = ps_Body spec" "slugList (ps_Children new) = slugList (ps_Children spec)"
      "validatePlotChecks new = validatePlotChecks spec" "ps_Children new = [] \<longleftrightarrow> ps_Children spec = []"
      "\<And>slugs. plot_children_loop (ps_Children new) slugs = plot_children_loop (ps_Children spec) slugs"
    unfolding new_def by (rule naming_keeps)+
  obtain slugs where v: "ValidatePlant (ps_Title spec) (ps_Body spec) = Inr ()" "validatePlotChecks spec = Inr ()" "ps_Children spec \<noteq> []"
      "plot_children_loop (ps_Children spec) [] = Inr slugs"
    using assms(1) by (auto simp: ValidatePlotSpec_def bind_result_eq_Inr split: if_splits)
  have slugs: "set slugs = set (slugList (ps_Children spec))" using plot_children_loop_slugs [OF v(4)] by simp
  have "StepSlug (pc_Title child) \<in> set (concat (map pc_After (ps_Children new)))"
    using assms(3,4) by (force simp: new_def naming_def)
  moreover have "StepSlug (StepSlug (pc_Title child)) \<notin> set slugs" using StepSlug_cut(2) [OF assms(5)] assms(6) slugs by simp
  ultimately obtain sibling where f: "find (\<lambda>sibling. StepSlug sibling \<notin> set slugs) (concat (map pc_After (ps_Children new))) = Some sibling"
    by (cases "find (\<lambda>sibling. StepSlug sibling \<notin> set slugs) (concat (map pc_After (ps_Children new)))") (auto simp: find_None_iff_all)
  have "ValidatePlotSpec new = Inl (Refuse RefusalInvalidInput ''waits for no sibling'' (sibling # slugList (ps_Children spec)))"
    unfolding ValidatePlotSpec_def same v bind_result_simps f option.case using v(3) by simp
  moreover have "StepSlug (pc_Title child) \<in> set (slugList (ps_Children spec))" using assms(2) by (auto simp: slugList_def)
  ultimately show ?thesis unfolding new_def by blast
qed

lemma RuneCount_ascii: "list_all (\<lambda>c. (of_char c :: nat) < 128) s \<Longrightarrow> RuneCount s = length s"
proof (induction s)
  case (Cons c s)
  then have "rune_width (c # s) = 1" by simp
  then show ?case using Cons by (simp add: RuneCount_def runes.simps [of "c # s"])
qed (simp add: RuneCount_def runes.simps)

text \<open>A word of 97 letters, followed by one that starts with a stop word.\<close>

definition long_word :: string where "long_word = replicate 97 (CHR ''x'')"

definition long_title :: string where "long_title = long_word @ '' internals''"

definition long_spec :: PlotSpec where
  "long_spec = \<lparr>ps_Title = ''ship'', ps_Body = [], ps_Checks = [], ps_PartOf = [], ps_DiscoveredFrom = [],
     ps_Children = [demo_child long_title [], demo_child ''ship'' [long_title]]\<rparr>"

lemma long_word_slug: "list_all slug_char long_word" "length long_word = 97" "slug_word long_word" "long_word \<notin> set slugStopWords"
proof -
  show c: "list_all slug_char long_word" and l: "length long_word = 97"
    by (simp_all add: long_word_def list_all_iff slug_char_def is_lower_def)
  show "slug_word long_word" using c l by (auto simp: slug_word_def)
  have "list_all (\<lambda>s. length s < 97) slugStopWords" by (simp add: slugStopWords_def)
  then show "long_word \<notin> set slugStopWords" using l by (auto simp: list_all_iff)
qed

lemma long_title_kept: "slug_kept long_title = [long_word, ''internals'']" "TrimSpace long_title = long_title"
proof -
  note w = long_word_slug
  have v: "long_word = CHR ''x'' # replicate 96 (CHR ''x'')"
    unfolding long_word_def using replicate_Suc [of 96 "CHR ''x''"] by simp
  have dash: "list_all (\<lambda>c. slug_char c \<or> c = CHR ''-'') long_word" using w(1) by (simp add: list_all_iff)
  have "ToLower ''internals'' = ''internals''" by (rule ToLower_ascii) (simp add: slug_char_def is_lower_def)
  moreover have "\<not> HasPrefix '' internals'' kelvin_sign" "\<not> HasPrefix '' internals'' dotted_capital_i"
    by (simp_all add: ascii_no_special)
  moreover have "lower_byte CHR '' '' = CHR '' ''" by (simp add: lower_byte_def)
  ultimately have "ToLower '' internals'' = '' internals''" by (simp only: ToLower.simps if_False)
  then have low: "ToLower long_title = long_title" unfolding long_title_def ToLower_keep [OF dash] by simp
  show trim: "TrimSpace long_title = long_title"
    unfolding long_title_def by (intro TrimSpace_graphic) (simp add: v graphic_def)
  have "slugWords long_title = [long_word, ''internals'']"
    using low trim w(3) slug_scan_append [OF w(1), of "[]" "'' internals''"]
    by (simp add: slugWords_def long_title_def slug_word_def slug_char_def is_lower_def is_digit_def)
  then show "slug_kept long_title = [long_word, ''internals'']"
    using w(4) by (simp add: slug_kept_def slugStopWords_def MaxSlugWords_def)
qed

lemma long_title_cut: "cut_at_stop_word long_title [long_word] ''in''"
proof -
  have "slug_kept long_title = [long_word] @ (''in'' @ ''ternals'') # [] \<and> ''ternals'' \<noteq> []" by (simp add: long_title_kept)
  then have "\<exists>u rest. slug_kept long_title = [long_word] @ (''in'' @ u) # rest \<and> u \<noteq> []" by (intro exI)
  moreover have "set [long_word] \<inter> set slugStopWords = {}" using long_word_slug(4) by simp
  moreover have "''in'' \<in> set slugStopWords" by (simp add: slugStopWords_def)
  moreover have "length (join_with ''-'' ([long_word] @ [''in''])) = 100" by (simp add: long_word_slug)
  ultimately show ?thesis unfolding cut_at_stop_word_def by blast
qed

lemma ship_slug: "StepSlug ''ship'' = ''ship''"
proof -
  have "slugWords ''ship'' = [''ship'']" using slugWords_join [of "[''ship'']"] by (simp add: slug_word_def slug_char_def is_lower_def)
  then show ?thesis by (simp add: StepSlug_def slug_kept_def slugStopWords_def MaxSlugWords_def MaxSlugChars_def Let_def)
qed

lemma long_spec_valid: "ValidatePlotSpec long_spec = Inr ()"
proof -
  let ?cs = "[demo_child long_title [], demo_child ''ship'' [long_title]]" and ?s = "join_with ''-'' [long_word, ''in'']"
  have s1: "StepSlug long_title = ?s" using StepSlug_cut(1) [OF long_title_cut] by simp
  have ne: "?s \<noteq> ''ship''" using long_word_slug(2) by (auto dest: arg_cong [where f = length])
  have l: "slugList ?cs = [?s, ''ship'']" by (simp add: slugList_def demo_child_def s1 ship_slug)
  then have "sibling_index ?cs long_title = 0" using ne by (simp add: sibling_index_def slug_index_def s1 upt_rec)
  then have "after_indices ?cs 0 = []" "after_indices ?cs 1 = [0]"
    by (simp_all add: after_indices_def) (simp_all add: demo_child_def)
  then have "afterCycle ?cs = None" by (simp add: afterCycle_def upt_rec after_walk.simps numeral_2_eq_2)
  moreover have "RuneCount long_title = 107"
    unfolding long_title_def long_word_def by (subst RuneCount_ascii) (simp_all add: list_all_iff)
  then have "ValidatePlant long_title [] = Inr ()"
    by (simp add: ValidatePlant_def ValidateBody_def long_title_kept(2) MaxTitleChars_def) (simp add: long_title_def)
  then have "plot_children_loop ?cs [] = Inr [''ship'', ?s]" using ne by (simp add: demo_child_def demo_titles s1 ship_slug del: join_with.simps)
  moreover have "validatePlotChecks long_spec = Inr ()"
    by (simp add: validatePlotChecks_def long_spec_def demo_child_def ValidateCheckDefinitions_def)
  moreover have "ps_Title long_spec = ''ship''" "ps_Body long_spec = []" "ps_Children long_spec = ?cs" by (simp_all add: long_spec_def)
  moreover have "concat (map pc_After ?cs) = [long_title]" by (simp add: demo_child_def)
  ultimately show ?thesis unfolding ValidatePlotSpec_def by (simp add: demo_titles s1 del: join_with.simps)
qed

theorem cut_slug_not_an_address_witness:
  "\<exists>sibling. ValidatePlotSpec (naming long_title (StepSlug long_title) long_spec) =
     Inl (Refuse RefusalInvalidInput ''waits for no sibling'' (sibling # slugList (ps_Children long_spec)))"
proof -
  have "long_word \<notin> set (slugList (ps_Children long_spec))"
  proof -
    have "length (StepSlug long_title) = 100" using StepSlug_cut(1) [OF long_title_cut] by (simp add: long_word_slug)
    moreover have "length (StepSlug ''ship'') = 4" by (simp add: ship_slug)
    moreover have "set (slugList (ps_Children long_spec)) = {StepSlug long_title, StepSlug ''ship''}"
      by (simp add: long_spec_def slugList_def demo_child_def)
    ultimately show ?thesis using long_word_slug(2) by auto
  qed
  then show ?thesis
    using cut_slug_not_an_address [OF long_spec_valid, of "demo_child long_title []" "demo_child ''ship'' [long_title]" "[long_word]" "''in''"] long_title_cut
    by (simp add: long_spec_def demo_child_def)
qed

end
