(* ===== verification/Jobs_Store.thy ===== *)
theory Jobs_Store
  imports Go_Time Go_Strings Go_Sort
begin

text \<open>
  The durable job queue's table: \<open>internal/jobs/job.go\<close>, \<open>failure.go\<close>, the \<open>Store\<close> interface of
  \<open>store.go\<close> and the SQLite statements behind it (\<open>internal/store/job_store.go\<close>, \<open>jobs.go\<close>).
  A table is the list of its rows; a job and its stored record have the same fields. The stamps are
  kept as instants: the stored text is a fixed-width UTC format, which sorts as the instants do. Rows
  that tie on every sort key come in table order, which SQL leaves open. Every statement may fail;
  \<open>faults\<close> says of each coming statement whether the database refuses it.
\<close>

subsection \<open>Jobs\<close>

datatype JobState = StateQueued | StateRunning | StateFailed | StateDone | StateDead

definition Terminal :: "JobState \<Rightarrow> bool" where
  "Terminal s = (s = StateDone \<or> s = StateDead)"

record Job =
  job_ID :: string
  job_Kind :: string
  UniqueKey :: string
  Priority :: int
  Payload :: string
  Result :: string
  job_State :: JobState
  Attempts :: int
  MaxAttempts :: int
  ScheduledAt :: time
  LastError :: string
  LastDiagnostic :: string
  CreatedAt :: time
  UpdatedAt :: time
  Requeued :: bool

subsection \<open>Diagnostics of a failure\<close>

definition diagnosticOutputLimit :: nat where "diagnosticOutputLimit = 16384"

definition diagnosticTruncatedMarker :: string where
  "diagnosticTruncatedMarker =
     [char_of (10 :: nat)] @ map char_of [0xE2, 0x80, 0xA6 :: nat] @ ''(diagnostic truncated)'' @
     map char_of [0xE2, 0x80, 0xA6 :: nat] @ [char_of (10 :: nat)]"

definition RuneStart :: "char \<Rightarrow> bool" where
  "RuneStart c = ((of_char c :: nat) div 64 \<noteq> 2)"

fun head_end :: "string \<Rightarrow> nat \<Rightarrow> nat" where
  "head_end s 0 = 0"
| "head_end s (Suc n) = (if \<not> RuneStart (s ! Suc n) then head_end s n else Suc n)"

function tail_start :: "string \<Rightarrow> nat \<Rightarrow> nat" where
  "tail_start s n = (if n < length s \<and> \<not> RuneStart (s ! n) then tail_start s (n + 1) else n)"
  by pat_completeness auto
termination
  by (relation "measure (\<lambda>(s, n). length s - n)") auto

declare tail_start.simps [simp del]

definition boundDiagnostic :: "string \<Rightarrow> string" where
  "boundDiagnostic diagnostic =
     (let d = TrimSpace diagnostic in
      if length d \<le> diagnosticOutputLimit then d
      else (let keep = diagnosticOutputLimit - length diagnosticTruncatedMarker;
                headEnd = head_end d (keep div 2);
                tailStart = tail_start d (length d - (keep - headEnd))
            in take headEnd d @ diagnosticTruncatedMarker @ drop tailStart d))"

text \<open>An error value: its text, and the diagnostic of the first wrapped error that carries one.\<close>

record run_error =
  err_text :: string
  err_diagnostic :: "string option"

definition WithDiagnostic :: "run_error option \<Rightarrow> string \<Rightarrow> run_error option" where
  "WithDiagnostic cause diagnostic =
     (case cause of
        None \<Rightarrow> None
      | Some e \<Rightarrow>
          (let d = boundDiagnostic diagnostic in
           if d = [] then Some e else Some (e\<lparr>err_diagnostic := Some d\<rparr>)))"

definition DiagnosticOutput :: "run_error \<Rightarrow> string" where
  "DiagnosticOutput e = (case err_diagnostic e of None \<Rightarrow> [] | Some d \<Rightarrow> boundDiagnostic d)"

subsection \<open>The table\<close>

datatype job_error = StoreFailed | ErrDisabled | ErrUnknownKind string | ErrCronKind string | ErrNotCron string
  | KindRequired | KindRegistered string | BadInterval string | AlreadyStarted | EncodeFailed | NotArmed string

record job_db =
  rows :: "Job list"
  only_kinds :: "string list"
  faults :: "bool list"

definition rawJSON :: "string \<Rightarrow> string" where
  "rawJSON s = (if TrimSpace s = [] then [] else s)"

definition recordToJob :: "Job \<Rightarrow> Job" where
  "recordToJob rec = rec\<lparr>Payload := rawJSON (Payload rec), Result := rawJSON (Result rec)\<rparr>"

definition statement :: "job_db \<Rightarrow> (job_db \<Rightarrow> job_db \<times> (job_error + 'a)) \<Rightarrow> job_db \<times> (job_error + 'a)" where
  "statement d f =
     (case faults d of
        [] \<Rightarrow> f d
      | bad # later \<Rightarrow> if bad then (d\<lparr>faults := later\<rparr>, Inl StoreFailed) else f (d\<lparr>faults := later\<rparr>))"

definition find_row :: "Job list \<Rightarrow> string \<Rightarrow> Job option" where
  "find_row rs i = find (\<lambda>j. job_ID j = i) rs"

definition GetJob :: "job_db \<Rightarrow> string \<Rightarrow> job_db \<times> (job_error + Job option)" where
  "GetJob d i = statement d (\<lambda>d. (d, Inr (map_option recordToJob (find_row (rows d) i))))"

definition GetJobByUniqueKey :: "job_db \<Rightarrow> string \<Rightarrow> string \<Rightarrow> job_db \<times> (job_error + Job option)" where
  "GetJobByUniqueKey d k key =
     (if key = [] then (d, Inr None)
      else statement d (\<lambda>d.
        (d, Inr (map_option recordToJob (find (\<lambda>j. job_Kind j = k \<and> UniqueKey j = key) (rows d))))))"

text \<open>
  The upsert, with the unique index on kind and key of the rows that have a key: a clash with another
  row makes the statement fail.
\<close>

definition key_clash :: "Job list \<Rightarrow> Job \<Rightarrow> bool" where
  "key_clash rs j = (UniqueKey j \<noteq> [] \<and>
     list_ex (\<lambda>r. job_ID r \<noteq> job_ID j \<and> job_Kind r = job_Kind j \<and> UniqueKey r = UniqueKey j) rs)"

definition put_row :: "Job list \<Rightarrow> Job \<Rightarrow> Job list" where
  "put_row rs j =
     (if find_row rs (job_ID j) = None then rs @ [j]
      else map (\<lambda>r. if job_ID r = job_ID j then j else r) rs)"

definition UpsertJob :: "job_db \<Rightarrow> Job \<Rightarrow> job_db \<times> (job_error + unit)" where
  "UpsertJob d j = statement d (\<lambda>d.
     if key_clash (rows d) j then (d, Inl StoreFailed) else (d\<lparr>rows := put_row (rows d) j\<rparr>, Inr ()))"

definition DeleteJob :: "job_db \<Rightarrow> string \<Rightarrow> job_db \<times> (job_error + unit)" where
  "DeleteJob d i = statement d (\<lambda>d. (d\<lparr>rows := filter (\<lambda>j. job_ID j \<noteq> i) (rows d)\<rparr>, Inr ()))"

definition ListJobs :: "job_db \<Rightarrow> job_db \<times> (job_error + Job list)" where
  "ListJobs d = statement d (\<lambda>d.
     (d, Inr (map recordToJob (SliceStable (\<lambda>a b. UpdatedAt a > UpdatedAt b) (rows d)))))"

definition claimable :: "job_db \<Rightarrow> Job \<Rightarrow> bool" where
  "claimable d j = ((job_State j = StateQueued \<or> job_State j = StateFailed) \<and>
     (only_kinds d = [] \<or> job_Kind j \<in> set (only_kinds d)))"

definition claim_less :: "Job \<Rightarrow> Job \<Rightarrow> bool" where
  "claim_less a b =
     (if Priority a \<noteq> Priority b then Priority a > Priority b
      else if ScheduledAt a \<noteq> ScheduledAt b then ScheduledAt a < ScheduledAt b
      else CreatedAt a < CreatedAt b)"

definition EligibleJobs :: "job_db \<Rightarrow> time \<Rightarrow> nat \<Rightarrow> job_db \<times> (job_error + Job list)" where
  "EligibleJobs d now limit = statement d (\<lambda>d.
     (d, Inr (map recordToJob (take limit
       (SliceStable claim_less (filter (\<lambda>j. claimable d j \<and> ScheduledAt j \<le> now) (rows d)))))))"

definition NextScheduledJob :: "job_db \<Rightarrow> job_db \<times> (job_error + time option)" where
  "NextScheduledJob d = statement d (\<lambda>d.
     (d, Inr (case map ScheduledAt (filter (claimable d) (rows d)) of
         [] \<Rightarrow> None | t # ts \<Rightarrow> Some (fold min ts t))))"

definition RecoverRunningJobs :: "job_db \<Rightarrow> time \<Rightarrow> job_db \<times> (job_error + nat)" where
  "RecoverRunningJobs d now = statement d (\<lambda>d.
     (d\<lparr>rows := map (\<lambda>j. if job_State j = StateRunning
          then j\<lparr>job_State := StateQueued, ScheduledAt := now, UpdatedAt := now\<rparr> else j) (rows d)\<rparr>,
      Inr (length (filter (\<lambda>j. job_State j = StateRunning) (rows d)))))"

definition TrimDoneJobs :: "job_db \<Rightarrow> time \<Rightarrow> job_db \<times> (job_error + nat)" where
  "TrimDoneJobs d cutoff = statement d (\<lambda>d.
     (d\<lparr>rows := filter (\<lambda>j. \<not> (job_State j = StateDone \<and> UpdatedAt j < cutoff)) (rows d)\<rparr>,
      Inr (length (filter (\<lambda>j. job_State j = StateDone \<and> UpdatedAt j < cutoff) (rows d)))))"

end
