(* ===== verification/Jobs_Runner.thy ===== *)
theory Jobs_Runner
  imports Jobs_Store
begin

text \<open>
  The job runner (\<open>internal/jobs/runner.go\<close>, \<open>cron.go\<close>, \<open>commit_guard.go\<close>). A runner is its
  struct with the table behind it; what the code does in goroutines is split at the points where the
  locks are released: the dispatch pass, the end of a run (\<open>finish\<close>) and the release of its slot are
  operations of their own, which the step relation of \<open>Jobs_Steps\<close> interleaves. \<open>executing\<close> lists
  the goroutines of \<open>execute\<close> that have not ended; a token stands for the pointer of their
  \<open>activeRun\<close>. A handler is what it answers: the encoded result, or the error, is an argument of
  \<open>finish\<close>. The time and new identifiers are arguments, the callbacks a log of what was told, the
  wake channel of capacity one a flag. Maps that the code ranges over are association lists.
\<close>

subsection \<open>The guard of a commit\<close>

record CommitGuard =
  cancelled :: bool
  committing :: bool

definition new_guard :: CommitGuard where
  "new_guard = \<lparr>cancelled = False, committing = False\<rparr>"

definition Enter :: "CommitGuard \<Rightarrow> CommitGuard \<times> bool" where
  "Enter g = (if cancelled g then (g, False) else (g\<lparr>committing := True\<rparr>, True))"

definition Leave :: "CommitGuard \<Rightarrow> CommitGuard" where
  "Leave g = g\<lparr>committing := False\<rparr>"

definition tryFence :: "CommitGuard \<Rightarrow> CommitGuard \<times> bool" where
  "tryFence g = (if committing g then (g, False) else (g\<lparr>cancelled := True\<rparr>, True))"

subsection \<open>The runner\<close>

record handler =
  h_timeout :: duration
  h_limit :: int
  h_interval :: duration

record pendingArm =
  pa_interval :: duration
  pa_attempts :: int
  pa_retryAt :: time
  pa_lastErr :: job_error

record activeRun =
  run_token :: nat
  run_job :: string
  run_kind :: string
  run_guard :: CommitGuard
  run_cancelled :: bool
  run_finished :: bool

datatype job_event = Changed string | TerminalFailure Job

record Runner =
  disabled :: bool
  maxAttempts :: int
  backoffBase :: duration
  backoffCap :: duration
  retention :: duration
  handlers :: "(string \<times> handler) list"
  started :: bool
  startErr :: "job_error option"
  pendingArms :: "(string \<times> pendingArm) list"
  runs :: "string \<rightharpoonup> nat"
  inflight :: "string \<Rightarrow> int"
  executing :: "activeRun list"
  next_token :: nat
  wake :: bool
  nextDue :: time
  db :: job_db
  told :: "job_event list"

definition DefaultMaxAttempts :: int where "DefaultMaxAttempts = 5"
definition DefaultBackoffBase :: duration where "DefaultBackoffBase = minute"
definition DefaultBackoffCap :: duration where "DefaultBackoffCap = hour"
definition DefaultHandlerTimeout :: duration where "DefaultHandlerTimeout = 5 * minute"
definition DefaultRetention :: duration where "DefaultRetention = 30 * 24 * hour"
definition eligiblePageSize :: nat where "eligiblePageSize = 1000"
definition CronKey :: string where "CronKey = ''cron''"

definition nonZeroDuration :: "duration \<Rightarrow> duration \<Rightarrow> duration" where
  "nonZeroDuration v fallback = (if v > 0 then v else fallback)"

definition nonZeroInt :: "int \<Rightarrow> int \<Rightarrow> int" where
  "nonZeroInt v fallback = (if v > 0 then v else fallback)"

record Options =
  opt_Store :: "job_db option"
  opt_MaxAttempts :: int
  opt_BackoffBase :: duration
  opt_BackoffCap :: duration
  opt_Retention :: duration

definition New :: "Options \<Rightarrow> Runner" where
  "New opts =
     \<lparr>disabled = (opt_Store opts = None),
      maxAttempts = nonZeroInt (opt_MaxAttempts opts) DefaultMaxAttempts,
      backoffBase = nonZeroDuration (opt_BackoffBase opts) DefaultBackoffBase,
      backoffCap = nonZeroDuration (opt_BackoffCap opts) DefaultBackoffCap,
      retention = nonZeroDuration (opt_Retention opts) DefaultRetention,
      handlers = [], started = False, startErr = None, pendingArms = [], runs = Map.empty, inflight = (\<lambda>_. 0),
      executing = [], next_token = 0, wake = False, nextDue = 0,
      db = (case opt_Store opts of None \<Rightarrow> \<lparr>rows = [], only_kinds = [], faults = []\<rparr> | Some d \<Rightarrow> d), told = []\<rparr>"

record HandlerConfig =
  cfg_Timeout :: duration
  cfg_MaxConcurrent :: int

definition RegisterWith :: "Runner \<Rightarrow> string \<Rightarrow> HandlerConfig \<Rightarrow> Runner \<times> (job_error + unit)" where
  "RegisterWith r k cfg =
     (if disabled r then (r, Inl ErrDisabled)
      else if k = [] then (r, Inl KindRequired)
      else (let timeout = (if cfg_Timeout cfg \<le> 0 then DefaultHandlerTimeout else cfg_Timeout cfg);
                limit = (if cfg_MaxConcurrent cfg \<le> 0 then 1 else cfg_MaxConcurrent cfg)
            in if map_of (handlers r) k \<noteq> None then (r, Inl (KindRegistered k))
               else (r\<lparr>handlers := (k, \<lparr>h_timeout = timeout, h_limit = limit, h_interval = 0\<rparr>) # handlers r\<rparr>, Inr ())))"

definition RegisterCron :: "Runner \<Rightarrow> string \<Rightarrow> duration \<Rightarrow> HandlerConfig \<Rightarrow> Runner \<times> (job_error + unit)" where
  "RegisterCron r k interval cfg =
     (if interval \<le> 0 then (r, Inl (BadInterval k))
      else (case RegisterWith r k cfg of
          (r', Inl e) \<Rightarrow> (r', Inl e)
        | (r', Inr _) \<Rightarrow>
            (r'\<lparr>handlers := map (\<lambda>(kind, entry). (kind, if kind = k then entry\<lparr>h_interval := interval\<rparr> else entry)) (handlers r')\<rparr>,
             Inr ())))"

definition cronInterval :: "Runner \<Rightarrow> string \<Rightarrow> duration" where
  "cronInterval r k = (case map_of (handlers r) k of None \<Rightarrow> 0 | Some entry \<Rightarrow> h_interval entry)"

definition tell :: "job_event \<Rightarrow> Runner \<Rightarrow> Runner" where
  "tell ev r = r\<lparr>told := told r @ [ev]\<rparr>"

definition notifyChange :: "Runner \<Rightarrow> string \<Rightarrow> Runner" where
  "notifyChange r jobID = tell (Changed jobID) r"

definition notifyWorkChange :: "Runner \<Rightarrow> string \<Rightarrow> string \<Rightarrow> Runner" where
  "notifyWorkChange r k jobID = (if cronInterval r k > 0 then r else notifyChange r jobID)"

definition notifyTerminalFailure :: "Runner \<Rightarrow> Job \<Rightarrow> Runner" where
  "notifyTerminalFailure r j = tell (TerminalFailure j) r"

definition nudge :: "Runner \<Rightarrow> Runner" where
  "nudge r = r\<lparr>wake := True\<rparr>"

text \<open>A statement run by the runner: the table it leaves is stored in the runner.\<close>

definition on_db :: "Runner \<Rightarrow> (job_db \<Rightarrow> job_db \<times> (job_error + 'a)) \<Rightarrow> Runner \<times> (job_error + 'a)" where
  "on_db r f = (case f (db r) of (d, res) \<Rightarrow> (r\<lparr>db := d\<rparr>, res))"

definition Load :: "Runner \<Rightarrow> string \<Rightarrow> Runner \<times> (job_error + Job option)" where
  "Load r i = on_db r (\<lambda>d. GetJob d i)"

definition LoadByKey :: "Runner \<Rightarrow> string \<Rightarrow> string \<Rightarrow> Runner \<times> (job_error + Job option)" where
  "LoadByKey r k key = on_db r (\<lambda>d. GetJobByUniqueKey d k key)"

definition Save :: "Runner \<Rightarrow> Job \<Rightarrow> Runner \<times> (job_error + unit)" where
  "Save r j = on_db r (\<lambda>d. UpsertJob d j)"

subsection \<open>Enqueueing\<close>

record EnqueueOptions =
  eo_UniqueKey :: string
  eo_Payload :: "job_error + string"
  eo_Delay :: duration
  eo_RunNow :: bool
  eo_Priority :: int
  eo_MaxAttempts :: int

definition enqueued_job :: "string \<Rightarrow> string \<Rightarrow> string \<Rightarrow> time \<Rightarrow> time \<Rightarrow> Job option \<Rightarrow> Job" where
  "enqueued_job new_id k key scheduled now existing =
     (case existing of
        None \<Rightarrow> \<lparr>job_ID = new_id, job_Kind = k, UniqueKey = key, Priority = 0, Payload = [], Result = [],
          job_State = StateQueued, Attempts = 0, MaxAttempts = 0, ScheduledAt = scheduled, LastError = [],
          LastDiagnostic = [], CreatedAt = now, UpdatedAt = now, Requeued = False\<rparr>
      | Some j \<Rightarrow>
          if job_State j = StateRunning then j\<lparr>Requeued := True, ScheduledAt := scheduled, UpdatedAt := now\<rparr>
          else j\<lparr>job_State := StateQueued, Attempts := 0, LastError := [], LastDiagnostic := [], Result := [],
            Requeued := False, ScheduledAt := scheduled, UpdatedAt := now\<rparr>)"

definition with_options :: "EnqueueOptions \<Rightarrow> string \<Rightarrow> Job \<Rightarrow> Job" where
  "with_options opts payload j =
     (let j = (if payload \<noteq> [] then j\<lparr>Payload := payload\<rparr> else j);
          j = (if eo_Priority opts \<noteq> 0 then j\<lparr>Priority := eo_Priority opts\<rparr> else j)
      in if eo_MaxAttempts opts \<noteq> 0 then j\<lparr>MaxAttempts := eo_MaxAttempts opts\<rparr> else j)"

definition Enqueue :: "Runner \<Rightarrow> time \<Rightarrow> string \<Rightarrow> string \<Rightarrow> EnqueueOptions \<Rightarrow> Runner \<times> (job_error + Job)" where
  "Enqueue r now new_id k opts =
     (if disabled r then (r, Inl ErrDisabled)
      else if k = [] then (r, Inl KindRequired)
      else (case map_of (handlers r) k of
          None \<Rightarrow> (r, Inl (ErrUnknownKind k))
        | Some entry \<Rightarrow>
            if h_interval entry > 0 \<and> eo_UniqueKey opts \<noteq> CronKey then (r, Inl (ErrCronKind k))
            else (case eo_Payload opts of
                Inl e \<Rightarrow> (r, Inl e)
              | Inr payload \<Rightarrow>
                  (let scheduled = (if \<not> eo_RunNow opts \<and> eo_Delay opts > 0 then now + eo_Delay opts else now) in
                   case (if eo_UniqueKey opts \<noteq> [] then LoadByKey r k (eo_UniqueKey opts) else (r, Inr None)) of
                     (r1, Inl e) \<Rightarrow> (r1, Inl e)
                   | (r1, Inr existing) \<Rightarrow>
                       (let job = with_options opts payload (enqueued_job new_id k (eo_UniqueKey opts) scheduled now existing) in
                        case Save r1 job of
                          (r2, Inl e) \<Rightarrow> (r2, Inl e)
                        | (r2, Inr _) \<Rightarrow> (nudge (notifyWorkChange r2 (job_Kind job) (job_ID job)), Inr job))))))"

definition Retry :: "Runner \<Rightarrow> time \<Rightarrow> string \<Rightarrow> Runner \<times> (job_error + Job option)" where
  "Retry r now i =
     (if disabled r then (r, Inl ErrDisabled)
      else (case Load r i of
          (r1, Inl e) \<Rightarrow> (r1, Inl e)
        | (r1, Inr None) \<Rightarrow> (r1, Inr None)
        | (r1, Inr (Some existing)) \<Rightarrow>
            if job_State existing \<noteq> StateFailed \<and> job_State existing \<noteq> StateDead then (r1, Inr (Some existing))
            else (let job = existing\<lparr>job_State := StateQueued, Attempts := 0, LastError := [], LastDiagnostic := [],
                         Requeued := False, ScheduledAt := now, UpdatedAt := now\<rparr> in
                  case Save r1 job of
                    (r2, Inl e) \<Rightarrow> (r2, Inl e)
                  | (r2, Inr _) \<Rightarrow> (nudge (notifyChange r2 (job_ID job)), Inr (Some job)))))"

definition UpdatePayload ::
  "Runner \<Rightarrow> string \<Rightarrow> string \<Rightarrow> (string \<Rightarrow> job_error + string option) \<Rightarrow> Runner \<times> (job_error + unit)" where
  "UpdatePayload r k key update =
     (case LoadByKey r k key of
        (r1, Inl e) \<Rightarrow> (r1, Inl e)
      | (r1, Inr None) \<Rightarrow> (r1, Inr ())
      | (r1, Inr (Some job)) \<Rightarrow>
          (case update (Payload job) of
             Inl e \<Rightarrow> (r1, Inl e)
           | Inr None \<Rightarrow> (r1, Inr ())
           | Inr (Some value) \<Rightarrow>
               (case Save r1 (job\<lparr>Payload := value\<rparr>) of
                  (r2, Inl e) \<Rightarrow> (r2, Inl e)
                | (r2, Inr _) \<Rightarrow> (notifyWorkChange r2 k (job_ID job), Inr ()))))"

subsection \<open>Cancelling and removing\<close>

text \<open>
  \<open>Cancel\<close> fences the run it finds and waits for that run to end; the second component is the run it
  waits for, \<open>None\<close> when it returns at once. \<open>Remove\<close> goes on with \<open>remove_row\<close> after the wait.
\<close>

definition fence :: "nat \<Rightarrow> activeRun \<Rightarrow> activeRun" where
  "fence tok run =
     (if run_token run = tok
      then (case tryFence (run_guard run) of
          (g, True) \<Rightarrow> run\<lparr>run_guard := g, run_cancelled := True\<rparr>
        | (g, False) \<Rightarrow> run\<lparr>run_guard := g\<rparr>)
      else run)"

definition Cancel :: "Runner \<Rightarrow> string \<Rightarrow> Runner \<times> nat option" where
  "Cancel r i =
     (if disabled r then (r, None)
      else (case runs r i of
          None \<Rightarrow> (r, None)
        | Some tok \<Rightarrow> (r\<lparr>executing := map (fence tok) (executing r)\<rparr>, Some tok)))"

definition remove_row :: "Runner \<Rightarrow> string \<Rightarrow> Runner" where
  "remove_row r i =
     (if disabled r then r
      else (case on_db r (\<lambda>d. DeleteJob d i) of
          (r1, Inl e) \<Rightarrow> r1
        | (r1, Inr _) \<Rightarrow> notifyChange r1 i))"

definition RemoveByKey_target :: "Runner \<Rightarrow> string \<Rightarrow> string \<Rightarrow> Runner \<times> string option" where
  "RemoveByKey_target r k key =
     (if disabled r \<or> key = [] then (r, None)
      else (case LoadByKey r k key of
          (r1, Inl e) \<Rightarrow> (r1, None)
        | (r1, Inr existing) \<Rightarrow> (r1, map_option job_ID existing)))"

definition List :: "Runner \<Rightarrow> Runner \<times> (job_error + Job list)" where
  "List r =
     (if disabled r then (r, Inr [])
      else (case on_db r ListJobs of
          (r1, Inl e) \<Rightarrow> (r1, Inl e)
        | (r1, Inr all) \<Rightarrow>
            (r1, Inr (SliceStable (\<lambda>a b. UpdatedAt a > UpdatedAt b) (filter (\<lambda>j. \<not> cronInterval r (job_Kind j) > 0) all)))))"

definition Trim :: "Runner \<Rightarrow> time \<Rightarrow> Runner \<times> nat" where
  "Trim r now =
     (if disabled r then (r, 0)
      else (case on_db r (\<lambda>d. TrimDoneJobs d (now - retention r)) of
          (r1, Inl e) \<Rightarrow> (r1, 0)
        | (r1, Inr n) \<Rightarrow> (r1, n)))"

end
