(* ===== verification/Jobs_Dispatch.thy ===== *)
theory Jobs_Dispatch
  imports Jobs_Runner
begin

text \<open>
  Running jobs: the dispatch pass and its loop, the end of a run with its retry policy, cron entries,
  and the start of a runner (\<open>internal/jobs/runner.go\<close>, \<open>cron.go\<close>).
\<close>

subsection \<open>Failures\<close>

definition attemptCap :: "Runner \<Rightarrow> Job \<Rightarrow> int" where
  "attemptCap r j = (if MaxAttempts j > 0 then MaxAttempts j else maxAttempts r)"

definition runnable :: "Runner \<Rightarrow> Job \<Rightarrow> bool" where
  "runnable r j = (if job_State j \<noteq> StateFailed then True else Attempts j < attemptCap r j)"

text \<open>The loop of \<open>backoff\<close>, \<open>n\<close> rounds left; \<open>time.Duration\<close> wraps around.\<close>

fun backoff_loop :: "duration \<Rightarrow> duration \<Rightarrow> nat \<Rightarrow> duration" where
  "backoff_loop cap d 0 = (if d > cap then cap else d)"
| "backoff_loop cap d (Suc n) =
     (let d = wrap64 (d * 2) in if d \<le> 0 \<or> d \<ge> cap then cap else backoff_loop cap d n)"

definition backoff :: "Runner \<Rightarrow> int \<Rightarrow> duration" where
  "backoff r attempt =
     (let attempt = (if attempt < 1 then 1 else attempt)
      in backoff_loop (backoffCap r) (backoffBase r) (nat (attempt - 1)))"

text \<open>The failed job and whether it went dead; that the save may fail is logged only.\<close>

definition failed_job :: "Runner \<Rightarrow> time \<Rightarrow> Job \<Rightarrow> run_error \<Rightarrow> Job \<times> bool" where
  "failed_job r now j cause =
     (let j' = j\<lparr>LastError := err_text cause, LastDiagnostic := DiagnosticOutput cause, UpdatedAt := now\<rparr> in
      if Attempts j \<ge> attemptCap r j then (j'\<lparr>job_State := StateDead, ScheduledAt := now\<rparr>, True)
      else (j'\<lparr>job_State := StateFailed, ScheduledAt := now + backoff r (Attempts j)\<rparr>, False))"

definition recordFailureLocked :: "Runner \<Rightarrow> time \<Rightarrow> Job \<Rightarrow> run_error \<Rightarrow> Runner \<times> Job \<times> bool" where
  "recordFailureLocked r now j cause =
     (case failed_job r now j cause of (j', wentDead) \<Rightarrow> (fst (Save r j'), j', wentDead))"

definition dead_job :: "time \<Rightarrow> Job \<Rightarrow> run_error \<Rightarrow> Job" where
  "dead_job now j cause =
     j\<lparr>job_State := StateDead, LastError := err_text cause, LastDiagnostic := DiagnosticOutput cause,
       ScheduledAt := now, UpdatedAt := now\<rparr>"

definition recordPermanentFailureLocked :: "Runner \<Rightarrow> time \<Rightarrow> Job \<Rightarrow> run_error \<Rightarrow> Runner \<times> Job" where
  "recordPermanentFailureLocked r now j cause = (fst (Save r (dead_job now j cause)), dead_job now j cause)"

definition unknown_kind_error :: "string \<Rightarrow> run_error" where
  "unknown_kind_error k = \<lparr>err_text = ''jobs: no handler registered for kind: '' @ k, err_diagnostic = None\<rparr>"

subsection \<open>The dispatch pass\<close>

text \<open>What a pass collects: the jobs launched, and the jobs of no known kind.\<close>

record pass =
  pass_runner :: Runner
  pass_launched :: "Job list"
  pass_dead :: "Job list"

definition release :: "Runner \<Rightarrow> string \<Rightarrow> string \<Rightarrow> Runner" where
  "release r i k = r\<lparr>runs := (runs r)(i := None), inflight := (inflight r)(k := inflight r k - 1)\<rparr>"

text \<open>A launch notes the run and counts it, then saves the job as running; a failed save takes both back.\<close>

definition note_run :: "Runner \<Rightarrow> Job \<Rightarrow> Runner" where
  "note_run r j =
     r\<lparr>inflight := (inflight r)(job_Kind j := inflight r (job_Kind j) + 1),
       runs := (runs r)(job_ID j \<mapsto> next_token r), next_token := next_token r + 1\<rparr>"

definition new_run :: "Runner \<Rightarrow> Job \<Rightarrow> activeRun" where
  "new_run r j = \<lparr>run_token = next_token r, run_job = job_ID j, run_kind = job_Kind j, run_guard = new_guard,
     run_cancelled = False, run_finished = False\<rparr>"

definition launched_job :: "time \<Rightarrow> Job \<Rightarrow> Job" where
  "launched_job now j = j\<lparr>job_State := StateRunning, Attempts := Attempts j + 1, Requeued := False, UpdatedAt := now\<rparr>"

definition dispatch_one :: "time \<Rightarrow> pass \<Rightarrow> Job \<Rightarrow> pass" where
  "dispatch_one now p j =
     (let r = pass_runner p in
      if \<not> runnable r j then p
      else (case map_of (handlers r) (job_Kind j) of
          None \<Rightarrow>
            (case recordPermanentFailureLocked r now j (unknown_kind_error (job_Kind j)) of
               (r1, dead) \<Rightarrow> p\<lparr>pass_runner := r1, pass_dead := pass_dead p @ [dead]\<rparr>)
        | Some exec \<Rightarrow>
            if inflight r (job_Kind j) \<ge> h_limit exec then p
            else (case Save (note_run r j) (launched_job now j) of
                (r2, Inl e) \<Rightarrow> p\<lparr>pass_runner := release r2 (job_ID j) (job_Kind j)\<rparr>
              | (r2, Inr _) \<Rightarrow>
                  p\<lparr>pass_runner := r2\<lparr>executing := executing r2 @ [new_run r j]\<rparr>,
                    pass_launched := pass_launched p @ [launched_job now j]\<rparr>)))"

text \<open>What a pass tells after it, and whether it made progress.\<close>

definition pass_told :: "pass \<Rightarrow> Runner" where
  "pass_told p =
     (let r1 = fold (\<lambda>j r. notifyChange r (job_ID j)) (pass_dead p) (pass_runner p);
          r2 = fold (\<lambda>j r. notifyWorkChange r (job_Kind j) (job_ID j)) (pass_launched p) r1
      in fold (\<lambda>j r. notifyTerminalFailure r j) (pass_dead p) r2)"

definition progressed :: "pass \<Rightarrow> bool" where
  "progressed p \<longleftrightarrow> pass_dead p \<noteq> [] \<or> pass_launched p \<noteq> []"

definition start_pass :: "Runner \<Rightarrow> pass" where
  "start_pass r = \<lparr>pass_runner = r, pass_launched = [], pass_dead = []\<rparr>"

definition dispatch :: "Runner \<Rightarrow> time \<Rightarrow> Runner \<times> (job_error + bool)" where
  "dispatch r now =
     (case on_db r (\<lambda>d. EligibleJobs d now eligiblePageSize) of
        (r1, Inl e) \<Rightarrow> (r1, Inl e)
      | (r1, Inr eligible) \<Rightarrow>
          (let p = foldl (dispatch_one now) (start_pass r1) eligible in (pass_told p, Inr (progressed p))))"

definition farFuture :: time where "farFuture = 315506361600 * second"

definition read_next :: "Runner \<Rightarrow> Runner" where
  "read_next r =
     (case on_db r NextScheduledJob of
        (r1, Inl e) \<Rightarrow> r1\<lparr>nextDue := 0\<rparr>
      | (r1, Inr None) \<Rightarrow> r1\<lparr>nextDue := farFuture\<rparr>
      | (r1, Inr (Some next)) \<Rightarrow> r1\<lparr>nextDue := next\<rparr>)"

text \<open>
  The dispatch loop. A round is given by what it meets: whether the channel \<open>done\<close> is closed, the time
  its pass reads from the clock, and what the other goroutines do with the runner between the end of
  the pass and what the loop does next. The rounds are listed, since the loop may go on forever; the
  result is \<open>None\<close> when it is not over after all of them. (What other goroutines do \<^emph>\<open>during\<close> a pass is
  in the step relation of \<open>Jobs_Steps\<close>; the lock \<open>ioMu\<close> keeps them from the table.)
\<close>

type_synonym loop_round = "bool \<times> time \<times> (Runner \<Rightarrow> Runner)"

fun dispatchUntilIdle :: "loop_round list \<Rightarrow> Runner \<Rightarrow> Runner option" where
  "dispatchUntilIdle [] r = None"
| "dispatchUntilIdle ((stop, now, others) # rounds) r =
     (if stop then Some r
      else case dispatch r now of
          (r1, Inl e) \<Rightarrow> Some ((others r1)\<lparr>nextDue := 0\<rparr>)
        | (r1, Inr any) \<Rightarrow> if any then dispatchUntilIdle rounds (others r1) else Some (read_next (others r1)))"

subsection \<open>The end of a run\<close>

definition rearmed_job :: "time \<Rightarrow> Job \<Rightarrow> duration \<Rightarrow> run_error option \<Rightarrow> Job" where
  "rearmed_job now j interval runErr =
     (let next = now + interval;
          next = (if Requeued j \<and> ScheduledAt j < next then ScheduledAt j else next);
          j = j\<lparr>job_State := StateQueued, Attempts := 0, Requeued := False, ScheduledAt := next, UpdatedAt := now\<rparr>
      in case runErr of
           Some e \<Rightarrow> j\<lparr>LastError := err_text e, LastDiagnostic := DiagnosticOutput e\<rparr>
         | None \<Rightarrow> j\<lparr>LastError := [], LastDiagnostic := []\<rparr>)"

definition rearmCronLocked :: "Runner \<Rightarrow> time \<Rightarrow> Job \<Rightarrow> duration \<Rightarrow> run_error option \<Rightarrow> Runner" where
  "rearmCronLocked r now j interval runErr = fst (Save r (rearmed_job now j interval runErr))"

text \<open>The tail of \<open>finish\<close>: what is told, and the nudge of a job that was asked for again.\<close>

definition finish_told :: "Runner \<Rightarrow> string \<Rightarrow> Job \<Rightarrow> bool \<Rightarrow> bool \<Rightarrow> Runner" where
  "finish_told r i cur wentDead requeue =
     (let r = notifyChange r i;
          r = (if wentDead then notifyTerminalFailure r cur else r)
      in if requeue then nudge r else r)"

definition requeued_job :: "time \<Rightarrow> Job \<Rightarrow> run_error \<Rightarrow> Job" where
  "requeued_job now cur e =
     cur\<lparr>job_State := StateQueued, Requeued := False, Attempts := 0, LastError := err_text e,
       LastDiagnostic := DiagnosticOutput e, UpdatedAt := now\<rparr>"

definition succeeded_job :: "time \<Rightarrow> Job \<Rightarrow> string \<Rightarrow> Job" where
  "succeeded_job now cur result =
     (let j = cur\<lparr>LastError := [], LastDiagnostic := [], Result := result, UpdatedAt := now\<rparr> in
      if Requeued cur then j\<lparr>job_State := StateQueued, Requeued := False, Attempts := 0\<rparr>
      else j\<lparr>job_State := StateDone\<rparr>)"

definition finish :: "Runner \<Rightarrow> time \<Rightarrow> string \<Rightarrow> string \<Rightarrow> run_error option \<Rightarrow> Runner" where
  "finish r now i result runErr =
     (case Load r i of
        (r1, Inl e) \<Rightarrow> r1
      | (r1, Inr None) \<Rightarrow> r1
      | (r1, Inr (Some cur)) \<Rightarrow>
          if cronInterval r (job_Kind cur) > 0
          then rearmCronLocked r1 now (cur\<lparr>Result := result\<rparr>) (cronInterval r (job_Kind cur)) runErr
          else (case runErr of
              Some e \<Rightarrow>
                if Requeued cur
                then (case Save r1 (requeued_job now cur e) of
                    (r2, Inl _) \<Rightarrow> r2
                  | (r2, Inr _) \<Rightarrow> finish_told r2 i (requeued_job now cur e) False True)
                else (case recordFailureLocked r1 now cur e of
                    (r2, cur', wentDead) \<Rightarrow> finish_told r2 i cur' wentDead False)
            | None \<Rightarrow>
                (case Save r1 (succeeded_job now cur result) of
                   (r2, Inl _) \<Rightarrow> r2
                 | (r2, Inr _) \<Rightarrow> finish_told r2 i (succeeded_job now cur result) False (Requeued cur))))"

text \<open>
  The goroutine of a run, after its handler returned: \<open>finish_run\<close> records the outcome, \<open>end_run\<close>
  gives the slot back. Other goroutines run in between.
\<close>

definition finish_run :: "Runner \<Rightarrow> time \<Rightarrow> activeRun \<Rightarrow> string \<Rightarrow> run_error option \<Rightarrow> Runner" where
  "finish_run r now run result runErr =
     (let r1 = finish r now (run_job run) (if runErr = None then result else []) runErr in
      r1\<lparr>executing := map (\<lambda>e. if run_token e = run_token run then e\<lparr>run_finished := True\<rparr> else e) (executing r1)\<rparr>)"

definition end_run :: "Runner \<Rightarrow> activeRun \<Rightarrow> Runner" where
  "end_run r run =
     nudge ((release r (run_job run) (run_kind run))
       \<lparr>executing := filter (\<lambda>e. run_token e \<noteq> run_token run) (executing r)\<rparr>)"

subsection \<open>Cron entries\<close>

definition writeCronEntry :: "Runner \<Rightarrow> time \<Rightarrow> string \<Rightarrow> string \<Rightarrow> duration \<Rightarrow> Runner \<times> (job_error + unit)" where
  "writeCronEntry r now new_id k interval =
     (case (if disabled r then (r, Inr None) else LoadByKey r k CronKey) of
        (r1, Inl e) \<Rightarrow> (r1, Inl e)
      | (r1, Inr existing) \<Rightarrow>
          if (case existing of None \<Rightarrow> False
              | Some j \<Rightarrow> \<not> Terminal (job_State j) \<and> time_sub (ScheduledAt j) now \<le> interval)
          then (r1, Inr ())
          else (case Enqueue r1 now new_id k
                  \<lparr>eo_UniqueKey = CronKey, eo_Payload = Inr [], eo_Delay = interval, eo_RunNow = False,
                   eo_Priority = 0, eo_MaxAttempts = 0\<rparr> of
              (r2, Inl e) \<Rightarrow> (r2, Inl e)
            | (r2, Inr _) \<Rightarrow> (r2, Inr ())))"

definition deferCronArm :: "Runner \<Rightarrow> time \<Rightarrow> string \<Rightarrow> duration \<Rightarrow> job_error \<Rightarrow> Runner" where
  "deferCronArm r now k interval cause =
     (let pending = (case map_of (pendingArms r) k of
            None \<Rightarrow> \<lparr>pa_interval = interval, pa_attempts = 0, pa_retryAt = 0, pa_lastErr = cause\<rparr> | Some p \<Rightarrow> p);
          attempts = pa_attempts pending + 1;
          pending = pending\<lparr>pa_attempts := attempts, pa_lastErr := cause, pa_retryAt := now + backoff r attempts\<rparr>
      in r\<lparr>pendingArms := (k, pending) # filter (\<lambda>(kind, _). kind \<noteq> k) (pendingArms r)\<rparr>)"

definition armCronKind :: "Runner \<Rightarrow> time \<Rightarrow> string \<Rightarrow> string \<Rightarrow> duration \<Rightarrow> Runner" where
  "armCronKind r now new_id k interval =
     (case writeCronEntry r now new_id k interval of
        (r1, Inl e) \<Rightarrow> deferCronArm r1 now k interval e
      | (r1, Inr _) \<Rightarrow> r1\<lparr>pendingArms := filter (\<lambda>(kind, _). kind \<noteq> k) (pendingArms r1)\<rparr>)"

text \<open>\<open>ids\<close> gives the identifier the queue makes for a kind's entry.\<close>

definition armCron :: "Runner \<Rightarrow> time \<Rightarrow> (string \<Rightarrow> string) \<Rightarrow> Runner" where
  "armCron r now ids =
     fold (\<lambda>(k, entry) r. armCronKind r now (ids k) k (h_interval entry))
       (filter (\<lambda>(k, entry). h_interval entry > 0) (handlers r)) r"

definition retryCronArming :: "Runner \<Rightarrow> time \<Rightarrow> (string \<Rightarrow> string) \<Rightarrow> Runner" where
  "retryCronArming r now ids =
     fold (\<lambda>(k, pending) r. armCronKind r now (ids k) k (pa_interval pending))
       (filter (\<lambda>(k, pending). \<not> now < pa_retryAt pending) (pendingArms r)) r"

definition cronArmError :: "Runner \<Rightarrow> string \<Rightarrow> job_error option" where
  "cronArmError r k =
     (case startErr r of
        Some e \<Rightarrow> Some e
      | None \<Rightarrow> (case map_of (pendingArms r) k of Some p \<Rightarrow> Some (pa_lastErr p) | None \<Rightarrow> None))"

definition CronEntry :: "Runner \<Rightarrow> string \<Rightarrow> Runner \<times> (job_error + Job option)" where
  "CronEntry r k =
     (if disabled r then (r, Inl ErrDisabled)
      else if cronInterval r k \<le> 0 then (r, Inl (ErrNotCron k))
      else (case LoadByKey r k CronKey of
          (r1, Inl e) \<Rightarrow> (r1, Inl e)
        | (r1, Inr (Some entry)) \<Rightarrow> (r1, Inr (Some entry))
        | (r1, Inr None) \<Rightarrow> (case cronArmError r1 k of Some _ \<Rightarrow> (r1, Inl (NotArmed k)) | None \<Rightarrow> (r1, Inr None))))"

subsection \<open>Starting\<close>

text \<open>
  \<open>locked\<close> is the answer of the store's lock. The loop that \<open>Start\<close> spawns begins with a pass, as if
  woken.
\<close>

definition Start :: "Runner \<Rightarrow> time \<Rightarrow> (string \<Rightarrow> string) \<Rightarrow> job_error option \<Rightarrow> Runner \<times> (job_error + unit)" where
  "Start r now ids lock_error =
     (if disabled r then (r, Inr ())
      else if started r then (r, Inl AlreadyStarted)
      else (case lock_error of
          Some e \<Rightarrow> (r\<lparr>startErr := Some e\<rparr>, Inl e)
        | None \<Rightarrow>
            (let r1 = r\<lparr>startErr := None, started := True\<rparr>;
                 r2 = fst (on_db r1 (\<lambda>d. RecoverRunningJobs d now))
             in (nudge (armCron r2 now ids), Inr ()))))"

text \<open>\<open>Stop\<close> ends the loop and waits for the runs that the runner knows; the second component is those.\<close>

definition Stop :: "Runner \<Rightarrow> Runner \<times> nat list" where
  "Stop r =
     (if \<not> started r then (r, [])
      else (r\<lparr>started := False\<rparr>,
        map run_token (filter (\<lambda>e. runs r (run_job e) = Some (run_token e)) (executing r))))"

end
