(* ===== verification/Jobs_Steps.thy ===== *)
theory Jobs_Steps
  imports Jobs_Dispatch
begin

text \<open>
  The runner as a transition system: every public operation, the passes of its loop and the ends of
  the runs are steps, in any order and with any outcome of the database and of the handlers. The
  locale \<open>job_table\<close> is what the runner relies on in its store; its interpretation shows that the
  SQLite statements provide it.
\<close>

subsection \<open>What the store promises\<close>

locale job_table =
  fixes lookup :: "'db \<Rightarrow> string \<Rightarrow> Job option"
    and save :: "'db \<Rightarrow> Job \<Rightarrow> 'db \<times> (job_error + unit)"
    and load :: "'db \<Rightarrow> string \<Rightarrow> 'db \<times> (job_error + Job option)"
    and remove :: "'db \<Rightarrow> string \<Rightarrow> 'db \<times> (job_error + unit)"
  assumes save_lookup:
      "save d j = (d', res) \<Longrightarrow> lookup d' i = (if res = Inr () \<and> i = job_ID j then Some j else lookup d i)"
    and load_lookup: "load d i = (d', ans) \<Longrightarrow> lookup d' k = lookup d k"
    and load_result: "load d i = (d', Inr found) \<Longrightarrow> found = map_option recordToJob (lookup d i)"
    and remove_lookup:
      "remove d i = (d', res) \<Longrightarrow> lookup d' k = (if res = Inr () \<and> k = i then None else lookup d k)"
begin

text \<open>Loading a job, changing it and saving it touches no other job.\<close>

lemma load_save:
  assumes "load d i = (d1, Inr (Some j))" "save d1 (f j) = (d2, res)" "job_ID (f j) = i"
  shows "lookup d2 k = (if res = Inr () \<and> k = i then Some (f j) else lookup d k)"
  using save_lookup [OF assms(2)] load_lookup [OF assms(1)] assms(3) by simp

lemma save_load:
  assumes "save d j = (d1, Inr ())" "load d1 (job_ID j) = (d2, Inr found)"
  shows "found = Some (recordToJob j)"
  using save_lookup [OF assms(1)] load_result [OF assms(2)] by simp

lemma remove_load:
  assumes "remove d i = (d1, Inr ())" "load d1 i = (d2, Inr found)"
  shows "found = None"
  using remove_lookup [OF assms(1)] load_result [OF assms(2)] by simp

end

lemma recordToJob_fields [simp]:
  "job_ID (recordToJob j) = job_ID j" "job_Kind (recordToJob j) = job_Kind j" "job_State (recordToJob j) = job_State j"
  "Attempts (recordToJob j) = Attempts j" "MaxAttempts (recordToJob j) = MaxAttempts j"
  "ScheduledAt (recordToJob j) = ScheduledAt j" "Requeued (recordToJob j) = Requeued j" "UniqueKey (recordToJob j) = UniqueKey j"
  by (simp_all add: recordToJob_def)

lemma statement_eq:
  "statement d f =
     (if faults d \<noteq> [] \<and> hd (faults d) then (d\<lparr>faults := tl (faults d)\<rparr>, Inl StoreFailed)
      else f (d\<lparr>faults := tl (faults d)\<rparr>))"
proof (cases "faults d")
  case Nil
  then have "d\<lparr>faults := tl (faults d)\<rparr> = d" by (cases d) simp
  moreover have "statement d f = f d" using Nil by (simp add: statement_def)
  ultimately show ?thesis using Nil by metis
qed (simp add: statement_def)

lemma find_row_put_row: "find_row (put_row rs j) i = (if i = job_ID j then Some j else find_row rs i)"
proof (cases "find_row rs (job_ID j) = None")
  case True
  then show ?thesis by (induction rs) (auto simp: put_row_def find_row_def)
next
  case False
  have "find_row (map (\<lambda>r. if job_ID r = job_ID j then j else r) rs) i =
      (if i = job_ID j \<and> find_row rs (job_ID j) \<noteq> None then Some j else find_row rs i)"
    by (induction rs) (auto simp: find_row_def)
  moreover have "put_row rs j = map (\<lambda>r. if job_ID r = job_ID j then j else r) rs" using False by (simp only: put_row_def if_False)
  ultimately show ?thesis using False by simp
qed

lemma find_row_remove: "find_row (filter (\<lambda>j. job_ID j \<noteq> i) rs) k = (if k = i then None else find_row rs k)"
  unfolding find_row_def by (induction rs) auto

lemma find_row_Some: "find_row rs i = Some j \<Longrightarrow> j \<in> set rs \<and> job_ID j = i"
  unfolding find_row_def by (rule find_Some_iff_first)

lemma find_row_distinct: "distinct (map job_ID rs) \<Longrightarrow> j \<in> set rs \<Longrightarrow> find_row rs (job_ID j) = Some j"
  unfolding find_row_def by (induction rs) auto

lemma find_row_None: "find_row rs i = None \<longleftrightarrow> i \<notin> job_ID ` set rs"
  by (auto simp: find_row_def find_None_iff_all)

lemma distinct_put_row: "distinct (map job_ID rs) \<Longrightarrow> distinct (map job_ID (put_row rs j))"
proof (cases "find_row rs (job_ID j) = None")
  case False
  have "map job_ID (map (\<lambda>r. if job_ID r = job_ID j then j else r) rs) = map job_ID rs" by simp
  then show "distinct (map job_ID rs) \<Longrightarrow> distinct (map job_ID (put_row rs j))"
    using False by (simp only: put_row_def if_False)
qed (auto simp: put_row_def find_row_None)

lemma UpsertJob_rows:
  assumes "UpsertJob d j = (d', res)"
  shows "rows d' = (if res = Inr () then put_row (rows d) j else rows d) \<and> only_kinds d' = only_kinds d"
  using assms by (auto simp: UpsertJob_def statement_eq split: if_splits)

lemma GetJob_rows:
  assumes "GetJob d i = (d', res)"
  shows "rows d' = rows d \<and> only_kinds d' = only_kinds d \<and> (case res of Inr x \<Rightarrow> x = map_option recordToJob (find_row (rows d) i) | Inl _ \<Rightarrow> True)"
  using assms by (auto simp: GetJob_def statement_eq split: if_splits)

lemma DeleteJob_rows:
  assumes "DeleteJob d i = (d', res)"
  shows "rows d' = (if res = Inr () then filter (\<lambda>j. job_ID j \<noteq> i) (rows d) else rows d) \<and> only_kinds d' = only_kinds d"
  using assms by (auto simp: DeleteJob_def statement_eq split: if_splits)

interpretation job_rows: job_table "\<lambda>d. find_row (rows d)" UpsertJob GetJob DeleteJob
proof unfold_locales
  show "UpsertJob d j = (d', res) \<Longrightarrow>
      find_row (rows d') i = (if res = Inr () \<and> i = job_ID j then Some j else find_row (rows d) i)" for d j d' res i
    using UpsertJob_rows [of d j d' res] by (auto simp: find_row_put_row)
  show "GetJob d i = (d', res) \<Longrightarrow> find_row (rows d') k = find_row (rows d) k" for d i d' res k
    using GetJob_rows [of d i d' res] by simp
  show "GetJob d i = (d', Inr found) \<Longrightarrow> found = map_option recordToJob (find_row (rows d) i)" for d i d' found
    using GetJob_rows [of d i d' "Inr found"] by simp
  show "DeleteJob d i = (d', res) \<Longrightarrow>
      find_row (rows d') k = (if res = Inr () \<and> k = i then None else find_row (rows d) k)" for d i d' res k
    using DeleteJob_rows [of d i d' res] by (simp add: find_row_remove)
qed

subsection \<open>Steps\<close>

definition row_of :: "Runner \<Rightarrow> string \<Rightarrow> Job option" where
  "row_of r i = find_row (rows (db r)) i"

text \<open>A new identifier: no job and no run has it.\<close>

definition unused_id :: "Runner \<Rightarrow> string \<Rightarrow> bool" where
  "unused_id r i \<longleftrightarrow> row_of r i = None \<and> i \<notin> run_job ` set (executing r)"

definition with_guard :: "nat \<Rightarrow> (CommitGuard \<Rightarrow> CommitGuard) \<Rightarrow> Runner \<Rightarrow> Runner" where
  "with_guard tok f r =
     r\<lparr>executing := map (\<lambda>e. if run_token e = tok then e\<lparr>run_guard := f (run_guard e)\<rparr> else e) (executing r)\<rparr>"

definition time_out :: "nat \<Rightarrow> Runner \<Rightarrow> Runner" where
  "time_out tok r = r\<lparr>executing := map (fence tok) (executing r)\<rparr>"

text \<open>
  Where the loop of a started runner is: parked in its select; about to make a pass; in a pass, with the
  jobs still to look at and what the pass has collected; or done with passing, about to read when the
  next job is due. A pass holds the lock \<open>ioMu\<close> under which the table is written.
\<close>

datatype phase = Parked | Passing | InPass time "Job list" "Job list" "Job list" | Reading

fun io_free :: "phase \<Rightarrow> bool" where
  "io_free (InPass _ _ _ _) = False"
| "io_free _ = True"

definition in_pass :: "time \<Rightarrow> pass \<Rightarrow> Job list \<Rightarrow> Runner \<times> phase" where
  "in_pass now p js = (pass_runner p, InPass now js (pass_launched p) (pass_dead p))"

text \<open>
  The steps. What takes \<open>ioMu\<close> happens outside of passes; the rest, the cleanup of an ended run
  included, may also come between two jobs of a pass.
\<close>

inductive runner_step :: "Runner \<times> phase \<Rightarrow> Runner \<times> phase \<Rightarrow> bool" where
  register: "runner_step (r, b) (fst (RegisterWith r k cfg), b)"
| register_cron: "runner_step (r, b) (fst (RegisterCron r k interval cfg), b)"
| cancel: "runner_step (r, b) (fst (Cancel r i), b)"
| list: "runner_step (r, b) (fst (List r), b)"
| cron_entry: "runner_step (r, b) (fst (CronEntry r k), b)"
| enter: "runner_step (r, b) (with_guard tok (\<lambda>g. fst (Enter g)) r, b)"
| leave: "runner_step (r, b) (with_guard tok Leave r, b)"
| timeout: "runner_step (r, b) (time_out tok r, b)"
| end_run: "run \<in> set (executing r) \<Longrightarrow> run_finished run \<Longrightarrow> runner_step (r, b) (end_run r run, b)"
| enqueue: "io_free b \<Longrightarrow> unused_id r new_id \<Longrightarrow> runner_step (r, b) (fst (Enqueue r now new_id k opts), b)"
| retry: "io_free b \<Longrightarrow> runner_step (r, b) (fst (Retry r now i), b)"
| update: "io_free b \<Longrightarrow> runner_step (r, b) (fst (UpdatePayload r k key f), b)"
| remove: "io_free b \<Longrightarrow> runner_step (r, b) (remove_row r i, b)"
| remove_key: "io_free b \<Longrightarrow> runner_step (r, b) (fst (RemoveByKey_target r k key), b)"
| trim: "io_free b \<Longrightarrow> runner_step (r, b) (fst (Trim r now), b)"
| cron_arm: "io_free b \<Longrightarrow> unused_id r new_id \<Longrightarrow> runner_step (r, b) (armCronKind r now new_id k interval, b)"
| finish: "io_free b \<Longrightarrow> run \<in> set (executing r) \<Longrightarrow> \<not> run_finished run \<Longrightarrow> runner_step (r, b) (finish_run r now run result err, b)"
| wake: "started r \<Longrightarrow> wake r \<Longrightarrow> runner_step (r, Parked) (r\<lparr>wake := False\<rparr>, Passing)"
| tick: "started r \<Longrightarrow> runner_step (r, Parked) (r, if now < nextDue r then Parked else Passing)"
| pass_fails: "on_db r (\<lambda>d. EligibleJobs d now eligiblePageSize) = (r1, Inl e) \<Longrightarrow>
    runner_step (r, Passing) (r1\<lparr>nextDue := 0\<rparr>, Parked)"
| pass_starts: "on_db r (\<lambda>d. EligibleJobs d now eligiblePageSize) = (r1, Inr js) \<Longrightarrow>
    runner_step (r, Passing) (in_pass now (start_pass r1) js)"
| pass_job: "runner_step (in_pass now p (j # js)) (in_pass now (dispatch_one now p j) js)"
| pass_ends: "runner_step (in_pass now p []) (pass_told p, if progressed p then Passing else Reading)"
| next_read: "runner_step (r, Reading) (read_next r, Parked)"

text \<open>
  The life of a runner: made, its kinds registered, started by recovering the jobs a former process
  left running, then any steps.
\<close>

definition recovered :: "Runner \<Rightarrow> time \<Rightarrow> Runner" where
  "recovered r now =
     nudge (fst (on_db (r\<lparr>startErr := None, started := True\<rparr>) (\<lambda>d. RecoverRunningJobs d now)))"

inductive runs_to :: "Runner \<Rightarrow> Runner \<times> phase \<Rightarrow> bool" for r0 where
  starts: "runs_to r0 (recovered r0 now, Parked)"
| step: "runs_to r0 s \<Longrightarrow> runner_step s s' \<Longrightarrow> runs_to r0 s'"

text \<open>Before the start: nothing runs, and the table's key is its id.\<close>

definition ready_to_start :: "Runner \<Rightarrow> bool" where
  "ready_to_start r \<longleftrightarrow> \<not> disabled r \<and> executing r = [] \<and> inflight r = (\<lambda>_. 0) \<and> distinct (map job_ID (rows (db r))) \<and>
     list_all (\<lambda>(k, h). 0 < h_limit h) (handlers r)"

subsection \<open>Operations that leave the runs alone\<close>

text \<open>
  \<open>quiet r r'\<close>: the runs and their bookkeeping are the same, kinds keep their limits, and a job that
  has a run keeps its row's kind and does not stop running. Both parts compose.
\<close>

definition core :: "activeRun \<Rightarrow> activeRun" where
  "core e = e\<lparr>run_guard := new_guard, run_cancelled := False\<rparr>"

definition prof :: "Runner \<Rightarrow> activeRun list" where
  "prof r = map core (executing r)"

lemma core_fields [simp]:
  "run_token (core e) = run_token e" "run_job (core e) = run_job e" "run_kind (core e) = run_kind e"
  "run_finished (core e) = run_finished e"
  by (simp_all add: core_def)

lemma prof_jobs: "run_job ` set (executing r) = run_job ` set (prof r)"
  by (simp add: prof_def image_image)

definition limit_of :: "(string \<times> handler) list \<Rightarrow> string \<Rightarrow> int option" where
  "limit_of hs k = map_option h_limit (map_of hs k)"

definition limits_kept :: "(string \<times> handler) list \<Rightarrow> (string \<times> handler) list \<Rightarrow> bool" where
  "limits_kept hs hs' \<longleftrightarrow>
     (\<forall>k. limit_of hs' k = limit_of hs k \<or> limit_of hs k = None \<and> (\<exists>l. limit_of hs' k = Some l \<and> 0 < l))"

definition same_runs :: "Runner \<Rightarrow> Runner \<Rightarrow> bool" where
  "same_runs r r' \<longleftrightarrow>
     prof r' = prof r \<and> runs r' = runs r \<and> inflight r' = inflight r \<and> next_token r' = next_token r \<and>
     limits_kept (handlers r) (handlers r')"

definition rows_kept :: "Runner \<Rightarrow> Runner \<Rightarrow> bool" where
  "rows_kept r r' \<longleftrightarrow>
     (distinct (map job_ID (rows (db r))) \<longrightarrow> distinct (map job_ID (rows (db r')))) \<and>
     (\<forall>i j'. row_of r' i = Some j' \<longrightarrow> i \<in> run_job ` set (executing r) \<longrightarrow>
        (\<exists>j. row_of r i = Some j \<and> job_Kind j' = job_Kind j \<and> (job_State j = StateRunning \<longrightarrow> job_State j' = StateRunning)))"

definition quiet :: "Runner \<Rightarrow> Runner \<Rightarrow> bool" where
  "quiet r r' \<longleftrightarrow> same_runs r r' \<and> rows_kept r r'"

lemma limits_kept_refl [simp]: "limits_kept hs hs"
  by (simp add: limits_kept_def)

lemma limits_kept_trans: "limits_kept a b \<Longrightarrow> limits_kept b c \<Longrightarrow> limits_kept a c"
  unfolding limits_kept_def by metis

lemma same_runs_refl: "same_runs r r"
  by (simp add: same_runs_def)

lemma same_runs_jobs: "same_runs r r' \<Longrightarrow> run_job ` set (executing r') = run_job ` set (executing r)"
  by (simp add: prof_jobs same_runs_def)

lemma same_runs_trans:
  assumes a: "same_runs r r1" and b: "same_runs r1 r2"
  shows "same_runs r r2"
  using a b limits_kept_trans [of "handlers r" "handlers r1" "handlers r2"] by (simp add: same_runs_def)

lemma rows_kept_trans:
  assumes "rows_kept r r1" "rows_kept r1 r2" "same_runs r r1"
  shows "rows_kept r r2"
  using assms(1,2) unfolding rows_kept_def same_runs_jobs [OF assms(3)] by (metis (full_types))

lemma quiet_refl: "quiet r r"
  by (auto simp: quiet_def same_runs_refl rows_kept_def)

lemma quiet_trans: "quiet r r1 \<Longrightarrow> quiet r1 r2 \<Longrightarrow> quiet r r2"
  using same_runs_trans rows_kept_trans by (auto simp: quiet_def)

text \<open>Changes outside runs and table are quiet.\<close>

lemma quiet_irrelevant:
  assumes "executing r' = executing r" "runs r' = runs r" "inflight r' = inflight r" "next_token r' = next_token r"
    "handlers r' = handlers r" "rows (db r') = rows (db r)"
  shows "quiet r r'"
proof -
  have "same_runs r r'" using assms by (simp add: same_runs_def prof_def)
  moreover have "rows_kept r r'" using assms(6) by (auto simp: rows_kept_def row_of_def)
  ultimately show ?thesis by (simp add: quiet_def)
qed

lemma tell_fields [simp]:
  "executing (tell ev r) = executing r" "runs (tell ev r) = runs r" "inflight (tell ev r) = inflight r"
  "next_token (tell ev r) = next_token r" "handlers (tell ev r) = handlers r" "db (tell ev r) = db r"
  "wake (tell ev r) = wake r" "nextDue (tell ev r) = nextDue r" "started (tell ev r) = started r"
  by (simp_all add: tell_def)

lemma notify_fields [simp]:
  "executing (notifyWorkChange r k i) = executing r" "runs (notifyWorkChange r k i) = runs r"
  "inflight (notifyWorkChange r k i) = inflight r" "next_token (notifyWorkChange r k i) = next_token r"
  "handlers (notifyWorkChange r k i) = handlers r" "db (notifyWorkChange r k i) = db r"
  "wake (notifyWorkChange r k i) = wake r" "nextDue (notifyWorkChange r k i) = nextDue r" "started (notifyWorkChange r k i) = started r"
  by (simp_all add: notifyWorkChange_def notifyChange_def)

lemma nudge_fields [simp]:
  "executing (nudge r) = executing r" "runs (nudge r) = runs r" "inflight (nudge r) = inflight r"
  "next_token (nudge r) = next_token r" "handlers (nudge r) = handlers r" "db (nudge r) = db r"
  "wake (nudge r) = True" "nextDue (nudge r) = nextDue r" "started (nudge r) = started r"
  by (simp_all add: nudge_def)

lemma quiet_nudge: "quiet r r1 \<Longrightarrow> quiet r (nudge r1)"
  using quiet_trans quiet_irrelevant [of "nudge r1" r1] by simp

lemma quiet_tell: "quiet r r1 \<Longrightarrow> quiet r (tell ev r1)"
  using quiet_trans quiet_irrelevant [of "tell ev r1" r1] by simp

lemma quiet_notifyWorkChange: "quiet r r1 \<Longrightarrow> quiet r (notifyWorkChange r1 k i)"
  using quiet_trans quiet_irrelevant [of "notifyWorkChange r1 k i" r1] by simp

lemma quiet_notifyChange: "quiet r r1 \<Longrightarrow> quiet r (notifyChange r1 i)"
  by (simp add: notifyChange_def quiet_tell)

text \<open>A read of the table, and a write of one row of the table that keeps what a run of it needs.\<close>

lemma on_db_fields:
  assumes "on_db r f = (r', res)"
  shows "\<exists>d. f (db r) = (d, res) \<and> r' = r\<lparr>db := d\<rparr>"
  using assms by (auto simp: on_db_def split: prod.splits)

lemma quiet_db:
  assumes "(distinct (map job_ID (rows (db r))) \<longrightarrow> distinct (map job_ID (rows d)))"
    "\<And>i j'. find_row (rows d) i = Some j' \<Longrightarrow> i \<in> run_job ` set (executing r) \<Longrightarrow>
       \<exists>j. row_of r i = Some j \<and> job_Kind j' = job_Kind j \<and> (job_State j = StateRunning \<longrightarrow> job_State j' = StateRunning)"
  shows "quiet r (r\<lparr>db := d\<rparr>)"
proof -
  have "same_runs r (r\<lparr>db := d\<rparr>)" by (simp add: same_runs_def prof_def)
  then show ?thesis using assms by (simp add: quiet_def rows_kept_def row_of_def)
qed

lemma Save_quiet:
  assumes "Save r j = (r', res)"
    "job_ID j \<in> run_job ` set (executing r) \<Longrightarrow>
       \<exists>j0. row_of r (job_ID j) = Some j0 \<and> job_Kind j = job_Kind j0 \<and> (job_State j0 = StateRunning \<longrightarrow> job_State j = StateRunning)"
  shows "quiet r r'"
proof -
  obtain d where d: "UpsertJob (db r) j = (d, res)" "r' = r\<lparr>db := d\<rparr>"
    using on_db_fields assms(1) by (metis Save_def)
  have l: "find_row (rows d) i = (if res = Inr () \<and> i = job_ID j then Some j else find_row (rows (db r)) i)" for i
    using job_rows.save_lookup [OF d(1)] .
  have "rows d = (if res = Inr () then put_row (rows (db r)) j else rows (db r))" using UpsertJob_rows [OF d(1)] by simp
  then have "distinct (map job_ID (rows (db r))) \<longrightarrow> distinct (map job_ID (rows d))" by (simp add: distinct_put_row)
  then show ?thesis unfolding d(2)
    by (rule quiet_db) (use assms(2) l in \<open>auto simp: row_of_def split: if_splits\<close>)
qed

end
