(* ===== verification/Jobs_Safety.thy ===== *)
theory Jobs_Safety
  imports Jobs_Steps
begin

text \<open>
  The safety of the runner: a job is never handled twice at the same time, no kind exceeds its limit,
  and the map by which a job is cancelled knows the runs of every kind that runs one at a time.
\<close>

subsection \<open>Quiet operations\<close>

abbreviation uniq :: "Runner \<Rightarrow> bool" where
  "uniq r \<equiv> distinct (map job_ID (rows (db r)))"

lemma Load_laws:
  assumes "Load r i = (r', res)"
  shows "quiet r r'" "executing r' = executing r" "handlers r' = handlers r" "\<And>k. row_of r' k = row_of r k" "rows (db r') = rows (db r)"
    "\<And>found. res = Inr found \<Longrightarrow> found = map_option recordToJob (row_of r i)"
proof -
  obtain d where d: "GetJob (db r) i = (d, res)" "r' = r\<lparr>db := d\<rparr>"
    using on_db_fields assms by (metis Load_def)
  have rows: "rows d = rows (db r)" using GetJob_rows [OF d(1)] by simp
  show "quiet r r'" using rows by (intro quiet_irrelevant) (simp_all add: d(2))
  show "executing r' = executing r" "handlers r' = handlers r" "\<And>k. row_of r' k = row_of r k" "rows (db r') = rows (db r)"
    using rows by (simp_all add: d(2) row_of_def)
  show "\<And>found. res = Inr found \<Longrightarrow> found = map_option recordToJob (row_of r i)"
    using GetJob_rows [OF d(1)] by (simp add: row_of_def)
qed

lemma LoadByKey_laws:
  assumes "LoadByKey r k key = (r', res)"
  shows "quiet r r'" "executing r' = executing r" "handlers r' = handlers r" "\<And>i. row_of r' i = row_of r i" "rows (db r') = rows (db r)"
    "\<And>j. uniq r \<Longrightarrow> res = Inr (Some j) \<Longrightarrow>
       \<exists>j0. row_of r (job_ID j) = Some j0 \<and> j = recordToJob j0 \<and> job_Kind j = k \<and> UniqueKey j = key"
proof -
  obtain d where d: "GetJobByUniqueKey (db r) k key = (d, res)" "r' = r\<lparr>db := d\<rparr>"
    using on_db_fields assms by (metis LoadByKey_def)
  have rows: "rows d = rows (db r)"
    using d(1) by (auto simp: GetJobByUniqueKey_def statement_eq split: if_splits)
  show "quiet r r'" using rows by (intro quiet_irrelevant) (simp_all add: d(2))
  show "executing r' = executing r" "handlers r' = handlers r" "\<And>i. row_of r' i = row_of r i" "rows (db r') = rows (db r)"
    using rows by (simp_all add: d(2) row_of_def)
  show "\<exists>j0. row_of r (job_ID j) = Some j0 \<and> j = recordToJob j0 \<and> job_Kind j = k \<and> UniqueKey j = key"
    if u: "uniq r" and res: "res = Inr (Some j)" for j
  proof -
    obtain j0 where j0: "find (\<lambda>j. job_Kind j = k \<and> UniqueKey j = key) (rows (db r)) = Some j0" "j = recordToJob j0"
      using d(1) res by (auto simp: GetJobByUniqueKey_def statement_eq split: if_splits)
    then have "j0 \<in> set (rows (db r)) \<and> job_Kind j0 = k \<and> UniqueKey j0 = key" using find_Some_iff_first [OF j0(1)] by simp
    then show ?thesis using find_row_distinct [OF u] j0(2) by (auto simp: row_of_def)
  qed
qed

lemma with_options_fields [simp]:
  "job_ID (with_options opts p j) = job_ID j" "job_Kind (with_options opts p j) = job_Kind j"
  "job_State (with_options opts p j) = job_State j" "ScheduledAt (with_options opts p j) = ScheduledAt j"
  "Attempts (with_options opts p j) = Attempts j" "Requeued (with_options opts p j) = Requeued j"
  by (simp_all add: with_options_def Let_def)

lemma enqueued_job_Some [simp]:
  "job_ID (enqueued_job i k key s now (Some j)) = job_ID j" "job_Kind (enqueued_job i k key s now (Some j)) = job_Kind j"
  "job_State (enqueued_job i k key s now (Some j)) = (if job_State j = StateRunning then StateRunning else StateQueued)"
  by (simp_all add: enqueued_job_def)

lemma enqueued_job_None [simp]: "job_ID (enqueued_job i k key s now None) = i"
  by (simp add: enqueued_job_def)

lemma Enqueue_cases:
  assumes "Enqueue r now new_id k opts = (r', res)"
  obtains (refused) "r' = r" | (unread) r1 e where "LoadByKey r k (eo_UniqueKey opts) = (r1, Inl e)" "r' = r1"
    | (saved) r1 existing payload scheduled r2 ans where
      "(if eo_UniqueKey opts \<noteq> [] then LoadByKey r k (eo_UniqueKey opts) else (r, Inr None)) = (r1, Inr existing)"
      "Save r1 (with_options opts payload (enqueued_job new_id k (eo_UniqueKey opts) scheduled now existing)) = (r2, ans)"
      "r' = r2 \<or> (\<exists>kind i. r' = nudge (notifyWorkChange r2 kind i))"
      "\<And>e. ans = Inl e \<Longrightarrow> r' = r2" "ans = Inr () \<Longrightarrow> wake r'"
proof (cases "disabled r \<or> k = [] \<or> map_of (handlers r) k = None")
  case True
  then show thesis using assms refused by (auto simp: Enqueue_def split: if_splits)
next
  case False
  then obtain entry where h: "map_of (handlers r) k = Some entry" by auto
  show thesis
  proof (cases "h_interval entry > 0 \<and> eo_UniqueKey opts \<noteq> CronKey \<or> (\<exists>e. eo_Payload opts = Inl e)")
    case True
    then show thesis using assms refused False h by (auto simp: Enqueue_def split: if_splits)
  next
    case ok: False
    then obtain payload where p: "eo_Payload opts = Inr payload" by (cases "eo_Payload opts") auto
    let ?s = "if \<not> eo_RunNow opts \<and> eo_Delay opts > 0 then now + eo_Delay opts else now"
    obtain r1 ans1 where l: "(if eo_UniqueKey opts \<noteq> [] then LoadByKey r k (eo_UniqueKey opts) else (r, Inr None)) = (r1, ans1)"
      by force
    show thesis
    proof (cases ans1)
      case (Inl e)
      then have "eo_UniqueKey opts \<noteq> []" using l by (auto split: if_splits)
      moreover have "r' = r1" using assms False h ok p l Inl by (auto simp: Enqueue_def Let_def)
      ultimately show thesis using unread [of r1 e] l Inl by simp
    next
      case (Inr existing)
      let ?j = "with_options opts payload (enqueued_job new_id k (eo_UniqueKey opts) ?s now existing)"
      obtain r2 ans where s: "Save r1 ?j = (r2, ans)" by force
      have "r' = (case ans of Inl _ \<Rightarrow> r2 | Inr _ \<Rightarrow> nudge (notifyWorkChange r2 (job_Kind ?j) (job_ID ?j)))"
        using assms False h ok p l Inr s by (auto simp: Enqueue_def Let_def split: sum.splits)
      then show thesis using saved [OF _ s] l Inr by (auto split: sum.splits)
    qed
  qed
qed

lemma Enqueue_quiet:
  assumes u: "uniq r" and new: "unused_id r new_id" and eq: "Enqueue r now new_id k opts = (r', res)"
  shows "quiet r r'"
  using eq
proof (cases rule: Enqueue_cases)
  case refused
  then show ?thesis by (simp add: quiet_refl)
next
  case (unread r1 e)
  then show ?thesis using LoadByKey_laws(1) by blast
next
  case (saved r1 existing payload scheduled r2 ans)
  have r1: "quiet r r1" "executing r1 = executing r" "\<And>i. row_of r1 i = row_of r i"
    using saved(1) LoadByKey_laws(1,2,4) by (auto split: if_splits simp: quiet_refl)
  have "quiet r1 r2"
  proof (rule Save_quiet [OF saved(2)])
    let ?j = "with_options opts payload (enqueued_job new_id k (eo_UniqueKey opts) scheduled now existing)"
    assume run: "job_ID ?j \<in> run_job ` set (executing r1)"
    show "\<exists>j0. row_of r1 (job_ID ?j) = Some j0 \<and> job_Kind ?j = job_Kind j0 \<and> (job_State j0 = StateRunning \<longrightarrow> job_State ?j = StateRunning)"
    proof (cases existing)
      case None
      then show ?thesis using run new r1(2) by (simp add: unused_id_def)
    next
      case (Some j)
      then have "LoadByKey r k (eo_UniqueKey opts) = (r1, Inr (Some j))" using saved(1) by (auto split: if_splits)
      then obtain j0 where "row_of r (job_ID j) = Some j0" "j = recordToJob j0"
        using LoadByKey_laws(6) [OF _ u] by blast
      then show ?thesis using Some r1(3) by simp
    qed
  qed
  then show ?thesis using saved(3) quiet_trans [OF r1(1)] quiet_nudge quiet_notifyWorkChange by blast
qed

lemma Retry_quiet:
  assumes u: "uniq r" and eq: "Retry r now i = (r', res)"
  shows "quiet r r'"
proof (cases "disabled r")
  case True
  then show ?thesis using eq by (simp add: Retry_def quiet_refl)
next
  case False
  obtain r1 ans where l: "Load r i = (r1, ans)" by force
  note r1 = Load_laws [OF l]
  consider "r' = r1" | j r2 ans2 where "ans = Inr (Some j)" "job_State j \<noteq> StateRunning"
      "Save r1 (j\<lparr>job_State := StateQueued, Attempts := 0, LastError := [], LastDiagnostic := [],
         Requeued := False, ScheduledAt := now, UpdatedAt := now\<rparr>) = (r2, ans2)" "r' = r2 \<or> r' = nudge (notifyChange r2 (job_ID j))"
    using eq False l by (auto simp: Retry_def Let_def split: sum.splits option.splits if_splits prod.splits)
  then show ?thesis
  proof cases
    case 1
    then show ?thesis using r1(1) by simp
  next
    case (2 j r2 ans2)
    then obtain j0 where j0: "row_of r i = Some j0" "j = recordToJob j0" using r1(6) [OF 2(1)] by (metis map_option_eq_Some)
    have i: "job_ID j0 = i" using j0(1) find_row_Some by (auto simp: row_of_def)
    have "quiet r1 r2"
      by (rule Save_quiet [OF 2(3)]) (use j0 i 2(2) r1(4) in auto)
    then show ?thesis using 2(4) quiet_trans [OF r1(1)] quiet_nudge quiet_notifyChange by blast
  qed
qed

lemma UpdatePayload_quiet:
  assumes u: "uniq r" and eq: "UpdatePayload r k key f = (r', res)"
  shows "quiet r r'"
proof -
  obtain r1 ans where l: "LoadByKey r k key = (r1, ans)" by force
  note r1 = LoadByKey_laws [OF l]
  consider "r' = r1" | j v r2 ans2 where "ans = Inr (Some j)" "Save r1 (j\<lparr>Payload := v\<rparr>) = (r2, ans2)"
      "r' = r2 \<or> r' = notifyWorkChange r2 k (job_ID j)"
    using eq l by (auto simp: UpdatePayload_def split: sum.splits option.splits prod.splits)
  then show ?thesis
  proof cases
    case 1
    then show ?thesis using r1(1) by simp
  next
    case (2 j v r2 ans2)
    then obtain j0 where j0: "row_of r (job_ID j) = Some j0" "j = recordToJob j0" using r1(6) [OF u] by blast
    have "quiet r1 r2" by (rule Save_quiet [OF 2(2)]) (use j0 r1(4) in auto)
    then show ?thesis using 2(3) quiet_trans [OF r1(1)] quiet_notifyWorkChange by blast
  qed
qed

lemma quiet_fewer_rows:
  assumes u: "uniq r" and rows: "rows d = filter P (rows (db r))"
  shows "quiet r (r\<lparr>db := d\<rparr>)"
proof (rule quiet_db)
  show "uniq r \<longrightarrow> distinct (map job_ID (rows d))" using rows by (simp add: distinct_map_filter)
  show "\<exists>j. row_of r i = Some j \<and> job_Kind j' = job_Kind j \<and> (job_State j = StateRunning \<longrightarrow> job_State j' = StateRunning)"
    if "find_row (rows d) i = Some j'" for i j'
    using find_row_Some [OF that] rows find_row_distinct [OF u] by (auto simp: row_of_def)
qed

lemma remove_row_quiet: "uniq r \<Longrightarrow> quiet r (remove_row r i)"
proof -
  assume u: "uniq r"
  obtain d ans where d: "DeleteJob (db r) i = (d, ans)" by force
  have "quiet r (r\<lparr>db := d\<rparr>)"
    using DeleteJob_rows [OF d] quiet_fewer_rows [OF u] quiet_irrelevant [of "r\<lparr>db := d\<rparr>" r] by (auto split: if_splits)
  then show ?thesis using d by (auto simp: remove_row_def on_db_def quiet_refl quiet_notifyChange split: sum.splits)
qed

lemma Trim_quiet: "uniq r \<Longrightarrow> quiet r (fst (Trim r now))"
proof -
  assume u: "uniq r"
  obtain d ans where d: "TrimDoneJobs (db r) (now - retention r) = (d, ans)" by force
  have "rows d = rows (db r) \<or> rows d = filter (\<lambda>j. \<not> (job_State j = StateDone \<and> UpdatedAt j < now - retention r)) (rows (db r))"
    using d by (auto simp: TrimDoneJobs_def statement_eq split: if_splits)
  then have "quiet r (r\<lparr>db := d\<rparr>)"
    using quiet_fewer_rows [OF u] quiet_irrelevant [of "r\<lparr>db := d\<rparr>" r] by auto
  then show ?thesis using d by (auto simp: Trim_def on_db_def quiet_refl split: sum.splits)
qed

lemma reads_quiet:
  "quiet r (fst (RemoveByKey_target r k key))" "quiet r (fst (List r))" "quiet r (fst (CronEntry r k))"
proof -
  have l: "quiet r (fst (LoadByKey r k key))" for k key
    using LoadByKey_laws(1) by (cases "LoadByKey r k key") simp
  show "quiet r (fst (RemoveByKey_target r k key))"
    using l [of k key] by (auto simp: RemoveByKey_target_def quiet_refl split: prod.splits sum.splits)
  show "quiet r (fst (CronEntry r k))"
    using l [of k CronKey] by (auto simp: CronEntry_def quiet_refl split: prod.splits sum.splits option.splits)
  obtain d ans where d: "ListJobs (db r) = (d, ans)" by force
  then have "rows d = rows (db r)" by (auto simp: ListJobs_def statement_eq split: if_splits)
  then have "quiet r (r\<lparr>db := d\<rparr>)" by (intro quiet_irrelevant) simp_all
  then show "quiet r (fst (List r))" using d by (auto simp: List_def on_db_def quiet_refl split: sum.splits)
qed

lemma limit_of_Cons: "limit_of ((k, h) # hs) i = (if i = k then Some (h_limit h) else limit_of hs i)"
  by (simp add: limit_of_def)

lemma quiet_handlers: "limits_kept (handlers r) hs \<Longrightarrow> quiet r (r\<lparr>handlers := hs\<rparr>)"
  by (auto simp: quiet_def same_runs_def prof_def rows_kept_def row_of_def)

lemma RegisterWith_quiet: "quiet r (fst (RegisterWith r k cfg))"
proof -
  have "limits_kept (handlers r) ((k, h) # handlers r)" if "map_of (handlers r) k = None" "0 < h_limit h" for h
    using that by (auto simp: limits_kept_def limit_of_Cons) (auto simp: limit_of_def)
  then show ?thesis by (auto simp: RegisterWith_def Let_def quiet_refl intro!: quiet_handlers)
qed

lemma RegisterCron_quiet: "quiet r (fst (RegisterCron r k interval cfg))"
proof -
  have same: "limit_of (map (\<lambda>(kind, entry). (kind, if kind = k then entry\<lparr>h_interval := interval\<rparr> else entry)) hs) i = limit_of hs i"
    for hs i by (induction hs) (auto simp: limit_of_def)
  obtain r1 ans where r1: "RegisterWith r k cfg = (r1, ans)" by force
  have q: "quiet r r1" using RegisterWith_quiet [of r k cfg] r1 by simp
  have "quiet r1 (r1\<lparr>handlers := map (\<lambda>(kind, entry). (kind, if kind = k then entry\<lparr>h_interval := interval\<rparr> else entry)) (handlers r1)\<rparr>)"
    by (rule quiet_handlers) (simp add: limits_kept_def same)
  then show ?thesis using q quiet_trans r1 by (auto simp: RegisterCron_def quiet_refl split: sum.splits)
qed

lemma armCronKind_quiet:
  assumes u: "uniq r" and new: "unused_id r new_id"
  shows "quiet r (armCronKind r now new_id k interval)"
proof -
  obtain r1 ans where l: "(if disabled r then (r, Inr None) else LoadByKey r k CronKey) = (r1, ans)" by force
  have r1: "quiet r r1" "uniq r1" "unused_id r1 new_id"
    using l LoadByKey_laws(1,2,4,5) u new by (auto simp: quiet_refl unused_id_def split: if_splits)
  obtain r2 ans2 where w: "writeCronEntry r now new_id k interval = (r2, ans2)" by force
  have "quiet r r2"
  proof (cases "r2 = r1")
    case False
    then obtain opts ans3 where "Enqueue r1 now new_id k opts = (r2, ans3)"
      using w l by (auto simp: writeCronEntry_def split: sum.splits if_splits prod.splits)
    then show ?thesis using Enqueue_quiet [OF r1(2,3)] quiet_trans [OF r1(1)] by blast
  qed (simp add: r1(1))
  moreover have "quiet r2 (deferCronArm r2 now k interval e)" for e
    by (intro quiet_irrelevant) (simp_all add: deferCronArm_def Let_def)
  moreover have "quiet r2 (r2\<lparr>pendingArms := p\<rparr>)" for p by (intro quiet_irrelevant) simp_all
  ultimately show ?thesis using w quiet_trans by (auto simp: armCronKind_def split: sum.splits)
qed

lemma quiet_cores:
  assumes "\<And>e. core (f e) = core e"
  shows "quiet r (r\<lparr>executing := map f (executing r)\<rparr>)"
proof -
  have "map core (map f (executing r)) = map core (executing r)" using assms by simp
  then show ?thesis by (auto simp: quiet_def same_runs_def prof_def rows_kept_def row_of_def)
qed

lemma guards_quiet:
  "quiet r (fst (Cancel r i))" "quiet r (with_guard tok f r)" "quiet r (time_out tok r)"
proof -
  have f: "core (fence tok e) = core e" for tok e by (simp add: fence_def core_def split: prod.splits bool.splits)
  show "quiet r (fst (Cancel r i))" by (auto simp: Cancel_def quiet_refl f split: option.splits intro!: quiet_cores)
  show "quiet r (time_out tok r)" unfolding time_out_def by (rule quiet_cores) (rule f)
  show "quiet r (with_guard tok f r)" unfolding with_guard_def by (rule quiet_cores) (simp add: core_def)
qed

end
