(* ===== verification/Jobs_Invariant.thy ===== *)
theory Jobs_Invariant
  imports Jobs_Safety
begin

text \<open>
  The invariant of a started runner and that every step keeps it. It has three parts: the handlers at
  work and the table agree (\<open>exclusive\<close>), the counters are exact and within the limits (\<open>bounded\<close>),
  and a kind that runs one job at a time has its runs in the map by which they are cancelled
  (\<open>tracked\<close>).
\<close>

subsection \<open>The invariant\<close>

definition exclusive :: "Runner \<Rightarrow> bool" where
  "exclusive r \<longleftrightarrow>
     uniq r \<and> distinct (map run_token (prof r)) \<and> (\<forall>e \<in> set (prof r). run_token e < next_token r) \<and>
     distinct (map run_job (filter (\<lambda>e. \<not> run_finished e) (prof r))) \<and>
     (\<forall>e \<in> set (prof r). \<forall>j. row_of r (run_job e) = Some j \<longrightarrow>
        job_Kind j = run_kind e \<and> (\<not> run_finished e \<longrightarrow> job_State j = StateRunning))"

definition bounded :: "Runner \<Rightarrow> bool" where
  "bounded r \<longleftrightarrow>
     (\<forall>k. inflight r k = int (length (filter (\<lambda>e. run_kind e = k) (prof r)))) \<and>
     (\<forall>e \<in> set (prof r). \<exists>l. limit_of (handlers r) (run_kind e) = Some l \<and> inflight r (run_kind e) \<le> l)"

definition tracked :: "Runner \<Rightarrow> bool" where
  "tracked r \<longleftrightarrow>
     (\<forall>e \<in> set (prof r). \<forall>e' \<in> set (prof r). run_job e = run_job e' \<longrightarrow> run_kind e = run_kind e') \<and>
     (\<forall>e \<in> set (prof r). limit_of (handlers r) (run_kind e) = Some 1 \<longrightarrow> runs r (run_job e) = Some (run_token e))"

definition run_inv :: "Runner \<Rightarrow> bool" where
  "run_inv r \<longleftrightarrow> exclusive r \<and> bounded r \<and> tracked r"

lemma exclusiveD:
  assumes "exclusive r"
  shows "uniq r" "distinct (map run_token (prof r))" "\<And>e. e \<in> set (prof r) \<Longrightarrow> run_token e < next_token r"
    "distinct (map run_job (filter (\<lambda>e. \<not> run_finished e) (prof r)))"
    "\<And>e j. e \<in> set (prof r) \<Longrightarrow> row_of r (run_job e) = Some j \<Longrightarrow> job_Kind j = run_kind e"
    "\<And>e j. e \<in> set (prof r) \<Longrightarrow> row_of r (run_job e) = Some j \<Longrightarrow> \<not> run_finished e \<Longrightarrow> job_State j = StateRunning"
  using assms unfolding exclusive_def by blast+

lemma boundedD:
  assumes "bounded r"
  shows "inflight r k = int (length (filter (\<lambda>e. run_kind e = k) (prof r)))"
    "e \<in> set (prof r) \<Longrightarrow> \<exists>l. limit_of (handlers r) (run_kind e) = Some l \<and> inflight r (run_kind e) \<le> l"
  using assms unfolding bounded_def by blast+

lemma trackedD:
  assumes "tracked r"
  shows "e \<in> set (prof r) \<Longrightarrow> e' \<in> set (prof r) \<Longrightarrow> run_job e = run_job e' \<Longrightarrow> run_kind e = run_kind e'"
    "e \<in> set (prof r) \<Longrightarrow> limit_of (handlers r) (run_kind e) = Some 1 \<Longrightarrow> runs r (run_job e) = Some (run_token e)"
  using assms unfolding tracked_def by blast+

lemma limits_kept_Some: "limits_kept hs hs' \<Longrightarrow> limit_of hs k = Some l \<Longrightarrow> limit_of hs' k = Some l"
  unfolding limits_kept_def by (metis option.discI)

lemma run_inv_quiet:
  assumes inv: "run_inv r" and q: "quiet r r'"
  shows "run_inv r'"
proof -
  have s: "prof r' = prof r" "runs r' = runs r" "inflight r' = inflight r" "next_token r' = next_token r"
      "limits_kept (handlers r) (handlers r')"
    using q by (simp_all add: quiet_def same_runs_def)
  have x: "exclusive r" "bounded r" "tracked r" using inv by (simp_all add: run_inv_def)
  have k: "uniq r \<longrightarrow> uniq r'" "\<And>i j'. row_of r' i = Some j' \<Longrightarrow> i \<in> run_job ` set (prof r) \<Longrightarrow>
      \<exists>j. row_of r i = Some j \<and> job_Kind j' = job_Kind j \<and> (job_State j = StateRunning \<longrightarrow> job_State j' = StateRunning)"
    using q unfolding quiet_def rows_kept_def prof_jobs by blast+
  have "job_Kind j' = run_kind e \<and> (\<not> run_finished e \<longrightarrow> job_State j' = StateRunning)"
    if e: "e \<in> set (prof r)" and j': "row_of r' (run_job e) = Some j'" for e j'
  proof -
    obtain j where "row_of r (run_job e) = Some j" "job_Kind j' = job_Kind j" "job_State j = StateRunning \<longrightarrow> job_State j' = StateRunning"
      using k(2) [OF j'] e by blast
    then show ?thesis using exclusiveD(5,6) [OF x(1) e] by simp
  qed
  then have "exclusive r'" using exclusiveD(1-4) [OF x(1)] k(1) unfolding exclusive_def s by blast
  moreover have lim: "\<exists>l. limit_of (handlers r) (run_kind e) = Some l \<and> limit_of (handlers r') (run_kind e) = Some l \<and> inflight r (run_kind e) \<le> l"
    if "e \<in> set (prof r)" for e using boundedD(2) [OF x(2) that] limits_kept_Some [OF s(5)] by blast
  moreover have "bounded r'" using boundedD(1) [OF x(2)] lim unfolding bounded_def s by blast
  moreover have "tracked r'"
    using trackedD [OF x(3)] lim unfolding tracked_def s by (metis (no_types, lifting))
  ultimately show ?thesis by (simp add: run_inv_def)
qed

subsection \<open>Launching\<close>

text \<open>A job whose row is not running has no handler at work.\<close>

lemma no_handler:
  assumes "exclusive r" "row_of r i = Some j" "job_State j \<noteq> StateRunning" "e \<in> set (prof r)" "run_job e = i"
  shows "run_finished e"
  using exclusiveD(6) [OF assms(1,4)] assms(2,3,5) by blast

lemma below_one_empty:
  assumes "bounded r" "inflight r k < 1" "e \<in> set (prof r)"
  shows "run_kind e \<noteq> k"
proof
  assume "run_kind e = k"
  then have "e \<in> set (filter (\<lambda>e. run_kind e = k) (prof r))" using assms(3) by simp
  then have "length (filter (\<lambda>e. run_kind e = k) (prof r)) > 0" by (rule length_pos_if_in_set)
  then show False using boundedD(1) [OF assms(1), of k] assms(2) by linarith
qed

lemma launch_inv:
  assumes inv: "run_inv r" and row: "row_of r i = Some j0" "job_State j0 \<noteq> StateRunning" "job_Kind j0 = k"
    and lim: "limit_of (handlers r) k = Some l" "inflight r k < l"
    and r': "prof r' = prof r @ [e]" "run_token e = next_token r" "run_job e = i" "run_kind e = k" "\<not> run_finished e"
      "runs r' = (runs r)(i \<mapsto> next_token r)" "inflight r' = (inflight r)(k := inflight r k + 1)"
      "next_token r' = next_token r + 1" "handlers r' = handlers r"
    and rows: "uniq r'" "\<And>x. row_of r' x = (if x = i then Some j1 else row_of r x)" "job_Kind j1 = k" "job_State j1 = StateRunning"
  shows "run_inv r'"
proof -
  have x: "exclusive r" "bounded r" "tracked r" using inv by (simp_all add: run_inv_def)
  have done_before: "run_finished e'" if "e' \<in> set (prof r)" "run_job e' = i" for e'
    using no_handler [OF x(1) row(1,2) that] .
  have kinds: "run_kind e' = k" if "e' \<in> set (prof r)" "run_job e' = i" for e'
    using exclusiveD(5) [OF x(1) that(1)] that(2) row(1,3) by simp
  have "exclusive r'"
    unfolding exclusive_def r'(1)
  proof (intro conjI)
    show "uniq r'" by (rule rows(1))
    show "distinct (map run_token (prof r @ [e]))"
      using exclusiveD(2,3) [OF x(1)] r'(2) by fastforce
    show "\<forall>e' \<in> set (prof r @ [e]). run_token e' < next_token r'"
      using exclusiveD(3) [OF x(1)] r'(2,8) by fastforce
    show "distinct (map run_job (filter (\<lambda>e. \<not> run_finished e) (prof r @ [e])))"
      using exclusiveD(4) [OF x(1)] done_before r'(3,5) by auto
    show "\<forall>e' \<in> set (prof r @ [e]). \<forall>j. row_of r' (run_job e') = Some j \<longrightarrow>
        job_Kind j = run_kind e' \<and> (\<not> run_finished e' \<longrightarrow> job_State j = StateRunning)"
      using exclusiveD(5,6) [OF x(1)] rows(2-4) kinds r'(3,4) by (auto split: if_splits)
  qed
  moreover have "bounded r'"
    unfolding bounded_def r'(1)
  proof (intro conjI)
    show "\<forall>k'. inflight r' k' = int (length (filter (\<lambda>e. run_kind e = k') (prof r @ [e])))"
      using boundedD(1) [OF x(2)] r'(4,7) by simp
    show "\<forall>e' \<in> set (prof r @ [e]). \<exists>l. limit_of (handlers r') (run_kind e') = Some l \<and> inflight r' (run_kind e') \<le> l"
    proof
      fix e' assume e': "e' \<in> set (prof r @ [e])"
      show "\<exists>l. limit_of (handlers r') (run_kind e') = Some l \<and> inflight r' (run_kind e') \<le> l"
      proof (cases "run_kind e' = k")
        case True
        then show ?thesis using lim unfolding r'(7,9) by simp
      next
        case False
        then have "e' \<in> set (prof r)" using e' r'(4) by auto
        then show ?thesis using boundedD(2) [OF x(2)] False unfolding r'(7,9) by simp
      qed
    qed
  qed
  moreover have "tracked r'"
    unfolding tracked_def r'(1)
  proof (intro conjI ballI impI)
    fix a b assume ab: "a \<in> set (prof r @ [e])" "b \<in> set (prof r @ [e])" "run_job a = run_job b"
    have "c = e \<or> c \<in> set (prof r)" if "c \<in> set (prof r @ [e])" for c using that by simp
    then consider "a = e" "b = e" | "a = e" "b \<in> set (prof r)" | "a \<in> set (prof r)" "b = e" | "a \<in> set (prof r)" "b \<in> set (prof r)"
      using ab(1,2) by blast
    then show "run_kind a = run_kind b"
    proof cases
      case 4
      then show ?thesis using trackedD(1) [OF x(3)] ab(3) by blast
    qed (use kinds r'(3,4) ab(3) in metis)+
  next
    fix a assume a: "a \<in> set (prof r @ [e])" "limit_of (handlers r') (run_kind a) = Some 1"
    show "runs r' (run_job a) = Some (run_token a)"
    proof (cases "a \<in> set (prof r) \<and> run_job a = i")
      case True
      then have k: "run_kind a = k" using kinds by blast
      then have "l = 1" using a(2) lim(1) r'(9) by simp
      then have "run_kind a \<noteq> k" using below_one_empty [OF x(2)] lim(2) True by blast
      then show ?thesis using k by blast
    next
      case other: False
      show ?thesis
      proof (cases "a = e")
        case True
        then show ?thesis using r'(2,3,6) by simp
      next
        case False
        then have "a \<in> set (prof r)" using a(1) by simp
        then have "runs r (run_job a) = Some (run_token a)" "run_job a \<noteq> i"
          using trackedD(2) [OF x(3)] a(2) other unfolding r'(9) by blast+
        then show ?thesis using r'(6) by simp
      qed
    qed
  qed
  ultimately show ?thesis by (simp add: run_inv_def)
qed

text \<open>A launch whose save failed forgets the run it had noted.\<close>

lemma unlaunch_inv:
  assumes inv: "run_inv r" and row: "row_of r i = Some j0" "job_Kind j0 = k"
    and lim: "limit_of (handlers r) k = Some l" "inflight r k < l"
    and r': "prof r' = prof r" "runs r' = (runs r)(i := None)" "inflight r' = inflight r"
      "next_token r' = next_token r + 1" "handlers r' = handlers r" "rows (db r') = rows (db r)"
  shows "run_inv r'"
proof -
  have x: "exclusive r" "bounded r" "tracked r" using inv by (simp_all add: run_inv_def)
  have "exclusive r'" using x(1) r'(1,4,6) by (fastforce simp: exclusive_def row_of_def)
  moreover have "bounded r'" using x(2) unfolding bounded_def r'(1,3,5) .
  moreover have "runs r (run_job e) = Some (run_token e) \<and> run_job e \<noteq> i"
    if e: "e \<in> set (prof r)" and one: "limit_of (handlers r) (run_kind e) = Some 1" for e
  proof -
    have "run_job e \<noteq> i"
    proof
      assume "run_job e = i"
      then have k: "run_kind e = k" using exclusiveD(5) [OF x(1) e] row by simp
      then have "l = 1" using one lim(1) by simp
      then show False using below_one_empty [OF x(2) _ e, of k] lim(2) k by simp
    qed
    then show ?thesis using trackedD(2) [OF x(3) e one] by simp
  qed
  then have "runs r' (run_job e) = Some (run_token e)"
    if "e \<in> set (prof r)" "limit_of (handlers r) (run_kind e) = Some 1" for e using that r'(2) by simp
  then have "tracked r'" using trackedD(1) [OF x(3)] unfolding tracked_def r'(1,5) by blast
  ultimately show ?thesis by (simp add: run_inv_def)
qed

subsection \<open>A dispatch pass\<close>

lemma Save_laws:
  assumes "Save r j = (r', res)"
  obtains d where "r' = r\<lparr>db := d\<rparr>" "uniq r \<longrightarrow> uniq r'" "res \<noteq> Inr () \<longrightarrow> rows d = rows (db r)"
    "\<And>i. row_of r' i = (if res = Inr () \<and> i = job_ID j then Some j else row_of r i)"
proof -
  obtain d where d: "UpsertJob (db r) j = (d, res)" "r' = r\<lparr>db := d\<rparr>"
    using on_db_fields assms by (metis Save_def)
  have rows: "rows d = (if res = Inr () then put_row (rows (db r)) j else rows (db r))" using UpsertJob_rows [OF d(1)] by simp
  show ?thesis
  proof (rule that [of d])
    show "uniq r \<longrightarrow> uniq r'" using rows d(2) by (simp add: distinct_put_row)
    show "row_of r' i = (if res = Inr () \<and> i = job_ID j then Some j else row_of r i)" for i
      using job_rows.save_lookup [OF d(1)] d(2) by (simp add: row_of_def)
  qed (use d rows in simp_all)
qed

text \<open>The jobs a pass has still to look at are rows that do not run, each once.\<close>

definition waiting :: "Runner \<Rightarrow> Job list \<Rightarrow> bool" where
  "waiting r js \<longleftrightarrow> distinct (map job_ID js) \<and>
     (\<forall>j \<in> set js. \<exists>j0. row_of r (job_ID j) = Some j0 \<and> job_State j0 \<noteq> StateRunning \<and> job_Kind j0 = job_Kind j)"

lemma waiting_other_row:
  assumes "waiting r (j # js)" "\<And>i. row_of r' i = (if c \<and> i = job_ID j then x else row_of r i)"
  shows "waiting r' js"
proof -
  have "job_ID j \<notin> job_ID ` set js" using assms(1) by (simp add: waiting_def)
  then have "job_ID j' \<noteq> job_ID j" if "j' \<in> set js" for j' using that by (metis imageI)
  then show ?thesis using assms by (simp add: waiting_def)
qed

lemma waiting_tl: "waiting r (j # js) \<Longrightarrow> waiting r js"
  by (simp add: waiting_def)

lemma waitingD:
  assumes "waiting r (j # js)"
  obtains j0 where "row_of r (job_ID j) = Some j0" "job_State j0 \<noteq> StateRunning" "job_Kind j0 = job_Kind j"
  using assms by (auto simp: waiting_def)

lemma row_of_update [simp]: "row_of (r\<lparr>inflight := f, runs := g, next_token := n\<rparr>) i = row_of r i"
  by (simp add: row_of_def)

lemma dispatch_one_inv:
  assumes inv: "run_inv (pass_runner p)" and w: "waiting (pass_runner p) (j # js)"
  shows "run_inv (pass_runner (dispatch_one now p j)) \<and> waiting (pass_runner (dispatch_one now p j)) js"
proof -
  define r where "r = pass_runner p"
  have inv: "run_inv r" and w: "waiting r (j # js)" using inv w by (simp_all add: r_def)
  note same = conjI [OF inv waiting_tl [OF w], unfolded r_def]
  obtain j0 where j0: "row_of r (job_ID j) = Some j0" "job_State j0 \<noteq> StateRunning" "job_Kind j0 = job_Kind j"
    using waitingD [OF w] .
  have uniq: "uniq r" using inv exclusiveD(1) by (simp add: run_inv_def)
  show ?thesis
  proof (cases "runnable r j")
    case False
    then show ?thesis using same by (simp add: dispatch_one_def r_def)
  next
    case runnable: True
    show ?thesis
    proof (cases "map_of (handlers r) (job_Kind j)")
      case None
      define dead where "dead = dead_job now j (unknown_kind_error (job_Kind j))"
      obtain r1 res where s: "Save r dead = (r1, res)" by fastforce
      have dead: "job_ID dead = job_ID j" "job_Kind dead = job_Kind j" by (simp_all add: dead_def dead_job_def)
      have "quiet r r1" by (rule Save_quiet [OF s]) (use j0 dead in simp)
      moreover obtain d where "\<And>i. row_of r1 i = (if res = Inr () \<and> i = job_ID j then Some dead else row_of r i)"
        using Save_laws [OF s] dead(1) by metis
      moreover have "pass_runner (dispatch_one now p j) = r1"
        using runnable None s by (simp add: dispatch_one_def recordPermanentFailureLocked_def Let_def r_def dead_def)
      ultimately show ?thesis using run_inv_quiet [OF inv] waiting_other_row [OF w] by metis
    next
      case (Some h)
      show ?thesis
      proof (cases "inflight r (job_Kind j) \<ge> h_limit h")
        case True
        then show ?thesis using same Some runnable by (simp add: dispatch_one_def Let_def r_def)
      next
        case False
        define r1 where "r1 = note_run r j"
        define j1 where "j1 = launched_job now j"
        define e where "e = new_run r j"
        obtain r2 res where s: "Save r1 j1 = (r2, res)" by fastforce
        define q where "q = (case res of Inl _ \<Rightarrow> release r2 (job_ID j) (job_Kind j) | Inr _ \<Rightarrow> r2\<lparr>executing := executing r2 @ [e]\<rparr>)"
        have q: "pass_runner (dispatch_one now p j) = q"
          using runnable Some False s unfolding dispatch_one_def Let_def r_def [symmetric] r1_def [symmetric] j1_def [symmetric]
          by (simp add: q_def e_def split: sum.splits)
        note defs = r1_def note_run_def j1_def launched_job_def e_def new_run_def
        obtain d where d: "r2 = r1\<lparr>db := d\<rparr>" "uniq r1 \<longrightarrow> uniq r2" "res \<noteq> Inr () \<longrightarrow> rows d = rows (db r1)"
            and look: "\<And>i. row_of r2 i = (if res = Inr () \<and> i = job_ID j1 then Some j1 else row_of r1 i)"
          using Save_laws [OF s] by metis
        have look': "row_of q i = (if res = Inr () \<and> i = job_ID j then Some j1 else row_of r i)" for i
        proof -
          have "row_of q i = row_of r2 i" by (simp add: q_def row_of_def release_def split: sum.splits)
          moreover have "row_of r1 i = row_of r i" "job_ID j1 = job_ID j" by (simp_all add: defs)
          ultimately show ?thesis using look [of i] by simp
        qed
        have lim: "limit_of (handlers r) (job_Kind j) = Some (h_limit h)" "inflight r (job_Kind j) < h_limit h"
          using Some False by (simp_all add: limit_of_def)
        have "run_inv q"
        proof (cases res)
          case (Inl a)
          have rows: "rows (db q) = rows (db r)" using d(1,3) Inl by (simp add: q_def release_def defs)
          show ?thesis
            by (rule unlaunch_inv [OF inv j0(1,3) lim _ _ _ _ _ rows]) (simp_all add: q_def Inl release_def d(1) defs prof_def)
        next
          case (Inr u)
          have u: "uniq q" using d(1,2) uniq Inr by (simp add: q_def defs)
          have l: "row_of q x = (if x = job_ID j then Some j1 else row_of r x)" for x using look' [of x] Inr by simp
          have pr: "prof q = prof r @ [e]" "runs q = (runs r)(job_ID j \<mapsto> next_token r)" "next_token q = next_token r + 1"
              "inflight q = (inflight r)(job_Kind j := inflight r (job_Kind j) + 1)" "handlers q = handlers r"
            by (simp_all add: q_def Inr d(1) defs prof_def core_def)
          show ?thesis
            by (rule launch_inv [OF inv j0 lim pr(1) _ _ _ _ pr(2,4,3,5) u l]) (simp_all add: defs)
        qed
        then show ?thesis using waiting_other_row [OF w look'] q by simp
      qed
    qed
  qed
qed

text \<open>The rows a pass starts with, and what it tells at its end.\<close>

lemma EligibleJobs_waiting:
  assumes "uniq r" "on_db r (\<lambda>d. EligibleJobs d now n) = (r1, Inr js)"
  shows "waiting r1 js"
proof -
  have rows: "rows (db r1) = rows (db r)" and
    js: "\<exists>d. js = map recordToJob (take n (SliceStable claim_less (filter (\<lambda>j. claimable d j \<and> ScheduledAt j \<le> now) (rows (db r)))))"
    using assms(2) by (auto simp: on_db_def EligibleJobs_def statement_eq split: if_splits prod.splits)
  obtain d where d: "js = map recordToJob (take n (SliceStable claim_less (filter (\<lambda>j. claimable d j \<and> ScheduledAt j \<le> now) (rows (db r)))))"
    using js by blast
  define P where "P = (\<lambda>j. claimable d j \<and> ScheduledAt j \<le> now)"
  have P: "js = map recordToJob (take n (SliceStable claim_less (filter P (rows (db r)))))"
      "\<And>j. P j \<Longrightarrow> job_State j \<noteq> StateRunning"
    using d by (auto simp: P_def claimable_def)
  have "distinct (map job_ID (filter P (rows (db r))))" using assms(1) by (simp add: distinct_map_filter)
  then have "distinct (map job_ID (SliceStable claim_less (filter P (rows (db r)))))"
    using mset_eq_imp_distinct_iff by (metis mset_SliceStable mset_map)
  then have "distinct (map job_ID js)" by (simp add: P(1) comp_def take_map [symmetric])
  moreover have "\<exists>j0. row_of r1 (job_ID j) = Some j0 \<and> job_State j0 \<noteq> StateRunning \<and> job_Kind j0 = job_Kind j"
    if "j \<in> set js" for j
  proof -
    obtain j0 where "j0 \<in> set (take n (SliceStable claim_less (filter P (rows (db r)))))" and j: "j = recordToJob j0"
      using \<open>j \<in> set js\<close> unfolding P(1) by auto
    from in_set_takeD [OF this(1)] have "j0 \<in> set (rows (db r))" "P j0" by simp_all
    with j show ?thesis using find_row_distinct [OF assms(1)] P(2) by (simp add: row_of_def rows)
  qed
  ultimately show ?thesis by (simp add: waiting_def)
qed

lemma fold_quiet: "(\<And>x r. quiet r (f x r)) \<Longrightarrow> quiet r (fold f xs r)"
  by (induction xs arbitrary: r) (auto intro: quiet_refl quiet_trans)

lemma EligibleJobs_rows: "on_db r (\<lambda>d. EligibleJobs d now n) = (r1, res) \<Longrightarrow> quiet r r1"
  by (rule quiet_irrelevant)
    (auto simp: on_db_def EligibleJobs_def statement_eq split: if_splits prod.splits)

lemma NextScheduledJob_rows: "on_db r NextScheduledJob = (r1, res) \<Longrightarrow> quiet r r1"
  by (rule quiet_irrelevant)
    (auto simp: on_db_def NextScheduledJob_def statement_eq split: if_splits prod.splits)

lemma pass_told_quiet: "quiet (pass_runner p) (pass_told p)"
proof -
  have n: "quiet s (notifyChange s i)" "quiet s (notifyWorkChange s k i)" "quiet s (notifyTerminalFailure s j)" for s i k j
    by (simp_all add: quiet_refl quiet_notifyChange quiet_notifyWorkChange quiet_tell notifyTerminalFailure_def)
  show ?thesis unfolding pass_told_def Let_def
    by (rule quiet_trans [OF quiet_trans]; rule fold_quiet; rule n)
qed

lemma read_next_quiet: "quiet r (read_next r)"
proof -
  obtain r1 res where n: "on_db r NextScheduledJob = (r1, res)" by fastforce
  have "quiet r1 (r1\<lparr>nextDue := t\<rparr>)" for t by (rule quiet_irrelevant) simp_all
  then have "quiet r (r1\<lparr>nextDue := t\<rparr>)" for t using quiet_trans NextScheduledJob_rows [OF n] by blast
  then show ?thesis using n by (simp add: read_next_def split: sum.splits option.splits)
qed

end
