(* ===== verification/Jobs_Laws.thy ===== *)
theory Jobs_Laws
  imports Jobs_Invariant
begin

text \<open>
  What holds of the runner in every state it can reach: the ends of runs keep the invariant, so all
  steps do, and the theorems about concurrency and cancelling follow.
\<close>

subsection \<open>The end of a run\<close>

text \<open>\<open>finish\<close> writes the row of its own job at most, and keeps that job's kind.\<close>

definition touches_only :: "string \<Rightarrow> Runner \<Rightarrow> Runner \<Rightarrow> bool" where
  "touches_only i r r' \<longleftrightarrow>
     executing r' = executing r \<and> runs r' = runs r \<and> inflight r' = inflight r \<and> next_token r' = next_token r \<and>
     handlers r' = handlers r \<and> (uniq r \<longrightarrow> uniq r') \<and>
     (\<forall>x j'. row_of r' x = Some j' \<longrightarrow> row_of r x = Some j' \<or> x = i \<and> (\<exists>j. row_of r i = Some j \<and> job_Kind j' = job_Kind j))"

lemma touches_only_told:
  assumes "touches_only i r r1"
  shows "touches_only i r (finish_told r1 i cur dead again)"
proof -
  have "executing r2 = executing r1 \<and> runs r2 = runs r1 \<and> inflight r2 = inflight r1 \<and> next_token r2 = next_token r1 \<and>
      handlers r2 = handlers r1 \<and> db r2 = db r1" if "r2 = finish_told r1 i cur dead again" for r2
    using that by (simp add: finish_told_def Let_def notifyChange_def notifyTerminalFailure_def)
  then show ?thesis using assms by (simp add: touches_only_def row_of_def)
qed

lemma Load_db:
  assumes "Load r i = (r1, res)"
  shows "executing r1 = executing r" "runs r1 = runs r" "inflight r1 = inflight r" "next_token r1 = next_token r" "handlers r1 = handlers r"
  using assms by (auto simp: Load_def on_db_def split: prod.splits)

lemma touches_only_Save:
  assumes l: "Load r i = (r1, Inr (Some cur))" and s: "Save r1 j = (r2, res)" and j: "job_ID j = i" "job_Kind j = job_Kind cur"
  shows "touches_only i r r2"
proof -
  obtain d where d: "r2 = r1\<lparr>db := d\<rparr>" "uniq r1 \<longrightarrow> uniq r2"
      and look: "\<And>x. row_of r2 x = (if res = Inr () \<and> x = i then Some j else row_of r1 x)"
    using Save_laws [OF s] j(1) by metis
  obtain j0 where "row_of r i = Some j0" "job_Kind j0 = job_Kind cur" 
    using Load_laws(6) [OF l HOL.refl] by (cases "row_of r i") auto
  then show ?thesis
    using d look Load_laws(4,5) [OF l] Load_db [OF l] j(2) by (auto simp: touches_only_def)
qed

lemma touches_only_quiet:
  assumes "executing r' = executing r" "runs r' = runs r" "inflight r' = inflight r" "next_token r' = next_token r"
    "handlers r' = handlers r" "rows (db r') = rows (db r)"
  shows "touches_only i r r'"
  using assms by (simp add: touches_only_def row_of_def)

lemma outcome_fields [simp]:
  "job_ID (rearmed_job now j t err) = job_ID j" "job_Kind (rearmed_job now j t err) = job_Kind j"
  "job_ID (requeued_job now j e) = job_ID j" "job_Kind (requeued_job now j e) = job_Kind j"
  "job_ID (succeeded_job now j res) = job_ID j" "job_Kind (succeeded_job now j res) = job_Kind j"
  "job_ID (fst (failed_job r now j e)) = job_ID j" "job_Kind (fst (failed_job r now j e)) = job_Kind j"
  by (simp_all add: rearmed_job_def requeued_job_def succeeded_job_def failed_job_def Let_def split: option.splits)

lemma finish_touches:
  assumes "uniq r"
  shows "touches_only i r (finish r now i result err)"
proof -
  obtain r1 ans where l: "Load r i = (r1, ans)" by fastforce
  show ?thesis
  proof (cases "\<exists>cur. ans = Inr (Some cur)")
    case False
    have "touches_only i r r1" by (rule touches_only_quiet) (use Load_db [OF l] Load_laws(5) [OF l] in simp_all)
    then show ?thesis using l False by (auto simp: finish_def split: sum.splits option.splits)
  next
    case True
    then obtain cur where l: "Load r i = (r1, Inr (Some cur))" using l by blast
    obtain j0 where j0: "row_of r i = Some j0" "cur = recordToJob j0"
      using Load_laws(6) [OF l HOL.refl] by (cases "row_of r i") auto
    then have i: "job_ID cur = i" using find_row_Some by (fastforce simp: row_of_def)
    have t: "touches_only i r (fst (Save r1 j))" if "job_ID j = i" "job_Kind j = job_Kind cur" for j
      using touches_only_Save [OF l _ that, of "fst (Save r1 j)" "snd (Save r1 j)"] by simp
    show ?thesis
    proof (cases "cronInterval r (job_Kind cur) > 0")
      case True
      then show ?thesis using l t i by (simp add: finish_def rearmCronLocked_def)
    next
      case notcron: False
      show ?thesis
      proof (cases err)
        case None
        then show ?thesis using l notcron t [of "succeeded_job now cur result"] i
          by (auto simp: finish_def split: sum.splits prod.splits intro: touches_only_told)
      next
        case (Some e)
        then show ?thesis
          using l notcron t [of "requeued_job now cur e"] t [of "fst (failed_job r1 now cur e)"] i
          by (auto simp: finish_def recordFailureLocked_def split: sum.splits prod.splits intro: touches_only_told)
      qed
    qed
  qed
qed

subsection \<open>The runs that end\<close>

definition mark :: "nat \<Rightarrow> activeRun \<Rightarrow> activeRun" where
  "mark tok e = (if run_token e = tok then e\<lparr>run_finished := True\<rparr> else e)"

lemma mark_fields [simp]:
  "run_token (mark tok e) = run_token e" "run_job (mark tok e) = run_job e" "run_kind (mark tok e) = run_kind e"
  "run_finished (mark tok e) \<longleftrightarrow> run_finished e \<or> run_token e = tok" "core (mark tok e) = mark tok (core e)"
  by (simp_all add: mark_def core_def)

lemma token_unique: "distinct (map run_token es) \<Longrightarrow> a \<in> set es \<Longrightarrow> b \<in> set es \<Longrightarrow> run_token a = run_token b \<Longrightarrow> a = b"
  by (metis distinct_map inj_onD)

lemma finish_run_inv:
  assumes inv: "run_inv r" and run: "run \<in> set (executing r)" "\<not> run_finished run"
  shows "run_inv (finish_run r now run result err)"
proof -
  have x: "exclusive r" "bounded r" "tracked r" using inv by (simp_all add: run_inv_def)
  define r1 where "r1 = finish r now (run_job run) (if err = None then result else []) err"
  define r' where "r' = finish_run r now run result err"
  have t: "touches_only (run_job run) r r1" unfolding r1_def by (rule finish_touches [OF exclusiveD(1) [OF x(1)]])
  have r': "r' = r1\<lparr>executing := map (mark (run_token run)) (executing r1)\<rparr>"
    by (simp add: r'_def r1_def finish_run_def Let_def mark_def)
  have p: "prof r' = map (mark (run_token run)) (prof r)" using t by (simp add: r' prof_def touches_only_def)
  have s: "runs r' = runs r" "inflight r' = inflight r" "next_token r' = next_token r" "handlers r' = handlers r" "uniq r'"
    using t exclusiveD(1) [OF x(1)] by (simp_all add: r' touches_only_def)
  have rows: "row_of r x = Some j' \<or> x = run_job run \<and> (\<exists>j. row_of r x = Some j \<and> job_Kind j' = job_Kind j)"
    if "row_of r' x = Some j'" for x j' using t that unfolding touches_only_def r' by (auto simp: row_of_def)
  have ran: "core run \<in> set (prof r)" using run(1) by (simp add: prof_def)
  have alone: "run_finished e \<or> run_token e = run_token run" if e: "e \<in> set (prof r)" "run_job e = run_job run" for e
  proof (rule ccontr)
    assume no: "\<not> ?thesis"
    let ?live = "filter (\<lambda>e. \<not> run_finished e) (prof r)"
    have "e \<in> set ?live" "core run \<in> set ?live" using e no ran run(2) by simp_all
    then have "e = core run" using exclusiveD(4) [OF x(1)] e(2) by (metis core_fields(2) distinct_map inj_onD)
    then show False using no by simp
  qed
  have kept: "job_Kind j' = run_kind e \<and> (\<not> run_finished e \<longrightarrow> run_token e \<noteq> run_token run \<longrightarrow> job_State j' = StateRunning)"
    if e: "e \<in> set (prof r)" and j': "row_of r' (run_job e) = Some j'" for e j'
    using rows [OF j']
  proof
    assume "row_of r (run_job e) = Some j'"
    then show ?thesis using exclusiveD(5,6) [OF x(1) e] by simp
  next
    assume "run_job e = run_job run \<and> (\<exists>j. row_of r (run_job e) = Some j \<and> job_Kind j' = job_Kind j)"
    then show ?thesis using exclusiveD(5) [OF x(1) e] alone [OF e] by auto
  qed
  have "exclusive r'"
    unfolding exclusive_def p s(3)
  proof (intro conjI)
    show "distinct (map run_job (filter (\<lambda>e. \<not> run_finished e) (map (mark (run_token run)) (prof r))))"
      using distinct_sub [OF exclusiveD(4) [OF x(1)], of "\<lambda>e. \<not> run_finished e \<and> run_token e \<noteq> run_token run"]
      by (simp add: filter_map comp_def)
    show "\<forall>e \<in> set (map (mark (run_token run)) (prof r)). run_token e < next_token r"
      using exclusiveD(3) [OF x(1)] by simp
    show "\<forall>e \<in> set (map (mark (run_token run)) (prof r)). \<forall>j. row_of r' (run_job e) = Some j \<longrightarrow>
        job_Kind j = run_kind e \<and> (\<not> run_finished e \<longrightarrow> job_State j = StateRunning)"
      using kept by simp
  qed (use s(5) exclusiveD(2) [OF x(1)] in \<open>simp_all add: comp_def\<close>)
  moreover have "bounded r'"
    using boundedD [OF x(2)] unfolding bounded_def p s by (simp add: filter_map comp_def)
  moreover have "tracked r'"
  proof -
    have "tracked r' = tracked r" unfolding tracked_def p s by simp
    then show ?thesis using x(3) by simp
  qed
  ultimately show ?thesis by (simp add: run_inv_def r'_def)
qed

text \<open>The cleanup of a run: its slot is free again, and the other runs keep theirs.\<close>

lemma length_without_token:
  assumes "distinct (map run_token es)" "e \<in> set es"
  shows "length (filter (\<lambda>x. run_kind x = k) es) =
    length (filter (\<lambda>x. run_kind x = k) (filter (\<lambda>x. run_token x \<noteq> run_token e) es)) + (if run_kind e = k then 1 else 0)"
  using assms
proof (induction es)
  case (Cons x es)
  show ?case
  proof (cases "x = e")
    case True
    then have "filter (\<lambda>x. run_token x \<noteq> run_token e) es = es" 
      using Cons.prems(1) unfolding filter_id_conv by (metis distinct.simps(2) imageI list.set_map list.simps(9))
    then show ?thesis using True by simp
  next
    case False
    then have "e \<in> set es" using Cons.prems(2) by simp
    moreover have "run_token x \<noteq> run_token e" using Cons.prems False token_unique by (metis list.set_intros(1))
    ultimately show ?thesis using Cons by simp
  qed
qed simp

lemma two_of_kind:
  assumes "distinct (map run_token es)" "a \<in> set es" "b \<in> set es" "run_token a \<noteq> run_token b" "run_kind a = k" "run_kind b = k"
  shows "2 \<le> length (filter (\<lambda>e. run_kind e = k) es)"
proof -
  have "b \<in> set (filter (\<lambda>x. run_kind x = k) (filter (\<lambda>x. run_token x \<noteq> run_token a) es))" using assms(3-6) by simp
  then have "0 < length (filter (\<lambda>x. run_kind x = k) (filter (\<lambda>x. run_token x \<noteq> run_token a) es))" by (rule length_pos_if_in_set)
  then show ?thesis unfolding length_without_token [OF assms(1,2), of k] if_P [OF assms(5)] by linarith
qed

lemma end_run_inv:
  assumes inv: "run_inv r" and run: "run \<in> set (executing r)"
  shows "run_inv (end_run r run)"
proof -
  have x: "exclusive r" "bounded r" "tracked r" using inv by (simp_all add: run_inv_def)
  define r' where "r' = end_run r run"
  have ran: "core run \<in> set (prof r)" using run by (simp add: prof_def)
  have p: "prof r' = filter (\<lambda>e. run_token e \<noteq> run_token run) (prof r)"
    by (simp add: r'_def end_run_def prof_def filter_map comp_def)
  have s: "runs r' = (runs r)(run_job run := None)" "next_token r' = next_token r" "handlers r' = handlers r" "rows (db r') = rows (db r)"
      "inflight r' = (inflight r)(run_kind run := inflight r (run_kind run) - 1)"
    by (simp_all add: r'_def end_run_def release_def)
  note count = length_without_token [OF exclusiveD(2) [OF x(1)] ran]
  have "exclusive r'"
    unfolding exclusive_def p s(2)
  proof (intro conjI)
    show "uniq r'" using exclusiveD(1) [OF x(1)] s(4) by simp
    show "distinct (map run_token (filter (\<lambda>e. run_token e \<noteq> run_token run) (prof r)))"
      using exclusiveD(2) [OF x(1)] by (simp add: distinct_map_filter)
    show "distinct (map run_job (filter (\<lambda>e. \<not> run_finished e) (filter (\<lambda>e. run_token e \<noteq> run_token run) (prof r))))"
      unfolding filter_filter by (rule distinct_sub [OF exclusiveD(4) [OF x(1)]]) simp
    have row: "row_of r' i = row_of r i" for i by (simp add: row_of_def s(4))
    show "\<forall>e \<in> set (filter (\<lambda>e. run_token e \<noteq> run_token run) (prof r)). \<forall>j. row_of r' (run_job e) = Some j \<longrightarrow>
        job_Kind j = run_kind e \<and> (\<not> run_finished e \<longrightarrow> job_State j = StateRunning)"
      unfolding row
    proof (intro ballI allI impI)
      fix e j assume "e \<in> set (filter (\<lambda>e. run_token e \<noteq> run_token run) (prof r))" and j: "row_of r (run_job e) = Some j"
      then have "e \<in> set (prof r)" by simp
      then show "job_Kind j = run_kind e \<and> (\<not> run_finished e \<longrightarrow> job_State j = StateRunning)"
        using exclusiveD(5,6) [OF x(1) _ j] by blast
    qed
  qed (use exclusiveD(3) [OF x(1)] in simp)
  moreover have "bounded r'"
    unfolding bounded_def p
  proof (intro conjI)
    show "\<forall>k. inflight r' k = int (length (filter (\<lambda>e. run_kind e = k) (filter (\<lambda>e. run_token e \<noteq> run_token run) (prof r))))"
      using boundedD(1) [OF x(2)] count unfolding s(5) by simp
    have "inflight r' k \<le> inflight r k" for k unfolding s(5) by simp
    then show "\<forall>e \<in> set (filter (\<lambda>e. run_token e \<noteq> run_token run) (prof r)).
        \<exists>l. limit_of (handlers r') (run_kind e) = Some l \<and> inflight r' (run_kind e) \<le> l"
      using boundedD(2) [OF x(2)] unfolding s(3) by (metis (no_types, lifting) filter_is_subset order_trans subsetD)
  qed
  moreover have "tracked r'"
    unfolding tracked_def p s(3)
  proof (intro conjI ballI impI)
    fix e e' assume "e \<in> set (filter (\<lambda>e. run_token e \<noteq> run_token run) (prof r))"
      "e' \<in> set (filter (\<lambda>e. run_token e \<noteq> run_token run) (prof r))" "run_job e = run_job e'"
    then show "run_kind e = run_kind e'" using trackedD(1) [OF x(3), of e e'] by simp
  next
    fix e assume "e \<in> set (filter (\<lambda>e. run_token e \<noteq> run_token run) (prof r))" and one: "limit_of (handlers r) (run_kind e) = Some 1"
    then have e: "e \<in> set (prof r)" "run_token e \<noteq> run_token run" by simp_all
    have "run_job e \<noteq> run_job run"
    proof
      assume "run_job e = run_job run"
      then have k: "run_kind e = run_kind (core run)" using trackedD(1) [OF x(3) e(1) ran] by simp
      have "2 \<le> length (filter (\<lambda>a. run_kind a = run_kind e) (prof r))"
        using two_of_kind [OF exclusiveD(2) [OF x(1)] e(1) ran] e(2) k by simp
      then show False using boundedD(1) [OF x(2), of "run_kind e"] boundedD(2) [OF x(2) e(1)] one by auto
    qed
    then show "runs r' (run_job e) = Some (run_token e)" using trackedD(2) [OF x(3) e(1) one] unfolding s(1) by simp
  qed
  ultimately show ?thesis by (simp add: run_inv_def r'_def)
qed

subsection \<open>Every step\<close>

lemma recovered_inv:
  assumes "ready_to_start r"
  shows "run_inv (recovered r now)"
proof -
  define r1 where "r1 = fst (on_db (r\<lparr>startErr := None, started := True\<rparr>) (\<lambda>d. RecoverRunningJobs d now))"
  have d: "recovered r now = nudge r1" by (simp add: recovered_def r1_def)
  have r1: "executing r1 = []" "inflight r1 = (\<lambda>_. 0)"
    using assms by (simp_all add: r1_def on_db_def ready_to_start_def split: prod.splits)
  have ids: "map job_ID (rows (db r1)) = map job_ID (rows (db r))"
    by (simp add: r1_def on_db_def RecoverRunningJobs_def statement_eq split: prod.splits)
  have "uniq r1" using assms unfolding ids by (simp add: ready_to_start_def)
  then show ?thesis using r1
    by (simp add: d run_inv_def exclusive_def bounded_def tracked_def prof_def)
qed

lemmas quiet_operations =
  Enqueue_quiet [OF _ _ prod.collapse [symmetric]] Retry_quiet [OF _ prod.collapse [symmetric]]
  UpdatePayload_quiet [OF _ prod.collapse [symmetric]] remove_row_quiet Trim_quiet reads_quiet RegisterWith_quiet RegisterCron_quiet
  armCronKind_quiet guards_quiet

text \<open>The invariant of a started runner, with what a pass under way has still to look at.\<close>

fun pass_rest :: "phase \<Rightarrow> Job list" where
  "pass_rest (InPass _ js _ _) = js"
| "pass_rest _ = []"

definition runner_inv :: "Runner \<times> phase \<Rightarrow> bool" where
  "runner_inv s \<longleftrightarrow> run_inv (fst s) \<and> waiting (fst s) (pass_rest (snd s))"

lemma waiting_Nil [simp]: "waiting r []"
  by (simp add: waiting_def)

lemma pass_rest_free [simp]: "io_free b \<Longrightarrow> pass_rest b = []"
  by (cases b) simp_all

lemma waiting_rows: "rows (db r') = rows (db r) \<Longrightarrow> waiting r js \<Longrightarrow> waiting r' js"
  by (simp add: waiting_def row_of_def)

lemma unlocked_rows [simp]:
  "rows (db (fst (RegisterWith r k cfg))) = rows (db r)" "rows (db (fst (RegisterCron r k t cfg))) = rows (db r)"
  "rows (db (fst (Cancel r i))) = rows (db r)" "rows (db (fst (List r))) = rows (db r)" "rows (db (fst (CronEntry r k))) = rows (db r)"
  "rows (db (with_guard tok f r)) = rows (db r)" "rows (db (time_out tok r)) = rows (db r)" "rows (db (end_run r run)) = rows (db r)"
proof -
  show "rows (db (fst (RegisterWith r k cfg))) = rows (db r)" for k cfg by (simp add: RegisterWith_def Let_def)
  then show "rows (db (fst (RegisterCron r k t cfg))) = rows (db r)"
    by (simp add: RegisterCron_def split: prod.splits sum.splits) (metis fst_conv)
  show "rows (db (fst (List r))) = rows (db r)"
    by (simp add: List_def on_db_def ListJobs_def statement_eq split: prod.splits sum.splits)
  obtain r1 res where l: "LoadByKey r k CronKey = (r1, res)" by fastforce
  then show "rows (db (fst (CronEntry r k))) = rows (db r)"
    using LoadByKey_laws(5) [OF l] by (simp add: CronEntry_def split: sum.splits option.splits)
qed (simp_all add: Cancel_def with_guard_def time_out_def end_run_def release_def split: option.splits)

lemma runner_inv_uniq: "runner_inv s \<Longrightarrow> uniq (fst s)"
  using exclusiveD(1) by (simp add: runner_inv_def run_inv_def)

lemma runner_inv_waiting: "runner_inv s \<Longrightarrow> waiting (fst s) (pass_rest (snd s))"
  by (simp add: runner_inv_def)

lemma quiet_step_inv:
  assumes "runner_inv s" "quiet (fst s) (fst s')" "waiting (fst s') (pass_rest (snd s'))"
  shows "runner_inv s'"
  using assms(1,3) run_inv_quiet [OF _ assms(2)] by (simp add: runner_inv_def)

lemma step_inv:
  assumes "runner_step s s'" "runner_inv s"
  shows "runner_inv s'"
  using assms
proof (cases rule: runner_step.cases)
  case (finish b run r now result err)
  then show ?thesis using finish_run_inv assms(2) by (simp add: runner_inv_def)
next
  case (end_run run r b)
  then show ?thesis using end_run_inv assms(2) waiting_rows [of "end_run r run" r] by (simp add: runner_inv_def)
next
  case (wake r)
  then show ?thesis using assms(2) run_inv_quiet [OF _ quiet_irrelevant, of r "r\<lparr>wake := False\<rparr>"] by (simp add: runner_inv_def)
next
  case (tick r now)
  then show ?thesis using assms(2) by (simp add: runner_inv_def)
next
  case (pass_fails r now r1 e)
  then show ?thesis using assms(2) run_inv_quiet [OF _ quiet_irrelevant, of r1 "r1\<lparr>nextDue := 0\<rparr>"] run_inv_quiet [OF _ EligibleJobs_rows [OF pass_fails(3)]]
    by (simp add: runner_inv_def)
next
  case (pass_starts r now r1 js)
  then have "run_inv r" "uniq r" using assms(2) exclusiveD(1) by (simp_all add: runner_inv_def run_inv_def)
  then show ?thesis
    using run_inv_quiet [OF _ EligibleJobs_rows [OF pass_starts(3)]] EligibleJobs_waiting [OF _ pass_starts(3)] pass_starts(2)
    by (simp add: runner_inv_def in_pass_def start_pass_def)
next
  case (pass_job now p j js)
  then show ?thesis using dispatch_one_inv [of p j js now] assms(2) by (simp add: runner_inv_def in_pass_def)
next
  case (pass_ends now p)
  then show ?thesis using run_inv_quiet [OF _ pass_told_quiet] assms(2) by (simp add: runner_inv_def in_pass_def)
next
  case (next_read r)
  then show ?thesis using run_inv_quiet [OF _ read_next_quiet] assms(2) by (simp add: runner_inv_def)
qed (rule quiet_step_inv [OF assms(2)];
    use runner_inv_uniq [OF assms(2)] runner_inv_waiting [OF assms(2)] in
      \<open>simp add: quiet_operations waiting_rows [where r = "fst s"]\<close>)+

lemma reachable_inv:
  assumes "ready_to_start r0" "runs_to r0 s"
  shows "runner_inv s"
  using assms(2,1)
proof (induction rule: runs_to.induct)
  case (starts now)
  then show ?case by (simp add: recovered_inv runner_inv_def)
next
  case (step s s')
  then show ?case using step_inv by blast
qed

end
