(* ===== verification/Jobs_Theorems.thy ===== *)
theory Jobs_Theorems
  imports Jobs_Laws
begin

text \<open>
  The theorems about the queue: concurrency, cancelling and stopping, wake-ups, the retry policy, and
  the loop that dispatches until there is nothing to do.
\<close>

subsection \<open>A small queue\<close>

text \<open>One job of one kind, queued; the kind runs up to \<open>limit\<close> jobs at a time.\<close>

definition demo_kind :: string where "demo_kind = ''k''"

definition demo_job :: "string \<Rightarrow> Job" where
  "demo_job i = \<lparr>job_ID = i, job_Kind = demo_kind, UniqueKey = ''u'', Priority = 0, Payload = [], Result = [],
     job_State = StateQueued, Attempts = 0, MaxAttempts = 0, ScheduledAt = 5, LastError = [],
     LastDiagnostic = [], CreatedAt = 5, UpdatedAt = 5, Requeued = False\<rparr>"

definition demo_queue :: "int \<Rightarrow> bool list \<Rightarrow> Runner" where
  "demo_queue limit fs =
     fst (RegisterWith
       (New \<lparr>opt_Store = Some \<lparr>rows = [demo_job ''a''], only_kinds = [], faults = fs\<rparr>, opt_MaxAttempts = 0,
          opt_BackoffBase = 0, opt_BackoffCap = 0, opt_Retention = 0\<rparr>)
       demo_kind \<lparr>cfg_Timeout = 0, cfg_MaxConcurrent = limit\<rparr>)"

definition demo_again :: EnqueueOptions where
  "demo_again = \<lparr>eo_UniqueKey = ''u'', eo_Payload = Inr [], eo_Delay = 0, eo_RunNow = True, eo_Priority = 0, eo_MaxAttempts = 0\<rparr>"

text \<open>The states of that queue: its runs, the job's row, whether it is woken, and what it told.\<close>

definition demo_at :: "int \<Rightarrow> (string \<rightharpoonup> nat) \<Rightarrow> int \<Rightarrow> activeRun list \<Rightarrow> nat \<Rightarrow> bool \<Rightarrow> Job \<Rightarrow> job_event list \<Rightarrow> Runner" where
  "demo_at limit rs n es tok w j ev =
     \<lparr>disabled = False, maxAttempts = 5, backoffBase = minute, backoffCap = hour, retention = 30 * 24 * hour,
      handlers = [(demo_kind, \<lparr>h_timeout = 5 * minute, h_limit = limit, h_interval = 0\<rparr>)], started = True, startErr = None,
      pendingArms = [], runs = rs, inflight = (\<lambda>_. 0)(demo_kind := n), executing = es, next_token = tok, wake = w,
      nextDue = 0, db = \<lparr>rows = [j], only_kinds = [], faults = []\<rparr>, told = ev\<rparr>"

definition demo_run :: "nat \<Rightarrow> bool \<Rightarrow> activeRun" where
  "demo_run tok fin = \<lparr>run_token = tok, run_job = ''a'', run_kind = demo_kind, run_guard = new_guard, run_cancelled = False, run_finished = fin\<rparr>"

lemmas queue_defs = on_db_def EligibleJobs_def statement_def RegisterWith_def New_def demo_kind_def nudge_def
  RecoverRunningJobs_def demo_job_def claimable_def eligiblePageSize_def SliceStable_def recordToJob_def rawJSON_def Let_def
  dispatch_one_def runnable_def Save_def note_run_def launched_job_def UpsertJob_def key_clash_def put_row_def find_row_def
  new_run_def start_pass_def pass_told_def notifyWorkChange_def notifyChange_def cronInterval_def tell_def progressed_def
  nonZeroInt_def nonZeroDuration_def demo_at_def demo_run_def

lemma pass_steps:
  "runs_to r0 (in_pass now p js) \<Longrightarrow> runs_to r0 (in_pass now (foldl (dispatch_one now) p js) [])"
proof (induction js arbitrary: p)
  case (Cons j js)
  then show ?case using runs_to.step [OF Cons.prems runner_step.pass_job] by simp
qed simp

lemma whole_pass:
  assumes "runs_to r0 (r, Passing)" "on_db r (\<lambda>d. EligibleJobs d now eligiblePageSize) = (r1, Inr js)"
    "foldl (dispatch_one now) (start_pass r1) js = p"
  shows "runs_to r0 (pass_told p, if progressed p then Passing else Reading)"
  using runs_to.step [OF pass_steps [OF runs_to.step [OF assms(1) runner_step.pass_starts [OF assms(2)]]] runner_step.pass_ends]
  by (simp add: assms(3))

lemma demo_start: "ready_to_start (demo_queue limit [])"
  by (simp add: ready_to_start_def demo_queue_def RegisterWith_def New_def demo_kind_def)

lemma demo_recovered:
  assumes "0 < limit"
  shows "recovered (demo_queue limit []) 6 = demo_at limit Map.empty 0 [] 0 True (demo_job ''a'') []"
  using assms
  by (simp add: recovered_def demo_queue_def queue_defs fun_eq_iff DefaultMaxAttempts_def DefaultBackoffBase_def DefaultBackoffCap_def DefaultRetention_def
     DefaultHandlerTimeout_def)

text \<open>A pass at a time when the job is due and the kind has room launches it.\<close>

lemma demo_launch:
  assumes "runs_to r0 (demo_at limit rs n es tok w j ev, Passing)" "n < limit"
    "job_ID j = ''a''" "job_Kind j = demo_kind" "job_State j = StateQueued" "recordToJob j = j" "ScheduledAt j \<le> now"
  shows "runs_to r0 (demo_at limit (rs(''a'' \<mapsto> tok)) (n + 1) (es @ [demo_run tok False]) (tok + 1) w (launched_job now j) (ev @ [Changed ''a'']), Passing)"
proof -
  let ?r = "demo_at limit rs n es tok w j ev"
  let ?j = "launched_job now j"
  let ?r' = "demo_at limit (rs(''a'' \<mapsto> tok)) (n + 1) (es @ [demo_run tok False]) (tok + 1) w ?j ev"
  have e: "on_db ?r (\<lambda>d. EligibleJobs d now eligiblePageSize) = (?r, Inr [j])"
    using assms(3-7) by (simp add: on_db_def EligibleJobs_def statement_def demo_at_def claimable_def eligiblePageSize_def SliceStable_def)
  have p: "foldl (dispatch_one now) (start_pass ?r) [j] = \<lparr>pass_runner = ?r', pass_launched = [?j], pass_dead = []\<rparr>"
    using assms(2-7) by (simp add: queue_defs fun_eq_iff)
  have "runs_to r0 (pass_told \<lparr>pass_runner = ?r', pass_launched = [?j], pass_dead = []\<rparr>, Passing)"
    using whole_pass [OF assms(1) e p] by (simp add: progressed_def)
  moreover have "pass_told \<lparr>pass_runner = ?r', pass_launched = [?j], pass_dead = []\<rparr> =
      demo_at limit (rs(''a'' \<mapsto> tok)) (n + 1) (es @ [demo_run tok False]) (tok + 1) w ?j (ev @ [Changed ''a''])"
    using assms(3,4) by (simp add: queue_defs)
  ultimately show ?thesis by simp
qed

lemma demo_launched:
  assumes "0 < limit"
  shows "runs_to (demo_queue limit []) (demo_at limit [''a'' \<mapsto> 0] 1 [demo_run 0 False] 1 False (launched_job 7 (demo_job ''a'')) [Changed ''a''], Passing)"
proof -
  let ?r = "\<lambda>w. demo_at limit Map.empty 0 [] 0 w (demo_job ''a'') []"
  have "runs_to (demo_queue limit []) (?r True, Parked)" using runs_to.starts [of "demo_queue limit []" 6] demo_recovered [OF assms] by simp
  then have "runs_to (demo_queue limit []) ((?r True)\<lparr>wake := False\<rparr>, Passing)"
    by (rule runs_to.step [OF _ runner_step.wake]) (simp_all add: demo_at_def)
  then have "runs_to (demo_queue limit []) (?r False, Passing)" by (simp add: demo_at_def)
  from demo_launch [OF this assms, of 7] show ?thesis
    by (simp add: demo_job_def recordToJob_def rawJSON_def)
qed

subsection \<open>Concurrency\<close>

text \<open>
  C1. In every state a started runner can reach, however its operations, the passes of its loop, the ends
  of its runs and the faults of its database interleave: no job is being handled twice at the same time,
  and each kind has at most as many runs as its limit allows, counted exactly.
\<close>

theorem one_handler_per_job:
  assumes "ready_to_start r0" "runs_to r0 (r, ph)"
  shows "distinct (map run_job (filter (\<lambda>e. \<not> run_finished e) (executing r))) \<and>
    (\<forall>k. inflight r k = int (length (filter (\<lambda>e. run_kind e = k) (executing r)))) \<and>
    (\<forall>e \<in> set (executing r). \<exists>h. map_of (handlers r) (run_kind e) = Some h \<and> inflight r (run_kind e) \<le> h_limit h)"
proof -
  have x: "exclusive r" "bounded r" using reachable_inv [OF assms] by (simp_all add: runner_inv_def run_inv_def)
  have "\<exists>h. map_of (handlers r) (run_kind e) = Some h \<and> inflight r (run_kind e) \<le> h_limit h" if "e \<in> set (executing r)" for e
    using boundedD(2) [OF x(2), of "core e"] that by (auto simp: prof_def limit_of_def)
  then show ?thesis
    using exclusiveD(4) [OF x(1)] boundedD(1) [OF x(2)] by (simp add: prof_def filter_map comp_def)
qed

theorem one_handler_per_job_witness:
  "distinct (map run_job (filter (\<lambda>e. \<not> run_finished e) [demo_run 0 False])) \<and>
   ready_to_start (demo_queue 1 []) \<and> executing (demo_at 1 [''a'' \<mapsto> 0] 1 [demo_run 0 False] 1 False (launched_job 7 (demo_job ''a'')) [Changed ''a'']) \<noteq> []"
  using one_handler_per_job [OF demo_start demo_launched [of 1]] demo_start [of 1] by (simp add: demo_at_def)

subsection \<open>Cancelling and stopping\<close>

lemma single_run_known:
  assumes "ready_to_start r0" "runs_to r0 (r, ph)" "run \<in> set (executing r)"
    "map_of (handlers r) (run_kind run) = Some h" "h_limit h = 1"
  shows "runs r (run_job run) = Some (run_token run)"
proof -
  have "tracked r" using reachable_inv [OF assms(1,2)] by (simp add: runner_inv_def run_inv_def)
  then show ?thesis using trackedD(2) [of r "core run"] assms(3-5) by (simp add: prof_def limit_of_def)
qed

text \<open>
  C16. In every reachable state of a runner that was started and not disabled, as long as every kind
  runs one job at a time, the runner knows each of its runs: cancelling the job of a run waits for that
  very run, and stopping the runner waits for all of them.
\<close>

theorem Cancel_and_Stop_wait:
  assumes "ready_to_start r0" "runs_to r0 (r, ph)" "\<not> disabled r" "started r"
    "list_all (\<lambda>(k, h). h_limit h = 1) (handlers r)"
  shows "snd (Stop r) = map run_token (executing r) \<and> (\<forall>run \<in> set (executing r). snd (Cancel r (run_job run)) = Some (run_token run))"
proof -
  have "runs r (run_job run) = Some (run_token run)" if run: "run \<in> set (executing r)" for run
  proof -
    have "bounded r" using reachable_inv [OF assms(1,2)] by (simp add: runner_inv_def run_inv_def)
    then obtain h where h: "map_of (handlers r) (run_kind run) = Some h"
      using boundedD(2) [of r "core run"] run by (auto simp: prof_def limit_of_def)
    then have "h_limit h = 1" using assms(5) map_of_SomeD by (fastforce simp: list_all_iff)
    then show ?thesis using single_run_known [OF assms(1,2) run h] by simp
  qed
  then show ?thesis using assms(3,4) by (simp add: Stop_def Cancel_def cong: filter_cong)
qed

theorem Cancel_and_Stop_wait_witness:
  "snd (Stop (demo_at 1 [''a'' \<mapsto> 0] 1 [demo_run 0 False] 1 False (launched_job 7 (demo_job ''a'')) [Changed ''a''])) = [0]"
  using Cancel_and_Stop_wait [OF demo_start demo_launched [of 1]] by (simp add: demo_at_def demo_run_def)

text \<open>
  The steps that lose a run of a kind that may run several jobs: the job is asked for again while it
  runs, its run ends and puts it back into the queue, a pass launches it again, and only then the old
  run cleans up.
\<close>

definition demo_asked :: Job where
  "demo_asked = (launched_job 7 (demo_job ''a''))\<lparr>Requeued := True, ScheduledAt := 8, UpdatedAt := 8\<rparr>"

lemma demo_enqueue:
  "fst (Enqueue (demo_at 3 rs n es tok w (launched_job 7 (demo_job ''a'')) ev) 8 ''b'' demo_kind demo_again) =
     demo_at 3 rs n es tok True demo_asked (ev @ [Changed ''a''])"
  by (simp add: Enqueue_def demo_again_def demo_asked_def queue_defs LoadByKey_def GetJobByUniqueKey_def enqueued_job_def
    with_options_def CronKey_def)

lemma demo_finish:
  "finish_run (demo_at 3 rs n [demo_run 0 False] tok w demo_asked ev) 9 (demo_run 0 False) [] None =
     demo_at 3 rs n [demo_run 0 True] tok True (succeeded_job 9 demo_asked []) (ev @ [Changed ''a''])"
  by (simp add: finish_run_def finish_def Load_def GetJob_def demo_asked_def finish_told_def succeeded_job_def queue_defs)

text \<open>
  C31. With a kind that may run several jobs at a time the runner can lose a run, because the cleanup of
  a run deletes whatever run the job has by then. There is a reachable state in which a handler is at
  work and cancelling its job does nothing, and stopping the runner does not wait for it.
\<close>

theorem run_forgotten:
  "\<exists>r run. runs_to (demo_queue 3 []) (r, Passing) \<and> run \<in> set (executing r) \<and> \<not> run_finished run \<and>
     Cancel r (run_job run) = (r, None) \<and> snd (Stop r) = []"
proof -
  let ?j = "succeeded_job 9 demo_asked []" and ?q = "demo_queue 3 []" and ?c = "Changed ''a''"
  have "runs_to ?q (demo_at 3 [''a'' \<mapsto> 0] 1 [demo_run 0 False] 1 True demo_asked [?c, ?c], Passing)"
    using runs_to.step [OF demo_launched [of 3] runner_step.enqueue [of _ _ "''b''" 8 demo_kind demo_again]]
    unfolding demo_enqueue by (simp add: unused_id_def row_of_def demo_at_def find_row_def demo_run_def launched_job_def demo_job_def)
  then have "runs_to ?q (demo_at 3 [''a'' \<mapsto> 0] 1 [demo_run 0 True] 1 True ?j [?c, ?c, ?c], Passing)"
    using runs_to.step [OF _ runner_step.finish [of _ "demo_run 0 False" _ 9 "[]" None]] demo_finish
    by (fastforce simp: demo_at_def demo_run_def)
  from demo_launch [OF this, of 10]
  have "runs_to ?q (demo_at 3 [''a'' \<mapsto> 1] 2 [demo_run 0 True, demo_run 1 False] 2 True (launched_job 10 ?j) [?c, ?c, ?c, ?c], Passing)"
    by (simp add: succeeded_job_def demo_asked_def launched_job_def demo_job_def recordToJob_def rawJSON_def numeral_2_eq_2)
  from runs_to.step [OF this runner_step.end_run [of "demo_run 0 True"]]
  have "runs_to ?q (demo_at 3 Map.empty 1 [demo_run 1 False] 2 True (launched_job 10 ?j) [?c, ?c, ?c, ?c], Passing)"
    by (simp add: demo_at_def demo_run_def end_run_def release_def nudge_def fun_eq_iff)
  moreover have "Cancel (demo_at 3 Map.empty 1 [demo_run 1 False] 2 True j ev) ''a'' = (demo_at 3 Map.empty 1 [demo_run 1 False] 2 True j ev, None)"
      "snd (Stop (demo_at 3 Map.empty 1 [demo_run 1 False] 2 True j ev)) = []" for j ev
    by (simp_all add: Cancel_def Stop_def demo_at_def demo_run_def)
  ultimately show ?thesis by (metis demo_at_def demo_run_def list.set_intros(1) Runner.select_convs activeRun.select_convs)
qed

end
