(* ===== verification/Jobs_Policy.thy ===== *)
theory Jobs_Policy
  imports Jobs_Theorems
begin

text \<open>
  The queue's policies: how long a failed job waits, what the end of a run does to its job, that the
  dispatch loop ends, what a failing database does to it, and the size of a recorded diagnostic.
\<close>

subsection \<open>The wait before a retry\<close>

lemma wrap64_double:
  assumes "0 < d" "d < 2 ^ 63"
  shows "wrap64 (d * 2) = (if d * 2 < 2 ^ 63 then d * 2 else d * 2 - 2 ^ 64)"
proof (cases "d * 2 < 2 ^ 63")
  case False
  have "(d * 2 + 2 ^ 63) mod 2 ^ 64 = (d * 2 + 2 ^ 63 - 2 ^ 64) mod (2 ^ 64 :: int)" by (rule minus_mod_self2 [symmetric])
  also have "\<dots> = d * 2 + 2 ^ 63 - 2 ^ 64" using assms False by (intro mod_pos_pos_trivial) simp_all
  finally show ?thesis using False by (simp add: wrap64_def)
qed (use assms in \<open>simp add: wrap64_def\<close>)

lemma backoff_loop_exact:
  assumes "0 < d" "d < 2 ^ 63" "0 < cap" "cap < 2 ^ 63"
  shows "backoff_loop cap d n = min (d * 2 ^ n) cap"
  using assms
proof (induction n arbitrary: d)
  case (Suc n)
  have grow: "d * 2 \<le> d * 2 ^ Suc n" using Suc.prems(1) by simp
  show ?case
  proof (cases "d * 2 < cap")
    case True
    then have "wrap64 (d * 2) = d * 2" using wrap64_double [OF Suc.prems(1,2)] Suc.prems(4) by simp
    then show ?thesis using True Suc.prems Suc.IH [of "d * 2"] by (simp add: mult.assoc)
  next
    case False
    then have "min (d * 2 ^ Suc n) cap = cap" using grow by linarith
    moreover have "wrap64 (d * 2) \<le> 0 \<or> cap \<le> wrap64 (d * 2)"
      using wrap64_double [OF Suc.prems(1,2)] False Suc.prems(2) by auto
    ultimately show ?thesis by (simp only: backoff_loop.simps Let_def if_True)
  qed
qed simp

text \<open>
  The wait before attempt \<open>n + 1\<close> is the base doubled \<open>n - 1\<close> times, capped, although the loop
  doubles a 64-bit duration that may wrap around: the wrap-around never shows.
\<close>

theorem backoff_exact:
  assumes "0 < backoffBase r" "backoffBase r < 2 ^ 63" "0 < backoffCap r" "backoffCap r < 2 ^ 63"
  shows "backoff r n = min (backoffBase r * 2 ^ nat (n - 1)) (backoffCap r)"
proof (cases "n < 1")
  case True
  then have "nat (n - 1) = 0" by simp
  then show ?thesis using backoff_loop_exact [OF assms, of 0] True by (simp add: backoff_def)
next
  case False
  then show ?thesis using backoff_loop_exact [OF assms] by (simp add: backoff_def)
qed

theorem backoff_exact_witness:
  "backoff (demo_at 1 Map.empty 0 [] 0 False (demo_job ''a'') []) 200 = hour"
proof -
  have "minute \<le> hour" "0 < minute" by (simp_all add: minute_def hour_def second_def millisecond_def)
  moreover have "hour \<le> minute * 2 ^ 199" by (simp add: minute_def hour_def second_def millisecond_def)
  ultimately show ?thesis
    using backoff_exact [of "demo_at 1 Map.empty 0 [] 0 False (demo_job ''a'') []" 200]
    by (simp add: demo_at_def minute_def hour_def second_def millisecond_def)
qed

subsection \<open>The size of a diagnostic\<close>

lemma head_end_le: "head_end s n \<le> n"
  by (induction n) auto

lemma tail_start_ge: "n \<le> tail_start s n"
proof (induction s n rule: tail_start.induct)
  case (1 s n)
  then show ?case by (subst tail_start.simps) (auto simp: Suc_leD)
qed

lemma boundDiagnostic_length: "length (boundDiagnostic s) \<le> diagnosticOutputLimit"
proof -
  define d where "d = TrimSpace s"
  define keep where "keep = diagnosticOutputLimit - length diagnosticTruncatedMarker"
  define h where "h = head_end d (keep div 2)"
  define t where "t = tail_start d (length d - (keep - h))"
  have marker: "keep + length diagnosticTruncatedMarker = diagnosticOutputLimit"
    by (simp add: keep_def diagnosticOutputLimit_def diagnosticTruncatedMarker_def)
  have "h \<le> keep" using head_end_le [of d "keep div 2"] by (simp add: h_def)
  moreover have "length d - (keep - h) \<le> t" unfolding t_def by (rule tail_start_ge)
  ultimately have "length (take h d @ diagnosticTruncatedMarker @ drop t d) \<le> diagnosticOutputLimit" using marker by simp
  then show ?thesis by (simp add: boundDiagnostic_def Let_def d_def keep_def h_def t_def)
qed

text \<open>A recorded diagnostic has at most 16 kB, whatever the handler's error carried.\<close>

theorem DiagnosticOutput_bounded: "length (DiagnosticOutput e) \<le> 16384"
  using boundDiagnostic_length by (simp add: DiagnosticOutput_def diagnosticOutputLimit_def split: option.splits)

subsection \<open>The loop ends\<close>

text \<open>
  The table as the loop finds it when the database does not fail: ids are unique, and so is the key of a
  kind, which the unique index guarantees.
\<close>

definition keyed :: "Job list \<Rightarrow> bool" where
  "keyed rs \<longleftrightarrow> (\<forall>a \<in> set rs. \<forall>b \<in> set rs. UniqueKey a \<noteq> [] \<longrightarrow> job_Kind a = job_Kind b \<longrightarrow> UniqueKey a = UniqueKey b \<longrightarrow> job_ID a = job_ID b)"

definition sound :: "Runner \<Rightarrow> bool" where
  "sound r \<longleftrightarrow> uniq r \<and> keyed (rows (db r)) \<and> faults (db r) = []"

definition claims :: "Runner \<Rightarrow> string set" where
  "claims r = {i. \<exists>j. row_of r i = Some j \<and> claimable (db r) j}"

lemma row_of_set: "row_of r i = Some j \<Longrightarrow> j \<in> set (rows (db r)) \<and> job_ID j = i"
  unfolding row_of_def by (rule find_row_Some)

lemma set_put_row:
  assumes "x \<in> set (put_row rs j)"
  shows "x = j \<or> x \<in> set rs \<and> job_ID x \<noteq> job_ID j"
proof (cases "find_row rs (job_ID j) = None")
  case True
  then have "job_ID j \<notin> job_ID ` set rs" by (simp add: find_row_None)
  then show ?thesis using assms True by (auto simp: put_row_def) (metis imageI)
next
  case False
  then show ?thesis using assms by (auto simp: put_row_def)
qed

lemma keyed_put_row:
  assumes k: "keyed rs" and j0: "j0 \<in> set rs" "job_ID j0 = job_ID j" "job_Kind j0 = job_Kind j" "UniqueKey j0 = UniqueKey j"
  shows "keyed (put_row rs j) \<and> \<not> key_clash rs j"
proof -
  have j: "job_ID a = job_ID j" if "a \<in> set rs" "UniqueKey j \<noteq> []" "job_Kind a = job_Kind j" "UniqueKey a = UniqueKey j" for a
    using k that j0 unfolding keyed_def by metis
  have "keyed (put_row rs j)"
    unfolding keyed_def
  proof (intro ballI impI)
    fix a b assume ab: "a \<in> set (put_row rs j)" "b \<in> set (put_row rs j)" "UniqueKey a \<noteq> []" "job_Kind a = job_Kind b" "UniqueKey a = UniqueKey b"
    show "job_ID a = job_ID b"
      using set_put_row [OF ab(1)] set_put_row [OF ab(2)] ab(3-5) j [of a] j [of b] k unfolding keyed_def by metis
  qed
  moreover have "\<not> key_clash rs j" using j by (auto simp: key_clash_def list_ex_iff)
  ultimately show ?thesis by simp
qed

text \<open>Saving a job that is in the table, under its kind and key, works and changes that row only.\<close>

lemma sound_Save:
  assumes s: "sound r" and j0: "row_of r (job_ID j) = Some j0" "job_Kind j0 = job_Kind j" "UniqueKey j0 = UniqueKey j"
  obtains r' where "Save r j = (r', Inr ())" "sound r'" "r' = r\<lparr>db := db r'\<rparr>" "only_kinds (db r') = only_kinds (db r)"
    "\<And>i. row_of r' i = (if i = job_ID j then Some j else row_of r i)"
proof -
  have rs: "uniq r" "keyed (rows (db r))" "faults (db r) = []" using s by (simp_all add: sound_def)
  have k: "keyed (put_row (rows (db r)) j)" "\<not> key_clash (rows (db r)) j"
    using keyed_put_row [OF rs(2)] row_of_set [OF j0(1)] j0(2,3) by blast+
  define r' where "r' = r\<lparr>db := (db r)\<lparr>rows := put_row (rows (db r)) j\<rparr>\<rparr>"
  show ?thesis
  proof (rule that [of r'])
    show "Save r j = (r', Inr ())" using k(2) rs(3) by (simp add: Save_def on_db_def UpsertJob_def statement_def r'_def)
    show "sound r'" using rs k(1) by (simp add: sound_def r'_def distinct_put_row)
    show "row_of r' i = (if i = job_ID j then Some j else row_of r i)" for i by (simp add: row_of_def r'_def find_row_put_row)
  qed (simp_all add: r'_def)
qed

lemma finite_claims: "finite (claims r)"
proof -
  have "claims r \<subseteq> job_ID ` set (rows (db r))" using row_of_set by (force simp: claims_def)
  then show ?thesis by (rule finite_subset) simp
qed

lemma card_claims: "card (claims r) \<le> length (filter (claimable (db r)) (rows (db r)))"
proof -
  have "claims r \<subseteq> job_ID ` set (filter (claimable (db r)) (rows (db r)))" using row_of_set by (force simp: claims_def)
  then have "card (claims r) \<le> card (job_ID ` set (filter (claimable (db r)) (rows (db r))))" by (simp add: card_mono)
  also have "\<dots> \<le> length (filter (claimable (db r)) (rows (db r)))" using card_image_le card_length le_trans by (metis List.finite_set)
  finally show ?thesis .
qed

text \<open>The jobs a pass has still to look at, as the table has them.\<close>

definition offered :: "Runner \<Rightarrow> Job list \<Rightarrow> bool" where
  "offered r js \<longleftrightarrow> distinct (map job_ID js) \<and>
     (\<forall>j \<in> set js. \<exists>j0. row_of r (job_ID j) = Some j0 \<and> claimable (db r) j0 \<and> job_Kind j0 = job_Kind j \<and> UniqueKey j0 = UniqueKey j)"

lemma claim_one:
  assumes "sound r" "offered r (j # js)" "job_ID j1 = job_ID j" "job_Kind j1 = job_Kind j" "UniqueKey j1 = UniqueKey j" "\<not> claimable (db r) j1"
  obtains r' where "Save r j1 = (r', Inr ())" "sound r'" "r' = r\<lparr>db := db r'\<rparr>" "offered r' js" "card (claims r') < card (claims r)"
proof -
  obtain j0 where j0: "row_of r (job_ID j1) = Some j0" "claimable (db r) j0" "job_Kind j0 = job_Kind j1" "UniqueKey j0 = UniqueKey j1"
    using assms(2-5) by (auto simp: offered_def)
  obtain r' where r': "Save r j1 = (r', Inr ())" "sound r'" "r' = r\<lparr>db := db r'\<rparr>" "only_kinds (db r') = only_kinds (db r)"
      and look: "\<And>i. row_of r' i = (if i = job_ID j1 then Some j1 else row_of r i)"
    using sound_Save [OF assms(1) j0(1,3,4)] by metis
  have c: "claimable (db r') x = claimable (db r) x" for x by (simp add: claimable_def r'(4))
  have "job_ID j \<notin> job_ID ` set js" using assms(2) by (simp add: offered_def)
  then have other: "job_ID x \<noteq> job_ID j1" if "x \<in> set js" for x using that assms(3) by (metis imageI)
  have "offered r' js" using assms(2) other by (simp add: offered_def look c)
  moreover have "claims r' = claims r - {job_ID j1}" using assms(6) by (auto simp: claims_def look c)
  moreover have "job_ID j1 \<in> claims r" using j0 by (auto simp: claims_def)
  ultimately show ?thesis using that [OF r'(1-3)] finite_claims card_Diff1_less by metis
qed

text \<open>A job is blocked when it used up its attempts or its kind has no room.\<close>

definition blocked :: "Runner \<Rightarrow> Job \<Rightarrow> bool" where
  "blocked r j \<longleftrightarrow> (runnable r j \<longrightarrow> (\<exists>h. map_of (handlers r) (job_Kind j) = Some h \<and> h_limit h \<le> inflight r (job_Kind j)))"

lemma offered_tl: "offered r (j # js) \<Longrightarrow> offered r js"
  by (simp add: offered_def)

lemma table_only:
  assumes "db r' = db r"
  shows "sound r' = sound r" "offered r' js = offered r js" "claims r' = claims r"
  by (simp_all add: sound_def offered_def claims_def row_of_def assms)

lemma dispatch_one_sound:
  assumes s: "sound (pass_runner p)" and o: "offered (pass_runner p) (j # js)"
  shows "sound (pass_runner (dispatch_one now p j)) \<and> offered (pass_runner (dispatch_one now p j)) js \<and>
    (dispatch_one now p j = p \<and> blocked (pass_runner p) j \<or>
     progressed (dispatch_one now p j) \<and> card (claims (pass_runner (dispatch_one now p j))) < card (claims (pass_runner p)))"
proof (cases "blocked (pass_runner p) j")
  case True
  then have "dispatch_one now p j = p" by (auto simp: dispatch_one_def blocked_def Let_def)
  then show ?thesis using s offered_tl [OF o] True by simp
next
  case False
  define r where "r = pass_runner p"
  have run: "runnable r j" using False by (simp add: blocked_def r_def)
  show ?thesis
  proof (cases "map_of (handlers r) (job_Kind j)")
    case None
    define dead where "dead = dead_job now j (unknown_kind_error (job_Kind j))"
    obtain r' where r': "Save r dead = (r', Inr ())" "sound r'" "offered r' js" "card (claims r') < card (claims r)"
      using claim_one [OF s o, of dead] by (auto simp: r_def dead_def dead_job_def claimable_def)
    have "dispatch_one now p j = p\<lparr>pass_runner := r', pass_dead := pass_dead p @ [dead]\<rparr>"
      using run None r'(1) by (simp add: dispatch_one_def recordPermanentFailureLocked_def Let_def r_def dead_def)
    then show ?thesis using r' by (simp add: progressed_def r_def)
  next
    case (Some h)
    then have room: "\<not> h_limit h \<le> inflight r (job_Kind j)" using False run by (simp add: blocked_def r_def)
    define n where "n = note_run r j"
    have n: "db n = db r" by (simp add: n_def note_run_def)
    note same = table_only [OF n]
    obtain r' where r': "Save n (launched_job now j) = (r', Inr ())" "sound r'" "offered r' js" "card (claims r') < card (claims r)"
      using claim_one [of n j js "launched_job now j"] s o unfolding same r_def [symmetric]
      by (auto simp: launched_job_def claimable_def)
    define q where "q = dispatch_one now p j"
    have q: "q = p\<lparr>pass_runner := r'\<lparr>executing := executing r' @ [new_run r j]\<rparr>, pass_launched := pass_launched p @ [launched_job now j]\<rparr>"
      using run Some room r'(1) by (simp add: q_def dispatch_one_def Let_def r_def n_def)
    have "sound (pass_runner q) = sound r'" "offered (pass_runner q) js = offered r' js" "claims (pass_runner q) = claims r'"
      by (rule table_only; simp add: q)+
    then show ?thesis using r' unfolding q_def [symmetric] by (simp add: q progressed_def r_def)
  qed
qed

lemma dispatch_one_progressed: "progressed p \<Longrightarrow> progressed (dispatch_one now p j)"
  by (auto simp: dispatch_one_def progressed_def Let_def recordPermanentFailureLocked_def split: option.splits prod.splits sum.splits)

lemma fold_progressed: "progressed p \<Longrightarrow> progressed (foldl (dispatch_one now) p js)"
  by (induction js arbitrary: p) (simp_all add: dispatch_one_progressed)

lemma dispatch_fold_sound:
  assumes "sound (pass_runner p)" "offered (pass_runner p) js"
  shows "sound (pass_runner (foldl (dispatch_one now) p js)) \<and>
    card (claims (pass_runner (foldl (dispatch_one now) p js))) \<le> card (claims (pass_runner p)) \<and>
    (foldl (dispatch_one now) p js = p \<and> (\<forall>j \<in> set js. blocked (pass_runner p) j) \<or>
     progressed (foldl (dispatch_one now) p js) \<and> card (claims (pass_runner (foldl (dispatch_one now) p js))) < card (claims (pass_runner p)))"
  using assms
proof (induction js arbitrary: p)
  case (Cons j js)
  define q where "q = dispatch_one now p j"
  have one: "sound (pass_runner q)" "offered (pass_runner q) js"
      "q = p \<and> blocked (pass_runner p) j \<or> progressed q \<and> card (claims (pass_runner q)) < card (claims (pass_runner p))"
    using dispatch_one_sound [OF Cons.prems] by (simp_all add: q_def)
  note rest = Cons.IH [OF one(1,2)]
  show ?case using one(3)
  proof
    assume "q = p \<and> blocked (pass_runner p) j"
    then show ?thesis using rest by (simp add: q_def [symmetric])
  next
    assume "progressed q \<and> card (claims (pass_runner q)) < card (claims (pass_runner p))"
    then show ?thesis using rest fold_progressed [of q now js] unfolding foldl_Cons q_def [symmetric] by linarith
  qed
qed simp

lemma EligibleJobs_sound:
  assumes "sound r"
  shows "on_db r (\<lambda>d. EligibleJobs d now n) =
    (r, Inr (map recordToJob (take n (SliceStable claim_less (filter (\<lambda>j. claimable (db r) j \<and> ScheduledAt j \<le> now) (rows (db r)))))))"
  using assms by (simp add: on_db_def EligibleJobs_def statement_def sound_def)

lemma eligible_offered:
  assumes "sound r" "on_db r (\<lambda>d. EligibleJobs d now n) = (r, Inr js)"
  shows "offered r js"
proof -
  have u: "uniq r" using assms(1) by (simp add: sound_def)
  have "distinct (map job_ID js)" using EligibleJobs_waiting [OF u assms(2)] by (simp add: waiting_def)
  moreover have "\<exists>j0. row_of r (job_ID j) = Some j0 \<and> claimable (db r) j0 \<and> job_Kind j0 = job_Kind j \<and> UniqueKey j0 = UniqueKey j"
    if mem: "j \<in> set js" for j
  proof -
    obtain j0 where j: "j = recordToJob j0" and "j0 \<in> set (take n (SliceStable claim_less (filter (\<lambda>j. claimable (db r) j \<and> ScheduledAt j \<le> now) (rows (db r)))))"
      using mem assms(2) unfolding EligibleJobs_sound [OF assms(1)] by auto
    from in_set_takeD [OF this(2)] have "j0 \<in> set (rows (db r))" "claimable (db r) j0" by simp_all
    then show ?thesis using find_row_distinct [OF u] j by (simp add: row_of_def)
  qed
  ultimately show ?thesis by (simp add: offered_def)
qed

lemma fold_db: "(\<And>x r. db (f x r) = db r) \<Longrightarrow> db (fold f xs r) = db r"
  by (induction xs arbitrary: r) simp_all

lemma pass_told_db: "db (pass_told p) = db (pass_runner p)"
  by (simp add: pass_told_def Let_def fold_db notifyChange_def notifyTerminalFailure_def)

lemma dispatch_sound:
  assumes "sound r"
  shows "\<exists>r' again. dispatch r now = (r', Inr again) \<and> sound r' \<and>
    (if again then card (claims r') < card (claims r)
     else r' = r \<and> (\<forall>j \<in> set (take eligiblePageSize (SliceStable claim_less (filter (\<lambda>j. claimable (db r) j \<and> ScheduledAt j \<le> now) (rows (db r))))).
       blocked r (recordToJob j)))"
proof -
  define js where "js = map recordToJob (take eligiblePageSize (SliceStable claim_less (filter (\<lambda>j. claimable (db r) j \<and> ScheduledAt j \<le> now) (rows (db r)))))"
  have e: "on_db r (\<lambda>d. EligibleJobs d now eligiblePageSize) = (r, Inr js)" unfolding js_def by (rule EligibleJobs_sound [OF assms])
  define p where "p = foldl (dispatch_one now) (start_pass r) js"
  have s: "pass_runner (start_pass r) = r" by (simp add: start_pass_def)
  have p: "sound (pass_runner p)" "p = start_pass r \<and> (\<forall>j \<in> set js. blocked r j) \<or> progressed p \<and> card (claims (pass_runner p)) < card (claims r)"
    using dispatch_fold_sound [of "start_pass r" js now] assms eligible_offered [OF assms e] by (simp_all add: s p_def)
  have d: "dispatch r now = (pass_told p, Inr (progressed p))" using e by (simp add: dispatch_def p_def Let_def)
  have t: "sound (pass_told p)" "claims (pass_told p) = claims (pass_runner p)" using p(1) table_only [OF pass_told_db] by simp_all
  have idle: "pass_told (start_pass r) = r" "\<not> progressed (start_pass r)" by (simp_all add: start_pass_def pass_told_def progressed_def Let_def)
  show ?thesis
  proof (cases "progressed p")
    case True
    then show ?thesis using d t p(2) idle by auto
  next
    case False
    then show ?thesis using d t p(2) idle by (auto simp: js_def)
  qed
qed

text \<open>
  The due jobs of a pass, and what the other goroutines may do between two passes: they leave the table
  in order and make at most \<open>k\<close> more jobs claimable.
\<close>

definition due_page :: "Runner \<Rightarrow> time \<Rightarrow> Job list" where
  "due_page r now = take eligiblePageSize (SliceStable claim_less (filter (\<lambda>j. claimable (db r) j \<and> ScheduledAt j \<le> now) (rows (db r))))"

definition admits :: "loop_round \<Rightarrow> nat \<Rightarrow> bool" where
  "admits round k \<longleftrightarrow> (case round of (stop, now, others) \<Rightarrow>
     \<forall>x. sound x \<longrightarrow> sound (others x) \<and> card (claims (others x)) \<le> card (claims x) + k)"

text \<open>The loop ends in round \<open>k\<close>: the rounds before it do not end it, and the later ones are not met.\<close>

lemma loop_ends:
  assumes "sound r" "list_all2 admits rounds ks" "card (claims r) + sum_list ks < length rounds"
  shows "\<exists>k r'. k < length rounds \<and> dispatchUntilIdle (take k rounds) r = None \<and>
    dispatchUntilIdle (take (Suc k) rounds) r = Some r' \<and> dispatchUntilIdle rounds r = Some r' \<and>
    (case rounds ! k of (stop, now, others) \<Rightarrow> stop \<or> (\<exists>x. r' = read_next (others x) \<and> (\<forall>j \<in> set (due_page x now). blocked x (recordToJob j))))"
  using assms
proof (induction rounds arbitrary: r ks)
  case (Cons round rounds)
  obtain stop now others where rd: "round = (stop, now, others)" by (cases round)
  obtain a ks' where ks: "ks = a # ks'" "admits round a" "list_all2 admits rounds ks'"
    using Cons.prems(2) by (auto simp: list_all2_Cons1)
  obtain r1 again where d: "dispatch r now = (r1, Inr again)" "sound r1"
      "if again then card (claims r1) < card (claims r) else r1 = r \<and> (\<forall>j \<in> set (due_page r now). blocked r (recordToJob j))"
    using dispatch_sound [OF Cons.prems(1)] unfolding due_page_def by blast
  show ?case
  proof (cases "stop \<or> \<not> again")
    case True
    define r' where "r' = (if stop then r else read_next (others r))"
    have "dispatchUntilIdle (round # rs) r = Some r'" for rs using True d(1,3) by (cases stop) (simp_all add: rd r'_def)
    moreover have "stop \<or> r' = read_next (others r) \<and> (\<forall>j \<in> set (due_page r now). blocked r (recordToJob j))"
      using True d(3) by (cases stop) (simp_all add: r'_def)
    then have "case (round # rounds) ! 0 of (stop, now, others) \<Rightarrow> stop \<or> (\<exists>x. r' = read_next (others x) \<and> (\<forall>j \<in> set (due_page x now). blocked x (recordToJob j)))"
      unfolding rd nth_Cons_0 prod.case by (elim disjE) (rule disjI1, assumption, rule disjI2, rule exI)
    ultimately show ?thesis by (intro exI [of _ 0] exI [of _ r']) simp
  next
    case False
    have s: "sound (others r1)" "card (claims (others r1)) \<le> card (claims r1) + a" using ks(2) d(2) by (simp_all add: admits_def rd)
    have c: "card (claims (others r1)) + sum_list ks' < length rounds" using s(2) d(3) False Cons.prems(3) by (simp add: ks(1))
    obtain k r' where k: "k < length rounds" "dispatchUntilIdle (take k rounds) (others r1) = None"
        "dispatchUntilIdle (take (Suc k) rounds) (others r1) = Some r'" "dispatchUntilIdle rounds (others r1) = Some r'"
        "case rounds ! k of (stop, now, others) \<Rightarrow> stop \<or> (\<exists>x. r' = read_next (others x) \<and> (\<forall>j \<in> set (due_page x now). blocked x (recordToJob j)))"
      using Cons.IH [OF s(1) ks(3) c] by (elim exE conjE)
    show ?thesis using k False d(1) by (intro exI [of _ "Suc k"] exI [of _ r']) (simp add: rd)
  qed
qed simp

text \<open>
  C8. The dispatch loop comes to an end. Let the database work and the ids and the keys of its rows be
  unique, and let the other goroutines, between the rounds, keep that and make no more jobs claimable in
  a round than a number given for that round; the clock is any. Then the loop needs at most one round
  for each job claimable at the start, one for each that was added, and one more. It ends in a round
  that found the runner stopped, or in one whose pass could start nothing that was due: every due job of
  its page had used up its attempts or belonged to a kind without room; then it reads when the next job
  is due.
\<close>

theorem dispatchUntilIdle_ends:
  assumes "distinct (map job_ID (rows (db r)))" "keyed (rows (db r))" "faults (db r) = []" "list_all2 admits rounds ks"
    "length (filter (claimable (db r)) (rows (db r))) + sum_list ks < length rounds"
  shows "\<exists>k r'. k < length rounds \<and> dispatchUntilIdle (take k rounds) r = None \<and>
    dispatchUntilIdle (take (Suc k) rounds) r = Some r' \<and> dispatchUntilIdle rounds r = Some r' \<and>
    (case rounds ! k of (stop, now, others) \<Rightarrow> stop \<or>
      (\<exists>x. r' = read_next (others x) \<and>
        (\<forall>j \<in> set (take 1000 (SliceStable claim_less (filter (\<lambda>j. claimable (db x) j \<and> ScheduledAt j \<le> now) (rows (db x))))).
           runnable x (recordToJob j) \<longrightarrow> (\<exists>h. map_of (handlers x) (job_Kind j) = Some h \<and> h_limit h \<le> inflight x (job_Kind j)))))"
proof -
  have "sound r" using assms(1-3) by (simp add: sound_def)
  moreover have "card (claims r) + sum_list ks < length rounds" using card_claims [of r] assms(5) by simp
  ultimately show ?thesis using loop_ends [OF _ assms(4), of r] by (simp add: blocked_def due_page_def eligiblePageSize_def)
qed

text \<open>Here the job is cancelled by another goroutine after the pass that launched it.\<close>

lemma admits_cancel: "admits (stop, now, \<lambda>x. fst (Cancel x i)) 0"
proof -
  have "db (fst (Cancel x i)) = db x" for x by (simp add: Cancel_def fence_def split: option.splits)
  then have "sound (fst (Cancel x i)) = sound x" "claims (fst (Cancel x i)) = claims x" for x by (rule table_only)+
  then show ?thesis by (simp add: admits_def)
qed

theorem dispatchUntilIdle_ends_witness:
  "\<exists>r'. dispatchUntilIdle [(False, 7, \<lambda>x. fst (Cancel x ''a'')), (False, 8, \<lambda>x. fst (Cancel x ''a''))]
     (demo_at 1 Map.empty 0 [] 0 True (demo_job ''a'') []) = Some r'"
proof -
  define r where "r = demo_at 1 Map.empty 0 [] 0 True (demo_job ''a'') []"
  define rounds :: "loop_round list" where "rounds = [(False, 7, \<lambda>x. fst (Cancel x ''a'')), (False, 8, \<lambda>x. fst (Cancel x ''a''))]"
  have d: "db r = \<lparr>rows = [demo_job ''a''], only_kinds = [], faults = []\<rparr>" by (simp add: r_def demo_at_def)
  have "distinct (map job_ID (rows (db r)))" "keyed (rows (db r))" "faults (db r) = []" by (simp_all add: d keyed_def)
  moreover have "list_all2 admits rounds [0, 0]" by (simp add: rounds_def admits_cancel)
  moreover have "length (filter (claimable (db r)) (rows (db r))) + sum_list [0, 0] < length rounds" by (simp add: d rounds_def)
  ultimately have "\<exists>r'. dispatchUntilIdle rounds r = Some r'" using dispatchUntilIdle_ends by blast
  then show ?thesis unfolding r_def rounds_def .
qed

text \<open>
  A table whose writes fail, holding a job of a kind that is not registered. The pass counts the job as
  handled although its row did not change.
\<close>

definition demo_stuck :: "bool list \<Rightarrow> job_event list \<Rightarrow> Runner" where
  "demo_stuck fs ev =
     (New \<lparr>opt_Store = Some \<lparr>rows = [demo_job ''a''], only_kinds = [], faults = fs\<rparr>, opt_MaxAttempts = 0,
        opt_BackoffBase = 0, opt_BackoffCap = 0, opt_Retention = 0\<rparr>)\<lparr>told := ev\<rparr>"

lemma stuck_round:
  "dispatch (demo_stuck (False # True # fs) ev) 7 =
     (demo_stuck fs (ev @ [Changed ''a'', TerminalFailure (dead_job 7 (demo_job ''a'') (unknown_kind_error demo_kind))]), Inr True)"
  by (simp add: dispatch_def demo_stuck_def on_db_def EligibleJobs_def statement_def New_def demo_job_def claimable_def
    eligiblePageSize_def SliceStable_def recordToJob_def rawJSON_def start_pass_def dispatch_one_def runnable_def
    recordPermanentFailureLocked_def Save_def UpsertJob_def dead_job_def pass_told_def notifyChange_def notifyTerminalFailure_def tell_def
    progressed_def Let_def)

lemma stuck_loop: "dispatchUntilIdle (replicate n (False, 7, \<lambda>x. x)) (demo_stuck (concat (replicate n [False, True])) ev) = None"
  by (induction n arbitrary: ev) (simp_all add: stuck_round)


subsection \<open>What the end of a run does\<close>

lemma Load_row: "faults (db r) = [] \<Longrightarrow> Load r i = (r, Inr (map_option recordToJob (row_of r i)))"
  by (simp add: Load_def on_db_def GetJob_def statement_def row_of_def)

lemma finish_told_fields [simp]:
  "db (finish_told r i j dead again) = db r" "again \<Longrightarrow> wake (finish_told r i j dead again)"
  "told (finish_told r i j dead again) = told r @ [Changed i] @ (if dead then [TerminalFailure j] else [])"
  by (simp_all add: finish_told_def Let_def notifyChange_def notifyTerminalFailure_def tell_def nudge_def)

text \<open>
  What \<open>finish\<close> does to a row it finds, when the database works and keys are unique: it saves one job in
  its place, \<open>outcome_job\<close>, and tells and wakes whom it has to; a cron entry is re-armed silently.
\<close>

definition outcome_job :: "Runner \<Rightarrow> time \<Rightarrow> Job \<Rightarrow> string \<Rightarrow> run_error option \<Rightarrow> Job" where
  "outcome_job r now cur result err =
     (if 0 < cronInterval r (job_Kind cur) then rearmed_job now (cur\<lparr>Result := result\<rparr>) (cronInterval r (job_Kind cur)) err
      else case err of
          None \<Rightarrow> succeeded_job now cur result
        | Some e \<Rightarrow> if Requeued cur then requeued_job now cur e else fst (failed_job r now cur e))"

definition gives_up :: "Runner \<Rightarrow> Job \<Rightarrow> run_error option \<Rightarrow> bool" where
  "gives_up r j err \<longleftrightarrow> err \<noteq> None \<and> \<not> Requeued j \<and> attemptCap r j \<le> Attempts j"

lemma failed_job_dead: "snd (failed_job r now j e) \<longleftrightarrow> attemptCap r j \<le> Attempts j"
  by (simp add: failed_job_def Let_def)

lemma outcome_job_keys:
  "job_ID (outcome_job r now j result err) = job_ID j" "job_Kind (outcome_job r now j result err) = job_Kind j"
  "UniqueKey (outcome_job r now j result err) = UniqueKey j"
  by (simp_all add: outcome_job_def rearmed_job_def succeeded_job_def requeued_job_def failed_job_def Let_def split: option.splits)

lemma finish_saves:
  assumes "Load r i = (r, Inr (Some cur))" "Save r (outcome_job r now cur result err) = (r1, Inr ())"
  shows "finish r now i result err =
    (if 0 < cronInterval r (job_Kind cur) then r1
     else finish_told r1 i (outcome_job r now cur result err) (gives_up r cur err) (Requeued cur))"
proof (cases "0 < cronInterval r (job_Kind cur)")
  case True
  then show ?thesis using assms by (simp add: finish_def outcome_job_def rearmCronLocked_def)
next
  case False
  show ?thesis
  proof (cases "err = None \<or> Requeued cur")
    case True
    then show ?thesis using assms False by (cases err) (auto simp: finish_def outcome_job_def gives_up_def)
  next
    case again: False
    then obtain e where e: "err = Some e" by auto
    obtain j1 dead where f: "failed_job r now cur e = (j1, dead)" by fastforce
    then have "dead = gives_up r cur err" using failed_job_dead [of r now cur e] again e by (simp add: gives_up_def)
    then show ?thesis using assms False again f by (simp add: finish_def outcome_job_def recordFailureLocked_def e)
  qed
qed

text \<open>
  C13. What the end of a run does to its job, when the database works, the ids and the keys of the rows
  are unique and the job still has its row. The row stays, no other row changes, the request to run
  again is used up, and the error and its diagnostic are those of this run, empty after a success. A job
  of a cron kind is queued again with no attempts counted, an interval from now, or earlier when it was
  asked for at an earlier time, and nobody is told. Of the others, one that was asked for again while
  it ran is queued with no attempts counted for the time it was asked for, and the loop is woken,
  whether the run failed or not; else a success is recorded with its result, and a failure leaves the
  job failed, to be retried after the backoff, or, when the attempts are used up, dead and reported as
  such; the change is told in each case.
\<close>

theorem finish_outcome:
  assumes "distinct (map job_ID (rows (db r)))" "keyed (rows (db r))" "faults (db r) = []" "row_of r i = Some j"
  shows "\<exists>j'. row_of (finish r now i result err) i = Some j' \<and> (\<forall>k. k \<noteq> i \<longrightarrow> row_of (finish r now i result err) k = row_of r k) \<and>
    job_Kind j' = job_Kind j \<and> UniqueKey j' = UniqueKey j \<and> \<not> Requeued j' \<and>
    LastError j' = (case err of None \<Rightarrow> [] | Some e \<Rightarrow> err_text e) \<and>
    LastDiagnostic j' = (case err of None \<Rightarrow> [] | Some e \<Rightarrow> DiagnosticOutput e) \<and>
    (if 0 < cronInterval r (job_Kind j)
     then job_State j' = StateQueued \<and> Attempts j' = 0 \<and> Result j' = result \<and>
       ScheduledAt j' = (if Requeued j then min (ScheduledAt j) (now + cronInterval r (job_Kind j)) else now + cronInterval r (job_Kind j)) \<and>
       told (finish r now i result err) = told r
     else told (finish r now i result err) =
         told r @ [Changed i] @ (if err \<noteq> None \<and> \<not> Requeued j \<and> attemptCap r j \<le> Attempts j then [TerminalFailure j'] else []) \<and>
       (if Requeued j
        then job_State j' = StateQueued \<and> ScheduledAt j' = ScheduledAt j \<and> Attempts j' = 0 \<and> wake (finish r now i result err)
        else if err = None then job_State j' = StateDone \<and> Result j' = result
        else if attemptCap r j \<le> Attempts j then job_State j' = StateDead \<and> ScheduledAt j' = now
        else job_State j' = StateFailed \<and> ScheduledAt j' = now + backoff r (Attempts j)))"
proof -
  define cur where "cur = recordToJob j"
  define j' where "j' = outcome_job r now cur result err"
  have s: "sound r" using assms(1-3) by (simp add: sound_def)
  have i: "job_ID j = i" using row_of_set [OF assms(4)] by simp
  have load: "Load r i = (r, Inr (Some cur))" using Load_row [OF assms(3)] assms(4) by (simp add: cur_def)
  have "row_of r (job_ID j') = Some j" "job_Kind j = job_Kind j'" "UniqueKey j = UniqueKey j'"
    using assms(4) i by (simp_all add: j'_def outcome_job_keys cur_def)
  from sound_Save [OF s this] obtain r1 where r1: "Save r j' = (r1, Inr ())" "r1 = r\<lparr>db := db r1\<rparr>"
      and rows1: "\<And>k. row_of r1 k = (if k = job_ID j' then Some j' else row_of r k)" by metis
  have fin: "finish r now i result err =
      (if 0 < cronInterval r (job_Kind j) then r1 else finish_told r1 i j' (gives_up r cur err) (Requeued j))"
    using finish_saves [OF load, of now result err r1] r1(1) by (simp add: j'_def cur_def)
  have look: "row_of (finish r now i result err) k = (if k = i then Some j' else row_of r k)" for k
    unfolding fin using rows1 i by (simp add: row_of_def j'_def outcome_job_keys cur_def)
  have t: "told r1 = told r" using arg_cong [OF r1(2), of told] by simp
  have g: "gives_up r cur err \<longleftrightarrow> err \<noteq> None \<and> \<not> Requeued j \<and> attemptCap r j \<le> Attempts j"
    by (simp add: gives_up_def cur_def attemptCap_def)
  note defs = j'_def outcome_job_def cur_def rearmed_job_def succeeded_job_def requeued_job_def failed_job_def attemptCap_def Let_def
  have common: "job_Kind j' = job_Kind j" "UniqueKey j' = UniqueKey j" "\<not> Requeued j'"
      "LastError j' = (case err of None \<Rightarrow> [] | Some e \<Rightarrow> err_text e)"
      "LastDiagnostic j' = (case err of None \<Rightarrow> [] | Some e \<Rightarrow> DiagnosticOutput e)"
    by (auto simp: defs split: option.splits)
  show ?thesis
  proof (cases "0 < cronInterval r (job_Kind j)")
    case True
    then have "job_State j' = StateQueued" "Attempts j' = 0" "Result j' = result"
        "ScheduledAt j' = (if Requeued j then min (ScheduledAt j) (now + cronInterval r (job_Kind j)) else now + cronInterval r (job_Kind j))"
      by (auto simp: defs split: option.splits)
    then show ?thesis using True fin t look common by (intro exI [of _ j']) simp
  next
    case False
    then have "if Requeued j then job_State j' = StateQueued \<and> ScheduledAt j' = ScheduledAt j \<and> Attempts j' = 0
        else if err = None then job_State j' = StateDone \<and> Result j' = result
        else if attemptCap r j \<le> Attempts j then job_State j' = StateDead \<and> ScheduledAt j' = now
        else job_State j' = StateFailed \<and> ScheduledAt j' = now + backoff r (Attempts j)"
      by (auto simp: defs split: option.splits)
    moreover have "told (finish r now i result err) = told r @ [Changed i] @ (if gives_up r cur err then [TerminalFailure j'] else [])"
        "Requeued j \<Longrightarrow> wake (finish r now i result err)"
      using False by (simp_all add: fin t)
    ultimately show ?thesis using False look common unfolding g by (intro exI [of _ j']) simp
  qed
qed

theorem finish_outcome_witness:
  "\<exists>j'. row_of (finish (demo_at 3 Map.empty 1 [demo_run 0 False] 1 True demo_asked []) 9 ''a'' [] None) ''a'' = Some j' \<and>
     job_State j' = StateQueued \<and> ScheduledAt j' = 8"
proof -
  define r where "r = demo_at 3 Map.empty 1 [demo_run 0 False] 1 True demo_asked []"
  have "distinct (map job_ID (rows (db r)))" "keyed (rows (db r))" "faults (db r) = []" "row_of r ''a'' = Some demo_asked"
      "\<not> 0 < cronInterval r (job_Kind demo_asked)"
    by (simp_all add: r_def demo_at_def demo_asked_def launched_job_def demo_job_def keyed_def row_of_def find_row_def cronInterval_def)
  moreover have "Requeued demo_asked" "ScheduledAt demo_asked = 8" by (simp_all add: demo_asked_def)
  ultimately show ?thesis using finish_outcome [of r "''a''" demo_asked 9 "[]" None] unfolding r_def [symmetric] by auto
qed

subsection \<open>A launch that fails\<close>

text \<open>A token that was given out and belongs to no run is never a run's again.\<close>

definition unrun :: "nat \<Rightarrow> Runner \<Rightarrow> bool" where
  "unrun tok r \<longleftrightarrow> tok < next_token r \<and> tok \<notin> run_token ` set (executing r)"

lemma unrun_prof: "unrun tok r \<longleftrightarrow> tok < next_token r \<and> tok \<notin> run_token ` set (prof r)"
  by (simp add: unrun_def prof_def image_image)

lemma unrun_quiet: "quiet r r' \<Longrightarrow> unrun tok r \<Longrightarrow> unrun tok r'"
  by (simp add: unrun_prof quiet_def same_runs_def)

lemma Save_runs:
  assumes "Save r j = (r', res)"
  shows "executing r' = executing r" "next_token r' = next_token r"
  using assms by (auto simp: Save_def on_db_def split: prod.splits)

lemma unrun_dispatch_one:
  assumes "unrun tok (pass_runner p)"
  shows "unrun tok (pass_runner (dispatch_one now p j))"
proof -
  define r where "r = pass_runner p"
  have n: "executing (note_run r j) = executing r" "next_token (note_run r j) = next_token r + 1" by (simp_all add: note_run_def)
  obtain r1 res1 where s1: "Save r (dead_job now j (unknown_kind_error (job_Kind j))) = (r1, res1)" by fastforce
  obtain r2 res2 where s2: "Save (note_run r j) (launched_job now j) = (r2, res2)" by fastforce
  have u: "unrun tok r" "unrun tok r1" using assms Save_runs [OF s1] by (simp_all add: unrun_def r_def)
  have u2: "tok < next_token r2" "tok \<notin> run_token ` set (executing r2)" "tok \<noteq> run_token (new_run r j)"
    using u(1) Save_runs [OF s2] n by (auto simp: unrun_def new_run_def)
  have "pass_runner (dispatch_one now p j) \<in> {r, r1, release r2 (job_ID j) (job_Kind j), r2\<lparr>executing := executing r2 @ [new_run r j]\<rparr>}"
    using s1 s2 unfolding dispatch_one_def Let_def r_def [symmetric] recordPermanentFailureLocked_def
    by (auto split: option.splits sum.splits simp: r_def)
  moreover have "unrun tok (release r2 (job_ID j) (job_Kind j))" "unrun tok (r2\<lparr>executing := executing r2 @ [new_run r j]\<rparr>)"
    using u2 by (simp_all add: unrun_def release_def)
  ultimately show ?thesis using u by auto
qed

lemma unrun_step:
  assumes "runner_step s s'" "runner_inv s" "unrun tok (fst s)"
  shows "unrun tok (fst s')"
  using assms(1)
proof (cases rule: runner_step.cases)
  case (finish b run r now result err)
  have "touches_only (run_job run) r (finish r now (run_job run) (if err = None then result else []) err)"
    using finish_touches runner_inv_uniq [OF assms(2)] finish(1) by simp
  then show ?thesis using assms(3) finish by (auto simp: unrun_def finish_run_def Let_def touches_only_def)
next
  case (end_run run r b)
  then show ?thesis using assms(3) by (auto simp: unrun_def end_run_def release_def)
next
  case (wake r)
  then show ?thesis using assms(3) by (simp add: unrun_def)
next
  case (tick r now)
  then show ?thesis using assms(3) by simp
next
  case (pass_fails r now r1 e)
  then show ?thesis using assms(3) unrun_quiet [OF EligibleJobs_rows [OF pass_fails(3)]] by (simp add: unrun_def)
next
  case (pass_starts r now r1 js)
  then show ?thesis using assms(3) unrun_quiet [OF EligibleJobs_rows [OF pass_starts(3)]] by (simp add: in_pass_def start_pass_def)
next
  case (pass_job now p j js)
  then show ?thesis using assms(3) unrun_dispatch_one by (simp add: in_pass_def)
next
  case (pass_ends now p)
  then show ?thesis using assms(3) unrun_quiet [OF pass_told_quiet] by (simp add: in_pass_def)
next
  case (next_read r)
  then show ?thesis using assms(3) unrun_quiet [OF read_next_quiet] by simp
qed (rule unrun_quiet [OF _ assms(3)], use runner_inv_uniq [OF assms(2)] in \<open>simp add: quiet_operations\<close>)+

lemma unrun_steps:
  assumes "runner_step\<^sup>*\<^sup>* s s'" "runner_inv s" "unrun tok (fst s)"
  shows "unrun tok (fst s')"
proof -
  have "runner_inv s' \<and> unrun tok (fst s')"
    using assms by (induction rule: rtranclp_induct) (auto intro: step_inv unrun_step)
  then show ?thesis by simp
qed

text \<open>
  C32. A launch notes the run before it saves the job, and takes it back when the save fails. In a
  reachable pass of a runner that is not disabled, over a job of a kind that has room, a cancellation
  that comes between the two waits for that run, and the run is in no state reached later among those
  that are executed: it waits forever.
\<close>

theorem Cancel_of_failed_launch:
  assumes "ready_to_start r0" "runs_to r0 (in_pass now p (j # js))" "\<not> disabled (pass_runner p)"
    "runnable (pass_runner p) j" "map_of (handlers (pass_runner p)) (job_Kind j) = Some h"
    "inflight (pass_runner p) (job_Kind j) < h_limit h"
    "snd (Save (note_run (pass_runner p) j) (launched_job now j)) = Inl e"
    "runner_step\<^sup>*\<^sup>* (in_pass now (dispatch_one now p j) js) (r', ph')"
  shows "snd (Cancel (note_run (pass_runner p) j) (job_ID j)) = Some (next_token (pass_runner p)) \<and>
    next_token (pass_runner p) \<notin> run_token ` set (executing r')"
proof
  define r where "r = pass_runner p"
  show "snd (Cancel (note_run (pass_runner p) j) (job_ID j)) = Some (next_token (pass_runner p))"
    using assms(3) by (simp add: Cancel_def note_run_def)
  obtain r2 where s: "Save (note_run r j) (launched_job now j) = (r2, Inl e)"
    using assms(7) by (metis r_def prod.collapse)
  have inv: "runner_inv (in_pass now p (j # js))" using reachable_inv [OF assms(1,2)] .
  then have "run_token x < next_token r" if "x \<in> set (executing r)" for x
    using exclusiveD(3) [of r "core x"] that by (auto simp: runner_inv_def in_pass_def run_inv_def r_def prof_def)
  then have "next_token r \<notin> run_token ` set (executing r)" by (metis (no_types, lifting) imageE less_irrefl)
  then have "unrun (next_token r) (release r2 (job_ID j) (job_Kind j))"
    using Save_runs [OF s] by (auto simp: unrun_def release_def note_run_def)
  moreover have "pass_runner (dispatch_one now p j) = release r2 (job_ID j) (job_Kind j)"
    using assms(4-6) s by (simp add: dispatch_one_def Let_def r_def)
  moreover have "runner_inv (in_pass now (dispatch_one now p j) js)" using step_inv [OF runner_step.pass_job inv] .
  ultimately have "unrun (next_token r) r'" using unrun_steps [OF assms(8)] by (simp add: in_pass_def)
  then show "next_token (pass_runner p) \<notin> run_token ` set (executing r')" by (simp add: unrun_def r_def)
qed

definition demo_failing :: "bool \<Rightarrow> bool list \<Rightarrow> Runner" where
  "demo_failing w fs = (demo_at 1 Map.empty 0 [] 0 w (demo_job ''a'') [])\<lparr>db := \<lparr>rows = [demo_job ''a''], only_kinds = [], faults = fs\<rparr>\<rparr>"

lemma demo_failing_pass:
  "runs_to (demo_queue 1 [False, False, True]) (in_pass 7 (start_pass (demo_failing False [True])) [demo_job ''a''])"
proof -
  let ?q = "demo_queue 1 [False, False, True]"
  have "recovered ?q 6 = demo_failing True [False, True]"
    by (simp add: demo_failing_def recovered_def demo_queue_def queue_defs DefaultMaxAttempts_def DefaultBackoffBase_def
      DefaultBackoffCap_def DefaultRetention_def DefaultHandlerTimeout_def fun_eq_iff)
  then have "runs_to ?q (demo_failing True [False, True], Parked)" using runs_to.starts [of ?q 6] by simp
  then have "runs_to ?q ((demo_failing True [False, True])\<lparr>wake := False\<rparr>, Passing)"
    by (rule runs_to.step [OF _ runner_step.wake]) (simp_all add: demo_failing_def demo_at_def)
  then have p: "runs_to ?q (demo_failing False [False, True], Passing)" by (simp add: demo_failing_def demo_at_def)
  show ?thesis
    by (rule runs_to.step [OF p runner_step.pass_starts])
      (simp add: demo_failing_def demo_at_def on_db_def EligibleJobs_def statement_def demo_job_def claimable_def eligiblePageSize_def
        SliceStable_def recordToJob_def rawJSON_def)
qed

theorem Cancel_of_failed_launch_witness:
  "snd (Cancel (note_run (demo_failing False [True]) (demo_job ''a'')) ''a'') = Some 0"
proof -
  let ?p = "start_pass (demo_failing False [True])"
  obtain r' ph' where "in_pass 7 (dispatch_one 7 ?p (demo_job ''a'')) [] = (r', ph')" by fastforce
  then have last: "runner_step\<^sup>*\<^sup>* (in_pass 7 (dispatch_one 7 ?p (demo_job ''a'')) []) (r', ph')" by simp
  have "ready_to_start (demo_queue 1 [False, False, True])"
    by (simp add: ready_to_start_def demo_queue_def RegisterWith_def New_def demo_kind_def)
  from Cancel_of_failed_launch [OF this demo_failing_pass _ _ _ _ _ last, of "\<lparr>h_timeout = 5 * minute, h_limit = 1, h_interval = 0\<rparr>" StoreFailed]
  show ?thesis
    by (simp add: start_pass_def demo_failing_def demo_at_def runnable_def demo_job_def note_run_def Save_def on_db_def UpsertJob_def statement_def)
qed

end
