(* ===== verification/PR_Readiness.thy ===== *)
theory PR_Readiness
  imports Go_Time Go_Strings Go_Sort "HOL-Library.List_Lexorder" "HOL-Library.Char_ord"
begin

text \<open>
  The readiness of a watched pull request: \<open>internal/prreadiness/readiness.go\<close>. \<open>Evaluate\<close> judges an
  observation, \<open>Advance\<close> moves the cursor of a watch over it and says what to announce. Strings are byte
  lists. \<open>ToUpper\<close> and \<open>EqualFold\<close> are exact as far as ASCII letters go on one side, which is how the
  code uses them: it compares with ASCII words. Logins are compared by their lower case; outside ASCII,
  which GitHub's logins never are, the model's lower case keeps the bytes. A map from thread ids to
  counters is a function whose value is zero where the map has no entry; counters are 64 bits wide.
\<close>

subsection \<open>Strings\<close>

definition upper_byte :: "char \<Rightarrow> char" where
  "upper_byte c = (let n = of_char c :: nat in if 97 \<le> n \<and> n \<le> 122 then char_of (n - 32) else c)"

definition dotless_i :: string where
  "dotless_i = map char_of [0xC4, 0xB1 :: nat]"

definition long_s :: string where
  "long_s = map char_of [0xC5, 0xBF :: nat]"

fun ToUpper :: "string \<Rightarrow> string" where
  "ToUpper [] = []"
| "ToUpper (c # cs) =
     (if HasPrefix (c # cs) dotless_i then CHR ''I'' # ToUpper (drop 1 cs)
      else if HasPrefix (c # cs) long_s then CHR ''S'' # ToUpper (drop 1 cs)
      else upper_byte c # ToUpper cs)"

text \<open>Case folding: the capitals, and the two other code points that fold to an ASCII letter.\<close>

fun fold_case :: "string \<Rightarrow> string" where
  "fold_case [] = []"
| "fold_case (c # cs) =
     (if HasPrefix (c # cs) kelvin_sign then CHR ''k'' # fold_case (drop 2 cs)
      else if HasPrefix (c # cs) long_s then CHR ''s'' # fold_case (drop 1 cs)
      else lower_byte c # fold_case cs)"

definition EqualFold :: "string \<Rightarrow> string \<Rightarrow> bool" where
  "EqualFold s t = (fold_case s = fold_case t)"

definition TrimSuffix :: "string \<Rightarrow> string \<Rightarrow> string" where
  "TrimSuffix s suffix = (if HasSuffix s suffix then take (length s - length suffix) s else s)"

definition sort_Strings :: "string list \<Rightarrow> string list" where
  "sort_Strings xs = SliceStable (\<lambda>a b. a < b) xs"

fun dec :: "nat \<Rightarrow> string" where
  "dec n = (if n < 10 then [char_of (48 + n)] else dec (n div 10) @ [char_of (48 + n mod 10)])"

declare dec.simps [simp del]

definition bump :: "nat \<Rightarrow> nat" where
  "bump n = (n + 1) mod 2 ^ 64"

subsection \<open>Configuration\<close>

definition ModeGreen :: string where "ModeGreen = ''green''"
definition ModeCodex :: string where "ModeCodex = ''codex''"
definition ModeFormalReview :: string where "ModeFormalReview = ''formal-review''"
definition CodexSettle :: duration where "CodexSettle = 30 * second"

datatype pr_error = BadMode string | BadOwnComments string | ReviewerNeedsFormal

definition ParseMode :: "string \<Rightarrow> pr_error + string" where
  "ParseMode value =
     (let mode = TrimSpace (ToLower value) in
      if mode = [] then Inr ModeGreen
      else if mode = ModeGreen \<or> mode = ModeCodex \<or> mode = ModeFormalReview then Inr mode
      else Inl (BadMode value))"

definition OwnCommentsQuiet :: string where "OwnCommentsQuiet = ''quiet''"
definition OwnCommentsRing :: string where "OwnCommentsRing = ''ring''"

definition ParseOwnComments :: "string \<Rightarrow> pr_error + string" where
  "ParseOwnComments value =
     (let v = TrimSpace (ToLower value) in
      if v = [] \<or> v = OwnCommentsQuiet then Inr OwnCommentsQuiet
      else if v = OwnCommentsRing then Inr OwnCommentsRing
      else Inl (BadOwnComments value))"

definition ValidateConfig :: "string \<Rightarrow> string \<Rightarrow> pr_error option" where
  "ValidateConfig mode reviewer =
     (if mode \<noteq> ModeGreen \<and> mode \<noteq> ModeCodex \<and> mode \<noteq> ModeFormalReview then Some (BadMode mode)
      else if TrimSpace reviewer \<noteq> [] \<and> mode \<noteq> ModeFormalReview then Some ReviewerNeedsFormal
      else None)"

subsection \<open>Observations and cursors\<close>

record pr_Check =
  chk_ID :: string
  chk_Name :: string
  chk_State :: string
  chk_URL :: string

record FeedbackItem =
  fb_ID :: string
  fb_Kind :: string
  fb_Author :: string
  fb_ByViewer :: bool
  fb_Body :: string
  fb_Location :: string
  fb_CreatedAt :: time

record ThreadState =
  thr_ID :: string
  thr_Resolved :: bool
  thr_Author :: string
  thr_ByViewer :: bool
  thr_Body :: string
  thr_Location :: string

record ReviewOpinion =
  op_Actor :: string
  op_State :: string
  op_Body :: string

record pr_Observation =
  obs_Number :: int
  obs_URL :: string
  obs_Title :: string
  ViewerAuthored :: bool
  obs_State :: string
  Draft :: bool
  Merged :: bool
  obs_HeadSHA :: string
  obs_HeadRef :: string
  MergeStateStatus :: string
  ReviewDecision :: string
  CodexThumbsUp :: bool
  CodexEyes :: bool
  ReviewOpinions :: "ReviewOpinion list"
  RequestedReviewers :: "string list"
  Checks :: "pr_Check list"
  Feedback :: "FeedbackItem list"
  Threads :: "ThreadState list"
  FeedbackComplete :: bool

record Cursor =
  Initialized :: bool
  FeedbackBaselinePending :: bool
  HeadSHA :: string
  HeadObservedAt :: time
  SeenFeedbackIDs :: "string list"
  ThreadStates :: "string \<rightharpoonup> bool"
  ThreadGenerations :: "string \<Rightarrow> nat"
  LastAction :: string
  ActionGeneration :: nat
  LastReviewDecision :: string

definition new_Cursor :: Cursor where
  "new_Cursor = \<lparr>Initialized = False, FeedbackBaselinePending = False, HeadSHA = [], HeadObservedAt = 0, SeenFeedbackIDs = [],
     ThreadStates = Map.empty, ThreadGenerations = (\<lambda>_. 0), LastAction = [], ActionGeneration = 0, LastReviewDecision = []\<rparr>"

record Evaluation =
  ev_State :: string
  ev_Reason :: string
  ev_Description :: string
  SettlingUntil :: "time option"

definition StateReady :: string where "StateReady = ''ready''"
definition StateWaiting :: string where "StateWaiting = ''waiting''"
definition StateBlocked :: string where "StateBlocked = ''blocked''"
definition StateMerged :: string where "StateMerged = ''merged''"
definition StateClosed :: string where "StateClosed = ''closed''"
definition StateUnknown :: string where "StateUnknown = ''unknown''"

definition evaluation :: "string \<Rightarrow> string \<Rightarrow> string \<Rightarrow> Evaluation" where
  "evaluation state reason description =
     \<lparr>ev_State = state, ev_Reason = reason, ev_Description = description, SettlingUntil = None\<rparr>"

subsection \<open>Evaluating\<close>

definition mergeStateReason :: "string \<Rightarrow> string \<times> string" where
  "mergeStateReason state =
     (if state = ''BLOCKED'' then (''repository_policy_blocked'', ''GitHub reports the pull request blocked by repository policy'')
      else if state = ''BEHIND'' then (''behind_base'', ''the pull request branch is behind its base'')
      else if state = ''DIRTY'' then (''merge_conflict'', ''the pull request has merge conflicts'')
      else if state = ''UNSTABLE'' then (''checks_not_green'', ''one or more checks are not green'')
      else if state = ''DRAFT'' then (''draft'', ''pull request is a draft'')
      else if state = [] \<or> state = ''UNKNOWN''
      then (''merge_state_unknown'', ''GitHub has not determined the pull request merge state'')
      else (''merge_state_unknown'', ''GitHub returned an unknown pull request merge state''))"

definition stateForMergeState :: "string \<Rightarrow> string" where
  "stateForMergeState state = (if state = [] \<or> state = ''UNKNOWN'' then StateUnknown else StateBlocked)"

definition normalize :: "string \<Rightarrow> string" where
  "normalize value = TrimSuffix (ToLower (TrimSpace value)) ''[bot]''"

definition sameActor :: "string \<Rightarrow> string \<Rightarrow> bool" where
  "sameActor left right = (normalize left = normalize right)"

definition reviewOpinion :: "ReviewOpinion list \<Rightarrow> string \<Rightarrow> ReviewOpinion" where
  "reviewOpinion opinions reviewer =
     (case find (\<lambda>opinion. sameActor (op_Actor opinion) reviewer) opinions of
        Some opinion \<Rightarrow> opinion
      | None \<Rightarrow> \<lparr>op_Actor = reviewer, op_State = [], op_Body = []\<rparr>)"

definition reviewerRequested :: "string list \<Rightarrow> string \<Rightarrow> bool" where
  "reviewerRequested requested reviewer = list_ex (\<lambda>actor. sameActor actor reviewer) requested"

text \<open>The first part of \<open>Evaluate\<close>: a new head starts the settling and the action over.\<close>

definition note_head :: "pr_Observation \<Rightarrow> Cursor \<Rightarrow> time \<Rightarrow> Cursor" where
  "note_head ob c now =
     (if obs_HeadSHA ob \<noteq> [] \<and> obs_HeadSHA ob \<noteq> HeadSHA c
      then c\<lparr>HeadSHA := obs_HeadSHA ob, HeadObservedAt := now,
             ActionGeneration := (if LastAction c \<noteq> [] then bump (ActionGeneration c) else ActionGeneration c),
             LastAction := []\<rparr>
      else c)"

text \<open>The modes: Codex with its settling time, and formal reviews.\<close>

definition evaluate_codex :: "pr_Observation \<Rightarrow> Cursor \<Rightarrow> time \<Rightarrow> Evaluation \<times> Cursor" where
  "evaluate_codex ob c now =
     (let c = (if is_zero (HeadObservedAt c) then c\<lparr>HeadObservedAt := now\<rparr> else c);
          deadline = HeadObservedAt c + CodexSettle in
      if now < deadline
      then ((evaluation StateWaiting ''codex_settling'' ''waiting for the Codex review signal to settle'')\<lparr>SettlingUntil := Some deadline\<rparr>, c)
      else if CodexEyes ob then (evaluation StateWaiting ''codex_reviewing'' ''Codex is reviewing the pull request'', c)
      else if CodexThumbsUp ob
      then (evaluation StateReady ''codex_approved_best_effort'' ''Codex has a current thumbs-up reaction (best effort)'', c)
      else (evaluation StateWaiting ''codex_approval_missing'' ''waiting for a Codex thumbs-up reaction'', c))"

definition evaluate_formal :: "pr_Observation \<Rightarrow> string \<Rightarrow> Evaluation" where
  "evaluate_formal ob reviewer =
     (if TrimSpace reviewer = [] then
        (let decision = ToUpper (TrimSpace (ReviewDecision ob)) in
         if decision = ''APPROVED'' then evaluation StateReady ''formal_review_approved'' ''GitHub reports the pull request approved''
         else if decision = ''CHANGES_REQUESTED'' then evaluation StateWaiting ''changes_requested'' ''a formal review requested changes''
         else if decision = ''REVIEW_REQUIRED'' then evaluation StateWaiting ''review_required'' ''GitHub reports that a review is required''
         else if decision = [] then evaluation StateWaiting ''formal_approval_missing'' ''waiting for a formal approval''
         else evaluation StateUnknown ''review_decision_unknown'' ''GitHub returned an unknown review decision'')
      else if reviewerRequested (RequestedReviewers ob) reviewer
      then evaluation StateWaiting ''selected_reviewer_requested'' (''waiting for '' @ reviewer @ '' to review the pull request'')
      else
        (let state = ToUpper (TrimSpace (op_State (reviewOpinion (ReviewOpinions ob) reviewer))) in
         if state = ''APPROVED'' then evaluation StateReady ''selected_reviewer_approved'' (reviewer @ '' approved the pull request'')
         else if state = ''CHANGES_REQUESTED'' then evaluation StateWaiting ''changes_requested'' (reviewer @ '' requested changes'')
         else if state = ''DISMISSED'' then evaluation StateWaiting ''review_dismissed'' (reviewer @ [CHR 0x27] @ ''s review was dismissed'')
         else if state = [] then evaluation StateWaiting ''selected_reviewer_approval_missing'' (''waiting for '' @ reviewer @ '' to approve'')
         else evaluation StateUnknown ''selected_reviewer_opinion_unknown'' ''GitHub returned an unknown selected-reviewer opinion''))"

definition Evaluate :: "pr_Observation \<Rightarrow> string \<Rightarrow> string \<Rightarrow> Cursor \<Rightarrow> time \<Rightarrow> Evaluation \<times> Cursor" where
  "Evaluate ob mode reviewer c now =
     (let c = note_head ob c now;
          state = ToLower (TrimSpace (obs_State ob));
          mergeState = ToUpper (TrimSpace (MergeStateStatus ob)) in
      if Merged ob \<or> state = StateMerged then (evaluation StateMerged ''pull_request_merged'' ''pull request merged'', c)
      else if state = StateClosed then (evaluation StateClosed ''pull_request_closed'' ''pull request closed'', c)
      else if state \<noteq> ''open''
      then (evaluation StateUnknown ''pull_request_state_unknown'' ''GitHub returned an unknown pull request state'', c)
      else if Draft ob then (evaluation StateBlocked ''draft'' ''pull request is a draft'', c)
      else if obs_HeadSHA ob = [] then (evaluation StateUnknown ''head_unknown'' ''GitHub returned no pull request head'', c)
      else if mergeState \<noteq> ''CLEAN'' \<and> mergeState \<noteq> ''HAS_HOOKS''
      then (evaluation (stateForMergeState mergeState) (fst (mergeStateReason mergeState)) (snd (mergeStateReason mergeState)), c)
      else if mode = ModeGreen
      then (evaluation StateReady ''green'' ''GitHub reports the pull request ready to merge or enqueue'', c)
      else if mode = ModeCodex then evaluate_codex ob c now
      else if mode = ModeFormalReview then (evaluate_formal ob reviewer, c)
      else (evaluation StateUnknown ''mode_unknown'' ''readiness mode is unknown'', c))"

subsection \<open>Advancing\<close>

record Action =
  act_Kind :: string
  act_ID :: string
  act_Details :: "string list"
  act_Feedback :: "FeedbackItem option"

record pr_Transition =
  tr_Evaluation :: Evaluation
  tr_Cursor :: Cursor
  tr_Actions :: "Action list"

definition compactDetails :: "string list \<Rightarrow> string list" where
  "compactDetails values = filter (\<lambda>v. v \<noteq> []) (map TrimSpace values)"

text \<open>
  \<open>strings.EqualFold\<close> and the sort make the action an observation calls for: the merge or the closing,
  failed checks, requested changes, or readiness.
\<close>

definition change_detail :: "ReviewOpinion \<Rightarrow> string list" where
  "change_detail opinion =
     (let detail = TrimSpace (op_Body opinion); actor = TrimSpace (op_Actor opinion) in
      if detail = [] then [] else if actor \<noteq> [] then [actor @ '': '' @ detail] else [detail])"

definition currentAction :: "pr_Observation \<Rightarrow> Evaluation \<Rightarrow> string \<times> string list" where
  "currentAction ob ev =
     (if Merged ob \<or> ev_State ev = StateMerged then (''merged'', [])
      else if ev_State ev = StateClosed then (''closed'', [])
      else
        (let failed = map chk_Name (filter (\<lambda>c. EqualFold (chk_State c) ''failure'' \<or> EqualFold (chk_State c) ''failed'') (Checks ob)) in
         if failed \<noteq> [] then (''checks_failed'', sort_Strings failed)
         else
           (let against = filter (\<lambda>p. EqualFold (op_State p) ''CHANGES_REQUESTED'') (ReviewOpinions ob) in
            if EqualFold (ReviewDecision ob) ''CHANGES_REQUESTED'' \<or> against \<noteq> []
            then (''changes_requested'', sort_Strings (concat (map change_detail against)))
            else if ev_State ev = StateReady then (''ready'', [ev_Reason ev])
            else ([], []))))"

definition feedback_action :: "FeedbackItem \<Rightarrow> Action" where
  "feedback_action f = \<lparr>act_Kind = fb_Kind f, act_ID = ''feedback:'' @ fb_ID f, act_Details = [], act_Feedback = Some f\<rparr>"

definition new_feedback :: "bool \<Rightarrow> string list \<Rightarrow> FeedbackItem list \<Rightarrow> Action list" where
  "new_feedback quiet seen fs =
     map feedback_action (filter (\<lambda>f. \<not> (fb_ID f = [] \<or> fb_ID f \<in> set seen \<or> quiet \<and> fb_ByViewer f)) fs)"

text \<open>The loop over the threads: the generations so far, and what to announce of the threads left.\<close>

fun reopened :: "bool \<Rightarrow> bool \<Rightarrow> (string \<rightharpoonup> bool) \<Rightarrow> (string \<Rightarrow> nat) \<Rightarrow> ThreadState list \<Rightarrow> (string \<Rightarrow> nat) \<times> Action list" where
  "reopened quiet mine old gens [] = (gens, [])"
| "reopened quiet mine old gens (t # ts) =
     (if old (thr_ID t) = Some True \<and> \<not> thr_Resolved t
      then (let gens = gens(thr_ID t := bump (gens (thr_ID t))) in
            case reopened quiet mine old gens ts of
              (gens', rest) \<Rightarrow>
                (gens', if quiet \<and> thr_ByViewer t \<and> mine then rest
                  else \<lparr>act_Kind = ''thread_reopened'', act_ID = ''thread:'' @ thr_ID t @ '':'' @ dec (gens (thr_ID t)),
                        act_Details = compactDetails [thr_Author t, thr_Location t, thr_Body t], act_Feedback = None\<rparr> # rest))
      else reopened quiet mine old gens ts)"

fun see_feedback :: "string list \<Rightarrow> FeedbackItem list \<Rightarrow> string list" where
  "see_feedback seen [] = seen"
| "see_feedback seen (f # fs) =
     see_feedback (if fb_ID f \<noteq> [] \<and> fb_ID f \<notin> set seen then seen @ [fb_ID f] else seen) fs"

definition see_threads :: "(string \<rightharpoonup> bool) \<Rightarrow> ThreadState list \<Rightarrow> (string \<rightharpoonup> bool)" where
  "see_threads old ts = fold (\<lambda>t m. if thr_ID t \<noteq> [] then m(thr_ID t \<mapsto> thr_Resolved t) else m) ts old"

text \<open>The part of \<open>Advance\<close> about feedback and threads.\<close>

definition take_feedback :: "Cursor \<Rightarrow> Cursor \<Rightarrow> pr_Observation \<Rightarrow> string \<Rightarrow> Cursor \<times> Action list" where
  "take_feedback c next ob ownComments =
     (let pending = \<not> Initialized c \<or> FeedbackBaselinePending c;
          quiet = (ownComments \<noteq> OwnCommentsRing);
          (gens, reopens) = (if \<not> pending \<and> FeedbackComplete ob
            then reopened quiet (ViewerAuthored ob) (ThreadStates c) (ThreadGenerations next) (Threads ob)
            else (ThreadGenerations next, []));
          fresh = (if \<not> pending \<and> FeedbackComplete ob then new_feedback quiet (SeenFeedbackIDs c) (Feedback ob) else []);
          next = next\<lparr>ThreadGenerations := gens\<rparr> in
      if FeedbackComplete ob
      then (next\<lparr>SeenFeedbackIDs := sort_Strings (see_feedback (SeenFeedbackIDs next) (Feedback ob)),
                 ThreadStates := see_threads (ThreadStates next) (Threads ob),
                 FeedbackBaselinePending := False\<rparr>, fresh @ reopens)
      else (if \<not> Initialized c then next\<lparr>FeedbackBaselinePending := True\<rparr> else next, fresh @ reopens))"

text \<open>The part of \<open>Advance\<close> about the action the state of the pull request calls for.\<close>

definition fingerprint :: "string \<times> string list \<Rightarrow> string" where
  "fingerprint a = fst a @ [CHR 0x00] @ join_with [CHR 0x00] (snd a)"

definition take_action :: "Cursor \<Rightarrow> string \<times> string list \<Rightarrow> Cursor \<times> Action list" where
  "take_action next a =
     (if fingerprint a = LastAction next then (next, [])
      else (let next = (if LastAction next \<noteq> [] then next\<lparr>ActionGeneration := bump (ActionGeneration next)\<rparr> else next) in
            if fst a = [] then (next\<lparr>LastAction := []\<rparr>, [])
            else (next\<lparr>LastAction := fingerprint a\<rparr>,
                  [\<lparr>act_Kind = fst a, act_ID = ''action:'' @ dec (ActionGeneration next) @ '':'' @ fingerprint a,
                    act_Details = snd a, act_Feedback = None\<rparr>])))"

definition Advance :: "Cursor \<Rightarrow> pr_Observation \<Rightarrow> string \<Rightarrow> string \<Rightarrow> string \<Rightarrow> time \<Rightarrow> pr_Transition" where
  "Advance c ob mode reviewer ownComments now =
     (let (ev, next) = Evaluate ob mode reviewer c now;
          (next, actions) = take_feedback c next ob ownComments;
          (next, more) = take_action next (currentAction ob ev)
      in \<lparr>tr_Evaluation = ev,
          tr_Cursor = next\<lparr>LastReviewDecision := ToUpper (TrimSpace (ReviewDecision ob)), Initialized := True\<rparr>,
          tr_Actions = actions @ more\<rparr>)"

definition PreserveFeedbackCursor :: "Cursor \<Rightarrow> Cursor" where
  "PreserveFeedbackCursor c =
     new_Cursor\<lparr>Initialized := Initialized c, FeedbackBaselinePending := FeedbackBaselinePending c,
       SeenFeedbackIDs := SeenFeedbackIDs c, ThreadStates := ThreadStates c, ThreadGenerations := ThreadGenerations c\<rparr>"

end
