(* ===== verification/PR_Laws.thy ===== *)
theory PR_Laws
  imports PR_Readiness
begin

text \<open>
  What the readiness of a pull request means, and what a watch announces: readiness is exactly the
  conditions of its mode, no announcement of a watch is made twice under the same identity, and polling
  again with nothing new announces nothing.
\<close>

subsection \<open>Ready\<close>

lemmas states = StateReady_def StateWaiting_def StateBlocked_def StateMerged_def StateClosed_def StateUnknown_def
lemmas modes = ModeGreen_def ModeCodex_def ModeFormalReview_def

lemma ev_State_evaluation [simp]: "ev_State (evaluation s r d) = s"
  by (simp add: evaluation_def)

lemma stateForMergeState_not_ready [simp]: "stateForMergeState m \<noteq> StateReady"
  by (simp add: stateForMergeState_def states)

lemma formal_ready:
  "ev_State (evaluate_formal ob reviewer) = StateReady \<longleftrightarrow>
     (if TrimSpace reviewer = [] then ToUpper (TrimSpace (ReviewDecision ob)) = ''APPROVED''
      else \<not> reviewerRequested (RequestedReviewers ob) reviewer \<and>
        ToUpper (TrimSpace (op_State (reviewOpinion (ReviewOpinions ob) reviewer))) = ''APPROVED'')"
  by (simp add: evaluate_formal_def Let_def states)

lemma codex_ready:
  "ev_State (fst (evaluate_codex ob c now)) = StateReady \<longleftrightarrow>
     HeadObservedAt c \<noteq> 0 \<and> HeadObservedAt c + CodexSettle \<le> now \<and> \<not> CodexEyes ob \<and> CodexThumbsUp ob"
  by (auto simp: evaluate_codex_def Let_def states CodexSettle_def go_time_units)

text \<open>
  C11. A pull request is called ready exactly when it is open, not merged and no draft, its head is known,
  GitHub calls its merge state clean, and its mode is satisfied: green needs no more; Codex needs a
  thumbs-up that is not under review, on a head that was first seen at least 30 seconds ago; a formal
  review needs the approval of the selected reviewer, who must not have been asked again, or GitHub's
  decision when none is selected. Every other observation, also a malformed one, is not ready.
\<close>

theorem Evaluate_ready_iff:
  "ev_State (fst (Evaluate ob mode reviewer c now)) = ''ready'' \<longleftrightarrow>
     ToLower (TrimSpace (obs_State ob)) = ''open'' \<and> \<not> Merged ob \<and> \<not> Draft ob \<and> obs_HeadSHA ob \<noteq> [] \<and>
     ToUpper (TrimSpace (MergeStateStatus ob)) \<in> {''CLEAN'', ''HAS_HOOKS''} \<and>
     (mode = ''green'' \<or>
      mode = ''codex'' \<and> obs_HeadSHA ob = HeadSHA c \<and> HeadObservedAt c \<noteq> 0 \<and> HeadObservedAt c + 30 * second \<le> now \<and>
        CodexThumbsUp ob \<and> \<not> CodexEyes ob \<or>
      mode = ''formal-review'' \<and>
        (if TrimSpace reviewer = [] then ToUpper (TrimSpace (ReviewDecision ob)) = ''APPROVED''
         else \<not> reviewerRequested (RequestedReviewers ob) reviewer \<and>
           ToUpper (TrimSpace (op_State (reviewOpinion (ReviewOpinions ob) reviewer))) = ''APPROVED''))"
proof -
  have settle: "0 < CodexSettle" by (simp add: CodexSettle_def go_time_units)
  have head: "HeadObservedAt (note_head ob c now) = (if obs_HeadSHA ob \<noteq> [] \<and> obs_HeadSHA ob \<noteq> HeadSHA c then now else HeadObservedAt c)"
    by (simp add: note_head_def)
  have codex: "ev_State (fst (evaluate_codex ob (note_head ob c now) now)) = StateReady \<longleftrightarrow>
      (obs_HeadSHA ob = [] \<or> obs_HeadSHA ob = HeadSHA c) \<and> HeadObservedAt c \<noteq> 0 \<and> HeadObservedAt c + CodexSettle \<le> now \<and>
        \<not> CodexEyes ob \<and> CodexThumbsUp ob"
    unfolding codex_ready head using settle by auto
  have "ev_State (fst (Evaluate ob mode reviewer c now)) = StateReady \<longleftrightarrow>
      ToLower (TrimSpace (obs_State ob)) = ''open'' \<and> \<not> Merged ob \<and> \<not> Draft ob \<and> obs_HeadSHA ob \<noteq> [] \<and>
      ToUpper (TrimSpace (MergeStateStatus ob)) \<in> {''CLEAN'', ''HAS_HOOKS''} \<and>
      (mode = ModeGreen \<or> mode = ModeCodex \<and> ev_State (fst (evaluate_codex ob (note_head ob c now) now)) = StateReady \<or>
       mode = ModeFormalReview \<and> ev_State (evaluate_formal ob reviewer) = StateReady)"
    unfolding Evaluate_def Let_def
    using stateForMergeState_not_ready [of "ToUpper (TrimSpace (MergeStateStatus ob))"] by (simp add: states modes)
  then show ?thesis unfolding codex formal_ready by (auto simp: StateReady_def modes CodexSettle_def)
qed

subsection \<open>Identities\<close>

lemma append_sep_eq:
  assumes "xs @ c # ys = xs' @ c # ys'" "c \<notin> set xs" "c \<notin> set xs'"
  shows "xs = xs' \<and> ys = ys'"
  using assms
proof (induction xs arbitrary: xs')
  case Nil
  then show ?case by (cases xs') auto
next
  case (Cons x xs)
  then show ?case by (cases xs') auto
qed

lemma dec_chars: "set (dec n) \<subseteq> (\<lambda>d. char_of (48 + d)) ` {..<(10 :: nat)}"
proof (induction n rule: dec.induct)
  case (1 n)
  then show ?case by (cases "n < 10") (auto simp: dec.simps [of n])
qed

lemma no_colon_digit: "CHR '':'' \<notin> (\<lambda>d. char_of (48 + d)) ` {..<(10 :: nat)}"
proof
  assume "CHR '':'' \<in> (\<lambda>d. char_of (48 + d)) ` {..<(10 :: nat)}"
  then obtain d :: nat where d: "d < 10" "CHR '':'' = (char_of (48 + d) :: char)" by auto
  then have "(of_char (CHR '':'') :: nat) = of_char (char_of (48 + d) :: char)" by simp
  then show False using d(1) by simp
qed

lemma dec_no_colon: "CHR '':'' \<notin> set (dec n)"
  using dec_chars no_colon_digit by blast

lemma digit_inj: "(a :: nat) < 10 \<Longrightarrow> b < 10 \<Longrightarrow> (char_of (48 + a) :: char) = char_of (48 + b) \<Longrightarrow> a = b"
proof -
  assume ab: "a < 10" "b < 10" "(char_of (48 + a) :: char) = char_of (48 + b)"
  then have "(of_char (char_of (48 + a) :: char) :: nat) = of_char (char_of (48 + b) :: char)" by simp
  then show "a = b" using ab(1,2) by simp
qed

lemma dec_not_Nil [simp]: "dec n \<noteq> []"
  by (subst dec.simps) simp

lemma dec_inj: "dec m = dec n \<Longrightarrow> m = n"
proof (induction m arbitrary: n rule: dec.induct)
  case (1 m)
  have eq: "dec m = dec n" by (rule 1)
  show ?case
  proof (cases "m < 10")
    case True
    then have "n < 10" using eq dec_not_Nil [of "n div 10", symmetric] by (auto simp: dec.simps [of m] dec.simps [of n] split: if_splits)
    then show ?thesis using eq True digit_inj [of m n] by (simp add: dec.simps [of m] dec.simps [of n])
  next
    case False
    then have n: "\<not> n < 10" using eq dec_not_Nil [of "m div 10"] by (auto simp: dec.simps [of m] dec.simps [of n] split: if_splits)
    then have "dec (m div 10) = dec (n div 10)" "(char_of (48 + m mod 10) :: char) = char_of (48 + n mod 10)"
      using eq False by (simp_all add: dec.simps [of m] dec.simps [of n])
    then have "m div 10 = n div 10" "m mod 10 = n mod 10"
      using 1(1) [OF False] digit_inj [of "m mod 10" "n mod 10"] by simp_all
    then show ?thesis by (metis mod_div_mult_eq)
  qed
qed

definition feedback_id :: "string \<Rightarrow> string" where "feedback_id x = ''feedback:'' @ x"
definition thread_id :: "string \<Rightarrow> nat \<Rightarrow> string" where "thread_id x g = ''thread:'' @ x @ '':'' @ dec g"
definition action_id :: "nat \<Rightarrow> string \<Rightarrow> string" where "action_id g f = ''action:'' @ dec g @ '':'' @ f"

lemma id_kinds [simp]:
  "feedback_id x \<noteq> thread_id y g" "feedback_id x \<noteq> action_id g f" "thread_id y g \<noteq> action_id g' f"
  "thread_id y g \<noteq> feedback_id x" "action_id g f \<noteq> feedback_id x" "action_id g' f \<noteq> thread_id y g"
  by (simp_all add: feedback_id_def thread_id_def action_id_def)

lemma feedback_id_inj [simp]: "feedback_id x = feedback_id y \<longleftrightarrow> x = y"
  by (simp add: feedback_id_def)

lemma action_id_inj [simp]: "action_id g f = action_id g' f' \<longleftrightarrow> g = g' \<and> f = f'"
proof
  assume "action_id g f = action_id g' f'"
  then have "dec g @ CHR '':'' # f = dec g' @ CHR '':'' # f'" by (simp add: action_id_def)
  then show "g = g' \<and> f = f'" using append_sep_eq dec_no_colon dec_inj by metis
qed simp

lemma thread_id_inj [simp]: "thread_id x g = thread_id y h \<longleftrightarrow> x = y \<and> g = h"
proof
  assume "thread_id x g = thread_id y h"
  then have "rev (x @ CHR '':'' # dec g) = rev (y @ CHR '':'' # dec h)" by (simp add: thread_id_def)
  then have "rev (dec g) @ CHR '':'' # rev x = rev (dec h) @ CHR '':'' # rev y" by simp
  then show "x = y \<and> g = h" using append_sep_eq dec_no_colon dec_inj by (metis rev_is_rev_conv set_rev)
qed simp

subsection \<open>What a watch has announced\<close>

text \<open>
  The identities that the cursor rules out: of the feedback it has seen, of the generations of a thread
  up to the current one, and of the actions of former generations, or of this one if it is the last.
\<close>

definition known :: "Cursor \<Rightarrow> string set" where
  "known c = feedback_id ` set (SeenFeedbackIDs c) \<union> {thread_id x g |x g. g \<le> ThreadGenerations c x} \<union>
     {action_id g f |g f. f \<noteq> [] \<and> (g < ActionGeneration c \<or> g = ActionGeneration c \<and> f = LastAction c)}"

lemma known_iff [simp]:
  "feedback_id x \<in> known c \<longleftrightarrow> x \<in> set (SeenFeedbackIDs c)"
  "thread_id x g \<in> known c \<longleftrightarrow> g \<le> ThreadGenerations c x"
  "action_id g f \<in> known c \<longleftrightarrow> f \<noteq> [] \<and> (g < ActionGeneration c \<or> g = ActionGeneration c \<and> f = LastAction c)"
  by (auto simp: known_def)

lemma known_mono:
  assumes "set (SeenFeedbackIDs c) \<subseteq> set (SeenFeedbackIDs c')" "\<And>x. ThreadGenerations c x \<le> ThreadGenerations c' x"
    "ActionGeneration c < ActionGeneration c' \<or> ActionGeneration c = ActionGeneration c' \<and> (LastAction c = [] \<or> LastAction c = LastAction c')"
  shows "known c \<subseteq> known c'"
proof
  fix i assume "i \<in> known c"
  then consider x where "i = feedback_id x" "x \<in> set (SeenFeedbackIDs c)" | x g where "i = thread_id x g" "g \<le> ThreadGenerations c x"
    | g f where "i = action_id g f" "f \<noteq> []" "g < ActionGeneration c \<or> g = ActionGeneration c \<and> f = LastAction c"
    unfolding known_def by blast
  then show "i \<in> known c'"
  proof cases
    case 2
    then show ?thesis using assms(2) [of x] by simp
  qed (use assms(1,3) in auto)
qed

text \<open>
  A piece of a step from \<open>c\<close> to \<open>c'\<close> that announces \<open>acts\<close>: the identities are new, different from each
  other, and ruled out afterwards.
\<close>

definition announces :: "Cursor \<Rightarrow> Action list \<Rightarrow> Cursor \<Rightarrow> bool" where
  "announces c acts c' \<longleftrightarrow> distinct (map act_ID acts) \<and> act_ID ` set acts \<inter> known c = {} \<and> known c \<union> act_ID ` set acts \<subseteq> known c'"

lemma announcesD:
  assumes "announces c as c'"
  shows "distinct (map act_ID as)" "act_ID ` set as \<inter> known c = {}" "known c \<subseteq> known c'" "act_ID ` set as \<subseteq> known c'"
  using assms by (simp_all add: announces_def)

lemma announces_trans:
  assumes a: "announces c as c1" and b: "announces c1 bs c2"
  shows "announces c (as @ bs) c2"
proof -
  note da = announcesD [OF a] and db = announcesD [OF b]
  have "act_ID ` set as \<inter> act_ID ` set bs = {}" using da(4) db(2) by blast
  moreover have "act_ID ` set bs \<inter> known c = {}" using da(3) db(2) by blast
  moreover have "known c \<subseteq> known c2" "act_ID ` set as \<subseteq> known c2" using da(3,4) db(3) by blast+
  ultimately show ?thesis using da(1,2) db(1,4) by (simp add: announces_def image_Un Int_Un_distrib2)
qed

lemma announces_Nil: "known c \<subseteq> known c' \<Longrightarrow> announces c [] c'"
  by (simp add: announces_def)

lemma announces_cong: "known c1 = known c' \<Longrightarrow> announces c as c' \<Longrightarrow> announces c as c1"
  by (simp add: announces_def)

lemma bump_eq: "n + 1 < 2 ^ 64 \<Longrightarrow> bump n = n + 1"
  by (simp add: bump_def)

text \<open>The new head.\<close>

lemma note_head_announces:
  assumes "ActionGeneration c + 1 < 2 ^ 64"
  shows "announces c [] (note_head ob c now)"
  by (rule announces_Nil, rule known_mono) (use bump_eq [OF assms] in \<open>auto simp: note_head_def\<close>)

text \<open>Feedback and threads.\<close>

lemma set_see_feedback: "set (see_feedback seen fs) = set seen \<union> (fb_ID ` set fs - {[]})"
  by (induction fs arbitrary: seen) auto

lemma reopened_gens:
  assumes "\<And>x. gens x + length ts < 2 ^ 64" "reopened quiet mine old gens ts = (gens', acts)"
  shows "gens x \<le> gens' x \<and> gens' x \<le> gens x + length ts"
  using assms
proof (induction ts arbitrary: gens acts)
  case (Cons t ts)
  show ?case
  proof (cases "old (thr_ID t) = Some True \<and> \<not> thr_Resolved t")
    case True
    define g1 where "g1 = gens(thr_ID t := bump (gens (thr_ID t)))"
    have b: "bump (gens (thr_ID t)) = gens (thr_ID t) + 1" using Cons.prems(1) [of "thr_ID t"] by (intro bump_eq) simp
    obtain rest where r: "reopened quiet mine old g1 ts = (gens', rest)"
      using Cons.prems(2) True by (auto simp: Let_def g1_def split: prod.splits)
    have "g1 y + length ts < 2 ^ 64" for y using Cons.prems(1) [of y] by (auto simp: g1_def b)
    from Cons.IH [OF this r] show ?thesis by (auto simp: g1_def b split: if_splits)
  next
    case False
    have "gens y + length ts < 2 ^ 64" for y using Cons.prems(1) [of y] by simp
    then show ?thesis using Cons.IH [of gens acts] Cons.prems(2) False by fastforce
  qed
qed simp

lemma reopened_ids:
  assumes "\<And>x. gens x + length ts < 2 ^ 64" "reopened quiet mine old gens ts = (gens', acts)"
  shows "distinct (map act_ID acts) \<and> (\<forall>i \<in> act_ID ` set acts. \<exists>x g. i = thread_id x g \<and> gens x < g \<and> g \<le> gens' x)"
  using assms
proof (induction ts arbitrary: gens acts)
  case (Cons t ts)
  show ?case
  proof (cases "old (thr_ID t) = Some True \<and> \<not> thr_Resolved t")
    case True
    define g1 where "g1 = gens(thr_ID t := bump (gens (thr_ID t)))"
    have b: "bump (gens (thr_ID t)) = gens (thr_ID t) + 1" using Cons.prems(1) [of "thr_ID t"] by (intro bump_eq) simp
    define a where "a = \<lparr>act_Kind = ''thread_reopened'', act_ID = ''thread:'' @ thr_ID t @ '':'' @ dec (g1 (thr_ID t)),
        act_Details = compactDetails [thr_Author t, thr_Location t, thr_Body t], act_Feedback = None\<rparr>"
    obtain rest where r: "reopened quiet mine old g1 ts = (gens', rest)" and acts: "acts = rest \<or> acts = a # rest"
      using Cons.prems(2) True by (auto simp: Let_def g1_def a_def split: prod.splits if_splits)
    have ok: "g1 y + length ts < 2 ^ 64" for y using Cons.prems(1) [of y] by (auto simp: g1_def b)
    note ih = Cons.IH [OF ok r]
    have grow: "g1 x \<le> gens' x" for x using reopened_gens [OF ok r] by simp
    have up: "gens x \<le> g1 x" "gens (thr_ID t) < g1 (thr_ID t)" for x by (simp_all add: g1_def b)
    have id: "act_ID a = thread_id (thr_ID t) (g1 (thr_ID t))" by (simp add: a_def thread_id_def)
    have "\<exists>x g. i = thread_id x g \<and> gens x < g \<and> g \<le> gens' x" if "i \<in> act_ID ` set rest" for i
      using ih that up(1) by (meson le_less_trans)
    moreover have "\<exists>x g. act_ID a = thread_id x g \<and> gens x < g \<and> g \<le> gens' x" using id up(2) grow by blast
    moreover have "act_ID a \<notin> act_ID ` set rest" using ih id by force
    ultimately show ?thesis using acts ih by auto
  next
    case False
    have "gens y + length ts < 2 ^ 64" for y using Cons.prems(1) [of y] by simp
    then show ?thesis using Cons.IH [of gens acts] Cons.prems(2) False by fastforce
  qed
qed simp

lemma take_feedback_announces:
  assumes same: "SeenFeedbackIDs next = SeenFeedbackIDs c" "ThreadGenerations next = ThreadGenerations c"
    and ids: "distinct (filter (\<lambda>x. x \<noteq> []) (map fb_ID (Feedback ob)))" and room: "\<And>x. ThreadGenerations c x + length (Threads ob) < 2 ^ 64"
    and tf: "take_feedback c next ob own = (next', acts)"
  shows "announces next acts next' \<and> LastAction next' = LastAction next \<and> ActionGeneration next' = ActionGeneration next \<and>
    (\<forall>x. ThreadGenerations next' x \<le> ThreadGenerations c x + length (Threads ob))"
proof -
  define live where "live \<longleftrightarrow> \<not> (\<not> Initialized c \<or> FeedbackBaselinePending c) \<and> FeedbackComplete ob"
  define quiet where "quiet \<longleftrightarrow> own \<noteq> OwnCommentsRing"
  define gr where "gr = (if live then reopened quiet (ViewerAuthored ob) (ThreadStates c) (ThreadGenerations next) (Threads ob) else (ThreadGenerations next, []))"
  obtain gens reopens where g: "gr = (gens, reopens)" by fastforce
  define fresh where "fresh = (if live then new_feedback quiet (SeenFeedbackIDs c) (Feedback ob) else [])"
  have acts: "acts = fresh @ reopens" and next': "ThreadGenerations next' = gens" "LastAction next' = LastAction next" "ActionGeneration next' = ActionGeneration next"
      and seen: "set (SeenFeedbackIDs next') = set (SeenFeedbackIDs c) \<union> (if FeedbackComplete ob then fb_ID ` set (Feedback ob) - {[]} else {})"
    using tf g unfolding take_feedback_def Let_def live_def [symmetric] quiet_def [symmetric] gr_def [symmetric] fresh_def [symmetric]
    by (auto simp: same sort_Strings_def set_see_feedback split: if_splits)
  have opened: "reopened quiet (ViewerAuthored ob) (ThreadStates c) (ThreadGenerations c) (Threads ob) = (gens, reopens)" if live
    using g that by (simp add: gr_def same)
  have idle: "gens = ThreadGenerations c" "reopens = []" if "\<not> live" using g that by (simp_all add: gr_def same)
  have r: "ThreadGenerations c x \<le> gens x \<and> gens x \<le> ThreadGenerations c x + length (Threads ob)" for x
    using reopened_gens [OF room opened] idle by (cases live) simp_all
  have ri: "distinct (map act_ID reopens)" "\<And>i. i \<in> act_ID ` set reopens \<Longrightarrow> \<exists>x g. i = thread_id x g \<and> ThreadGenerations c x < g \<and> g \<le> gens x"
  proof -
    have "distinct (map act_ID reopens) \<and> (\<forall>i \<in> act_ID ` set reopens. \<exists>x g. i = thread_id x g \<and> ThreadGenerations c x < g \<and> g \<le> gens x)"
    proof (cases live)
      case True
      show ?thesis by (rule reopened_ids [OF room opened [OF True]])
    next
      case False
      show ?thesis using idle(2) [OF False] by simp
    qed
    then show "distinct (map act_ID reopens)" "\<And>i. i \<in> act_ID ` set reopens \<Longrightarrow> \<exists>x g. i = thread_id x g \<and> ThreadGenerations c x < g \<and> g \<le> gens x"
      by blast+
  qed
  have fi: "distinct (map act_ID fresh)" "\<And>i. i \<in> act_ID ` set fresh \<Longrightarrow> \<exists>x. i = feedback_id x \<and> x \<notin> set (SeenFeedbackIDs c) \<and> x \<in> set (SeenFeedbackIDs next')"
  proof -
    let ?P = "\<lambda>f. \<not> (fb_ID f = [] \<or> fb_ID f \<in> set (SeenFeedbackIDs c) \<or> quiet \<and> fb_ByViewer f)"
    have f: "map act_ID (new_feedback quiet (SeenFeedbackIDs c) (Feedback ob)) = map (\<lambda>f. feedback_id (fb_ID f)) (filter ?P (Feedback ob))"
      by (simp add: new_feedback_def feedback_action_def feedback_id_def)
    have "distinct (map fb_ID (filter (\<lambda>f. fb_ID f \<noteq> []) (Feedback ob)))" using ids by (simp add: filter_map comp_def)
    then have "distinct (map fb_ID (filter ?P (Feedback ob)))" by (rule distinct_sub) simp
    then have "distinct (map (\<lambda>f. feedback_id (fb_ID f)) (filter ?P (Feedback ob)))" by (simp add: distinct_map inj_on_def)
    then show "distinct (map act_ID fresh)" by (simp add: fresh_def f)
    show "\<exists>x. i = feedback_id x \<and> x \<notin> set (SeenFeedbackIDs c) \<and> x \<in> set (SeenFeedbackIDs next')" if i: "i \<in> act_ID ` set fresh" for i
    proof -
      have live: live using i by (auto simp: fresh_def split: if_splits)
      then have "i \<in> set (map act_ID (new_feedback quiet (SeenFeedbackIDs c) (Feedback ob)))" using i by (simp add: fresh_def)
      then obtain f where "f \<in> set (Feedback ob)" "?P f" "i = feedback_id (fb_ID f)" unfolding f by auto
      moreover have "FeedbackComplete ob" using live by (simp add: live_def)
      ultimately show ?thesis using seen by auto
    qed
  qed
  have "distinct (map act_ID acts)" using ri fi unfolding acts by (fastforce dest: fi(2) ri(2))
  moreover have "i \<notin> known next \<and> i \<in> known next'" if mem: "i \<in> act_ID ` set acts" for i
  proof -
    consider "i \<in> act_ID ` set fresh" | "i \<in> act_ID ` set reopens" using mem unfolding acts set_append image_Un by blast
    then show ?thesis
    proof cases
      case 1
      then show ?thesis using fi(2) same(1) by fastforce
    next
      case 2
      then show ?thesis using ri(2) same(2) next'(1) by fastforce
    qed
  qed
  moreover have "known next \<subseteq> known next'"
    by (rule known_mono) (use same seen next' r in auto)
  ultimately show ?thesis using next' r by (auto simp: announces_def)
qed

lemma take_action_announces:
  assumes "ActionGeneration c + 1 < 2 ^ 64" "take_action c a = (c', acts)"
  shows "announces c acts c' \<and> ThreadGenerations c' = ThreadGenerations c \<and> ActionGeneration c' \<le> ActionGeneration c + (if LastAction c = [] then 0 else 1)"
proof -
  have fp: "fingerprint a \<noteq> []" by (simp add: fingerprint_def)
  define g where "g = (if LastAction c = [] then ActionGeneration c else ActionGeneration c + 1)"
  have g: "(if LastAction c \<noteq> [] then c\<lparr>ActionGeneration := bump (ActionGeneration c)\<rparr> else c) = c\<lparr>ActionGeneration := g\<rparr>"
    using bump_eq [OF assms(1)] by (cases c) (simp add: g_def)
  have new: "action_id g (fingerprint a) \<notin> known c" if "fingerprint a \<noteq> LastAction c" using that by (auto simp: g_def)
  consider "fingerprint a = LastAction c" "c' = c" "acts = []"
    | "fingerprint a \<noteq> LastAction c" "c' = c\<lparr>ActionGeneration := g, LastAction := []\<rparr>" "acts = []"
    | "fingerprint a \<noteq> LastAction c" "c' = c\<lparr>ActionGeneration := g, LastAction := fingerprint a\<rparr>" "map act_ID acts = [action_id g (fingerprint a)]"
  proof (cases "fingerprint a = LastAction c")
    case True
    then have "c' = c" "acts = []" using assms(2) unfolding take_action_def by simp_all
    then show thesis using that(1) True by blast
  next
    case False
    have res: "take_action c a = (if fst a = [] then (c\<lparr>ActionGeneration := g, LastAction := []\<rparr>, [])
        else (c\<lparr>ActionGeneration := g, LastAction := fingerprint a\<rparr>,
          [\<lparr>act_Kind = fst a, act_ID = action_id g (fingerprint a), act_Details = snd a, act_Feedback = None\<rparr>]))"
      unfolding take_action_def if_not_P [OF False] g Let_def action_id_def by simp
    show thesis
    proof (cases "fst a = []")
      case True
      then have "c' = c\<lparr>ActionGeneration := g, LastAction := []\<rparr>" "acts = []" using assms(2) unfolding res by simp_all
      then show thesis using that(2) [OF False] by blast
    next
      case nonempty: False
      then have "c' = c\<lparr>ActionGeneration := g, LastAction := fingerprint a\<rparr>" "map act_ID acts = [action_id g (fingerprint a)]" using assms(2) unfolding res by auto
      then show thesis using that(3) [OF False] by blast
    qed
  qed
  then show ?thesis
  proof cases
    case 1
    then show ?thesis by (simp add: announces_Nil)
  next
    case 2
    have "known c \<subseteq> known c'" by (rule known_mono) (simp_all add: 2 g_def)
    then show ?thesis using 2 by (simp add: announces_Nil g_def)
  next
    case 3
    have "known c \<subseteq> known c'" by (rule known_mono) (simp_all add: 3 g_def)
    moreover have "act_ID ` set acts = {action_id g (fingerprint a)}" using arg_cong [OF 3(3), of set] by simp
    moreover have "action_id g (fingerprint a) \<in> known c'" using fp by (simp add: 3)
    ultimately show ?thesis using 3 new fp by (simp add: announces_def g_def)
  qed
qed

subsection \<open>A whole watch\<close>

text \<open>The polls of a watch, each with the observation, the setting for own comments and the time.\<close>

type_synonym poll = "pr_Observation \<times> string \<times> time"

fun watched :: "string \<Rightarrow> string \<Rightarrow> Cursor \<Rightarrow> poll list \<Rightarrow> Cursor \<times> Action list" where
  "watched mode reviewer c [] = (c, [])"
| "watched mode reviewer c ((ob, own, now) # polls) =
     (case watched mode reviewer (tr_Cursor (Advance c ob mode reviewer own now)) polls of
        (c', later) \<Rightarrow> (c', tr_Actions (Advance c ob mode reviewer own now) @ later))"

lemma known_same:
  assumes "SeenFeedbackIDs c' = SeenFeedbackIDs c" "ThreadGenerations c' = ThreadGenerations c"
    "ActionGeneration c' = ActionGeneration c" "LastAction c' = LastAction c"
  shows "known c' = known c"
  by (simp add: known_def assms)

lemma Evaluate_cursor: "\<exists>t. snd (Evaluate ob mode reviewer c now) = (note_head ob c now)\<lparr>HeadObservedAt := t\<rparr>"
proof -
  let ?n = "note_head ob c now"
  have "snd (Evaluate ob mode reviewer c now) \<in> {?n, snd (evaluate_codex ob ?n now)}"
    unfolding Evaluate_def Let_def if_distrib [of snd] snd_conv by simp
  moreover have "snd (evaluate_codex ob ?n now) = (if is_zero (HeadObservedAt ?n) then ?n\<lparr>HeadObservedAt := now\<rparr> else ?n)"
    unfolding evaluate_codex_def Let_def if_distrib [of snd] snd_conv by simp
  moreover have "?n = ?n\<lparr>HeadObservedAt := HeadObservedAt ?n\<rparr>" by simp
  ultimately show ?thesis by (metis empty_iff insert_iff)
qed

lemma Advance_announces:
  assumes ids: "distinct (filter (\<lambda>x. x \<noteq> []) (map fb_ID (Feedback ob)))" and gen: "ActionGeneration c + 2 < 2 ^ 64"
    and room: "\<And>x. ThreadGenerations c x + length (Threads ob) < 2 ^ 64"
    and t_def: "t = Advance c ob mode reviewer own now"
  shows "announces c (tr_Actions t) (tr_Cursor t)" "ActionGeneration (tr_Cursor t) \<le> ActionGeneration c + 1"
    "ThreadGenerations (tr_Cursor t) x \<le> ThreadGenerations c x + length (Threads ob)"
proof -
  obtain ev c1 where e: "Evaluate ob mode reviewer c now = (ev, c1)" by fastforce
  obtain c2 acts where f: "take_feedback c c1 ob own = (c2, acts)" by fastforce
  obtain c3 more where a: "take_action c2 (currentAction ob ev) = (c3, more)" by fastforce
  have t: "tr_Actions t = acts @ more" "known (tr_Cursor t) = known c3" "ActionGeneration (tr_Cursor t) = ActionGeneration c3"
      "ThreadGenerations (tr_Cursor t) = ThreadGenerations c3"
    using e f a by (simp_all add: t_def Advance_def known_def)
  obtain s where c1: "c1 = (note_head ob c now)\<lparr>HeadObservedAt := s\<rparr>" using Evaluate_cursor [of ob mode reviewer c now] e by auto
  have same: "SeenFeedbackIDs c1 = SeenFeedbackIDs c" "ThreadGenerations c1 = ThreadGenerations c" by (simp_all add: c1 note_head_def)
  have b: "bump (ActionGeneration c) = ActionGeneration c + 1" using gen by (intro bump_eq) simp
  have g1: "ActionGeneration c1 + (if LastAction c1 = [] then 0 else 1) \<le> ActionGeneration c + 1" "ActionGeneration c1 \<le> ActionGeneration c + 1"
    by (simp_all add: c1 note_head_def b)
  have "known c1 = known (note_head ob c now)" by (rule known_same) (simp_all add: c1)
  then have one: "announces c [] c1" using gen by (intro announces_cong [OF _ note_head_announces]) simp_all
  note two = take_feedback_announces [OF same ids room f]
  have "ActionGeneration c2 + 1 < 2 ^ 64" using two g1(2) gen by simp
  note three = take_action_announces [OF this a]
  have "announces c ([] @ acts @ more) c3" using announces_trans [OF one announces_trans] two three by blast
  then show "announces c (tr_Actions t) (tr_Cursor t)" unfolding t(1) by (simp add: announces_cong [OF t(2)])
  show "ActionGeneration (tr_Cursor t) \<le> ActionGeneration c + 1" using two three g1(1) by (simp add: t(3) split: if_splits)
  show "ThreadGenerations (tr_Cursor t) x \<le> ThreadGenerations c x + length (Threads ob)" using two three by (simp add: t(4))
qed

lemma watched_announces:
  assumes "list_all (\<lambda>p. distinct (filter (\<lambda>x. x \<noteq> []) (map fb_ID (Feedback (fst p))))) polls"
    "ActionGeneration c + length polls + 1 < 2 ^ 64"
    "\<And>x. ThreadGenerations c x + sum_list (map (\<lambda>p. length (Threads (fst p))) polls) < 2 ^ 64"
  shows "announces c (snd (watched mode reviewer c polls)) (fst (watched mode reviewer c polls))"
  using assms
proof (induction polls arbitrary: c)
  case Nil
  show ?case by (simp add: announces_Nil)
next
  case (Cons p polls)
  obtain ob own now where p: "p = (ob, own, now)" by (cases p) auto
  define t where "t = Advance c ob mode reviewer own now"
  have ids: "distinct (filter (\<lambda>x. x \<noteq> []) (map fb_ID (Feedback ob)))" using Cons.prems(1) by (simp add: p)
  have gen: "ActionGeneration c + 2 < 2 ^ 64" using Cons.prems(2) by simp
  have room: "ThreadGenerations c x + length (Threads ob) < 2 ^ 64" for x using Cons.prems(3) [of x] by (simp add: p)
  note step = Advance_announces [OF ids gen room t_def]
  have "announces (tr_Cursor t) (snd (watched mode reviewer (tr_Cursor t) polls)) (fst (watched mode reviewer (tr_Cursor t) polls))"
  proof (rule Cons.IH)
    show "ActionGeneration (tr_Cursor t) + length polls + 1 < 2 ^ 64" using step(2) Cons.prems(2) by simp
    show "ThreadGenerations (tr_Cursor t) x + sum_list (map (\<lambda>p. length (Threads (fst p))) polls) < 2 ^ 64" for x
      using step(3) [of x] Cons.prems(3) [of x] by (simp add: p)
  qed (use Cons.prems(1) in simp)
  from announces_trans [OF step(1) this] show ?case
    by (cases "watched mode reviewer (tr_Cursor t) polls") (simp add: p t_def)
qed

text \<open>
  C5. Through the whole life of a watch, whatever its polls observe and however feedback fetches fail in
  between, no two announcements have the same identity, so none is taken for the repetition of another,
  and no feedback is announced twice: provided that the feedback of one observation has different ids
  and the 64-bit counters do not run out.
\<close>

theorem announcements_distinct:
  assumes "list_all (\<lambda>p. distinct (filter (\<lambda>x. x \<noteq> []) (map fb_ID (Feedback (fst p))))) polls"
    "length polls + 1 < 2 ^ 64" "sum_list (map (\<lambda>p. length (Threads (fst p))) polls) < 2 ^ 64"
  shows "distinct (map act_ID (snd (watched mode reviewer new_Cursor polls)))"
proof -
  have "announces new_Cursor (snd (watched mode reviewer new_Cursor polls)) (fst (watched mode reviewer new_Cursor polls))"
    by (rule watched_announces) (use assms in \<open>simp_all add: new_Cursor_def\<close>)
  then show ?thesis by (simp add: announces_def)
qed

text \<open>A pull request that is ready, with one comment.\<close>

definition demo_pr :: "string list \<Rightarrow> pr_Observation" where
  "demo_pr ids = \<lparr>obs_Number = 1, obs_URL = [], obs_Title = [], ViewerAuthored = True, obs_State = ''open'', Draft = False, Merged = False,
     obs_HeadSHA = ''a1'', obs_HeadRef = [], MergeStateStatus = ''clean'', ReviewDecision = [], CodexThumbsUp = False, CodexEyes = False,
     ReviewOpinions = [], RequestedReviewers = [], Checks = [],
     Feedback = map (\<lambda>i. \<lparr>fb_ID = i, fb_Kind = ''comment'', fb_Author = ''x'', fb_ByViewer = False, fb_Body = [], fb_Location = [], fb_CreatedAt = 0\<rparr>) ids,
     Threads = [], FeedbackComplete = True\<rparr>"

theorem announcements_distinct_witness:
  "distinct (map act_ID (snd (watched ModeGreen [] new_Cursor [(demo_pr [''f''], OwnCommentsRing, 5), (demo_pr [''f'', ''g''], OwnCommentsRing, 6)])))"
  by (rule announcements_distinct) (simp_all add: demo_pr_def)

subsection \<open>Polling again\<close>

lemma see_threads_lookup:
  assumes "distinct (map thr_ID ts)" "t \<in> set ts" "thr_ID t \<noteq> []"
  shows "see_threads old ts (thr_ID t) = Some (thr_Resolved t)"
proof -
  have other: "see_threads m us x = m x" if "x \<notin> thr_ID ` set us" for us m x
    using that by (induction us arbitrary: m) (auto simp: see_threads_def)
  show ?thesis
    using assms
  proof (induction ts arbitrary: old)
    case (Cons u us)
    have step: "see_threads old (u # us) = see_threads (if thr_ID u \<noteq> [] then old(thr_ID u \<mapsto> thr_Resolved u) else old) us"
      by (simp add: see_threads_def)
    show ?case
    proof (cases "t = u")
      case True
      then have "thr_ID t \<notin> thr_ID ` set us" using Cons.prems(1) by simp
      then show ?thesis unfolding step using other True Cons.prems(3) by simp
    next
      case False
      then show ?thesis unfolding step using Cons by simp
    qed
  qed simp
qed

lemma reopened_none:
  assumes "\<And>t. t \<in> set ts \<Longrightarrow> old (thr_ID t) = Some (thr_Resolved t)"
  shows "reopened quiet mine old gens ts = (gens, [])"
  using assms by (induction ts) auto

lemma take_feedback_again:
  assumes tf: "take_feedback c next ob own = (c1, acts)" and same: "SeenFeedbackIDs next = SeenFeedbackIDs c"
    and ids: "distinct (map thr_ID (Threads ob))" "[] \<notin> set (map thr_ID (Threads ob))"
    and c2: "SeenFeedbackIDs c2 = SeenFeedbackIDs c1" "ThreadStates c2 = ThreadStates c1"
  shows "snd (take_feedback c2 next2 ob own2) = []"
proof (cases "FeedbackComplete ob")
  case True
  have seen: "set (SeenFeedbackIDs c2) = set (SeenFeedbackIDs c) \<union> (fb_ID ` set (Feedback ob) - {[]})" and
      threads: "ThreadStates c2 = see_threads (ThreadStates next) (Threads ob)"
    using tf True unfolding c2 by (auto simp: take_feedback_def Let_def same sort_Strings_def set_see_feedback split: if_splits prod.splits)
  have "new_feedback q (SeenFeedbackIDs c2) (Feedback ob) = []" for q by (auto simp: new_feedback_def filter_empty_conv seen)
  moreover have "reopened q m (ThreadStates c2) g (Threads ob) = (g, [])" for q m g
    by (rule reopened_none) (use see_threads_lookup [OF ids(1)] ids(2) threads in force)
  ultimately show ?thesis by (simp add: take_feedback_def Let_def)
next
  case False
  then show ?thesis by (simp add: take_feedback_def Let_def)
qed

lemma take_action_again:
  assumes "take_action c a = (c1, acts)" "LastAction c2 = LastAction c1"
  shows "snd (take_action c2 a) = []"
  using assms by (auto simp: take_action_def Let_def fingerprint_def split: if_splits)

lemma tr_Evaluation_Advance: "tr_Evaluation (Advance c ob mode reviewer own now) = fst (Evaluate ob mode reviewer c now)"
  by (simp add: Advance_def split: prod.splits)

lemma Evaluate_no_codex: "mode \<noteq> ModeCodex \<Longrightarrow> fst (Evaluate ob mode reviewer c now) = fst (Evaluate ob mode reviewer c' now')"
  unfolding Evaluate_def Let_def by simp

text \<open>
  A poll that observes what the poll before observed announces nothing, unless the verdict itself
  changed in the meantime because a settling time is over.
\<close>

theorem poll_again_silent:
  assumes "distinct (map thr_ID (Threads ob))" "[] \<notin> set (map thr_ID (Threads ob))"
    "t = Advance c ob mode reviewer own now" "t2 = Advance (tr_Cursor t) ob mode reviewer own2 now2"
    "ev_State (tr_Evaluation t2) = ev_State (tr_Evaluation t)" "ev_Reason (tr_Evaluation t2) = ev_Reason (tr_Evaluation t)"
  shows "tr_Actions t2 = []"
proof -
  obtain ev c1 where e: "Evaluate ob mode reviewer c now = (ev, c1)" by fastforce
  obtain c2 acts where f: "take_feedback c c1 ob own = (c2, acts)" by fastforce
  obtain c3 more where a: "take_action c2 (currentAction ob ev) = (c3, more)" by fastforce
  define d where "d = c3\<lparr>LastReviewDecision := ToUpper (TrimSpace (ReviewDecision ob)), Initialized := True\<rparr>"
  have d: "tr_Cursor t = d" "tr_Evaluation t = ev" using e f a by (simp_all add: assms(3) Advance_def d_def)
  obtain ev' d1 where e': "Evaluate ob mode reviewer d now2 = (ev', d1)" by fastforce
  obtain d2 acts' where f': "take_feedback d d1 ob own2 = (d2, acts')" by fastforce
  have t2: "tr_Actions t2 = acts' @ snd (take_action d2 (currentAction ob ev'))" "tr_Evaluation t2 = ev'"
    using e' f' by (simp_all add: assms(4) d Advance_def split: prod.splits)
  have "currentAction ob ev' = currentAction ob ev"
    unfolding currentAction_def assms(5,6) [unfolded d(2) t2(2)] by (rule HOL.refl)
  obtain s where c1: "c1 = (note_head ob c now)\<lparr>HeadObservedAt := s\<rparr>" using Evaluate_cursor [of ob mode reviewer c now] e by auto
  obtain s' where d1: "d1 = (note_head ob d now2)\<lparr>HeadObservedAt := s'\<rparr>" using Evaluate_cursor [of ob mode reviewer d now2] e' by auto
  have c3: "SeenFeedbackIDs c3 = SeenFeedbackIDs c2" "ThreadStates c3 = ThreadStates c2" "HeadSHA c3 = HeadSHA c2"
    using a by (auto simp: take_action_def Let_def split: if_splits)
  have "HeadSHA c2 = HeadSHA c1" using f by (auto simp: take_feedback_def Let_def split: if_splits prod.splits)
  then have "obs_HeadSHA ob = [] \<or> HeadSHA d = obs_HeadSHA ob" using c3(3) by (auto simp: d_def c1 note_head_def)
  then have "note_head ob d now2 = d" by (auto simp: note_head_def)
  then have "LastAction d2 = LastAction c3"
    using f' by (auto simp: d1 d_def take_feedback_def Let_def split: if_splits prod.splits)
  then have "snd (take_action d2 (currentAction ob ev')) = []"
    using take_action_again [OF a] \<open>currentAction ob ev' = currentAction ob ev\<close> by simp
  moreover have "SeenFeedbackIDs c1 = SeenFeedbackIDs c" by (simp add: c1 note_head_def)
  then have "acts' = []"
    using take_feedback_again [OF f _ assms(1,2), of d d1 own2] f' c3 by (simp add: d_def)
  ultimately show ?thesis by (simp add: t2)
qed

theorem poll_again_silent_witness:
  "tr_Actions (Advance (tr_Cursor (Advance new_Cursor (demo_pr [''f'']) ModeGreen [] OwnCommentsRing 5)) (demo_pr [''f'']) ModeGreen [] OwnCommentsRing 9) = []"
proof (rule poll_again_silent [OF _ _ HOL.refl HOL.refl])
  have green: "ModeGreen \<noteq> ModeCodex" by (simp add: modes)
  have "tr_Evaluation (Advance c ob ModeGreen [] own now) = fst (Evaluate ob ModeGreen [] new_Cursor 0)" for c ob own now
    unfolding tr_Evaluation_Advance by (rule Evaluate_no_codex [OF green])
  then show "ev_State (tr_Evaluation (Advance (tr_Cursor (Advance new_Cursor (demo_pr [''f'']) ModeGreen [] OwnCommentsRing 5)) (demo_pr [''f'']) ModeGreen [] OwnCommentsRing 9)) =
      ev_State (tr_Evaluation (Advance new_Cursor (demo_pr [''f'']) ModeGreen [] OwnCommentsRing 5))"
    "ev_Reason (tr_Evaluation (Advance (tr_Cursor (Advance new_Cursor (demo_pr [''f'']) ModeGreen [] OwnCommentsRing 5)) (demo_pr [''f'']) ModeGreen [] OwnCommentsRing 9)) =
      ev_Reason (tr_Evaluation (Advance new_Cursor (demo_pr [''f'']) ModeGreen [] OwnCommentsRing 5))"
    by simp_all
qed (simp_all add: demo_pr_def)

end
