(* ===== verification/Bus_Log.thy ===== *)
theory Bus_Log
  imports Go_Time Go_Strings Go_Sort
begin

text \<open>
  The tables behind the event bus: the log of events, the registered consumers with their cursors, and
  the tables that tie an event to what caused it (\<open>internal/store/bus.go\<close>, with the adapter of
  \<open>internal/daemon/bus_store.go\<close> and the row types of \<open>internal/bus/bus.go\<close>). The log is kept in the
  order of the sequence numbers; \<open>last_seq\<close> is SQLite's \<open>sqlite_sequence\<close> entry, which deletions leave
  alone. Every statement may fail: \<open>db_faults\<close> says of each coming one whether the database refuses it.
  A transaction counts as one statement, since it is rolled back when any part of it fails. A time is
  stored as UTC text to the second, which sorts as the truncated instants do in the years 0 to 9999. A
  store without a database is not modelled.
\<close>

subsection \<open>Rows\<close>

record Event =
  ev_Seq :: int
  ev_Name :: string
  ev_Subject :: string
  ev_Payload :: string
  ev_Source :: string
  ev_CreatedAt :: time

record Consumer =
  con_Name :: string
  con_Cursor :: int
  con_Filter :: string
  con_Enabled :: bool
  con_PinsRetention :: bool
  con_UpdatedAt :: time

record event_source =
  src_kind :: string
  src_id :: string
  src_event :: string
  src_seq :: int

record observation =
  obs_seed :: string
  obs_checksum :: string
  obs_seq :: int
  obs_at :: time

datatype bus_error = StatementFailed | FieldsRequired

record bus_db =
  bus_events :: "Event list"
  last_seq :: int
  bus_consumers :: "Consumer list"
  event_sources :: "event_source list"
  observations :: "observation list"
  event_receipts :: "int list"
  db_faults :: "bool list"

definition formatStoredTime :: "time \<Rightarrow> time" where
  "formatStoredTime t = t - t mod second"

definition exec :: "bus_db \<Rightarrow> (bus_db \<Rightarrow> bus_db \<times> (bus_error + 'a)) \<Rightarrow> bus_db \<times> (bus_error + 'a)" where
  "exec d f =
     (case db_faults d of
        [] \<Rightarrow> f d
      | bad # later \<Rightarrow> if bad then (d\<lparr>db_faults := later\<rparr>, Inl StatementFailed) else f (d\<lparr>db_faults := later\<rparr>))"

lemma exec_eq:
  "exec d f =
     (if db_faults d \<noteq> [] \<and> hd (db_faults d) then (d\<lparr>db_faults := tl (db_faults d)\<rparr>, Inl StatementFailed)
      else f (d\<lparr>db_faults := tl (db_faults d)\<rparr>))"
proof (cases "db_faults d")
  case Nil
  then have "d\<lparr>db_faults := tl (db_faults d)\<rparr> = d" by (cases d) simp
  moreover have "exec d f = f d" using Nil by (simp add: exec_def)
  ultimately show ?thesis using Nil by metis
qed (simp add: exec_def)

subsection \<open>The log\<close>

text \<open>An insert without a sequence number: SQLite gives the next one, and fails when there is none left.\<close>

definition max_seq :: int where "max_seq = 2 ^ 63 - 1"

definition appended :: "Event \<Rightarrow> time \<Rightarrow> bus_db \<Rightarrow> bus_db" where
  "appended e now d =
     d\<lparr>bus_events := bus_events d @ [e\<lparr>ev_Seq := last_seq d + 1, ev_CreatedAt := formatStoredTime now\<rparr>], last_seq := last_seq d + 1\<rparr>"

definition appendBusEventWith :: "Event \<Rightarrow> time \<Rightarrow> bus_db \<Rightarrow> bus_db \<times> (bus_error + int)" where
  "appendBusEventWith e now d =
     (if last_seq d = max_seq then (d, Inl StatementFailed) else (appended e now d, Inr (last_seq d + 1)))"

definition AppendBusEvent :: "bus_db \<Rightarrow> Event \<Rightarrow> time \<Rightarrow> bus_db \<times> (bus_error + int)" where
  "AppendBusEvent d e now = exec d (appendBusEventWith e now)"

definition BusEventsSince :: "bus_db \<Rightarrow> int \<Rightarrow> int \<Rightarrow> bus_db \<times> (bus_error + Event list)" where
  "BusEventsSince d cursor limit =
     exec d (\<lambda>d. (d, Inr (take (nat (if limit \<le> 0 then 100 else limit)) (filter (\<lambda>e. cursor < ev_Seq e) (bus_events d)))))"

definition BusBounds :: "bus_db \<Rightarrow> bus_db \<times> (bus_error + int \<times> int)" where
  "BusBounds d = exec d (\<lambda>d.
     (d, Inr (case map ev_Seq (bus_events d) of
         [] \<Rightarrow> (last_seq d + 1, last_seq d)
       | s # ss \<Rightarrow> (fold min ss s, last_seq d))))"

definition BusEventsAbout :: "bus_db \<Rightarrow> string \<Rightarrow> string list \<Rightarrow> int \<Rightarrow> int \<Rightarrow> bus_db \<times> (bus_error + Event list)" where
  "BusEventsAbout d nm subjects after through =
     (if subjects = [] then (d, Inr [])
      else exec d (\<lambda>d. (d, Inr (filter (\<lambda>e. ev_Subject e \<in> set subjects \<and> after < ev_Seq e \<and> ev_Seq e \<le> through \<and> ev_Name e = nm)
        (bus_events d)))))"

definition BusEventTimeAt :: "bus_db \<Rightarrow> int \<Rightarrow> bus_db \<times> (bus_error + time option)" where
  "BusEventTimeAt d seq = exec d (\<lambda>d. (d, Inr (map_option ev_CreatedAt (find (\<lambda>e. seq \<le> ev_Seq e) (bus_events d)))))"

subsection \<open>Consumers\<close>

definition consumer_row :: "bus_db \<Rightarrow> string \<Rightarrow> Consumer option" where
  "consumer_row d nm = find (\<lambda>c. con_Name c = nm) (bus_consumers d)"

definition on_row :: "string \<Rightarrow> (Consumer \<Rightarrow> Consumer) \<Rightarrow> bus_db \<Rightarrow> bus_db" where
  "on_row nm f d = d\<lparr>bus_consumers := map (\<lambda>c. if con_Name c = nm then f c else c) (bus_consumers d)\<rparr>"

definition GetBusConsumer :: "bus_db \<Rightarrow> string \<Rightarrow> bus_db \<times> (bus_error + Consumer option)" where
  "GetBusConsumer d nm = exec d (\<lambda>d. (d, Inr (consumer_row d nm)))"

text \<open>The upsert: a row that is there keeps its cursor and whether it is enabled.\<close>

definition SaveBusConsumer :: "bus_db \<Rightarrow> Consumer \<Rightarrow> time \<Rightarrow> bus_db \<times> (bus_error + unit)" where
  "SaveBusConsumer d c now = exec d (\<lambda>d.
     (if consumer_row d (con_Name c) = None
      then d\<lparr>bus_consumers := bus_consumers d @ [c\<lparr>con_PinsRetention := False, con_UpdatedAt := formatStoredTime now\<rparr>]\<rparr>
      else on_row (con_Name c) (\<lambda>r. r\<lparr>con_Filter := con_Filter c, con_UpdatedAt := formatStoredTime now\<rparr>) d, Inr ()))"

definition SetBusConsumerCursor :: "bus_db \<Rightarrow> string \<Rightarrow> int \<Rightarrow> time \<Rightarrow> bus_db \<times> (bus_error + bool)" where
  "SetBusConsumerCursor d nm cursor now = exec d (\<lambda>d.
     (on_row nm (\<lambda>c. if con_Enabled c then c\<lparr>con_Cursor := cursor, con_UpdatedAt := formatStoredTime now\<rparr> else c) d,
      Inr (list_ex (\<lambda>c. con_Name c = nm \<and> con_Enabled c) (bus_consumers d))))"

definition AdvanceBusConsumerCursor :: "bus_db \<Rightarrow> string \<Rightarrow> int \<Rightarrow> time \<Rightarrow> bus_db \<times> (bus_error + unit)" where
  "AdvanceBusConsumerCursor d nm cursor now = exec d (\<lambda>d.
     (on_row nm (\<lambda>c. c\<lparr>con_Cursor := max (con_Cursor c) cursor, con_UpdatedAt := formatStoredTime now\<rparr>) d, Inr ()))"

definition SetBusConsumerEnabled :: "bus_db \<Rightarrow> string \<Rightarrow> bool \<Rightarrow> time \<Rightarrow> bus_db \<times> (bus_error + bool)" where
  "SetBusConsumerEnabled d nm enabled now = exec d (\<lambda>d.
     (on_row nm (\<lambda>c. c\<lparr>con_Enabled := enabled, con_UpdatedAt := formatStoredTime now\<rparr>) d, Inr (consumer_row d nm \<noteq> None)))"

definition DeleteBusConsumer :: "bus_db \<Rightarrow> string \<Rightarrow> bus_db \<times> (bus_error + unit)" where
  "DeleteBusConsumer d nm = exec d (\<lambda>d. (d\<lparr>bus_consumers := filter (\<lambda>c. con_Name c \<noteq> nm) (bus_consumers d)\<rparr>, Inr ()))"

definition ListBusConsumers :: "bus_db \<Rightarrow> bus_db \<times> (bus_error + Consumer list)" where
  "ListBusConsumers d = exec d (\<lambda>d.
     (d, Inr (map (\<lambda>c. c\<lparr>con_PinsRetention := con_Enabled c\<rparr>)
       (SliceStable (\<lambda>a b. con_Name a < con_Name b) (bus_consumers d)))))"

subsection \<open>Retention\<close>

text \<open>The least cursor of the enabled consumers, or the last event when there are none.\<close>

definition trim_floor :: "bus_db \<Rightarrow> int" where
  "trim_floor d =
     (case map con_Cursor (filter con_Enabled (bus_consumers d)) of
        c # cs \<Rightarrow> fold min cs c
      | [] \<Rightarrow> (case map ev_Seq (bus_events d) of [] \<Rightarrow> 0 | s # ss \<Rightarrow> fold max ss s))"

definition trimmed :: "bus_db \<Rightarrow> time \<Rightarrow> Event \<Rightarrow> bool" where
  "trimmed d cutoff e = (ev_CreatedAt e < formatStoredTime cutoff \<and> ev_Seq e \<le> trim_floor d)"

definition TrimBusEvents :: "bus_db \<Rightarrow> time \<Rightarrow> bus_db \<times> (bus_error + nat)" where
  "TrimBusEvents d cutoff = exec d (\<lambda>d.
     let kept = filter (\<lambda>e. \<not> trimmed d cutoff e) (bus_events d)
     in (d\<lparr>bus_events := kept, event_receipts := filter (\<lambda>s. s \<in> ev_Seq ` set kept) (event_receipts d)\<rparr>,
         Inr (length (filter (trimmed d cutoff) (bus_events d)))))"

definition superseded :: "bus_db \<Rightarrow> string list \<Rightarrow> Event \<Rightarrow> bool" where
  "superseded d names e =
     list_ex (\<lambda>n. ev_Subject n = ev_Subject e \<and> ev_Name n \<in> set names \<and> ev_Seq e < ev_Seq n) (bus_events d)"

definition compacted :: "bus_db \<Rightarrow> string list \<Rightarrow> int \<Rightarrow> Event \<Rightarrow> bool" where
  "compacted d names floor e = (ev_Name e \<in> set names \<and> ev_Seq e \<le> floor \<and> superseded d names e)"

definition CompactBusEvents :: "bus_db \<Rightarrow> string list \<Rightarrow> int \<Rightarrow> bus_db \<times> (bus_error + nat)" where
  "CompactBusEvents d names floor =
     (if names = [] then (d, Inr 0)
      else exec d (\<lambda>d.
        (d\<lparr>bus_events := filter (\<lambda>e. \<not> compacted d names floor e) (bus_events d)\<rparr>,
         Inr (length (filter (compacted d names floor) (bus_events d))))))"

subsection \<open>Events with a cause\<close>

definition deleteReplacedBusEventSource :: "string \<Rightarrow> string \<Rightarrow> string \<Rightarrow> bus_db \<Rightarrow> bus_db" where
  "deleteReplacedBusEventSource sourceKind sourceID replacedSourceID d =
     (let replaced = TrimSpace replacedSourceID in
      if replaced = [] \<or> replaced = sourceID then d
      else d\<lparr>event_sources := filter (\<lambda>s. \<not> (src_kind s = sourceKind \<and> src_id s = replaced)) (event_sources d)\<rparr>)"

definition appendBusEventOnceReplacingSourceWith ::
  "string \<Rightarrow> string \<Rightarrow> string \<Rightarrow> Event \<Rightarrow> time \<Rightarrow> bus_db \<Rightarrow> bus_db \<times> (bus_error + int \<times> bool)" where
  "appendBusEventOnceReplacingSourceWith sourceKind sourceID replacedSourceID e now d =
     (case find (\<lambda>s. src_kind s = sourceKind \<and> src_id s = sourceID \<and> src_event s = ev_Name e) (event_sources d) of
        Some s \<Rightarrow> (deleteReplacedBusEventSource sourceKind sourceID replacedSourceID d, Inr (src_seq s, False))
      | None \<Rightarrow>
          (case appendBusEventWith e now d of
             (d1, Inl err) \<Rightarrow> (d, Inl err)
           | (d1, Inr seq) \<Rightarrow>
               (if list_ex (\<lambda>s. src_seq s = seq) (event_sources d1) then (d, Inl StatementFailed)
                else (deleteReplacedBusEventSource sourceKind sourceID replacedSourceID
                        (d1\<lparr>event_sources := event_sources d1 @
                           [\<lparr>src_kind = sourceKind, src_id = sourceID, src_event = ev_Name e, src_seq = seq\<rparr>]\<rparr>),
                      Inr (seq, True)))))"

definition AppendBusEventOnceReplacingSource ::
  "bus_db \<Rightarrow> string \<Rightarrow> string \<Rightarrow> string \<Rightarrow> Event \<Rightarrow> time \<Rightarrow> bus_db \<times> (bus_error + int \<times> bool)" where
  "AppendBusEventOnceReplacingSource d sourceKind sourceID replacedSourceID e now =
     (if TrimSpace sourceKind = [] \<or> TrimSpace sourceID = [] \<or> TrimSpace (ev_Name e) = [] then (d, Inl FieldsRequired)
      else exec d (appendBusEventOnceReplacingSourceWith sourceKind sourceID replacedSourceID e now))"

definition AppendBusEventOnce :: "bus_db \<Rightarrow> string \<Rightarrow> string \<Rightarrow> Event \<Rightarrow> time \<Rightarrow> bus_db \<times> (bus_error + int \<times> bool)" where
  "AppendBusEventOnce d sourceKind sourceID e now = AppendBusEventOnceReplacingSource d sourceKind sourceID [] e now"

text \<open>The upsert of the observation of a seed; no two seeds may have the same event.\<close>

definition upsertGardenSeedArtifactObservation ::
  "string \<Rightarrow> string \<Rightarrow> int \<Rightarrow> time \<Rightarrow> bus_db \<Rightarrow> bus_db \<times> (bus_error + unit)" where
  "upsertGardenSeedArtifactObservation seedID checksum eventSeq now d =
     (if list_ex (\<lambda>o1. obs_seed o1 \<noteq> seedID \<and> obs_seq o1 = eventSeq) (observations d) then (d, Inl StatementFailed)
      else (d\<lparr>observations := filter (\<lambda>o1. obs_seed o1 \<noteq> seedID) (observations d) @
              [\<lparr>obs_seed = seedID, obs_checksum = checksum, obs_seq = eventSeq, obs_at = formatStoredTime now\<rparr>]\<rparr>, Inr ()))"

definition observed :: "bus_db \<Rightarrow> string \<Rightarrow> Event \<Rightarrow> time \<Rightarrow> bus_db \<times> (bus_error + int \<times> bool)" where
  "observed d checksum e now =
     (case appendBusEventWith e now d of
        (d1, Inl err) \<Rightarrow> (d, Inl err)
      | (d1, Inr seq) \<Rightarrow>
          (case upsertGardenSeedArtifactObservation (ev_Subject e) checksum seq now d1 of
             (d2, Inl err) \<Rightarrow> (d, Inl err)
           | (d2, Inr _) \<Rightarrow> (d2, Inr (seq, True))))"

definition AppendGardenSeedArtifactObservation ::
  "bus_db \<Rightarrow> string \<Rightarrow> Event \<Rightarrow> time \<Rightarrow> bus_db \<times> (bus_error + int \<times> bool)" where
  "AppendGardenSeedArtifactObservation d checksum e now =
     (if TrimSpace checksum = [] \<or> TrimSpace (ev_Name e) = [] \<or> TrimSpace (ev_Subject e) = [] then (d, Inl FieldsRequired)
      else exec d (\<lambda>d.
        (case find (\<lambda>o1. obs_seed o1 = ev_Subject e) (observations d) of
           Some o1 \<Rightarrow>
             (if obs_checksum o1 = checksum then (d, Inr (obs_seq o1, False)) else observed d checksum e now)
         | None \<Rightarrow> observed d checksum e now)))"

definition artifact_transfer :: string where "artifact_transfer = ''artifact_transfer''"

definition AppendGardenSeedArtifactTransferObservation ::
  "bus_db \<Rightarrow> string \<Rightarrow> string \<Rightarrow> string \<Rightarrow> Event \<Rightarrow> time \<Rightarrow> bus_db \<times> (bus_error + int \<times> bool)" where
  "AppendGardenSeedArtifactTransferObservation d sourceID replacedSourceID checksum e now =
     (if TrimSpace sourceID = [] \<or> TrimSpace checksum = [] \<or> TrimSpace (ev_Name e) = [] \<or> TrimSpace (ev_Subject e) = []
      then (d, Inl FieldsRequired)
      else exec d (\<lambda>d.
        (case appendBusEventOnceReplacingSourceWith artifact_transfer sourceID replacedSourceID e now d of
           (d1, Inl err) \<Rightarrow> (d, Inl err)
         | (d1, Inr (seq, inserted)) \<Rightarrow>
             (case upsertGardenSeedArtifactObservation (ev_Subject e) checksum seq now d1 of
                (d2, Inl err) \<Rightarrow> (d, Inl err)
              | (d2, Inr _) \<Rightarrow> (d2, Inr (seq, inserted))))))"

definition HasGardenSeedArtifactObservation :: "bus_db \<Rightarrow> string \<Rightarrow> bus_db \<times> (bus_error + bool)" where
  "HasGardenSeedArtifactObservation d seedID = exec d (\<lambda>d. (d, Inr (list_ex (\<lambda>o1. obs_seed o1 = seedID) (observations d))))"

end
