(* ===== verification/Bus.thy ===== *)
theory Bus
  imports Bus_Log
begin

text \<open>
  The event bus, \<open>internal/bus/bus.go\<close> and \<open>filter.go\<close>: publishing and announcing, registered consumers
  with their delivery loops, retention and compaction. A delivery loop is a goroutine of its own, so its
  position is a value, \<open>phase\<close>, and one step of it is one statement of the database or one call of a
  handler with the checks around it. What a handler or a hook answers, the clock, and which ready case a
  \<open>select\<close> takes are arguments of the step. The bus keeps what it handed out: \<open>b_told\<close> is every call
  of an ephemeral subscriber, \<open>b_handled\<close> every call of a consumer's handler that returned no error.
\<close>

subsection \<open>Filters\<close>

type_synonym Filter = "string list"

definition All :: Filter where "All = [''*'']"

definition Filter_String :: "Filter \<Rightarrow> string" where
  "Filter_String f = (if f = [] then ''*'' else join_with '','' f)"

definition matchPattern :: "string \<Rightarrow> string \<Rightarrow> bool" where
  "matchPattern pattern nm =
     (if pattern = ''*'' \<or> pattern = [] then True
      else if HasSuffix pattern ''.*'' then HasPrefix nm (take (length pattern - 1) pattern)
      else pattern = nm)"

definition Matches :: "Filter \<Rightarrow> string \<Rightarrow> bool" where
  "Matches f nm = (f = [] \<or> list_ex (\<lambda>pattern. matchPattern pattern nm) f)"

subsection \<open>State\<close>

record Gap =
  gap_Cursor :: int
  gap_Earliest :: int
  gap_Head :: int
  gap_Missed :: int

datatype drain_error = ReadingRegistration | Disappeared | ReadingBounds | BeforeDraining string
  | RereadingRegistration | DisappearedInHook | ReadingLog | HandlingFailed string int string | PersistingCursor

text \<open>
  Where a delivery loop is: not launched; in its select, or asleep before a retry; preparing (reading the
  registration, the bounds of the log, closing a gap, in the hook, reading the registration again); at the
  top of its loop; about to read the log; going through a batch, with the last event it skipped; in the
  handler; past the handler's event; about to move the cursor, with what comes then; or returned.
\<close>

datatype phase = Unlaunched | Selecting | Sleeping | Preparing | Bounding Consumer | Gapping Gap
  | Hooking Consumer "Gap option" | Rereading | Ready | Looping | Fetching | Scanning "Event list" int
  | Handling Event "Event list" | Cleared "Event list" | Moving int phase | Exited

record durable =
  d_name :: string
  d_hooked :: bool
  d_wake :: bool
  d_cancelled :: bool
  d_launched :: bool
  d_filter :: Filter
  d_cursor :: int
  d_enabled :: bool
  d_stalled :: "drain_error option"
  d_failures :: int
  d_retired :: bool
  d_phase :: phase
  d_attempts :: int
  d_lastCheck :: time

record ephemeralSub =
  sub_id :: nat
  sub_filter :: Filter

record Bus =
  b_stored :: bool
  b_store :: bus_db
  b_retention :: duration
  b_batchSize :: int
  b_pollInterval :: duration
  b_retryBase :: duration
  b_retryCap :: duration
  b_compactable :: "string list"
  b_marked :: bool
  b_announced :: int
  b_durables :: "durable list"
  b_ephemeral :: "ephemeralSub list"
  b_nextSubID :: nat
  b_started :: bool
  b_stopped :: bool
  b_retiring :: "string list"
  b_cancelled :: bool
  b_leaving :: "(string \<times> durable option) list"
  b_told :: "(nat \<times> Event) list"
  b_handled :: "(string \<times> Event) list"

datatype bus_failure = NameRequired | MarshalFailed | StoreError | HandlerRequired | HookRequired
  | AlreadyRegistered | BeingUnregistered | NotRegistered | NoRegistration

definition with_db :: "Bus \<Rightarrow> (bus_db \<Rightarrow> bus_db \<times> 'r) \<Rightarrow> Bus \<times> 'r" where
  "with_db b f = (b\<lparr>b_store := fst (f (b_store b))\<rparr>, snd (f (b_store b)))"

definition DefaultBusRetention :: duration where "DefaultBusRetention = 30 * 24 * hour"
definition DefaultBatchSize :: int where "DefaultBatchSize = 200"
definition DefaultPollInterval :: duration where "DefaultPollInterval = 5 * second"
definition DefaultRetryBase :: duration where "DefaultRetryBase = second"
definition DefaultRetryCap :: duration where "DefaultRetryCap = 2 * minute"

definition bus_nonZeroDuration :: "duration \<Rightarrow> duration \<Rightarrow> duration" where
  "bus_nonZeroDuration v fallback = (if v \<le> 0 then fallback else v)"

definition bus_nonZeroInt :: "int \<Rightarrow> int \<Rightarrow> int" where
  "bus_nonZeroInt v fallback = (if v \<le> 0 then fallback else v)"

record bus_Options =
  bo_Store :: "bus_db option"
  bo_Retention :: duration
  bo_BatchSize :: int
  bo_PollInterval :: duration
  bo_RetryBase :: duration
  bo_RetryCap :: duration
  bo_Compactable :: "string list"

text \<open>Placing the announce mark at the head of the log; whether it could be read.\<close>

definition markHead :: "Bus \<Rightarrow> Bus \<times> bool" where
  "markHead b =
     (case with_db b BusBounds of
        (b1, Inl _) \<Rightarrow> (b1, False)
      | (b1, Inr (earliest, head)) \<Rightarrow> (b1\<lparr>b_announced := head, b_marked := True\<rparr>, True))"

definition no_store :: bus_db where
  "no_store = \<lparr>bus_events = [], last_seq = 0, bus_consumers = [], event_sources = [], observations = [],
     event_receipts = [], db_faults = []\<rparr>"

definition bus_New :: "bus_Options \<Rightarrow> Bus" where
  "bus_New opts =
     (let b = \<lparr>b_stored = (bo_Store opts \<noteq> None),
        b_store = (case bo_Store opts of Some s \<Rightarrow> s | None \<Rightarrow> no_store),
        b_retention = bus_nonZeroDuration (bo_Retention opts) DefaultBusRetention,
        b_batchSize = bus_nonZeroInt (bo_BatchSize opts) DefaultBatchSize,
        b_pollInterval = bus_nonZeroDuration (bo_PollInterval opts) DefaultPollInterval,
        b_retryBase = bus_nonZeroDuration (bo_RetryBase opts) DefaultRetryBase,
        b_retryCap = bus_nonZeroDuration (bo_RetryCap opts) DefaultRetryCap,
        b_compactable = bo_Compactable opts, b_marked = False, b_announced = 0, b_durables = [],
        b_ephemeral = [], b_nextSubID = 0, b_started = False, b_stopped = False, b_retiring = [],
        b_cancelled = False, b_leaving = [], b_told = [], b_handled = []\<rparr>
      in if b_stored b then fst (markHead b) else b)"

subsection \<open>Publishing\<close>

text \<open>The subscribers are a Go map; they are called in the order of their ids here.\<close>

definition fanoutEphemeral :: "Event \<Rightarrow> Bus \<Rightarrow> Bus" where
  "fanoutEphemeral ev b =
     b\<lparr>b_told := b_told b @ map (\<lambda>s. (sub_id s, ev)) (filter (\<lambda>s. Matches (sub_filter s) (ev_Name ev)) (b_ephemeral b))\<rparr>"

definition announce_one :: "Event \<Rightarrow> Bus \<Rightarrow> Bus" where
  "announce_one ev b = (fanoutEphemeral ev b)\<lparr>b_announced := ev_Seq ev\<rparr>"

definition announce_fallback :: "Event option \<Rightarrow> Bus \<Rightarrow> Bus" where
  "announce_fallback fallback b =
     (case fallback of
        Some ev \<Rightarrow> if ev_Seq ev > b_announced b then announce_one ev b else b
      | None \<Rightarrow> b)"

definition unannounced :: "Bus \<Rightarrow> nat" where
  "unannounced b = length (filter (\<lambda>e. b_announced b < ev_Seq e) (bus_events (b_store b)))"

lemma length_filter_less:
  "x \<in> set xs \<Longrightarrow> P x \<Longrightarrow> \<not> Q x \<Longrightarrow> (\<And>y. Q y \<Longrightarrow> P y) \<Longrightarrow> length (filter Q xs) < length (filter P xs)"
proof (induction xs)
  case (Cons y ys)
  have "length (filter Q zs) \<le> length (filter P zs)" for zs using Cons.prems(4) by (induction zs) auto
  then show ?case using Cons by (cases "y = x") (auto simp: less_Suc_eq_le)
qed simp

lemma announce_all:
  "b_store (fold announce_one evs b) = b_store b"
  "evs \<noteq> [] \<Longrightarrow> b_announced (fold announce_one evs b) = ev_Seq (last evs)"
  by (induction evs arbitrary: b) (auto simp: announce_one_def fanoutEphemeral_def split: if_splits)

lemma BusEventsSince_Inr:
  assumes "with_db b (\<lambda>s. BusEventsSince s c n) = (b1, Inr evs)"
  shows "\<exists>k. b1 = b\<lparr>b_store := b_store b\<lparr>db_faults := tl (db_faults (b_store b))\<rparr>\<rparr> \<and>
    evs = take k (filter (\<lambda>e. c < ev_Seq e) (bus_events (b_store b))) \<and> k = nat (if n \<le> 0 then 100 else n)"
  using assms by (auto simp: with_db_def BusEventsSince_def exec_eq split: if_splits)

text \<open>The loop of \<open>announceLocked\<close>: every round moves the mark over at least one event of the log.\<close>

function announce_loop :: "Event option \<Rightarrow> Bus \<Rightarrow> Bus" where
  "announce_loop fallback b =
     (case with_db b (\<lambda>s. BusEventsSince s (b_announced b) (b_batchSize b)) of
        (b1, Inl _) \<Rightarrow> announce_fallback fallback b1
      | (b1, Inr evs) \<Rightarrow>
          if evs = [] then b1
          else let b2 = fold announce_one evs b1 in
            if int (length evs) < b_batchSize b then b2 else announce_loop fallback b2)"
  by pat_completeness auto
termination
proof (relation "measure (\<lambda>(fallback, b). unannounced b)", simp, goal_cases)
  case (1 fallback b b1 x evs b2)
  then obtain k where b1: "b1 = b\<lparr>b_store := b_store b\<lparr>db_faults := tl (db_faults (b_store b))\<rparr>\<rparr>"
    and evs: "evs = take k (filter (\<lambda>e. b_announced b < ev_Seq e) (bus_events (b_store b)))"
    using BusEventsSince_Inr [of b "b_announced b" "b_batchSize b" b1 evs] by auto
  have l: "last evs \<in> set (bus_events (b_store b))" "b_announced b < ev_Seq (last evs)"
    using last_in_set [OF 1(3)] evs by (auto dest: in_set_takeD)
  have "unannounced b2 < unannounced b"
    using 1(3,4) l announce_all [of evs b1] b1 unfolding unannounced_def
    by (auto intro: length_filter_less [where x = "last evs"])
  then show ?case by simp
qed

declare announce_loop.simps [simp del]

definition announceLocked :: "Event option \<Rightarrow> Bus \<Rightarrow> Bus" where
  "announceLocked fallback b =
     (if b_marked b then announce_loop fallback b
      else (case markHead b of
          (b1, True) \<Rightarrow> announce_loop fallback b1
        | (b1, False) \<Rightarrow> (case fallback of Some ev \<Rightarrow> fanoutEphemeral ev b1 | None \<Rightarrow> b1)))"

definition wakeDurables :: "string \<Rightarrow> Bus \<Rightarrow> Bus" where
  "wakeDurables nm b =
     b\<lparr>b_durables := map (\<lambda>d. if nm \<noteq> [] \<and> \<not> Matches (d_filter d) nm then d else d\<lparr>d_wake := True\<rparr>) (b_durables b)\<rparr>"

text \<open>A payload is nothing, a value that JSON cannot encode, or its encoding.\<close>

definition publish :: "time \<Rightarrow> Event \<Rightarrow> string option option \<Rightarrow> Bus \<Rightarrow> Bus \<times> (bus_failure + int)" where
  "publish now ev payload b =
     (if TrimSpace (ev_Name ev) = [] then (b, Inl NameRequired)
      else if payload = Some None then (b, Inl MarshalFailed)
      else (let ev = (case payload of Some (Some raw) \<Rightarrow> ev\<lparr>ev_Payload := raw\<rparr> | _ \<Rightarrow> ev)\<lparr>ev_CreatedAt := now\<rparr> in
        if \<not> b_stored b then (fanoutEphemeral ev b, Inr 0)
        else (case with_db b (\<lambda>s. AppendBusEvent s ev now) of
            (b1, Inl _) \<Rightarrow> (fanoutEphemeral ev b1, Inl StoreError)
          | (b1, Inr seq) \<Rightarrow>
              (wakeDurables (ev_Name ev) (announceLocked (Some (ev\<lparr>ev_Seq := seq\<rparr>)) b1), Inr seq))))"

definition new_event :: "string \<Rightarrow> string \<Rightarrow> string \<Rightarrow> Event" where
  "new_event source nm subject =
     \<lparr>ev_Seq = 0, ev_Name = nm, ev_Subject = subject, ev_Payload = [], ev_Source = source, ev_CreatedAt = 0\<rparr>"

definition Publish :: "time \<Rightarrow> string \<Rightarrow> string \<Rightarrow> string option option \<Rightarrow> Bus \<Rightarrow> Bus \<times> (bus_failure + int)" where
  "Publish now nm subject payload b = publish now (new_event [] nm subject) payload b"

definition PublishFrom ::
  "time \<Rightarrow> string \<Rightarrow> string \<Rightarrow> string \<Rightarrow> string option option \<Rightarrow> Bus \<Rightarrow> Bus \<times> (bus_failure + int)" where
  "PublishFrom now source nm subject payload b = publish now (new_event source nm subject) payload b"

definition Announce :: "Bus \<Rightarrow> Bus" where
  "Announce b = (if \<not> b_stored b then b else wakeDurables [] (announceLocked None b))"

definition Subscribe :: "Filter \<Rightarrow> Bus \<Rightarrow> Bus" where
  "Subscribe f b = b\<lparr>b_ephemeral := b_ephemeral b @ [\<lparr>sub_id = b_nextSubID b, sub_filter = f\<rparr>], b_nextSubID := b_nextSubID b + 1\<rparr>"

definition unsubscribe :: "nat \<Rightarrow> Bus \<Rightarrow> Bus" where
  "unsubscribe i b = b\<lparr>b_ephemeral := filter (\<lambda>s. sub_id s \<noteq> i) (b_ephemeral b)\<rparr>"

end
