(* ===== verification/Bus_Consumers.thy ===== *)
theory Bus_Consumers
  imports Bus
begin

text \<open>
  Registered consumers of \<open>internal/bus/bus.go\<close>: registering, unregistering and starting them, the steps
  of their delivery loops, retention and compaction. \<open>Register\<close>, \<open>SetFilter\<close> and \<open>Start\<close> are one step each;
  \<open>Unregister\<close> is three, because it waits for the consumer's loop, and a compaction pass is three, because
  it reads the consumers and the head before it deletes.
\<close>

subsection \<open>A consumer's fields\<close>

definition setPosition :: "int \<Rightarrow> bool \<Rightarrow> durable \<Rightarrow> durable" where
  "setPosition cursor enabled d = d\<lparr>d_cursor := cursor, d_enabled := enabled\<rparr>"

definition recordFailure :: "drain_error \<Rightarrow> int \<Rightarrow> durable \<Rightarrow> durable" where
  "recordFailure reason n d = (if d_retired d then d else d\<lparr>d_stalled := Some reason, d_failures := n\<rparr>)"

definition clearFailure :: "durable \<Rightarrow> durable" where
  "clearFailure d = d\<lparr>d_stalled := None, d_failures := 0\<rparr>"

definition retire :: "durable \<Rightarrow> durable" where
  "retire d = d\<lparr>d_retired := True, d_cancelled := True\<rparr>"

definition newDurable :: "string \<Rightarrow> Filter \<Rightarrow> bool \<Rightarrow> durable" where
  "newDurable nm f hooked =
     \<lparr>d_name = nm, d_hooked = hooked, d_wake = False, d_cancelled = False, d_launched = False, d_filter = f,
      d_cursor = 0, d_enabled = True, d_stalled = None, d_failures = 0, d_retired = False,
      d_phase = Unlaunched, d_attempts = 0, d_lastCheck = 0\<rparr>"

definition ctx_done :: "Bus \<Rightarrow> durable \<Rightarrow> bool" where
  "ctx_done b d = (b_cancelled b \<or> d_cancelled d)"

text \<open>The loop of \<open>backoff\<close>, \<open>n\<close> rounds left; \<open>time.Duration\<close> wraps around.\<close>

fun bus_backoff_loop :: "duration \<Rightarrow> duration \<Rightarrow> nat \<Rightarrow> duration" where
  "bus_backoff_loop ceiling d 0 = (if d > ceiling then ceiling else d)"
| "bus_backoff_loop ceiling d (Suc n) =
     (let d = wrap64 (d * 2) in if d \<ge> ceiling then ceiling else bus_backoff_loop ceiling d n)"

definition bus_backoff :: "duration \<Rightarrow> duration \<Rightarrow> int \<Rightarrow> duration" where
  "bus_backoff b0 ceiling attempt =
     (let attempt = (if attempt < 1 then 1 else attempt) in bus_backoff_loop ceiling b0 (nat (attempt - 1)))"

subsection \<open>Registering\<close>

definition Registered :: "string \<Rightarrow> Bus \<Rightarrow> bool" where
  "Registered nm b = list_ex (\<lambda>d. d_name d = nm) (b_durables b)"

definition consumer_for :: "durable \<Rightarrow> int \<Rightarrow> bool \<Rightarrow> Consumer" where
  "consumer_for d cursor enabled =
     \<lparr>con_Name = d_name d, con_Cursor = cursor, con_Filter = Filter_String (d_filter d), con_Enabled = enabled,
      con_PinsRetention = False, con_UpdatedAt = 0\<rparr>"

definition initConsumer :: "time \<Rightarrow> durable \<Rightarrow> int \<Rightarrow> Bus \<Rightarrow> Bus \<times> (bus_failure + durable)" where
  "initConsumer now d head b =
     (case with_db b (\<lambda>s. GetBusConsumer s (d_name d)) of
        (b1, Inl _) \<Rightarrow> (b1, Inl StoreError)
      | (b1, Inr found) \<Rightarrow>
          (let cursor = (case found of None \<Rightarrow> head | Some c \<Rightarrow> con_Cursor c);
               enabled = (case found of None \<Rightarrow> True | Some c \<Rightarrow> con_Enabled c)
           in (case with_db b1 (\<lambda>s. SaveBusConsumer s (consumer_for d cursor enabled) now) of
                 (b2, Inl _) \<Rightarrow> (b2, Inl StoreError)
               | (b2, Inr _) \<Rightarrow> (b2, Inr (setPosition cursor enabled d)))))"

definition launchLocked :: "Bus \<Rightarrow> durable \<Rightarrow> durable" where
  "launchLocked b d = (if b_stopped b \<or> b_cancelled b then d else d\<lparr>d_launched := True, d_phase := Selecting\<rparr>)"

definition bus_register ::
  "time \<Rightarrow> string \<Rightarrow> Filter \<Rightarrow> bool \<Rightarrow> bool \<Rightarrow> Bus \<Rightarrow> Bus \<times> (bus_failure + unit)" where
  "bus_register now nm f hooked handler b =
     (if TrimSpace nm = [] then (b, Inl NameRequired)
      else if \<not> handler then (b, Inl HandlerRequired)
      else if Registered nm b then (b, Inl AlreadyRegistered)
      else if nm \<in> set (b_retiring b) then (b, Inl BeingUnregistered)
      else (let d = newDurable nm f hooked in
        if \<not> b_started b \<or> \<not> b_stored b then (b\<lparr>b_durables := b_durables b @ [d]\<rparr>, Inr ())
        else (case with_db b BusBounds of
            (b1, Inl _) \<Rightarrow> (b1, Inl StoreError)
          | (b1, Inr (earliest, head)) \<Rightarrow>
              (case initConsumer now d head b1 of
                 (b2, Inl e) \<Rightarrow> (b2, Inl e)
               | (b2, Inr d1) \<Rightarrow> (b2\<lparr>b_durables := b_durables b2 @ [launchLocked b2 d1]\<rparr>, Inr ())))))"

definition Register :: "time \<Rightarrow> string \<Rightarrow> Filter \<Rightarrow> bool \<Rightarrow> Bus \<Rightarrow> Bus \<times> (bus_failure + unit)" where
  "Register now nm f handler b = bus_register now nm f False handler b"

definition RegisterWithPreDrain ::
  "time \<Rightarrow> string \<Rightarrow> Filter \<Rightarrow> bool \<Rightarrow> bool \<Rightarrow> Bus \<Rightarrow> Bus \<times> (bus_failure + unit)" where
  "RegisterWithPreDrain now nm f hook handler b =
     (if \<not> hook then (b, Inl HookRequired) else bus_register now nm f True handler b)"

definition bus_SetFilter :: "time \<Rightarrow> string \<Rightarrow> Filter \<Rightarrow> Bus \<Rightarrow> Bus \<times> (bus_failure + unit)" where
  "bus_SetFilter now nm f b =
     (if \<not> Registered nm b then (b, Inl NotRegistered)
      else let filtered = (\<lambda>b. b\<lparr>b_durables := map (\<lambda>d. if d_name d = nm then d\<lparr>d_filter := f\<rparr> else d) (b_durables b)\<rparr>) in
        if b_stored b \<and> b_started b
        then (case with_db b (\<lambda>s. GetBusConsumer s nm) of
            (b1, Inl _) \<Rightarrow> (b1, Inl StoreError)
          | (b1, Inr None) \<Rightarrow> (b1, Inl NoRegistration)
          | (b1, Inr (Some existing)) \<Rightarrow>
              (case with_db b1 (\<lambda>s. SaveBusConsumer s (existing\<lparr>con_Filter := Filter_String f\<rparr>) now) of
                 (b2, Inl _) \<Rightarrow> (b2, Inl StoreError)
               | (b2, Inr _) \<Rightarrow> (filtered b2, Inr ())))
        else (filtered b, Inr ()))"

text \<open>The launches of \<open>Start\<close>: they stop at the first consumer that cannot be set up.\<close>

fun start_durables :: "time \<Rightarrow> int \<Rightarrow> Bus \<Rightarrow> durable list \<Rightarrow> Bus \<times> durable list \<times> (bus_failure + unit)" where
  "start_durables now head b [] = (b, [], Inr ())"
| "start_durables now head b (d # ds) =
     (case initConsumer now d head b of
        (b1, Inl e) \<Rightarrow> (b1, d # ds, Inl e)
      | (b1, Inr d1) \<Rightarrow>
          (case start_durables now head b1 ds of (b2, ds', res) \<Rightarrow> (b2, launchLocked b1 d1 # ds', res)))"

definition bus_Start :: "time \<Rightarrow> Bus \<Rightarrow> Bus \<times> (bus_failure + unit)" where
  "bus_Start now b =
     (if b_started b then (b, Inr ())
      else let b = b\<lparr>b_started := True\<rparr> in
        if \<not> b_stored b then (b, Inr ())
        else (case with_db b BusBounds of
            (b1, Inl _) \<Rightarrow> (b1, Inl StoreError)
          | (b1, Inr (earliest, head)) \<Rightarrow>
              (case start_durables now head b1 (b_durables b1) of
                 (b2, ds, res) \<Rightarrow> (b2\<lparr>b_durables := ds\<rparr>, res))))"

text \<open>\<open>Stop\<close>, but for the wait until every loop has returned.\<close>

definition bus_Stop :: "Bus \<Rightarrow> Bus" where
  "bus_Stop b = b\<lparr>b_stopped := True, b_cancelled := True\<rparr>"

subsection \<open>Unregistering\<close>

definition remove_first :: "string \<Rightarrow> durable list \<Rightarrow> durable list" where
  "remove_first nm ds = takeWhile (\<lambda>d. d_name d \<noteq> nm) ds @ drop 1 (dropWhile (\<lambda>d. d_name d \<noteq> nm) ds)"

definition Unregister_begin :: "string \<Rightarrow> Bus \<Rightarrow> Bus" where
  "Unregister_begin nm b =
     b\<lparr>b_durables := remove_first nm (b_durables b), b_retiring := List.insert nm (b_retiring b),
       b_leaving := b_leaving b @ [(nm, find (\<lambda>d. d_name d = nm) (b_durables b))]\<rparr>"

definition Unregister_retire :: "nat \<Rightarrow> Bus \<Rightarrow> Bus" where
  "Unregister_retire k b =
     (if k < length (b_leaving b)
      then b\<lparr>b_leaving := (b_leaving b)[k := map_prod id (map_option retire) (b_leaving b ! k)]\<rparr> else b)"

definition may_leave :: "durable option \<Rightarrow> bool" where
  "may_leave found =
     (case found of None \<Rightarrow> True | Some d \<Rightarrow> d_retired d \<and> (d_launched d \<longrightarrow> d_phase d = Exited))"

definition drop_nth :: "nat \<Rightarrow> 'a list \<Rightarrow> 'a list" where
  "drop_nth k xs = take k xs @ drop (Suc k) xs"

definition Unregister_end :: "nat \<Rightarrow> Bus \<Rightarrow> Bus \<times> (bus_failure + unit)" where
  "Unregister_end k b =
     (if k < length (b_leaving b) \<and> may_leave (snd (b_leaving b ! k))
      then (let nm = fst (b_leaving b ! k);
                left = (\<lambda>b. b\<lparr>b_retiring := filter (\<lambda>n. n \<noteq> nm) (b_retiring b), b_leaving := drop_nth k (b_leaving b)\<rparr>)
            in if \<not> b_stored b then (left b, Inr ())
               else (case with_db b (\<lambda>s. DeleteBusConsumer s nm) of
                   (b1, Inl _) \<Rightarrow> (left b1, Inl StoreError)
                 | (b1, Inr _) \<Rightarrow> (left b1, Inr ())))
      else (b, Inr ()))"

subsection \<open>Delivery\<close>

text \<open>The drain returned without an error, or with one.\<close>

definition drained :: "durable \<Rightarrow> durable" where
  "drained d = d\<lparr>d_phase := Selecting\<rparr>"

definition stall :: "Bus \<Rightarrow> drain_error \<Rightarrow> durable \<Rightarrow> durable" where
  "stall b e d =
     (if ctx_done b d then d\<lparr>d_phase := Exited\<rparr>
      else (recordFailure e (d_attempts d + 1) d)
        \<lparr>d_phase := if bus_backoff (b_retryBase b) (b_retryCap b) (d_attempts d + 1) > 0 then Sleeping else Selecting\<rparr>)"

definition start_drain :: "durable \<Rightarrow> durable" where
  "start_drain d = d\<lparr>d_attempts := d_failures d, d_phase := if d_hooked d then Ready else Preparing\<rparr>"

text \<open>What the select of a waiting loop takes: its context is done, the wake-up, or the timer.\<close>

datatype choice = Quit | Woken | Ticked

definition wait_step :: "choice \<Rightarrow> Bus \<Rightarrow> durable \<Rightarrow> durable" where
  "wait_step ch b d =
     (case ch of
        Quit \<Rightarrow> if ctx_done b d then d\<lparr>d_phase := Exited\<rparr> else d
      | Woken \<Rightarrow> if d_phase d = Selecting \<and> d_wake d then start_drain (d\<lparr>d_wake := False\<rparr>) else d
      | Ticked \<Rightarrow> start_drain d)"

definition prepare_step :: "Bus \<Rightarrow> durable \<Rightarrow> Bus \<times> durable" where
  "prepare_step b d =
     (case with_db b (\<lambda>s. GetBusConsumer s (d_name d)) of
        (b1, Inl _) \<Rightarrow> (b1, stall b ReadingRegistration d)
      | (b1, Inr None) \<Rightarrow> (b1, stall b Disappeared d)
      | (b1, Inr (Some rec)) \<Rightarrow>
          (let d1 = setPosition (con_Cursor rec) (con_Enabled rec) d
           in (b1, if con_Enabled rec then d1\<lparr>d_phase := Bounding rec\<rparr> else drained d1)))"

definition gap_of :: "durable \<Rightarrow> int \<Rightarrow> int \<Rightarrow> Gap option" where
  "gap_of d earliest head =
     (if d_cursor d < earliest - 1
      then Some \<lparr>gap_Cursor = d_cursor d, gap_Earliest = earliest, gap_Head = head, gap_Missed = earliest - 1 - d_cursor d\<rparr>
      else None)"

definition bounds_step :: "Consumer \<Rightarrow> Bus \<Rightarrow> durable \<Rightarrow> Bus \<times> durable" where
  "bounds_step rec b d =
     (case with_db b BusBounds of
        (b1, Inl _) \<Rightarrow> (b1, stall b ReadingBounds d)
      | (b1, Inr (earliest, head)) \<Rightarrow>
          (let gap = gap_of d earliest head in
           (b1, d\<lparr>d_phase := if d_hooked d then Hooking rec gap else (case gap of None \<Rightarrow> Ready | Some g \<Rightarrow> Gapping g)\<rparr>)))"

text \<open>The two halves of \<open>advance\<close>: a retired consumer's cursor stays; a disabled one ends the drain.\<close>

definition advance_to :: "int \<Rightarrow> phase \<Rightarrow> durable \<Rightarrow> durable" where
  "advance_to seq after d = d\<lparr>d_phase := if d_retired d then after else Moving seq after\<rparr>"

definition move_step :: "time \<Rightarrow> int \<Rightarrow> phase \<Rightarrow> Bus \<Rightarrow> durable \<Rightarrow> Bus \<times> durable" where
  "move_step now seq after b d =
     (case with_db b (\<lambda>s. SetBusConsumerCursor s (d_name d) seq now) of
        (b1, Inl _) \<Rightarrow> (b1, stall b PersistingCursor d)
      | (b1, Inr applied) \<Rightarrow>
          (b1, if applied then d\<lparr>d_cursor := seq, d_phase := after\<rparr> else drained (d\<lparr>d_enabled := False\<rparr>)))"

definition reconcileGap :: "Gap \<Rightarrow> durable \<Rightarrow> durable" where
  "reconcileGap gap d = advance_to (gap_Head gap) Ready d"

definition hook_step :: "string option \<Rightarrow> Bus \<Rightarrow> durable \<Rightarrow> durable" where
  "hook_step failed b d =
     (case failed of Some err \<Rightarrow> stall b (BeforeDraining err) d | None \<Rightarrow> d\<lparr>d_phase := Rereading\<rparr>)"

definition reread_step :: "Bus \<Rightarrow> durable \<Rightarrow> Bus \<times> durable" where
  "reread_step b d =
     (case with_db b (\<lambda>s. GetBusConsumer s (d_name d)) of
        (b1, Inl _) \<Rightarrow> (b1, stall b RereadingRegistration d)
      | (b1, Inr None) \<Rightarrow> (b1, stall b DisappearedInHook d)
      | (b1, Inr (Some rec)) \<Rightarrow>
          (let d1 = setPosition (con_Cursor rec) (con_Enabled rec) d
           in (b1, if con_Enabled rec then d1\<lparr>d_phase := Fetching\<rparr> else drained d1)))"

definition loop_step :: "Bus \<Rightarrow> durable \<Rightarrow> durable" where
  "loop_step b d =
     (if ctx_done b d then drained d else d\<lparr>d_phase := if d_hooked d then Preparing else Fetching\<rparr>)"

definition fetch_step :: "Bus \<Rightarrow> durable \<Rightarrow> Bus \<times> durable" where
  "fetch_step b d =
     (case with_db b (\<lambda>s. BusEventsSince s (d_cursor d) (b_batchSize b)) of
        (b1, Inl _) \<Rightarrow> (b1, stall b ReadingLog d)
      | (b1, Inr evs) \<Rightarrow> (b1, if evs = [] then drained (clearFailure d) else d\<lparr>d_phase := Scanning evs 0\<rparr>))"

text \<open>The check, once per poll interval, whether the consumer was disabled meanwhile.\<close>

definition killed :: "time \<Rightarrow> Bus \<Rightarrow> durable \<Rightarrow> Bus \<times> durable \<times> (drain_error + bool)" where
  "killed now b d =
     (if time_sub now (d_lastCheck d) < b_pollInterval b then (b, d, Inr False)
      else let d = d\<lparr>d_lastCheck := now\<rparr> in
        (case with_db b (\<lambda>s. GetBusConsumer s (d_name d)) of
           (b1, Inl _) \<Rightarrow> (b1, d, Inl ReadingRegistration)
         | (b1, Inr None) \<Rightarrow> (b1, d, Inl Disappeared)
         | (b1, Inr (Some rec)) \<Rightarrow> (b1, d\<lparr>d_enabled := con_Enabled rec\<rparr>, Inr (\<not> con_Enabled rec))))"

definition look_at :: "Event \<Rightarrow> Event list \<Rightarrow> int \<Rightarrow> durable \<Rightarrow> durable" where
  "look_at ev evs skipped d =
     (if \<not> Matches (d_filter d) (ev_Name ev) then d\<lparr>d_phase := Scanning evs (ev_Seq ev)\<rparr>
      else if skipped \<noteq> 0 then advance_to skipped (Handling ev evs) d
      else d\<lparr>d_phase := Handling ev evs\<rparr>)"

fun scan_step :: "time \<Rightarrow> Event list \<Rightarrow> int \<Rightarrow> Bus \<Rightarrow> durable \<Rightarrow> Bus \<times> durable" where
  "scan_step now [] skipped b d = (b, if skipped \<noteq> 0 then advance_to skipped Looping d else d\<lparr>d_phase := Looping\<rparr>)"
| "scan_step now (ev # evs) skipped b d =
     (if ctx_done b d then (b, drained d)
      else (case killed now b d of
          (b1, d1, Inl e) \<Rightarrow> (b1, stall b e d1)
        | (b1, d1, Inr stop) \<Rightarrow> (b1, if stop then drained d1 else look_at ev evs skipped d1)))"

definition handle_step :: "string option \<Rightarrow> Event \<Rightarrow> Event list \<Rightarrow> Bus \<Rightarrow> durable \<Rightarrow> Bus \<times> durable" where
  "handle_step failed ev evs b d =
     (case failed of
        Some err \<Rightarrow> (b, if ctx_done b d then drained d else stall b (HandlingFailed (ev_Name ev) (ev_Seq ev) err) d)
      | None \<Rightarrow> (b\<lparr>b_handled := b_handled b @ [(d_name d, ev)]\<rparr>, advance_to (ev_Seq ev) (Cleared evs) d))"

definition deliver_step :: "time \<Rightarrow> choice \<Rightarrow> string option \<Rightarrow> Bus \<Rightarrow> durable \<Rightarrow> Bus \<times> durable" where
  "deliver_step now ch failed b d =
     (case d_phase d of
        Unlaunched \<Rightarrow> (b, d)
      | Selecting \<Rightarrow> (b, wait_step ch b d)
      | Sleeping \<Rightarrow> (b, wait_step ch b d)
      | Preparing \<Rightarrow> prepare_step b d
      | Bounding rec \<Rightarrow> bounds_step rec b d
      | Gapping gap \<Rightarrow> (b, reconcileGap gap d)
      | Hooking rec gap \<Rightarrow> (b, hook_step failed b d)
      | Rereading \<Rightarrow> reread_step b d
      | Ready \<Rightarrow> (b, d\<lparr>d_lastCheck := now, d_phase := Looping\<rparr>)
      | Looping \<Rightarrow> (b, loop_step b d)
      | Fetching \<Rightarrow> fetch_step b d
      | Scanning evs skipped \<Rightarrow> scan_step now evs skipped b d
      | Handling ev evs \<Rightarrow> handle_step failed ev evs b d
      | Cleared evs \<Rightarrow> (b, (clearFailure d)\<lparr>d_phase := Scanning evs 0\<rparr>)
      | Moving seq after \<Rightarrow> move_step now seq after b d
      | Exited \<Rightarrow> (b, d))"

definition Deliver :: "nat \<Rightarrow> time \<Rightarrow> choice \<Rightarrow> string option \<Rightarrow> Bus \<Rightarrow> Bus" where
  "Deliver i now ch failed b =
     (if i < length (b_durables b)
      then (case deliver_step now ch failed b (b_durables b ! i) of (b1, d1) \<Rightarrow> b1\<lparr>b_durables := (b_durables b)[i := d1]\<rparr>)
      else b)"

definition Deliver_leaving :: "nat \<Rightarrow> time \<Rightarrow> choice \<Rightarrow> string option \<Rightarrow> Bus \<Rightarrow> Bus" where
  "Deliver_leaving k now ch failed b =
     (if k < length (b_leaving b)
      then (case b_leaving b ! k of
          (nm, None) \<Rightarrow> b
        | (nm, Some d) \<Rightarrow> (case deliver_step now ch failed b d of (b1, d1) \<Rightarrow> b1\<lparr>b_leaving := (b_leaving b)[k := (nm, Some d1)]\<rparr>))
      else b)"

subsection \<open>Retention\<close>

definition bus_trim :: "time \<Rightarrow> Bus \<Rightarrow> Bus \<times> (bus_error + nat)" where
  "bus_trim now b = with_db b (\<lambda>s. TrimBusEvents s (now - b_retention b))"

definition list_floor :: "Consumer list \<Rightarrow> int" where
  "list_floor cs =
     fold (\<lambda>c floor. if \<not> con_Enabled c \<and> \<not> con_PinsRetention c then floor
        else if floor < 0 \<or> con_Cursor c < floor then con_Cursor c else floor) cs (- 1)"

definition floor_of :: "Consumer list \<Rightarrow> Bus \<Rightarrow> Bus \<times> (bus_error + int)" where
  "floor_of cs b =
     (if list_floor cs \<ge> 0 then (b, Inr (list_floor cs))
      else (case with_db b BusBounds of
          (b1, Inl e) \<Rightarrow> (b1, Inl e)
        | (b1, Inr (earliest, head)) \<Rightarrow> (b1, Inr head)))"

definition consumerFloor :: "Bus \<Rightarrow> Bus \<times> (bus_error + int)" where
  "consumerFloor b =
     (case with_db b ListBusConsumers of
        (b1, Inl e) \<Rightarrow> (b1, Inl e)
      | (b1, Inr cs) \<Rightarrow> floor_of cs b1)"

definition bus_compact :: "Bus \<Rightarrow> Bus \<times> (bus_error + nat)" where
  "bus_compact b =
     (if b_compactable b = [] then (b, Inr 0)
      else (case consumerFloor b of
          (b1, Inl e) \<Rightarrow> (b1, Inl e)
        | (b1, Inr floor) \<Rightarrow> with_db b1 (\<lambda>s. CompactBusEvents s (b_compactable b) floor)))"

text \<open>The first error of the two passes wins; what either removed is reported.\<close>

definition bus_Trim :: "time \<Rightarrow> Bus \<Rightarrow> Bus \<times> nat \<times> bus_error option" where
  "bus_Trim now b =
     (if \<not> b_stored b then (b, 0, None)
      else (case bus_trim now b of (b1, trimmed_n) \<Rightarrow>
        (case bus_compact b1 of (b2, compacted_n) \<Rightarrow>
          (b2, case_sum (\<lambda>_. 0) id trimmed_n + case_sum (\<lambda>_. 0) id compacted_n,
           case trimmed_n of Inl e \<Rightarrow> Some e
           | Inr _ \<Rightarrow> (case compacted_n of Inl e \<Rightarrow> Some e | Inr _ \<Rightarrow> None)))))"

end
