(* ===== verification/Bus_Log_Laws.thy ===== *)
theory Bus_Log_Laws
  imports Bus_Consumers
begin

text \<open>
  What the bus relies on in its tables, as the locale \<open>event_log\<close>, and that the statements of
  \<open>Bus_Log\<close> provide it: which statements only read, which add one event, which remove events, and which
  rows they touch.
\<close>

subsection \<open>The contract\<close>

definition above :: "int \<Rightarrow> Event list \<Rightarrow> Event list" where
  "above c evs = filter (\<lambda>e. c < ev_Seq e) evs"

definition ascending :: "Event list \<Rightarrow> bool" where
  "ascending evs = sorted_wrt (\<lambda>a b. ev_Seq a < ev_Seq b) evs"

lemma ascending_above [simp]: "ascending evs \<Longrightarrow> ascending (above c evs)"
  unfolding ascending_def above_def by (rule sorted_wrt_filter)

lemma ascending_take: "ascending evs \<Longrightarrow> ascending (take k evs)"
  by (simp add: ascending_def sorted_wrt_take)

lemma ascending_prefix:
  assumes "ascending evs" "e' \<in> set (take k evs)" "e \<in> set evs" "ev_Seq e \<le> ev_Seq e'"
  shows "e \<in> set (take k evs)"
proof (rule ccontr)
  assume "e \<notin> set (take k evs)"
  moreover have split: "evs = take k evs @ drop k evs" by simp
  ultimately have "e \<in> set (drop k evs)" using assms(3) by (metis Un_iff set_append)
  moreover have "sorted_wrt (\<lambda>a b. ev_Seq a < ev_Seq b) (take k evs @ drop k evs)"
    using assms(1) by (simp add: ascending_def)
  ultimately have "ev_Seq e' < ev_Seq e" using assms(2) by (simp only: sorted_wrt_append)
  then show False using assms(4) by simp
qed

locale event_log =
  fixes proper :: "'db \<Rightarrow> bool"
    and log :: "'db \<Rightarrow> Event list"
    and row :: "'db \<Rightarrow> string \<Rightarrow> Consumer option"
    and since :: "'db \<Rightarrow> int \<Rightarrow> int \<Rightarrow> 'db \<times> (bus_error + Event list)"
    and set_cursor :: "'db \<Rightarrow> string \<Rightarrow> int \<Rightarrow> time \<Rightarrow> 'db \<times> (bus_error + bool)"
    and trim :: "'db \<Rightarrow> time \<Rightarrow> 'db \<times> (bus_error + nat)"
    and compact :: "'db \<Rightarrow> string list \<Rightarrow> int \<Rightarrow> 'db \<times> (bus_error + nat)"
  assumes since_result: "since d c n = (d', Inr evs) \<Longrightarrow> \<exists>k > 0. evs = take k (above c (log d))"
    and set_cursor_row: "set_cursor d nm c t = (d', res) \<Longrightarrow>
      row d' other = (if other = nm \<and> \<not> isl res
        then map_option (\<lambda>r. if con_Enabled r then r\<lparr>con_Cursor := c, con_UpdatedAt := formatStoredTime t\<rparr> else r) (row d other)
        else row d other)"
    and set_cursor_applied: "proper d \<Longrightarrow> set_cursor d nm c t = (d', Inr applied) \<Longrightarrow>
      applied = (\<exists>r. row d nm = Some r \<and> con_Enabled r)"
    and trim_log: "proper d \<Longrightarrow> trim d t = (d', removed) \<Longrightarrow> \<exists>P. log d' = filter P (log d) \<and>
      (\<forall>e nm r. \<not> P e \<and> row d nm = Some r \<and> con_Enabled r \<longrightarrow> ev_Seq e \<le> con_Cursor r)"
    and compact_log: "compact d names floor = (d', removed) \<Longrightarrow> \<exists>P. log d' = filter P (log d) \<and>
      (\<forall>e. \<not> P e \<longrightarrow> ev_Seq e \<le> floor)"
begin

lemma since_covers:
  assumes "since d c n = (d', Inr evs)" "ascending (log d)"
  shows "ascending evs" "set evs \<subseteq> set (log d)" "\<forall>e \<in> set evs. c < ev_Seq e"
    "\<forall>e \<in> set (log d). \<forall>e' \<in> set evs. c < ev_Seq e \<and> ev_Seq e \<le> ev_Seq e' \<longrightarrow> e \<in> set evs"
proof -
  obtain k where k: "evs = take k (above c (log d))" using since_result [OF assms(1)] by blast
  show "ascending evs" using assms(2) k by (simp add: ascending_take)
  show "set evs \<subseteq> set (log d)" "\<forall>e \<in> set evs. c < ev_Seq e"
    using k by (auto dest: in_set_takeD simp: above_def)
  show "\<forall>e \<in> set (log d). \<forall>e' \<in> set evs. c < ev_Seq e \<and> ev_Seq e \<le> ev_Seq e' \<longrightarrow> e \<in> set evs"
    using ascending_prefix [of "above c (log d)"] assms(2) k by (auto simp: above_def ascending_def sorted_wrt_filter)
qed

lemma since_empty:
  assumes "since d c n = (d', Inr [])"
  shows "\<forall>e \<in> set (log d). ev_Seq e \<le> c"
  using since_result [OF assms] by (force simp: above_def filter_empty_conv)

text \<open>No enabled consumer loses an event above its cursor to retention, or to a compaction below it.\<close>

lemma trim_keeps:
  assumes "proper d" "trim d t = (d', res)" "row d nm = Some r" "con_Enabled r" "e \<in> set (log d)" "con_Cursor r < ev_Seq e"
  shows "e \<in> set (log d')"
  using trim_log [OF assms(1,2)] assms(3-) by fastforce

lemma compact_keeps:
  assumes "compact d names floor = (d', res)" "floor \<le> c" "e \<in> set (log d)" "c < ev_Seq e"
  shows "e \<in> set (log d')"
  using compact_log [OF assms(1)] assms(2-) by fastforce

end

subsection \<open>Single statements\<close>

text \<open>A statement that only reads.\<close>

definition same_tables :: "bus_db \<Rightarrow> bus_db \<Rightarrow> bool" where
  "same_tables d d' \<longleftrightarrow> bus_events d' = bus_events d \<and> last_seq d' = last_seq d \<and> bus_consumers d' = bus_consumers d"

lemma same_tables_refl [simp]: "same_tables d d"
  by (simp add: same_tables_def)

lemma same_tables_row: "same_tables d d' \<Longrightarrow> consumer_row d' = consumer_row d"
  by (rule ext) (simp add: same_tables_def consumer_row_def)

lemma exec_reads: "exec d (\<lambda>d. (d, r d)) = (d', res) \<Longrightarrow> same_tables d d'"
  by (auto simp: exec_eq same_tables_def split: if_splits)

lemmas reading_defs = GetBusConsumer_def BusEventsSince_def BusBounds_def ListBusConsumers_def

lemma reads_same:
  "same_tables d (fst (GetBusConsumer d nm))" "same_tables d (fst (BusEventsSince d c n))"
  "same_tables d (fst (BusBounds d))" "same_tables d (fst (ListBusConsumers d))"
  by (auto simp: reading_defs exec_eq same_tables_def)

lemma GetBusConsumer_result: "GetBusConsumer d nm = (d', Inr found) \<Longrightarrow> found = consumer_row d nm"
  by (auto simp: GetBusConsumer_def exec_eq consumer_row_def split: if_splits)

lemma fold_min_le: "fold min ss (s :: int) \<le> s" "x \<in> set ss \<Longrightarrow> fold min ss s \<le> x"
proof -
  have le: "fold min ss (s :: int) \<le> s" for ss s
  proof (induction ss arbitrary: s)
    case (Cons y ys)
    then show ?case using Cons [of "min y s"] by simp
  qed simp
  show "fold min ss s \<le> s" by (rule le)
  show "x \<in> set ss \<Longrightarrow> fold min ss s \<le> x"
  proof (induction ss arbitrary: s)
    case (Cons y ys)
    then show ?case using le [of ys "min y s"] by auto
  qed simp
qed

lemma fold_min_in: "fold min ss (s :: int) \<in> insert s (set ss)"
proof (induction ss arbitrary: s)
  case (Cons y ys)
  then show ?case using Cons [of "min y s"] by (auto simp: min_def split: if_splits)
qed simp

lemma BusBounds_result:
  assumes "BusBounds d = (d', Inr (earliest, head))"
  shows "head = last_seq d" "e \<in> set (bus_events d) \<Longrightarrow> earliest \<le> ev_Seq e"
    "bus_events d = [] \<Longrightarrow> earliest = last_seq d + 1" "bus_events d \<noteq> [] \<Longrightarrow> earliest \<in> ev_Seq ` set (bus_events d)"
proof -
  have eq: "(earliest, head) = (case map ev_Seq (bus_events d) of
      [] \<Rightarrow> (last_seq d + 1, last_seq d) | s # ss \<Rightarrow> (fold min ss s, last_seq d))"
    using assms by (auto simp: BusBounds_def exec_eq split: if_splits list.splits)
  then show "head = last_seq d" by (auto split: list.splits)
  show "bus_events d = [] \<Longrightarrow> earliest = last_seq d + 1" using eq by simp
  show "e \<in> set (bus_events d) \<Longrightarrow> earliest \<le> ev_Seq e"
    using eq fold_min_le by (cases "bus_events d") fastforce+
  show "bus_events d \<noteq> [] \<Longrightarrow> earliest \<in> ev_Seq ` set (bus_events d)"
    using eq fold_min_in [of "map ev_Seq (tl (bus_events d))" "ev_Seq (hd (bus_events d))"] by (cases "bus_events d") auto
qed

lemma row_on_row:
  assumes "\<And>c. con_Name (f c) = con_Name c"
  shows "consumer_row (on_row nm f d) n = (if n = nm then map_option f (consumer_row d n) else consumer_row d n)"
proof -
  have "find (\<lambda>c. con_Name c = n) (map (\<lambda>c. if con_Name c = nm then f c else c) cs) =
      (if n = nm then map_option f (find (\<lambda>c. con_Name c = n) cs) else find (\<lambda>c. con_Name c = n) cs)" for cs
    using assms by (induction cs) auto
  then show ?thesis by (simp add: consumer_row_def on_row_def)
qed

lemma on_row_log [simp]:
  "bus_events (on_row nm f d) = bus_events d" "last_seq (on_row nm f d) = last_seq d" "db_faults (on_row nm f d) = db_faults d"
  by (simp_all add: on_row_def)

lemma consumer_row_faults [simp]: "consumer_row (d\<lparr>db_faults := x\<rparr>) = consumer_row d"
  by (rule ext) (simp add: consumer_row_def)

lemma list_ex_row:
  assumes "distinct (map con_Name cs)"
  shows "list_ex (\<lambda>c. con_Name c = nm \<and> P c) cs \<longleftrightarrow> (\<exists>r. find (\<lambda>c. con_Name c = nm) cs = Some r \<and> P r)"
  using assms
proof (induction cs)
  case (Cons c cs)
  have "con_Name c \<notin> con_Name ` set cs" using Cons.prems by simp
  then have "con_Name c = nm \<Longrightarrow> \<not> list_ex (\<lambda>c. con_Name c = nm \<and> P c) cs" by (auto simp: list_ex_iff image_iff)
  then show ?case using Cons by auto
qed simp

text \<open>The floor of a retention pass is at most the cursor of every enabled consumer.\<close>

lemma trim_floor_le:
  assumes "consumer_row d nm = Some r" "con_Enabled r"
  shows "trim_floor d \<le> con_Cursor r"
proof -
  have "r \<in> set (bus_consumers d)" using assms(1) find_Some_iff_first by (fastforce simp: consumer_row_def)
  then have "con_Cursor r \<in> set (map con_Cursor (filter con_Enabled (bus_consumers d)))" using assms(2) by auto
  then show ?thesis using fold_min_le
    by (cases "map con_Cursor (filter con_Enabled (bus_consumers d))") (fastforce simp: trim_floor_def)+
qed

lemma SetBusConsumerCursor_row:
  assumes "SetBusConsumerCursor d nm c t = (d', res)"
  shows "consumer_row d' n = (if n = nm \<and> \<not> isl res
      then map_option (\<lambda>r. if con_Enabled r then r\<lparr>con_Cursor := c, con_UpdatedAt := formatStoredTime t\<rparr> else r) (consumer_row d n)
      else consumer_row d n)"
    and "bus_events d' = bus_events d" "last_seq d' = last_seq d"
  using assms by (auto simp: SetBusConsumerCursor_def exec_eq row_on_row split: if_splits)

definition proper_rows :: "bus_db \<Rightarrow> bool" where
  "proper_rows d \<longleftrightarrow> distinct (map con_Name (bus_consumers d)) \<and> (\<forall>c \<in> set (bus_consumers d). 0 \<le> con_Cursor c)"

interpretation sql_log: event_log proper_rows bus_events consumer_row BusEventsSince SetBusConsumerCursor TrimBusEvents CompactBusEvents
proof unfold_locales
  show "BusEventsSince d c n = (d', Inr evs) \<Longrightarrow> \<exists>k > 0. evs = take k (above c (bus_events d))" for d c n d' evs
    by (rule exI [of _ "nat (if n \<le> 0 then 100 else n)"]) (auto simp: BusEventsSince_def exec_eq above_def split: if_splits)
  show "SetBusConsumerCursor d nm c t = (d', res) \<Longrightarrow>
      consumer_row d' n = (if n = nm \<and> \<not> isl res
        then map_option (\<lambda>r. if con_Enabled r then r\<lparr>con_Cursor := c, con_UpdatedAt := formatStoredTime t\<rparr> else r) (consumer_row d n)
        else consumer_row d n)" for d nm c t d' res n
    by (rule SetBusConsumerCursor_row)
  show "proper_rows d \<Longrightarrow> SetBusConsumerCursor d nm c t = (d', Inr applied) \<Longrightarrow>
      applied = (\<exists>r. consumer_row d nm = Some r \<and> con_Enabled r)" for d nm c t d' applied
    by (auto simp: SetBusConsumerCursor_def exec_eq consumer_row_def list_ex_row proper_rows_def split: if_splits)
  show "proper_rows d \<Longrightarrow> TrimBusEvents d t = (d', res) \<Longrightarrow> \<exists>P. bus_events d' = filter P (bus_events d) \<and>
      (\<forall>e nm r. \<not> P e \<and> consumer_row d nm = Some r \<and> con_Enabled r \<longrightarrow> ev_Seq e \<le> con_Cursor r)" for d t d' res
  proof -
    assume t: "TrimBusEvents d t = (d', res)"
    show ?thesis
    proof (cases res)
      case (Inl e)
      then have "bus_events d' = filter (\<lambda>_. True) (bus_events d)"
        using t by (auto simp: TrimBusEvents_def exec_eq Let_def split: if_splits)
      then show ?thesis by (metis (no_types))
    next
      case (Inr n)
      then have eq: "bus_events d' = filter (\<lambda>e. \<not> trimmed (d\<lparr>db_faults := tl (db_faults d)\<rparr>) t e) (bus_events d)"
        using t by (auto simp: TrimBusEvents_def exec_eq Let_def split: if_splits)
      have "trimmed (d\<lparr>db_faults := tl (db_faults d)\<rparr>) t e \<Longrightarrow> consumer_row d nm = Some r \<Longrightarrow> con_Enabled r \<Longrightarrow>
          ev_Seq e \<le> con_Cursor r" for e nm r
        using trim_floor_le [of "d\<lparr>db_faults := tl (db_faults d)\<rparr>" nm r] by (simp add: trimmed_def)
      then show ?thesis using eq by blast
    qed
  qed
  show "CompactBusEvents d names floor = (d', res) \<Longrightarrow> \<exists>P. bus_events d' = filter P (bus_events d) \<and>
      (\<forall>e. \<not> P e \<longrightarrow> ev_Seq e \<le> floor)" for d names floor d' res
  proof -
    assume c: "CompactBusEvents d names floor = (d', res)"
    have "bus_events d' = filter (\<lambda>_. True) (bus_events d) \<or>
        bus_events d' = filter (\<lambda>e. \<not> compacted (d\<lparr>db_faults := tl (db_faults d)\<rparr>) names floor e) (bus_events d)"
      using c by (auto simp: CompactBusEvents_def exec_eq split: if_splits)
    moreover have "compacted (d\<lparr>db_faults := tl (db_faults d)\<rparr>) names floor e \<Longrightarrow> ev_Seq e \<le> floor" for e
      by (simp add: compacted_def)
    ultimately show ?thesis by metis
  qed
qed

end
