(* ===== verification/Bus_Steps.thy ===== *)
theory Bus_Steps
  imports Bus_Consumers
begin

text \<open>
  The bus in its surroundings: everything that callers, the delivery loops, the retention pass, other
  writers of the same tables and a restart of the process can do, in any order. A run is the list of what
  happens; \<open>w_history\<close> is every event the log ever took in.
\<close>

subsection \<open>What happens\<close>

datatype compaction = Listed "Consumer list" | Floored int

record world =
  w_bus :: Bus
  w_history :: "Event list"
  w_passes :: "compaction list"

abbreviation w_db :: "world \<Rightarrow> bus_db" where
  "w_db w \<equiv> b_store (w_bus w)"

datatype action =
    APublish time string string string "string option option"
  | AAnnounce
  | ASubscribe Filter
  | AUnsubscribe nat
  | ARegister time string Filter bool
  | ASetFilter time string Filter
  | AStart time
  | AStop
  | AUnregister string
  | ARetire nat
  | AUnregistered nat
  | ADeliver nat time choice "string option"
  | ADeliverLeaving nat time choice "string option"
  | ATrim time
  | ACompactList
  | ACompactFloor nat
  | ACompact nat
  | AAppend time Event
  | AAppendOnce time string string string Event
  | AObserve time string Event
  | ATransfer time string string string Event
  | AReceipt int
  | AEnable time string bool
  | AAdvance time string int
  | ARestart bus_Options

text \<open>A new process on the same database; what was handed out before stays handed out.\<close>

definition restart :: "bus_Options \<Rightarrow> Bus \<Rightarrow> Bus" where
  "restart opts b = (bus_New (opts\<lparr>bo_Store := Some (b_store b)\<rparr>))\<lparr>b_told := b_told b, b_handled := b_handled b\<rparr>"

fun act :: "action \<Rightarrow> Bus \<Rightarrow> Bus" where
  "act (APublish now source nm subject payload) b = fst (PublishFrom now source nm subject payload b)"
| "act AAnnounce b = Announce b"
| "act (ASubscribe f) b = Subscribe f b"
| "act (AUnsubscribe i) b = unsubscribe i b"
| "act (ARegister now nm f hooked) b = fst (bus_register now nm f hooked True b)"
| "act (ASetFilter now nm f) b = fst (bus_SetFilter now nm f b)"
| "act (AStart now) b = fst (bus_Start now b)"
| "act AStop b = bus_Stop b"
| "act (AUnregister nm) b = Unregister_begin nm b"
| "act (ARetire k) b = Unregister_retire k b"
| "act (AUnregistered k) b = fst (Unregister_end k b)"
| "act (ADeliver i now ch failed) b = Deliver i now ch failed b"
| "act (ADeliverLeaving k now ch failed) b = Deliver_leaving k now ch failed b"
| "act (ATrim now) b = fst (bus_trim now b)"
| "act (AAppend now ev) b = fst (with_db b (\<lambda>s. AppendBusEvent s ev now))"
| "act (AAppendOnce now kind i replaced ev) b =
     fst (with_db b (\<lambda>s. AppendBusEventOnceReplacingSource s kind i replaced ev now))"
| "act (AObserve now checksum ev) b = fst (with_db b (\<lambda>s. AppendGardenSeedArtifactObservation s checksum ev now))"
| "act (ATransfer now i replaced checksum ev) b =
     fst (with_db b (\<lambda>s. AppendGardenSeedArtifactTransferObservation s i replaced checksum ev now))"
| "act (AReceipt seq) b = b\<lparr>b_store := b_store b\<lparr>event_receipts := List.insert seq (event_receipts (b_store b))\<rparr>\<rparr>"
| "act (AEnable now nm enabled) b = fst (with_db b (\<lambda>s. SetBusConsumerEnabled s nm enabled now))"
| "act (AAdvance now nm cursor) b = fst (with_db b (\<lambda>s. AdvanceBusConsumerCursor s nm cursor now))"
| "act (ARestart opts) b = restart opts b"
| "act _ b = b"

text \<open>The compaction passes under way: the consumers read, then the floor known, then the deletion.\<close>

definition pass_list :: "world \<Rightarrow> world" where
  "pass_list w =
     (if b_compactable (w_bus w) = [] then w
      else (case with_db (w_bus w) ListBusConsumers of
          (b1, Inl _) \<Rightarrow> w\<lparr>w_bus := b1\<rparr>
        | (b1, Inr cs) \<Rightarrow> w\<lparr>w_bus := b1, w_passes := w_passes w @ [Listed cs]\<rparr>))"

definition pass_floor :: "nat \<Rightarrow> world \<Rightarrow> world" where
  "pass_floor k w =
     (if k < length (w_passes w)
      then (case w_passes w ! k of
          Listed cs \<Rightarrow> (case floor_of cs (w_bus w) of
              (b1, Inl _) \<Rightarrow> w\<lparr>w_bus := b1, w_passes := drop_nth k (w_passes w)\<rparr>
            | (b1, Inr floor) \<Rightarrow> w\<lparr>w_bus := b1, w_passes := (w_passes w)[k := Floored floor]\<rparr>)
        | Floored _ \<Rightarrow> w)
      else w)"

definition pass_delete :: "nat \<Rightarrow> world \<Rightarrow> world" where
  "pass_delete k w =
     (if k < length (w_passes w)
      then (case w_passes w ! k of
          Floored floor \<Rightarrow>
            w\<lparr>w_bus := fst (with_db (w_bus w) (\<lambda>s. CompactBusEvents s (b_compactable (w_bus w)) floor)),
              w_passes := drop_nth k (w_passes w)\<rparr>
        | Listed _ \<Rightarrow> w)
      else w)"

text \<open>The events an action added are those above the last sequence number before it.\<close>

definition acted :: "action \<Rightarrow> world \<Rightarrow> world" where
  "acted a w =
     (let b1 = act a (w_bus w) in
      w\<lparr>w_bus := b1,
        w_history := w_history w @ filter (\<lambda>e. last_seq (w_db w) < ev_Seq e) (bus_events (b_store b1)),
        w_passes := (case a of ARestart _ \<Rightarrow> [] | _ \<Rightarrow> w_passes w)\<rparr>)"

fun perform :: "action \<Rightarrow> world \<Rightarrow> world" where
  "perform ACompactList w = pass_list w"
| "perform (ACompactFloor k) w = pass_floor k w"
| "perform (ACompact k) w = pass_delete k w"
| "perform a w = acted a w"

definition run :: "action list \<Rightarrow> world \<Rightarrow> world" where
  "run acts w = fold perform acts w"

text \<open>A world at the start: a bus on an empty database, which may fail from the first statement on.\<close>

definition fresh_world :: "bus_Options \<Rightarrow> bool list \<Rightarrow> world" where
  "fresh_world opts faults =
     \<lparr>w_bus = bus_New (opts\<lparr>bo_Store := Some (no_store\<lparr>db_faults := faults\<rparr>)\<rparr>), w_history = [], w_passes = []\<rparr>"

inductive reachable_world :: "world \<Rightarrow> bool" where
  fresh: "reachable_world (fresh_world opts faults)"
| performed: "reachable_world w \<Longrightarrow> reachable_world (perform a w)"

end
