(* ===== verification/Bus_Frame.thy ===== *)
theory Bus_Frame
  imports Bus_Log_Laws Bus_Steps
begin

text \<open>
  What each operation of the bus changes: the log grows by at most one event, except in a retention pass,
  and the position of a consumer, its cursor and whether it is enabled, changes only through the
  operations on that consumer.
\<close>

subsection \<open>Tables\<close>

definition same_log :: "bus_db \<Rightarrow> bus_db \<Rightarrow> bool" where
  "same_log d d' \<longleftrightarrow> bus_events d' = bus_events d \<and> last_seq d' = last_seq d"

definition log_step :: "bus_db \<Rightarrow> bus_db \<Rightarrow> bool" where
  "log_step d d' \<longleftrightarrow> bus_events d' = bus_events d \<and> last_seq d' = last_seq d \<or>
     (\<exists>e. bus_events d' = bus_events d @ [e] \<and> ev_Seq e = last_seq d + 1 \<and> last_seq d' = last_seq d + 1)"

definition position :: "bus_db \<Rightarrow> string \<Rightarrow> (int \<times> bool) option" where
  "position d nm = map_option (\<lambda>r. (con_Cursor r, con_Enabled r)) (consumer_row d nm)"

text \<open>The consumers keep their shape, and those that \<open>P\<close> allows no change of keep their position.\<close>

definition rows_step :: "(string \<Rightarrow> bool) \<Rightarrow> bus_db \<Rightarrow> bus_db \<Rightarrow> bool" where
  "rows_step P d d' \<longleftrightarrow> (proper_rows d \<longrightarrow> proper_rows d') \<and> (\<forall>n. P n \<longrightarrow> position d' n = position d n)"

lemma same_log_refl [simp]: "same_log d d"
  by (simp add: same_log_def)

lemma same_log_trans: "same_log d d' \<Longrightarrow> same_log d' d'' \<Longrightarrow> same_log d d''"
  by (simp add: same_log_def)

lemma same_log_log_step: "same_log d d' \<Longrightarrow> log_step d d'"
  by (simp add: same_log_def log_step_def)

lemma same_tables_same_log: "same_tables d d' \<Longrightarrow> same_log d d'"
  by (simp add: same_log_def same_tables_def)

lemma log_step_refl [simp]: "log_step d d"
  by (simp add: log_step_def)

lemma rows_step_refl [simp]: "rows_step P d d"
  by (simp add: rows_step_def)

lemma rows_step_trans: "rows_step P d d' \<Longrightarrow> rows_step P d' d'' \<Longrightarrow> rows_step P d d''"
  by (simp add: rows_step_def)

lemma rows_step_row:
  assumes "rows_step P d d'" "P n"
  shows "consumer_row d' n = None \<longleftrightarrow> consumer_row d n = None"
proof -
  have "position d' n = position d n" using assms by (simp add: rows_step_def)
  then show ?thesis by (cases "consumer_row d n"; cases "consumer_row d' n") (simp_all add: position_def)
qed

lemma same_log_step: "same_tables d d' \<Longrightarrow> log_step d d'"
  by (simp add: log_step_def same_tables_def)

lemma same_rows_step: "same_tables d d' \<Longrightarrow> rows_step P d d'"
  by (simp add: rows_step_def same_tables_def position_def consumer_row_def proper_rows_def)

lemma same_tables_trans: "same_tables d d' \<Longrightarrow> same_tables d' d'' \<Longrightarrow> same_tables d d''"
  by (simp add: same_tables_def)

lemma log_step_same: "log_step d d' \<Longrightarrow> same_tables d' d'' \<Longrightarrow> log_step d d''"
  by (simp add: log_step_def same_tables_def)

lemma same_step_log: "same_tables d d' \<Longrightarrow> log_step d' d'' \<Longrightarrow> log_step d d''"
  by (simp add: log_step_def same_tables_def)

lemma proper_on_row:
  assumes "\<And>c. con_Name (f c) = con_Name c" "\<And>c. 0 \<le> con_Cursor c \<Longrightarrow> 0 \<le> con_Cursor (f c)"
  shows "proper_rows d \<Longrightarrow> proper_rows (on_row nm f d)"
proof -
  have "map con_Name (map (\<lambda>c. if con_Name c = nm then f c else c) cs) = map con_Name cs" for cs
    using assms(1) by (induction cs) auto
  then show "proper_rows d \<Longrightarrow> proper_rows (on_row nm f d)"
    using assms(2) by (auto simp: proper_rows_def on_row_def simp del: map_map)
qed

lemma rows_step_on_row:
  assumes "\<And>c. con_Name (f c) = con_Name c" "\<And>c. 0 \<le> con_Cursor c \<Longrightarrow> 0 \<le> con_Cursor (f c)"
    "\<And>n c. P n \<Longrightarrow> n = nm \<Longrightarrow> con_Cursor (f c) = con_Cursor c \<and> con_Enabled (f c) = con_Enabled c"
  shows "rows_step P d (on_row nm f d)"
proof -
  have "P n \<Longrightarrow> position (on_row nm f d) n = position d n" for n
    using row_on_row [OF assms(1), of nm d n] assms(3) [of n]
    by (cases "n = nm"; cases "consumer_row d n") (simp_all add: position_def)
  then show ?thesis using proper_on_row [of f, OF assms(1,2)] unfolding rows_step_def by blast
qed

lemma exec_same_log: "(\<And>x. same_log d (fst (f (d\<lparr>db_faults := x\<rparr>)))) \<Longrightarrow> same_log d (fst (exec d f))"
  by (auto simp: exec_eq same_log_def)

lemma exec_rows_step: "(\<And>x. rows_step P d (fst (f (d\<lparr>db_faults := x\<rparr>)))) \<Longrightarrow> rows_step P d (fst (exec d f))"
  by (auto simp: exec_eq rows_step_def proper_rows_def position_def)

lemma rows_step_faults: "rows_step P (d\<lparr>db_faults := x\<rparr>) d' = rows_step P d d'"
  by (simp add: rows_step_def proper_rows_def position_def)

lemma log_step_faults: "log_step (d\<lparr>db_faults := x\<rparr>) d' = log_step d d'"
  by (simp add: log_step_def)

lemma exec_on_row:
  assumes "\<And>c. con_Name (f c) = con_Name c" "\<And>c. 0 \<le> con_Cursor c \<Longrightarrow> 0 \<le> con_Cursor (f c)"
    "\<And>n c. P n \<Longrightarrow> n = nm \<Longrightarrow> con_Cursor (f c) = con_Cursor c \<and> con_Enabled (f c) = con_Enabled c"
  shows "same_log d (fst (exec d (\<lambda>d. (on_row nm f d, res d))))" "rows_step P d (fst (exec d (\<lambda>d. (on_row nm f d, res d))))"
proof -
  have l: "same_log d (on_row nm f (d\<lparr>db_faults := x\<rparr>))" for x by (simp add: same_log_def)
  have r: "rows_step P d (on_row nm f (d\<lparr>db_faults := x\<rparr>))" for x
    using rows_step_on_row [of f P nm "d\<lparr>db_faults := x\<rparr>", OF assms] by (simp add: rows_step_faults)
  show "same_log d (fst (exec d (\<lambda>d. (on_row nm f d, res d))))" "rows_step P d (fst (exec d (\<lambda>d. (on_row nm f d, res d))))"
    using l r by (auto intro: exec_same_log exec_rows_step)
qed

lemma row_statements:
  assumes "\<And>n. P n \<Longrightarrow> n \<noteq> nm"
  shows "0 \<le> c \<Longrightarrow> same_log d (fst (SetBusConsumerCursor d nm c t))"
    "0 \<le> c \<Longrightarrow> rows_step P d (fst (SetBusConsumerCursor d nm c t))"
    "same_log d (fst (SetBusConsumerEnabled d nm on t))" "rows_step P d (fst (SetBusConsumerEnabled d nm on t))"
    "same_log d (fst (AdvanceBusConsumerCursor d nm c t))" "rows_step P d (fst (AdvanceBusConsumerCursor d nm c t))"
  unfolding SetBusConsumerCursor_def SetBusConsumerEnabled_def AdvanceBusConsumerCursor_def
  by (rule exec_on_row; use assms in auto)+

text \<open>Saving a registration keeps the position of a consumer that has a row.\<close>

lemma SaveBusConsumer_step:
  assumes "0 \<le> con_Cursor c" "\<And>n. P n \<Longrightarrow> n = con_Name c \<Longrightarrow> consumer_row d n \<noteq> None"
  shows "same_log d (fst (SaveBusConsumer d c t))" "rows_step P d (fst (SaveBusConsumer d c t))"
proof -
  define f where "f = (\<lambda>d. (if consumer_row d (con_Name c) = None
      then d\<lparr>bus_consumers := bus_consumers d @ [c\<lparr>con_PinsRetention := False, con_UpdatedAt := formatStoredTime t\<rparr>]\<rparr>
      else on_row (con_Name c) (\<lambda>r. r\<lparr>con_Filter := con_Filter c, con_UpdatedAt := formatStoredTime t\<rparr>) d, Inr () :: bus_error + unit))"
  have l: "same_log d (fst (f (d\<lparr>db_faults := x\<rparr>)))" for x by (simp add: f_def same_log_def)
  have r: "rows_step P d (fst (f (d\<lparr>db_faults := x\<rparr>)))" for x
  proof (cases "consumer_row d (con_Name c)")
    case None
    then have absent: "\<forall>k \<in> set (bus_consumers d). con_Name k \<noteq> con_Name c" by (simp add: consumer_row_def find_None_iff_all)
    define e where "e = c\<lparr>con_PinsRetention := False, con_UpdatedAt := formatStoredTime t\<rparr>"
    have "find (\<lambda>k. con_Name k = n) (cs @ [e]) = find (\<lambda>k. con_Name k = n) cs" if "n \<noteq> con_Name c" for n cs
      using that by (induction cs) (auto simp: e_def)
    moreover have "proper_rows d \<Longrightarrow> proper_rows (d\<lparr>db_faults := x, bus_consumers := bus_consumers d @ [e]\<rparr>)"
      using absent assms(1) by (auto simp: proper_rows_def e_def)
    moreover have "P n \<Longrightarrow> n \<noteq> con_Name c" for n using assms(2) [of n] None by auto
    moreover have "fst (f (d\<lparr>db_faults := x\<rparr>)) = d\<lparr>db_faults := x, bus_consumers := bus_consumers d @ [e]\<rparr>"
      using None by (simp add: f_def e_def)
    ultimately show ?thesis by (simp add: rows_step_def position_def consumer_row_def)
  next
    case (Some k)
    have "rows_step P (d\<lparr>db_faults := x\<rparr>)
        (on_row (con_Name c) (\<lambda>r. r\<lparr>con_Filter := con_Filter c, con_UpdatedAt := formatStoredTime t\<rparr>) (d\<lparr>db_faults := x\<rparr>))"
      by (rule rows_step_on_row) auto
    then show ?thesis using Some by (simp add: f_def rows_step_faults)
  qed
  have "SaveBusConsumer d c t = exec d f" by (simp add: SaveBusConsumer_def f_def)
  then show "same_log d (fst (SaveBusConsumer d c t))" "rows_step P d (fst (SaveBusConsumer d c t))"
    using exec_same_log [of d f, OF l] exec_rows_step [of P d f, OF r] by simp_all
qed

lemma DeleteBusConsumer_step:
  assumes "\<And>n. P n \<Longrightarrow> n \<noteq> nm"
  shows "same_log d (fst (DeleteBusConsumer d nm))" "rows_step P d (fst (DeleteBusConsumer d nm))"
proof -
  have find: "find (\<lambda>c. con_Name c = n) (filter (\<lambda>c. con_Name c \<noteq> nm) cs) = find (\<lambda>c. con_Name c = n) cs" if "n \<noteq> nm" for n and cs :: "Consumer list"
    using that by (induction cs) auto
  have "rows_step P d (d\<lparr>db_faults := x, bus_consumers := filter (\<lambda>c. con_Name c \<noteq> nm) (bus_consumers d)\<rparr>)" for x
    using find [OF assms] by (auto simp: rows_step_def position_def consumer_row_def proper_rows_def intro: distinct_map_filter)
  then show "rows_step P d (fst (DeleteBusConsumer d nm))"
    unfolding DeleteBusConsumer_def by (intro exec_rows_step) simp
  show "same_log d (fst (DeleteBusConsumer d nm))"
    unfolding DeleteBusConsumer_def by (rule exec_same_log) (simp add: same_log_def)
qed

text \<open>The statements that add an event leave the consumers alone.\<close>

lemma appendBusEventWith_step:
  "appendBusEventWith e t d = (d', res) \<Longrightarrow> log_step d d' \<and> bus_consumers d' = bus_consumers d"
  by (auto simp: appendBusEventWith_def appended_def log_step_def split: if_splits)

lemma deleteReplaced_tables [simp]:
  "bus_events (deleteReplacedBusEventSource k i r d) = bus_events d" "last_seq (deleteReplacedBusEventSource k i r d) = last_seq d"
  "bus_consumers (deleteReplacedBusEventSource k i r d) = bus_consumers d"
  by (simp_all add: deleteReplacedBusEventSource_def Let_def)

lemma upsertObservation_tables:
  "upsertGardenSeedArtifactObservation i c s t d = (d', res) \<Longrightarrow> same_tables d d'"
  by (auto simp: upsertGardenSeedArtifactObservation_def same_tables_def split: if_splits)

lemma once_step:
  assumes "appendBusEventOnceReplacingSourceWith k i r e t d = (d', res)"
  shows "log_step d d' \<and> bus_consumers d' = bus_consumers d"
proof (cases "find (\<lambda>s. src_kind s = k \<and> src_id s = i \<and> src_event s = ev_Name e) (event_sources d)")
  case None
  obtain d1 res1 where a: "appendBusEventWith e t d = (d1, res1)" by (cases "appendBusEventWith e t d")
  show ?thesis using assms None a appendBusEventWith_step [OF a]
    by (auto simp: appendBusEventOnceReplacingSourceWith_def log_step_def split: sum.splits if_splits)
qed (use assms in \<open>auto simp: appendBusEventOnceReplacingSourceWith_def log_step_def\<close>)

lemma observed_step:
  assumes "observed d c e t = (d', res)"
  shows "log_step d d' \<and> bus_consumers d' = bus_consumers d"
proof -
  obtain d1 res1 where a: "appendBusEventWith e t d = (d1, res1)" by (cases "appendBusEventWith e t d")
  show ?thesis using assms a appendBusEventWith_step [OF a]
    by (auto simp: observed_def log_step_def same_tables_def split: sum.splits prod.splits dest!: upsertObservation_tables)
qed

lemma transfer_step:
  assumes "appendBusEventOnceReplacingSourceWith k i r e t d = (d1, Inr (s, ins))"
    "upsertGardenSeedArtifactObservation sd c s t d1 = (d2, res)"
  shows "log_step d d2 \<and> bus_consumers d2 = bus_consumers d"
  using once_step [OF assms(1)] upsertObservation_tables [OF assms(2)] by (auto simp: log_step_def same_tables_def)

lemma exec_append:
  assumes "\<And>x d' res. f (d\<lparr>db_faults := x\<rparr>) = (d', res) \<Longrightarrow> log_step d d' \<and> bus_consumers d' = bus_consumers d"
  shows "log_step d (fst (exec d f))" "bus_consumers (fst (exec d f)) = bus_consumers d"
proof -
  have "log_step d (fst (f (d\<lparr>db_faults := x\<rparr>)))" "bus_consumers (fst (f (d\<lparr>db_faults := x\<rparr>))) = bus_consumers d" for x
    using assms [of x] by (cases "f (d\<lparr>db_faults := x\<rparr>)"; simp)+
  then show "log_step d (fst (exec d f))" "bus_consumers (fst (exec d f)) = bus_consumers d"
    by (auto simp: exec_eq log_step_def)
qed

lemma rows_step_consumers: "bus_consumers d' = bus_consumers d \<Longrightarrow> rows_step P d d'"
  by (simp add: rows_step_def proper_rows_def position_def consumer_row_def)

lemma exec_appends:
  assumes "\<And>d d' res. f d = (d', res) \<Longrightarrow> log_step d d' \<and> bus_consumers d' = bus_consumers d"
  shows "log_step d (fst (if b then (d, r) else exec d f)) \<and> bus_consumers (fst (if b then (d, r) else exec d f)) = bus_consumers d"
proof -
  have "f (d\<lparr>db_faults := x\<rparr>) = (d', res) \<Longrightarrow> log_step d d' \<and> bus_consumers d' = bus_consumers d" for x d' res
    using assms [of "d\<lparr>db_faults := x\<rparr>" d' res] by (simp add: log_step_faults)
  then show ?thesis using exec_append [of f d] by simp
qed

lemma append_statements:
  "log_step d (fst (AppendBusEvent d e t)) \<and> bus_consumers (fst (AppendBusEvent d e t)) = bus_consumers d"
  "log_step d (fst (AppendBusEventOnceReplacingSource d k i r e t)) \<and>
   bus_consumers (fst (AppendBusEventOnceReplacingSource d k i r e t)) = bus_consumers d"
  "log_step d (fst (AppendGardenSeedArtifactObservation d c e t)) \<and>
   bus_consumers (fst (AppendGardenSeedArtifactObservation d c e t)) = bus_consumers d"
  "log_step d (fst (AppendGardenSeedArtifactTransferObservation d i r c e t)) \<and>
   bus_consumers (fst (AppendGardenSeedArtifactTransferObservation d i r c e t)) = bus_consumers d"
proof -
  show "log_step d (fst (AppendBusEvent d e t)) \<and> bus_consumers (fst (AppendBusEvent d e t)) = bus_consumers d"
    unfolding AppendBusEvent_def using exec_appends [of "appendBusEventWith e t" d False, OF appendBusEventWith_step] by simp
  show "log_step d (fst (AppendBusEventOnceReplacingSource d k i r e t)) \<and>
      bus_consumers (fst (AppendBusEventOnceReplacingSource d k i r e t)) = bus_consumers d"
    unfolding AppendBusEventOnceReplacingSource_def by (rule exec_appends) (rule once_step)
  show "log_step d (fst (AppendGardenSeedArtifactObservation d c e t)) \<and>
      bus_consumers (fst (AppendGardenSeedArtifactObservation d c e t)) = bus_consumers d"
    unfolding AppendGardenSeedArtifactObservation_def
    by (rule exec_appends) (auto dest: observed_step split: option.splits if_splits)
  show "log_step d (fst (AppendGardenSeedArtifactTransferObservation d i r c e t)) \<and>
      bus_consumers (fst (AppendGardenSeedArtifactTransferObservation d i r c e t)) = bus_consumers d"
    unfolding AppendGardenSeedArtifactTransferObservation_def
    by (rule exec_appends) (auto dest: transfer_step split: prod.splits sum.splits)
qed

subsection \<open>Announcing\<close>

text \<open>What announcing and publishing change of the bus besides the tables.\<close>

definition only_told :: "Bus \<Rightarrow> Bus \<Rightarrow> bool" where
  "only_told b b' \<longleftrightarrow> same_tables (b_store b) (b_store b') \<and>
     b' = b\<lparr>b_store := b_store b', b_announced := b_announced b', b_marked := b_marked b', b_told := b_told b'\<rparr>"

lemma only_told_refl [simp]: "only_told b b"
  by (simp add: only_told_def)

lemma only_told_trans:
  assumes "only_told b b'" "only_told b' b''"
  shows "only_told b b''"
proof -
  define s a m t where "s = b_store b'" and "a = b_announced b'" and "m = b_marked b'" and "t = b_told b'"
  have "b' = b\<lparr>b_store := s, b_announced := a, b_marked := m, b_told := t\<rparr>"
    using assms(1) by (simp add: only_told_def s_def a_def m_def t_def)
  then show ?thesis using assms by (auto simp: only_told_def intro: same_tables_trans)
qed

lemma only_told_fanout [simp]: "only_told b (fanoutEphemeral ev b)" "only_told b (announce_one ev b)"
  by (simp_all add: only_told_def fanoutEphemeral_def announce_one_def)

lemma only_told_fallback [simp]: "only_told b (announce_fallback fb b)"
  by (auto simp: announce_fallback_def split: option.splits)

lemma only_told_fold: "only_told b (fold announce_one evs b)"
proof (induction evs arbitrary: b)
  case (Cons e evs)
  show ?case using only_told_trans [OF only_told_fanout(2) Cons] by simp
qed simp

lemma only_told_read: "same_tables (b_store b) (fst (f (b_store b))) \<Longrightarrow> only_told b (fst (with_db b f))"
  by (simp add: only_told_def with_db_def)

lemma only_told_loop: "only_told b (announce_loop fb b)"
proof (induction fb b rule: announce_loop.induct)
  case (1 fb b)
  obtain b1 res where r: "with_db b (\<lambda>s. BusEventsSince s (b_announced b) (b_batchSize b)) = (b1, res)"
    by (cases "with_db b (\<lambda>s. BusEventsSince s (b_announced b) (b_batchSize b))")
  have o: "only_told b b1"
    using only_told_read [of b "\<lambda>s. BusEventsSince s (b_announced b) (b_batchSize b)"] r reads_same by simp
  show ?case
  proof (cases res)
    case (Inr evs)
    have "only_told b (fold announce_one evs b1)" using o only_told_fold only_told_trans by blast
    then show ?thesis using 1 [OF r [symmetric] Inr] Inr r o
      by (subst announce_loop.simps) (auto simp: Let_def intro: only_told_trans)
  qed (subst announce_loop.simps, use r o in \<open>auto intro: only_told_trans\<close>)
qed

lemma only_told_mark: "only_told b (fst (markHead b))"
  using reads_same(3) [of "b_store b"] by (auto simp: markHead_def with_db_def only_told_def split: sum.splits)

lemma only_told_announce: "only_told b (announceLocked fb b)"
proof -
  obtain b1 ok where m: "markHead b = (b1, ok)" by (cases "markHead b")
  have "only_told b b1" using only_told_mark [of b] m by simp
  then show ?thesis using m only_told_loop only_told_fanout
    by (cases ok) (auto simp: announceLocked_def split: option.splits intro: only_told_trans)
qed

end
