(* ===== verification/Bus_Invariant.thy ===== *)
theory Bus_Invariant
  imports Bus_Frame
begin

text \<open>
  The invariant of the bus and its tables: the log is an ascending part of everything published, sequence
  numbers count up from one without holes, no two consumers share a name, cursors are never negative.
\<close>

subsection \<open>One step of a delivery loop\<close>

definition same_consumer :: "durable \<Rightarrow> durable \<Rightarrow> bool" where
  "same_consumer d d' \<longleftrightarrow> d_name d' = d_name d \<and> d_hooked d' = d_hooked d \<and> d_filter d' = d_filter d \<and>
     d_retired d' = d_retired d \<and> d_cancelled d' = d_cancelled d \<and> d_launched d' = d_launched d"

lemma same_consumer_refl [simp]: "same_consumer d d"
  by (simp add: same_consumer_def)

text \<open>A step that reads the tables at most.\<close>

definition reading_step :: "Bus \<Rightarrow> durable \<Rightarrow> Bus \<times> durable \<Rightarrow> bool" where
  "reading_step b d r \<longleftrightarrow> same_consumer d (snd r) \<and> same_tables (b_store b) (b_store (fst r)) \<and>
     fst r = b\<lparr>b_store := b_store (fst r)\<rparr>"

lemma stall_same [simp]: "same_consumer d (stall b e d') = same_consumer d d'"
  by (simp add: stall_def same_consumer_def recordFailure_def)

lemma drained_same [simp]: "same_consumer d (drained d') = same_consumer d d'"
  by (simp add: drained_def same_consumer_def)

lemma moved_same [simp]:
  "same_consumer d (d'\<lparr>d_phase := p\<rparr>) = same_consumer d d'" "same_consumer d (d'\<lparr>d_cursor := c\<rparr>) = same_consumer d d'"
  "same_consumer d (d'\<lparr>d_enabled := en\<rparr>) = same_consumer d d'" "same_consumer d (d'\<lparr>d_lastCheck := t\<rparr>) = same_consumer d d'"
  "same_consumer d (d'\<lparr>d_wake := w\<rparr>) = same_consumer d d'"
  "same_consumer d (setPosition c en d') = same_consumer d d'" "same_consumer d (clearFailure d') = same_consumer d d'"
  "same_consumer d (advance_to s p d') = same_consumer d d'" "same_consumer d (start_drain d') = same_consumer d d'"
  by (simp_all add: same_consumer_def setPosition_def clearFailure_def advance_to_def start_drain_def)

lemma wait_reading: "reading_step b d (b, wait_step ch b d)"
  by (auto simp: reading_step_def wait_step_def split: choice.splits)

lemma prepare_reading: "reading_step b d (prepare_step b d)"
  using reads_same(1) [of "b_store b" "d_name d"]
  by (auto simp: reading_step_def prepare_step_def with_db_def Let_def split: sum.splits option.splits)

lemma bounds_reading: "reading_step b d (bounds_step rec b d)"
  using reads_same(3) [of "b_store b"]
  by (auto simp: reading_step_def bounds_step_def with_db_def Let_def split: sum.splits option.splits)

lemma reread_reading: "reading_step b d (reread_step b d)"
  using reads_same(1) [of "b_store b" "d_name d"]
  by (auto simp: reading_step_def reread_step_def with_db_def Let_def split: sum.splits option.splits)

lemma fetch_reading: "reading_step b d (fetch_step b d)"
  using reads_same(2) [of "b_store b" "d_cursor d" "b_batchSize b"]
  by (auto simp: reading_step_def fetch_step_def with_db_def split: sum.splits)

lemma killed_reading:
  assumes "killed now b d = (b1, d1, res)"
  shows "same_consumer d d1" "same_tables (b_store b) (b_store b1)" "b1 = b\<lparr>b_store := b_store b1\<rparr>"
    "d_cursor d1 = d_cursor d" "d_phase d1 = d_phase d"
  using assms reads_same(1) [of "b_store b" "d_name d"]
  by (auto simp: killed_def with_db_def Let_def split: if_splits sum.splits option.splits)

lemma look_at_same [simp]: "same_consumer d (look_at ev evs sk d') = same_consumer d d'"
  by (simp add: look_at_def)

lemma scan_reading: "reading_step b d (scan_step now evs sk b d)"
proof (cases evs)
  case (Cons ev evs')
  obtain b1 d1 res where k: "killed now b d = (b1, d1, res)" by (cases "killed now b d") auto
  show ?thesis using Cons k killed_reading [OF k]
    by (cases "ctx_done b d"; cases res) (auto simp: reading_step_def)
qed (auto simp: reading_step_def)

text \<open>Only the end of a handler and the move of the cursor do more.\<close>

lemma deliver_step_reading:
  assumes "\<And>ev evs. d_phase d \<noteq> Handling ev evs" "\<And>s p. d_phase d \<noteq> Moving s p"
  shows "reading_step b d (deliver_step now ch failed b d)"
  using assms wait_reading prepare_reading bounds_reading reread_reading fetch_reading scan_reading
  by (auto simp: deliver_step_def reconcileGap_def hook_step_def loop_step_def reading_step_def
      split: phase.splits option.splits)

lemma handle_effect:
  assumes "handle_step failed ev evs b d = (b', d')"
  shows "same_consumer d d'" "b' = b\<lparr>b_handled := b_handled b'\<rparr>"
    "b_handled b' = b_handled b @ (if failed = None then [(d_name d, ev)] else [])"
  using assms by (auto simp: handle_step_def split: option.splits if_splits)

lemma move_effect:
  assumes "move_step now s p b d = (b', d')"
  shows "same_consumer d d'" "b' = b\<lparr>b_store := b_store b'\<rparr>"
    "b_store b' = fst (SetBusConsumerCursor (b_store b) (d_name d) s now)"
  using assms by (auto simp: move_step_def with_db_def split: sum.splits if_splits)

text \<open>Together: what a step may do to the bus.\<close>

lemma deliver_effect:
  assumes step: "deliver_step now ch failed b d = (b', d')"
  shows "same_consumer d d'" "b' = b\<lparr>b_store := b_store b', b_handled := b_handled b'\<rparr>"
    "same_tables (b_store b) (b_store b') \<or> (\<exists>s p. d_phase d = Moving s p \<and>
       b_store b' = fst (SetBusConsumerCursor (b_store b) (d_name d) s now))"
    "b_handled b' = b_handled b \<or> (\<exists>ev evs. d_phase d = Handling ev evs \<and> b_handled b' = b_handled b @ [(d_name d, ev)])"
proof -
  consider (move) s p where "d_phase d = Moving s p" | (handle) ev evs where "d_phase d = Handling ev evs"
    | (read) "\<forall>ev evs. d_phase d \<noteq> Handling ev evs" "\<forall>s p. d_phase d \<noteq> Moving s p" by blast
  then have "same_consumer d d' \<and> b' = b\<lparr>b_store := b_store b', b_handled := b_handled b'\<rparr> \<and>
    (same_tables (b_store b) (b_store b') \<or> (\<exists>s p. d_phase d = Moving s p \<and>
       b_store b' = fst (SetBusConsumerCursor (b_store b) (d_name d) s now))) \<and>
    (b_handled b' = b_handled b \<or> (\<exists>ev evs. d_phase d = Handling ev evs \<and> b_handled b' = b_handled b @ [(d_name d, ev)]))"
  proof cases
    case move
    then have m: "move_step now s p b d = (b', d')" using step by (simp add: deliver_step_def)
    define st where "st = b_store b'"
    have "b' = b\<lparr>b_store := st\<rparr>" using move_effect(2) [OF m] by (simp add: st_def)
    then show ?thesis using move move_effect(1,3) [OF m] by auto
  next
    case handle
    then have h: "handle_step failed ev evs b d = (b', d')" using step by (simp add: deliver_step_def)
    define hd' where "hd' = b_handled b'"
    have "b' = b\<lparr>b_handled := hd'\<rparr>" using handle_effect(2) [OF h] by (simp add: hd'_def)
    then show ?thesis using handle handle_effect(1,3) [OF h] by (auto split: if_splits)
  next
    case read
    then have "reading_step b d (b', d')" using deliver_step_reading [of d b now ch failed] step by simp
    moreover define st where "st = b_store b'"
    ultimately have "b' = b\<lparr>b_store := st\<rparr>" "same_consumer d d'" "same_tables (b_store b) st" by (auto simp: reading_step_def)
    then show ?thesis by auto
  qed
  then show "same_consumer d d'" "b' = b\<lparr>b_store := b_store b', b_handled := b_handled b'\<rparr>"
    "same_tables (b_store b) (b_store b') \<or> (\<exists>s p. d_phase d = Moving s p \<and>
       b_store b' = fst (SetBusConsumerCursor (b_store b) (d_name d) s now))"
    "b_handled b' = b_handled b \<or> (\<exists>ev evs. d_phase d = Handling ev evs \<and> b_handled b' = b_handled b @ [(d_name d, ev)])"
    by blast+
qed

subsection \<open>Sequence numbers of a delivery loop\<close>

fun sane :: "phase \<Rightarrow> bool" where
  "sane (Gapping g) = (0 \<le> gap_Head g)"
| "sane (Scanning evs sk) = (0 \<le> sk \<and> (\<forall>e \<in> set evs. 0 \<le> ev_Seq e))"
| "sane (Handling ev evs) = (0 \<le> ev_Seq ev \<and> (\<forall>e \<in> set evs. 0 \<le> ev_Seq e))"
| "sane (Cleared evs) = (\<forall>e \<in> set evs. 0 \<le> ev_Seq e)"
| "sane (Moving s p) = (0 \<le> s \<and> sane p)"
| "sane _ = True"

lemma sane_stall [simp]: "sane (d_phase (stall b e d))"
  by (simp add: stall_def recordFailure_def)

lemma sane_drained [simp]: "sane (d_phase (drained d))"
  by (simp add: drained_def)

lemma sane_start [simp]: "sane (d_phase (start_drain d))"
  by (simp add: start_drain_def)

lemma sane_advance [simp]: "0 \<le> s \<Longrightarrow> sane p \<Longrightarrow> sane (d_phase (advance_to s p d))"
  by (simp add: advance_to_def)

lemma BusBounds_head: "snd (BusBounds d) = Inr (earliest, head) \<Longrightarrow> head = last_seq d"
  using BusBounds_result(1) [of d "fst (BusBounds d)"] by (cases "BusBounds d") auto

lemma Since_result: "snd (BusEventsSince d c n) = Inr evs \<Longrightarrow> \<exists>k > 0. evs = take k (above c (bus_events d))"
  using sql_log.since_result [of d c n "fst (BusEventsSince d c n)"] by (cases "BusEventsSince d c n") auto

lemma sane_scan:
  assumes "sane (Scanning evs sk)" "d_phase d = Scanning evs sk"
  shows "sane (d_phase (snd (scan_step now evs sk b d)))"
proof (cases evs)
  case (Cons ev evs')
  obtain b1 d1 res where k: "killed now b d = (b1, d1, res)" by (cases "killed now b d") auto
  show ?thesis using Cons k assms
    by (cases "ctx_done b d"; cases res) (auto simp: look_at_def)
qed (use assms in auto)

lemma sane_step:
  assumes "sane (d_phase d)" "\<forall>e \<in> set (bus_events (b_store b)). 0 \<le> ev_Seq e" "0 \<le> last_seq (b_store b)"
  shows "sane (d_phase (snd (deliver_step now ch failed b d)))"
proof (cases "d_phase d")
  case (Bounding rec)
  then show ?thesis using assms BusBounds_head [of "b_store b"]
    by (auto simp: deliver_step_def bounds_step_def with_db_def Let_def gap_of_def split: sum.splits option.splits)
next
  case Fetching
  show ?thesis
  proof (cases "snd (BusEventsSince (b_store b) (d_cursor d) (b_batchSize b))")
    case (Inr evs)
    then obtain k where "evs = take k (above (d_cursor d) (bus_events (b_store b)))" using Since_result by blast
    then have "\<forall>e \<in> set evs. 0 \<le> ev_Seq e" using assms(2) by (auto dest: in_set_takeD simp: above_def)
    then show ?thesis using Inr Fetching by (simp add: deliver_step_def fetch_step_def with_db_def)
  qed (simp add: Fetching deliver_step_def fetch_step_def with_db_def)
next
  case (Scanning evs sk)
  then show ?thesis using sane_scan assms(1) by (simp add: deliver_step_def)
qed (use assms(1) in \<open>auto simp: deliver_step_def wait_step_def prepare_step_def reread_step_def hook_step_def
    loop_step_def handle_step_def move_step_def reconcileGap_def with_db_def Let_def
    split: choice.splits sum.splits option.splits\<close>)

subsection \<open>What the operations leave\<close>

text \<open>A consumer another operation passes over: it stays where it is, or comes to rest.\<close>

definition rests :: "durable \<Rightarrow> durable \<Rightarrow> bool" where
  "rests d d' \<longleftrightarrow> d_name d' = d_name d \<and> d_hooked d' = d_hooked d \<and> d_filter d' = d_filter d \<and> d_retired d' = d_retired d \<and>
     (d_phase d' = d_phase d \<and> d_cursor d' = d_cursor d \<or> d_phase d' = Selecting \<or> d_phase d' = Unlaunched)"

lemma rests_refl [simp]: "rests d d"
  by (simp add: rests_def)

lemma rests_all [simp]: "list_all2 rests ds ds"
  by (simp add: list_all2_same)

definition woken :: "durable \<Rightarrow> durable \<Rightarrow> bool" where
  "woken d d' \<longleftrightarrow> d' = d \<or> d' = d\<lparr>d_wake := True\<rparr>"

lemma woken_all [simp]: "list_all2 woken ds ds"
  by (simp add: list_all2_same woken_def)

lemma wake_woken: "list_all2 woken (b_durables b) (b_durables (wakeDurables nm b))"
  by (auto simp: wakeDurables_def woken_def list_all2_map2 intro: list.rel_refl)

lemma woken_rests: "list_all2 woken ds ds' \<Longrightarrow> list_all2 rests ds ds' \<and> map d_phase ds' = map d_phase ds"
  by (induction rule: list_all2_induct) (auto simp: rests_def woken_def)

lemma rests_names: "list_all2 rests ds ds' \<Longrightarrow> map d_name ds' = map d_name ds"
  by (induction rule: list_all2_induct) (auto simp: rests_def)

lemma rests_in: "list_all2 rests ds ds' \<Longrightarrow> d' \<in> set ds' \<Longrightarrow> \<exists>d \<in> set ds. rests d d'"
  by (induction rule: list_all2_induct) auto

definition same_settings :: "Bus \<Rightarrow> Bus \<Rightarrow> bool" where
  "same_settings b b' \<longleftrightarrow> b_stored b' = b_stored b \<and> b_leaving b' = b_leaving b \<and> b_handled b' = b_handled b"

lemma only_told_settings:
  assumes "only_told b b'"
  shows "same_settings b b'" "b_durables b' = b_durables b" "b_started b' = b_started b" "b_batchSize b' = b_batchSize b"
proof -
  define s a m t where "s = b_store b'" and "a = b_announced b'" and "m = b_marked b'" and "t = b_told b'"
  have "b' = b\<lparr>b_store := s, b_announced := a, b_marked := m, b_told := t\<rparr>"
    using assms by (simp add: only_told_def s_def a_def m_def t_def)
  then show "same_settings b b'" "b_durables b' = b_durables b" "b_started b' = b_started b" "b_batchSize b' = b_batchSize b"
    by (simp_all add: same_settings_def)
qed

lemma publish_effect:
  "log_step (b_store b) (b_store (fst (publish now ev payload b)))" "rows_step P (b_store b) (b_store (fst (publish now ev payload b)))"
  "same_settings b (fst (publish now ev payload b))" "list_all2 woken (b_durables b) (b_durables (fst (publish now ev payload b)))"
  "b_started (fst (publish now ev payload b)) = b_started b"
proof -
  define ev' where "ev' = (case payload of Some (Some raw) \<Rightarrow> ev\<lparr>ev_Payload := raw\<rparr> | _ \<Rightarrow> ev)\<lparr>ev_CreatedAt := now\<rparr>"
  obtain b1 res where a: "with_db b (\<lambda>s. AppendBusEvent s ev' now) = (b1, res)" by (cases "with_db b (\<lambda>s. AppendBusEvent s ev' now)")
  have st: "log_step (b_store b) (b_store b1)" "rows_step P (b_store b) (b_store b1)" "same_settings b b1"
      "b_durables b1 = b_durables b" "b_started b1 = b_started b"
    using a append_statements(1) [of "b_store b" ev' now] rows_step_consumers by (auto simp: with_db_def same_settings_def)
  define b2 where "b2 = announceLocked (Some (ev'\<lparr>ev_Seq := case_sum (\<lambda>_. 0) id res\<rparr>)) b1"
  have o: "only_told b1 b2" by (simp add: b2_def only_told_announce)
  have w: "b_store (wakeDurables n b2) = b_store b2" "same_settings b2 (wakeDurables n b2)" "b_started (wakeDurables n b2) = b_started b2" for n
    by (simp_all add: wakeDurables_def same_settings_def)
  have t: "same_tables (b_store b1) (b_store b2)" using o by (simp add: only_told_def)
  have eq: "fst (publish now ev payload b) = (if TrimSpace (ev_Name ev) = [] \<or> payload = Some None then b
      else if \<not> b_stored b then fanoutEphemeral ev' b
      else if isl res then fanoutEphemeral ev' b1 else wakeDurables (ev_Name ev') b2)"
    using a by (cases res) (simp_all add: publish_def Let_def ev'_def [symmetric] b2_def)
  have f: "b_store (fanoutEphemeral ev' x) = b_store x" "same_settings x (fanoutEphemeral ev' x)"
      "b_durables (fanoutEphemeral ev' x) = b_durables x" "b_started (fanoutEphemeral ev' x) = b_started x" for x
    by (simp_all add: fanoutEphemeral_def same_settings_def)
  show "log_step (b_store b) (b_store (fst (publish now ev payload b)))"
    using st t w f log_step_same unfolding eq by auto
  show "rows_step P (b_store b) (b_store (fst (publish now ev payload b)))"
    using st w f rows_step_trans [OF st(2) same_rows_step [OF t]] unfolding eq by auto
  show "same_settings b (fst (publish now ev payload b))" "b_started (fst (publish now ev payload b)) = b_started b"
    using st w f only_told_settings [OF o] unfolding eq by (auto simp: same_settings_def)
  show "list_all2 woken (b_durables b) (b_durables (fst (publish now ev payload b)))"
    using st f only_told_settings(2) [OF o] wake_woken [of b2 "ev_Name ev'"] unfolding eq by auto
qed

lemma Announce_effect:
  "same_tables (b_store b) (b_store (Announce b))" "same_settings b (Announce b)"
  "list_all2 woken (b_durables b) (b_durables (Announce b))" "b_started (Announce b) = b_started b"
proof -
  define b2 where "b2 = announceLocked None b"
  have o: "only_told b b2" by (simp add: b2_def only_told_announce)
  show "same_tables (b_store b) (b_store (Announce b))" "same_settings b (Announce b)" "b_started (Announce b) = b_started b"
    using o only_told_settings [OF o] by (auto simp: Announce_def b2_def [symmetric] only_told_def wakeDurables_def same_settings_def)
  show "list_all2 woken (b_durables b) (b_durables (Announce b))"
    using only_told_settings(2) [OF o] wake_woken [of b2 "[]"] by (auto simp: Announce_def b2_def [symmetric])
qed

lemma proper_cursor:
  assumes "proper_rows d" "consumer_row d nm = Some r"
  shows "0 \<le> con_Cursor r"
proof -
  have "r \<in> set (bus_consumers d)" using assms(2) find_Some_iff_first by (fastforce simp: consumer_row_def)
  then show ?thesis using assms(1) by (simp add: proper_rows_def)
qed

lemma initConsumer_effect:
  assumes "initConsumer now d head b = (b', res)" "0 \<le> head" "proper_rows (b_store b)"
    "\<And>n. P n \<Longrightarrow> consumer_row (b_store b) n \<noteq> None"
  shows "same_log (b_store b) (b_store b')" "rows_step P (b_store b) (b_store b')" "b' = b\<lparr>b_store := b_store b'\<rparr>"
    "res = Inr d' \<Longrightarrow> \<exists>c en. d' = setPosition c en d"
proof -
  obtain d1 found where g: "GetBusConsumer (b_store b) (d_name d) = (d1, found)" by (cases "GetBusConsumer (b_store b) (d_name d)")
  have t: "same_tables (b_store b) d1" using reads_same(1) [of "b_store b" "d_name d"] g by simp
  have sl: "same_log (b_store b) d1" and rs: "rows_step P (b_store b) d1"
    using same_tables_same_log same_rows_step t by blast+
  have row: "consumer_row d1 = consumer_row (b_store b)" using same_tables_row [OF t] .
  have cur: "found = Inr (Some r) \<Longrightarrow> 0 \<le> con_Cursor r" for r
    using GetBusConsumer_result [of "b_store b" "d_name d" d1 "Some r"] g proper_cursor [OF assms(3)] by fastforce
  define cu where "cu = (case found of Inr (Some r) \<Rightarrow> con_Cursor r | _ \<Rightarrow> head)"
  define en where "en = (case found of Inr (Some r) \<Rightarrow> con_Enabled r | _ \<Rightarrow> True)"
  have "0 \<le> cu" using cur assms(2) by (auto simp: cu_def split: sum.splits option.splits)
  then have sv: "same_log d1 (fst (SaveBusConsumer d1 (consumer_for d cu en) now))"
    "rows_step P d1 (fst (SaveBusConsumer d1 (consumer_for d cu en) now))"
    using SaveBusConsumer_step [of "consumer_for d cu en" P d1] assms(4) row by (auto simp: consumer_for_def)
  have eq: "(b', res) = (if isl found then (b\<lparr>b_store := d1\<rparr>, Inl StoreError)
      else let r = SaveBusConsumer d1 (consumer_for d cu en) now in
        (b\<lparr>b_store := fst r\<rparr>, if isl (snd r) then Inl StoreError else Inr (setPosition cu en d)))"
    using assms(1) g by (auto simp: initConsumer_def with_db_def cu_def en_def Let_def split: sum.splits option.splits)
  show "same_log (b_store b) (b_store b')" using eq sl same_log_trans [OF sl sv(1)] by (auto simp: Let_def split: if_splits)
  show "rows_step P (b_store b) (b_store b')" using eq rs rows_step_trans [OF rs sv(2)] by (auto simp: Let_def split: if_splits)
  show "b' = b\<lparr>b_store := b_store b'\<rparr>" using eq by (auto simp: Let_def split: if_splits)
  show "res = Inr d' \<Longrightarrow> \<exists>c en. d' = setPosition c en d" using eq by (auto simp: Let_def split: if_splits)
qed

lemma start_durables_effect:
  assumes "start_durables now head b ds = (b', ds', res)" "0 \<le> head" "proper_rows (b_store b)"
    "\<And>n. P n \<Longrightarrow> consumer_row (b_store b) n \<noteq> None" "\<forall>d \<in> set ds. d_phase d = Unlaunched"
  shows "same_log (b_store b) (b_store b') \<and> rows_step P (b_store b) (b_store b') \<and> b' = b\<lparr>b_store := b_store b'\<rparr> \<and>
    list_all2 rests ds ds'"
  using assms
proof (induction ds arbitrary: b b' ds' res)
  case (Cons d ds)
  obtain b1 r where i: "initConsumer now d head b = (b1, r)" by (cases "initConsumer now d head b")
  note e = initConsumer_effect [where P = P, OF i Cons.prems(2,3,4)]
  show ?case
  proof (cases r)
    case (Inl err)
    have "b1 = b\<lparr>b_store := b_store b1\<rparr>" using e(3) by simp
    then show ?thesis using e(1,2) Inl Cons.prems(1) i by simp
  next
    case (Inr d1)
    obtain b2 ds2 res2 where s: "start_durables now head b1 ds = (b2, ds2, res2)"
      by (cases "start_durables now head b1 ds") auto
    have p1: "proper_rows (b_store b1)" using e(2) Cons.prems(3) by (simp add: rows_step_def)
    have r1: "P n \<Longrightarrow> consumer_row (b_store b1) n \<noteq> None" for n
      using rows_step_row [OF e(2)] Cons.prems(4) [of n] by simp
    have b1: "b1 = b\<lparr>b_store := b_store b1\<rparr>" using e(3) by simp
    obtain c en where d1: "d1 = setPosition c en d" using e(4) Inr by blast
    have ih: "same_log (b_store b1) (b_store b2) \<and> rows_step P (b_store b1) (b_store b2) \<and> b2 = b1\<lparr>b_store := b_store b2\<rparr> \<and>
        list_all2 rests ds ds2"
      using Cons.IH [OF s Cons.prems(2) p1 r1] Cons.prems(5) by auto
    have out: "b' = b2" "ds' = launchLocked b1 d1 # ds2" using Inr Cons.prems(1) i s by simp_all
    obtain s1 s2 where "b1 = b\<lparr>b_store := s1\<rparr>" "b2 = b1\<lparr>b_store := s2\<rparr>" using b1 ih by blast
    then have "b2 = b\<lparr>b_store := b_store b2\<rparr>" by simp
    moreover have "rests d (launchLocked b1 d1)" using Cons.prems(5) by (simp add: rests_def launchLocked_def d1 setPosition_def)
    ultimately show ?thesis unfolding out
      using ih same_log_trans [OF e(1)] rows_step_trans [OF e(2)] list_all2_Cons by blast
  qed
qed simp

lemma Start_effect:
  assumes "proper_rows (b_store b)" "0 \<le> last_seq (b_store b)" "\<not> b_started b \<longrightarrow> (\<forall>d \<in> set (b_durables b). d_phase d = Unlaunched)"
    "\<And>n. P n \<Longrightarrow> consumer_row (b_store b) n \<noteq> None"
  shows "same_log (b_store b) (b_store (fst (bus_Start now b))) \<and> rows_step P (b_store b) (b_store (fst (bus_Start now b))) \<and>
    same_settings b (fst (bus_Start now b)) \<and> list_all2 rests (b_durables b) (b_durables (fst (bus_Start now b))) \<and>
    b_started (fst (bus_Start now b))"
proof (cases "b_started b \<or> \<not> b_stored b")
  case False
  obtain d1 res where g: "BusBounds (b_store b) = (d1, res)" by (cases "BusBounds (b_store b)")
  have t: "same_tables (b_store b) d1" using reads_same(3) [of "b_store b"] g by simp
  define b0 where "b0 = b\<lparr>b_started := True, b_store := d1\<rparr>"
  show ?thesis
  proof (cases res)
    case (Inl e)
    then show ?thesis using False g t same_tables_same_log same_rows_step
      by (simp add: bus_Start_def with_db_def Let_def same_settings_def)
  next
    case (Inr bounds)
    obtain earliest head where bd: "bounds = (earliest, head)" by (cases bounds)
    have h: "head = last_seq (b_store b)" using BusBounds_result(1) g Inr bd by blast
    obtain b2 ds2 res2 where s: "start_durables now head b0 (b_durables b0) = (b2, ds2, res2)"
      by (cases "start_durables now head b0 (b_durables b0)") auto
    have p0: "proper_rows (b_store b0)" using same_rows_step [OF t, of P] assms(1) by (simp add: rows_step_def b0_def)
    have r0: "P n \<Longrightarrow> consumer_row (b_store b0) n \<noteq> None" for n using assms(4) same_tables_row [OF t] by (simp add: b0_def)
    have ih: "same_log (b_store b0) (b_store b2) \<and> rows_step P (b_store b0) (b_store b2) \<and> b2 = b0\<lparr>b_store := b_store b2\<rparr> \<and>
        list_all2 rests (b_durables b0) ds2"
      using start_durables_effect [OF s _ p0 r0] h assms(2,3) False by (simp add: b0_def)
    have "fst (bus_Start now b) = b2\<lparr>b_durables := ds2\<rparr>"
      using False g Inr bd s by (simp add: bus_Start_def with_db_def Let_def b0_def)
    moreover obtain st where b2: "b2 = b0\<lparr>b_store := st\<rparr>" using ih by blast
    moreover have "same_log (b_store b) (b_store b2)"
      using ih same_log_trans [OF same_tables_same_log [OF t]] by (simp add: b0_def)
    moreover have "rows_step P (b_store b) (b_store b2)"
      using ih rows_step_trans [OF same_rows_step [OF t]] by (simp add: b0_def)
    moreover have "list_all2 rests (b_durables b) ds2" using ih by (simp add: b0_def)
    ultimately show ?thesis by (simp add: b0_def same_settings_def)
  qed
qed (auto simp: bus_Start_def same_settings_def)

text \<open>Registering adds a consumer of a new name, at rest, or changes nothing but the tables.\<close>

lemma register_effect:
  assumes "proper_rows (b_store b)" "0 \<le> last_seq (b_store b)" "\<And>n. P n \<Longrightarrow> consumer_row (b_store b) n \<noteq> None"
  shows "same_log (b_store b) (b_store (fst (bus_register now nm f hooked h b)))"
    "rows_step P (b_store b) (b_store (fst (bus_register now nm f hooked h b)))"
    "same_settings b (fst (bus_register now nm f hooked h b))"
    "b_started (fst (bus_register now nm f hooked h b)) = b_started b"
    "b_durables (fst (bus_register now nm f hooked h b)) = b_durables b \<or>
     (\<exists>d. b_durables (fst (bus_register now nm f hooked h b)) = b_durables b @ [d] \<and> \<not> Registered nm b \<and> d_name d = nm \<and>
       d_filter d = f \<and> \<not> d_retired d \<and> (d_phase d = Unlaunched \<or> b_started b \<and> d_phase d = Selecting))"
proof -
  define r where "r = fst (bus_register now nm f hooked h b)"
  define d where "d = newDurable nm f hooked"
  have "same_log (b_store b) (b_store r) \<and> rows_step P (b_store b) (b_store r) \<and> same_settings b r \<and> b_started r = b_started b \<and>
    (b_durables r = b_durables b \<or> (\<exists>d. b_durables r = b_durables b @ [d] \<and> \<not> Registered nm b \<and> d_name d = nm \<and> d_filter d = f \<and>
       \<not> d_retired d \<and> (d_phase d = Unlaunched \<or> b_started b \<and> d_phase d = Selecting)))"
  proof (cases "TrimSpace nm = [] \<or> \<not> h \<or> Registered nm b \<or> nm \<in> set (b_retiring b) \<or> \<not> b_started b \<or> \<not> b_stored b")
    case True
    then have "r = b \<or> r = b\<lparr>b_durables := b_durables b @ [d]\<rparr> \<and> \<not> Registered nm b"
      by (auto simp: r_def bus_register_def Let_def d_def)
    moreover have "d_name d = nm \<and> d_filter d = f \<and> \<not> d_retired d \<and> d_phase d = Unlaunched" by (simp add: d_def newDurable_def)
    ultimately show ?thesis by (auto simp: same_settings_def)
  next
    case False
    obtain d1 res where g: "BusBounds (b_store b) = (d1, res)" by (cases "BusBounds (b_store b)")
    have t: "same_tables (b_store b) d1" using reads_same(3) [of "b_store b"] g by simp
    define b1 where "b1 = b\<lparr>b_store := d1\<rparr>"
    show ?thesis
    proof (cases res)
      case (Inl e)
      then have "r = b1" using False g by (simp add: r_def bus_register_def with_db_def b1_def Let_def)
      then show ?thesis using same_tables_same_log [OF t] same_rows_step [OF t] by (simp add: b1_def same_settings_def)
    next
      case (Inr bounds)
      obtain earliest head where bd: "bounds = (earliest, head)" by (cases bounds)
      have h: "0 \<le> head" using BusBounds_result(1) g Inr bd assms(2) by simp
      obtain b2 ir where i: "initConsumer now d head b1 = (b2, ir)" by (cases "initConsumer now d head b1")
      have p1: "proper_rows (b_store b1)" using same_rows_step [OF t, of P] assms(1) by (simp add: rows_step_def b1_def)
      have r1: "P n \<Longrightarrow> consumer_row (b_store b1) n \<noteq> None" for n using assms(3) same_tables_row [OF t] by (simp add: b1_def)
      note e = initConsumer_effect [where P = P, OF i h p1 r1]
      obtain st where b2: "b2 = b1\<lparr>b_store := st\<rparr>" using e(3) by blast
      have st: "same_log (b_store b) st" "rows_step P (b_store b) st"
        using e(1,2) b2 same_log_trans [OF same_tables_same_log [OF t]] rows_step_trans [OF same_rows_step [OF t]] by (simp_all add: b1_def)
      have "r = fst (case initConsumer now d head b1 of (b2, Inl e) \<Rightarrow> (b2, Inl e)
          | (b2, Inr d1) \<Rightarrow> (b2\<lparr>b_durables := b_durables b2 @ [launchLocked b2 d1]\<rparr>, Inr ()))"
        using False g Inr bd by (simp add: r_def bus_register_def with_db_def b1_def d_def Let_def)
      moreover have "b_durables b2 = b_durables b" using b2 by (simp add: b1_def)
      ultimately have "r = b2 \<or> (\<exists>d'. ir = Inr d' \<and> r = b2\<lparr>b_durables := b_durables b @ [launchLocked b2 d']\<rparr>)"
        using i by (cases ir) simp_all
      then consider "r = b2" | d' where "ir = Inr d'" "r = b2\<lparr>b_durables := b_durables b @ [launchLocked b2 d']\<rparr>" by blast
      then show ?thesis
      proof cases
        case 1
        then show ?thesis using st b2 by (simp add: b1_def same_settings_def)
      next
        case 2
        obtain c en where "d' = setPosition c en d" using e(4) 2(1) by blast
        then show ?thesis using st b2 2(2) False
          by (simp add: b1_def same_settings_def launchLocked_def setPosition_def d_def newDurable_def)
      qed
    qed
  qed
  then show "same_log (b_store b) (b_store (fst (bus_register now nm f hooked h b)))"
    "rows_step P (b_store b) (b_store (fst (bus_register now nm f hooked h b)))"
    "same_settings b (fst (bus_register now nm f hooked h b))"
    "b_started (fst (bus_register now nm f hooked h b)) = b_started b"
    "b_durables (fst (bus_register now nm f hooked h b)) = b_durables b \<or>
     (\<exists>d. b_durables (fst (bus_register now nm f hooked h b)) = b_durables b @ [d] \<and> \<not> Registered nm b \<and> d_name d = nm \<and>
       d_filter d = f \<and> \<not> d_retired d \<and> (d_phase d = Unlaunched \<or> b_started b \<and> d_phase d = Selecting))"
    by (simp_all add: r_def)
qed

lemma SetFilter_effect:
  assumes "proper_rows (b_store b)"
  shows "same_log (b_store b) (b_store (fst (bus_SetFilter now nm f b)))"
    "rows_step P (b_store b) (b_store (fst (bus_SetFilter now nm f b)))"
    "same_settings b (fst (bus_SetFilter now nm f b))" "b_started (fst (bus_SetFilter now nm f b)) = b_started b"
    "b_durables (fst (bus_SetFilter now nm f b)) = b_durables b \<or> b_durables (fst (bus_SetFilter now nm f b)) =
       map (\<lambda>d. if d_name d = nm then d\<lparr>d_filter := f\<rparr> else d) (b_durables b)"
proof -
  define r where "r = fst (bus_SetFilter now nm f b)"
  obtain d1 found where g: "GetBusConsumer (b_store b) nm = (d1, found)" by (cases "GetBusConsumer (b_store b) nm")
  have t: "same_tables (b_store b) d1" using reads_same(1) [of "b_store b" nm] g by simp
  have "same_log (b_store b) (b_store r) \<and> rows_step P (b_store b) (b_store r) \<and> same_settings b r \<and> b_started r = b_started b \<and>
    (b_durables r = b_durables b \<or> b_durables r = map (\<lambda>d. if d_name d = nm then d\<lparr>d_filter := f\<rparr> else d) (b_durables b))"
  proof (cases "Registered nm b \<and> b_stored b \<and> b_started b \<and> (\<exists>c. found = Inr (Some c))")
    case True
    then obtain c where c: "found = Inr (Some c)" by blast
    define s where "s = SaveBusConsumer d1 (c\<lparr>con_Filter := Filter_String f\<rparr>) now"
    have row: "consumer_row (b_store b) nm = Some c" using GetBusConsumer_result g c by metis
    moreover have "con_Name c = nm" using row find_Some_iff_first by (fastforce simp: consumer_row_def)
    ultimately have "same_log d1 (fst s) \<and> rows_step P d1 (fst s)"
      using SaveBusConsumer_step [of "c\<lparr>con_Filter := Filter_String f\<rparr>" P d1 now] proper_cursor [OF assms] same_tables_row [OF t] by (simp add: s_def)
    then have "same_log (b_store b) (fst s)" "rows_step P (b_store b) (fst s)"
      using same_log_trans [OF same_tables_same_log [OF t]] rows_step_trans [OF same_rows_step [OF t]] by blast+
    then show ?thesis using True g c
      by (cases "snd s") (simp_all add: r_def bus_SetFilter_def with_db_def Let_def s_def same_settings_def)
  next
    case False
    then show ?thesis using g same_tables_same_log [OF t] same_rows_step [OF t]
      by (cases "Registered nm b"; cases "b_stored b \<and> b_started b"; cases found)
        (auto simp: r_def bus_SetFilter_def with_db_def Let_def same_settings_def split: option.splits)
  qed
  then show "same_log (b_store b) (b_store (fst (bus_SetFilter now nm f b)))"
    "rows_step P (b_store b) (b_store (fst (bus_SetFilter now nm f b)))"
    "same_settings b (fst (bus_SetFilter now nm f b))" "b_started (fst (bus_SetFilter now nm f b)) = b_started b"
    "b_durables (fst (bus_SetFilter now nm f b)) = b_durables b \<or> b_durables (fst (bus_SetFilter now nm f b)) =
       map (\<lambda>d. if d_name d = nm then d\<lparr>d_filter := f\<rparr> else d) (b_durables b)"
    by (simp_all add: r_def)
qed

lemma Unregister_end_effect:
  assumes "\<And>n. P n \<Longrightarrow> k < length (b_leaving b) \<Longrightarrow> n \<noteq> fst (b_leaving b ! k)"
  shows "same_log (b_store b) (b_store (fst (Unregister_end k b)))" "rows_step P (b_store b) (b_store (fst (Unregister_end k b)))"
    "b_durables (fst (Unregister_end k b)) = b_durables b" "set (b_leaving (fst (Unregister_end k b))) \<subseteq> set (b_leaving b)"
    "b_started (fst (Unregister_end k b)) = b_started b" "b_stored (fst (Unregister_end k b)) = b_stored b"
    "b_handled (fst (Unregister_end k b)) = b_handled b"
  using DeleteBusConsumer_step [of P "fst (b_leaving b ! k)" "b_store b"] assms
  by (auto simp: Unregister_end_def with_db_def Let_def drop_nth_def split: sum.splits dest: in_set_takeD in_set_dropD)

lemma restart_effect:
  "same_tables (b_store b) (b_store (restart opts b))" "b_stored (restart opts b)" "b_durables (restart opts b) = []"
  "b_leaving (restart opts b) = []" "b_handled (restart opts b) = b_handled b"
proof -
  define b0 where "b0 = \<lparr>b_stored = True, b_store = b_store b,
        b_retention = bus_nonZeroDuration (bo_Retention opts) DefaultBusRetention,
        b_batchSize = bus_nonZeroInt (bo_BatchSize opts) DefaultBatchSize,
        b_pollInterval = bus_nonZeroDuration (bo_PollInterval opts) DefaultPollInterval,
        b_retryBase = bus_nonZeroDuration (bo_RetryBase opts) DefaultRetryBase,
        b_retryCap = bus_nonZeroDuration (bo_RetryCap opts) DefaultRetryCap,
        b_compactable = bo_Compactable opts, b_marked = False, b_announced = 0, b_durables = [],
        b_ephemeral = [], b_nextSubID = 0, b_started = False, b_stopped = False, b_retiring = [],
        b_cancelled = False, b_leaving = [], b_told = [], b_handled = []\<rparr>"
  have n: "bus_New (opts\<lparr>bo_Store := Some (b_store b)\<rparr>) = fst (markHead b0)" by (simp add: bus_New_def b0_def Let_def)
  have "only_told b0 (fst (markHead b0))" by (rule only_told_mark)
  then show "same_tables (b_store b) (b_store (restart opts b))" "b_stored (restart opts b)" "b_durables (restart opts b) = []"
    "b_leaving (restart opts b) = []" "b_handled (restart opts b) = b_handled b"
    using only_told_settings [of b0 "fst (markHead b0)"] unfolding restart_def n
    by (simp_all add: only_told_def same_settings_def b0_def)
qed

end
