(* ===== verification/Bus_Laws.thy ===== *)
theory Bus_Laws
  imports Bus_Invariant
begin

text \<open>
  The invariant of all reachable worlds, by cases over everything that can happen.
\<close>

definition log_ok :: "Event list \<Rightarrow> bus_db \<Rightarrow> bool" where
  "log_ok hist d \<longleftrightarrow> 0 \<le> last_seq d \<and> map ev_Seq hist = [1..last_seq d] \<and> set (bus_events d) \<subseteq> set hist \<and> ascending (bus_events d)"

definition loops_ok :: "Bus \<Rightarrow> bool" where
  "loops_ok b \<longleftrightarrow> distinct (map d_name (b_durables b)) \<and> (\<forall>d \<in> set (b_durables b). sane (d_phase d)) \<and>
     (\<not> b_started b \<longrightarrow> (\<forall>d \<in> set (b_durables b). d_phase d = Unlaunched)) \<and>
     (\<forall>x \<in> set (b_leaving b). \<forall>d. snd x = Some d \<longrightarrow> d_name d = fst x \<and> sane (d_phase d))"

definition pass_ok :: "compaction \<Rightarrow> bool" where
  "pass_ok p \<longleftrightarrow> (\<forall>cs. p = Listed cs \<longrightarrow> (\<forall>c \<in> set cs. 0 \<le> con_Cursor c))"

definition world_ok :: "world \<Rightarrow> bool" where
  "world_ok w \<longleftrightarrow> b_stored (w_bus w) \<and> log_ok (w_history w) (w_db w) \<and> proper_rows (w_db w) \<and> loops_ok (w_bus w) \<and>
     (\<forall>p \<in> set (w_passes w). pass_ok p)"

subsection \<open>The log\<close>

lemma log_ok_seqs:
  assumes "log_ok hist d"
  shows "e \<in> set hist \<Longrightarrow> 1 \<le> ev_Seq e \<and> ev_Seq e \<le> last_seq d" "inj_on ev_Seq (set hist)"
    "1 \<le> s \<Longrightarrow> s \<le> last_seq d \<Longrightarrow> \<exists>e \<in> set hist. ev_Seq e = s"
    "e \<in> set (bus_events d) \<Longrightarrow> 1 \<le> ev_Seq e \<and> ev_Seq e \<le> last_seq d"
proof -
  have m: "map ev_Seq hist = [1..last_seq d]" using assms by (simp add: log_ok_def)
  have "set (map ev_Seq hist) = {1..last_seq d}" unfolding m by simp
  then have im: "ev_Seq ` set hist = {1..last_seq d}" by simp
  show r: "e \<in> set hist \<Longrightarrow> 1 \<le> ev_Seq e \<and> ev_Seq e \<le> last_seq d" for e using im by (metis atLeastAtMost_iff imageI)
  have "distinct (map ev_Seq hist)" unfolding m by simp
  then show "inj_on ev_Seq (set hist)" by (simp add: distinct_map)
  show "1 \<le> s \<Longrightarrow> s \<le> last_seq d \<Longrightarrow> \<exists>e \<in> set hist. ev_Seq e = s"
  proof -
    assume "1 \<le> s" "s \<le> last_seq d"
    then have "s \<in> ev_Seq ` set hist" unfolding im by simp
    then show ?thesis by blast
  qed
  show "e \<in> set (bus_events d) \<Longrightarrow> 1 \<le> ev_Seq e \<and> ev_Seq e \<le> last_seq d" using r assms by (auto simp: log_ok_def)
qed

lemma new_none:
  assumes "log_ok hist d" "set evs \<subseteq> set (bus_events d)"
  shows "filter (\<lambda>e. last_seq d < ev_Seq e) evs = []"
  using assms log_ok_seqs(4) [OF assms(1)] by (force simp: filter_empty_conv)

lemma log_ok_filter:
  assumes "log_ok hist d" "bus_events d' = filter P (bus_events d)" "last_seq d' = last_seq d"
  shows "log_ok (hist @ filter (\<lambda>e. last_seq d < ev_Seq e) (bus_events d')) d'"
proof -
  have "filter (\<lambda>e. last_seq d < ev_Seq e) (bus_events d') = []" 
    using new_none [OF assms(1), of "bus_events d'"] assms(2) filter_is_subset by simp
  then show ?thesis using assms by (auto simp: log_ok_def ascending_def sorted_wrt_filter)
qed

lemma log_ok_step:
  assumes "log_ok hist d" "log_step d d'"
  shows "log_ok (hist @ filter (\<lambda>e. last_seq d < ev_Seq e) (bus_events d')) d'"
proof (cases "bus_events d' = bus_events d \<and> last_seq d' = last_seq d")
  case True
  then show ?thesis using log_ok_filter [of hist d d' "\<lambda>_. True"] assms(1) by simp
next
  case False
  then obtain e where e: "bus_events d' = bus_events d @ [e]" "ev_Seq e = last_seq d + 1" "last_seq d' = last_seq d + 1"
    using assms(2) by (auto simp: log_step_def)
  then have new: "filter (\<lambda>e. last_seq d < ev_Seq e) (bus_events d') = [e]" using new_none [OF assms(1)] by auto
  have "[1..last_seq d + 1] = [1..last_seq d] @ [last_seq d + 1]" using assms(1) by (simp add: log_ok_def upto_rec2)
  moreover have "ascending (bus_events d @ [e])" using assms(1) e log_ok_seqs(4) [OF assms(1)]
    by (fastforce simp: ascending_def log_ok_def sorted_wrt_append)
  ultimately show ?thesis using assms(1) e unfolding new by (auto simp: log_ok_def)
qed

subsection \<open>What an action does to the tables\<close>

fun touches :: "Bus \<Rightarrow> action \<Rightarrow> string \<Rightarrow> bool" where
  "touches b (AUnregistered k) n = (k < length (b_leaving b) \<and> n = fst (b_leaving b ! k))"
| "touches b (ADeliver i _ _ _) n = (i < length (b_durables b) \<and> n = d_name (b_durables b ! i))"
| "touches b (ADeliverLeaving k _ _ _) n = (k < length (b_leaving b) \<and> n = fst (b_leaving b ! k))"
| "touches b (AEnable _ nm _) n = (n = nm)"
| "touches b (AAdvance _ nm _) n = (n = nm)"
| "touches b _ n = False"

lemma step_tables:
  assumes "deliver_step now ch failed b d = (b', d')" "sane (d_phase d)" "\<And>n. P n \<Longrightarrow> n \<noteq> d_name d"
  shows "same_log (b_store b) (b_store b')" "rows_step P (b_store b) (b_store b')"
  using deliver_effect(3) [OF assms(1)] assms(2) row_statements(1,2) [of P "d_name d", OF assms(3)] same_tables_same_log same_rows_step
  by fastforce+

lemma Trim_tables:
  "bus_consumers (fst (TrimBusEvents d t)) = bus_consumers d" "last_seq (fst (TrimBusEvents d t)) = last_seq d"
  "\<exists>P. bus_events (fst (TrimBusEvents d t)) = filter P (bus_events d)"
proof -
  show "bus_consumers (fst (TrimBusEvents d t)) = bus_consumers d" "last_seq (fst (TrimBusEvents d t)) = last_seq d"
    by (simp_all add: TrimBusEvents_def exec_eq Let_def)
  have "bus_events d = filter (\<lambda>_. True) (bus_events d)" by simp
  then show "\<exists>P. bus_events (fst (TrimBusEvents d t)) = filter P (bus_events d)"
    by (auto simp: TrimBusEvents_def exec_eq Let_def simp del: filter_True)
qed

lemma Deliver_tables:
  assumes "loops_ok b" "\<And>n. P n \<Longrightarrow> i < length (b_durables b) \<Longrightarrow> n \<noteq> d_name (b_durables b ! i)"
  shows "same_log (b_store b) (b_store (Deliver i now ch failed b))" "rows_step P (b_store b) (b_store (Deliver i now ch failed b))"
proof -
  obtain b1 d1 where s: "deliver_step now ch failed b (b_durables b ! i) = (b1, d1)"
    by (cases "deliver_step now ch failed b (b_durables b ! i)")
  have "i < length (b_durables b) \<Longrightarrow> same_log (b_store b) (b_store b1) \<and> rows_step P (b_store b) (b_store b1)"
    using step_tables [OF s] assms by (auto simp: loops_ok_def)
  then show "same_log (b_store b) (b_store (Deliver i now ch failed b))" "rows_step P (b_store b) (b_store (Deliver i now ch failed b))"
    using s by (simp_all add: Deliver_def)
qed

lemma Deliver_leaving_tables:
  assumes "loops_ok b" "\<And>n. P n \<Longrightarrow> k < length (b_leaving b) \<Longrightarrow> n \<noteq> fst (b_leaving b ! k)"
  shows "same_log (b_store b) (b_store (Deliver_leaving k now ch failed b))"
    "rows_step P (b_store b) (b_store (Deliver_leaving k now ch failed b))"
proof -
  have "same_log (b_store b) (b_store (Deliver_leaving k now ch failed b)) \<and>
      rows_step P (b_store b) (b_store (Deliver_leaving k now ch failed b))"
  proof (cases "k < length (b_leaving b) \<and> snd (b_leaving b ! k) \<noteq> None")
    case True
    then obtain nm d where x: "b_leaving b ! k = (nm, Some d)" by (metis not_None_eq prod.collapse)
    obtain b1 d1 where s: "deliver_step now ch failed b d = (b1, d1)" by (cases "deliver_step now ch failed b d")
    have "(nm, Some d) \<in> set (b_leaving b)" using True x by (metis nth_mem)
    then have "d_name d = nm" "sane (d_phase d)" using assms(1) by (auto simp: loops_ok_def)
    then show ?thesis using step_tables [OF s] assms(2) True x s by (simp add: Deliver_leaving_def)
  next
    case False
    then show ?thesis by (auto simp: Deliver_leaving_def split: prod.splits option.splits)
  qed
  then show "same_log (b_store b) (b_store (Deliver_leaving k now ch failed b))"
    "rows_step P (b_store b) (b_store (Deliver_leaving k now ch failed b))" by simp_all
qed

lemma act_tables:
  assumes "loops_ok b" "proper_rows (b_store b)" "0 \<le> last_seq (b_store b)"
    "\<And>n. P n \<Longrightarrow> consumer_row (b_store b) n \<noteq> None" "\<And>n. P n \<Longrightarrow> \<not> touches b a n"
  shows "rows_step P (b_store b) (b_store (act a b)) \<and> ((\<forall>t. a \<noteq> ATrim t) \<longrightarrow> log_step (b_store b) (b_store (act a b)))"
proof (cases a)
  case (APublish now source nm subject payload)
  then show ?thesis using publish_effect(1) [where b = b] publish_effect(2) [where P = P and b = b] by (simp add: PublishFrom_def)
next
  case AAnnounce
  then show ?thesis using Announce_effect(1) [of b] same_log_step same_rows_step by simp
next
  case (ARegister now nm f hooked)
  then show ?thesis using register_effect(1,2) [OF assms(2,3,4)] same_log_log_step by simp
next
  case (ASetFilter now nm f)
  then show ?thesis using SetFilter_effect(1,2) [OF assms(2)] same_log_log_step by simp
next
  case (AStart now)
  then show ?thesis using Start_effect [of b P now] assms same_log_log_step by (simp add: loops_ok_def)
next
  case (AUnregistered k)
  then show ?thesis using Unregister_end_effect(1,2) [of P k b] assms(5) same_log_log_step by fastforce
next
  case (ADeliver i now ch failed)
  then show ?thesis using Deliver_tables [OF assms(1), of P i] assms(5) same_log_log_step by fastforce
next
  case (ADeliverLeaving k now ch failed)
  then show ?thesis using Deliver_leaving_tables [OF assms(1), of P k] assms(5) same_log_log_step by fastforce
next
  case (ATrim now)
  then show ?thesis using Trim_tables(1) rows_step_consumers by (simp add: bus_trim_def with_db_def)
next
  case (AEnable now nm en)
  then show ?thesis using row_statements(3,4) [of P nm] assms(5) same_log_log_step by (fastforce simp: with_db_def)
next
  case (AAdvance now nm c)
  then show ?thesis using row_statements(5,6) [of P nm] assms(5) same_log_log_step by (fastforce simp: with_db_def)
next
  case (ARestart opts)
  then show ?thesis using restart_effect(1) same_log_step same_rows_step by simp
qed (use append_statements rows_step_consumers in \<open>auto simp: Subscribe_def unsubscribe_def bus_Stop_def Unregister_begin_def
    Unregister_retire_def with_db_def log_step_def rows_step_def proper_rows_def position_def consumer_row_def\<close>)

subsection \<open>The delivery loops\<close>

lemma loops_ok_rests:
  assumes "loops_ok b" "list_all2 rests (b_durables b) (b_durables b')" "b_leaving b' = b_leaving b"
    "b_started b' \<or> (b_started b' = b_started b \<and> map d_phase (b_durables b') = map d_phase (b_durables b))"
  shows "loops_ok b'"
proof -
  have "\<forall>d \<in> set (b_durables b'). sane (d_phase d)"
    using assms(1,2) rests_in by (fastforce simp: loops_ok_def rests_def)
  moreover have "\<not> b_started b' \<Longrightarrow> \<forall>d \<in> set (b_durables b'). d_phase d = Unlaunched"
  proof -
    assume "\<not> b_started b'"
    then have "\<forall>p \<in> set (map d_phase (b_durables b)). p = Unlaunched" "map d_phase (b_durables b') = map d_phase (b_durables b)"
      using assms(1,4) by (auto simp: loops_ok_def)
    then have "\<forall>p \<in> set (map d_phase (b_durables b')). p = Unlaunched" by metis
    then show "\<forall>d \<in> set (b_durables b'). d_phase d = Unlaunched" by simp
  qed
  ultimately show ?thesis using assms(1,3) rests_names [OF assms(2)] by (simp add: loops_ok_def)
qed

lemma loops_ok_same:
  assumes "loops_ok b" "b_durables b' = b_durables b" "set (b_leaving b') \<subseteq> set (b_leaving b)" "b_started b' = b_started b"
  shows "loops_ok b'"
  using assms unfolding loops_ok_def by (metis subset_iff)

lemma loops_ok_woken:
  "loops_ok b \<Longrightarrow> list_all2 woken (b_durables b) (b_durables b') \<Longrightarrow> same_settings b b' \<Longrightarrow> b_started b' = b_started b \<Longrightarrow> loops_ok b'"
  using loops_ok_rests [of b b'] woken_rests by (simp add: same_settings_def)

lemma loops_ok_register:
  assumes "loops_ok b" "b_leaving b' = b_leaving b" "b_started b' = b_started b"
    "b_durables b' = b_durables b \<or> (\<exists>d. b_durables b' = b_durables b @ [d] \<and> \<not> Registered nm b \<and> d_name d = nm \<and>
       d_filter d = f \<and> \<not> d_retired d \<and> (d_phase d = Unlaunched \<or> b_started b \<and> d_phase d = Selecting))"
  shows "loops_ok b'"
proof (cases "b_durables b' = b_durables b")
  case True
  then show ?thesis using loops_ok_same assms by simp
next
  case False
  then obtain d where d: "b_durables b' = b_durables b @ [d]" "\<not> Registered nm b" "d_name d = nm"
    "d_phase d = Unlaunched \<or> b_started b \<and> d_phase d = Selecting" using assms(4) by blast
  then have "nm \<notin> d_name ` set (b_durables b)" by (auto simp: Registered_def list_ex_iff)
  then show ?thesis using assms(1-3) d by (auto simp: loops_ok_def)
qed

lemma loops_ok_filtered:
  assumes "loops_ok b" "b_leaving b' = b_leaving b" "b_started b' = b_started b"
    "b_durables b' = b_durables b \<or> b_durables b' = map (\<lambda>d. if d_name d = nm then d\<lparr>d_filter := f\<rparr> else d) (b_durables b)"
  shows "loops_ok b'"
proof -
  have "map d_name (map (\<lambda>d. if d_name d = nm then d\<lparr>d_filter := f\<rparr> else d) ds) = map d_name ds" for ds :: "durable list" by (induction ds) auto
  then show ?thesis using assms by (auto simp: loops_ok_def simp del: map_map)
qed

lemma remove_first_sub: "set (remove_first nm ds) \<subseteq> set ds" "distinct (map d_name ds) \<Longrightarrow> distinct (map d_name (remove_first nm ds))"
  "distinct (map d_name ds) \<Longrightarrow> d \<in> set (remove_first nm ds) \<Longrightarrow> d_name d \<noteq> nm"
proof -
  have eq: "remove_first nm (d # ds) = (if d_name d = nm then ds else d # remove_first nm ds)" for d ds
    by (simp add: remove_first_def)
  have nil: "remove_first nm [] = []" by (simp add: remove_first_def)
  show sub: "set (remove_first nm ds) \<subseteq> set ds" for ds by (induction ds) (auto simp: eq nil)
  show "distinct (map d_name ds) \<Longrightarrow> distinct (map d_name (remove_first nm ds))"
    using sub by (induction ds) (auto simp: eq nil)
  show "distinct (map d_name ds) \<Longrightarrow> d \<in> set (remove_first nm ds) \<Longrightarrow> d_name d \<noteq> nm"
    by (induction ds) (auto simp: eq nil image_iff split: if_splits)
qed

lemma loops_ok_begin: "loops_ok b \<Longrightarrow> loops_ok (Unregister_begin nm b)"
  using remove_first_sub(1) [of nm "b_durables b"] remove_first_sub(2) [of "b_durables b" nm] find_Some_iff_first
  by (fastforce simp: loops_ok_def Unregister_begin_def)

lemma loops_ok_retire: "loops_ok b \<Longrightarrow> loops_ok (Unregister_retire k b)"
proof -
  assume ok: "loops_ok b"
  have "d_name d = fst x \<and> sane (d_phase d)"
    if x: "x \<in> set ((b_leaving b)[k := map_prod id (map_option retire) (b_leaving b ! k)])" and k: "k < length (b_leaving b)"
      and d: "snd x = Some d" for x d
  proof -
    have "x \<in> set (b_leaving b) \<or> x = map_prod id (map_option retire) (b_leaving b ! k)" using x set_update_subset_insert by fastforce
    then show ?thesis using ok d nth_mem [OF k] by (cases "b_leaving b ! k") (auto simp: loops_ok_def retire_def)
  qed
  then show "loops_ok (Unregister_retire k b)" using ok by (auto simp: loops_ok_def Unregister_retire_def)
qed

lemma loops_ok_Deliver:
  assumes "loops_ok b" "log_ok hist (b_store b)"
  shows "loops_ok (Deliver i now ch failed b)"
proof (cases "i < length (b_durables b)")
  case True
  define d where "d = b_durables b ! i"
  obtain b1 d1 where s: "deliver_step now ch failed b d = (b1, d1)" by (cases "deliver_step now ch failed b d")
  have mem: "d \<in> set (b_durables b)" using True by (simp add: d_def)
  have "\<forall>e \<in> set (bus_events (b_store b)). 0 \<le> ev_Seq e" using log_ok_seqs(4) [OF assms(2)] by fastforce
  then have sn: "sane (d_phase d1)"
    using sane_step [of d b now ch failed] assms mem s by (simp add: loops_ok_def log_ok_def)
  obtain st h where b1: "b1 = b\<lparr>b_store := st, b_handled := h\<rparr>" using deliver_effect(2) [OF s] by blast
  have nm: "d_name d1 = d_name d" using deliver_effect(1) [OF s] by (simp add: same_consumer_def)
  have names: "map d_name ((b_durables b)[i := d1]) = map d_name (b_durables b)" using nm by (metis d_def list_update_id map_update)
  have un: "d_phase d = Unlaunched \<Longrightarrow> d_phase d1 = Unlaunched" using s by (auto simp: deliver_step_def)
  have "\<forall>x \<in> set ((b_durables b)[i := d1]). x = d1 \<or> x \<in> set (b_durables b)" using set_update_subset_insert by fastforce
  then show ?thesis using assms(1) sn un names mem s True b1
    by (fastforce simp: loops_ok_def Deliver_def d_def [symmetric])
qed (simp add: Deliver_def assms)

lemma loops_ok_Deliver_leaving:
  assumes "loops_ok b" "log_ok hist (b_store b)"
  shows "loops_ok (Deliver_leaving k now ch failed b)"
proof (cases "k < length (b_leaving b) \<and> snd (b_leaving b ! k) \<noteq> None")
  case True
  then obtain nm d where x: "b_leaving b ! k = (nm, Some d)" by (metis not_None_eq prod.collapse)
  obtain b1 d1 where s: "deliver_step now ch failed b d = (b1, d1)" by (cases "deliver_step now ch failed b d")
  have "(nm, Some d) \<in> set (b_leaving b)" using True x by (metis nth_mem)
  then have d: "d_name d = nm" "sane (d_phase d)" using assms(1) by (auto simp: loops_ok_def)
  have "\<forall>e \<in> set (bus_events (b_store b)). 0 \<le> ev_Seq e" using log_ok_seqs(4) [OF assms(2)] by fastforce
  then have sn: "sane (d_phase d1)" using sane_step [of d b now ch failed] assms(2) d s by (simp add: log_ok_def)
  have nm: "d_name d1 = nm" using deliver_effect(1) [OF s] d by (simp add: same_consumer_def)
  obtain st h where b1: "b1 = b\<lparr>b_store := st, b_handled := h\<rparr>" using deliver_effect(2) [OF s] by blast
  have "\<forall>y \<in> set ((b_leaving b)[k := (nm, Some d1)]). y = (nm, Some d1) \<or> y \<in> set (b_leaving b)" using set_update_subset_insert by fastforce
  then show ?thesis using assms(1) sn nm s x True b1 by (fastforce simp: loops_ok_def Deliver_leaving_def)
next
  case False
  then show ?thesis using assms(1) by (auto simp: Deliver_leaving_def split: prod.splits option.splits)
qed

end
