(* ===== verification/Bus_World.thy ===== *)
theory Bus_World
  imports Bus_Laws
begin

text \<open>
  Every reachable world satisfies the invariant of \<open>Bus_Laws\<close>.
\<close>

lemma act_loops:
  assumes "loops_ok b" "proper_rows (b_store b)" "log_ok hist (b_store b)"
  shows "loops_ok (act a b)"
proof (cases a)
  case (APublish now source nm subject payload)
  then show ?thesis using loops_ok_woken [OF assms(1)] publish_effect(3-5) [where b = b] by (simp add: PublishFrom_def)
next
  case AAnnounce
  then show ?thesis using loops_ok_woken [OF assms(1)] Announce_effect(2-4) [where b = b] by simp
next
  case (ARegister now nm f hooked)
  have "0 \<le> last_seq (b_store b)" using assms(3) by (simp add: log_ok_def)
  then show ?thesis
    using ARegister loops_ok_register [OF assms(1)] register_effect(3-5) [where b = b and P = "\<lambda>_. False" and now = now and nm = nm and f = f and hooked = hooked and h = True] assms(2)
    by (simp add: same_settings_def)
next
  case (ASetFilter now nm f)
  then show ?thesis using loops_ok_filtered [OF assms(1)] SetFilter_effect(3-5) [OF assms(2), of now nm f] by (simp add: same_settings_def)
next
  case (AStart now)
  have "0 \<le> last_seq (b_store b)" using assms(3) by (simp add: log_ok_def)
  moreover have "\<not> b_started b \<longrightarrow> (\<forall>d \<in> set (b_durables b). d_phase d = Unlaunched)" using assms(1) by (simp add: loops_ok_def)
  ultimately show ?thesis using AStart Start_effect [of b "\<lambda>_. False" now] loops_ok_rests [OF assms(1)] assms(2)
    by (simp add: same_settings_def)
next
  case (AUnregister nm)
  then show ?thesis using loops_ok_begin assms(1) by simp
next
  case (ARetire k)
  then show ?thesis using loops_ok_retire assms(1) by simp
next
  case (AUnregistered k)
  then show ?thesis using loops_ok_same [OF assms(1)] Unregister_end_effect(3-5) [where P = "\<lambda>_. False" and k = k and b = b] by simp
next
  case (ADeliver i now ch failed)
  then show ?thesis using loops_ok_Deliver [OF assms(1,3)] by simp
next
  case (ADeliverLeaving k now ch failed)
  then show ?thesis using loops_ok_Deliver_leaving [OF assms(1,3)] by simp
next
  case (ARestart opts)
  then show ?thesis using restart_effect(3,4) by (simp add: loops_ok_def)
qed (use loops_ok_same [OF assms(1)] assms(1) in \<open>auto simp: Subscribe_def unsubscribe_def bus_Stop_def bus_trim_def with_db_def\<close>)

lemma act_stored:
  assumes "b_stored b" "loops_ok b" "proper_rows (b_store b)" "log_ok hist (b_store b)"
  shows "b_stored (act a b)"
proof (cases a)
  case (APublish now source nm subject payload)
  then show ?thesis using publish_effect(3) [where b = b] assms(1) by (simp add: same_settings_def PublishFrom_def)
next
  case AAnnounce
  then show ?thesis using Announce_effect(2) [of b] assms(1) by (simp add: same_settings_def)
next
  case (ARegister now nm f hooked)
  have "0 \<le> last_seq (b_store b)" using assms(4) by (simp add: log_ok_def)
  then show ?thesis using ARegister register_effect(3) [of b "\<lambda>_. False" now nm f hooked True] assms by (simp add: same_settings_def)
next
  case (ASetFilter now nm f)
  then show ?thesis using SetFilter_effect(3) [OF assms(3), of now nm f] assms(1) by (simp add: same_settings_def)
next
  case (AStart now)
  have "0 \<le> last_seq (b_store b)" using assms(4) by (simp add: log_ok_def)
  then show ?thesis using AStart Start_effect [of b "\<lambda>_. False" now] assms by (simp add: loops_ok_def same_settings_def)
next
  case (AUnregistered k)
  then show ?thesis using Unregister_end_effect(6) [of "\<lambda>_. False" k b] assms(1) by simp
next
  case (ADeliver i now ch failed)
  obtain b1 d1 where s: "deliver_step now ch failed b (b_durables b ! i) = (b1, d1)"
    by (cases "deliver_step now ch failed b (b_durables b ! i)")
  obtain st h where "b1 = b\<lparr>b_store := st, b_handled := h\<rparr>" using deliver_effect(2) [OF s] by blast
  then show ?thesis using ADeliver assms(1) s by (simp add: Deliver_def)
next
  case (ADeliverLeaving k now ch failed)
  have "deliver_step now ch failed b d = (b1, d1) \<Longrightarrow> b_stored b1" for d b1 d1
  proof -
    assume s: "deliver_step now ch failed b d = (b1, d1)"
    obtain st h where "b1 = b\<lparr>b_store := st, b_handled := h\<rparr>" using deliver_effect(2) [OF s] by blast
    then show "b_stored b1" using assms(1) by simp
  qed
  then show ?thesis using ADeliverLeaving assms(1) by (auto simp: Deliver_leaving_def split: prod.splits option.splits)
next
  case (ARestart opts)
  then show ?thesis using restart_effect(2) by simp
qed (use assms(1) in \<open>auto simp: Subscribe_def unsubscribe_def bus_Stop_def bus_trim_def with_db_def Unregister_begin_def Unregister_retire_def\<close>)

lemma act_log_ok:
  assumes "loops_ok b" "proper_rows (b_store b)" "log_ok hist (b_store b)"
  shows "log_ok (hist @ filter (\<lambda>e. last_seq (b_store b) < ev_Seq e) (bus_events (b_store (act a b)))) (b_store (act a b))"
    "proper_rows (b_store (act a b))"
proof -
  have t: "rows_step (\<lambda>_. False) (b_store b) (b_store (act a b)) \<and>
      ((\<forall>t. a \<noteq> ATrim t) \<longrightarrow> log_step (b_store b) (b_store (act a b)))"
    using act_tables [OF assms(1,2), of "\<lambda>_. False" a] assms(3) by (simp add: log_ok_def)
  show "proper_rows (b_store (act a b))" using t assms(2) by (simp add: rows_step_def)
  show "log_ok (hist @ filter (\<lambda>e. last_seq (b_store b) < ev_Seq e) (bus_events (b_store (act a b)))) (b_store (act a b))"
  proof (cases "\<exists>t. a = ATrim t")
    case True
    then obtain t where a: "a = ATrim t" by blast
    have "b_store (act a b) = fst (TrimBusEvents (b_store b) (t - b_retention b))" by (simp add: a bus_trim_def with_db_def)
    then show ?thesis using log_ok_filter [OF assms(3)] Trim_tables(2,3) by metis
  next
    case False
    then show ?thesis using log_ok_step [OF assms(3)] t by blast
  qed
qed

lemma acted_ok: "world_ok w \<Longrightarrow> world_ok (acted a w)"
  using act_log_ok [of "w_bus w" "w_history w" a] act_loops [of "w_bus w" "w_history w" a] act_stored [of "w_bus w" "w_history w" a]
  by (auto simp: world_ok_def acted_def Let_def split: action.splits)

subsection \<open>Compaction passes\<close>

lemma drop_nth_set: "set (drop_nth k xs) \<subseteq> set xs"
  by (auto simp: drop_nth_def dest: in_set_takeD in_set_dropD)

lemma loops_ok_store [simp]: "loops_ok (b\<lparr>b_store := s\<rparr>) = loops_ok b"
  by (simp add: loops_ok_def)

lemma log_ok_same: "same_log d d' \<Longrightarrow> log_ok hist d' = log_ok hist d"
  by (simp add: same_log_def log_ok_def)

lemma proper_same: "same_tables d d' \<Longrightarrow> proper_rows d' = proper_rows d"
  by (simp add: same_tables_def proper_rows_def)

lemma ListBusConsumers_result:
  assumes "ListBusConsumers d = (d', Inr cs)"
  shows "set cs = (\<lambda>c. c\<lparr>con_PinsRetention := con_Enabled c\<rparr>) ` set (bus_consumers d)"
  using assms by (auto simp: ListBusConsumers_def exec_eq split: if_splits)

lemma pass_list_ok:
  assumes "world_ok w"
  shows "world_ok (pass_list w)"
proof -
  obtain d1 res where l: "ListBusConsumers (w_db w) = (d1, res)" by (cases "ListBusConsumers (w_db w)")
  have t: "same_tables (w_db w) d1" using reads_same(4) [of "w_db w"] l by simp
  have "pass_ok (Listed cs)" if "res = Inr cs" for cs
    using ListBusConsumers_result [of "w_db w" d1 cs] l that assms by (auto simp: pass_ok_def world_ok_def proper_rows_def)
  then show ?thesis using l log_ok_same [OF same_tables_same_log [OF t]] proper_same [OF t] assms
    by (cases res) (auto simp: pass_list_def world_ok_def with_db_def)
qed

lemma floor_of_effect:
  assumes "floor_of cs b = (b', res)"
  shows "same_tables (b_store b) (b_store b')" "b' = b\<lparr>b_store := b_store b'\<rparr>"
  using assms reads_same(3) [of "b_store b"] by (auto simp: floor_of_def with_db_def split: if_splits sum.splits)

lemma pass_floor_ok:
  assumes "world_ok w"
  shows "world_ok (pass_floor k w)"
proof (cases "k < length (w_passes w)")
  case True
  show ?thesis
  proof (cases "w_passes w ! k")
    case (Listed cs)
    obtain b1 res where f: "floor_of cs (w_bus w) = (b1, res)" by (cases "floor_of cs (w_bus w)")
    obtain s where b1: "b1 = (w_bus w)\<lparr>b_store := s\<rparr>" using floor_of_effect(2) [OF f] by blast
    have t: "same_tables (w_db w) s" using floor_of_effect(1) [OF f] b1 by simp
    have "set ((w_passes w)[k := Floored fl]) \<subseteq> insert (Floored fl) (set (w_passes w))" for fl by (rule set_update_subset_insert)
    then show ?thesis using True Listed f b1 log_ok_same [OF same_tables_same_log [OF t]] proper_same [OF t] assms drop_nth_set [of k "w_passes w"]
      by (cases res) (fastforce simp: pass_floor_def world_ok_def pass_ok_def)+
  qed (use True assms in \<open>simp add: pass_floor_def\<close>)
qed (simp add: pass_floor_def assms)

lemma Compact_tables:
  "bus_consumers (fst (CompactBusEvents d ns fl)) = bus_consumers d" "last_seq (fst (CompactBusEvents d ns fl)) = last_seq d"
  "\<exists>P. bus_events (fst (CompactBusEvents d ns fl)) = filter P (bus_events d)"
proof -
  show "bus_consumers (fst (CompactBusEvents d ns fl)) = bus_consumers d" "last_seq (fst (CompactBusEvents d ns fl)) = last_seq d"
    by (simp_all add: CompactBusEvents_def exec_eq)
  show "\<exists>P. bus_events (fst (CompactBusEvents d ns fl)) = filter P (bus_events d)"
    using sql_log.compact_log [of d ns fl] by (metis prod.collapse)
qed

lemma log_ok_shrunk:
  assumes "log_ok hist d" "bus_events d' = filter P (bus_events d)" "last_seq d' = last_seq d"
  shows "log_ok hist d'"
  using assms by (auto simp: log_ok_def ascending_def sorted_wrt_filter)

lemma pass_delete_ok:
  assumes "world_ok w"
  shows "world_ok (pass_delete k w)"
proof (cases "k < length (w_passes w)")
  case True
  show ?thesis
  proof (cases "w_passes w ! k")
    case (Floored fl)
    define s where "s = fst (CompactBusEvents (w_db w) (b_compactable (w_bus w)) fl)"
    obtain P where "bus_events s = filter P (bus_events (w_db w))" using Compact_tables(3) by (metis s_def)
    then have "log_ok (w_history w) s"
      using log_ok_shrunk [of "w_history w" "w_db w" s P] assms Compact_tables(2) by (simp add: world_ok_def s_def)
    moreover have "proper_rows s" using Compact_tables(1) assms by (simp add: s_def world_ok_def proper_rows_def)
    ultimately show ?thesis using True Floored assms drop_nth_set [of k "w_passes w"]
      by (auto simp: pass_delete_def world_ok_def with_db_def s_def)
  qed (use True assms in \<open>simp add: pass_delete_def\<close>)
qed (simp add: pass_delete_def assms)

subsection \<open>All reachable worlds\<close>

lemma perform_ok: "world_ok w \<Longrightarrow> world_ok (perform a w)"
  by (cases a) (simp_all add: acted_ok pass_list_ok pass_floor_ok pass_delete_ok)

lemma fresh_ok: "world_ok (fresh_world opts faults)"
proof -
  fix b0 :: Bus
  have "restart opts (b0\<lparr>b_store := no_store\<lparr>db_faults := faults\<rparr>, b_told := [], b_handled := []\<rparr>) =
      (bus_New (opts\<lparr>bo_Store := Some (no_store\<lparr>db_faults := faults\<rparr>)\<rparr>))\<lparr>b_told := [], b_handled := []\<rparr>"
    by (simp add: restart_def)
  then show ?thesis
    using restart_effect [where b = "b0\<lparr>b_store := no_store\<lparr>db_faults := faults\<rparr>, b_told := [], b_handled := []\<rparr>" and opts = opts]
    by (simp add: fresh_world_def world_ok_def loops_ok_def log_ok_def proper_rows_def same_tables_def no_store_def ascending_def)
qed

lemma reachable_world_ok: "reachable_world w \<Longrightarrow> world_ok w"
  by (induction rule: reachable_world.induct) (simp_all add: fresh_ok perform_ok)

end
