(* ===== verification/Bus_Track.thy ===== *)
theory Bus_Track
  imports Bus_World
begin

text \<open>
  Where a delivery loop may be while its consumer is enabled and nobody else moves its cursor: what is in
  its batch is everything above the cursor, what it skipped it did not want, and before it moves the cursor
  it has handled everything wanted below.
\<close>

definition wanted :: "Filter \<Rightarrow> Event \<Rightarrow> bool" where
  "wanted f e = Matches f (ev_Name e)"

definition quiet :: "Event set \<Rightarrow> Filter \<Rightarrow> int \<Rightarrow> int \<Rightarrow> bool" where
  "quiet H f p q \<longleftrightarrow> (\<forall>e \<in> H. p < ev_Seq e \<and> ev_Seq e \<le> q \<longrightarrow> \<not> wanted f e)"

definition covers :: "Event set \<Rightarrow> int \<Rightarrow> Event list \<Rightarrow> bool" where
  "covers H p evs \<longleftrightarrow> ascending evs \<and> set evs \<subseteq> H \<and> (\<forall>e \<in> set evs. p < ev_Seq e) \<and>
     (\<forall>e \<in> H. \<forall>e' \<in> set evs. p < ev_Seq e \<and> ev_Seq e \<le> ev_Seq e' \<longrightarrow> e \<in> set evs)"

fun on_track :: "Event set \<Rightarrow> Filter \<Rightarrow> Event set \<Rightarrow> int \<Rightarrow> bool \<Rightarrow> int \<Rightarrow> int \<Rightarrow> phase \<Rightarrow> bool" where
  "on_track H f D L hooked c dc (Bounding rec) = (dc = c)"
| "on_track H f D L hooked c dc (Gapping g) = False"
| "on_track H f D L hooked c dc Ready = (hooked \<or> dc = c)"
| "on_track H f D L hooked c dc Looping = (hooked \<or> dc = c)"
| "on_track H f D L hooked c dc Fetching = (dc = c)"
| "on_track H f D L hooked c dc (Scanning evs sk) =
     (dc = c \<and> sk \<le> L \<and> (sk \<noteq> 0 \<longrightarrow> c < sk) \<and> quiet H f c sk \<and> covers H (max c sk) evs)"
| "on_track H f D L hooked c dc (Handling ev evs) =
     (dc = c \<and> ev \<in> H \<and> c < ev_Seq ev \<and> wanted f ev \<and> quiet H f c (ev_Seq ev - 1) \<and> covers H (ev_Seq ev) evs)"
| "on_track H f D L hooked c dc (Cleared evs) = (dc = c \<and> covers H c evs)"
| "on_track H f D L hooked c dc (Moving s p) =
     (dc = c \<and> c < s \<and> s \<le> L \<and> (\<forall>e \<in> H. c < ev_Seq e \<and> ev_Seq e \<le> s \<and> wanted f e \<longrightarrow> e \<in> D) \<and>
      on_track H f D L hooked s s p)"
| "on_track H f D L hooked c dc _ = True"

text \<open>New events come after everything a loop has looked at.\<close>

lemma quiet_grow:
  "quiet H f p q \<Longrightarrow> q \<le> L \<Longrightarrow> (\<And>e. e \<in> H' \<Longrightarrow> e \<notin> H \<Longrightarrow> L < ev_Seq e) \<Longrightarrow> quiet H' f p q"
  unfolding quiet_def by (metis leD order_trans)

lemma covers_grow:
  assumes "covers H p evs" "H \<subseteq> H'" "\<And>e. e \<in> H \<Longrightarrow> ev_Seq e \<le> L" "\<And>e. e \<in> H' \<Longrightarrow> e \<notin> H \<Longrightarrow> L < ev_Seq e"
  shows "covers H' p evs"
proof -
  have "e \<in> set evs" if "e \<in> H'" "e' \<in> set evs" "p < ev_Seq e" "ev_Seq e \<le> ev_Seq e'" for e e'
  proof -
    have "ev_Seq e' \<le> L" using that(2) assms(1,3) by (auto simp: covers_def)
    then have "e \<in> H" using assms(4) [OF that(1)] that(4) by force
    then show ?thesis using assms(1) that by (auto simp: covers_def)
  qed
  then show ?thesis using assms(1,2) unfolding covers_def by blast
qed

lemma on_track_grow:
  assumes "on_track H f D L hooked c dc p" "H \<subseteq> H'" "D \<subseteq> D'" "L \<le> L'"
    "\<And>e. e \<in> H \<Longrightarrow> ev_Seq e \<le> L" "\<And>e. e \<in> H' \<Longrightarrow> e \<notin> H \<Longrightarrow> L < ev_Seq e"
  shows "on_track H' f D' L' hooked c dc p"
  using assms(1)
proof (induction p arbitrary: c dc)
  case (Scanning evs sk)
  then show ?case using quiet_grow [of H f c sk L H'] covers_grow [of H "max c sk" evs H' L] assms(2-6) by auto
next
  case (Handling ev evs)
  moreover have "ev \<in> H \<Longrightarrow> ev_Seq ev - 1 \<le> L" using assms(5) [of ev] by simp
  ultimately show ?case using quiet_grow [of H f c "ev_Seq ev - 1" L H'] covers_grow [of H "ev_Seq ev" evs H' L] assms(2-6) by auto
next
  case (Cleared evs)
  then show ?case using covers_grow [of H c evs H' L] assms(2-6) by auto
next
  case (Moving s p)
  have "e \<in> D'" if "e \<in> H'" "c < ev_Seq e" "ev_Seq e \<le> s" "wanted f e" for e
    using Moving.prems that assms(3,6) by (cases "e \<in> H") force+
  then show ?case using Moving assms(4) by auto
qed auto

text \<open>Rest is always on track.\<close>

lemma on_track_rests:
  assumes "rests d d'" "on_track H f D L (d_hooked d) c (d_cursor d) (d_phase d)"
  shows "on_track H f D L (d_hooked d') c (d_cursor d') (d_phase d')"
  using assms by (auto simp: rests_def)

lemma on_track_stall [simp]: "on_track H f D L h c dc (d_phase (stall b e d))"
  by (simp add: stall_def recordFailure_def)

lemma on_track_drained [simp]: "on_track H f D L h c dc (d_phase (drained d))"
  by (simp add: drained_def)

subsection \<open>Scanning a batch\<close>

lemma covers_Cons:
  assumes "covers H p (e # evs)"
  shows "e \<in> H" "p < ev_Seq e" "covers H (ev_Seq e) evs" "\<And>x. x \<in> H \<Longrightarrow> p < ev_Seq x \<Longrightarrow> ev_Seq x \<le> ev_Seq e \<Longrightarrow> x = e"
proof -
  have asc: "\<forall>x \<in> set evs. ev_Seq e < ev_Seq x" "ascending evs" using assms by (auto simp: covers_def ascending_def)
  have cov: "x \<in> H \<Longrightarrow> y \<in> set (e # evs) \<Longrightarrow> p < ev_Seq x \<Longrightarrow> ev_Seq x \<le> ev_Seq y \<Longrightarrow> x \<in> set (e # evs)" for x y
    using assms unfolding covers_def by blast
  show "e \<in> H" and p: "p < ev_Seq e" using assms by (auto simp: covers_def)
  show one: "x = e" if "x \<in> H" "p < ev_Seq x" "ev_Seq x \<le> ev_Seq e" for x
  proof -
    have "x \<in> set (e # evs)" using cov [of x e] that by simp
    then show ?thesis using asc(1) that(3) by force
  qed
  have rest: "x \<in> set evs" if "x \<in> H" "y \<in> set evs" "ev_Seq e < ev_Seq x" "ev_Seq x \<le> ev_Seq y" for x y
  proof -
    have "x \<in> set (e # evs)" using cov [of x y] that p by simp
    then show ?thesis using that(3) by auto
  qed
  have "set evs \<subseteq> H" using assms by (simp add: covers_def)
  then show "covers H (ev_Seq e) evs" unfolding covers_def using asc rest by blast
qed

lemma look_at_track:
  assumes "on_track H f D L hooked c (d_cursor d) (Scanning (ev # evs) sk)" "d_filter d = f" "\<not> d_retired d"
    "\<And>e. e \<in> H \<Longrightarrow> 1 \<le> ev_Seq e \<and> ev_Seq e \<le> L"
  shows "on_track H f D L hooked c (d_cursor (look_at ev evs sk d)) (d_phase (look_at ev evs sk d))"
proof -
  define p where "p = max c sk"
  have a: "d_cursor d = c" "sk \<le> L" "sk \<noteq> 0 \<longrightarrow> c < sk" "quiet H f c sk" "covers H p (ev # evs)" using assms(1) by (auto simp: p_def)
  note cv = covers_Cons [OF a(5)]
  have "c < ev_Seq ev" using cv(2) by (simp add: p_def)
  show ?thesis
  proof (cases "wanted f ev")
    case False
    have "quiet H f c (ev_Seq ev)"
      unfolding quiet_def
    proof (intro ballI impI)
      fix e
      assume e: "e \<in> H" "c < ev_Seq e \<and> ev_Seq e \<le> ev_Seq ev"
      show "\<not> wanted f e"
      proof (cases "ev_Seq e \<le> sk")
        case True
        then show ?thesis using a(4) e by (simp add: quiet_def)
      next
        case below: False
        then have "p < ev_Seq e" using e by (simp add: p_def)
        then show ?thesis using cv(4) [of e] e False by auto
      qed
    qed
    moreover have "max c (ev_Seq ev) = ev_Seq ev" using \<open>c < ev_Seq ev\<close> by simp
    ultimately show ?thesis using False a cv assms(2) assms(4) [OF cv(1)] \<open>c < ev_Seq ev\<close> by (simp add: look_at_def wanted_def)
  next
    case True
    have q: "quiet H f p (ev_Seq ev - 1)" using cv(4) by (force simp: quiet_def)
    then have qc: "sk = 0 \<longrightarrow> quiet H f c (ev_Seq ev - 1)" using assms(4) by (force simp: quiet_def p_def)
    have pk: "sk \<noteq> 0 \<longrightarrow> p = sk" using a(3) by (auto simp: p_def)
    have "\<forall>e \<in> H. c < ev_Seq e \<and> ev_Seq e \<le> sk \<longrightarrow> \<not> wanted f e" using a(4) by (simp add: quiet_def)
    then show ?thesis using True a cv q qc pk assms(2,3) \<open>c < ev_Seq ev\<close>
      by (auto simp: look_at_def advance_to_def wanted_def)
  qed
qed

lemma scan_track:
  assumes "on_track H f D L hooked c (d_cursor d) (Scanning evs sk)" "d_filter d = f" "\<not> d_retired d"
    "\<And>e. e \<in> H \<Longrightarrow> 1 \<le> ev_Seq e \<and> ev_Seq e \<le> L"
  shows "on_track H f D L hooked c (d_cursor (snd (scan_step now evs sk b d))) (d_phase (snd (scan_step now evs sk b d)))"
proof (cases evs)
  case Nil
  then show ?thesis using assms by (auto simp: advance_to_def quiet_def)
next
  case (Cons ev evs')
  obtain b1 d1 res where k: "killed now b d = (b1, d1, res)" by (cases "killed now b d") auto
  have d1: "d_cursor d1 = d_cursor d" "d_filter d1 = f" "\<not> d_retired d1"
    using killed_reading [OF k] assms(2,3) by (auto simp: same_consumer_def)
  have look: "on_track H f D L hooked c (d_cursor (look_at ev evs' sk d1)) (d_phase (look_at ev evs' sk d1))"
    using look_at_track [of H f D L hooked c d1 ev evs' sk] assms(1,4) d1 Cons by simp
  show ?thesis
  proof (cases "ctx_done b d")
    case False
    then show ?thesis using Cons k look by (cases res) auto
  qed (simp add: Cons)
qed

subsection \<open>One step of a loop on track\<close>

text \<open>Everything published above the cursor is still in the log.\<close>

definition kept :: "Event list \<Rightarrow> bus_db \<Rightarrow> int \<Rightarrow> bool" where
  "kept hist d c \<longleftrightarrow> (\<forall>e \<in> set hist. c < ev_Seq e \<longrightarrow> e \<in> set (bus_events d))"

lemma no_gap:
  assumes "log_ok hist d" "kept hist d c" "c \<le> last_seq d" "0 \<le> c" "BusBounds d = (d', Inr (earliest, head))"
  shows "\<not> c < earliest - 1"
proof (cases "c < last_seq d")
  case True
  then obtain e where e: "e \<in> set hist" "ev_Seq e = c + 1" using log_ok_seqs(3) [OF assms(1), of "c + 1"] assms(4) by auto
  then have "e \<in> set (bus_events d)" using assms(2) by (simp add: kept_def)
  then show ?thesis using BusBounds_result(2) [OF assms(5)] e(2) by fastforce
next
  case False
  then have c: "c = last_seq d" using assms(3) by simp
  show ?thesis
  proof (cases "bus_events d = []")
    case True
    then show ?thesis using BusBounds_result(3) [OF assms(5)] c by simp
  next
    case False
    then obtain e where "e \<in> set (bus_events d)" "earliest = ev_Seq e" using BusBounds_result(4) [OF assms(5)] by auto
    then show ?thesis using log_ok_seqs(4) [OF assms(1)] c by fastforce
  qed
qed

lemma fetch_track:
  assumes "log_ok hist (b_store b)" "kept hist (b_store b) (d_cursor d)" "0 \<le> d_cursor d" "0 \<le> L"
  shows "on_track (set hist) f D L hooked (d_cursor d) (d_cursor (snd (fetch_step b d))) (d_phase (snd (fetch_step b d)))"
proof (cases "snd (BusEventsSince (b_store b) (d_cursor d) (b_batchSize b))")
  case (Inl e)
  then show ?thesis by (simp add: fetch_step_def with_db_def)
next
  case (Inr evs)
  then have s: "BusEventsSince (b_store b) (d_cursor d) (b_batchSize b) = (fst (BusEventsSince (b_store b) (d_cursor d) (b_batchSize b)), Inr evs)"
    by (metis prod.collapse)
  have asc: "ascending (bus_events (b_store b))" using assms(1) by (simp add: log_ok_def)
  note cv = sql_log.since_covers [OF s asc]
  have "covers (set hist) (d_cursor d) evs"
    using cv assms(1,2) unfolding covers_def kept_def log_ok_def by blast
  moreover have "quiet (set hist) f (d_cursor d) 0" using assms(3) by (auto simp: quiet_def)
  ultimately show ?thesis using Inr assms(3,4)
    by (cases "evs = []") (simp_all add: fetch_step_def with_db_def)
qed

lemma position_Some: "position d nm = Some (c, en) \<longleftrightarrow> (\<exists>r. consumer_row d nm = Some r \<and> con_Cursor r = c \<and> con_Enabled r = en)"
  by (cases "consumer_row d nm") (auto simp: position_def)

lemma Get_position:
  assumes "position d nm = Some (c, True)" "snd (GetBusConsumer d nm) = Inr found"
  shows "\<exists>r. found = Some r \<and> con_Cursor r = c \<and> con_Enabled r"
  using GetBusConsumer_result [of d nm "fst (GetBusConsumer d nm)" found] assms by (auto simp: position_Some prod_eq_iff)

text \<open>What one step of a loop on track does: the cursor moves over nothing wanted that is not handled.\<close>

definition tracked_step :: "Event set \<Rightarrow> Filter \<Rightarrow> Event set \<Rightarrow> int \<Rightarrow> int \<Rightarrow> Bus \<Rightarrow> durable \<Rightarrow> Bus \<Rightarrow> durable \<Rightarrow> bool" where
  "tracked_step H f D L c b d b' d' \<longleftrightarrow> (\<exists>c' hs. position (b_store b') (d_name d) = Some (c', True) \<and> c \<le> c' \<and> c' \<le> L \<and>
     (\<forall>e \<in> H. c < ev_Seq e \<and> ev_Seq e \<le> c' \<and> wanted f e \<longrightarrow> e \<in> D) \<and>
     b_handled b' = b_handled b @ map (Pair (d_name d)) hs \<and>
     (hs = [] \<or> (\<exists>ev \<in> H. hs = [ev] \<and> wanted f ev \<and> c < ev_Seq ev \<and> quiet H f c (ev_Seq ev - 1))) \<and>
     on_track H f (D \<union> set hs) L (d_hooked d) c' (d_cursor d') (d_phase d'))"

lemma tracked_reading:
  assumes "reading_step b d (b', d')" "position (b_store b) (d_name d) = Some (c, True)" "c \<le> L"
    "on_track H f D L (d_hooked d) c (d_cursor d') (d_phase d')"
  shows "tracked_step H f D L c b d b' d'"
proof -
  have t: "same_tables (b_store b) (b_store b')" using assms(1) by (simp add: reading_step_def)
  have "position (b_store b') (d_name d) = Some (c, True)"
    using same_rows_step [OF t, of "\<lambda>_. True"] assms(2) by (simp add: rows_step_def)
  moreover obtain s where "b' = b\<lparr>b_store := s\<rparr>" using assms(1) unfolding reading_step_def fst_conv by blast
  ultimately show ?thesis unfolding tracked_step_def using assms(3,4) by (intro exI [of _ c] exI [of _ "[]"]) auto
qed

lemma tracked_move:
  assumes "move_step now s p b d = (b', d')" "position (b_store b) (d_name d) = Some (c, True)" "c \<le> L" "proper_rows (b_store b)"
    "on_track H f D L (d_hooked d) c (d_cursor d) (Moving s p)"
  shows "tracked_step H f D L c b d b' d'"
proof -
  obtain r where r: "consumer_row (b_store b) (d_name d) = Some r" "con_Cursor r = c" "con_Enabled r"
    using assms(2) by (auto simp: position_Some)
  obtain st res where sc: "SetBusConsumerCursor (b_store b) (d_name d) s now = (st, res)"
    by (cases "SetBusConsumerCursor (b_store b) (d_name d) s now")
  have b': "b' = b\<lparr>b_store := st\<rparr>" using assms(1) sc by (auto simp: move_step_def with_db_def split: sum.splits)
  show ?thesis
  proof (cases res)
    case (Inl e)
    have "position st (d_name d) = Some (c, True)" using SetBusConsumerCursor_row(1) [OF sc, of "d_name d"] Inl r by (simp add: position_Some)
    moreover have "d' = stall b PersistingCursor d" using assms(1) sc Inl by (simp add: move_step_def with_db_def)
    ultimately show ?thesis unfolding tracked_step_def using assms(3) b' by (intro exI [of _ c] exI [of _ "[]"]) auto
  next
    case (Inr applied)
    then have app: "applied" using sql_log.set_cursor_applied [OF assms(4)] sc r by blast
    have "position st (d_name d) = Some (s, True)" using SetBusConsumerCursor_row(1) [OF sc, of "d_name d"] Inr r by (simp add: position_Some)
    moreover have "d' = d\<lparr>d_cursor := s, d_phase := p\<rparr>" using assms(1) sc Inr app by (simp add: move_step_def with_db_def)
    ultimately show ?thesis unfolding tracked_step_def using assms(5) b' by (intro exI [of _ s] exI [of _ "[]"]) auto
  qed
qed

lemma tracked_handle:
  assumes "handle_step failed ev evs b d = (b', d')" "position (b_store b) (d_name d) = Some (c, True)" "c \<le> L"
    "on_track H f D L (d_hooked d) c (d_cursor d) (Handling ev evs)" "\<not> d_retired d" "inj_on ev_Seq H"
    "\<And>e. e \<in> H \<Longrightarrow> ev_Seq e \<le> L"
  shows "tracked_step H f D L c b d b' d'"
proof (cases failed)
  case (Some err)
  then show ?thesis unfolding tracked_step_def using assms(1-3)
    by (intro exI [of _ c] exI [of _ "[]"]) (auto simp: handle_step_def split: if_splits)
next
  case None
  have a: "d_cursor d = c" "ev \<in> H" "c < ev_Seq ev" "wanted f ev" "quiet H f c (ev_Seq ev - 1)" "covers H (ev_Seq ev) evs"
    using assms(4) by auto
  have "e \<in> insert ev D" if "e \<in> H" "c < ev_Seq e" "ev_Seq e \<le> ev_Seq ev" "wanted f e" for e
  proof (cases "ev_Seq e = ev_Seq ev")
    case True
    then show ?thesis using assms(6) that(1) a(2) by (simp add: inj_on_def)
  next
    case False
    then show ?thesis using a(5) that by (auto simp: quiet_def)
  qed
  moreover have "b' = b\<lparr>b_handled := b_handled b @ [(d_name d, ev)]\<rparr>" "d' = d\<lparr>d_phase := Moving (ev_Seq ev) (Cleared evs)\<rparr>"
    using assms(1,5) None by (auto simp: handle_step_def advance_to_def)
  ultimately show ?thesis unfolding tracked_step_def using assms(2,3,7) a by (intro exI [of _ c] exI [of _ "[ev]"]) auto
qed

lemma track_step:
  assumes step: "deliver_step now ch failed b d = (b', d')"
    and ok: "log_ok hist (b_store b)" "proper_rows (b_store b)" and kept: "kept hist (b_store b) c"
    and pos: "position (b_store b) (d_name d) = Some (c, True)" "c \<le> last_seq (b_store b)"
    and d: "d_filter d = f" "\<not> d_retired d"
    and track: "on_track (set hist) f D (last_seq (b_store b)) (d_hooked d) c (d_cursor d) (d_phase d)"
  shows "tracked_step (set hist) f D (last_seq (b_store b)) c b d b' d'"
proof -
  define H L where "H = set hist" and "L = last_seq (b_store b)"
  obtain r where r: "consumer_row (b_store b) (d_name d) = Some r" "con_Cursor r = c" using pos(1) by (auto simp: position_Some)
  have c0: "0 \<le> c" using proper_cursor [OF ok(2) r(1)] r(2) by simp
  have seqs: "e \<in> H \<Longrightarrow> 1 \<le> ev_Seq e \<and> ev_Seq e \<le> L" for e using log_ok_seqs(1) [OF ok(1)] by (simp add: H_def L_def)
  have L0: "0 \<le> L" using ok(1) by (simp add: log_ok_def L_def)
  have read: "tracked_step H f D L c b d b' d'"
    if "\<forall>ev evs. d_phase d \<noteq> Handling ev evs" "\<forall>s p. d_phase d \<noteq> Moving s p" "on_track H f D L (d_hooked d) c (d_cursor d') (d_phase d')"
  proof (rule tracked_reading)
    show "reading_step b d (b', d')" using deliver_step_reading [of d b now ch failed] step that(1,2) by simp
  qed (use pos that(3) in \<open>simp_all add: L_def\<close>)
  have "tracked_step H f D L c b d b' d'"
  proof (cases "d_phase d")
    case (Moving s p)
    then show ?thesis using tracked_move [of now s p b d b' d' c L H f D] step track pos ok(2) by (simp add: deliver_step_def H_def L_def)
  next
    case (Handling ev evs)
    then show ?thesis using tracked_handle [of failed ev evs b d b' d' c L H f D] step track pos d(2) log_ok_seqs(2) [OF ok(1)] seqs
      by (simp add: deliver_step_def H_def L_def)
  next
    case (Bounding rec)
    obtain earliest head where bd: "snd (BusBounds (b_store b)) = Inr (earliest, head) \<or> isl (snd (BusBounds (b_store b)))"
      by (cases "snd (BusBounds (b_store b))") auto
    have "snd (BusBounds (b_store b)) = Inr (earliest, head) \<Longrightarrow> gap_of d earliest head = None"
      using no_gap [OF ok(1) kept pos(2) c0, of "fst (BusBounds (b_store b))" earliest head] track Bounding by (simp add: gap_of_def prod_eq_iff)
    then show ?thesis using read bd step track Bounding
      by (cases "snd (BusBounds (b_store b))") (auto simp: deliver_step_def bounds_step_def with_db_def Let_def)
  next
    case Preparing
    then show ?thesis using read step Get_position [OF pos(1)]
      by (cases "snd (GetBusConsumer (b_store b) (d_name d))") (fastforce simp: deliver_step_def prepare_step_def with_db_def Let_def setPosition_def)+
  next
    case Rereading
    then show ?thesis using read step Get_position [OF pos(1)]
      by (cases "snd (GetBusConsumer (b_store b) (d_name d))") (fastforce simp: deliver_step_def reread_step_def with_db_def Let_def setPosition_def)+
  next
    case Fetching
    then have dc: "d_cursor d = c" using track by simp
    then show ?thesis using read step Fetching fetch_track [of hist b d L f D "d_hooked d"] ok(1) kept c0 L0 by (simp add: deliver_step_def H_def)
  next
    case (Scanning evs sk)
    then show ?thesis using read step scan_track [of H f D L "d_hooked d" c d evs sk now b] track d seqs by (simp add: deliver_step_def H_def L_def)
  next
    case (Gapping g)
    then show ?thesis using track by simp
  next
    case (Cleared evs)
    have "quiet H f c 0" using c0 by (auto simp: quiet_def)
    then show ?thesis using read step track c0 L0 Cleared by (auto simp: deliver_step_def clearFailure_def H_def)
  qed (use read step track in \<open>auto simp: deliver_step_def wait_step_def start_drain_def hook_step_def loop_step_def
      split: choice.splits option.splits if_splits\<close>)
  then show ?thesis by (simp add: H_def L_def)
qed

end
