(* ===== verification/Bus_Delivery.thy ===== *)
theory Bus_Delivery
  imports Bus_Track
begin

text \<open>
  Delivery to a consumer that stays registered, enabled and with its filter, whatever else happens: other
  consumers, publishers, failing statements, failing handlers, retention, compaction, stops and restarts of
  the process. Every wanted event is handled before the cursor passes it, in order, and is in the log until
  then.
\<close>

subsection \<open>Following one consumer\<close>

text \<open>The events handed to the consumer without an error after the first \<open>n0\<close> calls of handlers.\<close>

definition calls :: "string \<Rightarrow> nat \<Rightarrow> Bus \<Rightarrow> Event list" where
  "calls nm n0 b = map snd (filter (\<lambda>x. fst x = nm) (drop n0 (b_handled b)))"

definition in_order :: "Event set \<Rightarrow> Filter \<Rightarrow> int \<Rightarrow> Event list \<Rightarrow> bool" where
  "in_order H f c0 evs \<longleftrightarrow> (\<forall>k < length evs. \<forall>e \<in> H. c0 < ev_Seq e \<and> ev_Seq e < ev_Seq (evs ! k) \<and> wanted f e \<longrightarrow> e \<in> set (take k evs))"

fun below :: "string \<Rightarrow> int \<Rightarrow> compaction \<Rightarrow> bool" where
  "below nm c (Listed cs) = (\<exists>r \<in> set cs. con_Name r = nm \<and> con_Enabled r \<and> con_Cursor r \<le> c)"
| "below nm c (Floored fl) = (fl \<le> c)"

definition following_at :: "string \<Rightarrow> Filter \<Rightarrow> int \<Rightarrow> nat \<Rightarrow> int \<Rightarrow> world \<Rightarrow> bool" where
  "following_at nm f c0 n0 c w \<longleftrightarrow>
     position (w_db w) nm = Some (c, True) \<and> c0 \<le> c \<and> c \<le> last_seq (w_db w) \<and> kept (w_history w) (w_db w) c \<and>
     (\<forall>e \<in> set (w_history w). c0 < ev_Seq e \<and> ev_Seq e \<le> c \<and> wanted f e \<longrightarrow> e \<in> set (calls nm n0 (w_bus w))) \<and>
     (\<forall>d \<in> set (b_durables (w_bus w)). d_name d = nm \<longrightarrow> d_filter d = f \<and> \<not> d_retired d \<and>
        on_track (set (w_history w)) f (set (calls nm n0 (w_bus w))) (last_seq (w_db w)) (d_hooked d) c (d_cursor d) (d_phase d)) \<and>
     (\<forall>p \<in> set (w_passes w). below nm c p) \<and>
     n0 \<le> length (b_handled (w_bus w)) \<and> (\<forall>x \<in> set (b_leaving (w_bus w)). fst x \<noteq> nm) \<and>
     in_order (set (w_history w)) f c0 (calls nm n0 (w_bus w)) \<and>
     set (calls nm n0 (w_bus w)) \<subseteq> {e \<in> set (w_history w). wanted f e}"

fun leaves :: "string \<Rightarrow> Filter \<Rightarrow> action \<Rightarrow> bool" where
  "leaves nm f (ARegister _ n g _) = (n = nm \<longrightarrow> g = f)"
| "leaves nm f (ASetFilter _ n g) = (n = nm \<longrightarrow> g = f)"
| "leaves nm f (AUnregister n) = (n \<noteq> nm)"
| "leaves nm f (AEnable _ n on) = (n = nm \<longrightarrow> on)"
| "leaves nm f (AAdvance _ n _) = (n \<noteq> nm)"
| "leaves nm f _ = True"

lemma in_order_grow:
  assumes "in_order H f c0 evs" "set evs \<subseteq> H" "\<And>e. e \<in> H \<Longrightarrow> ev_Seq e \<le> L" "\<And>e. e \<in> H' \<Longrightarrow> e \<notin> H \<Longrightarrow> L < ev_Seq e"
  shows "in_order H' f c0 evs"
  unfolding in_order_def
proof (intro allI impI ballI)
  fix k e
  assume k: "k < length evs" and e: "e \<in> H'" "c0 < ev_Seq e \<and> ev_Seq e < ev_Seq (evs ! k) \<and> wanted f e"
  have "ev_Seq (evs ! k) \<le> L" using assms(2,3) k nth_mem by blast
  then have "e \<in> H" using assms(4) [OF e(1)] e(2) by force
  then show "e \<in> set (take k evs)" using assms(1) k e(2) by (simp add: in_order_def)
qed

lemma calls_append: "n0 \<le> length (b_handled b) \<Longrightarrow> b_handled b' = b_handled b @ hs \<Longrightarrow>
    calls nm n0 b' = calls nm n0 b @ map snd (filter (\<lambda>x. fst x = nm) hs)"
  by (simp add: calls_def)

text \<open>Whatever does not concern the consumer leaves it where it is.\<close>

lemma following_frame:
  assumes fol: "following_at nm f c0 n0 c w" and ok: "log_ok (w_history w) (w_db w)"
    and hist: "w_history w' = w_history w @ N" "\<And>e. e \<in> set N \<Longrightarrow> last_seq (w_db w) < ev_Seq e" "last_seq (w_db w) \<le> last_seq (w_db w')"
    and pos: "position (w_db w') nm = position (w_db w) nm" and kept: "kept (w_history w') (w_db w') c"
    and handled: "b_handled (w_bus w') = b_handled (w_bus w) @ hs" "\<And>x. x \<in> set hs \<Longrightarrow> fst x \<noteq> nm"
    and durables: "\<And>d'. d' \<in> set (b_durables (w_bus w')) \<Longrightarrow> d_name d' = nm \<Longrightarrow>
      (\<exists>d \<in> set (b_durables (w_bus w)). rests d d') \<or> d_filter d' = f \<and> \<not> d_retired d' \<and> (d_phase d' = Unlaunched \<or> d_phase d' = Selecting)"
    and leaving: "\<And>x. x \<in> set (b_leaving (w_bus w')) \<Longrightarrow> fst x \<noteq> nm"
    and passes: "\<And>p. p \<in> set (w_passes w') \<Longrightarrow> p \<in> set (w_passes w) \<or> below nm c p"
  shows "following_at nm f c0 n0 c w'"
proof -
  define H H' L L' where "H = set (w_history w)" and "H' = set (w_history w')" and "L = last_seq (w_db w)" and "L' = last_seq (w_db w')"
  have n0: "n0 \<le> length (b_handled (w_bus w))" using fol by (simp add: following_at_def)
  have "filter (\<lambda>x. fst x = nm) hs = []" using handled(2) by (auto simp: filter_empty_conv)
  then have cs: "calls nm n0 (w_bus w') = calls nm n0 (w_bus w)" using calls_append [OF n0 handled(1)] by simp
  have sub: "H \<subseteq> H'" using hist(1) by (simp add: H_def H'_def)
  have low: "e \<in> H \<Longrightarrow> ev_Seq e \<le> L" for e using log_ok_seqs(1) [OF ok] by (simp add: H_def L_def)
  have new: "e \<in> H' \<Longrightarrow> e \<notin> H \<Longrightarrow> L < ev_Seq e" for e using hist(1,2) by (auto simp: H_def H'_def L_def)
  have c: "c \<le> L" and LL: "L \<le> L'" using fol hist(3) by (simp_all add: following_at_def L_def L'_def)
  define D where "D = set (calls nm n0 (w_bus w))"
  have io: "in_order H f c0 (calls nm n0 (w_bus w))" "D \<subseteq> {e \<in> H. wanted f e}" using fol by (simp_all add: following_at_def H_def D_def)
  have "in_order H' f c0 (calls nm n0 (w_bus w'))"
    unfolding cs by (rule in_order_grow [OF io(1) _ low new]) (use io(2) in \<open>auto simp: D_def\<close>)
  moreover have "e \<in> D" if "e \<in> H'" "c0 < ev_Seq e" "ev_Seq e \<le> c" "wanted f e" for e
  proof -
    have "e \<in> H" using new [OF that(1)] that(3) c by force
    then show ?thesis using fol that by (simp add: following_at_def H_def D_def)
  qed
  moreover have "d_filter d' = f \<and> \<not> d_retired d' \<and> on_track H' f D L' (d_hooked d') c (d_cursor d') (d_phase d')"
    if "d' \<in> set (b_durables (w_bus w'))" "d_name d' = nm" for d'
    using durables [OF that]
  proof (elim disjE bexE)
    fix d
    assume d: "d \<in> set (b_durables (w_bus w))" "rests d d'"
    then have "d_filter d = f" "\<not> d_retired d" "on_track H f D L (d_hooked d) c (d_cursor d) (d_phase d)"
      using fol that(2) by (auto simp: following_at_def H_def L_def D_def rests_def)
    then show ?thesis using on_track_rests [OF d(2)] on_track_grow [OF _ sub order_refl LL low new] d(2) by (auto simp: rests_def)
  qed auto
  moreover have "\<forall>p \<in> set (w_passes w'). below nm c p" using passes fol by (auto simp: following_at_def)
  ultimately show ?thesis using fol pos kept leaving c LL n0 handled(1) sub io(2)
    unfolding following_at_def cs by (auto simp: H_def H'_def L_def L'_def D_def)
qed

subsection \<open>Everything that can happen\<close>

definition handles :: "string \<Rightarrow> action \<Rightarrow> Bus \<Rightarrow> bool" where
  "handles nm a b \<longleftrightarrow> (\<exists>i now ch failed. a = ADeliver i now ch failed \<and> i < length (b_durables b) \<and> d_name (b_durables b ! i) = nm)"

definition passed_over :: "string \<Rightarrow> Filter \<Rightarrow> Bus \<Rightarrow> Bus \<Rightarrow> bool" where
  "passed_over nm f b b' \<longleftrightarrow> (\<exists>hs. b_handled b' = b_handled b @ hs \<and> (\<forall>x \<in> set hs. fst x \<noteq> nm)) \<and>
     (\<forall>x \<in> set (b_leaving b'). fst x \<noteq> nm) \<and>
     (\<forall>d' \<in> set (b_durables b'). d_name d' = nm \<longrightarrow> (\<exists>d \<in> set (b_durables b). rests d d') \<or>
        d_filter d' = f \<and> \<not> d_retired d' \<and> (d_phase d' = Unlaunched \<or> d_phase d' = Selecting))"

lemma passed_rests:
  assumes "\<forall>x \<in> set (b_leaving b). fst x \<noteq> nm" "same_settings b b'" "list_all2 rests (b_durables b) (b_durables b')"
  shows "passed_over nm f b b'"
  using assms rests_in [OF assms(3)] unfolding passed_over_def same_settings_def by (metis append_Nil2 empty_iff list.set(1))

lemma passed_same:
  assumes "\<forall>x \<in> set (b_leaving b). fst x \<noteq> nm" "set (b_leaving b') \<subseteq> set (b_leaving b)" "b_handled b' = b_handled b"
    "set (b_durables b') \<subseteq> set (b_durables b)"
  shows "passed_over nm f b b'"
  using assms rests_refl unfolding passed_over_def by (metis append_Nil2 empty_iff list.set(1) subset_iff)

lemma step_handled:
  assumes "deliver_step now ch failed b d = (b', d')"
  shows "\<exists>hs. b_handled b' = b_handled b @ hs \<and> (\<forall>x \<in> set hs. fst x = d_name d)"
proof -
  consider "b_handled b' = b_handled b @ []" | ev where "b_handled b' = b_handled b @ [(d_name d, ev)]"
    using deliver_effect(4) [OF assms] by auto
  then show ?thesis
  proof cases
    case 1
    then show ?thesis by (intro exI [of _ "[]"]) simp
  next
    case (2 ev)
    then show ?thesis by (intro exI [of _ "[(d_name d, ev)]"]) simp
  qed
qed

lemma act_passed:
  assumes ok: "loops_ok b" "proper_rows (b_store b)" "log_ok hist (b_store b)"
    and l: "leaves nm f a" "\<not> handles nm a b" "\<forall>x \<in> set (b_leaving b). fst x \<noteq> nm"
    and flt: "\<forall>d \<in> set (b_durables b). d_name d = nm \<longrightarrow> d_filter d = f"
  shows "passed_over nm f b (act a b)"
proof -
  have self: "\<exists>x \<in> set (b_durables b). rests x d" if "d \<in> set (b_durables b)" for d using that rests_refl by blast
  show ?thesis
  proof (cases a)
    case (APublish now source nm subject payload)
    then show ?thesis using passed_rests [OF l(3)] publish_effect(3,4) [where b = b] woken_rests by (simp add: PublishFrom_def)
  next
    case AAnnounce
    then show ?thesis using passed_rests [OF l(3)] Announce_effect(2,3) [where b = b] woken_rests by simp
  next
    case (ARegister now n g hooked)
    have "0 \<le> last_seq (b_store b)" using ok(3) by (simp add: log_ok_def)
    note e = register_effect [where P = "\<lambda>_. False" and now = now and nm = n and f = g and hooked = hooked and h = True, OF ok(2) this, simplified]
    have leave: "b_leaving (act a b) = b_leaving b" "b_handled (act a b) = b_handled b" using e(3) ARegister by (simp_all add: same_settings_def)
    show ?thesis using e(5)
    proof
      assume "b_durables (fst (bus_register now n g hooked True b)) = b_durables b"
      then show ?thesis using passed_same [OF l(3)] leave ARegister by simp
    next
      assume "\<exists>d. b_durables (fst (bus_register now n g hooked True b)) = b_durables b @ [d] \<and> \<not> Registered n b \<and> d_name d = n \<and>
         d_filter d = g \<and> \<not> d_retired d \<and> (d_phase d = Unlaunched \<or> b_started b \<and> d_phase d = Selecting)"
      then obtain d where d: "b_durables (act a b) = b_durables b @ [d]" "d_name d = n" "d_filter d = g" "\<not> d_retired d"
        "d_phase d = Unlaunched \<or> d_phase d = Selecting" using ARegister by auto
      have "\<exists>hs. b_handled (act a b) = b_handled b @ hs \<and> (\<forall>x \<in> set hs. fst x \<noteq> nm)" using leave by (intro exI [of _ "[]"]) simp
      then show ?thesis using d l(1,3) leave ARegister self by (auto simp: passed_over_def)
    qed
  next
    case (ASetFilter now n g)
    note e = SetFilter_effect [where now = now and nm = n and f = g, OF ok(2)]
    have eq: "\<exists>hs. b_handled (act a b) = b_handled b @ hs \<and> (\<forall>x \<in> set hs. fst x \<noteq> nm)" "b_leaving (act a b) = b_leaving b"
      using e(3) ASetFilter by (auto simp: same_settings_def intro: exI [of _ "[]"])
    have "\<exists>d \<in> set (b_durables b). rests d d'" if m: "d' \<in> set (b_durables (act a b))" and nmd: "d_name d' = nm" for d'
    proof (cases "d' \<in> set (b_durables b)")
      case False
      then obtain d where "d \<in> set (b_durables b)" "d_name d = n" "d' = d\<lparr>d_filter := g\<rparr>"
        using e(5) m ASetFilter by (auto split: if_splits)
      then show ?thesis using nmd l(1) flt ASetFilter by (intro bexI [of _ d]) (auto simp: rests_def)
    qed (use self in blast)
    then show ?thesis using eq l(3) by (simp add: passed_over_def)
  next
    case (AStart now)
    have "0 \<le> last_seq (b_store b)" "\<not> b_started b \<longrightarrow> (\<forall>d \<in> set (b_durables b). d_phase d = Unlaunched)"
      using ok by (simp_all add: log_ok_def loops_ok_def)
    then show ?thesis using AStart Start_effect [of b "\<lambda>_. False" now] passed_rests [OF l(3)] ok(2) by simp
  next
    case (AUnregister n)
    have "\<exists>hs. b_handled b = b_handled b @ hs \<and> (\<forall>x \<in> set hs. fst x \<noteq> nm)" by (intro exI [of _ "[]"]) simp
    then show ?thesis using l(1,3) remove_first_sub(1) [of n "b_durables b"] self AUnregister
      by (auto simp: passed_over_def Unregister_begin_def)
  next
    case (ARetire k)
    have "fst x \<noteq> nm" if "k < length (b_leaving b)" "x \<in> set ((b_leaving b)[k := map_prod id (map_option retire) (b_leaving b ! k)])" for x
    proof -
      have "x \<in> set (b_leaving b) \<or> fst x = fst (b_leaving b ! k)" using that(2) set_update_subset_insert by fastforce
      then show ?thesis using l(3) nth_mem [OF that(1)] by metis
    qed
    moreover have "\<exists>hs. b_handled b = b_handled b @ hs \<and> (\<forall>x \<in> set hs. fst x \<noteq> nm)" by (intro exI [of _ "[]"]) simp
    ultimately show ?thesis using ARetire l(3) self by (auto simp: passed_over_def Unregister_retire_def)
  next
    case (AUnregistered k)
    then show ?thesis using passed_same [OF l(3)] Unregister_end_effect(3,4,7) [where P = "\<lambda>_. False" and k = k and b = b] by simp
  next
    case (ADeliver i now ch failed)
    show ?thesis
    proof (cases "i < length (b_durables b)")
      case True
      define d where "d = b_durables b ! i"
      obtain b1 d1 where s: "deliver_step now ch failed b d = (b1, d1)" by (cases "deliver_step now ch failed b d")
      obtain st h where b1: "b1 = b\<lparr>b_store := st, b_handled := h\<rparr>" using deliver_effect(2) [OF s] by blast
      obtain hs where hs: "b_handled b1 = b_handled b @ hs" "\<forall>x \<in> set hs. fst x = d_name d" using step_handled [OF s] by blast
      have nm: "d_name d \<noteq> nm" using l(2) True ADeliver by (auto simp: handles_def d_def)
      have "d_name d1 = d_name d" using deliver_effect(1) [OF s] by (simp add: same_consumer_def)
      moreover have "set ((b_durables b)[i := d1]) \<subseteq> insert d1 (set (b_durables b))" by (rule set_update_subset_insert)
      ultimately show ?thesis using ADeliver True s hs b1 nm l(3) self
        by (fastforce simp: passed_over_def Deliver_def d_def [symmetric])
    qed (use ADeliver passed_same [OF l(3)] in \<open>simp add: Deliver_def\<close>)
  next
    case (ADeliverLeaving k now ch failed)
    show ?thesis
    proof (cases "k < length (b_leaving b) \<and> snd (b_leaving b ! k) \<noteq> None")
      case True
      then obtain n d where x: "b_leaving b ! k = (n, Some d)" by (metis not_None_eq prod.collapse)
      have mem: "(n, Some d) \<in> set (b_leaving b)" using True x by (metis nth_mem)
      have n: "n \<noteq> nm" "d_name d = n" using l(3) ok(1) mem by (force simp: loops_ok_def)+
      obtain b1 d1 where s: "deliver_step now ch failed b d = (b1, d1)" by (cases "deliver_step now ch failed b d")
      obtain st h where b1: "b1 = b\<lparr>b_store := st, b_handled := h\<rparr>" using deliver_effect(2) [OF s] by blast
      obtain hs where hs: "b_handled b1 = b_handled b @ hs" "\<forall>x \<in> set hs. fst x = d_name d" using step_handled [OF s] by blast
      have "set ((b_leaving b)[k := (n, Some d1)]) \<subseteq> insert (n, Some d1) (set (b_leaving b))" by (rule set_update_subset_insert)
      then show ?thesis using ADeliverLeaving True s hs b1 n l(3) self x
        by (fastforce simp: passed_over_def Deliver_leaving_def)
    next
      case False
      then have "act a b = b" using ADeliverLeaving by (auto simp: Deliver_leaving_def split: prod.splits option.splits)
      then show ?thesis using passed_same [OF l(3)] by simp
    qed
  next
    case (ARestart opts)
    then show ?thesis using passed_same [OF l(3)] restart_effect(3-5) by simp
  qed (use passed_same [OF l(3)] in \<open>auto simp: Subscribe_def unsubscribe_def bus_Stop_def bus_trim_def with_db_def\<close>)
qed

end
