(* ===== verification/Bus_Progress.thy ===== *)
theory Bus_Progress
  imports Bus_Delivery
begin

text \<open>
  A delivery loop that is left alone catches up: with a working database and a handler that succeeds, the
  steps of a drain are those of a small machine on the log, the cursor and the phase, and that machine
  comes to rest above the last event of the log.
\<close>

subsection \<open>The machine\<close>

fun next_phase :: "Filter \<Rightarrow> nat \<Rightarrow> Event list \<Rightarrow> int \<times> phase \<Rightarrow> int \<times> phase" where
  "next_phase f k E (c, Looping) = (c, Fetching)"
| "next_phase f k E (c, Fetching) = (c, if take k (above c E) = [] then Selecting else Scanning (take k (above c E)) 0)"
| "next_phase f k E (c, Scanning [] sk) = (c, if sk = 0 then Looping else Moving sk Looping)"
| "next_phase f k E (c, Scanning (ev # evs) sk) =
     (c, if \<not> wanted f ev then Scanning evs (ev_Seq ev) else if sk = 0 then Handling ev evs else Moving sk (Handling ev evs))"
| "next_phase f k E (c, Handling ev evs) = (c, Moving (ev_Seq ev) (Cleared evs))"
| "next_phase f k E (c, Cleared evs) = (c, Scanning evs 0)"
| "next_phase f k E (c, Moving s p) = (s, p)"
| "next_phase f k E (c, p) = (c, p)"

fun fits :: "Event list \<Rightarrow> int \<Rightarrow> phase \<Rightarrow> bool" where
  "fits E c Looping = True"
| "fits E c Fetching = True"
| "fits E c (Scanning evs sk) = (set evs \<subseteq> set E \<and> (\<forall>e \<in> set evs. max c sk < ev_Seq e) \<and> ascending evs \<and>
     (sk \<noteq> 0 \<longrightarrow> c < sk \<and> sk \<in> ev_Seq ` set E))"
| "fits E c (Handling ev evs) = (ev \<in> set E \<and> c < ev_Seq ev \<and> set evs \<subseteq> set E \<and> (\<forall>e \<in> set evs. ev_Seq ev < ev_Seq e) \<and> ascending evs)"
| "fits E c (Cleared evs) = (set evs \<subseteq> set E \<and> (\<forall>e \<in> set evs. c < ev_Seq e) \<and> ascending evs)"
| "fits E c (Moving s p) = (c < s \<and> s \<in> ev_Seq ` set E \<and> fits E s p)"
| "fits E c _ = False"

fun rank :: "Event list \<Rightarrow> phase \<Rightarrow> nat" where
  "rank E Looping = 2 * length E + 5"
| "rank E Fetching = 2 * length E + 4"
| "rank E (Scanning evs sk) = (if evs = [] \<and> sk = 0 then 2 * length E + 6 else 2 * length evs + 1)"
| "rank E (Handling ev evs) = 2 * length evs + 2"
| "rank E (Cleared evs) = (if evs = [] then 2 * length E + 7 else 2 * length evs + 2)"
| "rank E _ = 0"

lemma above_less:
  assumes "c < s" "s \<in> ev_Seq ` set E"
  shows "length (above s E) < length (above c E)"
proof -
  obtain e where "e \<in> set E" "ev_Seq e = s" using assms(2) by blast
  then show ?thesis unfolding above_def using assms(1) by (intro length_filter_less [of e]) auto
qed

lemma next_fits:
  assumes "fits E c p" "0 < k" "ascending E" "0 \<le> c" "\<forall>e \<in> set E. 0 < ev_Seq e"
  shows "next_phase f k E (c, p) = (c, Selecting) \<and> (\<forall>e \<in> set E. ev_Seq e \<le> c) \<or>
    fits E (fst (next_phase f k E (c, p))) (snd (next_phase f k E (c, p))) \<and> 0 \<le> fst (next_phase f k E (c, p)) \<and>
    (next_phase f k E (c, p), (c, p)) \<in> measures [\<lambda>(c, p). length (above c E), \<lambda>(c, p). rank E p]"
proof (cases "(f, k, E, (c, p))" rule: next_phase.cases)
  case (2 f k E c)
  then show ?thesis
  proof (cases "take k (above c E) = []")
    case True
    then have "above c E = []" using assms(2) 2 by simp
    then show ?thesis using 2 True by (auto simp: above_def filter_empty_conv not_less)
  next
    case False
    have "ascending (take k (above c E))" using assms(3) 2 by (simp add: ascending_take)
    moreover have "length (take k (above c E)) \<le> length E" 
      using length_filter_le [of "\<lambda>e. c < ev_Seq e" E] by (simp add: above_def min_le_iff_disj)
    ultimately show ?thesis using 2 False assms(4) by (auto simp: above_def dest!: in_set_takeD)
  qed
next
  case (4 f k E c ev evs sk)
  then have asc: "ascending evs" "\<forall>e \<in> set evs. ev_Seq ev < ev_Seq e" using assms(1) by (auto simp: ascending_def)
  have pos: "0 < ev_Seq ev" using assms(1,5) 4 by auto
  then show ?thesis using 4 assms(1,4) asc by (auto split: if_splits)
next
  case (7 f k E c s p)
  then show ?thesis using assms(1,4) above_less [of c s E] by auto
qed (use assms in auto)

subsection \<open>The loop follows the machine\<close>

text \<open>A consumer in a phase, enabled at a cursor in the store; in a drain, the loop has read that cursor.\<close>

definition poised :: "nat \<Rightarrow> string \<Rightarrow> Filter \<Rightarrow> nat \<Rightarrow> Event list \<Rightarrow> Bus \<Rightarrow> int \<Rightarrow> phase \<Rightarrow> bool" where
  "poised i nm f k E b c p \<longleftrightarrow> i < length (b_durables b) \<and> d_name (b_durables b ! i) = nm \<and> d_filter (b_durables b ! i) = f \<and>
     \<not> d_retired (b_durables b ! i) \<and> \<not> ctx_done b (b_durables b ! i) \<and>
     d_phase (b_durables b ! i) = p \<and> position (b_store b) nm = Some (c, True) \<and>
     proper_rows (b_store b) \<and> db_faults (b_store b) = [] \<and> bus_events (b_store b) = E \<and>
     k = nat (if b_batchSize b \<le> 0 then 100 else b_batchSize b)"

definition draining :: "nat \<Rightarrow> string \<Rightarrow> Filter \<Rightarrow> nat \<Rightarrow> Event list \<Rightarrow> Bus \<Rightarrow> int \<Rightarrow> phase \<Rightarrow> bool" where
  "draining i nm f k E b c p \<longleftrightarrow> poised i nm f k E b c p \<and> d_cursor (b_durables b ! i) = c"

lemma exec_works: "db_faults d = [] \<Longrightarrow> exec d f = f d"
  by (simp add: exec_def)

lemma with_db_same: "fst (f (b_store b)) = b_store b \<Longrightarrow> with_db b f = (b, snd (f (b_store b)))"
  by (cases b) (simp add: with_db_def)

lemma poised_Deliver:
  assumes "poised i nm f k E b c p" "deliver_step now Ticked None b (b_durables b ! i) = (b1, d1)"
    "d_phase d1 = p'" "position (b_store b1) nm = Some (c', True)" "proper_rows (b_store b1)"
    "db_faults (b_store b1) = []" "bus_events (b_store b1) = E"
  shows "poised i nm f k E (Deliver i now Ticked None b) c' p' \<and> b_durables (Deliver i now Ticked None b) ! i = d1"
proof -
  have i: "i < length (b_durables b)" using assms(1) by (simp add: poised_def)
  obtain st h where b1: "b1 = b\<lparr>b_store := st, b_handled := h\<rparr>" using deliver_effect(2) [OF assms(2)] by blast
  have "same_consumer (b_durables b ! i) d1" using deliver_effect(1) [OF assms(2)] .
  then show ?thesis using assms i b1
    by (simp add: poised_def Deliver_def ctx_done_def same_consumer_def)
qed

lemma draining_Deliver:
  assumes "draining i nm f k E b c p" "deliver_step now Ticked None b (b_durables b ! i) = (b1, d1)"
    "d_cursor d1 = c'" "d_phase d1 = p'" "position (b_store b1) nm = Some (c', True)" "proper_rows (b_store b1)"
    "db_faults (b_store b1) = []" "bus_events (b_store b1) = E"
  shows "draining i nm f k E (Deliver i now Ticked None b) c' p'"
  using poised_Deliver [OF _ assms(2,4-8)] assms(1,3) unfolding draining_def by blast

text \<open>A step that leaves the store alone.\<close>

lemma poised_same:
  assumes "poised i nm f k E b c p" "deliver_step now Ticked None b (b_durables b ! i) = (b1, d1)" "d_phase d1 = p'" "b_store b1 = b_store b"
  shows "poised i nm f k E (Deliver i now Ticked None b) c p'" "d_cursor d1 = c \<Longrightarrow> draining i nm f k E (Deliver i now Ticked None b) c p'"
    "b_store (Deliver i now Ticked None b) = b_store b"
proof -
  have "position (b_store b1) nm = Some (c, True)" "proper_rows (b_store b1)" "db_faults (b_store b1) = []" "bus_events (b_store b1) = E"
    using assms(1,4) by (simp_all add: poised_def)
  note both = poised_Deliver [OF assms(1-3) this]
  show "poised i nm f k E (Deliver i now Ticked None b) c p'" using both by blast
  show "d_cursor d1 = c \<Longrightarrow> draining i nm f k E (Deliver i now Ticked None b) c p'" using both unfolding draining_def by blast
  show "b_store (Deliver i now Ticked None b) = b_store b" using assms(1,2,4) by (simp add: Deliver_def poised_def)
qed

lemma draining_same:
  assumes "draining i nm f k E b c p" "deliver_step now Ticked None b (b_durables b ! i) = (b1, d1)"
    "d_cursor d1 = c" "d_phase d1 = p'" "b_store b1 = b_store b"
  shows "draining i nm f k E (Deliver i now Ticked None b) c p'"
  using poised_same(2) [OF _ assms(2,4,5)] assms(1,3) unfolding draining_def by blast

lemma row_there:
  assumes "position d nm = Some (c, True)"
  obtains r where "consumer_row d nm = Some r" "con_Cursor r = c" "con_Enabled r"
  using assms by (auto simp: position_Some)

lemma draining_scan:
  assumes "draining i nm f k E b c (Scanning (ev # evs) sk)"
  shows "draining i nm f k E (Deliver i now Ticked None b) c (snd (next_phase f k E (c, Scanning (ev # evs) sk)))"
proof -
  define d where "d = b_durables b ! i"
  have a: "\<not> ctx_done b d" "d_phase d = Scanning (ev # evs) sk" "d_filter d = f" "\<not> d_retired d" "db_faults (b_store b) = []"
    "position (b_store b) (d_name d) = Some (c, True)" "d_cursor d = c" using assms by (auto simp: draining_def poised_def d_def)
  obtain r where r: "consumer_row (b_store b) (d_name d) = Some r" "con_Enabled r" using row_there [OF a(6)] by blast
  define d1 where "d1 = (if time_sub now (d_lastCheck d) < b_pollInterval b then d else d\<lparr>d_lastCheck := now, d_enabled := True\<rparr>)"
  have "GetBusConsumer (b_store b) (d_name d) = (b_store b, Inr (Some r))" using a(5) r(1) by (simp add: GetBusConsumer_def exec_works)
  then have k: "killed now b d = (b, d1, Inr False)" "same_consumer d d1" "d_cursor d1 = c"
    using a(7) r(2) by (simp_all add: killed_def with_db_same Let_def d1_def)
  have d1: "d_filter d1 = f" "\<not> d_retired d1" using k(2) a(3,4) by (auto simp: same_consumer_def)
  show ?thesis
  proof (rule draining_same [OF assms])
    show "deliver_step now Ticked None b (b_durables b ! i) = (b, look_at ev evs sk d1)"
      using a k(1) by (simp add: d_def [symmetric] deliver_step_def)
    show "d_cursor (look_at ev evs sk d1) = c" using k(3) by (simp add: look_at_def advance_to_def)
    show "d_phase (look_at ev evs sk d1) = snd (next_phase f k E (c, Scanning (ev # evs) sk))"
      using d1 by (simp add: look_at_def advance_to_def wanted_def)
  qed simp
qed

lemma draining_move:
  assumes "draining i nm f k E b c (Moving s p)" "0 \<le> s"
  shows "draining i nm f k E (Deliver i now Ticked None b) s p"
proof -
  define d where "d = b_durables b ! i"
  have a: "d_phase d = Moving s p" "db_faults (b_store b) = []" "d_name d = nm" "position (b_store b) nm = Some (c, True)"
    "proper_rows (b_store b)" "bus_events (b_store b) = E" using assms(1) by (auto simp: draining_def poised_def d_def)
  define st where "st = fst (SetBusConsumerCursor (b_store b) nm s now)"
  have sc: "SetBusConsumerCursor (b_store b) nm s now = (st, Inr True)"
  proof -
    have eq: "SetBusConsumerCursor (b_store b) nm s now = (st, Inr (list_ex (\<lambda>c. con_Name c = nm \<and> con_Enabled c) (bus_consumers (b_store b))))"
      using a(2) by (simp add: SetBusConsumerCursor_def exec_works st_def)
    show ?thesis using eq sql_log.set_cursor_applied [OF a(5) eq] a(4) by (auto simp: position_Some)
  qed
  obtain r where "consumer_row (b_store b) nm = Some r" "con_Enabled r" using row_there [OF a(4)] by blast
  then have "position st nm = Some (s, True)" using SetBusConsumerCursor_row(1) [OF sc, of nm] by (simp add: position_Some)
  moreover have "proper_rows st" using row_statements(2) [of "\<lambda>_. False" nm s "b_store b" now] assms(2) a(5) by (simp add: rows_step_def st_def)
  moreover have "db_faults st = []" using a(2) by (simp add: st_def SetBusConsumerCursor_def exec_works)
  moreover have "bus_events st = E" using SetBusConsumerCursor_row(2) [OF sc] a(6) by simp
  moreover have "deliver_step now Ticked None b (b_durables b ! i) = (b\<lparr>b_store := st\<rparr>, d\<lparr>d_cursor := s, d_phase := p\<rparr>)"
    using a sc by (simp add: d_def [symmetric] deliver_step_def move_step_def with_db_def)
  ultimately show ?thesis using draining_Deliver [OF assms(1)] by simp
qed

lemma draining_next:
  assumes "draining i nm f k E b c p" "fits E c p" "0 \<le> c" "p = Looping \<longrightarrow> \<not> d_hooked (b_durables b ! i)"
  shows "draining i nm f k E (Deliver i now Ticked None b) (fst (next_phase f k E (c, p))) (snd (next_phase f k E (c, p)))"
proof -
  define d where "d = b_durables b ! i"
  have a: "\<not> ctx_done b d" "d_phase d = p" "\<not> d_retired d" "p = Looping \<longrightarrow> \<not> d_hooked d" "db_faults (b_store b) = []" "bus_events (b_store b) = E" "d_cursor d = c"
    "k = nat (if b_batchSize b \<le> 0 then 100 else b_batchSize b)"
    using assms(1,4) by (auto simp: draining_def poised_def d_def)
  note here = draining_same [OF assms(1), unfolded d_def [symmetric]]
  show ?thesis
  proof (cases p)
    case Looping
    have "draining i nm f k E (Deliver i now Ticked None b) c Fetching"
      using here [of now b "d\<lparr>d_phase := Fetching\<rparr>" Fetching] a Looping by (simp add: deliver_step_def loop_step_def)
    then show ?thesis by (simp add: Looping)
  next
    case Fetching
    define d1 where "d1 = (if take k (above c E) = [] then drained (clearFailure d) else d\<lparr>d_phase := Scanning (take k (above c E)) 0\<rparr>)"
    have s: "BusEventsSince (b_store b) c (b_batchSize b) = (b_store b, Inr (take k (above c E)))"
      using a by (simp add: BusEventsSince_def exec_works above_def)
    have step: "deliver_step now Ticked None b d = (b, d1)"
      using a s Fetching by (simp add: deliver_step_def fetch_step_def with_db_same d1_def)
    have "draining i nm f k E (Deliver i now Ticked None b) c (if take k (above c E) = [] then Selecting else Scanning (take k (above c E)) 0)"
      by (rule here [OF step]) (use a in \<open>simp_all add: d1_def drained_def clearFailure_def\<close>)
    then show ?thesis by (simp add: Fetching)
  next
    case (Scanning evs sk)
    show ?thesis
    proof (cases evs)
      case Nil
      have "draining i nm f k E (Deliver i now Ticked None b) c (if sk = 0 then Looping else Moving sk Looping)"
        using here [of now b "if sk \<noteq> 0 then advance_to sk Looping d else d\<lparr>d_phase := Looping\<rparr>"] a Scanning Nil
        by (simp add: deliver_step_def advance_to_def)
      then show ?thesis by (simp add: Scanning Nil)
    qed (use draining_scan assms(1) Scanning in auto)
  next
    case (Handling ev evs)
    have "draining i nm f k E (Deliver i now Ticked None b) c (Moving (ev_Seq ev) (Cleared evs))"
      using here [of now "b\<lparr>b_handled := b_handled b @ [(d_name d, ev)]\<rparr>" "advance_to (ev_Seq ev) (Cleared evs) d"] a Handling
      by (simp add: deliver_step_def handle_step_def advance_to_def)
    then show ?thesis by (simp add: Handling)
  next
    case (Cleared evs)
    have "draining i nm f k E (Deliver i now Ticked None b) c (Scanning evs 0)"
      using here [of now b "(clearFailure d)\<lparr>d_phase := Scanning evs 0\<rparr>"] a Cleared by (simp add: deliver_step_def clearFailure_def)
    then show ?thesis by (simp add: Cleared)
  next
    case (Moving s q)
    then show ?thesis using draining_move assms(1,2,3) by simp
  qed (use assms(2) in auto)
qed

text \<open>
  A property of the bus that the loop of a consumer brings about, whatever the clock shows at each of its
  steps.
\<close>

inductive brings :: "nat \<Rightarrow> (Bus \<Rightarrow> bool) \<Rightarrow> Bus \<Rightarrow> bool" for i P where
  here: "P b \<Longrightarrow> brings i P b"
| on: "(\<And>now. brings i P (Deliver i now Ticked None b)) \<Longrightarrow> brings i P b"

lemma brings_trans:
  assumes "brings i P b" "\<And>b. P b \<Longrightarrow> brings i Q b"
  shows "brings i Q b"
  using assms(1) by (induction rule: brings.induct) (auto intro: assms(2) brings.on)

lemma brings_step: "(\<And>now. P (Deliver i now Ticked None b)) \<Longrightarrow> brings i P b"
  by (rule brings.on) (rule brings.here)

definition along :: "nat \<Rightarrow> (nat \<Rightarrow> time) \<Rightarrow> nat \<Rightarrow> Bus \<Rightarrow> Bus" where
  "along i clock n b = fold (\<lambda>now. Deliver i now Ticked None) (map clock [0..<n]) b"

lemma along_Suc: "along i clock (Suc n) b = along i (\<lambda>k. clock (Suc k)) n (Deliver i (clock 0) Ticked None b)"
proof -
  have "map clock [0..<Suc n] = clock 0 # map (\<lambda>k. clock (Suc k)) [0..<n]" by (simp add: map_upt_Suc del: upt_Suc)
  then show ?thesis by (simp add: along_def)
qed

lemma brings_along: "brings i P b \<Longrightarrow> \<exists>n. P (along i clock n b)"
proof (induction arbitrary: clock rule: brings.induct)
  case (here b)
  then have "P (along i clock 0 b)" by (simp add: along_def)
  then show ?case by blast
next
  case (on b)
  obtain n where "P (along i (\<lambda>k. clock (Suc k)) n (Deliver i (clock 0) Ticked None b))" using on.IH by blast
  then show ?case using along_Suc by metis
qed

lemma hooked_stays: "d_hooked (b_durables (Deliver i now ch failed b) ! i) = d_hooked (b_durables b ! i)"
proof (cases "i < length (b_durables b)")
  case True
  obtain b1 d1 where s: "deliver_step now ch failed b (b_durables b ! i) = (b1, d1)" by fastforce
  then show ?thesis using deliver_effect(1) [OF s] True by (simp add: Deliver_def same_consumer_def)
qed (simp add: Deliver_def)

text \<open>The row is read when the loop prepares, and read again after the hook.\<close>

lemma poised_row:
  assumes "poised i nm f k E b c p"
  obtains r where "GetBusConsumer (b_store b) (d_name (b_durables b ! i)) = (b_store b, Inr (Some r))" "con_Cursor r = c" "con_Enabled r"
proof -
  have "position (b_store b) (d_name (b_durables b ! i)) = Some (c, True)" "db_faults (b_store b) = []" using assms by (auto simp: poised_def)
  then show ?thesis using that by (auto simp: position_Some GetBusConsumer_def exec_works)
qed

lemma poised_prepares:
  assumes "poised i nm f k E b c Preparing"
  shows "\<exists>r. draining i nm f k E (Deliver i now Ticked None b) c (Bounding r)" "b_store (Deliver i now Ticked None b) = b_store b"
proof -
  obtain r where r: "GetBusConsumer (b_store b) (d_name (b_durables b ! i)) = (b_store b, Inr (Some r))" "con_Cursor r = c" "con_Enabled r"
    using poised_row [OF assms] .
  define d1 where "d1 = (setPosition c True (b_durables b ! i))\<lparr>d_phase := Bounding r\<rparr>"
  have step: "deliver_step now Ticked None b (b_durables b ! i) = (b, d1)"
    using assms r by (auto simp: poised_def deliver_step_def prepare_step_def with_db_same d1_def)
  have d1: "d_phase d1 = Bounding r" "d_cursor d1 = c" by (simp_all add: d1_def setPosition_def)
  show "\<exists>r. draining i nm f k E (Deliver i now Ticked None b) c (Bounding r)" using poised_same(2) [OF assms step d1(1) refl d1(2)] by blast
  show "b_store (Deliver i now Ticked None b) = b_store b" using poised_same(3) [OF assms step d1(1) refl] .
qed

lemma draining_bounds:
  assumes "draining i nm f k E b c (Bounding r)"
  obtains earliest head where "BusBounds (b_store b) = (b_store b, Inr (earliest, head))"
    "draining i nm f k E (Deliver i now Ticked None b) c
       (let gap = gap_of (b_durables b ! i) earliest head in
        if d_hooked (b_durables b ! i) then Hooking r gap else (case gap of None \<Rightarrow> Ready | Some g \<Rightarrow> Gapping g))"
proof -
  have nf: "db_faults (b_store b) = []" using assms by (simp add: draining_def poised_def)
  obtain earliest head where bd: "BusBounds (b_store b) = (b_store b, Inr (earliest, head))"
    using nf by (metis (no_types, lifting) BusBounds_def exec_works surj_pair)
  define p' where "p' = (let gap = gap_of (b_durables b ! i) earliest head in
      if d_hooked (b_durables b ! i) then Hooking r gap else (case gap of None \<Rightarrow> Ready | Some g \<Rightarrow> Gapping g))"
  have "draining i nm f k E (Deliver i now Ticked None b) c p'"
    by (rule draining_same [OF assms, of now b "(b_durables b ! i)\<lparr>d_phase := p'\<rparr>"])
      (use assms bd in \<open>auto simp: draining_def poised_def deliver_step_def bounds_step_def with_db_same p'_def Let_def\<close>)
  then show ?thesis using that [OF bd] by (simp add: p'_def)
qed

lemma draining_hook:
  assumes "draining i nm f k E b c (Hooking r g)"
  shows "draining i nm f k E (Deliver i now Ticked None b) c Rereading"
  by (rule draining_same [OF assms, of now b "(b_durables b ! i)\<lparr>d_phase := Rereading\<rparr>"])
    (use assms in \<open>auto simp: draining_def poised_def deliver_step_def hook_step_def\<close>)

lemma draining_rereads:
  assumes "draining i nm f k E b c Rereading"
  shows "draining i nm f k E (Deliver i now Ticked None b) c Fetching"
proof -
  have p: "poised i nm f k E b c Rereading" using assms by (simp add: draining_def)
  obtain r where "GetBusConsumer (b_store b) (d_name (b_durables b ! i)) = (b_store b, Inr (Some r))" "con_Cursor r = c" "con_Enabled r"
    using poised_row [OF p] .
  then show ?thesis
    using assms by (intro draining_same [OF assms, of now b "(setPosition c True (b_durables b ! i))\<lparr>d_phase := Fetching\<rparr>"])
      (auto simp: draining_def poised_def deliver_step_def reread_step_def with_db_same setPosition_def)
qed

text \<open>With a hook, every round of the loop prepares: it reads the row and the bounds, calls the hook and reads the row again.\<close>

lemma hooked_prepares:
  assumes "poised i nm f k E b c Looping" "d_hooked (b_durables b ! i)"
  shows "brings i (\<lambda>b. draining i nm f k E b c Fetching) b"
proof -
  let ?hooked = "\<lambda>b. d_hooked (b_durables b ! i)"
  have p1: "brings i (\<lambda>b. poised i nm f k E b c Preparing \<and> ?hooked b) b"
  proof (rule brings_step, intro conjI)
    show "poised i nm f k E (Deliver i now Ticked None b) c Preparing" for now
      by (rule poised_same(1) [OF assms(1), of now b "(b_durables b ! i)\<lparr>d_phase := Preparing\<rparr>"])
        (use assms in \<open>auto simp: poised_def deliver_step_def loop_step_def\<close>)
  qed (use assms(2) in \<open>simp add: hooked_stays\<close>)
  have p2: "brings i (\<lambda>b. \<exists>r. draining i nm f k E b c (Bounding r) \<and> ?hooked b) b" if "poised i nm f k E b c Preparing \<and> ?hooked b" for b
    using that poised_prepares by (intro brings_step) (simp add: hooked_stays)
  have p3: "brings i (\<lambda>b. \<exists>r g. draining i nm f k E b c (Hooking r g)) b" if at: "\<exists>r. draining i nm f k E b c (Bounding r) \<and> ?hooked b" for b
  proof (rule brings_step)
    fix now
    obtain r where r: "draining i nm f k E b c (Bounding r)" "?hooked b" using at by blast
    then obtain e h where "draining i nm f k E (Deliver i now Ticked None b) c (Hooking r (gap_of (b_durables b ! i) e h))"
      using draining_bounds [OF r(1), of now thesis] by (auto simp: Let_def)
    then show "\<exists>r g. draining i nm f k E (Deliver i now Ticked None b) c (Hooking r g)" by blast
  qed
  have p4: "brings i (\<lambda>b. draining i nm f k E b c Rereading) b" if "\<exists>r g. draining i nm f k E b c (Hooking r g)" for b
    using that by (elim exE) (rule brings_step, rule draining_hook)
  have p5: "brings i (\<lambda>b. draining i nm f k E b c Fetching) b" if "draining i nm f k E b c Rereading" for b
    by (rule brings_step) (rule draining_rereads [OF that])
  show ?thesis by (rule brings_trans [OF brings_trans [OF brings_trans [OF brings_trans [OF p1 p2] p3] p4] p5])
qed

lemma draining_runs:
  assumes "draining i nm f k E b c p" "fits E c p" "0 \<le> c" "0 < k" "ascending E" "\<forall>e \<in> set E. 0 < ev_Seq e"
  shows "brings i (\<lambda>b. \<exists>c'. draining i nm f k E b c' Selecting \<and> (\<forall>e \<in> set E. ev_Seq e \<le> c')) b"
proof -
  let ?R = "measures [\<lambda>(c, p). length (above c E), \<lambda>(c, p). rank E p]"
  have "wf ?R" by simp
  then have "draining i nm f k E b (fst x) (snd x) \<Longrightarrow> fits E (fst x) (snd x) \<Longrightarrow> 0 \<le> fst x \<Longrightarrow>
      brings i (\<lambda>b. \<exists>c'. draining i nm f k E b c' Selecting \<and> (\<forall>e \<in> set E. ev_Seq e \<le> c')) b" for x b
  proof (induction x arbitrary: b rule: wf_induct_rule)
    case (less x)
    obtain c p where x: "x = (c, p)" by (cases x)
    show ?case
    proof (cases "p = Looping \<and> d_hooked (b_durables b ! i)")
      case True
      have fetch: "((c, Fetching), x) \<in> ?R" using True by (simp add: x)
      show ?thesis
        by (rule brings_trans [OF hooked_prepares]) (use True less.prems x less.IH [OF fetch] in \<open>auto simp: draining_def\<close>)
    next
      case False
      define y where "y = next_phase f k E x"
      have d: "draining i nm f k E (Deliver i now Ticked None b) (fst y) (snd y)" for now
        using draining_next [of i nm f k E b c p now] less.prems x False by (auto simp: y_def)
      consider "y = (c, Selecting)" "\<forall>e \<in> set E. ev_Seq e \<le> c" | "fits E (fst y) (snd y)" "0 \<le> fst y" "(y, x) \<in> ?R"
        using next_fits [OF _ assms(4,5) _ assms(6), of c p] less.prems x by (auto simp: y_def)
      then show ?thesis
      proof cases
        case 1
        then show ?thesis using d by (intro brings_step) auto
      next
        case 2
        show ?thesis by (rule brings.on, rule less.IH [OF 2(3) d 2(1,2)])
      qed
    qed
  qed
  from this [of b "(c, p)"] show ?thesis using assms(1-3) by simp
qed

end
