(* ===== verification/Bus_Working.thy ===== *)
theory Bus_Working
  imports Bus_Progress
begin

text \<open>
  The bus while the database works: the announce loop has a closed form, and a publish is an append followed
  by announcing everything after the mark. At the end, the concrete worlds the properties are tried on.
\<close>

subsection \<open>A working database\<close>

lemma above_last:
  assumes "ascending E" "0 < k" "above c E \<noteq> []"
  shows "above (ev_Seq (last (take k (above c E)))) E = drop k (above c E)"
proof -
  define A l where "A = above c E" and "l = last (take k A)"
  have asc: "sorted_wrt (\<lambda>e e'. ev_Seq e < ev_Seq e') (take k A @ drop k A)"
    using ascending_above [OF assms(1), of c] by (simp add: ascending_def A_def)
  have l: "l \<in> set (take k A)" using assms(2,3) by (simp add: l_def A_def)
  have upto: "e \<in> set (take k A) \<Longrightarrow> ev_Seq e \<le> ev_Seq l" for e
  proof -
    assume e: "e \<in> set (take k A)"
    have "take k A = butlast (take k A) @ [l]" using l by (simp add: l_def append_butlast_last_id [symmetric] del: append_butlast_last_id) (metis append_butlast_last_id empty_iff list.set(1))
    then show ?thesis using asc e by (metis (no_types, lifting) Un_iff empty_iff insert_iff list.set(1,2) order.refl less_imp_le set_append sorted_wrt_append)
  qed
  have "c < ev_Seq l" using in_set_takeD [OF l] by (simp add: A_def above_def)
  then have "above (ev_Seq l) E = above (ev_Seq l) A" by (auto simp: A_def above_def intro: filter_cong)
  also have "\<dots> = above (ev_Seq l) (take k A @ drop k A)" by simp
  also have "\<dots> = drop k A"
  proof -
    have "above (ev_Seq l) (take k A) = []" using upto by (force simp: above_def filter_empty_conv)
    moreover have "above (ev_Seq l) (drop k A) = drop k A" using asc l unfolding above_def filter_id_conv sorted_wrt_append by blast
    ultimately show ?thesis unfolding above_def filter_append by simp
  qed
  finally show ?thesis by (simp add: A_def l_def)
qed

text \<open>While the database works, the loop announces everything after the mark, whatever the size of a batch.\<close>

lemma announce_loop_all:
  assumes "db_faults (b_store b) = []" "ascending (bus_events (b_store b))"
  shows "announce_loop fb b = fold announce_one (above (b_announced b) (bus_events (b_store b))) b"
  using assms
proof (induction fb b rule: announce_loop.induct)
  case (1 fb b)
  define n where "n = b_batchSize b"
  define k where "k = nat (if n \<le> 0 then 100 else n)"
  define A where "A = above (b_announced b) (bus_events (b_store b))"
  have k: "0 < k" "\<And>m. int m < n \<Longrightarrow> m < k" by (auto simp: k_def)
  have r: "with_db b (\<lambda>s. BusEventsSince s (b_announced b) (b_batchSize b)) = (b, Inr (take k A))"
    using 1(2) by (subst with_db_same) (simp_all add: BusEventsSince_def exec_works k_def n_def A_def above_def)
  define b2 where "b2 = fold announce_one (take k A) b"
  have st: "b_store b2 = b_store b" by (simp add: b2_def announce_all)
  have eq: "announce_loop fb b = (if take k A = [] then b else if int (length (take k A)) < n then b2 else announce_loop fb b2)"
    by (subst announce_loop.simps) (simp add: r b2_def n_def Let_def)
  show ?case
  proof (cases "A = [] \<or> int (length (take k A)) < n")
    case True
    then have "take k A = A" using k by (auto simp: take_all_iff) (metis k(2) length_take less_irrefl min_def nat_le_linear take_all)
    then show ?thesis using eq True b2_def A_def by auto
  next
    case False
    have "b_announced b2 = ev_Seq (last (take k A))" using False k announce_all(2) [of "take k A" b] by (simp add: b2_def)
    then have "above (b_announced b2) (bus_events (b_store b2)) = drop k A"
      using above_last [OF 1(3) k(1)] False st by (simp add: A_def)
    moreover have "announce_loop fb b2 = fold announce_one (above (b_announced b2) (bus_events (b_store b2))) b2"
      using 1(1) [OF r [symmetric] refl _ b2_def] False k(1) 1(2,3) st by (simp add: n_def)
    ultimately have "announce_loop fb b = fold announce_one (drop k A) (fold announce_one (take k A) b)"
      using eq False k(1) by (simp add: b2_def)
    moreover have "fold announce_one (take k A @ drop k A) b = fold announce_one (drop k A) (fold announce_one (take k A) b)"
      by (simp only: fold_append comp_apply)
    ultimately show ?thesis by (simp add: A_def [symmetric])
  qed
qed

definition calls_of :: "ephemeralSub list \<Rightarrow> Event \<Rightarrow> (nat \<times> Event) list" where
  "calls_of subs e = map (\<lambda>s. (sub_id s, e)) (filter (\<lambda>s. Matches (sub_filter s) (ev_Name e)) subs)"

lemma announce_fold_calls:
  "b_told (fold announce_one evs b) = b_told b @ concat (map (calls_of (b_ephemeral b)) evs)"
  "b_ephemeral (fold announce_one evs b) = b_ephemeral b"
  by (induction evs arbitrary: b) (simp_all add: announce_one_def fanoutEphemeral_def calls_of_def)

text \<open>A publish that the database takes in, step by step.\<close>

definition stored_event :: "time \<Rightarrow> string \<Rightarrow> string \<Rightarrow> string \<Rightarrow> string option option \<Rightarrow> int \<Rightarrow> Event" where
  "stored_event now source nm subject payload seq =
     \<lparr>ev_Seq = seq, ev_Name = nm, ev_Subject = subject, ev_Payload = (case payload of Some (Some raw) \<Rightarrow> raw | _ \<Rightarrow> []),
      ev_Source = source, ev_CreatedAt = formatStoredTime now\<rparr>"

lemma PublishFrom_works:
  fixes now :: time and source subject :: string
  assumes "b_stored b" "db_faults (b_store b) = []" "last_seq (b_store b) \<noteq> max_seq" "TrimSpace nm \<noteq> []" "payload \<noteq> Some None"
  defines "seq \<equiv> last_seq (b_store b) + 1"
  defines "b1 \<equiv> b\<lparr>b_store := b_store b\<lparr>bus_events := bus_events (b_store b) @ [stored_event now source nm subject payload seq], last_seq := seq\<rparr>\<rparr>"
  shows "\<exists>ev. PublishFrom now source nm subject payload b = (wakeDurables nm (announceLocked (Some ev) b1), Inr seq)"
  using assms(1-5)
  by (auto simp: PublishFrom_def publish_def new_event_def Let_def with_db_def AppendBusEvent_def exec_works appendBusEventWith_def appended_def
      b1_def seq_def stored_event_def split: option.splits)

subsection \<open>Concrete worlds\<close>

lemma reachable_run: "reachable_world w \<Longrightarrow> reachable_world (run acts w)"
  unfolding run_def by (induction acts arbitrary: w) (auto intro: reachable_world.performed)

definition demo_options :: bus_Options where
  "demo_options = \<lparr>bo_Store = None, bo_Retention = 0, bo_BatchSize = 2, bo_PollInterval = 0, bo_RetryBase = 0,
     bo_RetryCap = 0, bo_Compactable = [''b'']\<rparr>"

text \<open>A consumer registered and started, a subscriber, and a bus whose first statement failed.\<close>

definition demo_world :: world where
  "demo_world = run [ARegister 0 ''log'' [''a.*''] False, AStart 0] (fresh_world demo_options [])"

definition demo_audience :: world where
  "demo_audience = run [ASubscribe [''a.*''], ASubscribe [''b'']] (fresh_world demo_options [])"

definition demo_unmarked :: world where
  "demo_unmarked = run [ASubscribe []] (fresh_world demo_options [True])"

lemma demo_reachable [simp]: "reachable_world demo_world" "reachable_world demo_audience" "reachable_world demo_unmarked"
  unfolding demo_world_def demo_audience_def demo_unmarked_def by (rule reachable_run, rule reachable_world.fresh)+

lemmas demo_defs = run_def fresh_world_def demo_options_def acted_def Let_def bus_register_def bus_New_def markHead_def
  with_db_def BusBounds_def exec_def no_store_def newDurable_def Registered_def bus_Start_def initConsumer_def GetBusConsumer_def
  SaveBusConsumer_def consumer_row_def consumer_for_def Filter_String_def setPosition_def launchLocked_def TrimSpace_graphic graphic_def
  Subscribe_def

lemma demo_position: "position (w_db demo_world) ''log'' = Some (0, True)" "last_seq (w_db demo_world) = 0" "w_history demo_world = []"
  by (simp_all add: demo_world_def demo_defs position_def)

end
