(* ===== verification/Bus_Theorems.thy ===== *)
theory Bus_Theorems
  imports Bus_Working
begin

text \<open>
  The properties of the event bus: delivery at least once and in order, that retention never takes an event
  from a consumer that has not read it, that the loop of a consumer catches up, and what goes wrong.
\<close>

subsection \<open>The steps of the world keep a followed consumer\<close>

lemma enable_position:
  assumes "position d nm = Some (c, True)"
  shows "position (fst (SetBusConsumerEnabled d nm True t)) nm = Some (c, True)"
proof -
  obtain r where "consumer_row d nm = Some r" "con_Cursor r = c" using assms by (auto simp: position_Some)
  then show ?thesis using assms by (auto simp: SetBusConsumerEnabled_def exec_eq row_on_row position_Some)
qed

lemma act_position:
  assumes "loops_ok b" "proper_rows (b_store b)" "log_ok hist (b_store b)" "position (b_store b) nm = Some (c, True)"
    "leaves nm f a" "\<not> handles nm a b" "\<forall>x \<in> set (b_leaving b). fst x \<noteq> nm"
  shows "position (b_store (act a b)) nm = Some (c, True)"
proof (cases "\<exists>now. a = AEnable now nm True")
  case True
  then show ?thesis using enable_position [OF assms(4)] by (auto simp: with_db_def)
next
  case False
  have "\<not> touches b a nm" using assms(5-7) False nth_mem by (cases a) (fastforce simp: handles_def)+
  then have "rows_step (\<lambda>n. n = nm) (b_store b) (b_store (act a b))"
    using act_tables [OF assms(1,2), of "\<lambda>n. n = nm" a] assms(3,4) by (auto simp: log_ok_def position_Some)
  then show ?thesis using assms(4) by (simp add: rows_step_def)
qed

lemma act_kept:
  assumes "loops_ok b" "proper_rows (b_store b)" "log_ok hist (b_store b)" "position (b_store b) nm = Some (c, True)" "kept hist (b_store b) c"
  shows "kept (hist @ filter (\<lambda>e. last_seq (b_store b) < ev_Seq e) (bus_events (b_store (act a b)))) (b_store (act a b)) c"
    "last_seq (b_store b) \<le> last_seq (b_store (act a b))"
proof -
  have "(e \<in> set (bus_events (b_store b)) \<longrightarrow> c < ev_Seq e \<longrightarrow> e \<in> set (bus_events (b_store (act a b)))) \<and>
      last_seq (b_store b) \<le> last_seq (b_store (act a b))" for e
  proof (cases "\<exists>t. a = ATrim t")
    case True
    then obtain t where a: "a = ATrim t" by blast
    define tr where "tr = TrimBusEvents (b_store b) (t - b_retention b)"
    have st: "b_store (act a b) = fst tr" by (simp add: a tr_def bus_trim_def with_db_def)
    obtain r where r: "consumer_row (b_store b) nm = Some r" "con_Enabled r" "con_Cursor r = c" using assms(4) by (auto simp: position_Some)
    have "TrimBusEvents (b_store b) (t - b_retention b) = (fst tr, snd tr)" by (simp add: tr_def)
    note keeps = sql_log.trim_keeps [OF assms(2) this r(1,2), of e]
    have "last_seq (fst tr) = last_seq (b_store b)" using Trim_tables(2) by (simp add: tr_def)
    then show ?thesis using keeps r(3) unfolding st by simp
  next
    case False
    then have "log_step (b_store b) (b_store (act a b))"
      using act_tables [OF assms(1,2), of "\<lambda>_. False" a] assms(3) by (auto simp: log_ok_def)
    then show ?thesis by (auto simp: log_step_def)
  qed
  then show "kept (hist @ filter (\<lambda>e. last_seq (b_store b) < ev_Seq e) (bus_events (b_store (act a b)))) (b_store (act a b)) c"
    "last_seq (b_store b) \<le> last_seq (b_store (act a b))" using assms(5) by (auto simp: kept_def)
qed

lemma act_following:
  assumes "world_ok w" "following_at nm f c0 n0 c w" "leaves nm f a" "\<not> handles nm a (w_bus w)"
  shows "following_at nm f c0 n0 c (acted a w)"
proof -
  define b where "b = w_bus w"
  have ok: "loops_ok b" "proper_rows (b_store b)" "log_ok (w_history w) (b_store b)" using assms(1) by (simp_all add: world_ok_def b_def)
  have fo: "position (b_store b) nm = Some (c, True)" "kept (w_history w) (b_store b) c" "\<forall>x \<in> set (b_leaving b). fst x \<noteq> nm"
    "\<forall>d \<in> set (b_durables b). d_name d = nm \<longrightarrow> d_filter d = f" using assms(2) by (auto simp: following_at_def b_def)
  have pass: "passed_over nm f b (act a b)" by (rule act_passed [OF ok assms(3) _ fo(3,4)]) (use assms(4) in \<open>simp add: b_def\<close>)
  then obtain hs where hs: "b_handled (act a b) = b_handled b @ hs" "\<And>x. x \<in> set hs \<Longrightarrow> fst x \<noteq> nm" by (auto simp: passed_over_def)
  show ?thesis
  proof (rule following_frame [OF assms(2) ok(3) [unfolded b_def]])
    show "w_history (acted a w) = w_history w @ filter (\<lambda>e. last_seq (w_db w) < ev_Seq e) (bus_events (b_store (act a (w_bus w))))"
      by (simp add: acted_def Let_def)
    show "kept (w_history (acted a w)) (w_db (acted a w)) c"
      using act_kept(1) [OF ok fo(1,2), of a] by (simp add: acted_def Let_def b_def)
    show "last_seq (w_db w) \<le> last_seq (w_db (acted a w))"
      using act_kept(2) [OF ok fo(1,2), of a] by (simp add: acted_def Let_def b_def)
    show "position (w_db (acted a w)) nm = position (w_db w) nm"
      using act_position [OF ok fo(1) assms(3) _ fo(3)] assms(4) fo(1) by (simp add: acted_def Let_def b_def)
    show "b_handled (w_bus (acted a w)) = b_handled (w_bus w) @ hs" using hs(1) by (simp add: acted_def Let_def b_def)
    show "d' \<in> set (b_durables (w_bus (acted a w))) \<Longrightarrow> d_name d' = nm \<Longrightarrow> (\<exists>d \<in> set (b_durables (w_bus w)). rests d d') \<or>
        d_filter d' = f \<and> \<not> d_retired d' \<and> (d_phase d' = Unlaunched \<or> d_phase d' = Selecting)" for d'
      using pass by (simp add: acted_def Let_def b_def passed_over_def)
    show "x \<in> set (b_leaving (w_bus (acted a w))) \<Longrightarrow> fst x \<noteq> nm" for x using pass by (simp add: acted_def Let_def b_def passed_over_def)
    show "p \<in> set (w_passes (acted a w)) \<Longrightarrow> p \<in> set (w_passes w) \<or> below nm c p" for p
      by (simp add: acted_def Let_def split: action.splits)
  qed (use hs(2) in auto)
qed

lemma in_order_snoc:
  assumes "in_order H f c0 evs" "\<And>e. e \<in> H \<Longrightarrow> c0 < ev_Seq e \<Longrightarrow> ev_Seq e < ev_Seq ev \<Longrightarrow> wanted f e \<Longrightarrow> e \<in> set evs"
  shows "in_order H f c0 (evs @ [ev])"
  using assms by (auto simp: in_order_def nth_append less_Suc_eq)

lemma below_mono: "below nm c p \<Longrightarrow> c \<le> c' \<Longrightarrow> below nm c' p"
  by (cases p) force+

lemma handles_following:
  assumes "world_ok w" "following_at nm f c0 n0 c w" "handles nm a (w_bus w)"
  shows "\<exists>c' \<ge> c. following_at nm f c0 n0 c' (acted a w)"
proof -
  define b where "b = w_bus w"
  obtain i now ch failed where a: "a = ADeliver i now ch failed" "i < length (b_durables b)" "d_name (b_durables b ! i) = nm"
    using assms(3) by (auto simp: handles_def b_def)
  define d where "d = b_durables b ! i"
  define H L D where "H = set (w_history w)" and "L = last_seq (b_store b)" and "D = set (calls nm n0 b)"
  have ok: "loops_ok b" "proper_rows (b_store b)" "log_ok (w_history w) (b_store b)" using assms(1) by (simp_all add: world_ok_def b_def)
  have mem: "d \<in> set (b_durables b)" "d_name d = nm" using a by (simp_all add: d_def)
  have fo: "position (b_store b) nm = Some (c, True)" "c \<le> L" "kept (w_history w) (b_store b) c" "d_filter d = f" "\<not> d_retired d"
    "on_track H f D L (d_hooked d) c (d_cursor d) (d_phase d)" "n0 \<le> length (b_handled b)" "in_order H f c0 (calls nm n0 b)"
    "D \<subseteq> {e \<in> H. wanted f e}" "\<And>e. e \<in> H \<Longrightarrow> c0 < ev_Seq e \<Longrightarrow> ev_Seq e \<le> c \<Longrightarrow> wanted f e \<Longrightarrow> e \<in> D" "c0 \<le> c"
    "\<forall>p \<in> set (w_passes w). below nm c p" "\<forall>x \<in> set (b_leaving b). fst x \<noteq> nm"
    using assms(2) mem by (auto simp: following_at_def b_def H_def L_def D_def)
  obtain b1 d1 where s: "deliver_step now ch failed b d = (b1, d1)" by (cases "deliver_step now ch failed b d")
  have "tracked_step H f D L c b d b1 d1"
    using track_step [OF s ok(3,2) fo(3) _ _ fo(4,5)] fo(1,2,6) mem(2) by (simp add: H_def L_def)
  then obtain c' hs where t: "position (b_store b1) nm = Some (c', True)" "c \<le> c'" "c' \<le> L"
    "\<And>e. e \<in> H \<Longrightarrow> c < ev_Seq e \<Longrightarrow> ev_Seq e \<le> c' \<Longrightarrow> wanted f e \<Longrightarrow> e \<in> D"
    "b_handled b1 = b_handled b @ map (Pair nm) hs"
    "hs = [] \<or> (\<exists>ev \<in> H. hs = [ev] \<and> wanted f ev \<and> c < ev_Seq ev \<and> quiet H f c (ev_Seq ev - 1))"
    "on_track H f (D \<union> set hs) L (d_hooked d) c' (d_cursor d1) (d_phase d1)"
    using mem(2) unfolding tracked_step_def by blast
  obtain st h where b1: "b1 = b\<lparr>b_store := st, b_handled := h\<rparr>" using deliver_effect(2) [OF s] by blast
  have sl: "same_log (b_store b) st" using step_tables(1) [OF s, of "\<lambda>_. False"] ok(1) mem(1) b1 by (simp add: loops_ok_def)
  have cs: "calls nm n0 b1 = calls nm n0 b @ hs" using calls_append [OF fo(7) t(5), of nm] by (simp add: filter_map o_def)
  define w' where "w' = acted a w"
  have w': "w_bus w' = b1\<lparr>b_durables := (b_durables b)[i := d1]\<rparr>" "w_passes w' = w_passes w" "w_history w' = w_history w"
    using a s sl b1 new_none [OF ok(3), of "bus_events (b_store b)"]
    by (simp_all add: w'_def acted_def Let_def b_def [symmetric] Deliver_def d_def [symmetric] same_log_def)
  have cw: "calls nm n0 (w_bus w') = calls nm n0 b @ hs" using cs by (simp add: w'(1) calls_def)
  have l1: "last_seq st = L" "bus_events st = bus_events (b_store b)" using sl by (simp_all add: same_log_def L_def)
  have same: "same_consumer d d1" using deliver_effect(1) [OF s] .
  have only: "d' = d1" if m: "d' \<in> set ((b_durables b)[i := d1])" and n: "d_name d' = nm" for d'
  proof -
    obtain j where j: "j < length (b_durables b)" "d' = (b_durables b)[i := d1] ! j" using m by (auto simp: in_set_conv_nth)
    have "distinct (map d_name (b_durables b))" using ok(1) by (simp add: loops_ok_def)
    then have "j \<noteq> i \<Longrightarrow> d_name (b_durables b ! j) \<noteq> d_name (b_durables b ! i)"
      using j(1) a(2) by (metis length_map nth_eq_iff_index_eq nth_map)
    then show ?thesis using j a(2) n mem(2) by (cases "j = i") (auto simp: d_def)
  qed
  have io: "in_order H f c0 (calls nm n0 b @ hs)"
  proof (cases "hs = []")
    case False
    then obtain ev where ev: "hs = [ev]" "quiet H f c (ev_Seq ev - 1)" using t(6) by blast
    then show ?thesis using in_order_snoc [OF fo(8), of ev] fo(10) by (force simp: quiet_def D_def)
  qed (use fo(8) in simp)
  have wb: "w_db w' = st" "b_handled (w_bus w') = b_handled b1" "b_leaving (w_bus w') = b_leaving b" "b_durables (w_bus w') = (b_durables b)[i := d1]"
    using b1 by (simp_all add: w'(1))
  have "following_at nm f c0 n0 c' w'"
    unfolding following_at_def cw wb w'(2,3) l1(1) H_def [symmetric]
  proof (intro conjI)
    show "position st nm = Some (c', True)" using t(1) b1 by simp
    show "c0 \<le> c'" "c' \<le> L" using fo(11) t(2,3) by simp_all
    show "kept (w_history w) st c'" using fo(3) t(2) l1 by (auto simp: kept_def)
    show "\<forall>e \<in> H. c0 < ev_Seq e \<and> ev_Seq e \<le> c' \<and> wanted f e \<longrightarrow> e \<in> set (calls nm n0 b @ hs)"
      using fo(10) t(4) unfolding D_def by (metis Un_iff not_le set_append)
    show "\<forall>d \<in> set ((b_durables b)[i := d1]). d_name d = nm \<longrightarrow> d_filter d = f \<and> \<not> d_retired d \<and>
        on_track H f (set (calls nm n0 b @ hs)) L (d_hooked d) c' (d_cursor d) (d_phase d)"
    proof (intro ballI impI)
      fix x
      assume "x \<in> set ((b_durables b)[i := d1])" "d_name x = nm"
      then have "x = d1" by (rule only)
      then show "d_filter x = f \<and> \<not> d_retired x \<and>
          on_track H f (set (calls nm n0 b @ hs)) L (d_hooked x) c' (d_cursor x) (d_phase x)"
        using same fo(4,5) t(7) by (simp add: same_consumer_def D_def)
    qed
    show "\<forall>p \<in> set (w_passes w). below nm c' p" using fo(12) below_mono [OF _ t(2)] by blast
    show "n0 \<le> length (b_handled b1)" using fo(7) t(5) by simp
    show "\<forall>x \<in> set (b_leaving b). fst x \<noteq> nm" by (rule fo(13))
    show "in_order H f c0 (calls nm n0 b @ hs)" by (rule io)
    show "set (calls nm n0 b @ hs) \<subseteq> {e \<in> H. wanted f e}" using fo(9) t(6) by (auto simp: D_def)
  qed
  then show ?thesis using t(2) by (auto simp: w'_def)
qed

text \<open>The floor of a compaction pass is at most the cursor of every enabled consumer it read.\<close>

lemma floor_fold:
  assumes "\<forall>c \<in> set cs. 0 \<le> con_Cursor c"
  defines "g \<equiv> (\<lambda>c floor. if \<not> con_Enabled c \<and> \<not> con_PinsRetention c then floor
        else if floor < 0 \<or> con_Cursor c < floor then con_Cursor c else floor)"
  shows "(0 \<le> fl \<longrightarrow> 0 \<le> fold g cs fl \<and> fold g cs fl \<le> fl) \<and>
    (\<forall>r \<in> set cs. con_Enabled r \<longrightarrow> 0 \<le> fold g cs fl \<and> fold g cs fl \<le> con_Cursor r)"
  using assms(1)
proof (induction cs arbitrary: fl)
  case (Cons c cs)
  have c: "0 \<le> con_Cursor c" using Cons.prems by simp
  have ih: "0 \<le> g c fl \<Longrightarrow> 0 \<le> fold g cs (g c fl) \<and> fold g cs (g c fl) \<le> g c fl"
    "\<And>r. r \<in> set cs \<Longrightarrow> con_Enabled r \<Longrightarrow> 0 \<le> fold g cs (g c fl) \<and> fold g cs (g c fl) \<le> con_Cursor r"
    using Cons by auto
  have "0 \<le> fl \<Longrightarrow> 0 \<le> g c fl \<and> g c fl \<le> fl" "con_Enabled c \<Longrightarrow> 0 \<le> g c fl \<and> g c fl \<le> con_Cursor c" using c by (auto simp: g_def)
  then show ?case using ih by fastforce
qed simp

lemma list_floor_le:
  assumes "\<forall>c \<in> set cs. 0 \<le> con_Cursor c" "r \<in> set cs" "con_Enabled r"
  shows "0 \<le> list_floor cs" "list_floor cs \<le> con_Cursor r"
  using floor_fold [OF assms(1), of "- 1"] assms(2,3) unfolding list_floor_def by blast+

lemma following_tables:
  assumes "following_at nm f c0 n0 c w" "w_bus w' = (w_bus w)\<lparr>b_store := s\<rparr>" "w_history w' = w_history w"
    "position s nm = position (w_db w) nm" "last_seq s = last_seq (w_db w)" "kept (w_history w) s c"
    "\<forall>p \<in> set (w_passes w'). p \<in> set (w_passes w) \<or> below nm c p"
  shows "following_at nm f c0 n0 c w'"
proof -
  have "calls nm n0 (w_bus w') = calls nm n0 (w_bus w)" using assms(2) by (simp add: calls_def)
  then show ?thesis using assms by (auto simp: following_at_def)
qed

lemma pass_list_following:
  assumes "world_ok w" "following_at nm f c0 n0 c w"
  shows "following_at nm f c0 n0 c (pass_list w)"
proof (cases "b_compactable (w_bus w) = []")
  case False
  define b where "b = w_bus w"
  obtain d1 res where l: "ListBusConsumers (b_store b) = (d1, res)" by (cases "ListBusConsumers (b_store b)")
  have t: "same_tables (b_store b) d1" using reads_same(4) [of "b_store b"] l by simp
  have pos: "position (b_store b) nm = Some (c, True)" using assms(2) by (simp add: following_at_def b_def)
  obtain r where r: "consumer_row (b_store b) nm = Some r" "con_Enabled r" "con_Cursor r = c" using pos by (auto simp: position_Some)
  have "r \<in> set (bus_consumers (b_store b))" "con_Name r = nm" using r(1) find_Some_iff_first by (fastforce simp: consumer_row_def)+
  then have listed: "below nm c (Listed cs)" if "res = Inr cs" for cs
    using ListBusConsumers_result [of "b_store b" d1 cs] l that r by force
  have w': "w_bus (pass_list w) = b\<lparr>b_store := d1\<rparr>" "w_history (pass_list w) = w_history w"
    "\<And>p. p \<in> set (w_passes (pass_list w)) \<Longrightarrow> p \<in> set (w_passes w) \<or> below nm c p"
    using False l listed by (auto simp: pass_list_def with_db_def b_def split: sum.splits)
  have "position d1 nm = position (b_store b) nm" using same_rows_step [OF t, of "\<lambda>_. True"] by (simp add: rows_step_def)
  moreover have "kept (w_history w) d1 c" using assms(2) t by (simp add: following_at_def kept_def same_tables_def b_def)
  ultimately show ?thesis using following_tables [OF assms(2) _ w'(2)] w'(1,3) t by (simp add: b_def same_tables_def)
qed (simp add: pass_list_def assms(2))

lemma pass_floor_following:
  assumes "world_ok w" "following_at nm f c0 n0 c w"
  shows "following_at nm f c0 n0 c (pass_floor k w)"
proof (cases "k < length (w_passes w) \<and> (\<exists>cs. w_passes w ! k = Listed cs)")
  case True
  then obtain cs where k: "k < length (w_passes w)" "w_passes w ! k = Listed cs" by blast
  then have mem: "Listed cs \<in> set (w_passes w)" by (metis nth_mem)
  have nonneg: "\<forall>c \<in> set cs. 0 \<le> con_Cursor c" using assms(1) mem by (auto simp: world_ok_def pass_ok_def)
  have "below nm c (Listed cs)" using assms(2) mem unfolding following_at_def by blast
  then obtain r where r: "r \<in> set cs" "con_Enabled r" "con_Cursor r \<le> c" by auto
  have fl: "floor_of cs (w_bus w) = (w_bus w, Inr (list_floor cs))" "list_floor cs \<le> c"
    using list_floor_le [OF nonneg r(1,2)] r(3) by (simp_all add: floor_of_def)
  have "set ((w_passes w)[k := Floored (list_floor cs)]) \<subseteq> insert (Floored (list_floor cs)) (set (w_passes w))"
    by (rule set_update_subset_insert)
  then have "\<forall>p \<in> set ((w_passes w)[k := Floored (list_floor cs)]). below nm c p" using assms(2) fl(2) by (auto simp: following_at_def)
  then show ?thesis using assms(2) k fl(1) by (simp add: pass_floor_def following_at_def)
next
  case False
  then have "pass_floor k w = w" by (auto simp: pass_floor_def split: compaction.splits)
  then show ?thesis using assms(2) by simp
qed

lemma pass_delete_following:
  assumes "world_ok w" "following_at nm f c0 n0 c w"
  shows "following_at nm f c0 n0 c (pass_delete k w)"
proof (cases "k < length (w_passes w) \<and> (\<exists>fl. w_passes w ! k = Floored fl)")
  case True
  then obtain fl where k: "k < length (w_passes w)" "w_passes w ! k = Floored fl" by blast
  then have "Floored fl \<in> set (w_passes w)" by (metis nth_mem)
  then have "below nm c (Floored fl)" using assms(2) unfolding following_at_def by blast
  then have fl: "fl \<le> c" by simp
  define cd where "cd = CompactBusEvents (w_db w) (b_compactable (w_bus w)) fl"
  have w': "w_bus (pass_delete k w) = (w_bus w)\<lparr>b_store := fst cd\<rparr>" "w_history (pass_delete k w) = w_history w"
    "set (w_passes (pass_delete k w)) \<subseteq> set (w_passes w)"
    using k drop_nth_set [of k "w_passes w"] by (simp_all add: pass_delete_def cd_def with_db_def)
  have "CompactBusEvents (w_db w) (b_compactable (w_bus w)) fl = (fst cd, snd cd)" by (simp add: cd_def)
  note keeps = sql_log.compact_keeps [OF this fl]
  have "position (fst cd) nm = position (w_db w) nm"
    using rows_step_consumers [of "fst cd" "w_db w" "\<lambda>_. True"] Compact_tables(1) by (simp add: rows_step_def cd_def)
  moreover have "kept (w_history w) (fst cd) c" using assms(2) keeps by (simp add: following_at_def kept_def)
  moreover have "last_seq (fst cd) = last_seq (w_db w)" using Compact_tables(2) by (simp add: cd_def)
  ultimately show ?thesis using following_tables [OF assms(2) w'(1,2)] w'(3) by blast
next
  case False
  then have "pass_delete k w = w" by (auto simp: pass_delete_def split: compaction.splits)
  then show ?thesis using assms(2) by simp
qed

lemma perform_following:
  assumes "world_ok w" "following_at nm f c0 n0 c w" "leaves nm f a"
  shows "\<exists>c' \<ge> c. following_at nm f c0 n0 c' (perform a w)"
proof -
  have "\<exists>c' \<ge> c. following_at nm f c0 n0 c' (acted a w)"
    using handles_following [OF assms(1,2)] act_following [OF assms] by (cases "handles nm a (w_bus w)") auto
  then show ?thesis
    using pass_list_following [OF assms(1,2)] pass_floor_following [OF assms(1,2)] pass_delete_following [OF assms(1,2)] by (cases a) auto
qed

lemma run_following:
  assumes "world_ok w" "following_at nm f c0 n0 c w" "\<forall>a \<in> set acts. leaves nm f a"
  shows "\<exists>c' \<ge> c. following_at nm f c0 n0 c' (run acts w)"
  using assms
proof (induction acts arbitrary: w c)
  case (Cons a acts)
  obtain c' where c': "c \<le> c'" "following_at nm f c0 n0 c' (perform a w)" using perform_following [OF Cons.prems(1,2)] Cons.prems(3) by auto
  obtain c'' where "c' \<le> c''" "following_at nm f c0 n0 c'' (run acts (perform a w))"
    using Cons.IH [OF perform_ok [OF Cons.prems(1)] c'(2)] Cons.prems(3) by auto
  then show ?case using c'(1) by (intro exI [of _ c'']) (simp add: run_def)
qed (auto simp: run_def)

subsection \<open>At least once, in order\<close>

fun at_rest :: "phase \<Rightarrow> bool" where
  "at_rest Unlaunched = True"
| "at_rest Selecting = True"
| "at_rest Sleeping = True"
| "at_rest Exited = True"
| "at_rest _ = False"

text \<open>
  A consumer to watch: its row is enabled, nothing above its cursor is missing from the log, its loop, if it
  has one, uses the filter and is not in the middle of a drain, and neither a compaction pass nor a call of
  \<open>Unregister\<close> for it is under way.
\<close>

definition watched :: "string \<Rightarrow> Filter \<Rightarrow> int \<Rightarrow> world \<Rightarrow> bool" where
  "watched nm f c w \<longleftrightarrow> position (w_db w) nm = Some (c, True) \<and> c \<le> last_seq (w_db w) \<and> kept (w_history w) (w_db w) c \<and>
     (\<forall>d \<in> set (b_durables (w_bus w)). d_name d = nm \<longrightarrow> d_filter d = f \<and> \<not> d_retired d \<and> at_rest (d_phase d)) \<and>
     (\<forall>x \<in> set (b_leaving (w_bus w)). fst x \<noteq> nm) \<and> w_passes w = []"

lemma watched_following:
  assumes "watched nm f c w"
  shows "following_at nm f c (length (b_handled (w_bus w))) c w"
proof -
  have "on_track H f D L h c dc p" if "at_rest p" for H D L h dc p using that by (cases p) auto
  then show ?thesis using assms by (auto simp: watched_def following_at_def calls_def in_order_def)
qed

text \<open>
  C2. While a consumer stays registered, enabled and with its filter, then after any sequence of publishing,
  deliveries, failing statements and handlers, retention and compaction passes, stops and restarts, every
  event its filter wants that came after its starting cursor was handed to its handler without an error
  before the cursor passed it, and is still in the log as long as the cursor has not; each was handed over
  only after every earlier wanted one, and nothing that was not published or not wanted was handed over.
\<close>

theorem delivered_at_least_once:
  assumes "reachable_world w" "watched nm f c w" "\<forall>a \<in> set acts. leaves nm f a"
  shows "\<exists>c'. position (w_db (run acts w)) nm = Some (c', True) \<and> c \<le> c' \<and>
    (\<forall>e \<in> set (w_history (run acts w)). c < ev_Seq e \<and> Matches f (ev_Name e) \<longrightarrow>
       (if ev_Seq e \<le> c' then e \<in> set (calls nm (length (b_handled (w_bus w))) (w_bus (run acts w)))
        else e \<in> set (bus_events (w_db (run acts w))))) \<and>
    in_order (set (w_history (run acts w))) f c (calls nm (length (b_handled (w_bus w))) (w_bus (run acts w))) \<and>
    set (calls nm (length (b_handled (w_bus w))) (w_bus (run acts w))) \<subseteq> {e \<in> set (w_history (run acts w)). Matches f (ev_Name e)}"
proof -
  obtain c' where c': "c \<le> c'" "following_at nm f c (length (b_handled (w_bus w))) c' (run acts w)"
    using run_following [OF reachable_world_ok [OF assms(1)] watched_following [OF assms(2)] assms(3)] by blast
  show ?thesis
  proof (intro exI [of _ c'] conjI)
    show "\<forall>e \<in> set (w_history (run acts w)). c < ev_Seq e \<and> Matches f (ev_Name e) \<longrightarrow>
       (if ev_Seq e \<le> c' then e \<in> set (calls nm (length (b_handled (w_bus w))) (w_bus (run acts w)))
        else e \<in> set (bus_events (w_db (run acts w))))"
      using c'(2) by (auto simp: following_at_def kept_def wanted_def)
  qed (use c' in \<open>auto simp: following_at_def wanted_def\<close>)
qed

lemmas demo_publishing = demo_defs PublishFrom_def publish_def new_event_def AppendBusEvent_def appendBusEventWith_def appended_def
  max_seq_def announceLocked_def announce_loop_all above_def ascending_def announce_one_def fanoutEphemeral_def Matches_def
  matchPattern_def HasSuffix_def HasPrefix_def wakeDurables_def

lemma demo_watched: "watched ''log'' [''a.*''] 0 demo_world"
  by (simp add: demo_world_def demo_defs watched_def position_def kept_def)

theorem delivered_at_least_once_witness:
  "\<exists>c'. position (w_db (run [APublish 0 [] ''a.x'' [] None, ATrim 9, ARestart demo_options] demo_world)) ''log'' = Some (c', True) \<and> 0 \<le> c'"
proof -
  have "\<forall>a \<in> set [APublish 0 [] ''a.x'' [] None, ATrim 9, ARestart demo_options]. leaves ''log'' [''a.*''] a" by simp
  then show ?thesis using delivered_at_least_once [OF demo_reachable(1) demo_watched] by blast
qed

subsection \<open>Catching up\<close>

lemma run_deliver: "w_bus (run (map (\<lambda>k. ADeliver i (clock k) Ticked None) [0..<n]) w) = along i clock n (w_bus w)"
proof -
  have "w_bus (run (map (\<lambda>t. ADeliver i t Ticked None) ts) w) = fold (\<lambda>now. Deliver i now Ticked None) ts (w_bus w)" for ts
    by (induction ts arbitrary: w) (simp_all add: run_def acted_def Let_def)
  from this [of "map clock [0..<n]"] show ?thesis by (simp add: along_def comp_def)
qed

lemma history_grows: "set (w_history w) \<subseteq> set (w_history (run acts w))"
proof (induction acts arbitrary: w)
  case (Cons a acts)
  have "set (w_history w) \<subseteq> set (w_history (perform a w))"
    by (cases a) (auto simp: acted_def Let_def pass_list_def pass_floor_def pass_delete_def split: prod.splits sum.splits compaction.splits)
  then show ?case using Cons [of "perform a w"] by (auto simp: run_def)
qed (simp add: run_def)

lemma bounds_without_gap:
  assumes at: "draining i nm f k E b c (Bounding r)" "\<not> d_hooked (b_durables b ! i)" "b_store b = st"
    and ok: "log_ok hist st" "c \<le> last_seq st" "kept hist st c"
  shows "brings i (\<lambda>b. \<exists>p. draining i nm f k E b c p \<and> fits E c p) b"
proof -
  have "position st nm = Some (c, True)" "proper_rows st" "d_cursor (b_durables b ! i) = c" using at(1,3) by (auto simp: draining_def poised_def)
  then have "0 \<le> c" using row_there proper_cursor by metis
  have next_ready: "draining i nm f k E (Deliver i now Ticked None b) c Ready" for now
  proof -
    obtain e h where e: "BusBounds (b_store b) = (b_store b, Inr (e, h))"
      "draining i nm f k E (Deliver i now Ticked None b) c (case gap_of (b_durables b ! i) e h of None \<Rightarrow> Ready | Some g \<Rightarrow> Gapping g)"
      using draining_bounds [OF at(1), of now thesis] at(2) by (auto simp: Let_def)
    have "\<not> c < e - 1" using no_gap [OF ok(1,3,2) \<open>0 \<le> c\<close>] e(1) at(3) by blast
    then show ?thesis using e(2) \<open>d_cursor (b_durables b ! i) = c\<close> by (simp add: gap_of_def)
  qed
  have loop: "draining i nm f k E (Deliver i now Ticked None b2) c Looping" if "draining i nm f k E b2 c Ready" for b2 now
    by (rule draining_same [OF that, of now b2 "(b_durables b2 ! i)\<lparr>d_lastCheck := now, d_phase := Looping\<rparr>"])
      (use that in \<open>simp_all add: draining_def poised_def deliver_step_def\<close>)
  have "brings i (\<lambda>b. draining i nm f k E b c Ready) b" by (rule brings_step) (rule next_ready)
  moreover have "brings i (\<lambda>b. \<exists>p. draining i nm f k E b c p \<and> fits E c p) b2" if "draining i nm f k E b2 c Ready" for b2
    using loop [OF that] by (intro brings_step exI [of _ Looping]) simp
  ultimately show ?thesis by (rule brings_trans)
qed

text \<open>A drain begins: with a hook at once in a round of the loop, without one after the look for a gap, which there is none.\<close>

lemma drain_begins:
  assumes p: "poised i nm f k E b c Selecting" and ok: "log_ok hist (b_store b)" and c: "c \<le> last_seq (b_store b)" and kept: "kept hist (b_store b) c"
  shows "brings i (\<lambda>b. \<exists>p. draining i nm f k E b c p \<and> fits E c p) b"
proof -
  define q where "q = (if d_hooked (b_durables b ! i) then Ready else Preparing)"
  have step: "deliver_step now Ticked None b (b_durables b ! i) = (b, start_drain (b_durables b ! i))" for now
    using p by (simp add: poised_def deliver_step_def wait_step_def)
  have q: "d_phase (start_drain (b_durables b ! i)) = q" by (simp add: start_drain_def q_def)
  define first where "first = (\<lambda>b1. poised i nm f k E b1 c q \<and> d_hooked (b_durables b1 ! i) = d_hooked (b_durables b ! i) \<and> b_store b1 = b_store b)"
  have s1: "brings i first b"
    by (rule brings_step) (simp add: first_def poised_same [OF p step q refl] hooked_stays)
  have ready: "brings i (\<lambda>b. poised i nm f k E b c Looping \<and> d_hooked (b_durables b ! i) = h) b1"
    if at: "poised i nm f k E b1 c Ready" "d_hooked (b_durables b1 ! i) = h" for b1 h
  proof (rule brings_step, intro conjI)
    show "poised i nm f k E (Deliver i now Ticked None b1) c Looping" for now
      by (rule poised_same(1) [OF at(1), of now b1 "(b_durables b1 ! i)\<lparr>d_lastCheck := now, d_phase := Looping\<rparr>"])
        (use at in \<open>simp_all add: poised_def deliver_step_def\<close>)
  qed (simp add: hooked_stays at(2))
  have "brings i (\<lambda>b. \<exists>p. draining i nm f k E b c p \<and> fits E c p) b1" if b1: "first b1" for b1
  proof (cases "d_hooked (b_durables b ! i)")
    case True
    have "brings i (\<lambda>b. draining i nm f k E b c Fetching) b1"
      by (rule brings_trans [OF ready [of _ True]]) (use b1 True hooked_prepares in \<open>auto simp: first_def q_def\<close>)
    then show ?thesis by (rule brings_trans) (rule brings.here, auto)
  next
    case False
    have at: "poised i nm f k E b1 c Preparing" "\<not> d_hooked (b_durables b1 ! i)" "b_store b1 = b_store b" using b1 False by (simp_all add: first_def q_def)
    have s2: "brings i (\<lambda>b2. (\<exists>r. draining i nm f k E b2 c (Bounding r)) \<and> \<not> d_hooked (b_durables b2 ! i) \<and> b_store b2 = b_store b) b1"
      using poised_prepares [OF at(1)] at(2,3) by (intro brings_step) (simp add: hooked_stays)
    show ?thesis by (rule brings_trans [OF s2], elim conjE exE) (rule bounds_without_gap [OF _ _ _ ok c kept])
  qed
  then show ?thesis by (rule brings_trans [OF s1])
qed

lemma catch_up_steps:
  assumes "world_ok w" "watched nm f c w" "i < length (b_durables (w_bus w))" "d_name (b_durables (w_bus w) ! i) = nm"
    "d_phase (b_durables (w_bus w) ! i) = Selecting" "\<not> ctx_done (w_bus w) (b_durables (w_bus w) ! i)" "db_faults (w_db w) = []"
  shows "\<exists>n c'. position (b_store (along i clock n (w_bus w))) nm = Some (c', True) \<and>
    d_phase (b_durables (along i clock n (w_bus w)) ! i) = Selecting \<and> (\<forall>e \<in> set (bus_events (w_db w)). ev_Seq e \<le> c')"
proof -
  define b where "b = w_bus w"
  define k where "k = nat (if b_batchSize b \<le> 0 then 100 else b_batchSize b)"
  define E where "E = bus_events (b_store b)"
  have ok: "log_ok (w_history w) (b_store b)" "proper_rows (b_store b)" using assms(1) by (simp_all add: world_ok_def b_def)
  have wa: "position (b_store b) nm = Some (c, True)" "c \<le> last_seq (b_store b)" "kept (w_history w) (b_store b) c"
    "d_filter (b_durables b ! i) = f" "\<not> d_retired (b_durables b ! i)"
    using assms(2-4) by (auto simp: watched_def b_def)
  have "poised i nm f k E b c Selecting" using assms(3-7) wa ok(2) by (simp add: poised_def b_def k_def E_def)
  then have start: "brings i (\<lambda>b. \<exists>p. draining i nm f k E b c p \<and> fits E c p) b" using drain_begins ok(1) wa(2,3) by blast
  have pos: "0 \<le> c" using row_there [OF wa(1)] proper_cursor [OF ok(2)] by metis
  have rest: "0 < k" "ascending E" "\<forall>e \<in> set E. 0 < ev_Seq e"
    using ok(1) log_ok_seqs(4) [OF ok(1)] by (force simp: k_def log_ok_def E_def)+
  have "brings i (\<lambda>b. \<exists>c'. draining i nm f k E b c' Selecting \<and> (\<forall>e \<in> set E. ev_Seq e \<le> c')) b"
    by (rule brings_trans [OF start], elim exE conjE) (rule draining_runs [OF _ _ pos rest])
  from brings_along [OF this, of clock] show ?thesis by (auto simp: draining_def poised_def b_def E_def)
qed


definition demo_published :: world where
  "demo_published = run [APublish 0 [] ''a.x'' [] None] demo_world"

lemma demo_published_evaluates:
  "watched ''log'' [''a.*''] 0 demo_published" "map d_name (b_durables (w_bus demo_published)) = [''log'']"
  "map d_phase (b_durables (w_bus demo_published)) = [Selecting]" "map d_hooked (b_durables (w_bus demo_published)) = [False]"
  "map (ctx_done (w_bus demo_published)) (b_durables (w_bus demo_published)) = [False]"
  "db_faults (w_db demo_published) = []" "w_history demo_published = [stored_event 0 [] ''a.x'' [] None 1]"
  "b_handled (w_bus demo_published) = []"
  by (simp_all add: demo_published_def demo_world_def demo_publishing watched_def position_def kept_def stored_event_def ctx_done_def)


subsection \<open>Two calls of Unregister at once\<close>

text \<open>
  One call waits for the consumer's loop while a second, for the same name, finds no consumer, deletes the row
  and ends; the name is free, and a new consumer takes it; then the first call goes on.
\<close>

definition demo_race :: world where
  "demo_race = run [AUnregister ''log'', ARetire 0, AUnregister ''log'', AUnregistered 1, ARegister 0 ''log'' [''a.*''] False,
     ADeliverLeaving 0 0 Quit None, AUnregistered 0] demo_world"

text \<open>
  C35. Two calls of \<open>Unregister\<close> for one name that overlap with a registration of that name, which both
  the bus and the second call allow, leave a consumer that is registered and whose loop runs, with no call of
  \<open>Unregister\<close> under way and no failed statement, but without its row: its next drain ends with the error
  that its registration disappeared.
\<close>

theorem unregister_race:
  "reachable_world demo_race \<and> map d_name (b_durables (w_bus demo_race)) = [''log''] \<and>
   map d_launched (b_durables (w_bus demo_race)) = [True] \<and> b_leaving (w_bus demo_race) = [] \<and> b_retiring (w_bus demo_race) = [] \<and>
   consumer_row (w_db demo_race) ''log'' = None \<and>
   map d_stalled (b_durables (w_bus (run [ADeliver 0 0 Ticked None, ADeliver 0 0 Ticked None] demo_race))) = [Some Disappeared]"
proof -
  have "reachable_world demo_race" unfolding demo_race_def by (rule reachable_run) simp
  then show ?thesis
    by (simp add: demo_race_def demo_world_def demo_defs Unregister_begin_def Unregister_retire_def Unregister_end_def remove_first_def
        may_leave_def drop_nth_def DeleteBusConsumer_def retire_def Deliver_leaving_def Deliver_def deliver_step_def wait_step_def
        ctx_done_def start_drain_def prepare_step_def stall_def recordFailure_def)
qed

subsection \<open>A disabled consumer\<close>

lemma cursor_disabled:
  assumes "position d nm = Some (c, False)"
  shows "position (fst (SetBusConsumerCursor d nm s t)) nm = Some (c, False)" "position (fst (SetBusConsumerEnabled d nm False t)) nm = Some (c, False)"
proof -
  obtain r where "consumer_row d nm = Some r" "con_Cursor r = c" "\<not> con_Enabled r" using assms by (auto simp: position_Some)
  then show "position (fst (SetBusConsumerCursor d nm s t)) nm = Some (c, False)" "position (fst (SetBusConsumerEnabled d nm False t)) nm = Some (c, False)"
    using assms by (auto simp: SetBusConsumerCursor_def SetBusConsumerEnabled_def exec_eq row_on_row position_Some)
qed

lemma same_tables_position: "same_tables d d' \<Longrightarrow> position d' nm = position d nm"
  by (simp add: position_def same_tables_row)

lemma step_disabled:
  assumes "deliver_step now ch failed b d = (b', d')" "d_name d = nm" "position (b_store b) nm = Some (c, False)"
  shows "position (b_store b') nm = Some (c, False)"
  using deliver_effect(3) [OF assms(1)] cursor_disabled(1) [OF assms(3)] assms(2,3) same_tables_position by auto

lemma act_disabled:
  assumes "world_ok w" "position (w_db w) nm = Some (c, False)" "\<forall>now. a \<noteq> AEnable now nm True" "\<forall>now s. a \<noteq> AAdvance now nm s"
    "\<forall>k. a = AUnregistered k \<longrightarrow> k < length (b_leaving (w_bus w)) \<longrightarrow> fst (b_leaving (w_bus w) ! k) \<noteq> nm"
  shows "position (b_store (act a (w_bus w))) nm = Some (c, False)"
proof (cases "touches (w_bus w) a nm")
  case False
  have ok: "loops_ok (w_bus w)" "proper_rows (w_db w)" "0 \<le> last_seq (w_db w)" using assms(1) by (simp_all add: world_ok_def log_ok_def)
  have "rows_step (\<lambda>n. n = nm) (w_db w) (b_store (act a (w_bus w)))"
    using act_tables [OF ok, of "\<lambda>n. n = nm" a] False assms(2) by (auto simp: position_Some)
  then show ?thesis using assms(2) by (simp add: rows_step_def)
next
  case True
  define b where "b = w_bus w"
  consider (enable) now where "a = AEnable now nm False"
    | (deliver) i now ch failed where "a = ADeliver i now ch failed" "i < length (b_durables b)" "d_name (b_durables b ! i) = nm"
    | (leaving) k now ch failed where "a = ADeliverLeaving k now ch failed" "k < length (b_leaving b)" "fst (b_leaving b ! k) = nm"
    using True assms(3-5) by (cases a) (auto simp: b_def)
  then show ?thesis
  proof cases
    case enable
    then show ?thesis using cursor_disabled(2) [OF assms(2)] by (simp add: with_db_def)
  next
    case deliver
    then show ?thesis using step_disabled [of _ _ _ b "b_durables b ! i"] assms(2)
      by (auto simp: Deliver_def b_def split: prod.splits)
  next
    case leaving
    show ?thesis
    proof (cases "snd (b_leaving b ! k)")
      case None
      then show ?thesis using leaving assms(2) by (auto simp: Deliver_leaving_def b_def split: prod.splits option.splits)
    next
      case (Some d)
      have "b_leaving b ! k \<in> set (b_leaving b)" using leaving(2) by simp
      then have "d_name d = nm" using assms(1) Some leaving(3) by (auto simp: world_ok_def loops_ok_def b_def)
      moreover have "b_leaving b ! k = (nm, Some d)" using Some leaving(3) by (metis prod.collapse)
      moreover obtain b1 d1 where s: "deliver_step now ch failed b d = (b1, d1)" by (cases "deliver_step now ch failed b d")
      ultimately show ?thesis using step_disabled [OF s, of nm c] leaving assms(2) by (simp add: Deliver_leaving_def b_def)
    qed
  qed
qed

text \<open>
  The cursor of a disabled consumer stays where it is, and the consumer disabled, whatever happens, except
  through enabling it, through the explicit move of its cursor, or when it is unregistered: a delivery loop
  that is still in the middle of a batch does not move it.
\<close>

theorem disabled_stays:
  assumes "reachable_world w" "position (w_db w) nm = Some (c, False)" "\<forall>now. a \<noteq> AEnable now nm True" "\<forall>now s. a \<noteq> AAdvance now nm s"
    "\<forall>k. a = AUnregistered k \<longrightarrow> k < length (b_leaving (w_bus w)) \<longrightarrow> fst (b_leaving (w_bus w) ! k) \<noteq> nm"
  shows "position (w_db (perform a w)) nm = Some (c, False)"
proof -
  have "position (w_db (acted a w)) nm = Some (c, False)"
    using act_disabled [OF reachable_world_ok [OF assms(1)] assms(2-5)] by (simp add: acted_def Let_def)
  moreover have "position (w_db (pass_list w)) nm = Some (c, False)"
    using assms(2) same_tables_position [OF reads_same(4)] by (auto simp: pass_list_def with_db_def split: sum.splits)
  moreover have "position (w_db (pass_floor k w)) nm = Some (c, False)" for k
    using assms(2) same_tables_position [OF floor_of_effect(1)] by (fastforce simp: pass_floor_def split: compaction.splits sum.splits prod.splits)
  moreover have "position (w_db (pass_delete k w)) nm = Some (c, False)" for k
    using assms(2) by (auto simp: pass_delete_def with_db_def position_def consumer_row_def Compact_tables(1) split: compaction.splits)
  ultimately show ?thesis by (cases a) simp_all
qed

theorem disabled_stays_witness:
  "position (w_db (run [AEnable 0 ''log'' False] demo_world)) ''log'' = Some (0, False) \<and>
   position (w_db (perform (ADeliver 0 0 Ticked None) (run [AEnable 0 ''log'' False] demo_world))) ''log'' = Some (0, False)"
proof -
  have "position (w_db (run [AEnable 0 ''log'' False] demo_world)) ''log'' = Some (0, False)"
    by (simp add: demo_world_def demo_defs position_def SetBusConsumerEnabled_def on_row_def)
  then show ?thesis using disabled_stays [OF reachable_run [OF demo_reachable(1)], of _ "''log''" 0 "ADeliver 0 0 Ticked None"] by blast
qed

subsection \<open>Events with a cause\<close>

lemma find_snoc: "find P xs = None \<Longrightarrow> find P (xs @ [x]) = (if P x then Some x else None)"
  by (induction xs) (auto split: if_splits)

text \<open>
  Appending an event for a cause again appends nothing: after a call that returned a sequence number,
  every later call with the same kind and cause for an event of that name that returns at all returns the
  same sequence number and reports that it inserted nothing, and the log stays as it is.
\<close>

theorem append_once_idempotent:
  assumes "AppendBusEventOnce d kind i e now = (d1, Inr (seq, inserted))" "ev_Name e' = ev_Name e"
    "AppendBusEventOnce d1 kind i e' now' = (d2, Inr (seq', inserted'))"
  shows "seq' = seq \<and> \<not> inserted' \<and> same_log d1 d2 \<and> event_sources d2 = event_sources d1 \<and>
    (inserted \<longleftrightarrow> bus_events d1 \<noteq> bus_events d)"
proof -
  have nt: "TrimSpace [] = []" by (simp add: TrimSpace_graphic)
  define P where "P = (\<lambda>s :: event_source. src_kind s = kind \<and> src_id s = i \<and> src_event s = ev_Name e)"
  have "(\<exists>s. find P (event_sources d1) = Some s \<and> src_seq s = seq) \<and> (inserted \<longleftrightarrow> bus_events d1 \<noteq> bus_events d)"
  proof (cases "find P (event_sources d)")
    case None
    then have "find P (event_sources d @ [s]) = (if P s then Some s else None)" for s by (rule find_snoc)
    then show ?thesis using assms(1) None nt
      by (auto simp: AppendBusEventOnce_def AppendBusEventOnceReplacingSource_def exec_eq appendBusEventOnceReplacingSourceWith_def
          deleteReplacedBusEventSource_def appendBusEventWith_def appended_def P_def Let_def split: if_splits)
  next
    case (Some s)
    then show ?thesis using assms(1) nt
      by (auto simp: AppendBusEventOnce_def AppendBusEventOnceReplacingSource_def exec_eq appendBusEventOnceReplacingSourceWith_def
          deleteReplacedBusEventSource_def P_def Let_def split: if_splits)
  qed
  then show ?thesis using assms(2,3) nt
    by (auto simp: AppendBusEventOnce_def AppendBusEventOnceReplacingSource_def exec_eq appendBusEventOnceReplacingSourceWith_def
        deleteReplacedBusEventSource_def P_def Let_def same_log_def split: if_splits)
qed

definition demo_once :: bus_db where
  "demo_once = fst (AppendBusEventOnce no_store ''job'' ''7'' (new_event [] ''a'' []) 0)"

theorem append_once_idempotent_witness:
  "AppendBusEventOnce demo_once ''job'' ''7'' (new_event [] ''a'' ''later'') 5 = (demo_once, Inr (1, False)) \<and> bus_events demo_once \<noteq> []"
proof -
  have one: "AppendBusEventOnce no_store ''job'' ''7'' (new_event [] ''a'' []) 0 = (demo_once, Inr (1, True))"
    and two: "AppendBusEventOnce demo_once ''job'' ''7'' (new_event [] ''a'' ''later'') 5 = (demo_once, Inr (1, False))"
    by (simp_all add: demo_once_def AppendBusEventOnce_def AppendBusEventOnceReplacingSource_def exec_def no_store_def new_event_def
        appendBusEventOnceReplacingSourceWith_def deleteReplacedBusEventSource_def appendBusEventWith_def appended_def max_seq_def
        TrimSpace_graphic graphic_def Let_def)
  show ?thesis using append_once_idempotent [OF one _ two] two by (simp add: new_event_def no_store_def)
qed

end
