(* ===== verification/Bus_Announce.thy ===== *)
theory Bus_Announce
  imports Bus_Working
begin

text \<open>
  What ephemeral subscribers hear: every stored event at most once and in the order of the log, whoever
  appended it, through failing statements and restarts; and the one event that is never announced, the first
  one published after the announce mark could not be placed.
\<close>

subsection \<open>What a subscriber heard\<close>

text \<open>The sequence numbers of the stored events a subscriber was called with; one that was not stored has none.\<close>

definition heard :: "nat \<Rightarrow> Bus \<Rightarrow> int list" where
  "heard i b = filter (\<lambda>s. 0 < s) (map (\<lambda>x. ev_Seq (snd x)) (filter (\<lambda>x. fst x = i) (b_told b)))"

definition told_upto :: "int \<Rightarrow> Bus \<Rightarrow> bool" where
  "told_upto m b \<longleftrightarrow> 0 \<le> m \<and> distinct (map sub_id (b_ephemeral b)) \<and> (\<forall>s \<in> set (b_ephemeral b). sub_id s < b_nextSubID b) \<and>
     (\<forall>x \<in> set (b_told b). ev_Seq (snd x) \<le> m) \<and> (\<forall>i. sorted_wrt (<) (heard i b))"

definition told_ok :: "Bus \<Rightarrow> bool" where
  "told_ok b \<longleftrightarrow> (if b_marked b then b_announced b \<le> last_seq (b_store b) \<and> told_upto (b_announced b) b
     else told_upto (last_seq (b_store b)) b)"

lemma told_upto_mono: "told_upto m b \<Longrightarrow> m \<le> m' \<Longrightarrow> told_upto m' b"
  by (force simp: told_upto_def)

lemma told_upto_cong:
  "b_told b' = b_told b \<Longrightarrow> b_ephemeral b' = b_ephemeral b \<Longrightarrow> b_nextSubID b' = b_nextSubID b \<Longrightarrow> told_upto m b' = told_upto m b"
  by (simp add: told_upto_def heard_def)

lemma filter_one_id:
  "distinct (map sub_id ss) \<Longrightarrow> length (filter (\<lambda>s. P s \<and> sub_id s = i) ss) \<le> 1"
proof (induction ss)
  case (Cons s ss)
  have "sub_id s = i \<Longrightarrow> filter (\<lambda>s. P s \<and> sub_id s = i) ss = []" using Cons.prems by (auto simp: filter_empty_conv image_iff)
  then show ?case using Cons by (cases "P s \<and> sub_id s = i") auto
qed simp

lemma fanout_heard:
  assumes "told_upto m b" "m < ev_Seq ev \<or> ev_Seq ev \<le> 0"
  shows "told_upto (max m (ev_Seq ev)) (fanoutEphemeral ev b)"
proof -
  have d: "distinct (map sub_id (b_ephemeral b))" using assms(1) by (simp add: told_upto_def)
  have "sorted_wrt (<) (heard i (fanoutEphemeral ev b))" for i
  proof -
    define new where "new = filter (\<lambda>s. Matches (sub_filter s) (ev_Name ev) \<and> sub_id s = i) (b_ephemeral b)"
    have "length new \<le> 1" using filter_one_id [OF d] by (simp add: new_def)
    then have new: "new = [] \<or> (\<exists>s. new = [s])" by (cases new) auto
    have "filter (\<lambda>x. fst x = i) (map (\<lambda>s. (sub_id s, ev)) (filter (\<lambda>s. Matches (sub_filter s) (ev_Name ev)) (b_ephemeral b))) =
        map (\<lambda>s. (sub_id s, ev)) new" by (simp add: filter_map o_def new_def)
    then have "heard i (fanoutEphemeral ev b) = heard i b @ filter (\<lambda>s. 0 < s) (map (\<lambda>_. ev_Seq ev) new)"
      by (simp add: heard_def fanoutEphemeral_def o_def)
    moreover have "s \<in> set (heard i b) \<Longrightarrow> s \<le> m" for s using assms(1) by (auto simp: told_upto_def heard_def)
    ultimately show ?thesis using assms new by (fastforce simp: told_upto_def sorted_wrt_append)
  qed
  then show ?thesis using assms(1) by (auto simp: told_upto_def fanoutEphemeral_def)
qed

lemma announce_one_told:
  assumes "told_upto (b_announced b) b" "b_announced b < ev_Seq ev"
  shows "told_upto (b_announced (announce_one ev b)) (announce_one ev b)"
proof -
  have "told_upto (ev_Seq ev) (fanoutEphemeral ev b)" using fanout_heard [OF assms(1), of ev] assms(2) by simp
  moreover have "heard i (announce_one ev b) = heard i (fanoutEphemeral ev b)" for i by (simp add: heard_def announce_one_def)
  ultimately show ?thesis by (simp add: told_upto_def announce_one_def)
qed

lemma announce_fold_told:
  assumes "told_upto (b_announced b) b" "ascending evs" "\<forall>e \<in> set evs. b_announced b < ev_Seq e"
  shows "told_upto (b_announced (fold announce_one evs b)) (fold announce_one evs b)"
  using assms
proof (induction evs arbitrary: b)
  case (Cons e evs)
  have "told_upto (b_announced (announce_one e b)) (announce_one e b)" using announce_one_told Cons.prems by simp
  moreover have "\<forall>x \<in> set evs. b_announced (announce_one e b) < ev_Seq x" using Cons.prems(2) by (simp add: announce_one_def ascending_def)
  ultimately show ?case using Cons.IH Cons.prems(2) by (simp add: ascending_def)
qed simp

text \<open>The loop announces the log in order and keeps the mark within it.\<close>

lemma announce_loop_told:
  assumes "told_upto (b_announced b) b" "ascending (bus_events (b_store b))" "b_announced b \<le> L"
    "\<forall>e \<in> set (bus_events (b_store b)). ev_Seq e \<le> L" "\<And>ev. fb = Some ev \<Longrightarrow> ev_Seq ev \<le> L"
  shows "told_upto (b_announced (announce_loop fb b)) (announce_loop fb b) \<and> b_announced (announce_loop fb b) \<le> L"
  using assms
proof (induction fb b rule: announce_loop.induct)
  case (1 fb b)
  define since where "since = (\<lambda>s. BusEventsSince s (b_announced b) (b_batchSize b))"
  obtain b1 res where r: "with_db b since = (b1, res)" by (cases "with_db b since")
  have b1: "b1 = b\<lparr>b_store := fst (since (b_store b))\<rparr>" "res = snd (since (b_store b))" using r by (simp_all add: with_db_def)
  have same: "same_tables (b_store b) (b_store b1)" using reads_same(2) b1 by (simp add: since_def)
  have t1: "told_upto (b_announced b1) b1" "b_announced b1 = b_announced b" using 1(2) b1 by (simp_all add: told_upto_def heard_def)
  show ?case
  proof (cases res)
    case (Inl e)
    then have "announce_loop fb b = announce_fallback fb b1" using r by (subst announce_loop.simps) (simp add: since_def)
    then show ?thesis using t1 1(4,6) announce_one_told
      by (auto simp: announce_fallback_def announce_one_def split: option.splits)
  next
    case (Inr evs)
    obtain k where k: "evs = take k (above (b_announced b) (bus_events (b_store b)))" using Since_result Inr b1(2) by (metis since_def)
    have asc: "ascending evs" using 1(3) by (simp add: k ascending_take)
    have evs: "\<forall>e \<in> set evs. b_announced b1 < ev_Seq e" "\<forall>e \<in> set evs. ev_Seq e \<le> L"
      using 1(5) t1(2) by (auto simp: k above_def dest!: in_set_takeD)
    define b2 where "b2 = fold announce_one evs b1"
    have t2: "told_upto (b_announced b2) b2" using announce_fold_told [OF t1(1) asc evs(1)] by (simp add: b2_def)
    have st2: "b_store b2 = b_store b1" by (simp add: b2_def announce_all)
    have an: "b_announced b2 \<le> L" using evs(2) 1(4) t1(2) announce_all(2) [of evs b1] by (cases "evs = []") (auto simp: b2_def)
    have ih: "evs \<noteq> [] \<Longrightarrow> \<not> int (length evs) < b_batchSize b \<Longrightarrow>
        told_upto (b_announced (announce_loop fb b2)) (announce_loop fb b2) \<and> b_announced (announce_loop fb b2) \<le> L"
      using 1(1) [OF r [unfolded since_def, symmetric] Inr _ b2_def] t2 an st2 same 1(3,5,6) by (simp add: same_tables_def)
    have "announce_loop fb b = (if evs = [] then b1 else if int (length evs) < b_batchSize b then b2 else announce_loop fb b2)"
      using r Inr by (subst announce_loop.simps) (simp add: since_def b2_def Let_def)
    then show ?thesis using t1 t2 an ih 1(4) by simp
  qed
qed

lemma markHead_told:
  assumes "told_upto m b" "m \<le> last_seq (b_store b)" "markHead b = (b1, ok)"
  shows "told_upto m b1" "b_marked b1 = (ok \<or> b_marked b)" "ok \<Longrightarrow> b_announced b1 = last_seq (b_store b)"
proof -
  have "b_told b1 = b_told b" "b_ephemeral b1 = b_ephemeral b" "b_nextSubID b1 = b_nextSubID b" "b_marked b1 = (ok \<or> b_marked b)"
    using assms(3) by (auto simp: markHead_def with_db_def split: sum.splits)
  then show "told_upto m b1" "b_marked b1 = (ok \<or> b_marked b)" using told_upto_cong assms(1) by blast+
  show "ok \<Longrightarrow> b_announced b1 = last_seq (b_store b)"
    using assms(3) BusBounds_head by (fastforce simp: markHead_def with_db_def split: sum.splits)
qed

lemma announce_fold_marked: "b_marked (fold announce_one evs b) = b_marked b"
  by (induction evs arbitrary: b) (simp_all add: announce_one_def fanoutEphemeral_def)

lemma announce_loop_marked: "b_marked (announce_loop fb b) = b_marked b"
proof (induction fb b rule: announce_loop.induct)
  case (1 fb b)
  obtain b1 res where r: "with_db b (\<lambda>s. BusEventsSince s (b_announced b) (b_batchSize b)) = (b1, res)"
    by (cases "with_db b (\<lambda>s. BusEventsSince s (b_announced b) (b_batchSize b))")
  have b1: "b_marked b1 = b_marked b" using r by (auto simp: with_db_def)
  show ?case
  proof (cases res)
    case (Inl e)
    then show ?thesis using r b1
      by (subst announce_loop.simps) (auto simp: announce_fallback_def announce_one_def fanoutEphemeral_def split: option.splits)
  next
    case (Inr evs)
    then show ?thesis using 1 [OF r [symmetric] Inr] r b1 by (subst announce_loop.simps) (auto simp: Let_def announce_fold_marked)
  qed
qed

text \<open>Announcing, with the event just appended, if any, as the fallback.\<close>

lemma announceLocked_told:
  assumes "if b_marked b then b_announced b \<le> last_seq (b_store b) \<and> told_upto (b_announced b) b else told_upto m b"
    and "log_ok hist (b_store b)" "\<not> b_marked b \<longrightarrow> m \<le> last_seq (b_store b)"
    and fb: "\<And>ev. fb = Some ev \<Longrightarrow> ev_Seq ev = last_seq (b_store b) \<and> m < ev_Seq ev"
  shows "told_ok (announceLocked fb b)"
proof -
  define L where "L = last_seq (b_store b)"
  have log: "ascending (bus_events (b_store b))" "\<forall>e \<in> set (bus_events (b_store b)). ev_Seq e \<le> L"
    using assms(2) log_ok_seqs(4) [OF assms(2)] by (auto simp: log_ok_def L_def)
  have fbL: "\<And>ev. fb = Some ev \<Longrightarrow> ev_Seq ev \<le> L" using fb by (simp add: L_def)
  have marked: "b_marked (announce_loop fb x) = b_marked x \<and> last_seq (b_store (announce_loop fb x)) = last_seq (b_store x)" for x
    using announce_loop_marked only_told_loop [of x fb] by (simp add: only_told_def same_tables_def)
  show ?thesis
  proof (cases "b_marked b")
    case True
    then have "told_upto (b_announced (announce_loop fb b)) (announce_loop fb b) \<and> b_announced (announce_loop fb b) \<le> L"
      using announce_loop_told [of b L fb, OF _ log(1) _ log(2) fbL] assms(1) by (simp add: L_def)
    then show ?thesis using True marked by (simp add: told_ok_def announceLocked_def L_def)
  next
    case False
    then have m: "told_upto m b" "m \<le> L" using assms(1,3) by (simp_all add: L_def)
    obtain b1 ok where mk: "markHead b = (b1, ok)" by (cases "markHead b")
    have t: "same_tables (b_store b) (b_store b1)" using only_told_mark [of b] mk by (simp add: only_told_def)
    note mh = markHead_told [OF m(1) m(2) [unfolded L_def] mk]
    show ?thesis
    proof (cases ok)
      case True
      then have b1: "b_marked b1" "b_announced b1 = L" "told_upto (b_announced b1) b1"
        using mh told_upto_mono [OF mh(1) m(2)] by (simp_all add: L_def)
      have "told_upto (b_announced (announce_loop fb b1)) (announce_loop fb b1) \<and> b_announced (announce_loop fb b1) \<le> L"
        using announce_loop_told [of b1 L fb] b1 log fbL t by (simp add: same_tables_def)
      then show ?thesis using False True mk marked b1(1) t by (simp add: told_ok_def announceLocked_def L_def same_tables_def)
    next
      case nok: False
      have b1: "\<not> b_marked b1" and tm: "told_upto m b1" using mh(1,2) nok False by simp_all
      show ?thesis
      proof (cases fb)
        case None
        then show ?thesis using False nok mk b1 told_upto_mono [OF tm] m(2) t by (simp add: told_ok_def announceLocked_def L_def same_tables_def)
      next
        case (Some ev)
        have "told_upto (ev_Seq ev) (fanoutEphemeral ev b1)" using fanout_heard [OF tm, of ev] fb [OF Some] by simp
        moreover have "b_store (fanoutEphemeral ev b1) = b_store b1" "b_marked (fanoutEphemeral ev b1) = b_marked b1"
          by (simp_all add: fanoutEphemeral_def)
        ultimately show ?thesis using Some False nok mk b1 fb [OF Some] t by (simp add: told_ok_def announceLocked_def same_tables_def)
      qed
    qed
  qed
qed

subsection \<open>Every action keeps it\<close>

text \<open>What announcing depends on; most actions leave it alone.\<close>

definition voice :: "Bus \<Rightarrow> (nat \<times> Event) list \<times> ephemeralSub list \<times> nat \<times> bool \<times> int" where
  "voice b = (b_told b, b_ephemeral b, b_nextSubID b, b_marked b, b_announced b)"

lemma voice_store [simp]: "voice (b\<lparr>b_store := s\<rparr>) = voice b"
  by (simp add: voice_def)

lemma voice_initConsumer: "initConsumer now d head b = (b', res) \<Longrightarrow> voice b' = voice b"
  by (auto simp: initConsumer_def with_db_def Let_def split: sum.splits prod.splits)

lemma voice_start_durables: "start_durables now head b ds = (b', ds', res) \<Longrightarrow> voice b' = voice b"
  by (induction ds arbitrary: b b' ds' res) (auto dest: voice_initConsumer split: sum.splits prod.splits)

lemma voice_deliver_step:
  assumes "deliver_step now ch failed b d = (b', d')"
  shows "voice b' = voice b"
proof -
  obtain st h where "b' = b\<lparr>b_store := st, b_handled := h\<rparr>" using deliver_effect(2) [OF assms] by blast
  then show ?thesis by (simp add: voice_def)
qed

definition voiceless :: "action \<Rightarrow> bool" where
  "voiceless a = (case a of APublish _ _ _ _ _ \<Rightarrow> False | AAnnounce \<Rightarrow> False | ASubscribe _ \<Rightarrow> False | AUnsubscribe _ \<Rightarrow> False
     | ARestart _ \<Rightarrow> False | _ \<Rightarrow> True)"

lemma act_voice:
  assumes "voiceless a"
  shows "voice (act a b) = voice b"
proof (cases a)
  case (ARegister now nm f hooked)
  then show ?thesis
    by (auto simp: bus_register_def with_db_def Let_def voice_def dest!: voice_initConsumer split: sum.splits prod.splits)
next
  case (AStart now)
  then show ?thesis
    by (auto simp: bus_Start_def with_db_def Let_def voice_def dest!: voice_start_durables split: sum.splits prod.splits)
next
  case (ASetFilter now nm f)
  then show ?thesis
    by (auto simp: bus_SetFilter_def with_db_def Let_def voice_def split: sum.splits prod.splits option.splits)
next
  case (AUnregistered k)
  then show ?thesis by (auto simp: Unregister_end_def with_db_def Let_def voice_def split: sum.splits prod.splits)
next
  case (ADeliver i now ch failed)
  then show ?thesis by (auto simp: Deliver_def voice_def dest!: voice_deliver_step split: prod.splits)
next
  case (ADeliverLeaving k now ch failed)
  then show ?thesis by (auto simp: Deliver_leaving_def voice_def dest!: voice_deliver_step split: prod.splits option.splits)
qed (use assms in \<open>auto simp: voiceless_def voice_def with_db_def bus_Stop_def bus_trim_def Unregister_begin_def Unregister_retire_def\<close>)

lemma told_ok_voice:
  assumes "told_ok b" "voice b' = voice b" "last_seq (b_store b) \<le> last_seq (b_store b')"
  shows "told_ok b'"
proof -
  have v: "b_told b' = b_told b" "b_ephemeral b' = b_ephemeral b" "b_nextSubID b' = b_nextSubID b" "b_marked b' = b_marked b"
    "b_announced b' = b_announced b" using assms(2) by (simp_all add: voice_def)
  then show ?thesis using assms(1,3) told_upto_cong [OF v(1-3)] told_upto_mono [of _ b] by (auto simp: told_ok_def)
qed

lemma told_ok_woken: "told_ok b \<Longrightarrow> told_ok (wakeDurables n b)"
  by (erule told_ok_voice) (simp_all add: voice_def wakeDurables_def)

lemma publish_told:
  assumes "told_ok b" "b_stored b" "log_ok hist (b_store b)" "ev_Seq ev = 0"
  shows "told_ok (fst (publish now ev payload b))"
proof -
  define ev' where "ev' = (case payload of Some (Some raw) \<Rightarrow> ev\<lparr>ev_Payload := raw\<rparr> | _ \<Rightarrow> ev)\<lparr>ev_CreatedAt := now\<rparr>"
  define b1 res where "b1 = fst (with_db b (\<lambda>s. AppendBusEvent s ev' now))" and "res = snd (with_db b (\<lambda>s. AppendBusEvent s ev' now))"
  have v: "voice b1 = voice b" by (simp add: b1_def with_db_def)
  have st: "log_step (b_store b) (b_store b1)" using append_statements(1) [of "b_store b" ev' now] by (simp add: b1_def with_db_def)
  have "told_ok (fanoutEphemeral ev' b1)"
  proof -
    have z: "ev_Seq ev' = 0" using assms(4) by (simp add: ev'_def split: option.splits)
    have "told_ok b1" by (rule told_ok_voice [OF assms(1) v]) (use st in \<open>auto simp: log_step_def\<close>)
    moreover have "told_upto m (fanoutEphemeral ev' b1)" if m: "told_upto m b1" for m
      using fanout_heard [OF m, of ev'] z m max_absorb1 [of 0 m] unfolding told_upto_def by simp
    moreover have "b_marked (fanoutEphemeral ev' b1) = b_marked b1" "b_announced (fanoutEphemeral ev' b1) = b_announced b1"
      "b_store (fanoutEphemeral ev' b1) = b_store b1" by (simp_all add: fanoutEphemeral_def)
    ultimately show ?thesis by (simp add: told_ok_def split: if_splits)
  qed
  moreover have "told_ok (announceLocked (Some (ev'\<lparr>ev_Seq := seq\<rparr>)) b1)" if "res = Inr seq" for seq
  proof (rule announceLocked_told [where m = "last_seq (b_store b)"])
    have s: "seq = last_seq (b_store b) + 1" "last_seq (b_store b1) = seq"
      using that by (auto simp: res_def b1_def with_db_def AppendBusEvent_def exec_eq appendBusEventWith_def appended_def split: if_splits)
    show "if b_marked b1 then b_announced b1 \<le> last_seq (b_store b1) \<and> told_upto (b_announced b1) b1 else told_upto (last_seq (b_store b)) b1"
      using assms(1) v s told_upto_cong [of b1 b] by (auto simp: told_ok_def voice_def)
    show "log_ok (hist @ filter (\<lambda>e. last_seq (b_store b) < ev_Seq e) (bus_events (b_store b1))) (b_store b1)"
      using log_ok_step [OF assms(3) st] .
    show "\<not> b_marked b1 \<longrightarrow> last_seq (b_store b) \<le> last_seq (b_store b1)" using s by simp
    show "ev_Seq e = last_seq (b_store b1) \<and> last_seq (b_store b) < ev_Seq e" if "Some (ev'\<lparr>ev_Seq := seq\<rparr>) = Some e" for e
      using that s by auto
  qed
  moreover have "fst (publish now ev payload b) = (if TrimSpace (ev_Name ev) = [] \<or> payload = Some None then b
      else case res of Inl _ \<Rightarrow> fanoutEphemeral ev' b1
        | Inr seq \<Rightarrow> wakeDurables (ev_Name ev') (announceLocked (Some (ev'\<lparr>ev_Seq := seq\<rparr>)) b1))"
    using assms(2) unfolding b1_def res_def
    by (cases "with_db b (\<lambda>s. AppendBusEvent s ev' now)") (auto simp: publish_def Let_def ev'_def [symmetric] split: sum.splits)
  ultimately show ?thesis using assms(1) told_ok_woken by (auto split: sum.splits)
qed

lemma restart_told:
  assumes "told_upto (last_seq (b_store b)) b"
  shows "told_ok (restart opts b)"
proof -
  define b0 where "b0 = (bus_New (opts\<lparr>bo_Store := None\<rparr>))\<lparr>b_stored := True, b_store := b_store b, b_told := b_told b, b_handled := b_handled b\<rparr>"
  have b0: "told_upto (last_seq (b_store b0)) b0" "\<not> b_marked b0"
    using assms by (simp_all add: told_upto_def heard_def b0_def bus_New_def Let_def)
  have eq: "restart opts b = fst (markHead b0)"
    by (auto simp: restart_def bus_New_def b0_def markHead_def with_db_def Let_def split: sum.splits)
  obtain b1 ok where mk: "markHead b0 = (b1, ok)" by (cases "markHead b0")
  have t: "last_seq (b_store b1) = last_seq (b_store b0)" using only_told_mark [of b0] mk by (simp add: only_told_def same_tables_def)
  note mh = markHead_told [OF b0(1) _ mk]
  show ?thesis using mh b0(2) t mk by (cases ok) (simp_all add: eq told_ok_def)
qed

lemma told_ok_last: "told_ok b \<Longrightarrow> told_upto (last_seq (b_store b)) b"
  using told_upto_mono by (auto simp: told_ok_def split: if_splits)

lemma act_last_seq:
  assumes "loops_ok b" "proper_rows (b_store b)" "log_ok hist (b_store b)"
  shows "last_seq (b_store b) \<le> last_seq (b_store (act a b))"
proof (cases "\<exists>t. a = ATrim t")
  case True
  then show ?thesis using Trim_tables(2) by (auto simp: bus_trim_def with_db_def)
next
  case False
  then have "log_step (b_store b) (b_store (act a b))"
    using act_tables [OF assms(1,2), of "\<lambda>_. False" a] assms(3) by (auto simp: log_ok_def)
  then show ?thesis by (auto simp: log_step_def)
qed

lemma act_told:
  assumes "told_ok b" "b_stored b" "loops_ok b" "proper_rows (b_store b)" "log_ok hist (b_store b)"
  shows "told_ok (act a b)"
proof (cases "voiceless a")
  case True
  then show ?thesis using told_ok_voice [OF assms(1)] act_voice act_last_seq [OF assms(3-5)] by blast
next
  case False
  show ?thesis
  proof (cases a)
    case (APublish now source nm subject payload)
    then show ?thesis using publish_told [OF assms(1,2,5)] by (simp add: PublishFrom_def new_event_def)
  next
    case AAnnounce
    have "told_ok (announceLocked None b)"
      using announceLocked_told [of b "last_seq (b_store b)" hist None] assms(1,5) by (simp add: told_ok_def)
    then show ?thesis using AAnnounce assms(2) told_ok_woken by (simp add: Announce_def)
  next
    case (ASubscribe f)
    have "told_upto m b \<Longrightarrow> told_upto m (Subscribe f b)" for m by (auto simp: told_upto_def heard_def Subscribe_def)
    then show ?thesis using ASubscribe assms(1) by (simp add: told_ok_def Subscribe_def split: if_splits)
  next
    case (AUnsubscribe i)
    have "told_upto m b \<Longrightarrow> told_upto m (unsubscribe i b)" for m
      by (auto simp: told_upto_def heard_def unsubscribe_def intro: distinct_map_filter)
    then show ?thesis using AUnsubscribe assms(1) by (simp add: told_ok_def unsubscribe_def split: if_splits)
  next
    case (ARestart opts)
    then show ?thesis using restart_told told_ok_last [OF assms(1)] by simp
  qed (use False in \<open>simp_all add: voiceless_def\<close>)
qed

lemma perform_told:
  assumes "world_ok w" "told_ok (w_bus w)"
  shows "told_ok (w_bus (perform a w))"
proof -
  have compact: "told_ok (b\<lparr>b_store := s\<rparr>)" if "told_ok b" "last_seq s = last_seq (b_store b)" for b s
    using told_ok_voice [OF that(1), of "b\<lparr>b_store := s\<rparr>"] that(2) by simp
  have "told_ok (w_bus (pass_list w))"
    using assms(2) compact [OF assms(2), of "fst (ListBusConsumers (w_db w))"] reads_same(4) [of "w_db w"]
    by (auto simp: pass_list_def with_db_def same_tables_def split: sum.splits)
  moreover have "told_ok (w_bus (pass_floor k w))" for k
  proof -
    have "told_ok b1" if f: "floor_of cs (w_bus w) = (b1, r)" for cs b1 r
    proof -
      obtain s where "b1 = (w_bus w)\<lparr>b_store := s\<rparr>" using floor_of_effect(2) [OF f] by blast
      then show ?thesis using compact [OF assms(2), of s] floor_of_effect(1) [OF f] by (simp add: same_tables_def)
    qed
    then show ?thesis using assms(2) by (auto simp: pass_floor_def split: compaction.splits sum.splits prod.splits)
  qed
  moreover have "told_ok (w_bus (pass_delete k w))" for k
    using assms(2) compact [OF assms(2)] Compact_tables(2) by (auto simp: pass_delete_def with_db_def split: compaction.splits)
  moreover have "told_ok (w_bus (acted a w))"
    using act_told [of "w_bus w" "w_history w" a] assms by (simp add: acted_def Let_def world_ok_def)
  ultimately show ?thesis by (cases a) simp_all
qed

lemma fresh_told: "told_ok (w_bus (fresh_world opts faults))"
proof -
  define b0 where "b0 = (bus_New (opts\<lparr>bo_Store := None\<rparr>))\<lparr>b_store := no_store\<lparr>db_faults := faults\<rparr>\<rparr>"
  have "told_upto (last_seq (b_store b0)) b0"
    by (simp add: b0_def bus_New_def Let_def told_upto_def heard_def no_store_def)
  moreover have "restart opts b0 = w_bus (fresh_world opts faults)"
    by (auto simp: b0_def restart_def fresh_world_def bus_New_def markHead_def with_db_def Let_def split: sum.splits)
  ultimately show ?thesis using restart_told [of b0 opts] by simp
qed

lemma reachable_told: "reachable_world w \<Longrightarrow> told_ok (w_bus w)"
  by (induction rule: reachable_world.induct) (simp_all add: fresh_told perform_told reachable_world_ok)

subsection \<open>The properties\<close>

text \<open>
  C19. In every reachable world, the sequence numbers of the stored events a subscriber was called with are
  strictly ascending: whatever fails and whoever appended the events, no subscriber is told a stored event
  twice or after a later one.
\<close>

theorem announced_in_order:
  assumes "reachable_world w"
  shows "sorted_wrt (<) (heard i (w_bus w))"
  using reachable_told [OF assms] by (auto simp: told_ok_def told_upto_def split: if_splits)

definition demo_heard :: world where
  "demo_heard = run [ASubscribe [''a.*''], APublish 0 [] ''a.x'' [] None, APublish 0 [] ''b'' [] None, APublish 0 [] ''a.y'' [] None]
     (fresh_world demo_options [])"

lemma demo_heard_evaluates: "map (\<lambda>x. (fst x, ev_Seq (snd x))) (b_told (w_bus demo_heard)) = [(0, 1), (0, 3)]"
  by (simp add: demo_heard_def demo_defs PublishFrom_def publish_def new_event_def AppendBusEvent_def appendBusEventWith_def appended_def
      max_seq_def announceLocked_def announce_loop_all above_def ascending_def announce_one_def fanoutEphemeral_def Matches_def
      matchPattern_def HasSuffix_def HasPrefix_def wakeDurables_def)

theorem announced_in_order_witness: "heard 0 (w_bus demo_heard) = [1, 3] \<and> sorted_wrt (<) (heard 0 (w_bus demo_heard))"
proof -
  have "reachable_world demo_heard" unfolding demo_heard_def by (rule reachable_run, rule reachable_world.fresh)
  then show ?thesis using announced_in_order [of demo_heard 0] demo_heard_evaluates by (auto simp: heard_def)
qed

text \<open>
  C20. A publish of an event with a name and a payload that can be encoded, on a marked bus whose
  database works and whose log has a sequence number left: the log gains exactly the event, with the
  next sequence number, which is returned; every subscriber whose filter matches is called, in order,
  with every event after the announce mark, those of other writers first and the new one last; and the
  mark stands at the new event.
\<close>

theorem publish_announces:
  assumes "reachable_world w" "b = w_bus w" "b_marked b" "db_faults (b_store b) = []" "last_seq (b_store b) \<noteq> max_seq"
    "TrimSpace nm \<noteq> []" "payload \<noteq> Some None"
  shows "\<exists>b'. PublishFrom now source nm subject payload b = (b', Inr (last_seq (b_store b) + 1)) \<and>
    bus_events (b_store b') = bus_events (b_store b) @ [stored_event now source nm subject payload (last_seq (b_store b) + 1)] \<and>
    b_announced b' = last_seq (b_store b) + 1 \<and>
    b_told b' = b_told b @ concat (map (calls_of (b_ephemeral b))
      (above (b_announced b) (bus_events (b_store b)) @ [stored_event now source nm subject payload (last_seq (b_store b) + 1)]))"
proof -
  define seq ev where "seq = last_seq (b_store b) + 1" and "ev = stored_event now source nm subject payload seq"
  define b1 where "b1 = b\<lparr>b_store := b_store b\<lparr>bus_events := bus_events (b_store b) @ [ev], last_seq := seq\<rparr>\<rparr>"
  have ok: "b_stored b" "log_ok (w_history w) (b_store b)" "told_ok b"
    using reachable_world_ok [OF assms(1)] reachable_told [OF assms(1)] by (simp_all add: world_ok_def assms(2))
  have ann: "b_announced b < seq" using ok(3) assms(3) by (simp add: told_ok_def seq_def)
  have evs: "ev_Seq ev = seq" by (simp add: ev_def stored_event_def)
  obtain fb where p: "PublishFrom now source nm subject payload b = (wakeDurables nm (announceLocked (Some fb) b1), Inr seq)"
    using PublishFrom_works [OF ok(1) assms(4-7), of now source subject] unfolding b1_def seq_def ev_def by blast
  have "\<forall>e \<in> set (bus_events (b_store b)). ev_Seq e < seq" using log_ok_seqs(4) [OF ok(2)] by (force simp: seq_def)
  then have asc: "ascending (bus_events (b_store b1))"
    using ok(2) evs by (auto simp: b1_def log_ok_def ascending_def sorted_wrt_append)
  define A where "A = above (b_announced b) (bus_events (b_store b)) @ [ev]"
  have "announceLocked (Some fb) b1 = fold announce_one A b1"
    using announce_loop_all [of b1 "Some fb"] asc assms(3,4) ann evs by (simp add: announceLocked_def b1_def A_def above_def)
  then have "PublishFrom now source nm subject payload b = (wakeDurables nm (fold announce_one A b1), Inr seq)" using p by simp
  moreover have "b_store (fold announce_one A b1) = b_store b1" "b_announced (fold announce_one A b1) = seq"
    "b_told (fold announce_one A b1) = b_told b @ concat (map (calls_of (b_ephemeral b)) A)"
    using announce_all [of A b1] announce_fold_calls(1) [of A b1] evs by (simp_all add: A_def b1_def)
  ultimately show ?thesis unfolding A_def ev_def [symmetric] seq_def [symmetric]
    by (intro exI [of _ "wakeDurables nm (fold announce_one A b1)"]) (simp add: wakeDurables_def A_def b1_def)
qed

lemma demo_audience_evaluates:
  "b_marked (w_bus demo_audience)" "db_faults (w_db demo_audience) = []" "last_seq (w_db demo_audience) = 0"
  "b_ephemeral (w_bus demo_audience) = [\<lparr>sub_id = 0, sub_filter = [''a.*'']\<rparr>, \<lparr>sub_id = 1, sub_filter = [''b'']\<rparr>]"
  "b_told (w_bus demo_audience) = []" "bus_events (w_db demo_audience) = []"
  by (simp_all add: demo_audience_def demo_defs)

theorem publish_announces_witness:
  "\<exists>b'. PublishFrom 0 [] ''a.x'' [] None (w_bus demo_audience) = (b', Inr 1) \<and>
    b_told b' = [(0, stored_event 0 [] ''a.x'' [] None 1)]"
proof -
  have "TrimSpace ''a.x'' \<noteq> []" by (simp add: TrimSpace_graphic graphic_def)
  then have "\<exists>b'. PublishFrom 0 [] ''a.x'' [] None (w_bus demo_audience) = (b', Inr 1) \<and>
      b_told b' = concat (map (calls_of (b_ephemeral (w_bus demo_audience))) [stored_event 0 [] ''a.x'' [] None 1])"
    using publish_announces [of demo_audience "w_bus demo_audience" "''a.x''" None 0 "[]" "[]"] demo_audience_evaluates
    by (auto simp: max_seq_def above_def)
  then show ?thesis
    by (simp add: demo_audience_evaluates(4) calls_of_def stored_event_def Matches_def matchPattern_def HasSuffix_def HasPrefix_def)
qed

text \<open>
  C34. When the announce mark could not be placed as the bus was made, and the database works by now and
  its log has a sequence number left, the first event with a name and a proper payload published
  afterwards is stored and its sequence number returned, but no subscriber is told of it: the mark is
  placed at the head of the log, which is the new event itself.
\<close>

theorem first_event_unannounced:
  assumes "reachable_world w" "b = w_bus w" "\<not> b_marked b" "db_faults (b_store b) = []" "last_seq (b_store b) \<noteq> max_seq"
    "TrimSpace nm \<noteq> []" "payload \<noteq> Some None"
  shows "\<exists>b'. PublishFrom now source nm subject payload b = (b', Inr (last_seq (b_store b) + 1)) \<and>
    bus_events (b_store b') = bus_events (b_store b) @ [stored_event now source nm subject payload (last_seq (b_store b) + 1)] \<and>
    b_marked b' \<and> b_announced b' = last_seq (b_store b) + 1 \<and> b_told b' = b_told b"
proof -
  define seq ev where "seq = last_seq (b_store b) + 1" and "ev = stored_event now source nm subject payload seq"
  define b1 where "b1 = b\<lparr>b_store := b_store b\<lparr>bus_events := bus_events (b_store b) @ [ev], last_seq := seq\<rparr>\<rparr>"
  have ok: "b_stored b" "log_ok (w_history w) (b_store b)" using reachable_world_ok [OF assms(1)] by (simp_all add: world_ok_def assms(2))
  obtain fb where p: "PublishFrom now source nm subject payload b = (wakeDurables nm (announceLocked (Some fb) b1), Inr seq)"
    using PublishFrom_works [OF ok(1) assms(4-7), of now source subject] unfolding b1_def seq_def ev_def by blast
  have evs: "ev_Seq ev = seq" by (simp add: ev_def stored_event_def)
  have low: "\<forall>e \<in> set (bus_events (b_store b)). ev_Seq e < seq" using log_ok_seqs(4) [OF ok(2)] by (force simp: seq_def)
  define b2 where "b2 = b1\<lparr>b_announced := seq, b_marked := True\<rparr>"
  have "markHead b1 = (b2, True)"
    using assms(4) by (auto simp: markHead_def with_db_def BusBounds_def exec_works b1_def b2_def split: list.splits)
  moreover have "announce_loop (Some fb) b2 = b2"
  proof -
    have "ascending (bus_events (b_store b2))"
      using ok(2) low evs by (auto simp: b2_def b1_def log_ok_def ascending_def sorted_wrt_append)
    moreover have "above (b_announced b2) (bus_events (b_store b2)) = []"
      using low evs by (auto simp: b2_def b1_def above_def filter_empty_conv)
    ultimately show ?thesis using announce_loop_all [of b2 "Some fb"] assms(4) by (simp add: b2_def b1_def)
  qed
  ultimately have "PublishFrom now source nm subject payload b = (wakeDurables nm b2, Inr seq)"
    using p assms(3) by (simp add: announceLocked_def b1_def)
  then show ?thesis unfolding ev_def [symmetric] seq_def [symmetric]
    by (intro exI [of _ "wakeDurables nm b2"]) (simp add: wakeDurables_def b2_def b1_def)
qed

lemma demo_unmarked_evaluates:
  "\<not> b_marked (w_bus demo_unmarked)" "db_faults (w_db demo_unmarked) = []" "last_seq (w_db demo_unmarked) = 0"
  "b_told (w_bus demo_unmarked) = []"
  by (simp_all add: demo_unmarked_def demo_defs)

theorem first_event_unannounced_witness:
  "\<exists>b'. PublishFrom 0 [] ''a'' [] None (w_bus demo_unmarked) = (b', Inr 1) \<and> b_told b' = []"
proof -
  have "TrimSpace ''a'' \<noteq> []" by (simp add: TrimSpace_graphic graphic_def)
  then show ?thesis
    using first_event_unannounced [of demo_unmarked "w_bus demo_unmarked" "''a''" None 0 "[]" "[]"] demo_unmarked_evaluates
    by (auto simp: max_seq_def)
qed

end
