(* ===== verification/Supervise.thy ===== *)
theory Supervise
  imports Go_Time Go_Strings "HOL-Library.AList"
begin

text \<open>
  The supervisor of child processes, \<open>internal/supervise/supervise.go\<close>: it starts a child, waits for it to
  connect, restarts it with a growing delay when it exits, and parks it when it never becomes stable. The
  surroundings are part of the state: the clock, the timers that are armed, the callbacks of timers that
  went off but have not run yet (stopping such a timer comes too late), and the goroutines that wait for a
  process. Everything under the supervisor's lock is one step. A start function is a number; whether it starts
  a process or fails with a text is an argument of the step that calls it. Killing a process is recorded: the
  process ends when its goroutine says so. The log files of the children are not modelled.
\<close>

subsection \<open>State\<close>

datatype DesiredState = DesiredRunning | DesiredStopped

datatype Phase = PhaseStarting | PhaseConnected | PhaseBackoff | PhaseStopped | PhaseParked

definition RestartBackoff :: "duration list" where
  "RestartBackoff = [250 * millisecond, 500 * millisecond, second, 2 * second, 4 * second, 8 * second, 16 * second, 30 * second]"

definition DisconnectGrace :: duration where "DisconnectGrace = 5 * second"
definition StableConnection :: duration where "StableConnection = 60 * second"
definition DefaultGiveUpAfter :: int where "DefaultGiveUpAfter = 10"

record Exit =
  ex_At :: time
  ex_ExitCode :: "int option"
  ex_Signal :: string
  ex_Error :: string

record Park =
  pk_ParkedAt :: time
  pk_RestartAttempt :: int
  pk_LastExit :: "Exit option"

record child =
  ch_start :: "nat option"
  ch_desired :: DesiredState
  ch_phase :: Phase
  ch_generation :: int
  ch_process :: "nat option"
  ch_restartAttempt :: int
  ch_startedAt :: time
  ch_connectedAt :: time
  ch_nextRestartAt :: time
  ch_parkedAt :: time
  ch_lastExit :: "Exit option"
  ch_restartTimer :: "nat option"
  ch_disconnectTimer :: "nat option"
  ch_stabilityTimer :: "nat option"

record sup_Snapshot =
  sn_Desired :: DesiredState
  sn_Phase :: Phase
  sn_Generation :: int
  sn_Running :: bool
  sn_Connected :: bool
  sn_RestartAttempt :: int
  sn_StartedAt :: time
  sn_ConnectedAt :: time
  sn_NextRestartAt :: time
  sn_ParkedAt :: time
  sn_LastExit :: "Exit option"

text \<open>What a timer calls: \<open>restart\<close>, \<open>disconnectExpired\<close> or \<open>markStable\<close>, with what it captured.\<close>

datatype callback = Restart string int | DisconnectExpired string int nat | MarkStable string int

fun cb_name :: "callback \<Rightarrow> string" where
  "cb_name (Restart nm _) = nm"
| "cb_name (DisconnectExpired nm _ _) = nm"
| "cb_name (MarkStable nm _) = nm"

record timer =
  t_id :: nat
  t_at :: time
  t_call :: callback

record waiter =
  wt_process :: nat
  wt_name :: string
  wt_generation :: int

record Supervisor =
  s_children :: "(string \<times> child) list"
  s_giveUpAfter :: int
  s_shutdown :: bool
  s_stopping :: "string list"
  s_now :: time
  s_timers :: "timer list"
  s_nextTimer :: nat
  s_fired :: "callback list"
  s_waiting :: "waiter list"
  s_nextProcess :: nat
  s_killed :: "nat list"
  s_starts :: "(string \<times> nat \<times> int) list"
  s_gaveUp :: "(string \<times> sup_Snapshot) list"
  s_changed :: "string list"
  s_panicked :: bool

datatype sup_error = ChildNameRequired | NotPlain | StartRequired | ShutDown | AlreadySupervised | ErrParked | StartFailed string

definition sup_New :: "int \<Rightarrow> time \<Rightarrow> Supervisor" where
  "sup_New giveUpAfter now =
     \<lparr>s_children = [], s_giveUpAfter = (if giveUpAfter = 0 then DefaultGiveUpAfter else giveUpAfter), s_shutdown = False,
      s_stopping = [], s_now = now, s_timers = [], s_nextTimer = 0, s_fired = [], s_waiting = [], s_nextProcess = 0,
      s_killed = [], s_starts = [], s_gaveUp = [], s_changed = [], s_panicked = False\<rparr>"

abbreviation child_of :: "Supervisor \<Rightarrow> string \<Rightarrow> child option" where
  "child_of s nm \<equiv> map_of (s_children s) nm"

definition put :: "string \<Rightarrow> child \<Rightarrow> Supervisor \<Rightarrow> Supervisor" where
  "put nm c s = s\<lparr>s_children := AList.update nm c (s_children s)\<rparr>"

text \<open>Generations are 64 bits wide.\<close>

definition next_generation :: "int \<Rightarrow> int" where
  "next_generation g = (g + 1) mod 2 ^ 64"

subsection \<open>Timers, processes, reports\<close>

definition AfterFunc :: "duration \<Rightarrow> callback \<Rightarrow> Supervisor \<Rightarrow> Supervisor \<times> nat" where
  "AfterFunc delay call s =
     (s\<lparr>s_timers := s_timers s @ [\<lparr>t_id = s_nextTimer s, t_at = s_now s + delay, t_call = call\<rparr>], s_nextTimer := s_nextTimer s + 1\<rparr>,
      s_nextTimer s)"

definition stopTimer :: "nat option \<Rightarrow> Supervisor \<Rightarrow> Supervisor" where
  "stopTimer t s = (case t of None \<Rightarrow> s | Some i \<Rightarrow> s\<lparr>s_timers := filter (\<lambda>x. t_id x \<noteq> i) (s_timers s)\<rparr>)"

definition Kill :: "nat \<Rightarrow> Supervisor \<Rightarrow> Supervisor" where
  "Kill p s = s\<lparr>s_killed := s_killed s @ [p]\<rparr>"

definition snapshotOf :: "child \<Rightarrow> sup_Snapshot" where
  "snapshotOf c =
     \<lparr>sn_Desired = ch_desired c, sn_Phase = ch_phase c, sn_Generation = ch_generation c, sn_Running = (ch_process c \<noteq> None),
      sn_Connected = (ch_phase c = PhaseConnected), sn_RestartAttempt = ch_restartAttempt c, sn_StartedAt = ch_startedAt c,
      sn_ConnectedAt = ch_connectedAt c, sn_NextRestartAt = ch_nextRestartAt c, sn_ParkedAt = ch_parkedAt c,
      sn_LastExit = ch_lastExit c\<rparr>"

definition sup_Snapshot_of :: "string \<Rightarrow> Supervisor \<Rightarrow> sup_Snapshot option" where
  "sup_Snapshot_of nm s = map_option snapshotOf (child_of s nm)"

definition notify :: "string \<Rightarrow> Supervisor \<Rightarrow> Supervisor" where
  "notify nm s = s\<lparr>s_changed := s_changed s @ [nm]\<rparr>"

definition reportGiveUp :: "string \<Rightarrow> sup_Snapshot \<Rightarrow> Supervisor \<Rightarrow> Supervisor" where
  "reportGiveUp nm snapshot s = s\<lparr>s_gaveUp := s_gaveUp s @ [(nm, snapshot)]\<rparr>"

text \<open>The end of an operation that may have parked the child: the reports come after the lock.\<close>

definition settle :: "string \<Rightarrow> child \<Rightarrow> Supervisor \<Rightarrow> Supervisor" where
  "settle nm c s = notify nm (if ch_phase c = PhaseParked then reportGiveUp nm (snapshotOf c) (put nm c s) else put nm c s)"

subsection \<open>Starting and restarting\<close>

definition scheduleRestartLocked :: "string \<Rightarrow> Supervisor \<Rightarrow> child \<Rightarrow> Supervisor \<times> child" where
  "scheduleRestartLocked nm s c =
     (let s1 = stopTimer (ch_restartTimer c) s; c1 = c\<lparr>ch_restartTimer := None\<rparr> in
      if s_giveUpAfter s1 > 0 \<and> ch_restartAttempt c1 \<ge> s_giveUpAfter s1
      then (s1, c1\<lparr>ch_phase := PhaseParked, ch_nextRestartAt := 0, ch_parkedAt := s_now s1\<rparr>)
      else let c2 = c1\<lparr>ch_restartAttempt := ch_restartAttempt c1 + 1\<rparr>;
               i = ch_restartAttempt c2 - 1;
               i = (if i \<ge> int (length RestartBackoff) then int (length RestartBackoff) - 1 else i)
           in if i < 0 then (s1\<lparr>s_panicked := True\<rparr>, c2)
              else let delay = RestartBackoff ! nat i;
                       (s2, t) = AfterFunc delay (Restart nm (ch_generation c2)) s1
                   in (s2, c2\<lparr>ch_phase := PhaseBackoff, ch_nextRestartAt := s_now s1 + delay, ch_restartTimer := Some t\<rparr>))"

text \<open>The fields \<open>spawnLocked\<close> sets before it calls the start function.\<close>

definition spawning :: "child \<Rightarrow> child" where
  "spawning c = c\<lparr>ch_generation := next_generation (ch_generation c), ch_phase := PhaseStarting, ch_nextRestartAt := 0, ch_parkedAt := 0,
     ch_restartTimer := None\<rparr>"

definition spawnLocked :: "string \<Rightarrow> string option \<Rightarrow> Supervisor \<Rightarrow> child \<Rightarrow> Supervisor \<times> child \<times> (sup_error + unit)" where
  "spawnLocked nm failed s c =
     (let s1 = stopTimer (ch_restartTimer c) s; c1 = spawning c in
      case ch_start c1 of
        None \<Rightarrow> (s1\<lparr>s_panicked := True\<rparr>, c1, Inr ())
      | Some f \<Rightarrow>
          (let s2 = s1\<lparr>s_starts := s_starts s1 @ [(nm, f, ch_generation c1)]\<rparr> in
           case failed of
             Some err \<Rightarrow>
               (let (s3, c3) = scheduleRestartLocked nm s2
                    (c1\<lparr>ch_lastExit := Some \<lparr>ex_At = s_now s2, ex_ExitCode = None, ex_Signal = [], ex_Error = err\<rparr>\<rparr>)
                in (s3, c3, Inl (StartFailed err)))
           | None \<Rightarrow>
               (let p = s_nextProcess s2;
                    (s3, t) = AfterFunc DisconnectGrace (DisconnectExpired nm (ch_generation c1) p)
                      (stopTimer (ch_disconnectTimer c1) s2)
                in (s3\<lparr>s_nextProcess := p + 1,
                       s_waiting := s_waiting s3 @ [\<lparr>wt_process = p, wt_name = nm, wt_generation = ch_generation c1\<rparr>]\<rparr>,
                    c1\<lparr>ch_process := Some p, ch_startedAt := s_now s2, ch_disconnectTimer := Some t\<rparr>, Inr ()))))"

subsection \<open>Callers\<close>

text \<open>\<open>filepath.Base\<close> on a system whose separator is the slash.\<close>

definition filepath_Base :: "string \<Rightarrow> string" where
  "filepath_Base path =
     (if path = [] then ''.''
      else let stripped = rev (dropWhile (\<lambda>ch. ch = CHR ''/'') (rev path));
               last_part = rev (takeWhile (\<lambda>ch. ch \<noteq> CHR ''/'') (rev stripped))
           in if last_part = [] then ''/'' else last_part)"

definition validateName :: "string \<Rightarrow> sup_error option" where
  "validateName nm =
     (if TrimSpace nm = [] then Some ChildNameRequired
      else if nm \<noteq> filepath_Base nm \<or> nm = ''.'' \<or> nm = ''..'' \<or> CHR ''/'' \<in> set nm then Some NotPlain
      else None)"

definition new_child :: "nat option \<Rightarrow> Phase \<Rightarrow> child" where
  "new_child start ph =
     \<lparr>ch_start = start, ch_desired = DesiredRunning, ch_phase = ph, ch_generation = 0, ch_process = None, ch_restartAttempt = 0,
      ch_startedAt = 0, ch_connectedAt = 0, ch_nextRestartAt = 0, ch_parkedAt = 0, ch_lastExit = None, ch_restartTimer = None,
      ch_disconnectTimer = None, ch_stabilityTimer = None\<rparr>"

definition AdoptParked :: "string \<Rightarrow> Park \<Rightarrow> Supervisor \<Rightarrow> Supervisor \<times> (sup_error + unit)" where
  "AdoptParked nm park s =
     (case validateName nm of
        Some e \<Rightarrow> (s, Inl e)
      | None \<Rightarrow>
          if s_shutdown s then (s, Inl ShutDown)
          else if child_of s nm \<noteq> None then (s, Inl AlreadySupervised)
          else (put nm ((new_child None PhaseParked)\<lparr>ch_parkedAt := pk_ParkedAt park, ch_restartAttempt := pk_RestartAttempt park,
                  ch_lastExit := pk_LastExit park\<rparr>) s, Inr ()))"

definition spawn_and_settle :: "string \<Rightarrow> string option \<Rightarrow> Supervisor \<Rightarrow> child \<Rightarrow> Supervisor \<times> (sup_error + unit)" where
  "spawn_and_settle nm failed s c = (let (s1, c1, r) = spawnLocked nm failed s c in (settle nm c1 s1, r))"

definition ensure ::
  "string \<Rightarrow> nat option \<Rightarrow> bool \<Rightarrow> string option \<Rightarrow> Supervisor \<Rightarrow> Supervisor \<times> (sup_error + unit)" where
  "ensure nm start revive failed s =
     (case validateName nm of
        Some e \<Rightarrow> (s, Inl e)
      | None \<Rightarrow>
          if start = None then (s, Inl StartRequired)
          else if s_shutdown s then (s, Inl ShutDown)
          else (case child_of s nm of
              None \<Rightarrow> spawn_and_settle nm failed s (new_child start PhaseStarting)
            | Some c0 \<Rightarrow>
                (let c = c0\<lparr>ch_start := start, ch_desired := DesiredRunning\<rparr> in
                 if ch_process c \<noteq> None \<or> ch_restartTimer c \<noteq> None then (put nm c s, Inr ())
                 else if ch_phase c = PhaseParked \<and> \<not> revive then (put nm c s, Inl ErrParked)
                 else spawn_and_settle nm failed s (if ch_phase c = PhaseParked then c\<lparr>ch_restartAttempt := 0\<rparr> else c))))"

definition Ensure :: "string \<Rightarrow> nat option \<Rightarrow> string option \<Rightarrow> Supervisor \<Rightarrow> Supervisor \<times> (sup_error + unit)" where
  "Ensure nm start failed s = ensure nm start True failed s"

definition EnsureUnlessParked :: "string \<Rightarrow> nat option \<Rightarrow> string option \<Rightarrow> Supervisor \<Rightarrow> Supervisor \<times> (sup_error + unit)" where
  "EnsureUnlessParked nm start failed s = ensure nm start False failed s"

definition sup_Stop :: "string \<Rightarrow> Supervisor \<Rightarrow> Supervisor" where
  "sup_Stop nm s =
     (case child_of s nm of
        None \<Rightarrow> s
      | Some c \<Rightarrow>
          (let s1 = stopTimer (ch_stabilityTimer c) (stopTimer (ch_disconnectTimer c) (stopTimer (ch_restartTimer c) s));
               c1 = c\<lparr>ch_desired := DesiredStopped, ch_phase := PhaseStopped, ch_restartAttempt := 0,
                   ch_generation := next_generation (ch_generation c), ch_connectedAt := 0, ch_nextRestartAt := 0, ch_parkedAt := 0,
                   ch_restartTimer := None, ch_disconnectTimer := None, ch_stabilityTimer := None, ch_process := None\<rparr>;
               s2 = put nm c1 s1;
               s3 = (case ch_process c of None \<Rightarrow> s2 | Some p \<Rightarrow> Kill p s2)
           in notify nm s3))"

definition TerminateGeneration :: "string \<Rightarrow> int \<Rightarrow> Supervisor \<Rightarrow> Supervisor \<times> bool" where
  "TerminateGeneration nm g s =
     (case child_of s nm of
        None \<Rightarrow> (s, False)
      | Some c \<Rightarrow>
          (if g = 0 \<or> g \<noteq> ch_generation c \<or> ch_desired c \<noteq> DesiredRunning then (s, False)
           else (case ch_process c of None \<Rightarrow> (s, False) | Some p \<Rightarrow> (Kill p s, True))))"

text \<open>\<open>Shutdown\<close> closes the supervisor, then stops the children it found, one lock at a time.\<close>

definition Shutdown_begin :: "Supervisor \<Rightarrow> Supervisor" where
  "Shutdown_begin s = (if s_shutdown s then s else s\<lparr>s_shutdown := True, s_stopping := map fst (s_children s)\<rparr>)"

definition Shutdown_next :: "string \<Rightarrow> Supervisor \<Rightarrow> Supervisor" where
  "Shutdown_next nm s =
     (if nm \<in> set (s_stopping s) then (sup_Stop nm s)\<lparr>s_stopping := filter (\<lambda>n. n \<noteq> nm) (s_stopping s)\<rparr> else s)"

definition NoteConnected :: "string \<Rightarrow> int \<Rightarrow> Supervisor \<Rightarrow> Supervisor \<times> bool" where
  "NoteConnected nm g s =
     (case child_of s nm of
        None \<Rightarrow> (s, True)
      | Some c \<Rightarrow>
          (if g = 0 \<or> g \<noteq> ch_generation c \<or> ch_desired c \<noteq> DesiredRunning \<or> ch_process c = None then (s, False)
           else let s1 = stopTimer (ch_stabilityTimer c) (stopTimer (ch_disconnectTimer c) s);
                    (s2, t) = AfterFunc StableConnection (MarkStable nm (ch_generation c)) s1
                in (notify nm (put nm (c\<lparr>ch_phase := PhaseConnected, ch_connectedAt := s_now s, ch_nextRestartAt := 0,
                      ch_disconnectTimer := None, ch_stabilityTimer := Some t\<rparr>) s2), True)))"

definition NoteDisconnected :: "string \<Rightarrow> int \<Rightarrow> Supervisor \<Rightarrow> Supervisor" where
  "NoteDisconnected nm g s =
     (case child_of s nm of
        None \<Rightarrow> s
      | Some c \<Rightarrow>
          (if g \<noteq> ch_generation c \<or> ch_desired c \<noteq> DesiredRunning then s
           else (case ch_process c of
               None \<Rightarrow> s
             | Some p \<Rightarrow>
                 (let s1 = stopTimer (ch_disconnectTimer c) (stopTimer (ch_stabilityTimer c) s);
                      (s2, t) = AfterFunc DisconnectGrace (DisconnectExpired nm (ch_generation c) p) s1
                  in notify nm (put nm (c\<lparr>ch_phase := PhaseStarting, ch_connectedAt := 0, ch_stabilityTimer := None,
                       ch_disconnectTimer := Some t\<rparr>) s2)))))"

subsection \<open>Callbacks\<close>

definition processExited :: "string \<Rightarrow> int \<Rightarrow> nat \<Rightarrow> Exit \<Rightarrow> Supervisor \<Rightarrow> Supervisor" where
  "processExited nm g p e s =
     (case child_of s nm of
        None \<Rightarrow> s
      | Some c \<Rightarrow>
          (if g \<noteq> ch_generation c \<or> ch_process c \<noteq> Some p then s
           else let s1 = stopTimer (ch_stabilityTimer c) (stopTimer (ch_disconnectTimer c) s);
                    c1 = c\<lparr>ch_process := None, ch_connectedAt := 0, ch_disconnectTimer := None, ch_stabilityTimer := None,
                        ch_lastExit := Some (e\<lparr>ex_At := s_now s\<rparr>)\<rparr>;
                    (s2, c2) = (if ch_desired c1 = DesiredRunning \<and> \<not> s_shutdown s1 then scheduleRestartLocked nm s1 c1
                      else (s1, c1\<lparr>ch_phase := PhaseStopped, ch_nextRestartAt := 0\<rparr>))
                in settle nm c2 s2))"

definition sup_restart :: "string \<Rightarrow> int \<Rightarrow> string option \<Rightarrow> Supervisor \<Rightarrow> Supervisor" where
  "sup_restart nm g failed s =
     (case child_of s nm of
        None \<Rightarrow> s
      | Some c \<Rightarrow>
          (if g \<noteq> ch_generation c \<or> ch_desired c \<noteq> DesiredRunning \<or> s_shutdown s then s
           else fst (spawn_and_settle nm failed s (c\<lparr>ch_restartTimer := None\<rparr>))))"

definition markStable :: "string \<Rightarrow> int \<Rightarrow> Supervisor \<Rightarrow> Supervisor" where
  "markStable nm g s =
     (case child_of s nm of
        None \<Rightarrow> s
      | Some c \<Rightarrow>
          (if g \<noteq> ch_generation c \<or> ch_phase c \<noteq> PhaseConnected then s
           else notify nm (put nm (c\<lparr>ch_restartAttempt := 0, ch_stabilityTimer := None\<rparr>) s)))"

definition disconnectExpired :: "string \<Rightarrow> int \<Rightarrow> nat \<Rightarrow> Supervisor \<Rightarrow> Supervisor" where
  "disconnectExpired nm g p s =
     (case child_of s nm of
        None \<Rightarrow> s
      | Some c \<Rightarrow>
          (if g \<noteq> ch_generation c \<or> ch_process c \<noteq> Some p \<or> ch_phase c = PhaseConnected \<or> ch_desired c \<noteq> DesiredRunning then s
           else Kill p (put nm (c\<lparr>ch_disconnectTimer := None\<rparr>) s)))"

fun call_back :: "callback \<Rightarrow> string option \<Rightarrow> Supervisor \<Rightarrow> Supervisor" where
  "call_back (Restart nm g) failed s = sup_restart nm g failed s"
| "call_back (DisconnectExpired nm g p) failed s = disconnectExpired nm g p s"
| "call_back (MarkStable nm g) failed s = markStable nm g s"

subsection \<open>What happens\<close>

datatype sup_action =
    SEnsure string "nat option" bool "string option"
  | SAdopt string Park
  | SStop string
  | STerminate string int
  | SShutdown
  | SStopNext string
  | SConnected string int
  | SDisconnected string int
  | SExit nat Exit
  | STick nat
  | SFire nat
  | SCall nat "string option"

definition without :: "nat \<Rightarrow> 'a list \<Rightarrow> 'a list" where
  "without k xs = take k xs @ drop (Suc k) xs"

text \<open>A timer goes off at its time or later; its callback then waits for the lock.\<close>

definition fire :: "nat \<Rightarrow> Supervisor \<Rightarrow> Supervisor" where
  "fire k s =
     (if k < length (s_timers s) \<and> t_at (s_timers s ! k) \<le> s_now s
      then s\<lparr>s_timers := without k (s_timers s), s_fired := s_fired s @ [t_call (s_timers s ! k)]\<rparr> else s)"

fun sup_act :: "sup_action \<Rightarrow> Supervisor \<Rightarrow> Supervisor" where
  "sup_act (SEnsure nm start revive failed) s = fst (ensure nm start revive failed s)"
| "sup_act (SAdopt nm park) s = fst (AdoptParked nm park s)"
| "sup_act (SStop nm) s = sup_Stop nm s"
| "sup_act (STerminate nm g) s = fst (TerminateGeneration nm g s)"
| "sup_act SShutdown s = Shutdown_begin s"
| "sup_act (SStopNext nm) s = Shutdown_next nm s"
| "sup_act (SConnected nm g) s = fst (NoteConnected nm g s)"
| "sup_act (SDisconnected nm g) s = NoteDisconnected nm g s"
| "sup_act (SExit k e) s =
     (if k < length (s_waiting s)
      then let w = s_waiting s ! k
           in processExited (wt_name w) (wt_generation w) (wt_process w) e (s\<lparr>s_waiting := without k (s_waiting s)\<rparr>)
      else s)"
| "sup_act (STick d) s = s\<lparr>s_now := s_now s + int d\<rparr>"
| "sup_act (SFire k) s = fire k s"
| "sup_act (SCall k failed) s =
     (if k < length (s_fired s) then call_back (s_fired s ! k) failed (s\<lparr>s_fired := without k (s_fired s)\<rparr>) else s)"

definition sup_run :: "sup_action list \<Rightarrow> Supervisor \<Rightarrow> Supervisor" where
  "sup_run acts s = fold sup_act acts s"

end
