(* ===== verification/Supervise_Laws.thy ===== *)
theory Supervise_Laws
  imports Supervise
begin

text \<open>
  The invariant of the supervisor: what each phase of a child means for its process, its timers and the
  callbacks on their way, and that every step keeps it as long as no generation can have wrapped around.
\<close>

subsection \<open>Pending callbacks\<close>

definition pending :: "Supervisor \<Rightarrow> callback \<Rightarrow> bool" where
  "pending s cb \<longleftrightarrow> cb \<in> t_call ` set (s_timers s) \<or> cb \<in> set (s_fired s)"

lemma stopTimer_simps [simp]:
  "s_children (stopTimer t s) = s_children s" "s_giveUpAfter (stopTimer t s) = s_giveUpAfter s" "s_shutdown (stopTimer t s) = s_shutdown s"
  "s_now (stopTimer t s) = s_now s" "s_nextTimer (stopTimer t s) = s_nextTimer s" "s_fired (stopTimer t s) = s_fired s"
  "s_waiting (stopTimer t s) = s_waiting s" "s_nextProcess (stopTimer t s) = s_nextProcess s" "s_killed (stopTimer t s) = s_killed s"
  "s_starts (stopTimer t s) = s_starts s" "s_panicked (stopTimer t s) = s_panicked s" "s_stopping (stopTimer t s) = s_stopping s"
  "set (s_timers (stopTimer t s)) = {x \<in> set (s_timers s). t \<noteq> Some (t_id x)}" "stopTimer None s = s"
  by (auto simp: stopTimer_def split: option.splits)

subsection \<open>The invariant\<close>

definition shape :: "Supervisor \<Rightarrow> string \<Rightarrow> child \<Rightarrow> bool" where
  "shape s nm c \<longleftrightarrow>
     (case ch_phase c of
        PhaseBackoff \<Rightarrow> ch_process c = None \<and> ch_desired c = DesiredRunning \<and> ch_start c \<noteq> None \<and>
          ch_restartTimer c \<noteq> None \<and> (s_shutdown s \<or> Restart nm (ch_generation c) \<in> set (s_fired s) \<or>
             (\<exists>t \<in> set (s_timers s). t_call t = Restart nm (ch_generation c) \<and> t_at t = ch_nextRestartAt c))
      | PhaseStopped \<Rightarrow> ch_process c = None \<and> ch_restartTimer c = None \<and> (ch_desired c = DesiredStopped \<or> s_shutdown s)
      | PhaseParked \<Rightarrow> ch_process c = None \<and> ch_restartTimer c = None \<and> ch_desired c = DesiredRunning
      | _ \<Rightarrow> (\<exists>p. ch_process c = Some p \<and> \<lparr>wt_process = p, wt_name = nm, wt_generation = ch_generation c\<rparr> \<in> set (s_waiting s)) \<and>
          ch_restartTimer c = None \<and> ch_desired c = DesiredRunning \<and> ch_start c \<noteq> None)"

definition within :: "int \<Rightarrow> Supervisor \<Rightarrow> child \<Rightarrow> bool" where
  "within n s c \<longleftrightarrow> 0 \<le> ch_generation c \<and> ch_generation c \<le> n \<and>
     (ch_phase c \<noteq> PhaseParked \<longrightarrow> 0 \<le> ch_restartAttempt c \<and> (0 < s_giveUpAfter s \<longrightarrow> ch_restartAttempt c \<le> s_giveUpAfter s))"

text \<open>A restart on its way belongs to an earlier generation or to a child in backoff.\<close>

definition restarts :: "Supervisor \<Rightarrow> string \<Rightarrow> child \<Rightarrow> bool" where
  "restarts s nm c \<longleftrightarrow> (\<forall>g. pending s (Restart nm g) \<longrightarrow> g \<le> ch_generation c \<and> (g = ch_generation c \<longrightarrow> ch_phase c = PhaseBackoff))"

text \<open>A process that is still waited for is the child's, or it was killed.\<close>

definition attended :: "Supervisor \<Rightarrow> string \<Rightarrow> child \<Rightarrow> bool" where
  "attended s nm c \<longleftrightarrow> (\<forall>w \<in> set (s_waiting s). wt_name w = nm \<longrightarrow> wt_generation w \<le> ch_generation c \<and>
     (wt_generation w = ch_generation c \<longrightarrow> ch_process c = Some (wt_process w)) \<and>
     (ch_process c \<noteq> Some (wt_process w) \<longrightarrow> wt_process w \<in> set (s_killed s)))"

text \<open>A process that has not connected has a grace that will end, or was killed.\<close>

definition graced :: "Supervisor \<Rightarrow> string \<Rightarrow> child \<Rightarrow> bool" where
  "graced s nm c \<longleftrightarrow> (\<forall>p. ch_phase c = PhaseStarting \<and> ch_process c = Some p \<longrightarrow>
     pending s (DisconnectExpired nm (ch_generation c) p) \<or> p \<in> set (s_killed s))"

text \<open>The timers a child remembers are its own.\<close>

definition owned :: "Supervisor \<Rightarrow> string \<Rightarrow> child \<Rightarrow> bool" where
  "owned s nm c \<longleftrightarrow>
     (\<forall>t \<in> set (s_timers s). (ch_restartTimer c = Some (t_id t) \<longrightarrow> (\<exists>g. t_call t = Restart nm g)) \<and>
        (ch_disconnectTimer c = Some (t_id t) \<longrightarrow> (\<exists>g p. t_call t = DisconnectExpired nm g p)) \<and>
        (ch_stabilityTimer c = Some (t_id t) \<longrightarrow> (\<exists>g. t_call t = MarkStable nm g))) \<and>
     (\<forall>i. ch_restartTimer c = Some i \<or> ch_disconnectTimer c = Some i \<or> ch_stabilityTimer c = Some i \<longrightarrow> i < s_nextTimer s)"

definition child_ok :: "int \<Rightarrow> Supervisor \<Rightarrow> string \<Rightarrow> child \<Rightarrow> bool" where
  "child_ok n s nm c \<longleftrightarrow> shape s nm c \<and> within n s c \<and> restarts s nm c \<and> attended s nm c \<and> graced s nm c \<and> owned s nm c"

lemmas child_ok_defs = child_ok_def shape_def within_def restarts_def attended_def graced_def owned_def

definition around :: "Supervisor \<Rightarrow> bool" where
  "around s \<longleftrightarrow> \<not> s_panicked s \<and> (\<forall>t \<in> set (s_timers s). t_id t < s_nextTimer s) \<and>
     distinct (map wt_process (s_waiting s)) \<and>
     (\<forall>w \<in> set (s_waiting s). wt_process w < s_nextProcess s \<and> child_of s (wt_name w) \<noteq> None) \<and>
     (\<forall>cb. pending s cb \<longrightarrow> child_of s (cb_name cb) \<noteq> None) \<and>
     (s_shutdown s \<longrightarrow> (\<forall>nm c. child_of s nm = Some c \<longrightarrow> nm \<in> set (s_stopping s) \<or> ch_phase c = PhaseStopped))"

definition sup_ok :: "int \<Rightarrow> Supervisor \<Rightarrow> bool" where
  "sup_ok n s \<longleftrightarrow> around s \<and> (\<forall>nm c. child_of s nm = Some c \<longrightarrow> child_ok n s nm c)"

subsection \<open>What concerns one child leaves the others alone\<close>

definition others :: "string \<Rightarrow> Supervisor \<Rightarrow> Supervisor \<Rightarrow> bool" where
  "others nm s s' \<longleftrightarrow> s_giveUpAfter s' = s_giveUpAfter s \<and> s_shutdown s' = s_shutdown s \<and>
     set (s_killed s) \<subseteq> set (s_killed s') \<and> s_nextTimer s \<le> s_nextTimer s' \<and>
     (\<forall>t \<in> set (s_timers s'). t \<in> set (s_timers s) \<or> s_nextTimer s \<le> t_id t) \<and>
     (\<forall>t. cb_name (t_call t) \<noteq> nm \<longrightarrow> (t \<in> set (s_timers s') \<longleftrightarrow> t \<in> set (s_timers s))) \<and>
     (\<forall>cb. cb_name cb \<noteq> nm \<longrightarrow> (cb \<in> set (s_fired s') \<longleftrightarrow> cb \<in> set (s_fired s))) \<and>
     (\<forall>w. wt_name w \<noteq> nm \<longrightarrow> (w \<in> set (s_waiting s') \<longleftrightarrow> w \<in> set (s_waiting s)))"

lemma others_refl [simp]: "others nm s s"
  by (simp add: others_def)

lemma others_trans: "others nm s s1 \<Longrightarrow> others nm s1 s2 \<Longrightarrow> others nm s s2"
  unfolding others_def by (intro conjI) (fastforce | blast)+

lemma others_pending: "others nm s s' \<Longrightarrow> cb_name cb \<noteq> nm \<Longrightarrow> pending s' cb = pending s cb"
  unfolding others_def pending_def by (auto simp: image_iff)

lemma others_child:
  assumes "child_ok n s nm' c" "others nm s s'" "nm' \<noteq> nm" "n \<le> n'"
  shows "child_ok n' s' nm' c"
proof -
  note o = assms(2) [unfolded others_def]
  have p: "pending s' (Restart nm' g) = pending s (Restart nm' g)" "pending s' (DisconnectExpired nm' g q) = pending s (DisconnectExpired nm' g q)" for g q
    using others_pending [OF assms(2)] assms(3) by simp_all
  have "shape s' nm' c"
  proof -
    have t: "(\<exists>t \<in> set (s_timers s'). t_call t = Restart nm' g \<and> t_at t = a) = (\<exists>t \<in> set (s_timers s). t_call t = Restart nm' g \<and> t_at t = a)" for g a
      using o assms(3) by (metis cb_name.simps(1))
    have w: "\<lparr>wt_process = q, wt_name = nm', wt_generation = g\<rparr> \<in> set (s_waiting s') \<longleftrightarrow> \<lparr>wt_process = q, wt_name = nm', wt_generation = g\<rparr> \<in> set (s_waiting s)" for q g
      using o assms(3) by simp
    have f: "Restart nm' g \<in> set (s_fired s') \<longleftrightarrow> Restart nm' g \<in> set (s_fired s)" for g using o assms(3) by simp
    have "s_shutdown s' = s_shutdown s" using o by simp
    then show ?thesis using assms(1) unfolding child_ok_def shape_def t w f by (simp split: Phase.splits)
  qed
  moreover have "within n' s' c" using assms(1,4) o by (simp add: child_ok_def within_def)
  moreover have "restarts s' nm' c" using assms(1) p by (simp add: child_ok_def restarts_def)
  moreover have "attended s' nm' c" using assms(1,3) o unfolding child_ok_def attended_def by blast
  moreover have "graced s' nm' c" using assms(1) p o unfolding child_ok_def graced_def by blast
  moreover have "owned s' nm' c" using assms(1) o unfolding child_ok_def owned_def
    by (metis (no_types, lifting) leD order_less_le_trans)
  ultimately show ?thesis by (simp add: child_ok_def)
qed

lemma sup_ok_step:
  assumes "sup_ok n s" "others nm s s'" "\<And>nm'. nm' \<noteq> nm \<Longrightarrow> child_of s' nm' = child_of s nm'"
    "\<And>c. child_of s' nm = Some c \<Longrightarrow> child_ok (n + 1) s' nm c" "around s'"
  shows "sup_ok (n + 1) s'"
  unfolding sup_ok_def
proof (intro conjI allI impI assms(5))
  fix nm' c
  assume c: "child_of s' nm' = Some c"
  show "child_ok (n + 1) s' nm' c"
  proof (cases "nm' = nm")
    case False
    then have "child_ok n s nm' c" using assms(1,3) c by (simp add: sup_ok_def)
    then show ?thesis by (rule others_child [OF _ assms(2) False]) simp
  qed (use c assms(4) in simp)
qed

subsection \<open>The parts of an operation\<close>

definition waiting_ok :: "Supervisor \<Rightarrow> bool" where
  "waiting_ok s \<longleftrightarrow> distinct (map wt_process (s_waiting s)) \<and> (\<forall>w \<in> set (s_waiting s). wt_process w < s_nextProcess s)"

definition ids_ok :: "Supervisor \<Rightarrow> bool" where
  "ids_ok s \<longleftrightarrow> (\<forall>t \<in> set (s_timers s). t_id t < s_nextTimer s)"

text \<open>A part of an operation on one child.\<close>

definition inside :: "string \<Rightarrow> Supervisor \<Rightarrow> Supervisor \<Rightarrow> bool" where
  "inside nm s s' \<longleftrightarrow> others nm s s' \<and> s_children s' = s_children s \<and> s_panicked s' = s_panicked s \<and> s_stopping s' = s_stopping s \<and>
     (ids_ok s \<longrightarrow> ids_ok s') \<and> (waiting_ok s \<longrightarrow> waiting_ok s') \<and> (\<forall>w \<in> set (s_waiting s'). w \<in> set (s_waiting s) \<or> wt_name w = nm) \<and>
     (\<forall>cb. pending s' cb \<longrightarrow> pending s cb \<or> cb_name cb = nm)"

lemma inside_refl [simp]: "inside nm s s"
  by (simp add: inside_def)

lemma inside_trans:
  assumes "inside nm s s1" "inside nm s1 s2"
  shows "inside nm s s2"
proof -
  have "others nm s s2" using assms others_trans unfolding inside_def by blast
  moreover have "\<forall>w \<in> set (s_waiting s2). w \<in> set (s_waiting s) \<or> wt_name w = nm" using assms unfolding inside_def by blast
  moreover have "\<forall>cb. pending s2 cb \<longrightarrow> pending s cb \<or> cb_name cb = nm" using assms unfolding inside_def by blast
  ultimately show ?thesis using assms unfolding inside_def by simp
qed

lemma inside_stop:
  assumes "\<forall>x \<in> set (s_timers s). t = Some (t_id x) \<longrightarrow> cb_name (t_call x) = nm"
  shows "inside nm s (stopTimer t s)"
  using assms by (auto simp: inside_def others_def ids_ok_def waiting_ok_def pending_def)

lemma AfterFunc_simps:
  assumes "AfterFunc d cb s = (s', t)"
  shows "s' = s\<lparr>s_timers := s_timers s @ [\<lparr>t_id = s_nextTimer s, t_at = s_now s + d, t_call = cb\<rparr>], s_nextTimer := s_nextTimer s + 1\<rparr>" "t = s_nextTimer s"
  using assms by (auto simp: AfterFunc_def)

lemma inside_after:
  assumes "AfterFunc d cb s = (s', t)" "cb_name cb = nm"
  shows "inside nm s s'"
  using assms by (auto simp: AfterFunc_def inside_def others_def ids_ok_def waiting_ok_def pending_def less_Suc_eq)

lemma owned_names:
  assumes "owned s nm c"
  shows "\<forall>x \<in> set (s_timers s). ch_restartTimer c = Some (t_id x) \<longrightarrow> cb_name (t_call x) = nm"
    "\<forall>x \<in> set (s_timers s). ch_disconnectTimer c = Some (t_id x) \<longrightarrow> cb_name (t_call x) = nm"
    "\<forall>x \<in> set (s_timers s). ch_stabilityTimer c = Some (t_id x) \<longrightarrow> cb_name (t_call x) = nm"
  using assms by (fastforce simp: owned_def)+

text \<open>A child without a process that nothing of its generation is on its way for.\<close>

definition idle :: "Supervisor \<Rightarrow> string \<Rightarrow> child \<Rightarrow> bool" where
  "idle s nm c \<longleftrightarrow> ch_process c = None \<and> ch_desired c = DesiredRunning \<and> ch_start c \<noteq> None \<and>
     (\<forall>g. pending s (Restart nm g) \<longrightarrow> g < ch_generation c) \<and>
     (\<forall>w \<in> set (s_waiting s). wt_name w = nm \<longrightarrow> wt_generation w < ch_generation c \<and> wt_process w \<in> set (s_killed s)) \<and>
     0 \<le> ch_restartAttempt c \<and> (0 < s_giveUpAfter s \<longrightarrow> ch_restartAttempt c \<le> s_giveUpAfter s)"

lemma scheduleRestart_ok:
  assumes r: "scheduleRestartLocked nm s c = (s', c')" and i: "idle s nm c" "owned s nm c" "0 \<le> ch_generation c" "ch_generation c \<le> n" "ids_ok s"
  shows "inside nm s s' \<and> child_ok n s' nm c' \<and> (ch_phase c' = PhaseBackoff \<or> ch_phase c' = PhaseParked) \<and> s_waiting s' = s_waiting s \<and>
    s_starts s' = s_starts s"
proof -
  define s1 where "s1 = stopTimer (ch_restartTimer c) s"
  have in1: "inside nm s s1" unfolding s1_def by (rule inside_stop) (rule owned_names [OF i(2)])
  have p1: "pending s1 cb \<Longrightarrow> pending s cb" for cb by (auto simp: s1_def pending_def)
  have o1: "owned s1 nm c" using i(2) by (auto simp: s1_def owned_def)
  show ?thesis
  proof (cases "s_giveUpAfter s > 0 \<and> ch_restartAttempt c \<ge> s_giveUpAfter s")
    case True
    then have "s' = s1" "c' = c\<lparr>ch_restartTimer := None, ch_phase := PhaseParked, ch_nextRestartAt := 0, ch_parkedAt := s_now s\<rparr>"
      using r by (simp_all add: scheduleRestartLocked_def Let_def s1_def)
    moreover have "pending s1 (Restart nm g) \<Longrightarrow> g < ch_generation c" for g using p1 i(1) by (simp add: idle_def)
    ultimately show ?thesis using i(1,3,4) in1 o1 by (fastforce simp: child_ok_defs idle_def s1_def)
  next
    case False
    define k where "k = (if ch_restartAttempt c \<ge> int (length RestartBackoff) then int (length RestartBackoff) - 1 else ch_restartAttempt c)"
    have k: "\<not> k < 0" using i(1) by (auto simp: k_def idle_def RestartBackoff_def)
    obtain s2 t where a: "AfterFunc (RestartBackoff ! nat k) (Restart nm (ch_generation c)) s1 = (s2, t)"
      by (cases "AfterFunc (RestartBackoff ! nat k) (Restart nm (ch_generation c)) s1")
    define c2 where "c2 = c\<lparr>ch_restartTimer := Some t, ch_restartAttempt := ch_restartAttempt c + 1, ch_phase := PhaseBackoff,
        ch_nextRestartAt := s_now s + RestartBackoff ! nat k\<rparr>"
    have "(s', c') = (s2, c2)"
      using r False k a unfolding scheduleRestartLocked_def Let_def
      by (cases "ch_restartAttempt c \<ge> int (length RestartBackoff)") (auto simp: k_def c2_def s1_def)
    moreover have "inside nm s s2" using inside_trans [OF in1 inside_after [OF a]] by simp
    moreover have "child_ok n s2 nm c2"
    proof -
      note s2 = AfterFunc_simps [OF a]
      have p2: "pending s2 cb \<longleftrightarrow> pending s1 cb \<or> cb = Restart nm (ch_generation c)" for cb by (auto simp: s2(1) pending_def)
      have ids1: "x \<in> set (s_timers s1) \<Longrightarrow> t_id x < s_nextTimer s1" for x using i(5) by (simp add: s1_def ids_ok_def)
      have "shape s2 nm c2" using i(1) by (simp add: shape_def c2_def s2 idle_def s1_def)
      moreover have "within n s2 c2" using i(1,3,4) False by (auto simp: within_def c2_def s2 idle_def s1_def)
      moreover have "restarts s2 nm c2" using i(1) p1 p2 by (fastforce simp: restarts_def c2_def idle_def)
      moreover have "attended s2 nm c2" using i(1) by (fastforce simp: attended_def c2_def idle_def s2 s1_def)
      moreover have "graced s2 nm c2" by (simp add: graced_def c2_def)
      moreover have "owned s2 nm c2" using o1 ids1 by (fastforce simp: owned_def c2_def s2)
      ultimately show ?thesis by (simp add: child_ok_def)
    qed
    ultimately show ?thesis using AfterFunc_simps [OF a] by (auto simp: c2_def s1_def)
  qed
qed

text \<open>A child that may be started: it has no process, and everything on its way is of its generation at most.\<close>

definition startable :: "Supervisor \<Rightarrow> string \<Rightarrow> child \<Rightarrow> bool" where
  "startable s nm c \<longleftrightarrow> ch_process c = None \<and> ch_desired c = DesiredRunning \<and> ch_start c \<noteq> None \<and> owned s nm c \<and>
     (\<forall>g. pending s (Restart nm g) \<longrightarrow> g \<le> ch_generation c) \<and>
     (\<forall>w \<in> set (s_waiting s). wt_name w = nm \<longrightarrow> wt_generation w \<le> ch_generation c \<and> wt_process w \<in> set (s_killed s)) \<and>
     0 \<le> ch_restartAttempt c \<and> (0 < s_giveUpAfter s \<longrightarrow> ch_restartAttempt c \<le> s_giveUpAfter s)"

lemma next_generation_small: "0 \<le> g \<Longrightarrow> g \<le> n \<Longrightarrow> n + 1 < 2 ^ 64 \<Longrightarrow> next_generation g = g + 1"
  by (simp add: next_generation_def)

lemma spawning_idle:
  assumes "startable s nm c" "0 \<le> ch_generation c" "ch_generation c \<le> n" "n + 1 < 2 ^ 64"
  shows "idle (stopTimer (ch_restartTimer c) s) nm (spawning c)" "owned (stopTimer (ch_restartTimer c) s) nm (spawning c)"
    "ch_generation (spawning c) = ch_generation c + 1"
proof -
  show g: "ch_generation (spawning c) = ch_generation c + 1" using next_generation_small [OF assms(2-4)] by (simp add: spawning_def)
  have p1: "pending (stopTimer (ch_restartTimer c) s) cb \<Longrightarrow> pending s cb" for cb by (auto simp: pending_def)
  show "owned (stopTimer (ch_restartTimer c) s) nm (spawning c)" using assms(1) by (auto simp: startable_def spawning_def owned_def)
  show "idle (stopTimer (ch_restartTimer c) s) nm (spawning c)"
    using assms(1) p1 unfolding idle_def startable_def g by (fastforce simp: spawning_def)
qed

lemma spawnLocked_ok:
  assumes r: "spawnLocked nm failed s c = (s', c', res)" and c: "startable s nm c" "0 \<le> ch_generation c" "ch_generation c \<le> n" "n + 1 < 2 ^ 64" "ids_ok s"
  shows "inside nm s s' \<and> child_ok (n + 1) s' nm c' \<and> ch_phase c' \<noteq> PhaseStopped \<and>
    (\<exists>f. ch_start c = Some f \<and> s_starts s' = s_starts s @ [(nm, f, ch_generation c + 1)])"
proof -
  obtain f where f: "ch_start c = Some f" using c(1) by (auto simp: startable_def)
  define c1 where "c1 = spawning c"
  define s2 where "s2 = (stopTimer (ch_restartTimer c) s)\<lparr>s_starts := s_starts s @ [(nm, f, ch_generation c + 1)]\<rparr>"
  have g1: "ch_generation c1 = ch_generation c + 1" "ch_start c1 = Some f" using spawning_idle(3) [OF c(1-4)] f by (simp_all add: c1_def spawning_def)
  have p2: "pending s2 = pending (stopTimer (ch_restartTimer c) s)" by (auto simp: s2_def pending_def fun_eq_iff)
  have "inside nm s (stopTimer (ch_restartTimer c) s)"
    using inside_stop [OF owned_names(1)] c(1) by (simp add: startable_def)
  then have in2: "inside nm s s2"
    using p2 by (simp add: inside_def others_def s2_def ids_ok_def waiting_ok_def)
  have idle2: "idle s2 nm c1" "owned s2 nm c1"
    using spawning_idle(1,2) [OF c(1-4)] unfolding idle_def owned_def p2 c1_def by (simp_all add: s2_def)
  have ids2: "ids_ok s2" using c(5) by (simp add: ids_ok_def s2_def)
  show ?thesis
  proof (cases failed)
    case (Some err)
    define c2 where "c2 = c1\<lparr>ch_lastExit := Some \<lparr>ex_At = s_now s, ex_ExitCode = None, ex_Signal = [], ex_Error = err\<rparr>\<rparr>"
    obtain s3 c3 where sr: "scheduleRestartLocked nm s2 c2 = (s3, c3)" by (cases "scheduleRestartLocked nm s2 c2")
    have eq: "s' = s3" "c' = c3"
      using r Some sr g1 f by (simp_all add: spawnLocked_def Let_def c1_def [symmetric] s2_def [symmetric] c2_def [symmetric])
    have "idle s2 nm c2" "owned s2 nm c2" "0 \<le> ch_generation c2" "ch_generation c2 \<le> n + 1"
      using idle2 g1 c(2,3) by (simp_all add: c2_def idle_def owned_def)
    then show ?thesis using scheduleRestart_ok [OF sr _ _ _ _ ids2] inside_trans [OF in2] f unfolding eq by (auto simp: s2_def)
  next
    case None
    define s3 where "s3 = stopTimer (ch_disconnectTimer c1) s2"
    obtain s4 t where a: "AfterFunc DisconnectGrace (DisconnectExpired nm (ch_generation c1) (s_nextProcess s)) s3 = (s4, t)"
      by (cases "AfterFunc DisconnectGrace (DisconnectExpired nm (ch_generation c1) (s_nextProcess s)) s3")
    define w where "w = \<lparr>wt_process = s_nextProcess s, wt_name = nm, wt_generation = ch_generation c1\<rparr>"
    define s5 where "s5 = s4\<lparr>s_nextProcess := s_nextProcess s + 1, s_waiting := s_waiting s4 @ [w]\<rparr>"
    define c5 where "c5 = c1\<lparr>ch_process := Some (s_nextProcess s), ch_startedAt := s_now s, ch_disconnectTimer := Some t\<rparr>"
    have eq: "s' = s5" "c' = c5"
      using r None a g1 f by (simp_all add: spawnLocked_def Let_def c1_def [symmetric] s2_def [symmetric] s3_def [symmetric] s5_def c5_def w_def)
    note s4 = AfterFunc_simps [OF a]
    have in3: "inside nm s s4"
      using inside_trans [OF in2 inside_trans [OF inside_stop [OF owned_names(2) [OF idle2(2)]] inside_after [OF a [unfolded s3_def]]]] by simp
    have np: "s_nextProcess s4 = s_nextProcess s" "s_waiting s4 = s_waiting s2" by (simp_all add: s4 s3_def s2_def)
    have p5: "pending s5 = pending s4" by (auto simp: s5_def pending_def fun_eq_iff)
    have "waiting_ok s4 \<longrightarrow> waiting_ok s5" using np by (auto simp: waiting_ok_def s5_def w_def less_Suc_eq)
    then have in5: "inside nm s s5" using in3 p5 by (auto simp: inside_def others_def s5_def ids_ok_def w_def)
    have pend: "pending s5 cb \<longleftrightarrow> pending s3 cb \<or> cb = DisconnectExpired nm (ch_generation c1) (s_nextProcess s)" for cb
      unfolding p5 by (auto simp: s4 pending_def)
    have p3: "pending s3 cb \<Longrightarrow> pending s2 cb" for cb by (auto simp: s3_def pending_def)
    have "shape s5 nm c5" using idle2(1) by (simp add: shape_def c5_def c1_def spawning_def s5_def w_def idle_def)
    moreover have "within (n + 1) s5 c5" using idle2(1) c(2,3) g1 by (simp add: within_def c5_def s5_def s4 s3_def idle_def)
    moreover have "restarts s5 nm c5" using idle2(1) pend p3 by (fastforce simp: restarts_def c5_def idle_def)
    moreover have "attended s5 nm c5" using idle2(1) np by (fastforce simp: attended_def c5_def s5_def w_def idle_def s4 s3_def)
    moreover have "graced s5 nm c5" using pend by (simp add: graced_def c5_def)
    moreover have "owned s5 nm c5" using idle2(2) ids2 by (fastforce simp: owned_def c5_def s5_def s4 s3_def ids_ok_def)
    ultimately have "child_ok (n + 1) s5 nm c5" by (simp add: child_ok_def)
    then show ?thesis using in5 f unfolding eq by (simp add: c5_def c1_def spawning_def s5_def s4 s3_def s2_def)
  qed
qed

subsection \<open>Putting a child back\<close>

lemma child_ok_same:
  assumes "s_shutdown s' = s_shutdown s" "s_giveUpAfter s' = s_giveUpAfter s" "s_fired s' = s_fired s" "s_timers s' = s_timers s"
    "s_waiting s' = s_waiting s" "s_killed s' = s_killed s" "s_nextTimer s' = s_nextTimer s"
  shows "child_ok n s' = child_ok n s"
  by (intro ext) (simp only: child_ok_defs pending_def assms)

lemma child_ok_cong:
  "child_ok n (put nm c s) = child_ok n s" "child_ok n (notify nm s) = child_ok n s" "child_ok n (reportGiveUp nm sn s) = child_ok n s"
  "child_ok n (s\<lparr>s_stopping := ns\<rparr>) = child_ok n s" "child_ok n (s\<lparr>s_now := tm\<rparr>) = child_ok n s"
  by (rule child_ok_same; simp add: put_def notify_def reportGiveUp_def)+

lemma child_of_put: "child_of (put nm c s) n = (if n = nm then Some c else child_of s n)"
  by (simp add: put_def update_conv')

lemma child_of_same [simp]: "child_of (notify nm s) = child_of s" "child_of (reportGiveUp nm sn s) = child_of s" "child_of (Kill p s) = child_of s"
  by (simp_all add: notify_def reportGiveUp_def Kill_def)

lemma around_reports [simp]: "around (notify nm s) = around s" "around (reportGiveUp nm sn s) = around s" "around (Kill p s) = around s"
  by (simp_all add: around_def notify_def reportGiveUp_def Kill_def pending_def)

lemma sup_ok_reports [simp]: "sup_ok n (notify nm s) = sup_ok n s" "sup_ok n (reportGiveUp nm sn s) = sup_ok n s"
  by (simp_all add: sup_ok_def child_ok_cong)

lemma around_parts: "around s \<Longrightarrow> ids_ok s" "around s \<Longrightarrow> waiting_ok s"
  by (simp_all add: around_def ids_ok_def waiting_ok_def)

lemma around_put:
  assumes "around s" "inside nm s s'" "s_shutdown s \<longrightarrow> nm \<in> set (s_stopping s) \<or> ch_phase c = PhaseStopped"
  shows "around (put nm c s')"
proof -
  have i: "others nm s s'" "s_children s' = s_children s" "s_panicked s' = s_panicked s" "s_stopping s' = s_stopping s" "ids_ok s'" "waiting_ok s'"
    "\<And>w. w \<in> set (s_waiting s') \<Longrightarrow> w \<in> set (s_waiting s) \<or> wt_name w = nm" "\<And>cb. pending s' cb \<Longrightarrow> pending s cb \<or> cb_name cb = nm"
    using assms(2) around_parts [OF assms(1)] by (simp_all add: inside_def)
  have "pending (put nm c s') cb = pending s' cb" for cb by (simp add: pending_def put_def)
  moreover have "s_shutdown s' = s_shutdown s" using i(1) by (simp add: others_def)
  moreover have "w \<in> set (s_waiting s') \<Longrightarrow> wt_name w \<noteq> nm \<Longrightarrow> child_of s (wt_name w) \<noteq> None" for w
    using i(7) assms(1) unfolding around_def by blast
  moreover have "pending s' cb \<Longrightarrow> cb_name cb \<noteq> nm \<Longrightarrow> child_of s (cb_name cb) \<noteq> None" for cb
    using i(8) assms(1) unfolding around_def by blast
  ultimately show ?thesis
    using assms(1,3) i(2-6) unfolding around_def child_of_put by (auto simp: put_def ids_ok_def waiting_ok_def)
qed

lemma sup_ok_put:
  assumes "sup_ok n s" "inside nm s s'" "child_ok (n + 1) s' nm c" "s_shutdown s \<longrightarrow> nm \<in> set (s_stopping s) \<or> ch_phase c = PhaseStopped"
  shows "sup_ok (n + 1) (put nm c s')"
proof (rule sup_ok_step [OF assms(1), of nm])
  show "others nm s (put nm c s')" using assms(2) by (simp add: inside_def others_def put_def)
  show "around (put nm c s')" using around_put [OF _ assms(2,4)] assms(1) by (simp add: sup_ok_def)
  show "nm' \<noteq> nm \<Longrightarrow> child_of (put nm c s') nm' = child_of s nm'" for nm' using assms(2) by (simp add: child_of_put inside_def)
  show "child_of (put nm c s') nm = Some c' \<Longrightarrow> child_ok (n + 1) (put nm c s') nm c'" for c'
    using assms(3) by (simp add: child_of_put child_ok_cong)
qed

lemma sup_ok_settle:
  assumes "sup_ok n s" "inside nm s s'" "child_ok (n + 1) s' nm c" "s_shutdown s \<longrightarrow> nm \<in> set (s_stopping s) \<or> ch_phase c = PhaseStopped"
  shows "sup_ok (n + 1) (settle nm c s')"
  using sup_ok_put [OF assms] by (simp add: settle_def)

lemma sup_ok_mono: "sup_ok n s \<Longrightarrow> sup_ok (n + 1) s"
  unfolding sup_ok_def child_ok_def within_def by fastforce

lemma child_ok_killed: "child_ok n s nm c \<Longrightarrow> child_ok n (Kill p s) nm c"
  by (auto simp: child_ok_defs pending_def Kill_def split: Phase.splits)

lemma sup_ok_Kill: "sup_ok n s \<Longrightarrow> sup_ok n (Kill p s)"
  using child_ok_killed by (simp add: sup_ok_def)

lemma no_child:
  assumes "around s" "child_of s nm = None"
  shows "\<not> pending s (Restart nm g)" "w \<in> set (s_waiting s) \<Longrightarrow> wt_name w \<noteq> nm" "\<not> pending s (DisconnectExpired nm g p)"
  using assms by (force simp: around_def)+

lemma stopping_child:
  assumes "sup_ok n s" "child_of s nm = Some c" "ch_phase c \<noteq> PhaseStopped"
  shows "s_shutdown s \<longrightarrow> nm \<in> set (s_stopping s)"
  using assms unfolding sup_ok_def around_def by blast

subsection \<open>Operations\<close>

lemma AdoptParked_ok:
  assumes "sup_ok n s" "0 \<le> n"
  shows "sup_ok (n + 1) (fst (AdoptParked nm park s))"
proof (cases "validateName nm = None \<and> \<not> s_shutdown s \<and> child_of s nm = None")
  case True
  have a: "around s" using assms(1) by (simp add: sup_ok_def)
  have "child_ok (n + 1) s nm ((new_child None PhaseParked)\<lparr>ch_parkedAt := pk_ParkedAt park, ch_restartAttempt := pk_RestartAttempt park,
      ch_lastExit := pk_LastExit park\<rparr>)"
    using no_child [OF a] True assms(2) by (auto simp: child_ok_defs new_child_def)
  then show ?thesis using sup_ok_put [OF assms(1) inside_refl] True by (simp add: AdoptParked_def)
qed (use sup_ok_mono [OF assms(1)] in \<open>auto simp: AdoptParked_def split: option.splits\<close>)

lemma spawn_and_settle_ok:
  assumes "sup_ok n s" "startable s nm c" "0 \<le> ch_generation c" "ch_generation c \<le> n" "n + 1 < 2 ^ 64" "\<not> s_shutdown s"
  shows "sup_ok (n + 1) (fst (spawn_and_settle nm failed s c))"
proof -
  obtain s1 c1 r where r: "spawnLocked nm failed s c = (s1, c1, r)" by (cases "spawnLocked nm failed s c")
  have "ids_ok s" using assms(1) around_parts by (simp add: sup_ok_def)
  then show ?thesis using sup_ok_settle [OF assms(1)] spawnLocked_ok [OF r assms(2-5)] r assms(6) by (simp add: spawn_and_settle_def)
qed

lemma startable_child:
  assumes "child_ok n s nm c" "ch_process c = None" "ch_desired c = DesiredRunning" "ch_start c \<noteq> None" "ch_phase c \<noteq> PhaseParked"
  shows "startable s nm c"
  using assms by (auto simp: child_ok_def startable_def restarts_def attended_def within_def)

lemma ensure_ok:
  assumes "sup_ok n s" "0 \<le> n" "n + 1 < 2 ^ 64"
  shows "sup_ok (n + 1) (fst (ensure nm start revive failed s))"
proof (cases "validateName nm = None \<and> start \<noteq> None \<and> \<not> s_shutdown s")
  case True
  have a: "around s" using assms(1) by (simp add: sup_ok_def)
  show ?thesis
  proof (cases "child_of s nm")
    case None
    have "startable s nm (new_child start PhaseStarting)" using no_child [OF a None] True by (auto simp: startable_def new_child_def owned_def)
    then show ?thesis using spawn_and_settle_ok [OF assms(1)] assms(2,3) True None by (auto simp: ensure_def new_child_def)
  next
    case (Some c0)
    obtain f where f: "start = Some f" using True by blast
    define c where "c = c0\<lparr>ch_start := start, ch_desired := DesiredRunning\<rparr>"
    have ok: "child_ok n s nm c0" using assms(1) Some by (simp add: sup_ok_def)
    then have gen: "0 \<le> ch_generation c" "ch_generation c \<le> n" by (simp_all add: child_ok_def within_def c_def)
    have kept: "child_ok (n + 1) s nm c" if k: "ch_process c \<noteq> None \<or> ch_restartTimer c \<noteq> None \<or> ch_phase c = PhaseParked"
      using ok k True by (auto simp: child_ok_defs c_def split: Phase.splits)
    have startable: "startable s nm (if ch_phase c = PhaseParked then c\<lparr>ch_restartAttempt := 0\<rparr> else c)" if k: "ch_process c = None"
      using ok k True by (auto simp: startable_def child_ok_def restarts_def attended_def within_def owned_def c_def)
    have "sup_ok (n + 1) (fst (spawn_and_settle nm failed s (if ch_phase c = PhaseParked then c\<lparr>ch_restartAttempt := 0\<rparr> else c)))" if k: "ch_process c = None"
      by (rule spawn_and_settle_ok [OF assms(1) startable [OF k]]) (use gen assms(3) True in simp_all)
    moreover have "fst (ensure nm start revive failed s) =
        (if ch_process c \<noteq> None \<or> ch_restartTimer c \<noteq> None \<or> ch_phase c = PhaseParked \<and> \<not> revive then put nm c s
         else fst (spawn_and_settle nm failed s (if ch_phase c = PhaseParked then c\<lparr>ch_restartAttempt := 0\<rparr> else c)))"
      using True Some f by (simp add: ensure_def Let_def c_def)
    ultimately show ?thesis using sup_ok_put [OF assms(1) inside_refl kept] True by simp
  qed
qed (use sup_ok_mono [OF assms(1)] in \<open>auto simp: ensure_def split: option.splits\<close>)

end
