(* ===== verification/Supervise_Invariant.thy ===== *)
theory Supervise_Invariant
  imports Supervise_Laws
begin

text \<open>
  Every action of the supervisor keeps the invariant, so it holds in every state reached in fewer than
  \<open>2 ^ 64\<close> steps.
\<close>

subsection \<open>Stopping\<close>

lemma inside_stop_all:
  assumes "owned s nm c"
  shows "inside nm s (stopTimer (ch_disconnectTimer c) (stopTimer (ch_stabilityTimer c) s))"
    "inside nm s (stopTimer (ch_stabilityTimer c) (stopTimer (ch_disconnectTimer c) s))"
    "inside nm s (stopTimer (ch_stabilityTimer c) (stopTimer (ch_disconnectTimer c) (stopTimer (ch_restartTimer c) s)))"
proof -
  have st: "inside nm s x \<Longrightarrow> set (s_timers x) \<subseteq> set (s_timers s) \<Longrightarrow> ch_restartTimer c = i \<or> ch_disconnectTimer c = i \<or> ch_stabilityTimer c = i \<Longrightarrow>
      inside nm s (stopTimer i x)" for x i
    by (rule inside_trans, assumption, rule inside_stop) (use owned_names [OF assms] in blast)
  show "inside nm s (stopTimer (ch_disconnectTimer c) (stopTimer (ch_stabilityTimer c) s))"
    "inside nm s (stopTimer (ch_stabilityTimer c) (stopTimer (ch_disconnectTimer c) s))"
    "inside nm s (stopTimer (ch_stabilityTimer c) (stopTimer (ch_disconnectTimer c) (stopTimer (ch_restartTimer c) s)))"
    by (auto intro!: st)
qed

lemma sup_Stop_ok:
  assumes "sup_ok n s" "n + 1 < 2 ^ 64"
  shows "sup_ok (n + 1) (sup_Stop nm s)" "child_of (sup_Stop nm s) nm = Some c \<Longrightarrow> ch_phase c = PhaseStopped"
proof -
  have "sup_ok (n + 1) (sup_Stop nm s) \<and> (\<forall>c. child_of (sup_Stop nm s) nm = Some c \<longrightarrow> ch_phase c = PhaseStopped)"
  proof (cases "child_of s nm")
    case None
    then show ?thesis using sup_ok_mono [OF assms(1)] by (simp add: sup_Stop_def)
  next
    case (Some c)
    have ok: "child_ok n s nm c" using assms(1) Some by (simp add: sup_ok_def)
    define s1 where "s1 = stopTimer (ch_stabilityTimer c) (stopTimer (ch_disconnectTimer c) (stopTimer (ch_restartTimer c) s))"
    define c1 where "c1 = c\<lparr>ch_desired := DesiredStopped, ch_phase := PhaseStopped, ch_restartAttempt := 0,
        ch_generation := next_generation (ch_generation c), ch_connectedAt := 0, ch_nextRestartAt := 0, ch_parkedAt := 0,
        ch_restartTimer := None, ch_disconnectTimer := None, ch_stabilityTimer := None, ch_process := None\<rparr>"
    define s2 where "s2 = (case ch_process c of None \<Rightarrow> s1 | Some p \<Rightarrow> Kill p s1)"
    have g: "next_generation (ch_generation c) = ch_generation c + 1"
      using next_generation_small [of "ch_generation c" n] ok assms(2) by (simp add: child_ok_def within_def)
    have in1: "inside nm s s1" unfolding s1_def by (rule inside_stop_all(3)) (use ok in \<open>simp add: child_ok_def\<close>)
    have in2: "inside nm s s2" using in1 by (auto simp: s2_def Kill_def inside_def others_def ids_ok_def waiting_ok_def pending_def split: option.splits)
    have p1: "pending s2 cb \<Longrightarrow> pending s cb" for cb by (auto simp: s2_def s1_def Kill_def pending_def split: option.splits)
    have k: "s_waiting s2 = s_waiting s" "s_giveUpAfter s2 = s_giveUpAfter s" "\<And>p. p \<in> set (s_killed s2) \<longleftrightarrow> p \<in> set (s_killed s) \<or> ch_process c = Some p"
      by (auto simp: s2_def s1_def Kill_def split: option.splits)
    have "restarts s2 nm c1" using ok p1 by (fastforce simp: child_ok_def restarts_def c1_def g)
    moreover have "attended s2 nm c1" using ok k by (fastforce simp: child_ok_def attended_def c1_def g)
    ultimately have "child_ok (n + 1) s2 nm c1" using ok k by (auto simp: child_ok_def shape_def within_def graced_def owned_def c1_def g)
    moreover have "sup_Stop nm s = notify nm (put nm c1 s2)"
      using Some by (auto simp: sup_Stop_def Let_def s1_def c1_def s2_def put_def Kill_def notify_def split: option.splits)
    ultimately show ?thesis using sup_ok_put [OF assms(1) in2, of c1] by (simp add: c1_def child_of_put)
  qed
  then show "sup_ok (n + 1) (sup_Stop nm s)" "child_of (sup_Stop nm s) nm = Some c \<Longrightarrow> ch_phase c = PhaseStopped" by auto
qed

lemma Shutdown_begin_ok:
  assumes "sup_ok n s"
  shows "sup_ok n (Shutdown_begin s)"
proof (cases "s_shutdown s")
  case False
  have "child_ok n (s\<lparr>s_shutdown := True, s_stopping := ns\<rparr>) nm c" if "child_ok n s nm c" for nm c ns
    using that by (auto simp: child_ok_defs pending_def split: Phase.splits)
  moreover have "child_of s nm = Some c \<Longrightarrow> nm \<in> fst ` set (s_children s)" for nm c using map_of_SomeD by force
  ultimately show ?thesis using assms False by (auto simp: Shutdown_begin_def sup_ok_def around_def pending_def)
qed (use assms in \<open>simp add: Shutdown_begin_def\<close>)

lemma Shutdown_next_ok:
  assumes "sup_ok n s" "n + 1 < 2 ^ 64"
  shows "sup_ok (n + 1) (Shutdown_next nm s)"
proof (cases "nm \<in> set (s_stopping s)")
  case True
  define s1 where "s1 = sup_Stop nm s"
  have s1: "sup_ok (n + 1) s1" "\<And>c. child_of s1 nm = Some c \<Longrightarrow> ch_phase c = PhaseStopped" using sup_Stop_ok [OF assms] by (simp_all add: s1_def)
  have "s_stopping s1 = s_stopping s" by (auto simp: s1_def sup_Stop_def Let_def notify_def put_def Kill_def split: option.splits)
  moreover have "around (s1\<lparr>s_stopping := filter (\<lambda>n. n \<noteq> nm) (s_stopping s1)\<rparr>)"
    using s1 unfolding sup_ok_def around_def by (auto simp: pending_def)
  ultimately show ?thesis using True s1(1) by (simp add: Shutdown_next_def s1_def [symmetric] sup_ok_def child_ok_cong)
qed (use sup_ok_mono [OF assms(1)] in \<open>simp add: Shutdown_next_def\<close>)

subsection \<open>Connections\<close>

lemma NoteConnected_ok:
  assumes "sup_ok n s"
  shows "sup_ok (n + 1) (fst (NoteConnected nm g s))"
proof (cases "child_of s nm")
  case None
  then show ?thesis using sup_ok_mono [OF assms] by (simp add: NoteConnected_def)
next
  case (Some c)
  have ok: "child_ok n s nm c" using assms Some by (simp add: sup_ok_def)
  show ?thesis
  proof (cases "g = 0 \<or> g \<noteq> ch_generation c \<or> ch_desired c \<noteq> DesiredRunning \<or> ch_process c = None")
    case True
    then show ?thesis using sup_ok_mono [OF assms] Some by (auto simp: NoteConnected_def)
  next
    case False
    define s1 where "s1 = stopTimer (ch_stabilityTimer c) (stopTimer (ch_disconnectTimer c) s)"
    obtain s2 t where a: "AfterFunc StableConnection (MarkStable nm (ch_generation c)) s1 = (s2, t)"
      by (cases "AfterFunc StableConnection (MarkStable nm (ch_generation c)) s1")
    define c1 where "c1 = c\<lparr>ch_phase := PhaseConnected, ch_connectedAt := s_now s, ch_nextRestartAt := 0,
        ch_disconnectTimer := None, ch_stabilityTimer := Some t\<rparr>"
    have "inside nm s s1" unfolding s1_def by (rule inside_stop_all(2)) (use ok in \<open>simp add: child_ok_def\<close>)
    then have in2: "inside nm s s2" using inside_trans inside_after [OF a] by simp
    note s2 = AfterFunc_simps [OF a]
    have pend: "pending s2 (Restart nm x) \<Longrightarrow> pending s (Restart nm x)" for x by (auto simp: s2 s1_def pending_def)
    have ids: "x \<in> set (s_timers s) \<Longrightarrow> t_id x < s_nextTimer s" for x using assms around_parts by (simp add: sup_ok_def ids_ok_def)
    have ph: "ch_phase c = PhaseStarting \<or> ch_phase c = PhaseConnected" using ok False by (auto simp: child_ok_def shape_def split: Phase.splits)
    have "shape s2 nm c1" using ok ph by (auto simp: child_ok_def shape_def c1_def s2 s1_def split: Phase.splits)
    moreover have "within (n + 1) s2 c1" using ok ph by (auto simp: child_ok_def within_def c1_def s2 s1_def)
    moreover have "restarts s2 nm c1" using ok pend ph by (fastforce simp: child_ok_def restarts_def c1_def)
    moreover have "attended s2 nm c1" using ok by (auto simp: child_ok_def attended_def c1_def s2 s1_def)
    moreover have "graced s2 nm c1" by (simp add: graced_def c1_def)
    moreover have "owned s2 nm c1" using ok ids by (fastforce simp: child_ok_def owned_def c1_def s2 s1_def)
    ultimately have "child_ok (n + 1) s2 nm c1" by (simp add: child_ok_def)
    moreover have "s_shutdown s \<longrightarrow> nm \<in> set (s_stopping s)" using stopping_child [OF assms Some] ph by auto
    ultimately have "sup_ok (n + 1) (put nm c1 s2)" using sup_ok_put [OF assms in2] by simp
    moreover have "fst (NoteConnected nm g s) = notify nm (put nm c1 s2)"
      using Some False a by (auto simp: NoteConnected_def Let_def s1_def [symmetric] c1_def)
    ultimately show ?thesis by simp
  qed
qed

lemma NoteDisconnected_ok:
  assumes "sup_ok n s"
  shows "sup_ok (n + 1) (NoteDisconnected nm g s)"
proof (cases "child_of s nm")
  case None
  then show ?thesis using sup_ok_mono [OF assms] by (simp add: NoteDisconnected_def)
next
  case (Some c)
  have ok: "child_ok n s nm c" using assms Some by (simp add: sup_ok_def)
  show ?thesis
  proof (cases "g \<noteq> ch_generation c \<or> ch_desired c \<noteq> DesiredRunning \<or> ch_process c = None")
    case True
    then show ?thesis using sup_ok_mono [OF assms] Some by (auto simp: NoteDisconnected_def)
  next
    case False
    then obtain p where p: "ch_process c = Some p" by blast
    define s1 where "s1 = stopTimer (ch_disconnectTimer c) (stopTimer (ch_stabilityTimer c) s)"
    obtain s2 t where a: "AfterFunc DisconnectGrace (DisconnectExpired nm (ch_generation c) p) s1 = (s2, t)"
      by (cases "AfterFunc DisconnectGrace (DisconnectExpired nm (ch_generation c) p) s1")
    define c1 where "c1 = c\<lparr>ch_phase := PhaseStarting, ch_connectedAt := 0, ch_stabilityTimer := None, ch_disconnectTimer := Some t\<rparr>"
    have "inside nm s s1" unfolding s1_def by (rule inside_stop_all(1)) (use ok in \<open>simp add: child_ok_def\<close>)
    then have in2: "inside nm s s2" using inside_trans inside_after [OF a] by simp
    note s2 = AfterFunc_simps [OF a]
    have pend: "pending s2 (Restart nm x) \<Longrightarrow> pending s (Restart nm x)" for x by (auto simp: s2 s1_def pending_def)
    have ids: "x \<in> set (s_timers s) \<Longrightarrow> t_id x < s_nextTimer s" for x using assms around_parts by (simp add: sup_ok_def ids_ok_def)
    have ph: "ch_phase c = PhaseStarting \<or> ch_phase c = PhaseConnected" using ok False by (auto simp: child_ok_def shape_def split: Phase.splits)
    have "shape s2 nm c1" using ok ph by (auto simp: child_ok_def shape_def c1_def s2 s1_def split: Phase.splits)
    moreover have "within (n + 1) s2 c1" using ok ph by (auto simp: child_ok_def within_def c1_def s2 s1_def)
    moreover have "restarts s2 nm c1" using ok pend ph by (fastforce simp: child_ok_def restarts_def c1_def)
    moreover have "attended s2 nm c1" using ok by (auto simp: child_ok_def attended_def c1_def s2 s1_def)
    moreover have "graced s2 nm c1" using p by (simp add: graced_def c1_def pending_def s2)
    moreover have "owned s2 nm c1" using ok ids by (fastforce simp: child_ok_def owned_def c1_def s2 s1_def)
    ultimately have "child_ok (n + 1) s2 nm c1" by (simp add: child_ok_def)
    moreover have "s_shutdown s \<longrightarrow> nm \<in> set (s_stopping s)" using stopping_child [OF assms Some] ph by auto
    ultimately have "sup_ok (n + 1) (put nm c1 s2)" using sup_ok_put [OF assms in2] by simp
    moreover have "NoteDisconnected nm g s = notify nm (put nm c1 s2)"
      using Some False a p by (auto simp: NoteDisconnected_def Let_def s1_def [symmetric] c1_def)
    ultimately show ?thesis by simp
  qed
qed

subsection \<open>A process exits\<close>

lemma set_without: "set (without k xs) \<subseteq> set xs" "x \<in> set xs \<Longrightarrow> x \<noteq> xs ! k \<Longrightarrow> x \<in> set (without k xs)"
proof -
  show "set (without k xs) \<subseteq> set xs" by (auto simp: without_def dest: in_set_takeD in_set_dropD)
  assume x: "x \<in> set xs" "x \<noteq> xs ! k"
  then have k: "k < length xs \<Longrightarrow> x \<in> set (take k xs @ xs ! k # drop (Suc k) xs)" using id_take_nth_drop [of k xs] by simp
  show "x \<in> set (without k xs)"
    using x k by (cases "k < length xs") (auto simp: without_def)
qed

lemma without_nth:
  assumes "distinct (map f xs)" "k < length xs"
  shows "xs ! k \<notin> set (without k xs)" "distinct (map f (without k xs))"
proof -
  have "map f (take k xs @ xs ! k # drop (Suc k) xs) = map f xs" using id_take_nth_drop [OF assms(2)] by simp
  then have d: "distinct (map f (take k xs @ xs ! k # drop (Suc k) xs))" using assms(1) by simp
  then show "xs ! k \<notin> set (without k xs)" "distinct (map f (without k xs))" by (auto simp: without_def)
qed

lemma SExit_ok:
  assumes "sup_ok n s" "k < length (s_waiting s)" "w = s_waiting s ! k"
  shows "sup_ok (n + 1) (processExited (wt_name w) (wt_generation w) (wt_process w) e (s\<lparr>s_waiting := without k (s_waiting s)\<rparr>))"
proof -
  define nm where "nm = wt_name w"
  define s0 where "s0 = s\<lparr>s_waiting := without k (s_waiting s)\<rparr>"
  have a: "around s" using assms(1) by (simp add: sup_ok_def)
  have d: "distinct (map wt_process (s_waiting s))" using a by (simp add: around_def)
  have w: "w \<in> set (s_waiting s)" "w \<notin> set (s_waiting s0)" using assms(2,3) without_nth(1) [OF d] by (simp_all add: s0_def)
  have set0: "x \<in> set (s_waiting s0) \<longleftrightarrow> x \<in> set (s_waiting s) \<and> x \<noteq> w" for x
    using set_without(1) [of k "s_waiting s"] set_without(2) [where x = x and xs = "s_waiting s" and k = k] w assms(3) by (auto simp: s0_def)
  have p0: "pending s0 = pending s" by (auto simp: s0_def pending_def fun_eq_iff)
  have in0: "inside nm s s0"
    using set0 p0 without_nth(2) [OF d assms(2)] by (auto simp: inside_def others_def ids_ok_def waiting_ok_def s0_def nm_def)
  obtain c where c: "child_of s nm = Some c" using a w(1) by (auto simp: around_def nm_def)
  have ok: "child_ok n s nm c" using assms(1) c by (simp add: sup_ok_def)
  have c0: "child_of s0 nm = Some c" using c by (simp add: s0_def)
  show ?thesis
  proof (cases "wt_generation w \<noteq> ch_generation c \<or> ch_process c \<noteq> Some (wt_process w)")
    case True
    have "\<lparr>wt_process = p, wt_name = nm, wt_generation = ch_generation c\<rparr> \<noteq> w" if "ch_process c = Some p" for p
      using True that by (metis waiter.select_convs(1,3))
    then have "child_ok (n + 1) s0 nm c"
      using ok set0 p0 by (auto simp: child_ok_def shape_def within_def restarts_def attended_def graced_def owned_def s0_def split: Phase.splits)
    moreover have "child_of s0 = child_of s" by (simp add: s0_def)
    moreover have "around s0" using around_put [OF a in0, of c] a c unfolding around_def child_of_put
      using set0 p0 by (auto simp: s0_def put_def without_nth(2) [OF d assms(2)])
    ultimately have "sup_ok (n + 1) s0" using sup_ok_step [OF assms(1), of nm s0] in0 c by (simp add: inside_def)
    then show ?thesis using True c0 by (auto simp: processExited_def nm_def [symmetric] s0_def [symmetric])
  next
    case False
    define s1 where "s1 = stopTimer (ch_stabilityTimer c) (stopTimer (ch_disconnectTimer c) s0)"
    define c1 where "c1 = c\<lparr>ch_process := None, ch_connectedAt := 0, ch_disconnectTimer := None, ch_stabilityTimer := None,
        ch_lastExit := Some (e\<lparr>ex_At := s_now s0\<rparr>)\<rparr>"
    define r where "r = (if ch_desired c = DesiredRunning \<and> \<not> s_shutdown s then scheduleRestartLocked nm s1 c1
        else (s1, c1\<lparr>ch_phase := PhaseStopped, ch_nextRestartAt := 0\<rparr>))"
    have "owned s0 nm c" using ok by (simp add: child_ok_def owned_def s0_def)
    then have in1: "inside nm s s1" unfolding s1_def by (rule inside_trans [OF in0 inside_stop_all(2)])
    have p1: "pending s1 cb \<Longrightarrow> pending s cb" for cb using p0 by (auto simp: s1_def pending_def fun_eq_iff)
    have ph: "ch_phase c = PhaseStarting \<or> ch_phase c = PhaseConnected" "ch_restartTimer c = None" "ch_start c \<noteq> None" "ch_desired c = DesiredRunning"
      using ok False by (auto simp: child_ok_def shape_def split: Phase.splits)
    have low: "\<And>g. pending s1 (Restart nm g) \<Longrightarrow> g < ch_generation c" using ok ph(1) p1 unfolding child_ok_def restarts_def
      by (metis Phase.distinct(3) Phase.distinct(9) order_le_less)
    have gone: "wt_generation x < ch_generation c \<and> wt_process x \<in> set (s_killed s)" if x: "x \<in> set (s_waiting s1)" "wt_name x = nm" for x
    proof -
      have m: "x \<in> set (s_waiting s)" "x \<noteq> w" using x(1) set0 by (simp_all add: s1_def)
      then have "wt_process x \<noteq> wt_process w" using d w(1) by (auto simp: distinct_map inj_on_def)
      then show ?thesis using ok m(1) x(2) False unfolding child_ok_def attended_def by (metis option.inject order_le_less)
    qed
    have fields: "s_killed s1 = s_killed s" "s_giveUpAfter s1 = s_giveUpAfter s" "s_shutdown s1 = s_shutdown s" by (simp_all add: s1_def s0_def)
    have idle: "idle s1 nm c1" using low gone ph ok fields by (auto simp: idle_def c1_def child_ok_def within_def)
    have own: "owned s1 nm c1" using ok ph(2) by (auto simp: child_ok_def owned_def c1_def s1_def s0_def)
    have gen: "0 \<le> ch_generation c1" "ch_generation c1 \<le> n + 1" using ok by (simp_all add: child_ok_def within_def c1_def)
    have "ids_ok s1" using in1 around_parts(1) [OF a] by (simp add: inside_def)
    note sr = scheduleRestart_ok [OF _ idle own gen this]
    have res: "inside nm s (fst r) \<and> child_ok (n + 1) (fst r) nm (snd r) \<and> (s_shutdown s \<longrightarrow> nm \<in> set (s_stopping s) \<or> ch_phase (snd r) = PhaseStopped)"
    proof (cases "s_shutdown s")
      case False
      then show ?thesis using sr [of "fst r" "snd r"] inside_trans [OF in1] ph(4) by (simp add: r_def)
    next
      case True
      have "child_ok (n + 1) s1 nm (c1\<lparr>ch_phase := PhaseStopped, ch_nextRestartAt := 0\<rparr>)"
        using idle own gen True fields low gone by (fastforce simp: child_ok_defs idle_def c1_def ph(2))
      then show ?thesis using True in1 by (simp add: r_def)
    qed
    have "processExited nm (wt_generation w) (wt_process w) e s0 = settle nm (snd r) (fst r)"
      using False c0 fields by (auto simp: processExited_def Let_def s1_def [symmetric] c1_def [symmetric] r_def split: prod.splits) (simp_all add: c1_def)
    then show ?thesis using sup_ok_settle [OF assms(1)] res by (simp add: nm_def s0_def)
  qed
qed

subsection \<open>Timers\<close>

lemma fire_ok:
  assumes "sup_ok n s"
  shows "sup_ok (n + 1) (fire k s)"
proof (cases "k < length (s_timers s) \<and> t_at (s_timers s ! k) \<le> s_now s")
  case True
  define t where "t = s_timers s ! k"
  define nm where "nm = cb_name (t_call t)"
  define s1 where "s1 = s\<lparr>s_timers := without k (s_timers s), s_fired := s_fired s @ [t_call t]\<rparr>"
  have mem: "t \<in> set (s_timers s)" using True by (simp add: t_def)
  have tim: "x \<in> set (s_timers s1) \<Longrightarrow> x \<in> set (s_timers s)" "x \<in> set (s_timers s) \<Longrightarrow> x = t \<or> x \<in> set (s_timers s1)" for x
    using set_without(1) [of k "s_timers s"] set_without(2) [where x = x and xs = "s_timers s" and k = k] by (auto simp: s1_def t_def)
  have fir: "cb \<in> set (s_fired s1) \<longleftrightarrow> cb \<in> set (s_fired s) \<or> cb = t_call t" for cb by (auto simp: s1_def)
  have pend: "pending s1 cb = pending s cb" for cb using tim fir mem by (auto simp: pending_def image_iff)
  have rest: "s_waiting s1 = s_waiting s" "s_killed s1 = s_killed s" "s_giveUpAfter s1 = s_giveUpAfter s" "s_shutdown s1 = s_shutdown s"
    "s_nextTimer s1 = s_nextTimer s" "s_children s1 = s_children s" "s_panicked s1 = s_panicked s" "s_stopping s1 = s_stopping s"
    "s_nextProcess s1 = s_nextProcess s" by (simp_all add: s1_def)
  have others: "others nm s s1" using tim fir by (auto simp: others_def rest nm_def)
  have "around s1" using assms tim unfolding sup_ok_def around_def rest pend by blast
  moreover have "child_ok (n + 1) s1 nm c" if "child_of s1 nm = Some c" for c
  proof -
    have ok: "child_ok n s nm c" using that assms by (simp add: sup_ok_def rest)
    have "shape s1 nm c" using ok tim fir unfolding child_ok_def shape_def rest by (fastforce split: Phase.splits)
    moreover have "owned s1 nm c" using ok tim unfolding child_ok_def owned_def rest by blast
    ultimately show ?thesis using ok unfolding child_ok_def within_def restarts_def attended_def graced_def rest pend by auto
  qed
  ultimately have "sup_ok (n + 1) s1" using sup_ok_step [OF assms others] by (simp add: rest)
  then show ?thesis using True by (simp add: fire_def s1_def t_def)
qed (use sup_ok_mono [OF assms] in \<open>auto simp: fire_def\<close>)

text \<open>A callback that went off runs: it was on its way for a child that is there.\<close>

lemma called_inside:
  assumes "sup_ok n s" "k < length (s_fired s)" "cb = s_fired s ! k" "s0 = s\<lparr>s_fired := without k (s_fired s)\<rparr>"
  shows "inside (cb_name cb) s s0" "\<And>x. pending s0 x \<Longrightarrow> pending s x" "\<And>x. pending s x \<Longrightarrow> x \<noteq> cb \<Longrightarrow> pending s0 x"
    "\<And>x. x \<in> set (s_fired s) \<Longrightarrow> x \<noteq> cb \<Longrightarrow> x \<in> set (s_fired s0)"
proof -
  have f: "set (s_fired s0) \<subseteq> set (s_fired s)" "\<And>x. x \<in> set (s_fired s) \<Longrightarrow> x \<noteq> cb \<Longrightarrow> x \<in> set (s_fired s0)"
    using set_without(1) [of k "s_fired s"] set_without(2) [where xs = "s_fired s" and k = k] assms(3,4) by auto
  then show "\<And>x. x \<in> set (s_fired s) \<Longrightarrow> x \<noteq> cb \<Longrightarrow> x \<in> set (s_fired s0)" by blast
  show p: "\<And>x. pending s0 x \<Longrightarrow> pending s x" "\<And>x. pending s x \<Longrightarrow> x \<noteq> cb \<Longrightarrow> pending s0 x"
    using f assms(4) by (auto simp: pending_def)
  show "inside (cb_name cb) s s0" using f p(1) assms(4) by (auto simp: inside_def others_def ids_ok_def waiting_ok_def)
qed

lemma shape_restart:
  "shape s nm c \<Longrightarrow> ch_phase c = PhaseBackoff \<Longrightarrow> ch_process c = None \<and> ch_desired c = DesiredRunning \<and> ch_start c \<noteq> None"
  by (simp add: shape_def)

lemma call_back_ok:
  assumes "sup_ok n s" "0 \<le> n" "n + 1 < 2 ^ 64" "k < length (s_fired s)" "cb = s_fired s ! k" "s0 = s\<lparr>s_fired := without k (s_fired s)\<rparr>"
  shows "sup_ok (n + 1) (call_back cb failed s0)"
proof -
  define nm where "nm = cb_name cb"
  note in0 = called_inside [OF assms(1,4-6), folded nm_def]
  have a: "around s" using assms(1) by (simp add: sup_ok_def)
  have pcb: "pending s cb" using assms(4,5) by (simp add: pending_def)
  obtain c where c: "child_of s nm = Some c" using a pcb by (auto simp: around_def nm_def)
  have ok: "child_ok n s nm c" using assms(1) c by (simp add: sup_ok_def)
  have rest: "s_waiting s0 = s_waiting s" "s_killed s0 = s_killed s" "s_giveUpAfter s0 = s_giveUpAfter s" "s_shutdown s0 = s_shutdown s"
    "s_nextTimer s0 = s_nextTimer s" "s_children s0 = s_children s" "s_panicked s0 = s_panicked s" "s_stopping s0 = s_stopping s"
    "s_nextProcess s0 = s_nextProcess s" "s_timers s0 = s_timers s" by (simp_all add: assms(6))
  have c0: "child_of s0 nm = Some c" using c rest by simp
  have around0: "around s0" using a in0(2) unfolding around_def rest by blast
  have frame: "sup_ok (n + 1) s0" if "shape s0 nm c" "graced s0 nm c"
  proof -
    have "child_ok (n + 1) s0 nm c" using ok that in0(2) unfolding child_ok_def within_def restarts_def attended_def owned_def rest by auto
    then show ?thesis using sup_ok_step [OF assms(1) _ _ _ around0, of nm] in0(1) c by (simp add: inside_def)
  qed
  have stop: "s_shutdown s \<longrightarrow> nm \<in> set (s_stopping s)" if "ch_phase c \<noteq> PhaseStopped" using stopping_child [OF assms(1) c that] .
  have sh: "shape s0 nm c" if "cb \<noteq> Restart nm (ch_generation c) \<or> s_shutdown s"
    using ok that in0(4) unfolding child_ok_def shape_def rest by (auto split: Phase.splits)
  have gr: "graced s0 nm c" if "\<And>p. cb = DisconnectExpired nm (ch_generation c) p \<Longrightarrow> ch_phase c = PhaseStarting \<Longrightarrow> ch_process c \<noteq> Some p"
    using ok that in0(3) unfolding child_ok_def graced_def rest by metis
  show ?thesis
  proof (cases cb)
    case (Restart m g)
    then have m: "m = nm" by (simp add: nm_def)
    show ?thesis
    proof (cases "g \<noteq> ch_generation c \<or> ch_desired c \<noteq> DesiredRunning \<or> s_shutdown s")
      case True
      have "ch_phase c = PhaseBackoff \<Longrightarrow> ch_desired c = DesiredRunning" using ok by (auto simp: child_ok_def shape_def)
      then have "shape s0 nm c" using True sh Restart m ok pcb unfolding child_ok_def restarts_def by blast
      then show ?thesis using frame gr Restart True c0 m rest by (auto simp: sup_restart_def)
    next
      case False
      have bk: "ch_phase c = PhaseBackoff" using ok pcb False unfolding child_ok_def restarts_def Restart m by blast
      define c1 where "c1 = c\<lparr>ch_restartTimer := None\<rparr>"
      have st: "startable s0 nm c1"
        using ok bk in0(2) unfolding child_ok_def startable_def restarts_def attended_def within_def owned_def rest c1_def
        by (auto simp: shape_def)
      obtain s1 c2 r where sp: "spawnLocked nm failed s0 c1 = (s1, c2, r)" by (cases "spawnLocked nm failed s0 c1")
      have "0 \<le> ch_generation c1" "ch_generation c1 \<le> n" using ok by (simp_all add: child_ok_def within_def c1_def)
      then have "inside nm s0 s1 \<and> child_ok (n + 1) s1 nm c2"
        using spawnLocked_ok [OF sp st _ _ assms(3) around_parts(1) [OF around0]] by blast
      then have "sup_ok (n + 1) (settle nm c2 s1)" using sup_ok_settle [OF assms(1) inside_trans [OF in0(1)]] False by blast
      then show ?thesis using False c0 rest sp m by (simp add: Restart sup_restart_def c1_def [symmetric] spawn_and_settle_def)
    qed
  next
    case (MarkStable m g)
    then have m: "m = nm" by (simp add: nm_def)
    have s0: "sup_ok (n + 1) s0" using frame sh gr MarkStable by simp
    then have "child_ok (n + 1) s0 nm c" using c0 unfolding sup_ok_def by blast
    then have "child_ok (n + 1) s0 nm (c\<lparr>ch_restartAttempt := 0, ch_stabilityTimer := None\<rparr>)" if "ch_phase c = PhaseConnected"
      using that by (auto simp: child_ok_defs)
    then have "sup_ok (n + 1) (put nm (c\<lparr>ch_restartAttempt := 0, ch_stabilityTimer := None\<rparr>) s0)" if "ch_phase c = PhaseConnected"
      using sup_ok_put [OF assms(1) in0(1)] stop that by simp
    then show ?thesis using c0 m s0 by (auto simp: MarkStable markStable_def)
  next
    case (DisconnectExpired m g p)
    then have m: "m = nm" by (simp add: nm_def)
    have s0: "shape s0 nm c" using sh DisconnectExpired by simp
    show ?thesis
    proof (cases "g \<noteq> ch_generation c \<or> ch_process c \<noteq> Some p \<or> ch_phase c = PhaseConnected \<or> ch_desired c \<noteq> DesiredRunning")
      case True
      have "ch_phase c = PhaseStarting \<Longrightarrow> ch_desired c = DesiredRunning" using s0 by (auto simp: shape_def)
      then have "graced s0 nm c" using gr DisconnectExpired True by auto
      then show ?thesis using frame s0 True c0 m by (auto simp: DisconnectExpired disconnectExpired_def)
    next
      case False
      define c1 where "c1 = c\<lparr>ch_disconnectTimer := None\<rparr>"
      have "child_ok (n + 1) (Kill p s0) nm c1"
      proof -
        have "shape (Kill p s0) nm c1" using s0 by (auto simp: shape_def c1_def Kill_def split: Phase.splits)
        moreover have "graced (Kill p s0) nm c1" using False by (simp add: graced_def c1_def Kill_def)
        moreover have "pending (Kill p s0) = pending s0" by (simp add: Kill_def pending_def fun_eq_iff)
        ultimately show ?thesis using ok in0(2) unfolding child_ok_def within_def restarts_def attended_def owned_def
          by (auto simp: c1_def Kill_def rest)
      qed
      moreover have "inside nm s (Kill p s0)"
        using in0(1) by (auto simp: inside_def others_def Kill_def ids_ok_def waiting_ok_def pending_def)
      moreover have "ch_phase c \<noteq> PhaseStopped" using s0 False by (auto simp: shape_def)
      ultimately have "sup_ok (n + 1) (put nm c1 (Kill p s0))" using sup_ok_put [OF assms(1)] stop by simp
      moreover have "call_back cb failed s0 = put nm c1 (Kill p s0)"
        using False c0 m by (simp add: DisconnectExpired disconnectExpired_def c1_def put_def Kill_def)
      ultimately show ?thesis by simp
    qed
  qed
qed

subsection \<open>All reachable states\<close>

inductive sup_reach :: "nat \<Rightarrow> Supervisor \<Rightarrow> bool" where
  made: "sup_reach 0 (sup_New giveUpAfter now)"
| acted: "sup_reach k s \<Longrightarrow> sup_reach (Suc k) (sup_act a s)"

lemma sup_act_ok:
  assumes "sup_ok n s" "0 \<le> n" "n + 1 < 2 ^ 64"
  shows "sup_ok (n + 1) (sup_act a s)"
proof (cases a)
  case (STerminate nm g)
  then show ?thesis using sup_ok_mono [OF assms(1)] sup_ok_Kill [OF sup_ok_mono [OF assms(1)]]
    by (auto simp: TerminateGeneration_def split: option.splits)
next
  case (STick d)
  have "around (s\<lparr>s_now := s_now s + int d\<rparr>) = around s" by (simp add: around_def pending_def)
  then show ?thesis using sup_ok_mono [OF assms(1)] STick by (simp add: sup_ok_def child_ok_cong)
next
  case (SExit k e)
  then show ?thesis using SExit_ok [OF assms(1)] sup_ok_mono [OF assms(1)] by (simp add: Let_def)
next
  case (SCall k failed)
  then show ?thesis using call_back_ok [OF assms] sup_ok_mono [OF assms(1)] by simp
qed (use assms ensure_ok AdoptParked_ok sup_Stop_ok(1) Shutdown_begin_ok sup_ok_mono Shutdown_next_ok NoteConnected_ok NoteDisconnected_ok fire_ok in simp_all)

lemma sup_New_ok: "sup_ok 0 (sup_New giveUpAfter now)"
  by (simp add: sup_ok_def around_def sup_New_def pending_def)

lemma sup_reach_ok: "sup_reach k s \<Longrightarrow> k < 2 ^ 64 \<Longrightarrow> sup_ok (int k) s"
proof (induction rule: sup_reach.induct)
  case (acted k s a)
  have "int k + 1 < 2 ^ 64" using acted.prems by simp
  then have "sup_ok (int k + 1) (sup_act a s)" using sup_act_ok [of "int k" s a] acted by simp
  then show ?case by (simp add: add.commute)
qed (simp add: sup_New_ok)

end
