(* ===== verification/Supervise_Theorems.thy ===== *)
theory Supervise_Theorems
  imports Supervise_Invariant
begin

text \<open>
  The properties of the supervisor: no process is abandoned, a child that is wanted is restarted or openly
  given up, nothing starts after a shutdown, and what a callback that comes too late can do.
\<close>

subsection \<open>Concrete states\<close>

lemma sup_reach_run: "sup_reach k s \<Longrightarrow> sup_reach (k + length acts) (sup_run acts s)"
proof (induction acts arbitrary: k s)
  case (Cons a acts)
  have "sup_reach (Suc k + length acts) (sup_run acts (sup_act a s))" using Cons by (intro Cons.IH) (rule sup_reach.acted)
  then show ?case by (simp add: sup_run_def)
qed (simp add: sup_run_def)

lemma sup_run_reach: "length acts = k \<Longrightarrow> sup_reach k (sup_run acts (sup_New giveUpAfter now))"
  using sup_reach_run [OF sup_reach.made, of acts] by simp

text \<open>A child is started; it exits; the supervisor is shut down.\<close>

definition demo_started :: Supervisor where
  "demo_started = sup_run [SEnsure ''worker'' (Some 0) True None] (sup_New 0 1)"

definition demo_exit :: Exit where
  "demo_exit = \<lparr>ex_At = 0, ex_ExitCode = Some 1, ex_Signal = [], ex_Error = []\<rparr>"

definition demo_waiting :: Supervisor where
  "demo_waiting = sup_run [SEnsure ''worker'' (Some 0) True None, SExit 0 demo_exit] (sup_New 0 1)"

definition demo_closed :: Supervisor where
  "demo_closed = sup_run [SEnsure ''worker'' (Some 0) True None, SShutdown, SStopNext ''worker''] (sup_New 0 1)"

text \<open>Its grace ends at the moment it connects and disconnects again.\<close>

definition demo_late :: Supervisor where
  "demo_late = sup_run [SEnsure ''worker'' (Some 0) True None, STick 5000000000, SFire 0, SConnected ''worker'' 1,
     SDisconnected ''worker'' 1, SCall 0 None] (sup_New 0 1)"

lemma demo_reached: "sup_reach 1 demo_started" "sup_reach 2 demo_waiting" "sup_reach 3 demo_closed" "sup_reach 6 demo_late"
  unfolding demo_started_def demo_waiting_def demo_closed_def demo_late_def by (rule sup_run_reach; simp)+

lemmas demo_sup_defs = sup_run_def sup_New_def ensure_def validateName_def filepath_Base_def TrimSpace_graphic graphic_def
  spawn_and_settle_def spawnLocked_def new_child_def spawning_def next_generation_def AfterFunc_def stopTimer_def settle_def put_def notify_def
  DisconnectGrace_def second_def millisecond_def fire_def without_def NoteConnected_def NoteDisconnected_def StableConnection_def
  disconnectExpired_def Kill_def Let_def processExited_def scheduleRestartLocked_def RestartBackoff_def DefaultGiveUpAfter_def
  Shutdown_begin_def Shutdown_next_def sup_Stop_def

subsection \<open>Processes\<close>

lemma child_of_waiter:
  assumes "sup_ok n s" "w \<in> set (s_waiting s)"
  obtains c where "child_of s (wt_name w) = Some c" "child_ok n s (wt_name w) c"
  using assms unfolding sup_ok_def around_def by blast

lemma process_waiter:
  assumes "sup_ok n s" "child_of s nm = Some c" "ch_process c = Some p"
  shows "\<lparr>wt_process = p, wt_name = nm, wt_generation = ch_generation c\<rparr> \<in> set (s_waiting s)"
proof -
  have "shape s nm c" using assms(1,2) by (simp add: sup_ok_def child_ok_def)
  then show ?thesis using assms(3) by (auto simp: shape_def split: Phase.splits)
qed

lemma waiter_generation:
  assumes "sup_ok n s" "w \<in> set (s_waiting s)" "child_of s (wt_name w) = Some c" "ch_process c = Some (wt_process w)"
  shows "ch_generation c = wt_generation w"
proof -
  have "distinct (map wt_process (s_waiting s))" using assms(1) by (simp add: sup_ok_def around_def)
  then have "w = \<lparr>wt_process = wt_process w, wt_name = wt_name w, wt_generation = ch_generation c\<rparr>"
    using process_waiter [OF assms(1,3,4)] assms(2) by (auto simp: distinct_map inj_on_def)
  then show ?thesis by (metis waiter.select_convs(3))
qed

text \<open>
  C17. The supervisor loses track of no process and never panics: in every state reached in fewer than
  \<open>2 ^ 64\<close> steps, a process that has not exited is the one its child has, of the child's generation, or it was
  killed; and the process a child has is one that has not exited.
\<close>

theorem no_process_abandoned:
  assumes "sup_reach k s" "k < 2 ^ 64"
  shows "\<not> s_panicked s \<and>
    (\<forall>w \<in> set (s_waiting s). \<exists>c. child_of s (wt_name w) = Some c \<and>
       (ch_process c = Some (wt_process w) \<and> ch_generation c = wt_generation w \<or> wt_process w \<in> set (s_killed s))) \<and>
    (\<forall>nm c p. child_of s nm = Some c \<and> ch_process c = Some p \<longrightarrow>
       \<lparr>wt_process = p, wt_name = nm, wt_generation = ch_generation c\<rparr> \<in> set (s_waiting s))"
proof -
  have ok: "sup_ok (int k) s" using sup_reach_ok [OF assms] .
  have "\<exists>c. child_of s (wt_name w) = Some c \<and>
      (ch_process c = Some (wt_process w) \<and> ch_generation c = wt_generation w \<or> wt_process w \<in> set (s_killed s))" if w: "w \<in> set (s_waiting s)" for w
  proof -
    obtain c where c: "child_of s (wt_name w) = Some c" "child_ok (int k) s (wt_name w) c" using child_of_waiter [OF ok w] .
    then show ?thesis using waiter_generation [OF ok w c(1)] w unfolding child_ok_def attended_def by blast
  qed
  then show ?thesis using ok process_waiter [OF ok] by (auto simp: sup_ok_def around_def)
qed

theorem no_process_abandoned_witness:
  "\<exists>c. child_of demo_started ''worker'' = Some c \<and> ch_process c = Some 0 \<and> s_waiting demo_started = [\<lparr>wt_process = 0, wt_name = ''worker'', wt_generation = 1\<rparr>]"
proof -
  have "s_waiting demo_started = [\<lparr>wt_process = 0, wt_name = ''worker'', wt_generation = 1\<rparr>]" "s_killed demo_started = []"
    by (simp_all add: demo_started_def demo_sup_defs)
  then show ?thesis using no_process_abandoned [OF demo_reached(1)] by auto
qed

subsection \<open>Restarting\<close>

lemma backoff_shape:
  assumes "sup_ok n s" "child_of s nm = Some c" "ch_phase c = PhaseBackoff"
  shows "ch_desired c = DesiredRunning" "ch_process c = None" "ch_restartTimer c \<noteq> None" "\<exists>f. ch_start c = Some f" "0 \<le> ch_restartAttempt c"
    "\<not> s_shutdown s \<Longrightarrow> Restart nm (ch_generation c) \<in> set (s_fired s) \<or> (\<exists>t \<in> set (s_timers s). t_call t = Restart nm (ch_generation c) \<and> t_at t = ch_nextRestartAt c)"
proof -
  have "child_ok n s nm c" using assms(1,2) by (simp add: sup_ok_def)
  then show "ch_desired c = DesiredRunning" "ch_process c = None" "ch_restartTimer c \<noteq> None" "\<exists>f. ch_start c = Some f" "0 \<le> ch_restartAttempt c"
    "\<not> s_shutdown s \<Longrightarrow> Restart nm (ch_generation c) \<in> set (s_fired s) \<or> (\<exists>t \<in> set (s_timers s). t_call t = Restart nm (ch_generation c) \<and> t_at t = ch_nextRestartAt c)"
    using assms(3) by (auto simp: child_ok_def shape_def within_def)
qed

lemma spawnLocked_children: "spawnLocked nm failed s c = (s', c', r) \<Longrightarrow> s_children s' = s_children s \<and> s_shutdown s' = s_shutdown s"
  by (auto simp: spawnLocked_def scheduleRestartLocked_def AfterFunc_def Let_def split: option.splits if_splits prod.splits)

lemma scheduleRestart_children: "scheduleRestartLocked nm s c = (s', c') \<Longrightarrow> s_children s' = s_children s \<and> s_shutdown s' = s_shutdown s"
  by (auto simp: scheduleRestartLocked_def AfterFunc_def Let_def split: if_splits prod.splits)

lemma settle_other: "nm \<noteq> m \<Longrightarrow> child_of (settle m c s) nm = child_of s nm" "s_shutdown (settle m c s) = s_shutdown s"
  by (simp_all add: settle_def child_of_put) (simp_all add: notify_def reportGiveUp_def put_def)

text \<open>
  Only the callback of its restart, stopping it or a shutdown take a child out of its backoff.
\<close>

lemma backoff_kept:
  assumes ok: "sup_ok n s" and c: "child_of s nm = Some c" "ch_phase c = PhaseBackoff" and on: "\<not> s_shutdown s"
    and a: "a \<noteq> SShutdown" "a \<noteq> SStop nm" "a \<noteq> SStopNext nm"
      "\<And>j res. a = SCall j res \<Longrightarrow> \<not> (j < length (s_fired s) \<and> s_fired s ! j = Restart nm (ch_generation c))"
  shows "\<exists>c'. child_of (sup_act a s) nm = Some c' \<and> ch_phase c' = PhaseBackoff \<and> ch_generation c' = ch_generation c \<and> \<not> s_shutdown (sup_act a s)"
proof -
  note sh = backoff_shape [OF ok c]
  have simple: ?thesis if "child_of (sup_act a s) nm = Some c" "s_shutdown (sup_act a s) = s_shutdown s" using that c on by simp
  have put: "child_of (put m d x) nm = child_of x nm" "s_shutdown (put m d x) = s_shutdown x" if "m \<noteq> nm" for m d x
    using that by (auto simp: child_of_put) (simp_all add: put_def)
  have flag: "s_shutdown (notify m x) = s_shutdown x" "s_shutdown (Kill p x) = s_shutdown x" "s_shutdown (put m d x) = s_shutdown x" for m x p d
    by (simp_all add: notify_def Kill_def put_def)
  have spawned: "child_of (fst (spawn_and_settle m failed x d)) nm = child_of x nm" "s_shutdown (fst (spawn_and_settle m failed x d)) = s_shutdown x"
    if "m \<noteq> nm" for m failed x d
  proof -
    obtain s1 c1 r where sp: "spawnLocked m failed x d = (s1, c1, r)" by (cases "spawnLocked m failed x d")
    have "nm \<noteq> m" using that by simp
    then show "child_of (fst (spawn_and_settle m failed x d)) nm = child_of x nm" "s_shutdown (fst (spawn_and_settle m failed x d)) = s_shutdown x"
      using spawnLocked_children [OF sp] sp settle_other by (simp_all add: spawn_and_settle_def)
  qed
  have stopped: "child_of (sup_Stop m x) nm = child_of x nm" "s_shutdown (sup_Stop m x) = s_shutdown x" if "m \<noteq> nm" for m x
    using put [OF that] by (simp_all add: sup_Stop_def Let_def flag split: option.splits)
  show ?thesis
  proof (cases a)
    case (SEnsure m start revive failed)
    show ?thesis
    proof (cases "m = nm")
      case True
      show ?thesis
      proof (cases "validateName nm = None \<and> start \<noteq> None")
        case ok: True
        then have "sup_act a s = put nm (c\<lparr>ch_start := start, ch_desired := DesiredRunning\<rparr>) s"
          using SEnsure True c(1) on sh(3) by (auto simp: ensure_def Let_def)
        then show ?thesis using c(2) on by (simp add: child_of_put flag)
      next
        case False
        then have "sup_act a s = s" using SEnsure True by (auto simp: ensure_def split: option.splits)
        then show ?thesis using simple c(1) by simp
      qed
    next
      case False
      then show ?thesis using SEnsure c(1) put spawned
        by (intro simple) (simp_all add: ensure_def Let_def split: option.splits)
    qed
  next
    case (SAdopt m park)
    then show ?thesis using c(1) put by (intro simple; cases "m = nm") (simp_all add: AdoptParked_def flag split: option.splits)
  next
    case (SStop m)
    then show ?thesis using a(2) c(1) stopped [of m s] by (intro simple) auto
  next
    case (STerminate m g)
    then show ?thesis using c(1) by (intro simple) (simp_all add: TerminateGeneration_def flag split: option.splits)
  next
    case (SStopNext m)
    then show ?thesis using a(3) c(1) stopped [of m s] by (intro simple) (auto simp: Shutdown_next_def)
  next
    case (SConnected m g)
    then show ?thesis using c(1) put sh(2)
      by (intro simple; cases "m = nm") (simp_all add: NoteConnected_def Let_def AfterFunc_def flag split: option.splits)
  next
    case (SDisconnected m g)
    then show ?thesis using c(1) put sh(2)
      by (intro simple; cases "m = nm") (simp_all add: NoteDisconnected_def Let_def AfterFunc_def flag split: option.splits)
  next
    case (SExit k e)
    show ?thesis
    proof (cases "k < length (s_waiting s)")
      case True
      define w where "w = s_waiting s ! k"
      define s0 where "s0 = s\<lparr>s_waiting := without k (s_waiting s)\<rparr>"
      have act: "sup_act a s = processExited (wt_name w) (wt_generation w) (wt_process w) e s0" using SExit True by (simp add: w_def s0_def Let_def)
      have exited: "child_of (processExited m g p e x) nm = child_of x nm" "s_shutdown (processExited m g p e x) = s_shutdown x" if "m \<noteq> nm" for m g p x
      proof -
        have "nm \<noteq> m" using that by simp
        then show "child_of (processExited m g p e x) nm = child_of x nm" "s_shutdown (processExited m g p e x) = s_shutdown x"
          using settle_other scheduleRestart_children
          by (auto simp: processExited_def Let_def split: option.splits prod.splits if_splits)
      qed
      show ?thesis
      proof (cases "wt_name w = nm")
        case True
        then have "sup_act a s = s0" unfolding act using c(1) sh(2) by (simp add: processExited_def s0_def)
        then show ?thesis using c(1) by (intro simple) (simp_all add: s0_def)
      next
        case False
        then show ?thesis using exited [OF False] c(1) by (intro simple) (simp_all add: act s0_def)
      qed
    qed (use SExit c on in auto)
  next
    case (SCall j res)
    show ?thesis
    proof (cases "j < length (s_fired s)")
      case True
      define s0 where "s0 = s\<lparr>s_fired := without j (s_fired s)\<rparr>"
      have s0: "child_of s0 nm = Some c" "s_shutdown s0 = s_shutdown s" using c(1) by (simp_all add: s0_def)
      have act: "sup_act a s = call_back (s_fired s ! j) res s0" using SCall True by (simp add: s0_def)
      have not_it: "s_fired s ! j \<noteq> Restart nm (ch_generation c)" using a(4) [OF SCall] True by simp
      have "child_of (sup_act a s) nm = Some c \<and> s_shutdown (sup_act a s) = s_shutdown s"
      proof (cases "s_fired s ! j")
        case (Restart m g)
        then show ?thesis unfolding act using s0 not_it spawned [of m res s0] by (cases "m = nm") (auto simp: sup_restart_def split: option.splits)
      next
        case (DisconnectExpired m g p)
        then show ?thesis unfolding act using s0 sh(2) put [of m] by (cases "m = nm") (auto simp: disconnectExpired_def flag split: option.splits)
      next
        case (MarkStable m g)
        then show ?thesis unfolding act using s0 c(2) put [of m] by (cases "m = nm") (auto simp: markStable_def flag split: option.splits)
      qed
      then show ?thesis using simple by blast
    qed (use SCall c on in auto)
  qed (use a(1) c on in \<open>auto simp: fire_def\<close>)
qed

text \<open>What the callback does, whether the start function succeeds or fails.\<close>

lemma sup_restart_starts:
  assumes ok: "sup_ok n s" and n: "n + 1 < 2 ^ 64" and c: "child_of s nm = Some c" "ch_phase c = PhaseBackoff" and on: "\<not> s_shutdown s"
    and j: "j < length (s_fired s)" "s_fired s ! j = Restart nm (ch_generation c)"
  shows "\<exists>f c'. ch_start c = Some f \<and> s_starts (sup_act (SCall j res) s) = s_starts s @ [(nm, f, ch_generation c + 1)] \<and>
    child_of (sup_act (SCall j res) s) nm = Some c' \<and>
    (case res of None \<Rightarrow> ch_process c' \<noteq> None | Some err \<Rightarrow> ch_process c' = None \<and> ch_phase c' \<in> {PhaseBackoff, PhaseParked})"
proof -
  define s0 where "s0 = s\<lparr>s_fired := without j (s_fired s)\<rparr>"
  define c1 where "c1 = c\<lparr>ch_restartTimer := None\<rparr>"
  note sh = backoff_shape [OF ok c]
  obtain f where f: "ch_start c = Some f" using sh(4) by blast
  have "0 \<le> ch_generation c" "ch_generation c \<le> n" using ok c(1) by (auto simp: sup_ok_def child_ok_def within_def)
  then have g: "next_generation (ch_generation c) = ch_generation c + 1" using next_generation_small [OF _ _ n] by simp
  obtain s1 c2 r where sp: "spawnLocked nm res s0 c1 = (s1, c2, r)" by (cases "spawnLocked nm res s0 c1")
  have "s_starts s1 = s_starts s @ [(nm, f, ch_generation c + 1)] \<and>
      (case res of None \<Rightarrow> ch_process c2 \<noteq> None | Some err \<Rightarrow> ch_process c2 = None \<and> ch_phase c2 \<in> {PhaseBackoff, PhaseParked})"
    using sp f g sh(2,5)
    by (auto simp: spawnLocked_def scheduleRestartLocked_def Let_def c1_def spawning_def AfterFunc_def s0_def RestartBackoff_def
        split: option.splits prod.splits if_splits)
  moreover have "sup_act (SCall j res) s = settle nm c2 s1"
    using c(1) on j sh(1) sp [unfolded c1_def s0_def] by (simp add: sup_restart_def spawn_and_settle_def)
  ultimately show ?thesis using f by (auto simp: settle_def notify_def reportGiveUp_def child_of_put put_def update_conv')
qed

text \<open>
  C36. The restart of a child in backoff, as long as the supervisor is not shut down. It is always on its way:
  its callback waits for the lock, or its timer is armed for the instant the child announces; and whatever happens other than a shutdown, stopping
  the child or the run of that callback, the child stays in backoff at its generation, so the same holds again
  afterwards. When the callback runs, the start function is called exactly once, for the next generation;
  if it succeeds the child has a process, if it fails the child is in backoff again or parked. And nothing
  but time is needed: waiting, the timer going off and the callback lead there in at most three steps,
  whatever the start function will answer. All this holds within \<open>2 ^ 64\<close> steps.
\<close>

theorem restart_follows:
  assumes "sup_reach k s" "k + 3 < 2 ^ 64" "child_of s nm = Some c" "ch_phase c = PhaseBackoff" "\<not> s_shutdown s"
  shows "(Restart nm (ch_generation c) \<in> set (s_fired s) \<or>
      (\<exists>t \<in> set (s_timers s). t_call t = Restart nm (ch_generation c) \<and> t_at t = ch_nextRestartAt c)) \<and>
    (\<forall>a. a \<noteq> SShutdown \<and> a \<noteq> SStop nm \<and> a \<noteq> SStopNext nm \<and>
      (\<forall>j res. a = SCall j res \<longrightarrow> \<not> (j < length (s_fired s) \<and> s_fired s ! j = Restart nm (ch_generation c))) \<longrightarrow>
      (\<exists>c'. child_of (sup_act a s) nm = Some c' \<and> ch_phase c' = PhaseBackoff \<and> ch_generation c' = ch_generation c \<and> \<not> s_shutdown (sup_act a s))) \<and>
    (\<forall>j res. j < length (s_fired s) \<and> s_fired s ! j = Restart nm (ch_generation c) \<longrightarrow>
      (\<exists>f c'. ch_start c = Some f \<and> s_starts (sup_act (SCall j res) s) = s_starts s @ [(nm, f, ch_generation c + 1)] \<and>
        child_of (sup_act (SCall j res) s) nm = Some c' \<and>
        (case res of None \<Rightarrow> ch_process c' \<noteq> None | Some err \<Rightarrow> ch_process c' = None \<and> ch_phase c' \<in> {PhaseBackoff, PhaseParked}))) \<and>
    (\<forall>res. \<exists>acts f c'. length acts \<le> 3 \<and> set acts \<subseteq> {SCall j res | j. True} \<union> {SFire i | i. True} \<union> {STick d | d. True} \<and>
      ch_start c = Some f \<and> s_starts (sup_run acts s) = s_starts s @ [(nm, f, ch_generation c + 1)] \<and>
      child_of (sup_run acts s) nm = Some c' \<and>
      (case res of None \<Rightarrow> ch_process c' \<noteq> None | Some err \<Rightarrow> ch_process c' = None \<and> ch_phase c' \<in> {PhaseBackoff, PhaseParked}))"
    (is "?way \<and> ?kept \<and> ?called \<and> (\<forall>res. ?soon res)")
proof -
  have ok: "sup_ok (int k) s" using sup_reach_ok assms(1,2) by simp
  have b: "int k + 1 < 2 ^ 64" using assms(2) by simp
  have way: ?way using backoff_shape(6) [OF ok assms(3-5)] .
  have "?soon res" for res using way
  proof
    assume "Restart nm (ch_generation c) \<in> set (s_fired s)"
    then obtain j where j: "j < length (s_fired s)" "s_fired s ! j = Restart nm (ch_generation c)" by (auto simp: in_set_conv_nth)
    show ?thesis using sup_restart_starts [OF ok b assms(3-5) j, of res] by (intro exI [of _ "[SCall j res]"]) (auto simp: sup_run_def simp del: sup_act.simps)
  next
    assume "\<exists>t \<in> set (s_timers s). t_call t = Restart nm (ch_generation c) \<and> t_at t = ch_nextRestartAt c"
    then obtain t i where t: "t_call t = Restart nm (ch_generation c)" and i: "i < length (s_timers s)" "s_timers s ! i = t" by (auto simp: in_set_conv_nth)
    define d where "d = nat (t_at t - s_now s)"
    define s2 where "s2 = sup_act (SFire i) (sup_act (STick d) s)"
    have "sup_ok (int k + 1 + 1) s2" unfolding s2_def using assms(2) by (intro sup_act_ok ok) auto
    moreover have s2: "s2 = s\<lparr>s_now := s_now s + int d, s_timers := without i (s_timers s), s_fired := s_fired s @ [t_call t]\<rparr>"
      using i by (simp add: s2_def fire_def d_def)
    moreover have "int k + 1 + 1 + 1 < 2 ^ 64" using assms(2) by simp
    ultimately have "\<exists>f c'. ch_start c = Some f \<and>
        s_starts (sup_act (SCall (length (s_fired s)) res) s2) = s_starts s2 @ [(nm, f, ch_generation c + 1)] \<and>
        child_of (sup_act (SCall (length (s_fired s)) res) s2) nm = Some c' \<and>
        (case res of None \<Rightarrow> ch_process c' \<noteq> None | Some err \<Rightarrow> ch_process c' = None \<and> ch_phase c' \<in> {PhaseBackoff, PhaseParked})"
      using assms(3-5) t by (intro sup_restart_starts [of "int k + 1 + 1"]) (simp_all del: sup_act.simps)
    moreover define acts where "acts = [STick d, SFire i, SCall (length (s_fired s)) res]"
    moreover have "sup_run acts s = sup_act (SCall (length (s_fired s)) res) s2" unfolding acts_def sup_run_def s2_def by (simp del: sup_act.simps)
    moreover have "s_starts s2 = s_starts s" by (simp add: s2)
    ultimately show ?thesis by (intro exI [of _ acts]) (auto simp del: sup_act.simps)
  qed
  moreover have ?kept using backoff_kept [OF ok assms(3-5)] by blast
  moreover have ?called using sup_restart_starts [OF ok b assms(3-5)] by blast
  ultimately show ?thesis using way by blast
qed

theorem restart_follows_witness:
  "\<exists>acts. s_starts (sup_run acts demo_waiting) = [(''worker'', 0, 1), (''worker'', 0, 2)]"
proof -
  obtain c where c: "child_of demo_waiting ''worker'' = Some c" "ch_phase c = PhaseBackoff" "ch_generation c = 1" "ch_start c = Some 0"
    by (simp add: demo_waiting_def demo_sup_defs)
  have s: "\<not> s_shutdown demo_waiting" "s_starts demo_waiting = [(''worker'', 0, 1)]" by (simp_all add: demo_waiting_def demo_sup_defs)
  have k: "(2 :: nat) + 3 < 2 ^ 64" by simp
  note r = restart_follows [OF demo_reached(2) k c(1,2) s(1), THEN conjunct2, THEN conjunct2, THEN conjunct2, rule_format, of None]
  from r obtain acts f where "ch_start c = Some f" "s_starts (sup_run acts demo_waiting) = s_starts demo_waiting @ [(''worker'', f, ch_generation c + 1)]"
    by blast
  then show ?thesis using c(3,4) s(2) by auto
qed

text \<open>
  What the exit of a child's process leads to while the supervisor is not shut down: after as many restarts
  without a stable connection as the supervisor allows, the child is parked and reported; otherwise it waits
  for its restart, the delays growing with the attempts up to the longest. The table of delays is never read
  outside its bounds.
\<close>

theorem exit_outcome:
  assumes "sup_reach k s" "k < 2 ^ 64" "\<not> s_shutdown s" "j < length (s_waiting s)" "w = s_waiting s ! j" "child_of s (wt_name w) = Some c"
    "ch_process c = Some (wt_process w)"
  shows "\<exists>c'. child_of (sup_act (SExit j e) s) (wt_name w) = Some c' \<and> ch_process c' = None \<and> ch_lastExit c' = Some (e\<lparr>ex_At := s_now s\<rparr>) \<and>
    (if s_giveUpAfter s > 0 \<and> ch_restartAttempt c = s_giveUpAfter s
     then ch_phase c' = PhaseParked \<and> ch_parkedAt c' = s_now s \<and> s_gaveUp (sup_act (SExit j e) s) = s_gaveUp s @ [(wt_name w, snapshotOf c')]
     else ch_phase c' = PhaseBackoff \<and> ch_restartAttempt c' = ch_restartAttempt c + 1 \<and> 0 \<le> ch_restartAttempt c \<and>
       ch_nextRestartAt c' = s_now s + RestartBackoff ! min (nat (ch_restartAttempt c)) 7 \<and> s_gaveUp (sup_act (SExit j e) s) = s_gaveUp s)"
proof -
  have ok: "sup_ok (int k) s" using sup_reach_ok [OF assms(1,2)] .
  have w: "w \<in> set (s_waiting s)" using assms(4,5) by simp
  have gen: "wt_generation w = ch_generation c" using waiter_generation [OF ok w assms(6,7)] by simp
  have ch: "child_ok (int k) s (wt_name w) c" using ok assms(6) by (simp add: sup_ok_def)
  then have ph: "ch_desired c = DesiredRunning" "ch_phase c \<noteq> PhaseParked" using assms(7) by (auto simp: child_ok_def shape_def split: Phase.splits)
  then have att: "0 \<le> ch_restartAttempt c" "0 < s_giveUpAfter s \<longrightarrow> ch_restartAttempt c \<le> s_giveUpAfter s" using ch by (auto simp: child_ok_def within_def)
  define s1 where "s1 = stopTimer (ch_stabilityTimer c) (stopTimer (ch_disconnectTimer c) (s\<lparr>s_waiting := without j (s_waiting s)\<rparr>))"
  define c1 where "c1 = c\<lparr>ch_process := None, ch_connectedAt := 0, ch_disconnectTimer := None, ch_stabilityTimer := None,
      ch_lastExit := Some (e\<lparr>ex_At := s_now s\<rparr>)\<rparr>"
  obtain s2 c2 where sr: "scheduleRestartLocked (wt_name w) s1 c1 = (s2, c2)" by (cases "scheduleRestartLocked (wt_name w) s1 c1")
  have act: "sup_act (SExit j e) s = settle (wt_name w) c2 s2"
    using assms(3-7) gen ph sr [unfolded s1_def c1_def] by (simp add: processExited_def Let_def)
  have s1: "s_giveUpAfter s1 = s_giveUpAfter s" "s_now s1 = s_now s" "s_gaveUp s1 = s_gaveUp s" by (simp_all add: s1_def stopTimer_def split: option.splits)
  have idx: "nat (if ch_restartAttempt c \<ge> 8 then 7 else ch_restartAttempt c) = min (nat (ch_restartAttempt c)) 7" by simp
  have c2: "ch_process c2 = None \<and> ch_lastExit c2 = Some (e\<lparr>ex_At := s_now s\<rparr>) \<and> s_gaveUp s2 = s_gaveUp s \<and>
      (if s_giveUpAfter s > 0 \<and> ch_restartAttempt c = s_giveUpAfter s then ch_phase c2 = PhaseParked \<and> ch_parkedAt c2 = s_now s
       else ch_phase c2 = PhaseBackoff \<and> ch_restartAttempt c2 = ch_restartAttempt c + 1 \<and>
         ch_nextRestartAt c2 = s_now s + RestartBackoff ! min (nat (ch_restartAttempt c)) 7)"
    using sr att s1 idx
    by (auto simp: scheduleRestartLocked_def Let_def c1_def RestartBackoff_def AfterFunc_def stopTimer_def split: if_splits option.splits)
  show ?thesis using c2 att(1) unfolding act
    by (intro exI [of _ c2]) (auto simp: settle_def notify_def reportGiveUp_def put_def update_conv')
qed

theorem exit_outcome_witness:
  "\<exists>c'. child_of (sup_act (SExit 0 demo_exit) demo_started) ''worker'' = Some c' \<and> ch_phase c' = PhaseBackoff \<and> ch_nextRestartAt c' = 250000001"
proof -
  obtain c where c: "child_of demo_started ''worker'' = Some c" "ch_process c = Some 0" "ch_restartAttempt c = 0"
    by (simp add: demo_started_def demo_sup_defs)
  have s: "\<not> s_shutdown demo_started" "s_waiting demo_started = [\<lparr>wt_process = 0, wt_name = ''worker'', wt_generation = 1\<rparr>]" "s_now demo_started = 1"
    "s_giveUpAfter demo_started = 10" by (simp_all add: demo_started_def demo_sup_defs)
  define w where "w = \<lparr>wt_process = 0 :: nat, wt_name = ''worker'', wt_generation = 1 :: int\<rparr>"
  have w: "0 < length (s_waiting demo_started)" "w = s_waiting demo_started ! 0" "child_of demo_started (wt_name w) = Some c"
    "ch_process c = Some (wt_process w)" using c s(2) by (simp_all add: w_def)
  have k: "(1 :: nat) < 2 ^ 64" by simp
  have d: "RestartBackoff ! min (nat (ch_restartAttempt c)) 7 = 250000000" "\<not> (s_giveUpAfter demo_started > 0 \<and> ch_restartAttempt c = s_giveUpAfter demo_started)"
    using c(3) s(4) by (simp_all add: RestartBackoff_def millisecond_def)
  show ?thesis using exit_outcome [OF demo_reached(1) k s(1) w, of demo_exit] unfolding d(1) if_not_P [OF d(2)] s(3)
    by (elim exE conjE) (intro exI conjI; simp add: w_def del: sup_act.simps)
qed

subsection \<open>Shutdown\<close>

lemma shutdown_starts_nothing:
  assumes "s_shutdown s"
  shows "s_starts (sup_act a s) = s_starts s \<and> s_shutdown (sup_act a s) \<and> set (s_stopping (sup_act a s)) \<subseteq> set (s_stopping s)"
proof -
  have st: "s_starts (stopTimer t x) = s_starts x \<and> s_shutdown (stopTimer t x) = s_shutdown x \<and> s_stopping (stopTimer t x) = s_stopping x" for t x by simp
  have up: "s_starts (put nm c x) = s_starts x" "s_shutdown (put nm c x) = s_shutdown x" "s_stopping (put nm c x) = s_stopping x"
    "s_starts (notify nm x) = s_starts x" "s_shutdown (notify nm x) = s_shutdown x" "s_stopping (notify nm x) = s_stopping x"
    "s_starts (Kill p x) = s_starts x" "s_shutdown (Kill p x) = s_shutdown x" "s_stopping (Kill p x) = s_stopping x"
    "s_starts (settle nm c x) = s_starts x" "s_shutdown (settle nm c x) = s_shutdown x" "s_stopping (settle nm c x) = s_stopping x" for nm c p x
    by (simp_all add: put_def notify_def Kill_def settle_def reportGiveUp_def)
  have stop: "s_starts (sup_Stop nm x) = s_starts x \<and> s_shutdown (sup_Stop nm x) = s_shutdown x \<and> s_stopping (sup_Stop nm x) = s_stopping x" for nm x
    by (simp add: sup_Stop_def Let_def up split: option.splits)
  show ?thesis
  proof (cases a)
    case (SConnected nm g)
    then show ?thesis using assms by (auto simp: NoteConnected_def Let_def up AfterFunc_def split: option.splits)
  next
    case (SDisconnected nm g)
    then show ?thesis using assms by (auto simp: NoteDisconnected_def Let_def up AfterFunc_def split: option.splits)
  next
    case (SExit k e)
    then show ?thesis using assms by (auto simp: processExited_def Let_def up split: option.splits)
  next
    case (SCall k failed)
    then show ?thesis using assms by (cases "s_fired s ! k") (auto simp: sup_restart_def markStable_def disconnectExpired_def up split: option.splits)
  qed (use assms stop in \<open>auto simp: ensure_def AdoptParked_def TerminateGeneration_def Shutdown_begin_def Shutdown_next_def fire_def up split: option.splits\<close>)
qed

text \<open>
  C37. A shutdown is final: from its begin on no start function is called any more, and once every child
  it found was stopped, no child has a process or a restart ahead of it, whatever happens afterwards,
  within \<open>2 ^ 64\<close> steps.
\<close>

theorem shutdown_final:
  assumes "sup_reach k s" "k + length acts < 2 ^ 64" "s_shutdown s"
  shows "s_starts (sup_run acts s) = s_starts s \<and>
    (s_stopping s = [] \<longrightarrow> (\<forall>nm c. child_of (sup_run acts s) nm = Some c \<longrightarrow>
       ch_phase c = PhaseStopped \<and> ch_process c = None \<and> ch_restartTimer c = None))"
proof -
  have run: "s_starts (sup_run acts x) = s_starts x \<and> s_shutdown (sup_run acts x) \<and> set (s_stopping (sup_run acts x)) \<subseteq> set (s_stopping x)"
    if "s_shutdown x" for x
    using that
  proof (induction acts arbitrary: x)
    case (Cons a acts)
    then show ?case using shutdown_starts_nothing [of x a] by (fastforce simp: sup_run_def)
  qed (simp add: sup_run_def)
  have "sup_ok (int (k + length acts)) (sup_run acts s)" using sup_reach_ok [OF sup_reach_run [OF assms(1)] assms(2)] .
  then have "ch_phase c = PhaseStopped \<and> ch_process c = None \<and> ch_restartTimer c = None"
    if "s_stopping s = []" "child_of (sup_run acts s) nm = Some c" for nm c
    using that run [OF assms(3)] by (fastforce simp: sup_ok_def around_def child_ok_def shape_def)
  then show ?thesis using run [OF assms(3)] by blast
qed

theorem shutdown_final_witness:
  "s_starts (sup_run [SEnsure ''worker'' (Some 1) True None, STick 9] demo_closed) = [(''worker'', 0, 1)] \<and>
   (\<exists>c. child_of (sup_run [SEnsure ''worker'' (Some 1) True None, STick 9] demo_closed) ''worker'' = Some c \<and> ch_process c = None)"
proof -
  have there: "\<exists>c. child_of (sup_run [SEnsure ''worker'' (Some 1) True None, STick 9] demo_closed) ''worker'' = Some c"
    by (simp add: demo_closed_def demo_sup_defs)
  have s: "s_shutdown demo_closed" "s_stopping demo_closed = []" "s_starts demo_closed = [(''worker'', 0, 1)]"
    by (simp_all add: demo_closed_def demo_sup_defs)
  show ?thesis using shutdown_final [OF demo_reached(3) _ s(1), of "[SEnsure ''worker'' (Some 1) True None, STick 9]"] s(2,3) there by auto
qed

subsection \<open>A callback that comes too late\<close>

text \<open>
  C38. The grace after a disconnect can be cut short: when the timer of an earlier grace went off just before the
  child connected, its callback can run after the child disconnected again. Stopping that timer came too
  late, the callback is told from the current one by nothing, and the process is killed in the same
  instant it disconnected, while the timer of the current grace still has its five seconds to go.
\<close>

theorem grace_cut_short:
  "sup_reach 6 demo_late \<and> s_killed demo_late = [0] \<and> map ch_phase (map snd (s_children demo_late)) = [PhaseStarting] \<and>
   map (\<lambda>t. (t_at t - s_now demo_late, t_call t)) (s_timers demo_late) = [(DisconnectGrace, DisconnectExpired ''worker'' 1 0)]"
proof -
  show ?thesis using demo_reached(4) by (simp add: demo_late_def demo_sup_defs)
qed

end
