(* ===== verification/Automation.thy ===== *)
theory Automation
  imports Go_Time Go_Strings
begin

text \<open>
  Automations, \<open>internal/automation\<close>: the validation that brings a definition into its canonical form, the
  repositories a trigger listens to, what a definition launches (with \<open>internal/launchcontract\<close>), the
  instants a schedule is due at, and the buffers that bound what a guard command prints. What lies outside is
  a parameter, \<open>outside\<close>: the file system as seen through \<open>os.Stat\<close> (is there something, and is it a
  directory) and \<open>filepath.EvalSymlinks\<close> (whose result is clean, so that cleaning it again changes
  nothing), the parser of cron expressions, whose result gives for a location and an instant the next one
  (\<open>0\<close>, the zero time: none), and the table of time zones, in which the location \<open>0\<close> is UTC. A map of
  overrides is the list of its entries in the order the loop visits them. A definition that fails its
  validation is refused and not looked at again: what the validation has rewritten by then is not modelled.
  Parsing YAML, JSON and URLs and running the guard are not modelled.
\<close>

subsection \<open>Definitions\<close>

record ScheduleSpec =
  sc_Cron :: string
  sc_TimeZone :: string

record RepositoryFilterSpec =
  rf_Mode :: string
  rf_Include :: "string list"
  rf_Exclude :: "string list"

record TriggerSpec =
  tr_Type :: string
  tr_Repositories :: RepositoryFilterSpec
  tr_Schedule :: "ScheduleSpec option"
  tr_Guard :: string
  tr_Continuity :: string
  tr_CatchUp :: string

record LaunchSpec =
  la_Driver :: string
  la_Model :: string
  la_Effort :: string
  la_Executable :: string

record RepositorySource =
  so_Type :: string
  so_Path :: string

record RepositorySources =
  rs_Default :: RepositorySource
  rs_Overrides :: "(string \<times> RepositorySource) list"

record LocationSpec =
  lo_Type :: string
  lo_Path :: string
  lo_RepositorySources :: RepositorySources

record DefinitionSpec =
  de_APIVersion :: string
  de_ID :: int
  de_Name :: string
  de_Trigger :: TriggerSpec
  de_Prompt :: string
  de_Launch :: LaunchSpec
  de_Location :: LocationSpec

record outside =
  o_stat :: "string \<Rightarrow> bool option"
  o_resolve :: "string \<Rightarrow> string option"
  o_cron :: "string \<Rightarrow> (nat \<Rightarrow> time \<Rightarrow> time) option"
  o_zone :: "string \<Rightarrow> nat option"

datatype automation_error = BadVersion | BadID | NoName | NoGuardHere | NoRepositoriesHere | NoScheduleHere | NoSchedule | BadTrigger
  | NoPrompt | NoDriver | BadLocation | NoSourcesHere | NoPathHere | BadDefaultSource | BadOverride string | DuplicateOverride string
  | WrongLocation | ContinuityFixed | CatchUpFixed | BadContinuity | BadCatchUp | BadMode | BadIdentity | DuplicateEntry string
  | IncludedAndExcluded string | NotAbsolute | NotFound | NotDirectory | NotCanonical | NoCron | EmbeddedZone | BadCron | NoZone | BadZone
  | NeverOccurs | NoAgent | BadProductMode | BadDriverMode | BadTrust | BadRecovery

definition APIVersion :: string where "APIVersion = ''attn.dev/automations/v1alpha1''"

subsection \<open>Repositories\<close>

fun split_at :: "char \<Rightarrow> string \<Rightarrow> string list" where
  "split_at sep [] = [[]]"
| "split_at sep (ch # s) = (if ch = sep then [] # split_at sep s else (case split_at sep s of p # ps \<Rightarrow> (ch # p) # ps | [] \<Rightarrow> [[ch]]))"

definition small_alnum :: "char \<Rightarrow> bool" where
  "small_alnum ch = (byte_in 97 122 ch \<or> byte_in 48 57 ch)"

definition repositoryHostPattern :: "string \<Rightarrow> bool" where
  "repositoryHostPattern s = (s \<noteq> [] \<and> small_alnum (hd s) \<and> small_alnum (last s) \<and> list_all (\<lambda>ch. small_alnum ch \<or> ch \<in> set ''.-'') s)"

definition repositoryComponentPattern :: "string \<Rightarrow> bool" where
  "repositoryComponentPattern s = (s \<noteq> [] \<and> list_all (\<lambda>ch. small_alnum ch \<or> ch \<in> set ''_.-'') s)"

definition unsafeComponent :: "string \<Rightarrow> bool" where
  "unsafeComponent s = (s = ''.'' \<or> s = ''..'' \<or> \<not> repositoryComponentPattern s)"

definition CanonicalRepositoryIdentity :: "string \<Rightarrow> automation_error + string" where
  "CanonicalRepositoryIdentity identity =
     (let identity = ToLower (TrimSpace identity) in
      case split_at CHR ''/'' identity of
        [host, owner, repo] \<Rightarrow>
          if \<not> repositoryHostPattern host \<or> unsafeComponent owner \<or> unsafeComponent repo then Inl BadIdentity else Inr identity
      | _ \<Rightarrow> Inl BadIdentity)"

text \<open>The loop of \<open>canonicalize\<close>, with what it has seen.\<close>

fun canonicalize :: "string list \<Rightarrow> string list \<Rightarrow> automation_error + string list" where
  "canonicalize seen [] = Inr []"
| "canonicalize seen (value # values) =
     bind_result (CanonicalRepositoryIdentity value) (\<lambda>identity.
       if identity \<in> set seen then Inl (DuplicateEntry identity)
       else bind_result (canonicalize (identity # seen) values) (\<lambda>out. Inr (identity # out)))"

definition validateRepositoryFilter :: "RepositoryFilterSpec \<Rightarrow> automation_error + RepositoryFilterSpec" where
  "validateRepositoryFilter filter1 =
     (let f = (if rf_Mode filter1 = [] then filter1\<lparr>rf_Mode := ''all_accessible''\<rparr> else filter1) in
      if rf_Mode f \<noteq> ''all_accessible'' then Inl BadMode
      else bind_result (canonicalize [] (rf_Include f)) (\<lambda>inc.
        bind_result (canonicalize [] (rf_Exclude f)) (\<lambda>exc.
          case find (\<lambda>identity. identity \<in> set exc) inc of
            Some identity \<Rightarrow> Inl (IncludedAndExcluded identity)
          | None \<Rightarrow> Inr (f\<lparr>rf_Include := inc, rf_Exclude := exc\<rparr>))))"

definition RepositoryFilter_Matches :: "RepositoryFilterSpec \<Rightarrow> string \<Rightarrow> bool" where
  "RepositoryFilter_Matches f identity =
     (case CanonicalRepositoryIdentity identity of
        Inl _ \<Rightarrow> False
      | Inr canonical \<Rightarrow> canonical \<notin> set (rf_Exclude f) \<and> (rf_Include f = [] \<or> canonical \<in> set (rf_Include f)))"

subsection \<open>Schedules\<close>

text \<open>The first of January 2026 in UTC, the location \<open>0\<close>.\<close>

definition scheduleValidationSample :: time where
  "scheduleValidationSample = 63902822400 * second"

definition CompileSchedule :: "outside \<Rightarrow> ScheduleSpec \<Rightarrow> automation_error + (nat \<Rightarrow> time \<Rightarrow> time) \<times> nat" where
  "CompileSchedule out spec =
     (let cronExpr = TrimSpace (sc_Cron spec) in
      if cronExpr = [] then Inl NoCron
      else if HasPrefix cronExpr ''TZ='' \<or> HasPrefix cronExpr ''CRON_TZ='' then Inl EmbeddedZone
      else (case o_cron out cronExpr of
          None \<Rightarrow> Inl BadCron
        | Some sched \<Rightarrow>
            (let tz = TrimSpace (sc_TimeZone spec) in
             if tz = [] then Inl NoZone
             else (case o_zone out tz of
                 None \<Rightarrow> Inl BadZone
               | Some loc \<Rightarrow> if is_zero (sched 0 scheduleValidationSample) then Inl NeverOccurs else Inr (sched, loc)))))"

text \<open>The loop of \<open>DueInstants\<close>, from an instant on, for so many rounds.\<close>

fun due_from :: "(time \<Rightarrow> time) \<Rightarrow> time \<Rightarrow> time \<Rightarrow> nat \<Rightarrow> time list \<times> bool" where
  "due_from nextOf at now 0 = ([], False)"
| "due_from nextOf at now (Suc n) =
     (let next = nextOf at in
      if is_zero next \<or> next > now then ([], True)
      else (case due_from nextOf next now n of (instants, ok) \<Rightarrow> (next # instants, ok)))"

definition DueInstants :: "(nat \<Rightarrow> time \<Rightarrow> time) \<times> nat \<Rightarrow> time \<Rightarrow> time \<Rightarrow> int \<Rightarrow> time list \<times> bool" where
  "DueInstants s cursor now limit = due_from (fst s (snd s)) cursor now (nat limit)"

subsection \<open>Validation\<close>

definition canonicalizeDirectory :: "outside \<Rightarrow> string \<Rightarrow> automation_error + string" where
  "canonicalizeDirectory out path =
     (if \<not> HasPrefix path ''/'' then Inl NotAbsolute
      else (case o_stat out path of
          None \<Rightarrow> Inl NotFound
        | Some dir \<Rightarrow>
            if \<not> dir then Inl NotDirectory
            else (case o_resolve out path of None \<Rightarrow> Inl NotCanonical | Some canonicalPath \<Rightarrow> Inr canonicalPath)))"

definition has_repositories :: "TriggerSpec \<Rightarrow> bool" where
  "has_repositories t = (rf_Mode (tr_Repositories t) \<noteq> [] \<or> rf_Include (tr_Repositories t) \<noteq> [] \<or> rf_Exclude (tr_Repositories t) \<noteq> [])"

definition validate_trigger :: "outside \<Rightarrow> TriggerSpec \<Rightarrow> automation_error + TriggerSpec" where
  "validate_trigger out t =
     (if tr_Guard t \<noteq> [] \<and> tr_Type t \<noteq> ''scheduled'' then Inl NoGuardHere
      else if tr_Type t = ''manual'' then
        (if has_repositories t then Inl NoRepositoriesHere else if tr_Schedule t \<noteq> None then Inl NoScheduleHere else Inr t)
      else if tr_Type t = ''github_review_requested'' then
        bind_result (validateRepositoryFilter (tr_Repositories t)) (\<lambda>f.
          if tr_Schedule t \<noteq> None then Inl NoScheduleHere else Inr (t\<lparr>tr_Repositories := f\<rparr>))
      else if tr_Type t = ''scheduled'' then
        (if has_repositories t then Inl NoRepositoriesHere
         else (case tr_Schedule t of
             None \<Rightarrow> Inl NoSchedule
           | Some spec \<Rightarrow> bind_result (CompileSchedule out spec) (\<lambda>_. Inr t)))
      else Inl BadTrigger)"

fun validate_overrides :: "outside \<Rightarrow> string list \<Rightarrow> (string \<times> RepositorySource) list \<Rightarrow> automation_error + (string \<times> RepositorySource) list" where
  "validate_overrides out seen [] = Inr []"
| "validate_overrides out seen ((identity, source) # rest) =
     (case CanonicalRepositoryIdentity identity of
        Inl _ \<Rightarrow> Inl (BadOverride identity)
      | Inr canonicalIdentity \<Rightarrow>
          if so_Type source \<noteq> ''local_clone'' then Inl (BadOverride identity)
          else bind_result (canonicalizeDirectory out (so_Path source)) (\<lambda>path.
            if canonicalIdentity \<in> set seen then Inl (DuplicateOverride canonicalIdentity)
            else bind_result (validate_overrides out (canonicalIdentity # seen) rest) (\<lambda>rest.
              Inr ((canonicalIdentity, source\<lparr>so_Path := path\<rparr>) # rest))))"

definition validate_location :: "outside \<Rightarrow> LocationSpec \<Rightarrow> automation_error + LocationSpec" where
  "validate_location out l =
     (let sources = lo_RepositorySources l in
      if lo_Type l = ''directory'' then
        bind_result (canonicalizeDirectory out (lo_Path l)) (\<lambda>path.
          if so_Type (rs_Default sources) \<noteq> [] \<or> rs_Overrides sources \<noteq> [] then Inl NoSourcesHere else Inr (l\<lparr>lo_Path := path\<rparr>))
      else if lo_Type l = ''repository_worktree'' then
        (if TrimSpace (lo_Path l) \<noteq> [] then Inl NoPathHere
         else if so_Type (rs_Default sources) \<noteq> ''managed_cache'' then Inl BadDefaultSource
         else if TrimSpace (so_Path (rs_Default sources)) \<noteq> [] then Inl BadDefaultSource
         else bind_result (validate_overrides out [] (rs_Overrides sources)) (\<lambda>overrides.
           Inr (l\<lparr>lo_RepositorySources := sources\<lparr>rs_Overrides := overrides\<rparr>\<rparr>)))
      else Inl BadLocation)"

definition validate_policy :: "TriggerSpec \<Rightarrow> LocationSpec \<Rightarrow> automation_error + TriggerSpec" where
  "validate_policy t l =
     (if tr_Type t = ''github_review_requested'' then
        (if lo_Type l \<noteq> ''repository_worktree'' then Inl WrongLocation
         else if tr_Continuity t \<noteq> [] then Inl ContinuityFixed
         else if tr_CatchUp t \<noteq> [] then Inl CatchUpFixed else Inr t)
      else if tr_Type t = ''scheduled'' then
        (if lo_Type l \<noteq> ''directory'' then Inl WrongLocation
         else let t = (if tr_Continuity t = [] then t\<lparr>tr_Continuity := ''fresh''\<rparr> else t) in
           if tr_Continuity t \<noteq> ''fresh'' \<and> tr_Continuity t \<noteq> ''singleton'' then Inl BadContinuity
           else if tr_CatchUp t \<noteq> ''skip'' \<and> tr_CatchUp t \<noteq> ''latest'' then Inl BadCatchUp else Inr t)
      else if tr_Continuity t \<noteq> [] then Inl ContinuityFixed
      else if tr_CatchUp t \<noteq> [] then Inl CatchUpFixed else Inr t)"

definition ValidateDefinition :: "outside \<Rightarrow> DefinitionSpec \<Rightarrow> automation_error + DefinitionSpec" where
  "ValidateDefinition out s =
     (if de_APIVersion s \<noteq> APIVersion then Inl BadVersion
      else if de_ID s < 0 then Inl BadID
      else if TrimSpace (de_Name s) = [] then Inl NoName
      else bind_result (validate_trigger out (de_Trigger s)) (\<lambda>t.
        if TrimSpace (de_Prompt s) = [] then Inl NoPrompt
        else let driver = TrimSpace (ToLower (la_Driver (de_Launch s))) in
          if driver = [] then Inl NoDriver
          else bind_result (validate_location out (de_Location s)) (\<lambda>l.
            bind_result (validate_policy t l) (\<lambda>t.
              Inr (s\<lparr>de_Trigger := t, de_Launch := (de_Launch s)\<lparr>la_Driver := driver\<rparr>, de_Location := l\<rparr>)))))"

definition ResolvedTriggerPolicy :: "DefinitionSpec \<Rightarrow> string \<times> string" where
  "ResolvedTriggerPolicy spec =
     (let t = de_Trigger spec in
      if tr_Type t = ''github_review_requested'' then (''per_subject'', ''latest'')
      else if tr_Type t = ''scheduled'' then (if tr_Continuity t = [] then ''fresh'' else tr_Continuity t, tr_CatchUp t)
      else (''fresh'', []))"

subsection \<open>What is launched\<close>

record UnattendedLaunchSpec =
  ul_Agent :: string
  ul_Model :: string
  ul_Effort :: string
  ul_Executable :: string
  ul_ApprovalProductMode :: string
  ul_ApprovalDriverMode :: string
  ul_DirectoryTrust :: string
  ul_Recovery :: string

definition ApprovalAuto :: string where "ApprovalAuto = ''auto''"
definition ApprovalAutoReview :: string where "ApprovalAutoReview = ''auto_review''"
definition TrustConfiguredDirectory :: string where "TrustConfiguredDirectory = ''configured_directory''"
definition RecoveryAdoptOrRestartFresh :: string where "RecoveryAdoptOrRestartFresh = ''adopt_or_restart_fresh''"

definition WithLegacyDefaults :: "UnattendedLaunchSpec \<Rightarrow> UnattendedLaunchSpec" where
  "WithLegacyDefaults s =
     (if TrimSpace (ul_Agent s) = [] then s
      else let s = (if ul_DirectoryTrust s = [] then s\<lparr>ul_DirectoryTrust := TrustConfiguredDirectory\<rparr> else s) in
        if ul_Recovery s = [] then s\<lparr>ul_Recovery := RecoveryAdoptOrRestartFresh\<rparr> else s)"

definition validateLaunch :: "UnattendedLaunchSpec \<Rightarrow> automation_error option" where
  "validateLaunch s =
     (if TrimSpace (ul_Agent s) = [] then Some NoAgent
      else if ul_ApprovalProductMode s \<noteq> ApprovalAuto then Some BadProductMode
      else if ul_ApprovalDriverMode s \<noteq> ApprovalAuto \<and> ul_ApprovalDriverMode s \<noteq> ApprovalAutoReview then Some BadDriverMode
      else if ul_DirectoryTrust s \<noteq> TrustConfiguredDirectory then Some BadTrust
      else if ul_Recovery s \<noteq> RecoveryAdoptOrRestartFresh then Some BadRecovery
      else None)"

datatype ApprovalRoute = ApprovalRouteUser | ApprovalRouteReviewer | ApprovalRouteBypass

definition zero_launch :: UnattendedLaunchSpec where
  "zero_launch = \<lparr>ul_Agent = [], ul_Model = [], ul_Effort = [], ul_Executable = [], ul_ApprovalProductMode = [],
     ul_ApprovalDriverMode = [], ul_DirectoryTrust = [], ul_Recovery = []\<rparr>"

definition ResolveApprovalRoute :: "bool \<Rightarrow> bool \<Rightarrow> UnattendedLaunchSpec \<Rightarrow> ApprovalRoute" where
  "ResolveApprovalRoute yoloMode autoApprove unattended =
     (if unattended \<noteq> zero_launch then ApprovalRouteReviewer
      else if yoloMode then ApprovalRouteBypass
      else if autoApprove then ApprovalRouteReviewer
      else ApprovalRouteUser)"

definition ReviewerInLoop :: "ApprovalRoute \<Rightarrow> bool" where
  "ReviewerInLoop r = (r = ApprovalRouteReviewer)"

record automation_Snapshot =
  as_APIVersion :: string
  as_DefinitionRevision :: int
  as_Prompt :: string
  as_Launch :: UnattendedLaunchSpec
  as_Location :: LocationSpec
  as_Continuity :: string
  as_CatchUp :: string

definition Effective :: "DefinitionSpec \<Rightarrow> int \<Rightarrow> automation_error + automation_Snapshot" where
  "Effective spec revision =
     (let mode = (if ToLower (la_Driver (de_Launch spec)) = ''codex'' then ApprovalAutoReview else ApprovalAuto);
          launch = \<lparr>ul_Agent = la_Driver (de_Launch spec), ul_Model = la_Model (de_Launch spec), ul_Effort = la_Effort (de_Launch spec),
            ul_Executable = la_Executable (de_Launch spec), ul_ApprovalProductMode = ApprovalAuto, ul_ApprovalDriverMode = mode,
            ul_DirectoryTrust = TrustConfiguredDirectory, ul_Recovery = RecoveryAdoptOrRestartFresh\<rparr>
      in case validateLaunch launch of
           Some e \<Rightarrow> Inl e
         | None \<Rightarrow>
             (case ResolvedTriggerPolicy spec of (continuity, catchUp) \<Rightarrow>
                Inr \<lparr>as_APIVersion = APIVersion, as_DefinitionRevision = revision, as_Prompt = de_Prompt spec, as_Launch = launch,
                  as_Location = de_Location spec, as_Continuity = continuity, as_CatchUp = catchUp\<rparr>))"

subsection \<open>What a guard prints\<close>

definition guardOutputLimit :: nat where "guardOutputLimit = 64 * 1024"
definition guardStderrTail :: nat where "guardStderrTail = 2 * 1024"

text \<open>The buffer and whether the guard was cancelled.\<close>

definition guardOutput_Write :: "string \<Rightarrow> string \<times> bool \<Rightarrow> string \<times> bool" where
  "guardOutput_Write p w =
     (let available = guardOutputLimit - length (fst w) in
      if length p > available then (fst w @ take available p, True) else (fst w @ p, snd w))"

definition guardTail_Write :: "string \<Rightarrow> string \<Rightarrow> string" where
  "guardTail_Write p w =
     (if length p \<ge> guardStderrTail then drop (length p - guardStderrTail) p
      else if length w + length p > guardStderrTail then drop (length w + length p - guardStderrTail) w @ p
      else w @ p)"

end
