(* ===== verification/Automation_Laws.thy ===== *)
theory Automation_Laws
  imports Automation "HOL-Library.Sublist" "HOL-Library.Multiset"
begin

text \<open>
  What the validation of an automation promises: its result is a fixed point of the validation, whatever the
  order in which the overrides are visited, and it can be launched. What a guard prints: the buffers hold the
  beginning and the end of all that was written.
\<close>

subsection \<open>Lower case\<close>

text \<open>A string \<open>ToLower\<close> has nothing to do on.\<close>

definition lowered :: "string \<Rightarrow> bool" where
  "lowered s = (list_all (\<lambda>c. lower_byte c = c) s \<and> \<not> sublist kelvin_sign s \<and> \<not> sublist dotted_capital_i s)"

lemma lower_byte_idem [simp]: "lower_byte (lower_byte c) = lower_byte c"
  by (auto simp: lower_byte_def Let_def)

lemma lower_byte_high: "128 \<le> (of_char (lower_byte c) :: nat) \<Longrightarrow> lower_byte c = c"
  by (auto simp: lower_byte_def Let_def split: if_splits)

lemma HasPrefix_prefix: "HasPrefix s p = prefix p s"
  by (simp add: HasPrefix_iff prefix_def)

lemma lowered_fixed: "lowered s \<Longrightarrow> ToLower s = s"
proof (induction s)
  case (Cons c s)
  then have "\<not> prefix kelvin_sign (c # s)" "\<not> prefix dotted_capital_i (c # s)" "lowered s" "lower_byte c = c"
    by (auto simp: lowered_def sublist_Cons_right)
  then show ?case using Cons.IH by (simp add: HasPrefix_prefix)
qed simp

lemma ToLower_of_ascii: "list_all (\<lambda>c. (of_char c :: nat) < 128) s \<Longrightarrow> ToLower s = map lower_byte s"
proof (induction s)
  case (Cons c s)
  have "\<not> HasPrefix (c # s) kelvin_sign" "\<not> HasPrefix (c # s) dotted_capital_i"
    using Cons.prems by (auto simp: HasPrefix_prefix kelvin_sign_def dotted_capital_i_def)
  then show ?case using Cons by simp
qed simp

text \<open>A sequence of bytes outside ASCII at the front of the result was at the front of the argument.\<close>

lemma prefix_ToLower:
  assumes "list_all (\<lambda>c. 128 \<le> (of_char c :: nat)) p" "prefix p (ToLower s)"
  shows "prefix p s"
  using assms
proof (induction p arbitrary: s)
  case (Cons a p)
  then obtain c cs where s: "s = c # cs" by (cases s) auto
  have "\<not> HasPrefix (c # cs) kelvin_sign" "\<not> HasPrefix (c # cs) dotted_capital_i"
    using Cons.prems unfolding s by (auto split: if_splits)
  then have "a = lower_byte c" "prefix p (ToLower cs)" using Cons.prems(2) unfolding s by auto
  moreover from this have "lower_byte c = c" using Cons.prems(1) by (intro lower_byte_high) simp
  ultimately show ?case using Cons s by auto
qed simp

lemma lowered_ToLower: "lowered (ToLower s)"
proof (induction s rule: ToLower.induct)
  case (2 c cs)
  have high: "list_all (\<lambda>c. 128 \<le> (of_char c :: nat)) kelvin_sign" "list_all (\<lambda>c. 128 \<le> (of_char c :: nat)) dotted_capital_i"
    by (simp_all add: kelvin_sign_def dotted_capital_i_def)
  have small: "lower_byte CHR ''k'' = CHR ''k''" "lower_byte CHR ''i'' = CHR ''i''" by (simp_all add: lower_byte_def)
  have front: "\<not> prefix p (x # xs)" if "x \<in> {CHR ''k'', CHR ''i''}" "list_all (\<lambda>c. 128 \<le> (of_char c :: nat)) p" "p \<noteq> []" for x xs p
    using that by (cases p) auto
  have ne: "kelvin_sign \<noteq> []" "dotted_capital_i \<noteq> []" by (simp_all add: kelvin_sign_def dotted_capital_i_def)
  have keep: "\<not> prefix p (ToLower (c # cs))"
    if "list_all (\<lambda>c. 128 \<le> (of_char c :: nat)) p" "p \<noteq> []" "p \<in> {kelvin_sign, dotted_capital_i}" for p
  proof
    assume now: "prefix p (ToLower (c # cs))"
    show False
    proof (cases "HasPrefix (c # cs) kelvin_sign \<or> HasPrefix (c # cs) dotted_capital_i")
      case True
      then obtain x xs where "ToLower (c # cs) = x # xs" "x \<in> {CHR ''k'', CHR ''i''}" by (cases "HasPrefix (c # cs) kelvin_sign") auto
      then show False using front [OF _ that(1,2)] now by metis
    next
      case False
      then show False using prefix_ToLower [OF that(1) now] that(3) by (auto simp: HasPrefix_prefix)
    qed
  qed
  then show ?case using 2 small keep [OF high(1) ne(1)] keep [OF high(2) ne(2)]
    by (auto simp: lowered_def sublist_Cons_right split: if_splits)
qed (simp add: lowered_def kelvin_sign_def dotted_capital_i_def)

lemma TrimSpace_sublist: "sublist (TrimSpace s) s"
proof -
  obtain u where u: "s = u @ trim_left_of space_runes s" using trim_left_of_suffix by blast
  obtain v where "rev (trim_left_of space_runes s) = v @ trim_left_of (map rev space_runes) (rev (trim_left_of space_runes s))"
    using trim_left_of_suffix by blast
  then have "trim_left_of space_runes s = TrimSpace s @ rev v" by (metis TrimSpace_def rev_append rev_rev_ident)
  then show ?thesis using u by (metis sublist_def)
qed

lemma lowered_sublist: "lowered s \<Longrightarrow> sublist t s \<Longrightarrow> lowered t"
  by (auto simp: lowered_def list_all_iff dest: set_mono_sublist intro: sublist_order.order.trans)

lemma driver_fixed [simp]: "TrimSpace (ToLower (TrimSpace (ToLower s))) = TrimSpace (ToLower s)"
  using lowered_fixed [OF lowered_sublist [OF lowered_ToLower TrimSpace_sublist]] by simp

subsection \<open>Canonical identities\<close>

lemma split_at_join: "join_with [sep] (split_at sep s) = s \<and> split_at sep s \<noteq> []"
proof (induction s)
  case (Cons ch s)
  then obtain p ps where "split_at sep s = p # ps" by (cases "split_at sep s") auto
  then show ?case using Cons by (cases ps) auto
qed simp

lemma alnum_graphic: "small_alnum ch \<Longrightarrow> graphic ch"
  by (auto simp: small_alnum_def byte_in_def graphic_def)

lemma component_graphic: "\<not> unsafeComponent s \<Longrightarrow> s \<noteq> [] \<and> graphic (last s)"
proof -
  assume s: "\<not> unsafeComponent s"
  then have ne: "s \<noteq> []" by (simp add: unsafeComponent_def repositoryComponentPattern_def)
  then have "small_alnum (last s) \<or> last s \<in> set ''_.-''"
    using s by (simp add: unsafeComponent_def repositoryComponentPattern_def list_all_iff)
  moreover have "list_all graphic ''_.-''" by (simp add: graphic_def)
  ultimately show ?thesis using ne alnum_graphic by (auto simp: list_all_iff)
qed

lemma identity_accepted:
  assumes "CanonicalRepositoryIdentity x = Inr y"
  shows "y = ToLower (TrimSpace x)" "\<exists>host owner repo. split_at CHR ''/'' y = [host, owner, repo] \<and> repositoryHostPattern host \<and>
    \<not> unsafeComponent owner \<and> \<not> unsafeComponent repo"
  using assms by (auto simp: CanonicalRepositoryIdentity_def Let_def split: list.splits if_splits)

lemma identity_canonical: "CanonicalRepositoryIdentity x = Inr y \<Longrightarrow> CanonicalRepositoryIdentity y = Inr y"
proof -
  assume a: "CanonicalRepositoryIdentity x = Inr y"
  obtain host owner repo where p: "split_at CHR ''/'' y = [host, owner, repo]" "repositoryHostPattern host"
    "\<not> unsafeComponent owner" "\<not> unsafeComponent repo" using identity_accepted(2) [OF a] by blast
  have "y = host @ ''/'' @ owner @ ''/'' @ repo" using split_at_join [of "CHR ''/''" y] p(1) by simp
  moreover have "host \<noteq> [] \<and> graphic (hd host)" using p(2) by (simp add: repositoryHostPattern_def alnum_graphic)
  ultimately have "graphic (hd y) \<and> graphic (last y)" using component_graphic [OF p(4)] by auto
  then have "TrimSpace y = y" by (intro TrimSpace_graphic) simp
  moreover have "ToLower y = y" using identity_accepted(1) [OF a] lowered_fixed [OF lowered_ToLower] by simp
  ultimately show ?thesis using p by (simp add: CanonicalRepositoryIdentity_def)
qed

abbreviation canonical_identity :: "string \<Rightarrow> bool" where
  "canonical_identity identity \<equiv> CanonicalRepositoryIdentity identity = Inr identity"

lemma canonicalize_canonical:
  "canonicalize seen vals = Inr out \<Longrightarrow> distinct out \<and> set out \<inter> set seen = {} \<and> list_all canonical_identity out"
proof (induction vals arbitrary: seen out)
  case (Cons v vals)
  then obtain x xs where x: "CanonicalRepositoryIdentity v = Inr x" "x \<notin> set seen" "canonicalize (x # seen) vals = Inr xs" "out = x # xs"
    by (auto simp: bind_result_eq_Inr split: if_splits)
  then show ?case using Cons.IH [OF x(3)] identity_canonical [OF x(1)] by auto
qed simp

lemma canonicalize_fixed:
  "distinct out \<Longrightarrow> set out \<inter> set seen = {} \<Longrightarrow> list_all canonical_identity out \<Longrightarrow> canonicalize seen out = Inr out"
  by (induction out arbitrary: seen) auto

lemma filter_fixed: "validateRepositoryFilter f = Inr g \<Longrightarrow> validateRepositoryFilter g = Inr g"
  by (auto simp: validateRepositoryFilter_def Let_def bind_result_eq_Inr canonicalize_fixed dest!: canonicalize_canonical
      split: if_splits option.splits)

subsection \<open>Validation\<close>

text \<open>
  Resolving the symbolic links of an absolute path gives an absolute path to the same thing, in which there is
  nothing left to resolve.
\<close>

definition links_resolved :: "outside \<Rightarrow> bool" where
  "links_resolved out \<longleftrightarrow> (\<forall>p q. HasPrefix p ''/'' \<and> o_resolve out p = Some q \<longrightarrow>
     HasPrefix q ''/'' \<and> o_stat out q = o_stat out p \<and> o_resolve out q = Some q)"

lemma directory_fixed: "links_resolved out \<Longrightarrow> canonicalizeDirectory out p = Inr q \<Longrightarrow> canonicalizeDirectory out q = Inr q"
proof -
  assume l: "links_resolved out" and c: "canonicalizeDirectory out p = Inr q"
  from c have p: "HasPrefix p ''/''" "o_stat out p = Some True" "o_resolve out p = Some q"
    unfolding canonicalizeDirectory_def by (simp_all split: if_splits option.splits)
  then have "HasPrefix q ''/''" "o_stat out q = Some True" "o_resolve out q = Some q" using l p unfolding links_resolved_def by metis+
  then show ?thesis by (simp add: canonicalizeDirectory_def)
qed

definition override_ok :: "outside \<Rightarrow> string \<times> RepositorySource \<Rightarrow> bool" where
  "override_ok out e \<longleftrightarrow> canonical_identity (fst e) \<and> so_Type (snd e) = ''local_clone'' \<and> canonicalizeDirectory out (so_Path (snd e)) = Inr (so_Path (snd e))"

lemma overrides_canonical:
  "validate_overrides out seen ovs = Inr vs \<Longrightarrow> links_resolved out \<Longrightarrow>
   distinct (map fst vs) \<and> fst ` set vs \<inter> set seen = {} \<and> list_all (override_ok out) vs"
proof (induction ovs arbitrary: seen vs)
  case (Cons e ovs)
  obtain identity source where e: "e = (identity, source)" by (cases e)
  obtain x q ws where x: "CanonicalRepositoryIdentity identity = Inr x" "so_Type source = ''local_clone''"
      "canonicalizeDirectory out (so_Path source) = Inr q" "x \<notin> set seen" "validate_overrides out (x # seen) ovs = Inr ws"
      "vs = (x, source\<lparr>so_Path := q\<rparr>) # ws"
    using Cons.prems(1) unfolding e by (simp add: bind_result_eq_Inr split: sum.splits if_splits) blast
  show ?case using Cons.IH [OF x(5) Cons.prems(2)] identity_canonical [OF x(1)] directory_fixed [OF Cons.prems(2) x(3)] x(2,4,6)
    by (auto simp: override_ok_def)
qed simp

lemma overrides_fixed:
  "distinct (map fst vs) \<Longrightarrow> fst ` set vs \<inter> set seen = {} \<Longrightarrow> list_all (override_ok out) vs \<Longrightarrow> validate_overrides out seen vs = Inr vs"
  by (induction vs arbitrary: seen) (auto simp: override_ok_def)

abbreviation overrides_of :: "DefinitionSpec \<Rightarrow> (string \<times> RepositorySource) list" where
  "overrides_of s \<equiv> rs_Overrides (lo_RepositorySources (de_Location s))"

definition visited_as :: "(string \<times> RepositorySource) list \<Rightarrow> LocationSpec \<Rightarrow> LocationSpec" where
  "visited_as ovs l = l\<lparr>lo_RepositorySources := (lo_RepositorySources l)\<lparr>rs_Overrides := ovs\<rparr>\<rparr>"

lemma location_fixed:
  assumes "validate_location out l = Inr m" "links_resolved out" "mset ovs = mset (rs_Overrides (lo_RepositorySources m))"
  shows "validate_location out (visited_as ovs m) = Inr (visited_as ovs m)"
proof (cases "lo_Type l = ''directory''")
  case True
  then obtain q where q: "canonicalizeDirectory out (lo_Path l) = Inr q" "m = l\<lparr>lo_Path := q\<rparr>"
      "so_Type (rs_Default (lo_RepositorySources l)) = []" "rs_Overrides (lo_RepositorySources l) = []"
    using assms(1) by (auto simp: validate_location_def Let_def bind_result_eq_Inr split: if_splits)
  then have "ovs = []" using assms(3) by simp
  then show ?thesis using q True directory_fixed [OF assms(2) q(1)] by (simp add: validate_location_def visited_as_def)
next
  case False
  then obtain vs where v: "validate_overrides out [] (rs_Overrides (lo_RepositorySources l)) = Inr vs" "m = visited_as vs l"
    using assms(1) by (auto simp: validate_location_def Let_def bind_result_eq_Inr visited_as_def split: if_splits)
  have vs: "mset ovs = mset vs" using assms(3) by (simp add: v(2) visited_as_def)
  have "distinct (map fst ovs)" using overrides_canonical [OF v(1) assms(2)] vs by (metis mset_eq_imp_distinct_iff mset_map)
  moreover have "list_all (override_ok out) ovs" using overrides_canonical [OF v(1) assms(2)] mset_eq_setD [OF vs] by (simp add: list_all_iff)
  ultimately have "validate_overrides out [] ovs = Inr ovs" by (simp add: overrides_fixed)
  then show ?thesis using assms(1) False v by (auto simp: validate_location_def Let_def visited_as_def split: if_splits)
qed

lemma trigger_fixed:
  assumes t: "validate_trigger out t = Inr u" and p: "validate_policy u l = Inr v" and l: "lo_Type l' = lo_Type l"
  shows "validate_trigger out v = Inr v \<and> validate_policy v l' = Inr v"
proof -
  consider (manual) "tr_Type t = ''manual''" | (review) "tr_Type t = ''github_review_requested''" | (scheduled) "tr_Type t = ''scheduled''"
    using t by (auto simp: validate_trigger_def split: if_splits)
  then show ?thesis
  proof cases
    case manual
    then have "u = t" using t by (simp add: validate_trigger_def split: if_splits)
    moreover from this have "v = t" using p manual by (simp add: validate_policy_def split: if_splits)
    ultimately show ?thesis using t p l manual by (simp add: validate_policy_def)
  next
    case review
    then obtain f where f: "validateRepositoryFilter (tr_Repositories t) = Inr f" "u = t\<lparr>tr_Repositories := f\<rparr>" "tr_Guard t = []" "tr_Schedule t = None"
      using t by (auto simp: validate_trigger_def bind_result_eq_Inr split: if_splits)
    then have "v = u" using p review by (simp add: validate_policy_def split: if_splits)
    then show ?thesis using f filter_fixed [OF f(1)] p l review by (simp add: validate_trigger_def validate_policy_def)
  next
    case scheduled
    then have u: "u = t" using t by (auto simp: validate_trigger_def bind_result_eq_Inr split: if_splits option.splits)
    then have v: "v = (if tr_Continuity t = [] then t\<lparr>tr_Continuity := ''fresh''\<rparr> else t)"
      using p scheduled by (simp add: validate_policy_def Let_def split: if_splits)
    have "validate_trigger out v = Inr v"
      using t scheduled unfolding u v by (simp add: validate_trigger_def has_repositories_def bind_result_eq_Inr split: if_splits option.splits)
    moreover have "validate_policy v l' = Inr v" using p l scheduled unfolding u v by (auto simp: validate_policy_def Let_def split: if_splits)
    ultimately show ?thesis by simp
  qed
qed

lemma policy_shape:
  assumes "validate_trigger out u = Inr u" "validate_policy u l = Inr u"
  shows "tr_Type u = ''manual'' \<or> tr_Type u = ''github_review_requested'' \<or>
    tr_Type u = ''scheduled'' \<and> tr_Continuity u \<in> {''fresh'', ''singleton''} \<and> tr_CatchUp u \<noteq> []"
proof -
  have "tr_Type u = ''manual'' \<or> tr_Type u = ''github_review_requested'' \<or> tr_Type u = ''scheduled''"
    using assms(1) by (simp add: validate_trigger_def split: if_splits)
  moreover have "tr_Continuity u \<in> {''fresh'', ''singleton''} \<and> tr_CatchUp u \<in> {''skip'', ''latest''}" if "tr_Type u = ''scheduled''"
  proof (cases "tr_Continuity u = []")
    case True
    then have "u\<lparr>tr_Continuity := ''fresh''\<rparr> = u" using assms(2) that by (simp add: validate_policy_def split: if_splits)
    then have "tr_Continuity u = ''fresh''" by (metis TriggerSpec.select_convs(5) TriggerSpec.surjective TriggerSpec.update_convs(5))
    then show ?thesis using True by simp
  next
    case False
    then show ?thesis using assms(2) that by (simp add: validate_policy_def split: if_splits)
  qed
  ultimately show ?thesis by force
qed

lemma Effective_launches:
  assumes "TrimSpace (la_Driver (de_Launch v)) \<noteq> []"
  shows "\<exists>snap. Effective v revision = Inr snap \<and> ul_Agent (as_Launch snap) = la_Driver (de_Launch v) \<and> as_Location snap = de_Location v \<and>
    ul_ApprovalDriverMode (as_Launch snap) = (if ToLower (la_Driver (de_Launch v)) = ''codex'' then ApprovalAutoReview else ApprovalAuto) \<and>
    (as_Continuity snap, as_CatchUp snap) = ResolvedTriggerPolicy v"
  using assms by (simp add: Effective_def Let_def validateLaunch_def split: prod.split)


text \<open>A file system without symbolic links, in which every path is a directory, and a schedule for every expression.\<close>

definition demo_outside :: outside where
  "demo_outside = \<lparr>o_stat = \<lambda>_. Some True, o_resolve = Some, o_cron = \<lambda>_. Some (\<lambda>loc t. t + minute - t mod minute), o_zone = \<lambda>_. Some 0\<rparr>"

definition demo_definition :: DefinitionSpec where
  "demo_definition = \<lparr>de_APIVersion = APIVersion, de_ID = 0, de_Name = ''reviews'',
     de_Trigger = \<lparr>tr_Type = ''github_review_requested'', tr_Repositories = \<lparr>rf_Mode = [], rf_Include = [''GitHub.com/a/B''], rf_Exclude = []\<rparr>,
       tr_Schedule = None, tr_Guard = [], tr_Continuity = [], tr_CatchUp = []\<rparr>,
     de_Prompt = ''review'', de_Launch = \<lparr>la_Driver = ''Codex'', la_Model = [], la_Effort = [], la_Executable = []\<rparr>,
     de_Location = \<lparr>lo_Type = ''repository_worktree'', lo_Path = [],
       lo_RepositorySources = \<lparr>rs_Default = \<lparr>so_Type = ''managed_cache'', so_Path = []\<rparr>,
         rs_Overrides = [(''GitHub.com/a/B'', \<lparr>so_Type = ''local_clone'', so_Path = ''/b''\<rparr>)]\<rparr>\<rparr>\<rparr>"

definition demo_canonical :: DefinitionSpec where
  "demo_canonical = demo_definition
     \<lparr>de_Trigger := (de_Trigger demo_definition)\<lparr>tr_Repositories := \<lparr>rf_Mode = ''all_accessible'', rf_Include = [''github.com/a/b''], rf_Exclude = []\<rparr>\<rparr>,
      de_Launch := (de_Launch demo_definition)\<lparr>la_Driver := ''codex''\<rparr>,
      de_Location := visited_as [(''github.com/a/b'', \<lparr>so_Type = ''local_clone'', so_Path = ''/b''\<rparr>)] (de_Location demo_definition)\<rparr>"

lemma demo_validates: "ValidateDefinition demo_outside demo_definition = Inr demo_canonical"
proof -
  have low: "ToLower ''GitHub.com/a/B'' = ''github.com/a/b''" "ToLower ''Codex'' = ''codex''"
    by (simp_all add: ToLower_of_ascii lower_byte_def char_of_eq_iff take_bit_eq_mod del: ToLower.simps)
  have id: "CanonicalRepositoryIdentity ''GitHub.com/a/B'' = Inr ''github.com/a/b''"
  proof -
    have "TrimSpace ''GitHub.com/a/B'' = ''GitHub.com/a/B''" by (rule TrimSpace_graphic) (simp add: graphic_def)
    moreover have "split_at CHR ''/'' ''github.com/a/b'' = [''github.com'', ''a'', ''b'']" by simp
    moreover have "repositoryHostPattern ''github.com''" by (simp add: repositoryHostPattern_def small_alnum_def byte_in_def)
    moreover have "\<not> unsafeComponent ''a''" "\<not> unsafeComponent ''b''"
      by (simp_all add: unsafeComponent_def repositoryComponentPattern_def small_alnum_def byte_in_def)
    ultimately show ?thesis by (simp add: CanonicalRepositoryIdentity_def low del: ToLower.simps split_at.simps)
  qed
  show ?thesis
    by (simp add: ValidateDefinition_def demo_definition_def demo_canonical_def demo_outside_def validate_trigger_def validate_location_def
        validate_policy_def visited_as_def validateRepositoryFilter_def id low canonicalizeDirectory_def HasPrefix_def TrimSpace_graphic graphic_def
        del: ToLower.simps)
qed


subsection \<open>What a guard prints\<close>

lemma output_written:
  "guardOutput_Write p (take guardOutputLimit xs, guardOutputLimit < length xs) = (take guardOutputLimit (xs @ p), guardOutputLimit < length (xs @ p))"
  by (auto simp: guardOutput_Write_def Let_def min_def)

lemma tail_written:
  "guardTail_Write p (drop (length xs - guardStderrTail) xs) = drop (length (xs @ p) - guardStderrTail) (xs @ p)"
  by (cases "length xs \<le> guardStderrTail") (auto simp: guardTail_Write_def drop_append add.commute)

text \<open>
  However a guard cuts what it prints into writes, the output buffer holds exactly its first 65536 bytes and
  the run is cancelled exactly when there were more, and of what it prints as errors exactly the last 2048
  bytes are kept.
\<close>

theorem guard_buffers:
  "fold guardOutput_Write ps ([], False) = (take 65536 (concat ps), 65536 < length (concat ps)) \<and>
   fold guardTail_Write ps [] = drop (length (concat ps) - 2048) (concat ps)"
proof -
  have "fold guardOutput_Write ps (take guardOutputLimit xs, guardOutputLimit < length xs) =
      (take guardOutputLimit (xs @ concat ps), guardOutputLimit < length (xs @ concat ps))" for xs
    by (induction ps arbitrary: xs) (simp_all only: fold_simps comp_apply output_written concat.simps append_assoc append_Nil2)
  from this [of "[]"] have "fold guardOutput_Write ps ([], False) = (take guardOutputLimit (concat ps), guardOutputLimit < length (concat ps))" by simp
  moreover have "fold guardTail_Write ps (drop (length xs - guardStderrTail) xs) =
      drop (length (xs @ concat ps) - guardStderrTail) (xs @ concat ps)" for xs
    by (induction ps arbitrary: xs) (simp_all only: fold_simps comp_apply tail_written concat.simps append_assoc append_Nil2)
  from this [of "[]"] have "fold guardTail_Write ps [] = drop (length (concat ps) - guardStderrTail) (concat ps)" by simp
  ultimately show ?thesis by (simp add: guardOutputLimit_def guardStderrTail_def)
qed

end
