(* ===== verification/Automation_Schedule.thy ===== *)
theory Automation_Schedule
  imports Automation Bus_Log
begin

text \<open>
  The observation of schedules, \<open>internal/daemon/automations_schedule.go\<close>, with the rows it keeps in the store:
  the cursor of each scheduled definition and the last check of its guard (\<open>GetAutomationScheduleCursor\<close> and
  \<open>SetAutomationScheduleCursor\<close> of \<open>internal/store/automations.go\<close>, \<open>internal/store/automation_guards.go\<close>).
  A statement of the database may fail, as a list of booleans decides beforehand, one per statement. Of the
  runs only the state is kept, by their id. Whether the claim of a run is refused,
  finds the run of an earlier claim or makes a new one is given from outside; what a new one writes into these
  rows is modelled. The loop treats its definitions one after the other and each has a cursor of its own, so
  the model follows one definition.
\<close>

subsection \<open>Rows\<close>

record AutomationGuardCheck =
  gc_Guard :: string
  gc_CheckedAt :: time
  gc_Outcome :: string
  gc_Detail :: string
  gc_ChecksSinceRun :: int
  gc_HandledOutput :: string
  gc_HandledRunID :: string

record schedule_db =
  sd_cursors :: "int \<rightharpoonup> time"
  sd_checks :: "int \<rightharpoonup> AutomationGuardCheck"
  sd_runs :: "string \<rightharpoonup> string"
  sd_faults :: "bool list"

definition statement :: "schedule_db \<Rightarrow> (schedule_db \<Rightarrow> schedule_db \<times> 'a) \<Rightarrow> schedule_db \<times> (unit + 'a)" where
  "statement d f =
     (let d' = d\<lparr>sd_faults := tl (sd_faults d)\<rparr> in
      if sd_faults d \<noteq> [] \<and> hd (sd_faults d) then (d', Inl ()) else map_prod id Inr (f d'))"

definition GetAutomationScheduleCursor :: "schedule_db \<Rightarrow> int \<Rightarrow> schedule_db \<times> (unit + time option)" where
  "GetAutomationScheduleCursor d definitionID = statement d (\<lambda>d. (d, sd_cursors d definitionID))"

definition SetAutomationScheduleCursor :: "schedule_db \<Rightarrow> int \<Rightarrow> time \<Rightarrow> schedule_db \<times> (unit + unit)" where
  "SetAutomationScheduleCursor d definitionID at = statement d (\<lambda>d. (d\<lparr>sd_cursors := (sd_cursors d)(definitionID \<mapsto> at)\<rparr>, ()))"

text \<open>The check with the state of the run it names, \<open>''''\<close> when there is none.\<close>

definition GetAutomationGuardCheck :: "schedule_db \<Rightarrow> int \<Rightarrow> schedule_db \<times> (unit + (AutomationGuardCheck \<times> string) option)" where
  "GetAutomationGuardCheck d definitionID = statement d (\<lambda>d.
     (d, map_option (\<lambda>c. (c, case sd_runs d (gc_HandledRunID c) of None \<Rightarrow> [] | Some state \<Rightarrow> state)) (sd_checks d definitionID)))"

definition skipped_check :: "AutomationGuardCheck option \<Rightarrow> string \<Rightarrow> string \<Rightarrow> string \<Rightarrow> time \<Rightarrow> AutomationGuardCheck" where
  "skipped_check old guard outcome detail at =
     (case old of
        None \<Rightarrow> \<lparr>gc_Guard = guard, gc_CheckedAt = formatStoredTime at, gc_Outcome = outcome, gc_Detail = detail, gc_ChecksSinceRun = 1,
          gc_HandledOutput = [], gc_HandledRunID = []\<rparr>
      | Some c \<Rightarrow>
          let fresh = (outcome = ''empty'' \<or> gc_Guard c \<noteq> guard) in
          \<lparr>gc_Guard = guard, gc_CheckedAt = formatStoredTime at, gc_Outcome = outcome, gc_Detail = detail, gc_ChecksSinceRun = gc_ChecksSinceRun c + 1,
            gc_HandledOutput = (if fresh then [] else gc_HandledOutput c), gc_HandledRunID = (if fresh then [] else gc_HandledRunID c)\<rparr>)"

definition RecordAutomationGuardSkip :: "schedule_db \<Rightarrow> int \<Rightarrow> string \<Rightarrow> string \<Rightarrow> string \<Rightarrow> time \<Rightarrow> schedule_db \<times> (unit + unit)" where
  "RecordAutomationGuardSkip d definitionID guard outcome detail at = statement d (\<lambda>d.
     (d\<lparr>sd_checks := (sd_checks d)(definitionID \<mapsto> skipped_check (sd_checks d definitionID) guard outcome detail at)\<rparr>, ()))"

text \<open>The row a launch leaves behind; both the insert and the update set every column the same way.\<close>

definition recordAutomationGuardLaunchTx :: "schedule_db \<Rightarrow> int \<Rightarrow> (string \<times> string) option \<Rightarrow> string \<Rightarrow> time \<Rightarrow> schedule_db \<times> (unit + unit)" where
  "recordAutomationGuardLaunchTx d definitionID check runID at =
     (case check of
        None \<Rightarrow> (d, Inr ())
      | Some (guard, output) \<Rightarrow> statement d (\<lambda>d.
          (d\<lparr>sd_checks := (sd_checks d)(definitionID \<mapsto>
             \<lparr>gc_Guard = guard, gc_CheckedAt = formatStoredTime at, gc_Outcome = ''launched'', gc_Detail = [], gc_ChecksSinceRun = 0,
               gc_HandledOutput = output, gc_HandledRunID = runID\<rparr>)\<rparr>, ())))"

subsection \<open>The guard's decision\<close>

record GuardResult =
  gr_Output :: string
  gr_Failure :: string

definition AutomationRunStatePending :: string where "AutomationRunStatePending = ''pending''"
definition AutomationRunStateDelivered :: string where "AutomationRunStateDelivered = ''delivered''"

definition recordAutomationGuardDecision :: "schedule_db \<Rightarrow> int \<Rightarrow> string \<Rightarrow> GuardResult \<Rightarrow> time \<Rightarrow> schedule_db \<times> (unit + bool)" where
  "recordAutomationGuardDecision d definitionID guard result now =
     (case GetAutomationGuardCheck d definitionID of
        (d, Inl e) \<Rightarrow> (d, Inl e)
      | (d, Inr previous) \<Rightarrow>
          let handled = (case previous of
                None \<Rightarrow> []
              | Some (c, state) \<Rightarrow>
                  if gc_Guard c = guard \<and> (state = AutomationRunStatePending \<or> state = AutomationRunStateDelivered) then gc_HandledOutput c else []);
              skip = (\<lambda>outcome. (case RecordAutomationGuardSkip d definitionID guard outcome (gr_Failure result) now of
                (d, Inl e) \<Rightarrow> (d, Inl e)
              | (d, Inr _) \<Rightarrow> (d, Inr False)))
          in if gr_Failure result \<noteq> [] then skip ''failed''
             else if gr_Output result = [] then skip ''empty''
             else if gr_Output result = handled then skip ''unchanged''
             else (d, Inr True))"

subsection \<open>What is due\<close>

definition scheduleDueInstantCap :: int where "scheduleDueInstantCap = 1000000"
definition scheduleSkipGrace :: duration where "scheduleSkipGrace = 5 * minute"

definition advanceAutomationSchedule :: "schedule_db \<Rightarrow> int \<Rightarrow> time \<Rightarrow> schedule_db" where
  "advanceAutomationSchedule d definitionID now = fst (SetAutomationScheduleCursor d definitionID now)"

definition dueAutomationSchedule :: "outside \<Rightarrow> schedule_db \<Rightarrow> int \<Rightarrow> DefinitionSpec \<Rightarrow> time \<Rightarrow> schedule_db \<times> time option" where
  "dueAutomationSchedule out d definitionID spec now =
     (case tr_Schedule (de_Trigger spec) of
        None \<Rightarrow> (d, None)
      | Some schedule \<Rightarrow>
          (case CompileSchedule out schedule of
             Inl _ \<Rightarrow> (d, None)
           | Inr compiled \<Rightarrow>
               (case GetAutomationScheduleCursor d definitionID of
                  (d, Inl _) \<Rightarrow> (d, None)
                | (d, Inr None) \<Rightarrow> (fst (SetAutomationScheduleCursor d definitionID now), None)
                | (d, Inr (Some cursor)) \<Rightarrow>
                    (case DueInstants compiled cursor now scheduleDueInstantCap of (instants, ok) \<Rightarrow>
                       if \<not> ok then (fst (SetAutomationScheduleCursor d definitionID now), None)
                       else if instants = [] then (d, None)
                       else let intended = last instants;
                                fire = (if tr_CatchUp (de_Trigger spec) = ''skip'' then time_sub now intended \<le> scheduleSkipGrace else True)
                         in if \<not> fire then (advanceAutomationSchedule d definitionID now, None) else (d, Some intended)))))"

subsection \<open>A round\<close>

text \<open>How \<open>claimAndDeliverScheduledRun\<close> ends: with an error, with the run an earlier claim made, or with a new run.\<close>

datatype claim = ClaimRefused | ClaimedBefore | ClaimedNew string

text \<open>The part of the claim that writes into the rows: the run and the launch of its guard, in one transaction.\<close>

definition claim_rows :: "schedule_db \<Rightarrow> int \<Rightarrow> (string \<times> string) option \<Rightarrow> claim \<Rightarrow> time \<Rightarrow> schedule_db \<times> (unit + unit)" where
  "claim_rows d definitionID check c now =
     (case c of
        ClaimRefused \<Rightarrow> (d, Inl ())
      | ClaimedBefore \<Rightarrow> (d, Inr ())
      | ClaimedNew runID \<Rightarrow>
          (case recordAutomationGuardLaunchTx (d\<lparr>sd_runs := (sd_runs d)(runID \<mapsto> AutomationRunStatePending)\<rparr>) definitionID check runID now of
             (d', Inl e) \<Rightarrow> (d\<lparr>sd_faults := sd_faults d'\<rparr>, Inl e)
           | (d', Inr _) \<Rightarrow> (d', Inr ())))"

text \<open>
  One round of the observation for a definition that is enabled and scheduled, with the result of its guard
  when that could be run. The value is the occurrence whose run was claimed.
\<close>

definition observe_schedule ::
  "outside \<Rightarrow> int \<Rightarrow> DefinitionSpec \<Rightarrow> time \<Rightarrow> GuardResult option \<Rightarrow> claim \<Rightarrow> schedule_db \<Rightarrow> schedule_db \<times> time option" where
  "observe_schedule out definitionID spec now result c d =
     (let guard = tr_Guard (de_Trigger spec);
          deliver = (\<lambda>d intended check.
            (case claim_rows d definitionID check c now of
               (d, Inl _) \<Rightarrow> (d, None)
             | (d, Inr _) \<Rightarrow> (advanceAutomationSchedule d definitionID now, Some intended)))
      in case dueAutomationSchedule out d definitionID spec now of
           (d, None) \<Rightarrow> (d, None)
         | (d, Some intended) \<Rightarrow>
             if guard = [] then deliver d intended None
             else (case result of
                 None \<Rightarrow> (d, None)
               | Some r \<Rightarrow>
                   (case recordAutomationGuardDecision d definitionID guard r now of
                      (d, Inl _) \<Rightarrow> (d, None)
                    | (d, Inr False) \<Rightarrow> (advanceAutomationSchedule d definitionID now, None)
                    | (d, Inr True) \<Rightarrow> deliver d intended (Some (guard, gr_Output r)))))"

end
