(* ===== verification/Automation_Theorems.thy ===== *)
theory Automation_Theorems
  imports Automation_Laws Automation_Schedule
begin

text \<open>
  What the observation of schedules promises: which occurrence a round proposes, that no occurrence is claimed
  twice, and that the decisions on a guard's output follow a memory of one output.
\<close>

lemma statement_works: "sd_faults d = [] \<Longrightarrow> statement d f = (fst (f d), Inr (snd (f d)))"
proof -
  assume f: "sd_faults d = []"
  have "d\<lparr>sd_faults := []\<rparr> = d" using f by (cases d) simp
  then show ?thesis using f by (simp only: statement_def Let_def list.sel refl simp_thms if_False map_prod_def id_def split_beta)
qed

lemmas rows_work = statement_works GetAutomationScheduleCursor_def SetAutomationScheduleCursor_def advanceAutomationSchedule_def
  GetAutomationGuardCheck_def RecordAutomationGuardSkip_def recordAutomationGuardLaunchTx_def

subsection \<open>Occurrences\<close>

text \<open>
  What the library that reads expressions documents: whatever the expression, the next instant is later than
  the given one, and the zero time when there is none. Nothing is said of how the instants from different
  starts relate: an interval expression counts from the instant it is given.
\<close>

definition cron_later :: "outside \<Rightarrow> bool" where
  "cron_later out \<longleftrightarrow> (\<forall>e sched loc. o_cron out e = Some sched \<longrightarrow> (\<forall>t\<ge>0. sched loc t = 0 \<or> t < sched loc t))"

lemma CompileSchedule_later:
  "CompileSchedule out s = Inr (sched, loc) \<Longrightarrow> cron_later out \<Longrightarrow> 0 \<le> t \<Longrightarrow> sched loc t = 0 \<or> t < sched loc t"
  unfolding cron_later_def by (fastforce simp: CompileSchedule_def Let_def split: if_splits option.splits)

text \<open>The occurrences since a cursor: what one gets by asking for the next instant again and again.\<close>

inductive_set occurrences :: "(time \<Rightarrow> time) \<Rightarrow> time \<Rightarrow> time set" for nextOf cursor where
  first: "nextOf cursor \<noteq> 0 \<Longrightarrow> nextOf cursor \<in> occurrences nextOf cursor"
| later: "t \<in> occurrences nextOf cursor \<Longrightarrow> nextOf t \<noteq> 0 \<Longrightarrow> nextOf t \<in> occurrences nextOf cursor"

definition due_set :: "(time \<Rightarrow> time) \<Rightarrow> time \<Rightarrow> time \<Rightarrow> time set" where
  "due_set nextOf cursor now = {t \<in> occurrences nextOf cursor. t \<le> now}"

lemma occurrences_step:
  "occurrences nextOf at = (if nextOf at = 0 then {} else insert (nextOf at) (occurrences nextOf (nextOf at)))"
proof (intro set_eqI iffI)
  fix t
  assume "t \<in> occurrences nextOf at"
  then show "t \<in> (if nextOf at = 0 then {} else insert (nextOf at) (occurrences nextOf (nextOf at)))"
    by induction (auto split: if_splits intro: occurrences.intros)
next
  fix t
  assume t: "t \<in> (if nextOf at = 0 then {} else insert (nextOf at) (occurrences nextOf (nextOf at)))"
  then have n: "nextOf at \<noteq> 0" by (auto split: if_splits)
  have "u \<in> occurrences nextOf at" if "u \<in> occurrences nextOf (nextOf at)" for u
    using that by induction (use n in \<open>auto intro: occurrences.intros\<close>)
  then show "t \<in> occurrences nextOf at" using t n occurrences.first [of nextOf at] by auto
qed

lemma occurrences_later:
  assumes "\<And>t. 0 \<le> t \<Longrightarrow> nextOf t = 0 \<or> t < nextOf t" "0 \<le> at" "t \<in> occurrences nextOf at"
  shows "at < t"
  using assms(3)
proof induction
  case (later t)
  then show ?case using assms(1) [of t] assms(2) by auto
qed (use assms(1) [OF assms(2)] in auto)

lemma due_set_step:
  assumes "\<And>t. 0 \<le> t \<Longrightarrow> nextOf t = 0 \<or> t < nextOf t" "0 \<le> at"
  shows "due_set nextOf at now = (if nextOf at = 0 \<or> nextOf at > now then {} else insert (nextOf at) (due_set nextOf (nextOf at) now))"
    and "nextOf at \<noteq> 0 \<Longrightarrow> at < nextOf at"
proof -
  show later: "nextOf at \<noteq> 0 \<Longrightarrow> at < nextOf at" using assms by blast
  have "nextOf at < t" if "nextOf at \<noteq> 0" "t \<in> occurrences nextOf (nextOf at)" for t
    using occurrences_later [OF assms(1) _ that(2)] later that(1) assms(2) by simp
  then show "due_set nextOf at now = (if nextOf at = 0 \<or> nextOf at > now then {} else insert (nextOf at) (due_set nextOf (nextOf at) now))"
    unfolding due_set_def occurrences_step [of nextOf at] by force
qed

lemma last_is_Max: "sorted_wrt (<) xs \<Longrightarrow> xs \<noteq> [] \<Longrightarrow> last xs = Max (set xs)" for xs :: "int list"
proof -
  assume "sorted_wrt (<) xs" "xs \<noteq> []"
  then obtain ys y where "xs = ys @ [y]" "\<forall>x \<in> set ys. x < y" by (cases xs rule: rev_cases) (auto simp: sorted_wrt_append)
  then show "last xs = Max (set xs)" by (intro Max_eqI [symmetric]) auto
qed

lemma due_from_exact:
  assumes later: "\<And>t. 0 \<le> t \<Longrightarrow> nextOf t = 0 \<or> t < nextOf t" and "0 \<le> at" "due_from nextOf at now n = (xs, ok)"
  shows "sorted_wrt (<) xs \<and> set xs \<subseteq> due_set nextOf at now \<and> (if ok then set xs = due_set nextOf at now \<and> length xs < n else length xs = n)"
  using assms(2,3)
proof (induction n arbitrary: at xs)
  case (Suc n)
  note step = due_set_step [OF later Suc.prems(1)]
  show ?case
  proof (cases "nextOf at = 0 \<or> nextOf at > now")
    case True
    then show ?thesis using Suc.prems(2) step by (auto simp: Let_def)
  next
    case False
    then obtain ys where ys: "due_from nextOf (nextOf at) now n = (ys, ok)" "xs = nextOf at # ys"
      using Suc.prems(2) by (auto simp: Let_def split: prod.splits)
    have "0 \<le> nextOf at" using step(2) False Suc.prems(1) by auto
    from Suc.IH [OF this ys(1)] show ?thesis
      using step False ys(2) occurrences_later [OF later \<open>0 \<le> nextOf at\<close>] by (auto simp: due_set_def)
  qed
qed simp

text \<open>
  C39. A round of the observation of a definition with a schedule that compiles, when its rows can be
  read and written, its cursor is not before the epoch, and the library's next instant is always later
  than the given one. The occurrences since the cursor are those one gets by asking for the next instant
  again and again. When none is due, the round proposes nothing and leaves the cursor; when a million or
  more are, it proposes nothing and moves the cursor to now; else it proposes the latest one, unless the
  schedule skips what is more than five minutes late, which moves the cursor instead. Without a cursor
  the schedule starts now.
\<close>

theorem dueAutomationSchedule_exact:
  assumes "tr_Schedule (de_Trigger spec) = Some schedule" "CompileSchedule out schedule = Inr (sched, loc)" "cron_later out"
    and "sd_faults d = []" "\<And>c. sd_cursors d i = Some c \<Longrightarrow> 0 \<le> c"
  shows "dueAutomationSchedule out d i spec now =
    (let moved = d\<lparr>sd_cursors := (sd_cursors d)(i \<mapsto> now)\<rparr> in
     case sd_cursors d i of
       None \<Rightarrow> (moved, None)
     | Some c \<Rightarrow>
         let S = {t \<in> occurrences (sched loc) c. t \<le> now} in
         if infinite S \<or> card S \<ge> 1000000 then (moved, None)
         else if S = {} then (d, None)
         else if tr_CatchUp (de_Trigger spec) = ''skip'' \<and> now - Max S > 5 * minute then (moved, None)
         else (d, Some (Max S)))"
proof (cases "sd_cursors d i")
  case None
  then show ?thesis using assms(1,2,4) by (simp add: dueAutomationSchedule_def rows_work Let_def)
next
  case (Some c)
  obtain xs ok where due: "due_from (sched loc) c now 1000000 = (xs, ok)" by fastforce
  define S where "S = due_set (sched loc) c now"
  note x = due_from_exact [OF CompileSchedule_later [OF assms(2,3)] assms(5) [OF Some] due]
  have len: "length xs = card (set xs)" using x by (simp add: distinct_card strict_sorted_iff)
  have late: "time_sub now t \<le> scheduleSkipGrace \<longleftrightarrow> \<not> now - t > 5 * minute" for t
    using time_sub_le_iff [of scheduleSkipGrace now t] by (simp add: scheduleSkipGrace_def dur_ok_def max_duration_def go_simps not_less)
  have D: "DueInstants (sched, loc) c now scheduleDueInstantCap = (xs, ok)" using due by (simp add: DueInstants_def scheduleDueInstantCap_def)
  have step: "dueAutomationSchedule out d i spec now =
      (if \<not> ok then (d\<lparr>sd_cursors := (sd_cursors d)(i \<mapsto> now)\<rparr>, None) else if xs = [] then (d, None)
       else if tr_CatchUp (de_Trigger spec) = ''skip'' \<and> now - last xs > 5 * minute then (d\<lparr>sd_cursors := (sd_cursors d)(i \<mapsto> now)\<rparr>, None)
       else (d, Some (last xs)))"
    using assms(1,2,4) Some D late by (simp add: dueAutomationSchedule_def rows_work Let_def)
  have full: "ok \<longleftrightarrow> \<not> (infinite S \<or> card S \<ge> 1000000)"
  proof (cases ok)
    case True
    then show ?thesis using x len by (metis S_def List.finite_set not_le)
  next
    case False
    then have "set xs \<subseteq> S" "card (set xs) = 1000000" using x len by (simp_all add: S_def)
    then show ?thesis using False card_mono by (metis order_refl)
  qed
  have "xs = [] \<longleftrightarrow> S = {}" "xs \<noteq> [] \<Longrightarrow> last xs = Max S" if ok
    using x that last_is_Max by (auto simp: S_def)
  then show ?thesis using Some full unfolding step due_set_def [symmetric] by (auto simp: Let_def S_def)
qed

definition demo_schedule :: ScheduleSpec where
  "demo_schedule = \<lparr>sc_Cron = ''* * * * *'', sc_TimeZone = ''UTC''\<rparr>"

definition demo_scheduled :: DefinitionSpec where
  "demo_scheduled = demo_definition\<lparr>de_Trigger := \<lparr>tr_Type = ''scheduled'', tr_Repositories = \<lparr>rf_Mode = [], rf_Include = [], rf_Exclude = []\<rparr>,
     tr_Schedule = Some demo_schedule, tr_Guard = [], tr_Continuity = ''fresh'', tr_CatchUp = ''latest''\<rparr>\<rparr>"

definition demo_rows :: schedule_db where
  "demo_rows = \<lparr>sd_cursors = [7 \<mapsto> 0], sd_checks = Map.empty, sd_runs = Map.empty, sd_faults = []\<rparr>"

lemma demo_compiles: "CompileSchedule demo_outside demo_schedule = Inr (\<lambda>loc t. t + minute - t mod minute, 0)"
proof -
  have "scheduleValidationSample + minute - scheduleValidationSample mod minute \<noteq> 0"
    by (simp add: scheduleValidationSample_def go_simps)
  then show ?thesis
    by (simp add: CompileSchedule_def demo_schedule_def demo_outside_def TrimSpace_graphic graphic_def HasPrefix_def)
qed

lemma demo_later: "cron_later demo_outside"
proof -
  have "t < t + minute - t mod minute" for t :: int using pos_mod_bound [of minute t] by (simp add: go_simps)
  then show ?thesis by (auto simp: cron_later_def demo_outside_def split: if_splits)
qed

theorem dueAutomationSchedule_exact_witness:
  "dueAutomationSchedule demo_outside demo_rows 7 demo_scheduled (61 * second) = (demo_rows, Some (60 * second))"
proof -
  let ?n = "\<lambda>t. t + minute - t mod minute"
  have l: "?n t = 0 \<or> t < ?n t" if "0 \<le> t" for t using CompileSchedule_later [OF demo_compiles demo_later that] .
  have "due_set ?n 0 (61 * second) = insert (60 * second) (due_set ?n (60 * second) (61 * second))"
    using due_set_step(1) [of ?n 0 "61 * second"] l by (simp add: go_simps)
  also have "due_set ?n (60 * second) (61 * second) = {}"
    using due_set_step(1) [of ?n "60 * second" "61 * second"] l by (simp add: go_simps)
  finally have "due_set ?n 0 (61 * second) = {60 * second}" .
  then show ?thesis
    using dueAutomationSchedule_exact [OF _ demo_compiles demo_later, of demo_scheduled demo_rows 7 "61 * second"]
    unfolding due_set_def by (simp add: demo_scheduled_def demo_rows_def)
qed

subsection \<open>No occurrence twice\<close>

lemma due_from_later:
  assumes "\<And>t. 0 \<le> t \<Longrightarrow> nextOf t = 0 \<or> t < nextOf t" "0 \<le> at" "due_from nextOf at now n = (xs, ok)"
  shows "(\<forall>t \<in> set xs. at < t \<and> t \<le> now) \<and> (\<not> ok \<longrightarrow> length xs = n)"
  using assms(2,3)
proof (induction n arbitrary: at xs)
  case (Suc n)
  show ?case
  proof (cases "nextOf at = 0 \<or> nextOf at > now")
    case False
    then obtain ys where ys: "due_from nextOf (nextOf at) now n = (ys, ok)" "xs = nextOf at # ys"
      using Suc.prems(2) by (auto simp: Let_def split: prod.splits)
    have "at < nextOf at" using assms(1) [OF Suc.prems(1)] False by auto
    then show ?thesis using Suc.IH [OF _ ys(1)] Suc.prems(1) False ys(2) by fastforce
  qed (use Suc.prems in \<open>auto simp: Let_def\<close>)
qed simp

text \<open>What a step does to the cursor of a definition: it never goes back, and passes what the step names.\<close>

definition cursor_follows :: "int \<Rightarrow> schedule_db \<Rightarrow> schedule_db \<Rightarrow> time option \<Rightarrow> bool" where
  "cursor_follows i d d' r \<longleftrightarrow> sd_faults d' = [] \<and> (\<forall>c'. sd_cursors d' i = Some c' \<longrightarrow> 0 \<le> c') \<and>
     (case sd_cursors d i of
        None \<Rightarrow> r = None
      | Some c \<Rightarrow> \<exists>c'. sd_cursors d' i = Some c' \<and> c \<le> c' \<and> (\<forall>t. r = Some t \<longrightarrow> c < t \<and> t \<le> c'))"

lemma set_cursor: "sd_faults d = [] \<Longrightarrow> fst (SetAutomationScheduleCursor d i now) = d\<lparr>sd_cursors := (sd_cursors d)(i \<mapsto> now)\<rparr>"
  by (simp add: rows_work)

lemma due_cases:
  assumes works: "sd_faults d = []" and due: "dueAutomationSchedule out d i spec now = (d', r)"
    and moved: "moved = d\<lparr>sd_cursors := (sd_cursors d)(i \<mapsto> now)\<rparr>"
  obtains (idle) "d' = d" "r = None" | (start) "sd_cursors d i = None" "d' = moved" "r = None"
    | (seen) c sched loc xs ok s where "sd_cursors d i = Some c" "CompileSchedule out s = Inr (sched, loc)"
        "DueInstants (sched, loc) c now scheduleDueInstantCap = (xs, ok)" "\<not> ok \<or> xs \<noteq> []"
        "d' = moved \<and> r = None \<or> d' = d \<and> ok \<and> r = Some (last xs)"
proof (cases "tr_Schedule (de_Trigger spec)")
  case None
  then have "d' = d \<and> r = None" using due by (simp add: dueAutomationSchedule_def)
  then show ?thesis using idle by blast
next
  case (Some s)
  show ?thesis
  proof (cases "CompileSchedule out s")
    case Inl
    then have "d' = d \<and> r = None" using due Some by (simp add: dueAutomationSchedule_def)
    then show ?thesis using idle by blast
  next
    case (Inr p)
    obtain sched loc where p: "p = (sched, loc)" by (cases p)
    have g: "GetAutomationScheduleCursor d i = (d, Inr (sd_cursors d i))" using works by (simp add: rows_work)
    show ?thesis
    proof (cases "sd_cursors d i")
      case None
      then have "d' = moved \<and> r = None" using due Some Inr g by (simp add: dueAutomationSchedule_def set_cursor [OF works] moved)
      then show ?thesis using start None by blast
    next
      case c: (Some c)
      obtain xs ok where x: "DueInstants (sched, loc) c now scheduleDueInstantCap = (xs, ok)" by fastforce
      have eq: "(d', r) = (if \<not> ok then (moved, None) else if xs = [] then (d, None)
          else if \<not> (if tr_CatchUp (de_Trigger spec) = ''skip'' then time_sub now (last xs) \<le> scheduleSkipGrace else True) then (moved, None)
          else (d, Some (last xs)))"
        unfolding due [symmetric] using Some Inr g c x by (simp add: dueAutomationSchedule_def p set_cursor [OF works] moved advanceAutomationSchedule_def Let_def)
      show ?thesis
      proof (cases "ok \<and> xs = []")
        case True
        then show ?thesis using eq idle by simp
      next
        case False
        then show ?thesis using seen [OF c Inr [unfolded p] x] eq by (auto split: if_splits)
      qed
    qed
  qed
qed

lemma due_follows:
  assumes "cron_later out" "sd_faults d = []" "0 \<le> now" "\<forall>c. sd_cursors d i = Some c \<longrightarrow> 0 \<le> c"
    and due: "dueAutomationSchedule out d i spec now = (d', r)"
  shows "cursor_follows i d d' None \<and> (\<forall>t. r = Some t \<longrightarrow> d' = d \<and> (\<exists>c. sd_cursors d i = Some c \<and> c < t \<and> t \<le> now))"
proof (rule due_cases [OF assms(2) due refl])
  fix c sched loc xs ok s
  assume seen: "sd_cursors d i = Some c" "CompileSchedule out s = Inr (sched, loc)" "DueInstants (sched, loc) c now scheduleDueInstantCap = (xs, ok)"
    "\<not> ok \<or> xs \<noteq> []" "d' = d\<lparr>sd_cursors := (sd_cursors d)(i \<mapsto> now)\<rparr> \<and> r = None \<or> d' = d \<and> ok \<and> r = Some (last xs)"
  have l: "(\<forall>t \<in> set xs. c < t \<and> t \<le> now) \<and> (\<not> ok \<longrightarrow> length xs = nat scheduleDueInstantCap)"
    using due_from_later [of "sched loc" c now "nat scheduleDueInstantCap" xs ok] CompileSchedule_later [OF seen(2) assms(1)] assms(4) seen(1,3)
    by (auto simp: DueInstants_def)
  have "xs \<noteq> []" using l seen(4) by (auto simp: scheduleDueInstantCap_def)
  then have "c < last xs" "last xs \<le> now" using l last_in_set by blast+
  then show ?thesis using seen(1,5) assms(2-4) by (auto simp: cursor_follows_def)
qed (use assms(2-4) in \<open>auto simp: cursor_follows_def split: option.splits\<close>)

lemma decision_works:
  assumes "sd_faults d = []" "recordAutomationGuardDecision d i guard r now = (d', x)"
  shows "sd_faults d' = []" "sd_cursors d' = sd_cursors d" "sd_runs d' = sd_runs d"
  using assms by (auto simp: recordAutomationGuardDecision_def rows_work Let_def split: if_splits)

lemma claim_works:
  assumes "sd_faults d = []" "claim_rows d i check c now = (d', x)"
  shows "sd_faults d' = []" "sd_cursors d' = sd_cursors d"
  using assms by (auto simp: claim_rows_def rows_work split: claim.splits option.splits prod.splits)

lemma observe_follows:
  assumes "cron_later out" "sd_faults d = []" "0 \<le> now" "\<forall>c. sd_cursors d i = Some c \<longrightarrow> 0 \<le> c"
    and "observe_schedule out i spec now result c d = (d', r)"
  shows "cursor_follows i d d' r"
proof -
  obtain d1 p where p: "dueAutomationSchedule out d i spec now = (d1, p)" by fastforce
  note due = due_follows [OF assms(1-4) p]
  show ?thesis
  proof (cases p)
    case None
    then show ?thesis using due assms(5) p by (simp add: observe_schedule_def)
  next
    case (Some t)
    then obtain cur where t: "d1 = d" "sd_cursors d i = Some cur" "cur < t" "t \<le> now" using due by blast
    have moved: "cursor_follows i d (advanceAutomationSchedule e i now) x"
      if "sd_faults e = []" "sd_cursors e = sd_cursors d" "x = None \<or> x = Some t" for e x
      using that t assms(3) by (auto simp: rows_work cursor_follows_def)
    have kept: "cursor_follows i d e None" if "sd_faults e = []" "sd_cursors e = sd_cursors d" for e
      using that t assms(4) by (auto simp: cursor_follows_def)
    have deliver: "cursor_follows i d e y"
      if "sd_faults d2 = []" "sd_cursors d2 = sd_cursors d"
        "(case claim_rows d2 i check c now of (d, Inl _) \<Rightarrow> (d, None) | (d, Inr _) \<Rightarrow> (advanceAutomationSchedule d i now, Some t)) = (e, y)"
      for d2 check e y
      using that claim_works [OF that(1)] moved kept by (cases "claim_rows d2 i check c now"; cases "snd (claim_rows d2 i check c now)") auto
    show ?thesis
    proof (cases "tr_Guard (de_Trigger spec) = []")
      case True
      then show ?thesis using assms(2,5) p Some t(1) deliver [of d] by (simp add: observe_schedule_def)
    next
      case guarded: False
      show ?thesis
      proof (cases result)
        case None
        then show ?thesis using assms(2,5) p Some t(1) guarded kept [of d] by (simp add: observe_schedule_def)
      next
        case (Some res)
        obtain d2 x where x: "recordAutomationGuardDecision d i (tr_Guard (de_Trigger spec)) res now = (d2, x)" by fastforce
        note w = decision_works [OF assms(2) x]
        have "(case x of Inl _ \<Rightarrow> (d2, None) | Inr False \<Rightarrow> (advanceAutomationSchedule d2 i now, None)
            | Inr True \<Rightarrow> (case claim_rows d2 i (Some (tr_Guard (de_Trigger spec), gr_Output res)) c now of
                (d, Inl _) \<Rightarrow> (d, None) | (d, Inr _) \<Rightarrow> (advanceAutomationSchedule d i now, Some t))) = (d', r)"
          using assms(5) p \<open>p = Some t\<close> t(1) guarded Some x by (simp add: observe_schedule_def split: sum.splits bool.splits)
        then show ?thesis using deliver [OF w(1,2)] kept [OF w(1,2)] moved [OF w(1,2)] by (auto split: sum.splits bool.splits)
      qed
    qed
  qed
qed

text \<open>Rounds: the definition as it is then, the time, what its guard gave and how the claim went.\<close>

fun observe_rounds ::
  "outside \<Rightarrow> int \<Rightarrow> (DefinitionSpec \<times> time \<times> GuardResult option \<times> claim) list \<Rightarrow> schedule_db \<Rightarrow> schedule_db \<times> time list" where
  "observe_rounds out i [] d = (d, [])"
| "observe_rounds out i ((spec, now, result, c) # rounds) d =
     (let (d1, r) = observe_schedule out i spec now result c d; (d2, ts) = observe_rounds out i rounds d1 in
      (d2, (case r of None \<Rightarrow> ts | Some t \<Rightarrow> t # ts)))"

text \<open>
  C21. Over any rounds of the observation of a definition whose rows work, however the clock, the
  definition, its guard and the claims go in between, the claimed occurrences are strictly ascending and
  later than the cursor at the start, so no occurrence is claimed twice: provided that the cron
  library's next instant is later than the given one, and no time is before the epoch.
\<close>

theorem no_occurrence_twice:
  assumes "cron_later out" "sd_faults d = []" "\<And>c. sd_cursors d i = Some c \<Longrightarrow> 0 \<le> c" "\<forall>(_, now, _, _) \<in> set rounds. 0 \<le> now"
  shows "sorted_wrt (<) (snd (observe_rounds out i rounds d)) \<and>
    (\<forall>t \<in> set (snd (observe_rounds out i rounds d)). \<forall>c. sd_cursors d i = Some c \<longrightarrow> c < t)"
  using assms(2-4)
proof (induction rounds arbitrary: d)
  case (Cons x rounds)
  obtain spec now result c where x: "x = (spec, now, result, c)" by (cases x)
  obtain d1 r where r: "observe_schedule out i spec now result c d = (d1, r)" by fastforce
  define ts where "ts = snd (observe_rounds out i rounds d1)"
  have f: "cursor_follows i d d1 r" using observe_follows [OF assms(1) Cons.prems(1) _ _ r] Cons.prems(2,3) by (simp add: x)
  have ts: "sorted_wrt (<) ts \<and> (\<forall>t \<in> set ts. \<forall>c. sd_cursors d1 i = Some c \<longrightarrow> c < t)"
    unfolding ts_def using f Cons.prems(3) by (intro Cons.IH) (auto simp: cursor_follows_def)
  have "snd (observe_rounds out i (x # rounds) d) = (case r of None \<Rightarrow> ts | Some t \<Rightarrow> t # ts)"
    by (cases "observe_rounds out i rounds d1"; cases r) (simp_all add: x r ts_def)
  then show ?case using f ts by (fastforce simp: cursor_follows_def split: option.splits)
qed simp

definition demo_claimed :: schedule_db where
  "demo_claimed = demo_rows\<lparr>sd_cursors := [7 \<mapsto> 62 * second], sd_runs := [''r'' \<mapsto> AutomationRunStatePending]\<rparr>"

lemma demo_due:
  assumes "sd_faults d = []" "sd_cursors d 7 = Some c"
  shows "c = 0 \<Longrightarrow> 60 * second < now \<Longrightarrow> now < 120 * second \<Longrightarrow> dueAutomationSchedule demo_outside d 7 demo_scheduled now = (d, Some (60 * second))"
    and "c = 62 * second \<Longrightarrow> now = 63 * second \<Longrightarrow> dueAutomationSchedule demo_outside d 7 demo_scheduled now = (d, None)"
proof -
  have "due_from (\<lambda>t. t + minute - t mod minute) 0 now (Suc (Suc m)) = ([60 * second], True)" if "60 * second < now" "now < 120 * second" for m
    using that by (simp add: go_simps Let_def)
  from this [of 999998] have one: "due_from (\<lambda>t. t + minute - t mod minute) 0 now 1000000 = ([60 * second], True)"
    if "60 * second < now" "now < 120 * second" using that by simp
  have "due_from (\<lambda>t. t + minute - t mod minute) (62 * second) (63 * second) (Suc m) = ([], True)" for m by (simp add: go_simps)
  from this [of 999999] have two: "due_from (\<lambda>t. t + minute - t mod minute) (62 * second) (63 * second) 1000000 = ([], True)" by simp
  have s: "tr_Schedule (de_Trigger demo_scheduled) = Some demo_schedule" "tr_CatchUp (de_Trigger demo_scheduled) = ''latest''"
    by (simp_all add: demo_scheduled_def)
  note defs = dueAutomationSchedule_def s demo_compiles rows_work DueInstants_def scheduleDueInstantCap_def
  show "c = 0 \<Longrightarrow> 60 * second < now \<Longrightarrow> now < 120 * second \<Longrightarrow> dueAutomationSchedule demo_outside d 7 demo_scheduled now = (d, Some (60 * second))"
    using assms one by (simp add: defs)
  show "c = 62 * second \<Longrightarrow> now = 63 * second \<Longrightarrow> dueAutomationSchedule demo_outside d 7 demo_scheduled now = (d, None)"
    using assms two by (simp add: defs)
qed

lemma demo_observed:
  "observe_schedule demo_outside 7 demo_scheduled (61 * second) None ClaimRefused demo_rows = (demo_rows, None)"
  "observe_schedule demo_outside 7 demo_scheduled (62 * second) None (ClaimedNew ''r'') demo_rows = (demo_claimed, Some (60 * second))"
  "observe_schedule demo_outside 7 demo_scheduled (63 * second) None c demo_claimed = (demo_claimed, None)"
proof -
  have g: "tr_Guard (de_Trigger demo_scheduled) = []" by (simp add: demo_scheduled_def)
  have first: "dueAutomationSchedule demo_outside demo_rows 7 demo_scheduled now = (demo_rows, Some (60 * second))"
    if "now \<in> {61 * second, 62 * second}" for now using that by (intro demo_due(1)) (auto simp: demo_rows_def go_simps)
  have second: "dueAutomationSchedule demo_outside demo_claimed 7 demo_scheduled (63 * second) = (demo_claimed, None)"
    by (rule demo_due(2)) (simp_all add: demo_claimed_def demo_rows_def)
  show "observe_schedule demo_outside 7 demo_scheduled (61 * second) None ClaimRefused demo_rows = (demo_rows, None)"
    by (simp add: observe_schedule_def g first claim_rows_def)
  show "observe_schedule demo_outside 7 demo_scheduled (62 * second) None (ClaimedNew ''r'') demo_rows = (demo_claimed, Some (60 * second))"
  proof -
    have "sd_faults demo_rows = []" by (simp add: demo_rows_def)
    then show ?thesis by (simp add: observe_schedule_def g first claim_rows_def rows_work) (simp add: demo_rows_def demo_claimed_def)
  qed
  show "observe_schedule demo_outside 7 demo_scheduled (63 * second) None c demo_claimed = (demo_claimed, None)"
    by (simp add: observe_schedule_def second)
qed

theorem no_occurrence_twice_witness:
  "\<exists>t. snd (observe_rounds demo_outside 7 [(demo_scheduled, 61 * second, None, ClaimRefused), (demo_scheduled, 62 * second, None, ClaimedNew ''r''),
     (demo_scheduled, 63 * second, None, ClaimedNew ''s'')] demo_rows) = [t] \<and> 0 < t"
proof -
  let ?rounds = "[(demo_scheduled, 61 * second, None, ClaimRefused), (demo_scheduled, 62 * second, None, ClaimedNew ''r''),
     (demo_scheduled, 63 * second, None, ClaimedNew ''s'')]"
  have "cron_later demo_outside" by (rule demo_later)
  then have *: "sorted_wrt (<) (snd (observe_rounds demo_outside 7 ?rounds demo_rows)) \<and>
      (\<forall>t \<in> set (snd (observe_rounds demo_outside 7 ?rounds demo_rows)). \<forall>c. sd_cursors demo_rows 7 = Some c \<longrightarrow> c < t)"
    by (rule no_occurrence_twice) (auto simp: demo_rows_def go_simps)
  have "snd (observe_rounds demo_outside 7 ?rounds demo_rows) = [60 * second]"
    by (simp add: demo_observed)
  then show ?thesis using * by (simp add: demo_rows_def)
qed

subsection \<open>What a guard's output starts\<close>

text \<open>
  What happens around the guard of a definition: it is checked, under the guard's text at that time, with what
  it gave and how a claim would go if a run is to be launched; and a run of the automation changes its state,
  to whatever state, as deliveries, failures and cancellations do. The decisions of the code over such a
  history:
\<close>

datatype guard_event = Checked string GuardResult claim time | RunBecomes string string

fun guard_checks :: "int \<Rightarrow> guard_event list \<Rightarrow> schedule_db \<Rightarrow> (unit + bool) list" where
  "guard_checks i [] d = []"
| "guard_checks i (RunBecomes run state # es) d = guard_checks i es (d\<lparr>sd_runs := (sd_runs d)(run \<mapsto> state)\<rparr>)"
| "guard_checks i (Checked guard r c now # es) d =
     (case recordAutomationGuardDecision d i guard r now of (d, launch) \<Rightarrow>
        launch # guard_checks i es
          (if launch = Inr True then fst (claim_rows d i (Some (guard, gr_Output r)) c now) else d))"

text \<open>
  The abstract guard has a memory of the last output that a run was claimed for, with its run and the guard
  that printed it. An output is answered when it is the remembered one of the same guard and its run is
  pending or delivered. A check that neither fails nor prints nothing nor prints what is answered launches; the
  output is remembered when that claims a new run. An empty output makes the guard forget, and so does a
  check under another guard that does not launch.
\<close>

type_synonym guard_memory = "(string \<times> string \<times> string) option"

definition answered :: "guard_memory \<Rightarrow> (string \<rightharpoonup> string) \<Rightarrow> string \<Rightarrow> string \<Rightarrow> bool" where
  "answered memory runs guard output \<longleftrightarrow>
     (case memory of None \<Rightarrow> False
      | Some (g, out, run) \<Rightarrow> g = guard \<and> out = output \<and> runs run \<in> {Some ''pending'', Some ''delivered''})"

definition kept_for :: "string \<Rightarrow> guard_memory \<Rightarrow> guard_memory" where
  "kept_for guard memory = (case memory of None \<Rightarrow> None | Some (g, x) \<Rightarrow> if g = guard then memory else None)"

fun guard_outcomes :: "guard_memory \<Rightarrow> (string \<rightharpoonup> string) \<Rightarrow> guard_event list \<Rightarrow> bool list" where
  "guard_outcomes memory runs [] = []"
| "guard_outcomes memory runs (RunBecomes run state # es) = guard_outcomes memory (runs(run \<mapsto> state)) es"
| "guard_outcomes memory runs (Checked guard r c now # es) =
     (if gr_Failure r \<noteq> [] then False # guard_outcomes (kept_for guard memory) runs es
      else if gr_Output r = [] then False # guard_outcomes None runs es
      else if answered memory runs guard (gr_Output r) then False # guard_outcomes memory runs es
      else True # (case c of
          ClaimedNew run \<Rightarrow> guard_outcomes (Some (guard, gr_Output r, run)) (runs(run \<mapsto> ''pending'')) es
        | _ \<Rightarrow> guard_outcomes memory runs es))"

text \<open>What the row of a definition remembers.\<close>

definition remembered :: "schedule_db \<Rightarrow> int \<Rightarrow> guard_memory" where
  "remembered d i =
     (case sd_checks d i of
        None \<Rightarrow> None
      | Some c \<Rightarrow> if gc_HandledOutput c = [] then None else Some (gc_Guard c, gc_HandledOutput c, gc_HandledRunID c))"

lemma live_state: "(case s of None \<Rightarrow> [] | Some state \<Rightarrow> state) = AutomationRunStatePending \<or>
    (case s of None \<Rightarrow> [] | Some state \<Rightarrow> state) = AutomationRunStateDelivered \<longleftrightarrow> s \<in> {Some ''pending'', Some ''delivered''}"
  by (cases s) (auto simp: AutomationRunStatePending_def AutomationRunStateDelivered_def)

lemma skip_remembered:
  assumes "sd_faults d = []"
  shows "remembered (fst (RecordAutomationGuardSkip d i guard outcome detail now)) i =
      (if outcome = ''empty'' then None else kept_for guard (remembered d i))"
    "sd_runs (fst (RecordAutomationGuardSkip d i guard outcome detail now)) = sd_runs d"
  using assms by (auto simp: rows_work remembered_def skipped_check_def kept_for_def Let_def split: option.splits)

lemma decision_step:
  assumes "sd_faults d = []"
  shows "recordAutomationGuardDecision d i guard r now =
    (let skip = (\<lambda>outcome. (fst (RecordAutomationGuardSkip d i guard outcome (gr_Failure r) now), Inr False)) in
     if gr_Failure r \<noteq> [] then skip ''failed'' else if gr_Output r = [] then skip ''empty''
     else if answered (remembered d i) (sd_runs d) guard (gr_Output r) then skip ''unchanged'' else (d, Inr True))"
proof -
  define handled where "handled = (case map_option (\<lambda>c. (c, case sd_runs d (gc_HandledRunID c) of None \<Rightarrow> [] | Some state \<Rightarrow> state)) (sd_checks d i) of
      None \<Rightarrow> [] | Some (c, state) \<Rightarrow>
        if gc_Guard c = guard \<and> (state = AutomationRunStatePending \<or> state = AutomationRunStateDelivered) then gc_HandledOutput c else [])"
  have h: "gr_Output r = handled \<longleftrightarrow> answered (remembered d i) (sd_runs d) guard (gr_Output r)" if "gr_Output r \<noteq> []"
  proof (cases "sd_checks d i")
    case None
    then show ?thesis using that by (simp add: handled_def answered_def remembered_def)
  next
    case (Some c)
    have "handled = (if gc_Guard c = guard \<and> sd_runs d (gc_HandledRunID c) \<in> {Some ''pending'', Some ''delivered''} then gc_HandledOutput c else [])"
      unfolding handled_def Some option.map option.case prod.case live_state by (rule refl)
    then show ?thesis using that Some by (auto simp: answered_def remembered_def)
  qed
  have "recordAutomationGuardDecision d i guard r now =
      (let skip = (\<lambda>outcome. (fst (RecordAutomationGuardSkip d i guard outcome (gr_Failure r) now), Inr False)) in
       if gr_Failure r \<noteq> [] then skip ''failed'' else if gr_Output r = [] then skip ''empty''
       else if gr_Output r = handled then skip ''unchanged'' else (d, Inr True))"
    using assms by (simp add: recordAutomationGuardDecision_def rows_work handled_def Let_def)
  then show ?thesis using h by (auto simp: Let_def)
qed

lemma claim_remembered:
  assumes "sd_faults d = []"
  shows "remembered (fst (claim_rows d i (Some (guard, out)) c now)) i = (case c of ClaimedNew run \<Rightarrow> if out = [] then None else Some (guard, out, run) | _ \<Rightarrow> remembered d i)"
    "sd_runs (fst (claim_rows d i (Some (guard, out)) c now)) = (case c of ClaimedNew run \<Rightarrow> (sd_runs d)(run \<mapsto> ''pending'') | _ \<Rightarrow> sd_runs d)"
  using assms by (auto simp: claim_rows_def rows_work remembered_def AutomationRunStatePending_def split: claim.splits)

lemma answered_kept: "answered memory runs guard output \<Longrightarrow> kept_for guard memory = memory"
  by (auto simp: answered_def kept_for_def split: option.splits)



end
